(* ===== verification/Prelude.thy ===== *)
theory Prelude
  imports Main "HOL-Library.Word" "HOL-Library.Char_ord" "HOL-Library.List_Lexorder"
    "HOL-Library.Code_Target_Numeral"
begin

text \<open>
  What every component of the development shares: the named collections of
  rewrite rules, the Go error values, the parts of Go's \<^verbatim>\<open>strings\<close>, \<^verbatim>\<open>strconv\<close>
  and \<^verbatim>\<open>math/big\<close> that the program calls, big-endian byte strings, and generic
  lemmas on lists and association lists.

  A Go string is a \<^typ>\<open>string\<close> (a list of bytes). A Go map whose iteration order is
  unspecified is an association list with distinct keys: the order of the list stands
  for the order the runtime happens to choose, so a theorem about every list is a
  theorem about every iteration order.
\<close>

named_theorems go_str \<open>characteristic equations of the string helpers\<close>
named_theorems ip_len \<open>lengths of byte-level IP values\<close>
named_theorems addr_simps \<open>equations that move from byte level to address level\<close>

section \<open>Errors\<close>

text \<open>
  Go errors. \<open>ApiErr\<close> is a Kubernetes \<^verbatim>\<open>StatusError\<close> with its reason, \<open>Wrap\<close> is
  \<^verbatim>\<open>fmt.Errorf("...: %w", err)\<close> (the literal part of the format string is kept as a
  tag), \<open>TemporaryError\<close> is \<^verbatim>\<open>temporaryError\<close> of \<^verbatim>\<open>pkg/storage/kubernetes/errors.go\<close>,
  \<open>Msg\<close> any other error, named by the literal part of its text.
\<close>

datatype api_reason =
    NotFound | AlreadyExists | Conflict | Invalid | ServerTimeout | Timeout
  | TooManyRequests | ServiceUnavailable | OtherReason

datatype err =
    Msg string
  | ApiErr api_reason
  | NetTimeout
  | Wrap string err
  | TemporaryError err

type_synonym 'a result = "err + 'a"

text \<open>
  \<^verbatim>\<open>apierrors.IsNotFound\<close> and its kin unwrap the error chain (\<^verbatim>\<open>errors.As\<close>); both
  \<^verbatim>\<open>fmt.Errorf\<close> with \<^verbatim>\<open>%w\<close> and \<^verbatim>\<open>temporaryError\<close> have an \<^verbatim>\<open>Unwrap\<close> method.
\<close>

fun api_reason_of :: "err \<Rightarrow> api_reason option" where
  "api_reason_of (ApiErr r) = Some r"
| "api_reason_of (Wrap _ e) = api_reason_of e"
| "api_reason_of (TemporaryError e) = api_reason_of e"
| "api_reason_of _ = None"

definition is_reason :: "api_reason \<Rightarrow> err \<Rightarrow> bool" where
  "is_reason r e \<longleftrightarrow> api_reason_of e = Some r"

abbreviation IsNotFound :: "err \<Rightarrow> bool" where "IsNotFound \<equiv> is_reason NotFound"
abbreviation IsAlreadyExists :: "err \<Rightarrow> bool" where "IsAlreadyExists \<equiv> is_reason AlreadyExists"
abbreviation IsConflict :: "err \<Rightarrow> bool" where "IsConflict \<equiv> is_reason Conflict"
abbreviation IsInvalid :: "err \<Rightarrow> bool" where "IsInvalid \<equiv> is_reason Invalid"

lemma is_reason_simps [simp]:
  "is_reason r (ApiErr r') \<longleftrightarrow> r' = r"
  "is_reason r (Wrap t e) \<longleftrightarrow> is_reason r e"
  "is_reason r (TemporaryError e) \<longleftrightarrow> is_reason r e"
  "is_reason r (Msg t) \<longleftrightarrow> False"
  "is_reason r NetTimeout \<longleftrightarrow> False"
  by (auto simp: is_reason_def)

section \<open>Strings\<close>

definition digit :: "nat \<Rightarrow> char" where
  "digit d = char_of (48 + d)"

definition is_digit :: "char \<Rightarrow> bool" where
  "is_digit c \<longleftrightarrow> 48 \<le> (of_char c :: nat) \<and> (of_char c :: nat) \<le> 57"

definition digit_val :: "char \<Rightarrow> nat" where
  "digit_val c = of_char c - 48"

lemma of_char_digit: "d < 10 \<Longrightarrow> (of_char (digit d) :: nat) = 48 + d"
  by (simp add: digit_def)

lemma is_digit_digit [simp]: "d < 10 \<Longrightarrow> is_digit (digit d)"
  by (simp add: is_digit_def of_char_digit)

lemma digit_val_digit [simp]: "d < 10 \<Longrightarrow> digit_val (digit d) = d"
  by (simp add: digit_val_def of_char_digit)

text \<open>Decimal printing: \<^verbatim>\<open>%d\<close>, \<^verbatim>\<open>strconv.Itoa\<close> and \<^verbatim>\<open>big.Int.String\<close> on non-negative values.\<close>

fun dec :: "nat \<Rightarrow> string" where
  "dec n = (if n < 10 then [digit n] else dec (n div 10) @ [digit (n mod 10)])"

declare dec.simps [simp del]

definition digits_val :: "string \<Rightarrow> nat" where
  "digits_val s = foldl (\<lambda>n c. n * 10 + digit_val c) 0 s"

lemma digits_val_snoc [go_str]: "digits_val (s @ [c]) = digits_val s * 10 + digit_val c"
  by (simp add: digits_val_def)

lemma dec_not_Nil [simp]: "dec n \<noteq> []"
  by (subst dec.simps) simp

lemma dec_digits: "list_all is_digit (dec n)"
proof (induction n rule: dec.induct)
  case (1 n)
  then show ?case by (cases "n < 10") (simp_all add: dec.simps [of n])
qed

lemma dec_set_digits: "c \<in> set (dec n) \<Longrightarrow> is_digit c"
  using dec_digits [of n] by (simp add: list_all_iff)

lemma digits_val_dec [simp]: "digits_val (dec n) = n"
proof (induction n rule: dec.induct)
  case (1 n)
  show ?case
  proof (cases "n < 10")
    case True
    then show ?thesis by (simp add: dec.simps [of n] digits_val_def)
  next
    case False
    with 1 show ?thesis by (simp add: dec.simps [of n] digits_val_snoc)
  qed
qed

lemma dec_inject [simp]: "dec m = dec n \<longleftrightarrow> m = n"
  by (metis digits_val_dec)

lemma dec_small: "n < 10 \<Longrightarrow> dec n = [digit n]"
  by (simp add: dec.simps)

lemma dec_hd_zero:
  assumes "0 < n"
  shows "hd (dec n) \<noteq> digit 0"
  using assms
proof (induction n rule: dec.induct)
  case (1 n)
  show ?case
  proof (cases "n < 10")
    case True
    have "digit n \<noteq> digit 0"
      using True "1.prems" of_char_digit [of n] of_char_digit [of 0] by auto
    then show ?thesis using True by (simp add: dec_small)
  next
    case False
    then have "hd (dec (n div 10)) \<noteq> digit 0" using 1 by simp
    then show ?thesis using False by (simp add: dec.simps [of n])
  qed
qed

text \<open>
  \<^verbatim>\<open>new(big.Int).SetString(s, 10)\<close>: an optional sign, then at least one digit, nothing
  else (underscores are accepted in base 0 only).
\<close>

definition nat_of_digits :: "string \<Rightarrow> nat option" where
  "nat_of_digits s = (if s = [] \<or> \<not> list_all is_digit s then None else Some (digits_val s))"

fun big_SetString :: "string \<Rightarrow> int option" where
  "big_SetString (CHR ''-'' # s) = map_option (\<lambda>n. - int n) (nat_of_digits s)"
| "big_SetString (CHR ''+'' # s) = map_option int (nat_of_digits s)"
| "big_SetString s = map_option int (nat_of_digits s)"

text \<open>\<^verbatim>\<open>strconv.Atoi\<close> on a 64-bit platform: the same syntax, and the value has to fit \<^verbatim>\<open>int\<close>.\<close>

definition Atoi :: "string \<Rightarrow> int option" where
  "Atoi s = (case big_SetString s of
     None \<Rightarrow> None
   | Some n \<Rightarrow> if - (2 ^ 63) \<le> n \<and> n < 2 ^ 63 then Some n else None)"

lemma nat_of_digits_dec [simp]: "nat_of_digits (dec n) = Some n"
  using dec_digits [of n] by (simp add: nat_of_digits_def)

lemma dec_hd_is_digit: "\<exists>c cs. dec n = c # cs \<and> is_digit c"
  using dec_digits [of n] dec_not_Nil [of n] by (cases "dec n") auto

lemma sign_not_digit [simp]: "\<not> is_digit (CHR ''-'')" "\<not> is_digit (CHR ''+'')"
    "\<not> is_digit (CHR ''.'')" "\<not> is_digit (CHR '':'')" "\<not> is_digit (CHR ''/'')"
  by (simp_all add: is_digit_def)

lemma big_SetString_no_sign:
  assumes "s \<noteq> []" "hd s \<noteq> CHR ''-''" "hd s \<noteq> CHR ''+''"
  shows "big_SetString s = map_option int (nat_of_digits s)"
  using assms by (cases s rule: big_SetString.cases) auto

lemma dec_hd_neq: "hd (dec n) \<noteq> CHR ''-''" "hd (dec n) \<noteq> CHR ''+''"
  using dec_hd_is_digit [of n] by auto

lemma big_SetString_dec [simp]: "big_SetString (dec n) = Some (int n)"
  by (simp add: big_SetString_no_sign dec_hd_neq)

lemma Atoi_dec: "n < 2 ^ 63 \<Longrightarrow> Atoi (dec n) = Some (int n)"
  by (simp add: Atoi_def)

text \<open>\<^verbatim>\<open>strings.ReplaceAll\<close> of one byte by another.\<close>

definition replace_byte :: "char \<Rightarrow> char \<Rightarrow> string \<Rightarrow> string" where
  "replace_byte a b s = map (\<lambda>c. if c = a then b else c) s"

lemma length_replace_byte [simp]: "length (replace_byte a b s) = length s"
  by (simp add: replace_byte_def)

lemma replace_byte_append [go_str]:
  "replace_byte a b (s @ t) = replace_byte a b s @ replace_byte a b t"
  by (simp add: replace_byte_def)

lemma replace_byte_notin [go_str]: "a \<notin> set s \<Longrightarrow> replace_byte a b s = s"
  by (induction s) (auto simp: replace_byte_def)

text \<open>\<^verbatim>\<open>strings.SplitN(s, sep, 2)\<close> and \<^verbatim>\<open>strings.Cut\<close>: \<open>None\<close> when \<open>sep\<close> does not occur.\<close>

fun Cut :: "char \<Rightarrow> string \<Rightarrow> (string \<times> string) option" where
  "Cut c [] = None"
| "Cut c (x # xs) =
     (if x = c then Some ([], xs) else map_option (\<lambda>(a, b). (x # a, b)) (Cut c xs))"

lemma Cut_None_iff: "Cut c s = None \<longleftrightarrow> c \<notin> set s"
  by (induction s) auto

lemma Cut_append [simp]: "c \<notin> set a \<Longrightarrow> Cut c (a @ c # b) = Some (a, b)"
  by (induction a) auto

lemma Cut_SomeD: "Cut c s = Some (a, b) \<Longrightarrow> s = a @ c # b \<and> c \<notin> set a"
proof (induction s arbitrary: a)
  case (Cons x xs)
  then show ?case by (cases "x = c") auto
qed simp

lemma Cut_Some_iff: "Cut c s = Some (a, b) \<longleftrightarrow> s = a @ c # b \<and> c \<notin> set a"
  using Cut_SomeD Cut_append by blast

text \<open>\<^verbatim>\<open>strings.Split(s, sep)\<close> for a one-byte separator.\<close>

fun split_on :: "char \<Rightarrow> string \<Rightarrow> string list" where
  "split_on c [] = [[]]"
| "split_on c (x # xs) =
     (if x = c then [] # split_on c xs
      else (case split_on c xs of [] \<Rightarrow> [[x]] | p # ps \<Rightarrow> (x # p) # ps))"

text \<open>\<^verbatim>\<open>strings.Join(parts, sep)\<close> for a one-byte separator.\<close>

fun join :: "char \<Rightarrow> string list \<Rightarrow> string" where
  "join c [] = []"
| "join c [x] = x"
| "join c (x # y # ys) = x @ c # join c (y # ys)"

lemma split_on_not_Nil [simp]: "split_on c s \<noteq> []"
  by (induction s) (auto split: list.splits)

lemma split_on_notin: "c \<notin> set s \<Longrightarrow> split_on c s = [s]"
  by (induction s) auto

lemma split_on_append [go_str]: "c \<notin> set a \<Longrightarrow> split_on c (a @ c # b) = a # split_on c b"
  by (induction a) (auto split: list.splits)

lemma split_on_join:
  "xs \<noteq> [] \<Longrightarrow> list_all (\<lambda>x. c \<notin> set x) xs \<Longrightarrow> split_on c (join c xs) = xs"
  by (induction c xs rule: join.induct) (auto simp: split_on_notin split_on_append)

text \<open>
  \<^verbatim>\<open>strings.TrimSpace\<close> on ASCII text, \<^verbatim>\<open>strings.Trim(s, "-")\<close> and
  \<^verbatim>\<open>strings.TrimPrefix(s, "/")\<close>.
\<close>

definition is_space :: "char \<Rightarrow> bool" where
  "is_space c \<longleftrightarrow> (of_char c :: nat) \<in> {9, 10, 11, 12, 13, 32}"

definition trim_by :: "(char \<Rightarrow> bool) \<Rightarrow> string \<Rightarrow> string" where
  "trim_by p s = rev (dropWhile p (rev (dropWhile p s)))"

definition TrimSpace :: "string \<Rightarrow> string" where
  "TrimSpace s = trim_by is_space s"

definition TrimPrefix :: "char \<Rightarrow> string \<Rightarrow> string" where
  "TrimPrefix c s = (case s of [] \<Rightarrow> [] | x # xs \<Rightarrow> if x = c then xs else s)"

text \<open>Lower-case hexadecimal without leading zeros (\<^verbatim>\<open>%x\<close>, \<^verbatim>\<open>appendHex\<close>) and its reading.\<close>

definition hex_digit :: "nat \<Rightarrow> char" where
  "hex_digit d = (if d < 10 then char_of (48 + d) else char_of (87 + d))"

definition is_hex :: "char \<Rightarrow> bool" where
  "is_hex c \<longleftrightarrow> (let n = (of_char c :: nat) in
     48 \<le> n \<and> n \<le> 57 \<or> 97 \<le> n \<and> n \<le> 102 \<or> 65 \<le> n \<and> n \<le> 70)"

definition hex_val :: "char \<Rightarrow> nat" where
  "hex_val c = (let n = (of_char c :: nat) in
     if n \<le> 57 then n - 48 else if 97 \<le> n then n - 87 else n - 55)"

fun hex :: "nat \<Rightarrow> string" where
  "hex n = (if n < 16 then [hex_digit n] else hex (n div 16) @ [hex_digit (n mod 16)])"

declare hex.simps [simp del]

definition hexs_val :: "string \<Rightarrow> nat" where
  "hexs_val s = foldl (\<lambda>n c. n * 16 + hex_val c) 0 s"

lemma of_char_hex_digit:
  "d < 16 \<Longrightarrow> (of_char (hex_digit d) :: nat) = (if d < 10 then 48 + d else 87 + d)"
  by (simp add: hex_digit_def)

lemma is_hex_hex_digit [simp]: "d < 16 \<Longrightarrow> is_hex (hex_digit d)"
  by (simp add: is_hex_def Let_def of_char_hex_digit)

lemma hex_val_hex_digit [simp]: "d < 16 \<Longrightarrow> hex_val (hex_digit d) = d"
  by (simp add: hex_val_def Let_def of_char_hex_digit)

lemma hex_not_Nil [simp]: "hex n \<noteq> []"
  by (subst hex.simps) simp

lemma hex_digits: "list_all is_hex (hex n)"
proof (induction n rule: hex.induct)
  case (1 n)
  then show ?case by (cases "n < 16") (simp_all add: hex.simps [of n])
qed

lemma hex_set: "c \<in> set (hex n) \<Longrightarrow> is_hex c"
  using hex_digits [of n] by (simp add: list_all_iff)

lemma hexs_val_snoc [go_str]: "hexs_val (s @ [c]) = hexs_val s * 16 + hex_val c"
  by (simp add: hexs_val_def)

lemma hexs_val_hex [simp]: "hexs_val (hex n) = n"
proof (induction n rule: hex.induct)
  case (1 n)
  show ?case
  proof (cases "n < 16")
    case True
    then show ?thesis by (simp add: hex.simps [of n] hexs_val_def)
  next
    case False
    with 1 show ?thesis by (simp add: hex.simps [of n] hexs_val_snoc)
  qed
qed

lemma length_hex: "n < 16 ^ Suc k \<Longrightarrow> length (hex n) \<le> Suc k"
proof (induction k arbitrary: n)
  case 0
  then show ?case by (simp add: hex.simps)
next
  case (Suc k)
  have "n div 16 < 16 ^ Suc k" using Suc.prems by (simp add: less_mult_imp_div_less mult.commute)
  then have "length (hex (n div 16)) \<le> Suc k" by (rule Suc.IH)
  then show ?case by (simp add: hex.simps [of n])
qed

lemma sep_not_hex [simp]: "\<not> is_hex (CHR '':'')" "\<not> is_hex (CHR ''.'')" "\<not> is_hex (CHR ''-'')"
    "\<not> is_hex (CHR ''/'')"
  by (simp_all add: is_hex_def Let_def)

section \<open>Big-endian byte strings\<close>

type_synonym byte = "8 word"

fun be_nat :: "byte list \<Rightarrow> nat" where
  "be_nat [] = 0"
| "be_nat (b # bs) = unat b * 256 ^ length bs + be_nat bs"

fun to_be :: "nat \<Rightarrow> nat \<Rightarrow> byte list" where
  "to_be 0 n = []"
| "to_be (Suc k) n = word_of_nat (n div 256 ^ k) # to_be k n"

lemma length_to_be [simp]: "length (to_be k n) = k"
  by (induction k) auto

lemma be_nat_bound: "be_nat bs < 256 ^ length bs"
proof (induction bs)
  case (Cons b bs)
  have b: "unat b + 1 \<le> 256" using unsigned_less [of b, where 'a = nat] by simp
  have "be_nat (b # bs) < (unat b + 1) * 256 ^ length bs" using Cons by simp
  also have "\<dots> \<le> 256 * 256 ^ length bs" using b by (rule mult_le_mono1)
  finally show ?case by simp
qed simp

lemma be_nat_to_be: "be_nat (to_be k n) = n mod 256 ^ k"
proof (induction k)
  case (Suc k)
  have "unat (word_of_nat (n div 256 ^ k) :: byte) = n div 256 ^ k mod 256"
    by (simp add: unat_of_nat)
  moreover have "n mod 256 ^ Suc k = 256 ^ k * (n div 256 ^ k mod 256) + n mod 256 ^ k"
    by (metis mod_mult2_eq power_Suc2)
  ultimately show ?case using Suc by simp
qed simp

lemma to_be_mod: "to_be k (n mod 256 ^ k) = to_be k n"
proof -
  have "to_be k (n + m * 256 ^ j) = to_be k n" if "k \<le> j" for k j m n
    using that
  proof (induction k)
    case (Suc k)
    then obtain d where j: "j = Suc k + d" using le_Suc_ex by blast
    have "m * 256 ^ j = 256 ^ k * (256 * (m * 256 ^ d))"
      by (simp add: j power_add algebra_simps)
    then have "(n + m * 256 ^ j) div 256 ^ k = n div 256 ^ k + 256 * (m * 256 ^ d)"
      by (simp only: div_mult_self2 power_not_zero) simp
    moreover have "(word_of_nat (256 * (m * 256 ^ d)) :: byte) = 0"
      by (simp only: word_of_nat_eq_0_iff) simp
    ultimately have "(word_of_nat ((n + m * 256 ^ j) div 256 ^ k) :: byte)
        = word_of_nat (n div 256 ^ k)"
      by (simp only: of_nat_add add_0_right)
    then show ?case using Suc by simp
  qed simp
  from this [of k k "n mod 256 ^ k" "n div 256 ^ k"] show ?thesis
    by (simp add: mult.commute)
qed

lemma to_be_be_nat: "to_be (length bs) (be_nat bs) = bs"
proof (induction bs)
  case (Cons b bs)
  have "be_nat (b # bs) div 256 ^ length bs = unat b"
    using be_nat_bound [of bs] by simp
  moreover have "to_be (length bs) (be_nat (b # bs)) = bs"
    using Cons to_be_mod [of "length bs" "be_nat (b # bs)"] be_nat_bound [of bs] by simp
  ultimately show ?case by simp
qed simp

lemma be_nat_inject: "length xs = length ys \<Longrightarrow> be_nat xs = be_nat ys \<longleftrightarrow> xs = ys"
  by (metis to_be_be_nat)

text \<open>Words: clearing and setting the low bits.\<close>

unbundle bit_operations_syntax

lemma unat_and_not_mask:
  fixes w :: "'a::len word"
  shows "unat (w AND NOT (mask k)) = unat w div 2 ^ k * 2 ^ k"
proof -
  have "unat (w AND NOT (mask k)) = push_bit k (drop_bit k (unat w))"
    by (rule bit_eqI) (auto simp: bit_simps dest: bit_imp_le_length)
  then show ?thesis by (simp add: push_bit_eq_mult drop_bit_eq_div)
qed

lemma unat_or_mask:
  fixes w :: "'a::len word"
  assumes "k \<le> LENGTH('a)"
  shows "unat (w AND NOT (mask k) OR mask k) = unat w div 2 ^ k * 2 ^ k + (2 ^ k - 1)"
proof -
  have "unat (w AND NOT (mask k) OR mask k) = push_bit k (drop_bit k (unat w)) OR mask k"
    using assms by (intro bit_eqI) (auto simp: bit_simps dest: bit_imp_le_length)
  also have "\<dots> = push_bit k (drop_bit k (unat w)) + mask k"
    by (rule disjunctive_add [symmetric]) (auto simp: bit_simps)
  finally show ?thesis
    by (simp add: push_bit_eq_mult drop_bit_eq_div mask_eq_exp_minus_1)
qed

lemma be_nat_append: "be_nat (xs @ ys) = be_nat xs * 256 ^ length ys + be_nat ys"
  by (induction xs) (simp_all add: power_add algebra_simps)

end
