(* ===== verification/GoNet.thy ===== *)
theory GoNet
  imports Prelude
begin

text \<open>
  The part of Go's standard packages \<^verbatim>\<open>net\<close> and \<^verbatim>\<open>net/netip\<close> that the program uses, at
  byte level: \<^verbatim>\<open>net.IP\<close> (a byte slice; \<open>[]\<close> is \<^verbatim>\<open>nil\<close>), \<^verbatim>\<open>net.IPMask\<close>, \<^verbatim>\<open>net.IPNet\<close>,
  \<^verbatim>\<open>netip.Addr\<close> and \<^verbatim>\<open>netip.Prefix\<close>. Zones are left out: no entry point of the program
  accepts them. The second half relates the byte level to addresses as numbers, which is
  what the proofs of the components use.
\<close>

section \<open>netip.Addr\<close>

text \<open>\<open>AddrZero\<close> is the zero \<^verbatim>\<open>netip.Addr\<close>, the invalid address.\<close>

datatype addr = AddrZero | Addr4 "32 word" | Addr6 "128 word"

type_synonym IP = "byte list"
type_synonym IPMask = "byte list"

record IPNet =
  net_IP :: IP
  net_Mask :: IPMask

definition v4InV6Prefix :: "byte list" where
  "v4InV6Prefix = [0, 0, 0, 0, 0, 0, 0, 0, 0, 0, 255, 255]"

definition AddrFromSlice :: "IP \<Rightarrow> addr" where
  "AddrFromSlice ip =
     (if length ip = 4 then Addr4 (word_of_nat (be_nat ip))
      else if length ip = 16 then Addr6 (word_of_nat (be_nat ip))
      else AddrZero)"

fun Unmap :: "addr \<Rightarrow> addr" where
  "Unmap (Addr6 w) = (if drop_bit 32 w = 0xffff then Addr4 (ucast w) else Addr6 w)"
| "Unmap a = a"

fun Is4 :: "addr \<Rightarrow> bool" where
  "Is4 (Addr4 _) = True"
| "Is4 _ = False"

fun Is6 :: "addr \<Rightarrow> bool" where
  "Is6 (Addr6 _) = True"
| "Is6 _ = False"

fun BitLen :: "addr \<Rightarrow> nat" where
  "BitLen AddrZero = 0"
| "BitLen (Addr4 _) = 32"
| "BitLen (Addr6 _) = 128"

fun addr_nat :: "addr \<Rightarrow> nat" where
  "addr_nat AddrZero = 0"
| "addr_nat (Addr4 w) = unat w"
| "addr_nat (Addr6 w) = unat w"

fun As16 :: "addr \<Rightarrow> byte list" where
  "As16 AddrZero = replicate 16 0"
| "As16 (Addr4 w) = v4InV6Prefix @ to_be 4 (unat w)"
| "As16 (Addr6 w) = to_be 16 (unat w)"

fun AsSlice :: "addr \<Rightarrow> IP" where
  "AsSlice AddrZero = []"
| "AsSlice (Addr4 w) = to_be 4 (unat w)"
| "AsSlice (Addr6 w) = to_be 16 (unat w)"

fun Next :: "addr \<Rightarrow> addr" where
  "Next AddrZero = AddrZero"
| "Next (Addr4 w) = (if w + 1 = 0 then AddrZero else Addr4 (w + 1))"
| "Next (Addr6 w) = (if w + 1 = 0 then AddrZero else Addr6 (w + 1))"

fun Prev :: "addr \<Rightarrow> addr" where
  "Prev AddrZero = AddrZero"
| "Prev (Addr4 w) = (if w = 0 then AddrZero else Addr4 (w - 1))"
| "Prev (Addr6 w) = (if w = 0 then AddrZero else Addr6 (w - 1))"

text \<open>
  \<^verbatim>\<open>Addr.Compare\<close> orders by bit length, then by value. The type of addresses is a linear
  order with it, so \<^verbatim>\<open>Compare(a, b) <= 0\<close> is \<open>a \<le> b\<close>.
\<close>

definition addr_key :: "addr \<Rightarrow> nat" where
  "addr_key a = BitLen a * 2 ^ 128 + addr_nat a"

lemma unat32_lt: "unat (w :: 32 word) < 2 ^ 32"
  using unsigned_less [of w, where 'a = nat] by simp

lemma unat128_lt: "unat (w :: 128 word) < 2 ^ 128"
  using unsigned_less [of w, where 'a = nat] by simp

lemma addr_nat_lt: "addr_nat a < 2 ^ BitLen a"
  by (cases a) (simp_all add: unat32_lt [simplified] unat128_lt [simplified])

lemma addr_eq_iff: "a = b \<longleftrightarrow> BitLen a = BitLen b \<and> addr_nat a = addr_nat b"
  by (cases a; cases b) (auto simp: word_unat_eq_iff)

lemma addr_nat_lt128: "addr_nat a < 2 ^ 128"
proof -
  have "(2::nat) ^ BitLen a \<le> 2 ^ 128" by (cases a) (simp_all add: power_increasing)
  with addr_nat_lt show ?thesis by (rule less_le_trans)
qed

lemma addr_key_eq: "addr_key a = addr_key b \<longleftrightarrow> a = b"
proof
  assume eq: "addr_key a = addr_key b"
  have "BitLen a = addr_key a div 2 ^ 128" "BitLen b = addr_key b div 2 ^ 128"
    "addr_nat a = addr_key a mod 2 ^ 128" "addr_nat b = addr_key b mod 2 ^ 128"
    using addr_nat_lt128 [of a] addr_nat_lt128 [of b] by (simp_all add: addr_key_def)
  with eq show "a = b" by (simp add: addr_eq_iff)
qed simp

instantiation addr :: linorder
begin

definition less_eq_addr :: "addr \<Rightarrow> addr \<Rightarrow> bool" where
  "less_eq_addr a b \<longleftrightarrow> addr_key a \<le> addr_key b"

definition less_addr :: "addr \<Rightarrow> addr \<Rightarrow> bool" where
  "less_addr a b \<longleftrightarrow> addr_key a < addr_key b"

instance
  by standard (auto simp: less_eq_addr_def less_addr_def addr_key_eq)

end

definition Compare :: "addr \<Rightarrow> addr \<Rightarrow> int" where
  "Compare a b =
     (if BitLen a < BitLen b then -1 else if BitLen b < BitLen a then 1
      else if addr_nat a < addr_nat b then -1 else if addr_nat b < addr_nat a then 1 else 0)"

lemma addr_le_iff:
  "a \<le> b \<longleftrightarrow> BitLen a < BitLen b \<or> BitLen a = BitLen b \<and> addr_nat a \<le> addr_nat b"
proof -
  have "BitLen a * 2 ^ 128 + addr_nat a \<le> BitLen b * 2 ^ 128 + addr_nat b \<longleftrightarrow>
      BitLen a < BitLen b \<or> BitLen a = BitLen b \<and> addr_nat a \<le> addr_nat b"
    using addr_nat_lt128 [of a] addr_nat_lt128 [of b] by (cases a; cases b) simp_all
  then show ?thesis by (simp add: less_eq_addr_def addr_key_def)
qed

lemma Compare_le [addr_simps]: "Compare a b \<le> 0 \<longleftrightarrow> a \<le> b"
  by (auto simp: Compare_def addr_le_iff)

lemma Compare_ge [addr_simps]: "Compare a b \<ge> 0 \<longleftrightarrow> b \<le> a"
  by (auto simp: Compare_def addr_le_iff)

section \<open>netip.Prefix\<close>

text \<open>\<^verbatim>\<open>bitsPlusOne = 0\<close>, an invalid prefix, is \<open>None\<close>.\<close>

datatype prefix = Prefix (pfx_addr: addr) (pfx_bits: "nat option")

definition PrefixFrom :: "addr \<Rightarrow> nat \<Rightarrow> prefix" where
  "PrefixFrom a n = Prefix a (if a \<noteq> AddrZero \<and> n \<le> BitLen a then Some n else None)"

definition pfx_valid :: "prefix \<Rightarrow> bool" where
  "pfx_valid p \<longleftrightarrow> pfx_bits p \<noteq> None"

text \<open>The address with its host bits cleared (\<^verbatim>\<open>Addr.Prefix\<close>) and with them set.\<close>

fun addr_mask :: "nat \<Rightarrow> addr \<Rightarrow> addr" where
  "addr_mask n AddrZero = AddrZero"
| "addr_mask n (Addr4 w) = Addr4 (w AND NOT (mask (32 - n)))"
| "addr_mask n (Addr6 w) = Addr6 (w AND NOT (mask (128 - n)))"

fun addr_last :: "nat \<Rightarrow> addr \<Rightarrow> addr" where
  "addr_last n AddrZero = AddrZero"
| "addr_last n (Addr4 w) = Addr4 (w AND NOT (mask (32 - n)) OR mask (32 - n))"
| "addr_last n (Addr6 w) = Addr6 (w AND NOT (mask (128 - n)) OR mask (128 - n))"

definition Masked :: "prefix \<Rightarrow> prefix" where
  "Masked p = (case pfx_bits p of
     None \<Rightarrow> Prefix AddrZero None
   | Some n \<Rightarrow> Prefix (addr_mask n (pfx_addr p)) (Some n))"

definition Overlaps :: "prefix \<Rightarrow> prefix \<Rightarrow> bool" where
  "Overlaps p q = (case (pfx_bits p, pfx_bits q) of
     (Some m, Some n) \<Rightarrow>
       if p = q then True
       else if Is4 (pfx_addr p) \<noteq> Is4 (pfx_addr q) then False
       else if min m n = 0 then True
       else addr_mask (min m n) (pfx_addr p) = addr_mask (min m n) (pfx_addr q)
   | _ \<Rightarrow> False)"

section \<open>net.IP, net.IPMask, net.IPNet\<close>

definition To4 :: "IP \<Rightarrow> IP" where
  "To4 ip =
     (if length ip = 4 then ip
      else if length ip = 16 \<and> take 12 ip = v4InV6Prefix then drop 12 ip
      else [])"

definition To16 :: "IP \<Rightarrow> IP" where
  "To16 ip = (if length ip = 4 then v4InV6Prefix @ ip else if length ip = 16 then ip else [])"

definition IP_Equal :: "IP \<Rightarrow> IP \<Rightarrow> bool" where
  "IP_Equal ip x =
     (if length ip = length x then ip = x
      else if length ip = 4 \<and> length x = 16 then take 12 x = v4InV6Prefix \<and> ip = drop 12 x
      else if length ip = 16 \<and> length x = 4 then take 12 ip = v4InV6Prefix \<and> drop 12 ip = x
      else False)"

definition and_bytes :: "byte list \<Rightarrow> byte list \<Rightarrow> byte list" where
  "and_bytes xs ys = map2 (AND) xs ys"

definition IP_Mask :: "IP \<Rightarrow> IPMask \<Rightarrow> IP" where
  "IP_Mask ip0 m0 =
     (let m = (if length m0 = 16 \<and> length ip0 = 4 \<and> list_all (\<lambda>b. b = 255) (take 12 m0)
               then drop 12 m0 else m0);
          ip = (if length m = 4 \<and> length ip0 = 16 \<and> take 12 ip0 = v4InV6Prefix
                then drop 12 ip0 else ip0)
      in if length ip \<noteq> length m then [] else and_bytes ip m)"

fun cidr_mask :: "nat \<Rightarrow> nat \<Rightarrow> IPMask" where
  "cidr_mask n 0 = []"
| "cidr_mask n (Suc l) =
     (if 8 \<le> n then 255 # cidr_mask (n - 8) l else NOT (drop_bit n 255) # cidr_mask 0 l)"

definition CIDRMask :: "nat \<Rightarrow> nat \<Rightarrow> IPMask" where
  "CIDRMask ones bits = cidr_mask ones (bits div 8)"

fun lead_ones :: "nat \<Rightarrow> byte \<Rightarrow> nat \<times> byte" where
  "lead_ones 0 v = (0, v)"
| "lead_ones (Suc k) v =
     (if bit v 7 then (case lead_ones k (push_bit 1 v) of (n, r) \<Rightarrow> (Suc n, r)) else (0, v))"

fun simpleMaskLength :: "IPMask \<Rightarrow> nat option" where
  "simpleMaskLength [] = Some 0"
| "simpleMaskLength (v # m) =
     (if v = 255 then map_option (\<lambda>n. n + 8) (simpleMaskLength m)
      else (case lead_ones 8 v of (n, r) \<Rightarrow>
        if r \<noteq> 0 \<or> \<not> list_all (\<lambda>b. b = 0) m then None else Some n))"

definition Mask_Size :: "IPMask \<Rightarrow> nat \<times> nat" where
  "Mask_Size m = (case simpleMaskLength m of None \<Rightarrow> (0, 0) | Some n \<Rightarrow> (n, length m * 8))"

definition networkNumberAndMask :: "IPNet \<Rightarrow> IP \<times> IPMask" where
  "networkNumberAndMask n =
     (let ip = (if To4 (net_IP n) \<noteq> [] then To4 (net_IP n) else net_IP n); m = net_Mask n
      in if length ip \<noteq> 4 \<and> length ip \<noteq> 16 then ([], [])
         else if length m = 4 then (if length ip \<noteq> 4 then ([], []) else (ip, m))
         else if length m = 16 then (ip, if length ip = 4 then drop 12 m else m)
         else ([], []))"

definition Contains :: "IPNet \<Rightarrow> IP \<Rightarrow> bool" where
  "Contains n ip0 =
     (let (nn, m) = networkNumberAndMask n; ip = (if To4 ip0 \<noteq> [] then To4 ip0 else ip0)
      in length ip = length nn \<and> and_bytes nn m = and_bytes ip m)"

section \<open>From bytes to addresses\<close>

text \<open>The address a byte slice stands for: mapped IPv4 addresses are IPv4 addresses.\<close>

definition ip_addr :: "IP \<Rightarrow> addr" where
  "ip_addr ip = Unmap (AddrFromSlice ip)"

definition valid_ip :: "IP \<Rightarrow> bool" where
  "valid_ip ip \<longleftrightarrow> length ip = 4 \<or> length ip = 16"

lemma length_v4InV6Prefix [simp]: "length v4InV6Prefix = 12"
  by (simp add: v4InV6Prefix_def)

lemma v4InV6Prefix_not_Nil [simp]: "v4InV6Prefix \<noteq> []"
  by (simp add: v4InV6Prefix_def)

lemma be_nat_v4InV6Prefix: "be_nat v4InV6Prefix = 0xffff"
  by (simp add: v4InV6Prefix_def)

lemma be_nat_lt32: "length ip = 4 \<Longrightarrow> be_nat ip < 2 ^ 32"
  using be_nat_bound [of ip] by simp

lemma be_nat_lt128: "length ip = 16 \<Longrightarrow> be_nat ip < 2 ^ 128"
  using be_nat_bound [of ip] by simp

lemma unat_word32 [simp]: "n < 2 ^ 32 \<Longrightarrow> unat (word_of_nat n :: 32 word) = n"
  by (simp add: unat_of_nat take_bit_nat_eq_self)

lemma unat_word128 [simp]: "n < 2 ^ 128 \<Longrightarrow> unat (word_of_nat n :: 128 word) = n"
  by (simp add: unat_of_nat take_bit_nat_eq_self)

lemma unat_drop_bit': "unat (drop_bit k w) = unat w div 2 ^ k"
  for w :: "'a::len word"
proof -
  have "unat (drop_bit k w) = drop_bit k (unat w)"
    by (rule bit_eqI) (auto simp: bit_simps dest: bit_imp_le_length)
  then show ?thesis by (simp only: drop_bit_eq_div)
qed

lemma be_nat_split12:
  assumes "length ip = 16"
  shows "be_nat ip = be_nat (take 12 ip) * 2 ^ 32 + be_nat (drop 12 ip)"
    and "be_nat (drop 12 ip) < 2 ^ 32"
proof -
  have "be_nat ip = be_nat (take 12 ip @ drop 12 ip)" by simp
  also have "\<dots> = be_nat (take 12 ip) * 256 ^ 4 + be_nat (drop 12 ip)"
    using assms by (simp only: be_nat_append) simp
  finally show "be_nat ip = be_nat (take 12 ip) * 2 ^ 32 + be_nat (drop 12 ip)" by simp
  show "be_nat (drop 12 ip) < 2 ^ 32" using assms by (intro be_nat_lt32) simp
qed

lemma mapped_iff:
  assumes "length ip = 16"
  shows "drop_bit 32 (word_of_nat (be_nat ip) :: 128 word) = 0xffff \<longleftrightarrow> take 12 ip = v4InV6Prefix"
proof -
  have "drop_bit 32 (word_of_nat (be_nat ip) :: 128 word) = 0xffff
      \<longleftrightarrow> unat (drop_bit 32 (word_of_nat (be_nat ip) :: 128 word)) = 0xffff"
    by (simp add: word_unat_eq_iff)
  also have "\<dots> \<longleftrightarrow> be_nat (take 12 ip) = 0xffff"
  proof -
    have "unat (word_of_nat (be_nat ip) :: 128 word) = be_nat ip"
      using be_nat_lt128 [OF assms] by (rule unat_word128)
    then have "unat (drop_bit 32 (word_of_nat (be_nat ip) :: 128 word)) = be_nat (take 12 ip)"
      using be_nat_split12 [OF assms] by (simp only: unat_drop_bit') simp
    then show ?thesis by simp
  qed
  also have "\<dots> \<longleftrightarrow> take 12 ip = v4InV6Prefix"
    using be_nat_inject [of "take 12 ip" v4InV6Prefix] assms be_nat_v4InV6Prefix by simp
  finally show ?thesis .
qed

lemma length_To4 [ip_len]: "To4 ip \<noteq> [] \<Longrightarrow> length (To4 ip) = 4"
  by (auto simp: To4_def split: if_splits)

lemma To4_len4 [simp]: "length ip = 4 \<Longrightarrow> To4 ip = ip"
  by (simp add: To4_def)

lemma len4_not_Nil: "length ip = 4 \<Longrightarrow> ip \<noteq> []"
  by auto

lemma ip_addr_To4: "To4 ip \<noteq> [] \<Longrightarrow> ip_addr ip = Addr4 (word_of_nat (be_nat (To4 ip)))"
proof (cases "length ip = 16")
  case True
  assume "To4 ip \<noteq> []"
  then have pre: "take 12 ip = v4InV6Prefix" and t4: "To4 ip = drop 12 ip"
    using True by (auto simp: To4_def split: if_splits)
  have "be_nat (drop 12 ip) = be_nat ip mod 2 ^ 32"
    using be_nat_split12 [OF True] by simp
  then have "(ucast (word_of_nat (be_nat ip) :: 128 word) :: 32 word) = word_of_nat (be_nat (drop 12 ip))"
    using unat_word128 [OF be_nat_lt128 [OF True]] be_nat_split12(2) [OF True]
    by (simp add: word_unat_eq_iff unsigned_ucast_eq take_bit_eq_mod del: unat_word128)
  then show ?thesis using True pre t4 mapped_iff [OF True]
    by (simp add: ip_addr_def AddrFromSlice_def)
qed (auto simp: ip_addr_def AddrFromSlice_def To4_def split: if_splits)

lemma ip_addr_16: "length ip = 16 \<Longrightarrow> To4 ip = [] \<Longrightarrow> ip_addr ip = Addr6 (word_of_nat (be_nat ip))"
  using mapped_iff [of ip] by (auto simp: ip_addr_def AddrFromSlice_def To4_def)

lemma ip_addr_invalid: "\<not> valid_ip ip \<Longrightarrow> ip_addr ip = AddrZero"
  by (simp add: ip_addr_def AddrFromSlice_def valid_ip_def)

lemma ip_addr_valid: "valid_ip ip \<longleftrightarrow> ip_addr ip \<noteq> AddrZero"
  by (auto simp: ip_addr_def AddrFromSlice_def valid_ip_def)

lemma ip_addr_cases:
  obtains (nil) "\<not> valid_ip ip" "To4 ip = []" "ip_addr ip = AddrZero"
  | (v4) "valid_ip ip" "To4 ip \<noteq> []" "length (To4 ip) = 4" "ip_addr ip = Addr4 (word_of_nat (be_nat (To4 ip)))"
  | (v6) "valid_ip ip" "To4 ip = []" "length ip = 16" "ip_addr ip = Addr6 (word_of_nat (be_nat ip))"
proof (cases "valid_ip ip")
  case False
  then show ?thesis using nil by (simp add: ip_addr_invalid To4_def valid_ip_def)
next
  case True
  show ?thesis
  proof (cases "To4 ip = []")
    case False
    then show ?thesis using v4 True ip_addr_To4 length_To4 by blast
  next
    case t4: True
    then have "length ip = 16" using True by (auto simp: valid_ip_def)
    then show ?thesis using v6 True t4 ip_addr_16 by blast
  qed
qed

lemma Is4_ip_addr [addr_simps]: "Is4 (ip_addr ip) \<longleftrightarrow> To4 ip \<noteq> []"
  by (cases ip rule: ip_addr_cases) simp_all

lemma word_of_nat_be_inject32:
  assumes "length xs = 4" "length ys = 4"
  shows "(word_of_nat (be_nat xs) :: 32 word) = word_of_nat (be_nat ys) \<longleftrightarrow> xs = ys"
  using assms be_nat_inject [of xs ys] be_nat_lt32 [of xs] be_nat_lt32 [of ys]
  by (simp add: word_unat_eq_iff)

lemma word_of_nat_be_inject128:
  assumes "length xs = 16" "length ys = 16"
  shows "(word_of_nat (be_nat xs) :: 128 word) = word_of_nat (be_nat ys) \<longleftrightarrow> xs = ys"
  using assms be_nat_inject [of xs ys] be_nat_lt128 [of xs] be_nat_lt128 [of ys]
  by (simp add: word_unat_eq_iff)

lemma To4_Nil_To16: "valid_ip ip \<Longrightarrow> To4 ip \<noteq> [] \<Longrightarrow> To16 ip = v4InV6Prefix @ To4 ip"
  by (auto simp: To4_def To16_def valid_ip_def split: if_splits) (metis append_take_drop_id)

lemma To4_Nil_neq: "length ip = 16 \<Longrightarrow> To4 ip = [] \<Longrightarrow> ip \<noteq> v4InV6Prefix @ xs"
  by (auto simp: To4_def)

lemma IP_Equal_To16: "valid_ip a \<Longrightarrow> valid_ip b \<Longrightarrow> IP_Equal a b \<longleftrightarrow> To16 a = To16 b"
  unfolding valid_ip_def IP_Equal_def To16_def
  by (auto simp: append_eq_conv_conj) (metis append_take_drop_id)+

text \<open>\<^verbatim>\<open>net.IP.Equal\<close> compares addresses.\<close>

lemma IP_Equal_valid: "IP_Equal a b \<Longrightarrow> valid_ip a \<Longrightarrow> valid_ip b"
  unfolding IP_Equal_def valid_ip_def by (auto split: if_splits)

lemma IP_Equal_addr [addr_simps]:
  assumes "valid_ip a" "valid_ip b"
  shows "IP_Equal a b \<longleftrightarrow> ip_addr a = ip_addr b"
proof -
  have "To16 a = To16 b \<longleftrightarrow> ip_addr a = ip_addr b"
  proof (cases a rule: ip_addr_cases)
    case v4a: v4
    show ?thesis
    proof (cases b rule: ip_addr_cases)
      case v4
      then show ?thesis using v4a word_of_nat_be_inject32 by (simp add: To4_Nil_To16)
    next
      case v6
      then have "To16 b \<noteq> To16 a"
        using v4a To4_Nil_neq [of b] by (simp add: To4_Nil_To16) (simp add: To16_def)
      then show ?thesis using v4a v6 by auto
    qed (use assms in simp)
  next
    case v6a: v6
    show ?thesis
    proof (cases b rule: ip_addr_cases)
      case v6
      then show ?thesis using v6a word_of_nat_be_inject128 by (simp add: To16_def)
    next
      case v4
      then have "To16 a \<noteq> To16 b"
        using v6a To4_Nil_neq [of a] by (simp add: To4_Nil_To16) (simp add: To16_def)
      then show ?thesis using v6a v4 by auto
    qed (use assms in simp)
  qed (use assms in simp)
  then show ?thesis using assms by (simp add: IP_Equal_To16)
qed

section \<open>Masks and networks\<close>

lemma cidr_mask_byte: "n < 8 \<Longrightarrow> NOT (drop_bit n 255) = (NOT (mask (8 - n)) :: byte)"
proof -
  have "list_all (\<lambda>n. NOT (drop_bit n 255) = (NOT (mask (8 - n)) :: byte)) [0..<8]"
    by code_simp
  moreover assume "n < 8"
  ultimately show ?thesis by (simp add: list_all_iff)
qed

lemma length_cidr_mask [simp]: "length (cidr_mask n l) = l"
  by (induction n l rule: cidr_mask.induct) auto

lemma length_and_bytes [simp]: "length (and_bytes xs ys) = min (length xs) (length ys)"
  by (simp add: and_bytes_def)

lemma cidr_mask_0: "cidr_mask 0 l = replicate l 0"
  by (induction l) auto

lemma and_bytes_zero: "be_nat (and_bytes bs (cidr_mask 0 (length bs))) = 0"
  unfolding cidr_mask_0 by (induction bs) (auto simp: and_bytes_def)

lemma and_255: "b AND 255 = (b :: byte)"
proof -
  have "(255 :: byte) = -1" by simp
  then show ?thesis by (simp only: and.right_neutral)
qed

lemma div_mult_low:
  fixes a b :: nat
  assumes "h \<le> m" "b < 2 ^ m"
  shows "(a * 2 ^ m + b) div 2 ^ h * 2 ^ h = a * 2 ^ m + b div 2 ^ h * 2 ^ h"
proof -
  have m: "(2::nat) ^ m = 2 ^ (m - h) * 2 ^ h"
    using assms(1) by (simp flip: power_add)
  have "(a * 2 ^ m + b) div 2 ^ h = a * 2 ^ (m - h) + b div 2 ^ h"
    by (simp add: m flip: mult.assoc)
  then show ?thesis by (simp add: m algebra_simps)
qed

lemma div_mult_high:
  fixes a b :: nat
  assumes "b < 2 ^ m"
  shows "(a * 2 ^ m + b) div 2 ^ (m + k) * 2 ^ (m + k) = a div 2 ^ k * 2 ^ k * 2 ^ m"
proof -
  have "(a * 2 ^ m + b) div 2 ^ (m + k) = (a * 2 ^ m + b) div 2 ^ m div 2 ^ k"
    by (simp add: power_add div_mult2_eq)
  also have "\<dots> = a div 2 ^ k" using assms by simp
  finally show ?thesis by (simp add: power_add algebra_simps)
qed

lemma pow256: "(256::nat) ^ l = 2 ^ (8 * l)"
  by (simp add: power_mult)

lemma and_bytes_cidr_mask:
  "n \<le> 8 * length bs \<Longrightarrow> be_nat (and_bytes bs (cidr_mask n (length bs)))
     = be_nat bs div 2 ^ (8 * length bs - n) * 2 ^ (8 * length bs - n)"
proof (induction bs arbitrary: n)
  case (Cons b bs)
  let ?l = "length bs"
  have bnd: "be_nat bs < 2 ^ (8 * ?l)" using be_nat_bound [of bs] by (simp add: pow256)
  show ?case
  proof (cases "8 \<le> n")
    case True
    have h: "8 * length (b # bs) - n = 8 * ?l - (n - 8)" using True by simp
    have "be_nat (and_bytes (b # bs) (cidr_mask n (length (b # bs))))
        = unat b * 2 ^ (8 * ?l) + be_nat (and_bytes bs (cidr_mask (n - 8) ?l))"
      using True by (simp add: and_bytes_def pow256 and_255)
    also have "\<dots> = unat b * 2 ^ (8 * ?l) + be_nat bs div 2 ^ (8 * ?l - (n - 8)) * 2 ^ (8 * ?l - (n - 8))"
      using Cons.IH [of "n - 8"] Cons.prems by simp
    also have "\<dots> = be_nat (b # bs) div 2 ^ (8 * ?l - (n - 8)) * 2 ^ (8 * ?l - (n - 8))"
      using div_mult_low [of "8 * ?l - (n - 8)" "8 * ?l" "be_nat bs" "unat b"] bnd
      by (simp add: pow256)
    finally show ?thesis by (simp only: h)
  next
    case False
    have h: "8 * length (b # bs) - n = 8 * ?l + (8 - n)" using False by simp
    have "be_nat (and_bytes (b # bs) (cidr_mask n (length (b # bs))))
        = unat (b AND NOT (mask (8 - n))) * 2 ^ (8 * ?l) + be_nat (and_bytes bs (cidr_mask 0 ?l))"
      using False cidr_mask_byte [of n] by (simp add: and_bytes_def pow256)
    also have "\<dots> = unat b div 2 ^ (8 - n) * 2 ^ (8 - n) * 2 ^ (8 * ?l)"
      by (simp only: and_bytes_zero unat_and_not_mask add_0_right)
    also have "\<dots> = be_nat (b # bs) div 2 ^ (8 * ?l + (8 - n)) * 2 ^ (8 * ?l + (8 - n))"
      using div_mult_high [OF bnd, of "unat b" "8 - n"] by (simp add: pow256)
    finally show ?thesis by (simp only: h)
  qed
qed (simp add: and_bytes_def)

lemma lead_ones_mask: "n < 8 \<Longrightarrow> lead_ones 8 (NOT (drop_bit n 255)) = (n, 0) \<and> NOT (drop_bit n (255::byte)) \<noteq> 255"
proof -
  have "list_all (\<lambda>n. lead_ones 8 (NOT (drop_bit n 255)) = (n, 0)
      \<and> NOT (drop_bit n (255::byte)) \<noteq> 255) [0..<8]"
    by code_simp
  moreover assume "n < 8"
  ultimately show ?thesis by (simp add: list_all_iff)
qed

lemma simpleMaskLength_cidr_mask: "n \<le> 8 * l \<Longrightarrow> simpleMaskLength (cidr_mask n l) = Some n"
proof (induction n l rule: cidr_mask.induct)
  case (2 n l)
  then show ?case
    by (cases "8 \<le> n") (auto simp: lead_ones_mask cidr_mask_0 list_all_iff)
qed simp

lemma Mask_Size_cidr_mask: "n \<le> 8 * l \<Longrightarrow> Mask_Size (cidr_mask n l) = (n, 8 * l)"
  by (simp add: Mask_Size_def simpleMaskLength_cidr_mask)

section \<open>Networks in CIDR notation\<close>

text \<open>
  The network that \<^verbatim>\<open>net.ParseCIDR\<close> builds from an address and a prefix length. A network is
  \<^emph>\<open>plain\<close> when it is not written with an IPv4-mapped IPv6 address such as
  \<^verbatim>\<open>::ffff:10.0.0.0/104\<close>.
\<close>

definition cidr_net :: "addr \<Rightarrow> nat \<Rightarrow> IPNet" where
  "cidr_net a n = (let m = CIDRMask n (BitLen a) in \<lparr>net_IP = IP_Mask (As16 a) m, net_Mask = m\<rparr>)"

definition plain_cidr :: "addr \<Rightarrow> nat \<Rightarrow> bool" where
  "plain_cidr a n \<longleftrightarrow> a \<noteq> AddrZero \<and> n \<le> BitLen a \<and> Unmap (addr_mask n a) = addr_mask n a"

lemma BitLen_addr_mask [simp]: "BitLen (addr_mask n a) = BitLen a"
  by (cases a) simp_all

lemma BitLen_addr_last [simp]: "BitLen (addr_last n a) = BitLen a"
  by (cases a) simp_all

lemma addr_nat_mask:
  "addr_nat (addr_mask n a) = addr_nat a div 2 ^ (BitLen a - n) * 2 ^ (BitLen a - n)"
  by (cases a) (simp_all add: unat_and_not_mask)

lemma addr_nat_last:
  "a \<noteq> AddrZero \<Longrightarrow> addr_nat (addr_last n a)
     = addr_nat a div 2 ^ (BitLen a - n) * 2 ^ (BitLen a - n) + (2 ^ (BitLen a - n) - 1)"
  by (cases a) (simp_all add: unat_or_mask)

lemma AsSlice_addr: "a \<noteq> AddrZero \<Longrightarrow> AsSlice a = to_be (BitLen a div 8) (addr_nat a)"
  by (cases a) simp_all

lemma length_AsSlice [ip_len]: "length (AsSlice a) = BitLen a div 8"
  by (cases a) simp_all

lemma to_be_eqI: "length bs = k \<Longrightarrow> be_nat bs = n \<Longrightarrow> to_be k n = bs"
  using to_be_be_nat [of bs] by simp

lemma and_bytes_to_be:
  assumes "n \<le> 8 * k" "x < 2 ^ (8 * k)"
  shows "and_bytes (to_be k x) (cidr_mask n k) = to_be k (x div 2 ^ (8 * k - n) * 2 ^ (8 * k - n))"
proof -
  have "be_nat (to_be k x) = x" using assms(2) by (simp add: be_nat_to_be pow256)
  then have "be_nat (and_bytes (to_be k x) (cidr_mask n k)) = x div 2 ^ (8 * k - n) * 2 ^ (8 * k - n)"
    using and_bytes_cidr_mask [of n "to_be k x"] assms(1) by simp
  then show ?thesis by (intro to_be_eqI [symmetric]) simp_all
qed

lemma cidr_net_eq:
  assumes "a \<noteq> AddrZero" "n \<le> BitLen a"
  shows "cidr_net a n = \<lparr>net_IP = AsSlice (addr_mask n a), net_Mask = cidr_mask n (BitLen a div 8)\<rparr>"
proof (cases a)
  case (Addr4 w)
  have "IP_Mask (As16 a) (cidr_mask n 4) = and_bytes (to_be 4 (unat w)) (cidr_mask n 4)"
    by (simp add: IP_Mask_def Addr4)
  also have "\<dots> = AsSlice (addr_mask n a)"
    using and_bytes_to_be [of n 4 "unat w"] assms Addr4 unat32_lt [of w]
    by (simp add: unat_and_not_mask)
  finally show ?thesis using Addr4 by (simp add: cidr_net_def CIDRMask_def)
next
  case (Addr6 w)
  have "IP_Mask (As16 a) (cidr_mask n 16) = and_bytes (to_be 16 (unat w)) (cidr_mask n 16)"
    by (simp add: IP_Mask_def Addr6)
  also have "\<dots> = AsSlice (addr_mask n a)"
    using and_bytes_to_be [of n 16 "unat w"] assms Addr6 unat128_lt [of w]
    by (simp add: unat_and_not_mask)
  finally show ?thesis using Addr6 by (simp add: cidr_net_def CIDRMask_def)
qed (use assms in simp)


lemma to_be_inject:
  assumes "x < 2 ^ (8 * k)" "y < 2 ^ (8 * k)"
  shows "to_be k x = to_be k y \<longleftrightarrow> x = y"
proof
  assume eq: "to_be k x = to_be k y"
  have "x mod 256 ^ k = y mod 256 ^ k" by (simp only: be_nat_to_be [symmetric] eq)
  with assms show "x = y" by (simp only: pow256 mod_less)
qed simp

lemma addr_mask_zero_iff [simp]: "addr_mask n a = AddrZero \<longleftrightarrow> a = AddrZero"
  by (cases a) simp_all

lemma addr_last_zero_iff [simp]: "addr_last n a = AddrZero \<longleftrightarrow> a = AddrZero"
  by (cases a) simp_all

lemma be_nat_AsSlice: "be_nat (AsSlice a) = addr_nat a"
proof (cases "a = AddrZero")
  case False
  then have "be_nat (AsSlice a) = addr_nat a mod 2 ^ (8 * (BitLen a div 8))"
    by (simp only: AsSlice_addr [OF False] be_nat_to_be pow256)
  also have "8 * (BitLen a div 8) = BitLen a" by (cases a) simp_all
  finally show ?thesis using addr_nat_lt [of a] by simp
qed simp

lemma AddrFromSlice_AsSlice [simp]: "AddrFromSlice (AsSlice a) = a"
proof -
  have "AddrFromSlice (AsSlice a) = (case a of AddrZero \<Rightarrow> AddrZero
      | Addr4 _ \<Rightarrow> Addr4 (word_of_nat (be_nat (AsSlice a)))
      | Addr6 _ \<Rightarrow> Addr6 (word_of_nat (be_nat (AsSlice a))))"
    by (cases a) (simp_all add: AddrFromSlice_def)
  also have "\<dots> = a" unfolding be_nat_AsSlice by (cases a) simp_all
  finally show ?thesis .
qed

lemma ip_addr_AsSlice: "ip_addr (AsSlice a) = Unmap a"
  by (simp add: ip_addr_def)

lemma Unmap_Unmap [simp]: "Unmap (Unmap a) = Unmap a"
  by (cases a) simp_all

lemma Unmap_ip_addr [simp]: "Unmap (ip_addr ip) = ip_addr ip"
  by (simp add: ip_addr_def)

lemma Unmap_zero_iff [simp]: "Unmap a = AddrZero \<longleftrightarrow> a = AddrZero"
  by (cases a) simp_all

lemma addr_div_le:
  fixes x y :: nat
  shows "x div 2 ^ h = y div 2 ^ h \<longleftrightarrow> y div 2 ^ h * 2 ^ h \<le> x \<and> x \<le> y div 2 ^ h * 2 ^ h + (2 ^ h - 1)"
proof
  assume eq: "x div 2 ^ h = y div 2 ^ h"
  have "x = x div 2 ^ h * 2 ^ h + x mod 2 ^ h" by (rule div_mult_mod_eq [symmetric])
  moreover have "x mod 2 ^ h < 2 ^ h" by simp
  then have "x mod 2 ^ h \<le> 2 ^ h - 1" by linarith
  ultimately show "y div 2 ^ h * 2 ^ h \<le> x \<and> x \<le> y div 2 ^ h * 2 ^ h + (2 ^ h - 1)"
    using eq by (metis add_left_mono le_add1)
next
  assume "y div 2 ^ h * 2 ^ h \<le> x \<and> x \<le> y div 2 ^ h * 2 ^ h + (2 ^ h - 1)"
  then obtain d where "x = y div 2 ^ h * 2 ^ h + d" "d < 2 ^ h"
    by (metis add_diff_inverse_nat add_le_cancel_left diff_Suc_1 leD less_Suc_eq_le
        linorder_not_less Suc_pred zero_less_numeral zero_less_power)
  then show "x div 2 ^ h = y div 2 ^ h" by simp
qed

lemma same_prefix_iff:
  assumes "a \<noteq> AddrZero" "BitLen x = BitLen a"
  shows "addr_mask n x = addr_mask n a \<longleftrightarrow> addr_mask n a \<le> x \<and> x \<le> addr_last n a"
proof -
  let ?h = "BitLen a - n"
  have "addr_mask n x = addr_mask n a \<longleftrightarrow> addr_nat x div 2 ^ ?h = addr_nat a div 2 ^ ?h"
    using assms by (simp add: addr_eq_iff addr_nat_mask)
  also have "\<dots> \<longleftrightarrow> addr_mask n a \<le> x \<and> x \<le> addr_last n a"
    using assms by (simp add: addr_div_le addr_le_iff addr_nat_mask addr_nat_last)
  finally show ?thesis .
qed

lemma addr_between:
  assumes "a \<noteq> AddrZero" "addr_mask n a \<le> x" "x \<le> addr_last n a"
  shows "BitLen x = BitLen a"
  using assms by (auto simp: addr_le_iff)

lemma To4_AsSlice: "To4 (AsSlice a) = (case Unmap a of Addr4 w \<Rightarrow> to_be 4 (unat w) | _ \<Rightarrow> [])"
proof (cases "AsSlice a" rule: ip_addr_cases)
  case v4
  have "be_nat (To4 (AsSlice a)) < 2 ^ 32" using v4 by (intro be_nat_lt32)
  then show ?thesis using v4 to_be_be_nat [of "To4 (AsSlice a)"] by (simp add: ip_addr_AsSlice)
qed (simp_all add: ip_addr_AsSlice)

text \<open>
  \<^verbatim>\<open>IPNet.Contains\<close> of a plain network is membership in the interval from its network
  address to its last address.
\<close>

lemma networkNumberAndMask_plain:
  assumes "plain_cidr a n"
  shows "networkNumberAndMask (cidr_net a n)
    = (AsSlice (addr_mask n a), cidr_mask n (BitLen a div 8))"
proof -
  have a: "a \<noteq> AddrZero" "n \<le> BitLen a" "Unmap (addr_mask n a) = addr_mask n a"
    using assms by (auto simp: plain_cidr_def)
  define b where "b = addr_mask n a"
  have b: "b \<noteq> AddrZero" "Unmap b = b" "BitLen a = BitLen b"
    using a by (auto simp: b_def)
  have "to_be 4 x \<noteq> []" for x by (rule len4_not_Nil) simp
  moreover have "To4 (AsSlice b) = (case b of Addr4 w \<Rightarrow> to_be 4 (unat w) | _ \<Rightarrow> [])"
    using To4_AsSlice [of b] b(2) by simp
  ultimately show ?thesis
    using b unfolding cidr_net_eq [OF a(1,2)] b_def [symmetric]
    by (cases b) (simp_all add: networkNumberAndMask_def Let_def)
qed

lemma Contains_plain:
  assumes "plain_cidr a n"
  shows "Contains (cidr_net a n) ip
    \<longleftrightarrow> BitLen (ip_addr ip) = BitLen a \<and> addr_mask n (ip_addr ip) = addr_mask n a"
proof -
  have a: "a \<noteq> AddrZero" "n \<le> BitLen a" "Unmap (addr_mask n a) = addr_mask n a"
    using assms by (auto simp: plain_cidr_def)
  define ip' where "ip' = (if To4 ip \<noteq> [] then To4 ip else ip)"
  let ?k = "BitLen a div 8"
  have k: "8 * ?k = BitLen a" using a(1) by (cases a) simp_all
  have cont: "Contains (cidr_net a n) ip \<longleftrightarrow> length ip' = ?k \<and>
      and_bytes (AsSlice (addr_mask n a)) (cidr_mask n ?k) = and_bytes ip' (cidr_mask n ?k)"
    using a(1) by (simp add: Contains_def networkNumberAndMask_plain [OF assms] ip'_def length_AsSlice Let_def)
  have net: "and_bytes (AsSlice (addr_mask n a)) (cidr_mask n ?k) = to_be ?k (addr_nat (addr_mask n a))"
    using a and_bytes_to_be [of n ?k "addr_nat (addr_mask n a)"] addr_nat_lt [of "addr_mask n a"]
    by (simp add: k AsSlice_addr [of "addr_mask n a"] addr_nat_mask)
  have len: "length ip' = ?k \<longleftrightarrow> BitLen (ip_addr ip) = BitLen a"
    using a(1) by (cases ip rule: ip_addr_cases; cases a) (auto simp: ip'_def valid_ip_def)
  show ?thesis
  proof (cases "length ip' = ?k")
    case True
    then have ipk: "ip' = to_be ?k (addr_nat (ip_addr ip))"
      using a(1) len be_nat_lt32 [of "To4 ip"] be_nat_lt128 [of ip]
      by (cases ip rule: ip_addr_cases; cases a) (auto simp: ip'_def intro: to_be_eqI [symmetric])
    have "and_bytes ip' (cidr_mask n ?k) = to_be ?k (addr_nat (addr_mask n (ip_addr ip)))"
      using a(2) and_bytes_to_be [of n ?k "addr_nat (ip_addr ip)"] addr_nat_lt [of "ip_addr ip"] True len
      by (simp add: k ipk addr_nat_mask)
    then show ?thesis
      using True len cont net addr_nat_lt [of "addr_mask n (ip_addr ip)"] addr_nat_lt [of "addr_mask n a"]
      by (auto simp: to_be_inject k addr_eq_iff)
  next
    case False
    then show ?thesis using len cont by simp
  qed
qed

lemma Contains_plain_interval:
  assumes "plain_cidr a n"
  shows "Contains (cidr_net a n) ip \<longleftrightarrow> addr_mask n a \<le> ip_addr ip \<and> ip_addr ip \<le> addr_last n a"
proof -
  have a: "a \<noteq> AddrZero" using assms by (simp add: plain_cidr_def)
  show ?thesis
    using same_prefix_iff [OF a] addr_between [OF a] by (auto simp: Contains_plain [OF assms])
qed

end
