(* ===== verification/GoParse.thy ===== *)
theory GoParse
  imports GoNet
begin

text \<open>
  Textual addresses: \<^verbatim>\<open>net.IP.String\<close>, \<^verbatim>\<open>net.IPNet.String\<close>, \<^verbatim>\<open>net.ParseIP\<close>, \<^verbatim>\<open>net.ParseCIDR\<close>
  and \<^verbatim>\<open>netip.ParsePrefix\<close> of Go's standard library, and the vendored "sloppy" parsers
  \<^verbatim>\<open>ParseIPSloppy\<close> and \<^verbatim>\<open>ParseCIDRSloppy\<close> of \<^verbatim>\<open>k8s.io/utils/net\<close>, which accept leading zeros.
  The main results are that parsing inverts printing, hence that printing is injective on
  addresses.
\<close>

section \<open>Parsing\<close>

text \<open>The flag \<open>sl\<close> selects the sloppy parser.\<close>

definition oct_ok :: "bool \<Rightarrow> string \<Rightarrow> bool" where
  "oct_ok sl p \<longleftrightarrow> p \<noteq> [] \<and> list_all is_digit p \<and> (sl \<or> length p = 1 \<or> hd p \<noteq> CHR ''0'')
     \<and> digits_val p \<le> 255"

definition parseIPv4 :: "bool \<Rightarrow> string \<Rightarrow> byte list option" where
  "parseIPv4 sl s =
     (let ps = split_on (CHR ''.'') s
      in if length ps = 4 \<and> list_all (oct_ok sl) ps
         then Some (map (\<lambda>p. word_of_nat (digits_val p)) ps) else None)"

definition hex_tok :: "bool \<Rightarrow> string \<Rightarrow> (nat \<times> string) option" where
  "hex_tok sl s =
     (let t = takeWhile is_hex s
      in if t = [] \<or> (if sl then 0xffff < hexs_val t else 4 < length t) then None
         else Some (hexs_val t, dropWhile is_hex s))"

fun group_bytes :: "nat list \<Rightarrow> byte list" where
  "group_bytes [] = []"
| "group_bytes (g # gs) = to_be 2 g @ group_bytes gs"

fun byte_groups :: "byte list \<Rightarrow> nat list" where
  "byte_groups (a # b # bs) = (unat a * 256 + unat b) # byte_groups bs"
| "byte_groups _ = []"

text \<open>
  The loop of \<^verbatim>\<open>parseIPv6\<close>: \<open>k\<close> groups may still follow, \<open>acc\<close> are the groups read so far,
  \<open>ell\<close> is the position of the ellipsis.
\<close>

fun p6 :: "bool \<Rightarrow> nat \<Rightarrow> nat list \<Rightarrow> nat option \<Rightarrow> string \<Rightarrow> (nat list \<times> nat option \<times> string) option" where
  "p6 sl 0 acc ell s = Some (acc, ell, s)"
| "p6 sl (Suc k) acc ell s =
     (case hex_tok sl s of
        None \<Rightarrow> None
      | Some (n, r) \<Rightarrow>
          if r \<noteq> [] \<and> hd r = CHR ''.'' then
            (if ell = None \<and> length acc \<noteq> 6 \<or> 8 < length acc + 2 then None
             else (case parseIPv4 sl s of
                     None \<Rightarrow> None
                   | Some b \<Rightarrow> Some (acc @ byte_groups b, ell, [])))
          else (case r of
             [] \<Rightarrow> Some (acc @ [n], ell, [])
           | c # r1 \<Rightarrow>
               if c \<noteq> CHR '':'' \<or> r1 = [] then None
               else if hd r1 = CHR '':'' then
                 (if ell \<noteq> None then None
                  else if tl r1 = [] then Some (acc @ [n], Some (length acc + 1), [])
                  else p6 sl k (acc @ [n]) (Some (length acc + 1)) (tl r1))
               else p6 sl k (acc @ [n]) ell r1))"

definition expand6 :: "nat list \<times> nat option \<times> string \<Rightarrow> nat list option" where
  "expand6 = (\<lambda>(acc, ell, rest).
     if rest \<noteq> [] then None
     else if length acc < 8 then
       (case ell of None \<Rightarrow> None
        | Some e \<Rightarrow> Some (take e acc @ replicate (8 - length acc) 0 @ drop e acc))
     else if ell \<noteq> None then None else Some acc)"

definition parseIPv6 :: "bool \<Rightarrow> string \<Rightarrow> nat list option" where
  "parseIPv6 sl s =
     (if take 2 s = [CHR '':'', CHR '':''] then
        (if drop 2 s = [] then Some (replicate 8 0)
         else Option.bind (p6 sl 8 [] (Some 0) (drop 2 s)) expand6)
      else Option.bind (p6 sl 8 [] None s) expand6)"

definition addr_of_bytes4 :: "byte list option \<Rightarrow> addr" where
  "addr_of_bytes4 = case_option AddrZero (\<lambda>b. Addr4 (word_of_nat (be_nat b)))"

definition addr_of_groups :: "nat list option \<Rightarrow> addr" where
  "addr_of_groups = case_option AddrZero (\<lambda>g. Addr6 (word_of_nat (be_nat (group_bytes g))))"

definition special :: "char \<Rightarrow> bool" where
  "special c \<longleftrightarrow> c = CHR ''.'' \<or> c = CHR '':'' \<or> c = CHR ''%''"

definition ParseAddr :: "string \<Rightarrow> addr" where
  "ParseAddr s = (case find special s of
     None \<Rightarrow> AddrZero
   | Some c \<Rightarrow>
       if c = CHR ''.'' then addr_of_bytes4 (parseIPv4 False s)
       else if c = CHR '':'' then addr_of_groups (parseIPv6 False s)
       else AddrZero)"

definition ParseIP :: "string \<Rightarrow> IP" where
  "ParseIP s = (let a = ParseAddr s in if a = AddrZero then [] else As16 a)"

text \<open>\<^verbatim>\<open>dtoi\<close> of the prefix length, which has to be used up and fit the address length.\<close>

definition mask_len :: "string \<Rightarrow> nat \<Rightarrow> nat option" where
  "mask_len m bits = (case nat_of_digits m of None \<Rightarrow> None | Some n \<Rightarrow> if n \<le> bits then Some n else None)"

definition ParseCIDR :: "string \<Rightarrow> (IP \<times> IPNet) result" where
  "ParseCIDR s = (case Cut (CHR ''/'') s of
     None \<Rightarrow> Inl (Msg ''invalid CIDR address'')
   | Some (a, m) \<Rightarrow>
       let ad = ParseAddr a
       in if ad = AddrZero then Inl (Msg ''invalid CIDR address'')
          else (case mask_len m (BitLen ad) of
                  None \<Rightarrow> Inl (Msg ''invalid CIDR address'')
                | Some n \<Rightarrow> Inr (As16 ad, cidr_net ad n)))"

text \<open>
  \<^verbatim>\<open>netip.ParsePrefix\<close> is stricter on the prefix length (no leading zero, no sign) and cuts at
  the last slash.
\<close>

definition bits_ok :: "string \<Rightarrow> bool" where
  "bits_ok m \<longleftrightarrow> length m \<le> 1 \<or> is_digit (hd m) \<and> hd m \<noteq> CHR ''0''"

definition ParsePrefix :: "string \<Rightarrow> prefix result" where
  "ParsePrefix s = (case Cut (CHR ''/'') (rev s) of
     None \<Rightarrow> Inl (Msg ''netip.ParsePrefix: no '/' '')
   | Some (m, a) \<Rightarrow>
       let ad = ParseAddr (rev a)
       in if ad = AddrZero \<or> \<not> bits_ok (rev m) then Inl (Msg ''netip.ParsePrefix'')
          else (case mask_len (rev m) (BitLen ad) of
                  None \<Rightarrow> Inl (Msg ''netip.ParsePrefix: bad bits'')
                | Some n \<Rightarrow> Inr (PrefixFrom ad n)))"

definition ParseIPSloppy :: "string \<Rightarrow> IP" where
  "ParseIPSloppy s = (case find (\<lambda>c. c = CHR ''.'' \<or> c = CHR '':'') s of
     None \<Rightarrow> []
   | Some c \<Rightarrow>
       let ad = (if c = CHR ''.'' then addr_of_bytes4 (parseIPv4 True s)
                 else addr_of_groups (parseIPv6 True s))
       in if ad = AddrZero then [] else As16 ad)"

definition ParseCIDRSloppy :: "string \<Rightarrow> (IP \<times> IPNet) result" where
  "ParseCIDRSloppy s = (case Cut (CHR ''/'') s of
     None \<Rightarrow> Inl (Msg ''CIDR address'')
   | Some (a, m) \<Rightarrow>
       let a4 = addr_of_bytes4 (parseIPv4 True a);
           ad = (if a4 = AddrZero then addr_of_groups (parseIPv6 True a) else a4)
       in if ad = AddrZero then Inl (Msg ''CIDR address'')
          else (case mask_len m (BitLen ad) of
                  None \<Rightarrow> Inl (Msg ''CIDR address'')
                | Some n \<Rightarrow> Inr (As16 ad, cidr_net ad n)))"

section \<open>Printing\<close>

definition dotted :: "byte list \<Rightarrow> string" where
  "dotted b = join (CHR ''.'') (map (\<lambda>x. dec (unat x)) b)"

definition best_run :: "nat list \<Rightarrow> nat \<times> nat" where
  "best_run gs = foldl (\<lambda>(s, e) i.
     let l = length (takeWhile (\<lambda>g. g = 0) (drop i gs))
     in if 2 \<le> l \<and> e - s < l then (i, i + l) else (s, e)) (255, 255) [0..<8]"

definition groups_String :: "nat list \<Rightarrow> string" where
  "groups_String gs =
     (let (s, e) = best_run gs; j = (\<lambda>xs. join (CHR '':'') (map hex xs))
      in if s = 255 then j gs else j (take s gs) @ ''::'' @ j (drop e gs))"

definition hexString :: "byte list \<Rightarrow> string" where
  "hexString b = concat (map (\<lambda>x. [hex_digit (unat x div 16), hex_digit (unat x mod 16)]) b)"

definition IP_String :: "IP \<Rightarrow> string" where
  "IP_String ip =
     (if ip = [] then ''<nil>''
      else if length ip \<noteq> 4 \<and> length ip \<noteq> 16 then CHR ''?'' # hexString ip
      else if To4 ip \<noteq> [] then dotted (To4 ip)
      else groups_String (byte_groups ip))"

definition IPNet_String :: "IPNet \<Rightarrow> string" where
  "IPNet_String n = (case networkNumberAndMask n of (nn, m) \<Rightarrow>
     if nn = [] \<or> m = [] then ''<nil>''
     else (case simpleMaskLength m of
             None \<Rightarrow> IP_String nn @ ''/'' @ hexString m
           | Some l \<Rightarrow> IP_String nn @ ''/'' @ dec l))"

section \<open>Parsing inverts printing\<close>

lemma dec_oct_ok: "n \<le> 255 \<Longrightarrow> oct_ok sl (dec n)"
proof -
  assume n: "n \<le> 255"
  have "length (dec n) = 1 \<or> hd (dec n) \<noteq> CHR ''0''"
  proof (cases "n = 0")
    case True
    then show ?thesis by (simp add: dec_small)
  next
    case False
    moreover have "digit 0 = CHR ''0''" by code_simp
    ultimately show ?thesis using dec_hd_zero [of n] by auto
  qed
  with n show ?thesis using dec_digits [of n] by (simp add: oct_ok_def)
qed

lemma unat_byte_le: "unat (b :: byte) \<le> 255"
  using unsigned_less [of b, where 'a = nat] by simp

lemma dec_no_sep: "\<not> is_digit c \<Longrightarrow> c \<notin> set (dec n)"
  using dec_set_digits by blast

lemma split_on_dotted:
  "b \<noteq> [] \<Longrightarrow> split_on (CHR ''.'') (dotted b) = map (\<lambda>x. dec (unat x)) b"
  unfolding dotted_def by (rule split_on_join) (auto simp: list_all_iff dec_no_sep)

lemma parseIPv4_dotted: "length b = 4 \<Longrightarrow> parseIPv4 sl (dotted b) = Some b"
proof -
  assume len: "length b = 4"
  then have "b \<noteq> []" by auto
  then have "split_on (CHR ''.'') (dotted b) = map (\<lambda>x. dec (unat x)) b"
    by (rule split_on_dotted)
  with len show ?thesis
    by (simp add: parseIPv4_def list_all_iff dec_oct_ok unat_byte_le o_def)
qed

lemma hex_tok_hex:
  assumes "g < 65536" "r = [] \<or> \<not> is_hex (hd r)"
  shows "hex_tok sl (hex g @ r) = Some (g, r)"
proof -
  have "takeWhile is_hex (hex g @ r) = hex g" "dropWhile is_hex (hex g @ r) = r"
    using assms(2) hex_set by (cases r; simp add: takeWhile_append dropWhile_append)+
  moreover have "length (hex g) \<le> 4" using length_hex [of g 3] assms(1) by simp
  ultimately show ?thesis using assms(1) by (simp add: hex_tok_def Let_def)
qed

definition colons :: "nat list \<Rightarrow> string" where
  "colons gs = join (CHR '':'') (map hex gs)"

abbreviation small :: "nat list \<Rightarrow> bool" where
  "small gs \<equiv> \<forall>g \<in> set gs. g < 65536"

lemma hex_hd: "\<exists>c cs. hex n = c # cs \<and> is_hex c"
  using hex_digits [of n] by (cases "hex n") auto

lemma colons_Nil [simp]: "colons [] = []" and colons_single [simp]: "colons [g] = hex g"
  by (simp_all add: colons_def)

lemma colons_Cons: "gs \<noteq> [] \<Longrightarrow> colons (g # gs) = hex g @ CHR '':'' # colons gs"
  by (cases gs) (auto simp: colons_def)

lemma colons_hd: "gs \<noteq> [] \<Longrightarrow> \<exists>c cs. colons gs = c # cs \<and> is_hex c"
proof (cases gs)
  case (Cons g gs')
  then show ?thesis using hex_hd [of g] by (cases "gs' = []") (auto simp: colons_Cons)
qed simp

lemma p6_colons:
  "gs \<noteq> [] \<Longrightarrow> small gs \<Longrightarrow> length gs \<le> k \<Longrightarrow> p6 sl k acc ell (colons gs) = Some (acc @ gs, ell, [])"
proof (induction gs arbitrary: k acc)
  case (Cons g gs)
  from Cons.prems obtain k' where k: "k = Suc k'" by (cases k) auto
  show ?case
  proof (cases "gs = []")
    case True
    then show ?thesis using Cons.prems hex_tok_hex [of g "[]" sl] by (simp add: k)
  next
    case False
    then obtain c cs where c: "colons gs = c # cs" "is_hex c" using colons_hd by blast
    then have "c \<noteq> CHR '':''" by auto
    moreover have "p6 sl k' (acc @ [g]) ell (colons gs) = Some ((acc @ [g]) @ gs, ell, [])"
      using False Cons.prems by (intro Cons.IH) (auto simp: k)
    ultimately show ?thesis
      using Cons.prems False c hex_tok_hex [of g "CHR '':'' # colons gs" sl]
      by (simp add: k colons_Cons)
  qed
qed simp

lemma p6_colons_ell:
  "gs \<noteq> [] \<Longrightarrow> small gs \<Longrightarrow> length gs \<le> k \<Longrightarrow>
   p6 sl k acc None (colons gs @ ''::'' @ t) =
     (if t = [] then Some (acc @ gs, Some (length acc + length gs), [])
      else p6 sl (k - length gs) (acc @ gs) (Some (length acc + length gs)) t)"
proof (induction gs arbitrary: k acc)
  case (Cons g gs)
  from Cons.prems obtain k' where k: "k = Suc k'" by (cases k) auto
  show ?case
  proof (cases "gs = []")
    case True
    then show ?thesis using Cons.prems hex_tok_hex [of g "''::'' @ t" sl] by (simp add: k)
  next
    case False
    then obtain c cs where c: "colons gs = c # cs" "is_hex c" using colons_hd by blast
    then have "c \<noteq> CHR '':''" by auto
    moreover have "p6 sl k' (acc @ [g]) None (colons gs @ ''::'' @ t) =
       (if t = [] then Some ((acc @ [g]) @ gs, Some (length (acc @ [g]) + length gs), [])
        else p6 sl (k' - length gs) ((acc @ [g]) @ gs) (Some (length (acc @ [g]) + length gs)) t)"
      using False Cons.prems by (intro Cons.IH) (auto simp: k)
    ultimately show ?thesis
      using Cons.prems False c hex_tok_hex [of g "CHR '':'' # colons gs @ ''::'' @ t" sl]
      by (simp add: k colons_Cons)
  qed
qed simp

lemma best_run_props:
  assumes "best_run gs = (s, e)"
  shows "s = 255 \<or> 2 \<le> e - s \<and> e = s + length (takeWhile (\<lambda>g. g = 0) (drop s gs))"
proof -
  let ?f = "\<lambda>(s, e) i. let l = length (takeWhile (\<lambda>g. g = 0) (drop i gs))
     in if 2 \<le> l \<and> e - s < l then (i, i + l) else (s, e)"
  have "foldl ?f p is = (s, e) \<Longrightarrow>
      fst p = 255 \<or> 2 \<le> snd p - fst p \<and> snd p = fst p + length (takeWhile (\<lambda>g. g = 0) (drop (fst p) gs)) \<Longrightarrow>
      s = 255 \<or> 2 \<le> e - s \<and> e = s + length (takeWhile (\<lambda>g. g = 0) (drop s gs))" for "is" :: "nat list" and p
  proof (induction "is" arbitrary: p)
    case (Cons i "is")
    show ?case
    proof (rule Cons.IH)
      show "foldl ?f (?f p i) is = (s, e)" using Cons.prems(1) by simp
    qed (use Cons.prems(2) in \<open>auto simp: Let_def split: prod.splits if_splits\<close>)
  qed auto
  from this [of "(255, 255)"] assms show ?thesis by (simp add: best_run_def)
qed

lemma zero_run_expand:
  assumes "e = s + length (takeWhile (\<lambda>g. g = 0) (drop s gs))" "2 \<le> e - s"
  shows "take s gs @ replicate (e - s) 0 @ drop e gs = gs" "e \<le> length gs" "s < length gs"
proof -
  let ?z = "takeWhile (\<lambda>g. g = 0) (drop s gs)"
  have "?z = replicate (e - s) 0"
    using assms(1) by (intro replicate_eqI) (auto dest: set_takeWhileD)
  moreover have "drop s gs = ?z @ drop (e - s) (drop s gs)"
    using assms(1) by (metis add_diff_cancel_left' append_take_drop_id takeWhile_eq_take)
  moreover have "drop (e - s) (drop s gs) = drop e gs" using assms(2) by simp
  ultimately have "drop s gs = replicate (e - s) 0 @ drop e gs" by metis
  then show "take s gs @ replicate (e - s) 0 @ drop e gs = gs" by (metis append_take_drop_id)
  have "length ?z \<le> length gs - s" using length_takeWhile_le [of _ "drop s gs"] by simp
  then show "e \<le> length gs" "s < length gs" using assms by auto
qed

lemma parseIPv6_groups:
  assumes len: "length gs = 8" and sm: "small gs"
  shows "parseIPv6 sl (groups_String gs) = Some gs"
proof (cases "best_run gs")
  case (Pair s e)
  show ?thesis
  proof (cases "s = 255")
    case True
    have ne: "gs \<noteq> []" using len by auto
    obtain c cs where c: "colons gs = c # cs" "is_hex c" using colons_hd [OF ne] by blast
    then have "take 2 (colons gs) \<noteq> ''::''" by (cases cs) auto
    moreover have "p6 sl 8 [] None (colons gs) = Some (gs, None, [])"
      using p6_colons [OF ne sm, of 8 sl "[]"] len by simp
    ultimately show ?thesis
      using True Pair len by (simp add: groups_String_def parseIPv6_def expand6_def flip: colons_def)
  next
    case False
    then have e: "2 \<le> e - s" "e = s + length (takeWhile (\<lambda>g. g = 0) (drop s gs))"
      using best_run_props [OF Pair] by auto
    note z = zero_run_expand [OF e(2,1)]
    have str: "groups_String gs = colons (take s gs) @ ''::'' @ colons (drop e gs)"
      using False Pair by (simp add: groups_String_def colons_def)
    have smd: "small (take s gs)" "small (drop e gs)"
      using sm by (auto dest: in_set_takeD in_set_dropD)
    have n: "8 - (s + (8 - e)) = e - s" "s + (8 - e) < 8" using e z(2,3) len by auto
    have fin: "expand6 (take s gs @ drop e gs, Some s, []) = Some gs"
      using z len n e by (simp add: expand6_def)
    show ?thesis
    proof (cases "s = 0")
      case s0: True
      show ?thesis
      proof (cases "drop e gs = []")
        case True
        then have "gs = replicate e 0" using s0 z(1) by simp
        moreover from this have "e = 8" using len by (metis length_replicate)
        ultimately have "gs = replicate 8 0" by (simp only:)
        moreover have "groups_String gs = ''::''" unfolding str True s0 by simp
        ultimately show ?thesis by (simp only: parseIPv6_def) simp
      next
        case d: False
        have "colons (drop e gs) \<noteq> []" using colons_hd [OF d] by auto
        moreover have "p6 sl 8 [] (Some 0) (colons (drop e gs)) = Some (drop e gs, Some 0, [])"
          using p6_colons [OF d smd(2), of 8 sl "[]" "Some 0"] len by simp
        ultimately show ?thesis using s0 str fin by (simp add: parseIPv6_def)
      qed
    next
      case s0: False
      then have ne: "take s gs \<noteq> []" using len by auto
      obtain c cs where c: "colons (take s gs) = c # cs" "is_hex c" using colons_hd [OF ne] by blast
      have no2: "take 2 (colons (take s gs) @ r) \<noteq> ''::''" for r using c by auto
      have le: "length (take s gs) \<le> 8" using len by simp
      note p = p6_colons_ell [OF ne smd(1) le, of sl "[]" "colons (drop e gs)"]
      have "p6 sl 8 [] None (groups_String gs) = Some (take s gs @ drop e gs, Some s, [])"
      proof (cases "drop e gs = []")
        case True
        then show ?thesis using p str z(3) by simp
      next
        case d: False
        have "colons (drop e gs) \<noteq> []" using colons_hd [OF d] by auto
        moreover have "length (drop e gs) \<le> 8 - s" using len e z(2,3) by simp
        ultimately show ?thesis
          using p p6_colons [OF d smd(2), of "8 - s" sl "take s gs" "Some s"] str z(3) len by simp
      qed
      then show ?thesis using no2 fin str by (simp add: parseIPv6_def)
    qed
  qed
qed

subsection \<open>Addresses\<close>

lemma byte_groups_group_bytes: "small gs \<Longrightarrow> byte_groups (group_bytes gs) = gs"
  by (induction gs) (auto simp: numeral_2_eq_2 unat_of_nat)

lemma group_bytes_byte_groups: "even (length b) \<Longrightarrow> group_bytes (byte_groups b) = b"
proof (induction b rule: byte_groups.induct)
  case (1 x y bs)
  have "be_nat [x, y] = unat x * 256 + unat y" by simp
  then have "to_be 2 (unat x * 256 + unat y) = [x, y]"
    by (intro to_be_eqI) simp_all
  with 1 show ?case by simp
qed auto

lemma length_byte_groups: "length (byte_groups b) = length b div 2"
  by (induction b rule: byte_groups.induct) auto

lemma small_byte_groups: "small (byte_groups b)"
proof (induction b rule: byte_groups.induct)
  case (1 x y bs)
  have "unat x * 256 + unat y < 65536" using unat_byte_le [of x] unat_byte_le [of y] by simp
  with 1 show ?case by simp
qed auto

lemma special_simps: "is_digit c \<Longrightarrow> \<not> special c" "is_hex c \<Longrightarrow> \<not> special c"
  by (auto simp: special_def is_digit_def is_hex_def Let_def)

lemma find_append_None: "list_all (\<lambda>c. \<not> P c) xs \<Longrightarrow> find P (xs @ ys) = find P ys"
  by (induction xs) auto

lemma find_dec: "find special (dec n @ CHR ''.'' # r) = Some (CHR ''.'')"
  using dec_digits [of n]
  by (subst find_append_None) (auto simp: list_all_iff special_simps, simp add: special_def)

lemma find_hex: "find special (hex n @ CHR '':'' # r) = Some (CHR '':'')"
  using hex_digits [of n]
  by (subst find_append_None) (auto simp: list_all_iff special_simps, simp add: special_def)

lemma ParseAddr_dotted:
  assumes "length b = 4"
  shows "ParseAddr (dotted b) = Addr4 (word_of_nat (be_nat b))"
proof -
  obtain x y r where "b = x # y # r" using assms by (cases b; cases "tl b") auto
  then have "find special (dotted b) = Some (CHR ''.'')" by (simp add: dotted_def find_dec)
  then show ?thesis
    using parseIPv4_dotted [OF assms, of False] by (simp add: ParseAddr_def addr_of_bytes4_def)
qed

lemma find_colons: "2 \<le> length gs \<Longrightarrow> find special (colons gs @ r) = Some (CHR '':'')"
  by (cases gs; cases "tl gs") (auto simp: colons_def find_hex)

lemma find_colons_ell: "find special (colons gs @ ''::'' @ r) = Some (CHR '':'')"
proof (cases "2 \<le> length gs")
  case False
  then consider "gs = []" | g where "gs = [g]" by (cases gs; cases "tl gs") auto
  then show ?thesis by cases (simp_all add: find_hex special_def)
qed (rule find_colons)

lemma find_groups: "length gs = 8 \<Longrightarrow> find special (groups_String gs) = Some (CHR '':'')"
  using find_colons [of gs "[]"] find_colons_ell
  by (auto simp: groups_String_def split: prod.splits simp flip: colons_def)

lemma ParseAddr_groups:
  assumes "length b = 16"
  shows "ParseAddr (groups_String (byte_groups b)) = Addr6 (word_of_nat (be_nat b))"
proof -
  have g: "length (byte_groups b) = 8" using assms by (simp add: length_byte_groups)
  then show ?thesis
    using parseIPv6_groups [OF g small_byte_groups, of False] find_groups [OF g] assms
    by (simp add: ParseAddr_def addr_of_groups_def group_bytes_byte_groups)
qed

text \<open>Parsing a printed address gives back the address; so printing is injective.\<close>

lemma ParseAddr_IP_String: "valid_ip ip \<Longrightarrow> ParseAddr (IP_String ip) = ip_addr ip"
  by (cases ip rule: ip_addr_cases)
    (auto simp: IP_String_def ParseAddr_dotted ParseAddr_groups valid_ip_def)

lemma As16_ip_addr: "valid_ip ip \<Longrightarrow> As16 (ip_addr ip) = To16 ip"
proof (cases ip rule: ip_addr_cases)
  case v4
  have "to_be 4 (be_nat (To4 ip)) = To4 ip" using v4 by (intro to_be_eqI) simp_all
  then show ?thesis using v4 be_nat_lt32 [of "To4 ip"] by (simp add: To4_Nil_To16)
next
  case v6
  have "to_be 16 (be_nat ip) = ip" using v6 by (intro to_be_eqI) simp_all
  then show ?thesis using v6 be_nat_lt128 [of ip] by (simp add: To16_def)
qed simp

lemma ParseIP_String: "valid_ip ip \<Longrightarrow> ParseIP (IP_String ip) = To16 ip"
  using ip_addr_valid [of ip] by (simp add: ParseIP_def ParseAddr_IP_String As16_ip_addr Let_def)

lemma IP_String_cong:
  assumes "valid_ip a" "valid_ip b" "ip_addr a = ip_addr b"
  shows "IP_String a = IP_String b"
proof -
  have t: "To16 a = To16 b" using assms by (metis As16_ip_addr)
  have t4: "To4 a \<noteq> [] \<longleftrightarrow> To4 b \<noteq> []" using assms(3) by (metis Is4_ip_addr)
  show ?thesis
  proof (cases "To4 a = []")
    case False
    then show ?thesis using assms t t4 To4_Nil_To16 [of a] To4_Nil_To16 [of b]
      by (auto simp: IP_String_def valid_ip_def)
  next
    case True
    then have "length a = 16" "length b = 16" using assms t4 by (auto simp: valid_ip_def)
    then show ?thesis using t by (simp add: To16_def)
  qed
qed

lemma IP_String_inject:
  assumes "valid_ip a" "valid_ip b"
  shows "IP_String a = IP_String b \<longleftrightarrow> ip_addr a = ip_addr b"
  using assms IP_String_cong ParseAddr_IP_String by metis

end
