(* ===== verification/IPHelpers.thy ===== *)
theory IPHelpers
  imports GoParse
begin

text \<open>
  \<^verbatim>\<open>pkg/iphelpers/iphelpers.go\<close>: conversions between \<^verbatim>\<open>net\<close> and \<^verbatim>\<open>netip\<close>, comparison,
  increment, offsets, usable ranges and division of a range into slices; and the functions
  of the vendored \<^verbatim>\<open>netutil\<close> and \<^verbatim>\<open>extnetip\<close> packages it calls. The lemmas give each
  function's meaning on addresses as numbers.
\<close>

section \<open>Definitions\<close>

definition NormalizeRangeForResourceName :: "string \<Rightarrow> string" where
  "NormalizeRangeForResourceName ipRange =
     (if ipRange = [] then []
      else let r = (if last ipRange = CHR '':'' then ipRange @ ''0'' else ipRange)
           in replace_byte (CHR ''/'') (CHR ''-'') (replace_byte (CHR '':'') (CHR ''-'') r))"

definition MaxNodeSliceSubnets :: int where
  "MaxNodeSliceSubnets = 16384"

definition toAddr :: "IP \<Rightarrow> addr" where
  "toAddr ip = (if ip = [] then AddrZero else Unmap (AddrFromSlice ip))"

definition toPrefix :: "IPNet \<Rightarrow> prefix option" where
  "toPrefix n =
     (let a = toAddr (net_IP n)
      in if a = AddrZero then None else Some (PrefixFrom a (fst (Mask_Size (net_Mask n)))))"

definition CIDRsOverlap :: "string \<Rightarrow> string \<Rightarrow> bool result" where
  "CIDRsOverlap a b = (case ParsePrefix a of
     Inl e \<Rightarrow> Inl (Wrap ''parsing CIDR'' e)
   | Inr pa \<Rightarrow> (case ParsePrefix b of
       Inl e \<Rightarrow> Inl (Wrap ''parsing CIDR'' e)
     | Inr pb \<Rightarrow> Inr (Overlaps pa pb)))"

fun CIDROverlapsAny :: "string \<Rightarrow> string list \<Rightarrow> (string \<times> bool) result" where
  "CIDROverlapsAny cidr [] = Inr ([], False)"
| "CIDROverlapsAny cidr (other # others) = (case CIDRsOverlap cidr other of
     Inl e \<Rightarrow> Inl e
   | Inr overlap \<Rightarrow> if overlap then Inr (other, True) else CIDROverlapsAny cidr others)"

definition CompareIPs :: "IP \<Rightarrow> IP \<Rightarrow> int" where
  "CompareIPs x y =
     (let ax = toAddr x; ay = toAddr y
      in if ax = AddrZero \<or> ay = AddrZero then 0 else Compare ax ay)"

definition addrToNetIP :: "addr \<Rightarrow> IP \<Rightarrow> IP" where
  "addrToNetIP a origIP = (if Is4 a \<and> length origIP = 16 then As16 a else AsSlice a)"

definition IsIPInRange :: "IP \<Rightarrow> IP \<Rightarrow> IP \<Rightarrow> bool result" where
  "IsIPInRange ip start end =
     (if ip = [] \<or> start = [] \<or> end = [] then Inl (Msg ''cannot determine if IP is in range'')
      else Inr (CompareIPs ip start \<ge> 0 \<and> CompareIPs ip end \<le> 0))"

definition NetworkIP :: "IPNet \<Rightarrow> IP" where
  "NetworkIP n = (case toPrefix n of
     None \<Rightarrow> []
   | Some p \<Rightarrow> addrToNetIP (pfx_addr (Masked p)) (net_IP n))"

text \<open>\<^verbatim>\<open>extnetip.Range\<close>: first and last address of a prefix, zero values if it is invalid.\<close>

definition extnetip_Range :: "prefix \<Rightarrow> addr \<times> addr" where
  "extnetip_Range p = (case pfx_bits p of
     None \<Rightarrow> (AddrZero, AddrZero)
   | Some n \<Rightarrow> (addr_mask n (pfx_addr p), addr_last n (pfx_addr p)))"

definition SubnetBroadcastIP :: "IPNet \<Rightarrow> IP" where
  "SubnetBroadcastIP n = (case toPrefix n of
     None \<Rightarrow> []
   | Some p \<Rightarrow> addrToNetIP (snd (extnetip_Range p)) (net_IP n))"

definition HasUsableIPs :: "IPNet \<Rightarrow> bool" where
  "HasUsableIPs n \<longleftrightarrow> 0 < snd (Mask_Size (net_Mask n))"

definition IncIP :: "IP \<Rightarrow> IP" where
  "IncIP ip =
     (let a = toAddr ip
      in if a = AddrZero then ip
         else if Next a = AddrZero then ip else addrToNetIP (Next a) ip)"

definition DecIP :: "IP \<Rightarrow> IP" where
  "DecIP ip =
     (let a = toAddr ip
      in if a = AddrZero then ip
         else if Prev a = AddrZero then ip else addrToNetIP (Prev a) ip)"

definition FirstUsableIP :: "IPNet \<Rightarrow> IP result" where
  "FirstUsableIP n =
     (if \<not> HasUsableIPs n then Inl (Msg ''net mask is too short'')
      else let (ones, totalBits) = Mask_Size (net_Mask n); hostBits = totalBits - ones
           in if hostBits = 0 then Inr (IP_Mask (net_IP n) (net_Mask n))
              else if hostBits = 1 then Inr (NetworkIP n)
              else Inr (IncIP (NetworkIP n)))"

definition LastUsableIP :: "IPNet \<Rightarrow> IP result" where
  "LastUsableIP n =
     (if \<not> HasUsableIPs n then Inl (Msg ''net mask is too short'')
      else let (ones, totalBits) = Mask_Size (net_Mask n); hostBits = totalBits - ones
           in if hostBits = 0 then Inr (IP_Mask (net_IP n) (net_Mask n))
              else if hostBits = 1 then Inr (SubnetBroadcastIP n)
              else Inr (DecIP (SubnetBroadcastIP n)))"

definition BigForIP :: "IP \<Rightarrow> int" where
  "BigForIP ip = int (be_nat (To16 ip))"

definition IPGetOffset :: "IP \<Rightarrow> IP \<Rightarrow> int result" where
  "IPGetOffset ip1 ip2 =
     (let a1 = toAddr ip1; a2 = toAddr ip2
      in if a1 = AddrZero \<or> a2 = AddrZero then Inl (Msg ''invalid IP address(es)'')
         else if Is4 a1 \<and> \<not> Is4 a2 then Inl (Msg ''cannot calculate offset between IPv4 and IPv6'')
         else if \<not> Is4 a1 \<and> Is4 a2 then Inl (Msg ''cannot calculate offset between IPv6 and IPv4'')
         else Inr \<bar>BigForIP ip1 - BigForIP ip2\<bar>)"

text \<open>\<^verbatim>\<open>netutil.Add\<close>.\<close>

definition netutil_Add :: "addr \<Rightarrow> int \<Rightarrow> addr result" where
  "netutil_Add a offset =
     (if a = AddrZero then Inl (Msg ''invalid or zoned IP address'')
      else let r = int (addr_nat a) + offset
           in if r < 0 \<or> 2 ^ BitLen a \<le> r then Inl (Msg ''value outside address range'')
              else Inr (if Is4 a then Addr4 (word_of_int r) else Addr6 (word_of_int r)))"

definition IPAddOffset :: "IP \<Rightarrow> int \<Rightarrow> IP" where
  "IPAddOffset ip offset =
     (if ip = [] \<or> offset < 0 then []
      else let a = toAddr ip
           in if a = AddrZero then []
              else (case netutil_Add a offset of Inl _ \<Rightarrow> [] | Inr r \<Rightarrow> AsSlice r))"

definition IsIPv4 :: "IP \<Rightarrow> bool" where
  "IsIPv4 ip \<longleftrightarrow> To4 ip \<noteq> []"

definition GetIPRange :: "IPNet \<Rightarrow> IP \<Rightarrow> IP \<Rightarrow> (IP \<times> IP) result" where
  "GetIPRange n rangeStart rangeEnd = (case FirstUsableIP n of
     Inl e \<Rightarrow> Inl e
   | Inr firstIP \<Rightarrow> (case LastUsableIP n of
       Inl e \<Rightarrow> Inl e
     | Inr lastIP \<Rightarrow>
         (case (if rangeStart = [] then Inr firstIP
                else (case IsIPInRange rangeStart firstIP lastIP of
                        Inl e \<Rightarrow> Inl e
                      | Inr inr \<Rightarrow> Inr (if inr then rangeStart else firstIP))) of
            Inl e \<Rightarrow> Inl e
          | Inr firstIP' \<Rightarrow>
              (case (if rangeEnd = [] then Inr lastIP
                     else (case IsIPInRange rangeEnd firstIP' lastIP of
                             Inl e \<Rightarrow> Inl e
                           | Inr inr \<Rightarrow> Inr (if inr then rangeEnd else lastIP))) of
                 Inl e \<Rightarrow> Inl e
               | Inr lastIP' \<Rightarrow> Inr (firstIP', lastIP')))))"

definition MaxInt32 :: int where
  "MaxInt32 = 2 ^ 31 - 1"

definition CountUsableIPs :: "string \<Rightarrow> int result" where
  "CountUsableIPs cidr = (case ParseCIDR cidr of
     Inl e \<Rightarrow> Inl (Wrap ''parsing CIDR'' e)
   | Inr (_, n) \<Rightarrow>
       if \<not> HasUsableIPs n then Inr 0
       else let (ones, totalBits) = Mask_Size (net_Mask n); hostBits = totalBits - ones
            in if hostBits = 0 then Inr 1
               else if hostBits = 1 then Inr 2
               else (case FirstUsableIP n of
                  Inl e \<Rightarrow> Inl e
                | Inr firstIP \<Rightarrow> (case LastUsableIP n of
                    Inl e \<Rightarrow> Inl e
                  | Inr lastIP \<Rightarrow> (case IPGetOffset firstIP lastIP of
                      Inl e \<Rightarrow> Inl e
                    | Inr offset \<Rightarrow>
                        if MaxInt32 < offset + 1 then Inr MaxInt32 else Inr (offset + 1)))))"

text \<open>\<^verbatim>\<open>netutil.Subdivide\<close> and its loop.\<close>

fun subdivide_loop :: "nat \<Rightarrow> addr \<Rightarrow> nat \<Rightarrow> prefix list" where
  "subdivide_loop 0 a bits = []"
| "subdivide_loop (Suc k) a bits = PrefixFrom a bits # subdivide_loop k (Next (addr_last bits a)) bits"

definition Subdivide :: "prefix \<Rightarrow> nat \<Rightarrow> int \<Rightarrow> prefix list result" where
  "Subdivide p0 bits limit = (case pfx_bits p0 of
     None \<Rightarrow> Inl (Msg ''invalid IP prefix'')
   | Some pb \<Rightarrow>
       let a = pfx_addr (Masked p0)
       in if bits < pb \<or> BitLen a < bits then Inl (Msg ''invalid IP prefix'')
          else if limit \<le> 0 then Inl (Msg ''subdivision limit exceeded or not positive'')
          else if limit < 2 ^ (bits - pb) then Inl (Msg ''subdivision limit exceeded or not positive'')
          else Inr (subdivide_loop (2 ^ (bits - pb)) a bits))"

definition MaxInt :: int where
  "MaxInt = 2 ^ 63 - 1"

definition prefix_String :: "prefix \<Rightarrow> string" where
  "prefix_String p = IP_String (AsSlice (Unmap (pfx_addr p))) @ ''/'' @
     (case pfx_bits p of Some n \<Rightarrow> dec n | None \<Rightarrow> ''-1'')"

definition divideRangeBySize :: "string \<Rightarrow> string \<Rightarrow> int \<Rightarrow> string list result" where
  "divideRangeBySize inputNetwork sliceSizeString maxSubnets =
     (case Atoi (TrimPrefix (CHR ''/'') sliceSizeString) of
        None \<Rightarrow> Inl (Msg ''invalid slice size'')
      | Some sliceSize \<Rightarrow> (case ParsePrefix inputNetwork of
          Inl e \<Rightarrow> Inl (Wrap ''error parsing CIDR'' e)
        | Inr p \<Rightarrow>
            if pfx_addr p \<noteq> pfx_addr (Masked p) then Inl (Msg ''netCIDR is not a valid network address'')
            else let netBits = (case pfx_bits p of Some n \<Rightarrow> int n | None \<Rightarrow> -1);
                     addrLen = (if Is6 (pfx_addr p) then 128 else 32)
                 in if netBits > sliceSize
                    then Inl (Msg ''subnetMaskSize must be greater or equal than netMaskSize'')
                    else if sliceSize > addrLen then Inl (Msg ''slice size exceeds address length'')
                    else if maxSubnets > 0 \<and> 2 ^ nat (sliceSize - netBits) > maxSubnets
                    then Inl (Msg ''node slice range creates too many slices'')
                    else let limit = (if maxSubnets > 0 \<and> maxSubnets < MaxInt then maxSubnets else MaxInt)
                         in (case Subdivide p (nat sliceSize) limit of
                               Inl e \<Rightarrow> Inl (Wrap ''dividing range'' e)
                             | Inr subnets \<Rightarrow> Inr (map prefix_String subnets))))"

definition DivideRangeBySize :: "string \<Rightarrow> string \<Rightarrow> string list result" where
  "DivideRangeBySize inputNetwork sliceSizeString = divideRangeBySize inputNetwork sliceSizeString 0"

definition DivideRangeBySizeWithLimit :: "string \<Rightarrow> string \<Rightarrow> int \<Rightarrow> string list result" where
  "DivideRangeBySizeWithLimit inputNetwork sliceSizeString maxSubnets =
     divideRangeBySize inputNetwork sliceSizeString maxSubnets"

section \<open>Meaning on addresses\<close>

lemma toAddr_eq [addr_simps]: "toAddr ip = ip_addr ip"
  by (auto simp: toAddr_def ip_addr_def AddrFromSlice_def)

lemma To4_mapped: "length b = 4 \<Longrightarrow> To4 (v4InV6Prefix @ b) = b"
  by (simp add: To4_def)

lemma ip_addr_As16: "ip_addr (As16 a) = (if a = AddrZero then Addr6 0 else Unmap a)"
proof (cases a)
  case AddrZero
  have "ip_addr (replicate 16 0) = Addr6 0" by code_simp
  then show ?thesis using AddrZero by simp
next
  case (Addr4 w)
  have "be_nat (to_be 4 (unat w)) = unat w" using be_nat_AsSlice [of "Addr4 w"] by simp
  then show ?thesis
    using Addr4 ip_addr_To4 [of "v4InV6Prefix @ to_be 4 (unat w)"] len4_not_Nil [of "to_be 4 (unat w)"]
    by (simp add: To4_mapped)
next
  case (Addr6 w)
  then show ?thesis using ip_addr_AsSlice [of "Addr6 w"] by simp
qed

lemma length_As16 [simp]: "length (As16 a) = 16"
  by (cases a) simp_all

lemma ip_addr_addrToNetIP [addr_simps]: "ip_addr (addrToNetIP a orig) = Unmap a"
  by (cases a) (auto simp: addrToNetIP_def ip_addr_As16 ip_addr_AsSlice simp del: As16.simps AsSlice.simps)

lemma valid_addrToNetIP: "valid_ip (addrToNetIP a orig) \<longleftrightarrow> a \<noteq> AddrZero"
  by (simp add: ip_addr_valid ip_addr_addrToNetIP)

lemma valid_not_Nil: "valid_ip ip \<Longrightarrow> ip \<noteq> []"
  by (auto simp: valid_ip_def)

lemma CompareIPs_le [addr_simps]:
  "valid_ip x \<Longrightarrow> valid_ip y \<Longrightarrow> CompareIPs x y \<le> 0 \<longleftrightarrow> ip_addr x \<le> ip_addr y"
  by (simp add: CompareIPs_def toAddr_eq ip_addr_valid Compare_le Let_def)

lemma CompareIPs_ge [addr_simps]:
  "valid_ip x \<Longrightarrow> valid_ip y \<Longrightarrow> CompareIPs x y \<ge> 0 \<longleftrightarrow> ip_addr y \<le> ip_addr x"
  by (simp add: CompareIPs_def toAddr_eq ip_addr_valid Compare_ge Let_def)

lemma IsIPInRange_valid [addr_simps]:
  assumes "valid_ip ip" "valid_ip s" "valid_ip e"
  shows "IsIPInRange ip s e = Inr (ip_addr s \<le> ip_addr ip \<and> ip_addr ip \<le> ip_addr e)"
  using assms by (simp add: IsIPInRange_def valid_not_Nil CompareIPs_le CompareIPs_ge)

subsection \<open>Successor and predecessor\<close>

lemma word_Suc_zero_iff: "w + 1 = 0 \<longleftrightarrow> unat w = 2 ^ LENGTH('a) - 1"
  for w :: "'a::len word"
proof -
  have "unat (w + 1) = (unat w + 1) mod 2 ^ LENGTH('a)" by (simp add: unat_word_ariths)
  moreover have "unat w < 2 ^ LENGTH('a)" by (rule unsigned_less)
  ultimately have "unat (w + 1) = 0 \<longleftrightarrow> unat w = 2 ^ LENGTH('a) - 1"
    by (cases "unat w + 1 = 2 ^ LENGTH('a)") auto
  then show ?thesis by (simp add: unat_eq_0)
qed

lemma unat_Suc_word: "w + 1 \<noteq> 0 \<Longrightarrow> unat (w + 1) = unat w + 1"
  for w :: "'a::len word"
proof -
  assume "w + 1 \<noteq> 0"
  then have "unat w \<noteq> 2 ^ LENGTH('a) - 1" by (simp add: word_Suc_zero_iff)
  moreover have "unat w < 2 ^ LENGTH('a)" by (rule unsigned_less)
  ultimately have "unat w + 1 < 2 ^ LENGTH('a)" by linarith
  then show ?thesis by (simp add: unat_word_ariths)
qed

lemma Next_zero_iff: "Next a = AddrZero \<longleftrightarrow> a = AddrZero \<or> addr_nat a = 2 ^ BitLen a - 1"
  by (cases a) (auto simp: word_Suc_zero_iff)

lemma Next_nat:
  assumes "Next a \<noteq> AddrZero"
  shows "BitLen (Next a) = BitLen a" "addr_nat (Next a) = addr_nat a + 1"
  using assms by (cases a; auto simp: unat_Suc_word split: if_splits)+

lemma Prev_zero_iff: "Prev a = AddrZero \<longleftrightarrow> a = AddrZero \<or> addr_nat a = 0"
  by (cases a) (auto simp: unat_eq_0)

lemma Prev_nat:
  assumes "Prev a \<noteq> AddrZero"
  shows "BitLen (Prev a) = BitLen a" "addr_nat (Prev a) = addr_nat a - 1"
  using assms by (cases a; auto simp: unat_minus_one split: if_splits)+

lemma addr_less_iff:
  "a < b \<longleftrightarrow> BitLen a < BitLen b \<or> BitLen a = BitLen b \<and> addr_nat a < addr_nat b"
  by (auto simp: less_le_not_le addr_le_iff)

lemma Next_between:
  assumes "a < b" "BitLen b = BitLen a" "a \<noteq> AddrZero"
  shows "Next a \<noteq> AddrZero" "a < Next a" "Next a \<le> b"
proof -
  have "addr_nat a < addr_nat b" using assms by (simp add: addr_less_iff)
  moreover have "addr_nat b < 2 ^ BitLen a" using addr_nat_lt [of b] assms by simp
  ultimately show nz: "Next a \<noteq> AddrZero" using assms(3) by (auto simp: Next_zero_iff)
  show "a < Next a" "Next a \<le> b"
    using Next_nat [OF nz] \<open>addr_nat a < addr_nat b\<close> assms
    by (simp_all add: addr_less_iff addr_le_iff)
qed

lemma Next_least: "Next a \<noteq> AddrZero \<Longrightarrow> a < x \<Longrightarrow> Next a \<le> x"
  using Next_nat [of a] by (auto simp: addr_less_iff addr_le_iff)

lemma Next_greater: "Next a \<noteq> AddrZero \<Longrightarrow> a < Next a"
  using Next_nat [of a] by (auto simp: addr_less_iff)

subsection \<open>Networks clear of the IPv4-mapped block\<close>

text \<open>
  An IPv6 network that contains part of \<^verbatim>\<open>::ffff:0:0/96\<close> is read back as IPv4 by every
  \<^verbatim>\<open>net\<close> function. \<open>good_cidr\<close> excludes exactly those; every IPv4 network is good.
\<close>

definition mapped_base :: addr where
  "mapped_base = Addr6 0xffff00000000"

definition good_cidr :: "addr \<Rightarrow> nat \<Rightarrow> bool" where
  "good_cidr a n \<longleftrightarrow> a \<noteq> AddrZero \<and> n \<le> BitLen a \<and>
     (Is4 a \<or> addr_mask (min n 96) a \<noteq> addr_mask (min n 96) mapped_base)"

lemma addr_mask_mask: "m \<le> n \<Longrightarrow> addr_mask m (addr_mask n a) = addr_mask m a"
proof (cases a)
  case (Addr4 w)
  assume "m \<le> n"
  then show ?thesis unfolding Addr4 addr_mask.simps addr.inject
    by (intro bit_word_eqI) (auto simp: bit_simps)
next
  case (Addr6 w)
  assume "m \<le> n"
  then show ?thesis unfolding Addr6 addr_mask.simps addr.inject
    by (intro bit_word_eqI) (auto simp: bit_simps)
qed simp

lemma addr_last_mask [simp]: "addr_last n (addr_mask n a) = addr_last n a"
proof (cases a)
  case (Addr4 w)
  then show ?thesis unfolding Addr4 addr_mask.simps addr_last.simps addr.inject
    by (intro bit_word_eqI) (auto simp: bit_simps)
next
  case (Addr6 w)
  then show ?thesis unfolding Addr6 addr_mask.simps addr_last.simps addr.inject
    by (intro bit_word_eqI) (auto simp: bit_simps)
qed simp

lemma Unmap_eq_iff: "Unmap x = x \<longleftrightarrow> Is4 x \<or> x = AddrZero \<or> addr_mask 96 x \<noteq> mapped_base"
proof (cases x)
  case (Addr6 w)
  have "drop_bit 32 w = 0xffff \<longleftrightarrow> w AND NOT (mask 32) = 0xffff00000000"
  proof
    assume "drop_bit 32 w = 0xffff"
    then have "push_bit 32 (drop_bit 32 w) = push_bit 32 0xffff" by (rule arg_cong)
    moreover have "push_bit 32 (drop_bit 32 w) = w AND NOT (mask 32)"
      by (rule bit_word_eqI) (auto simp: bit_simps)
    ultimately show "w AND NOT (mask 32) = 0xffff00000000" by simp
  next
    assume "w AND NOT (mask 32) = 0xffff00000000"
    then have "drop_bit 32 (w AND NOT (mask 32)) = drop_bit 32 0xffff00000000" by (rule arg_cong)
    moreover have "drop_bit 32 (w AND NOT (mask 32)) = drop_bit 32 w"
      by (rule bit_word_eqI) (auto simp: bit_simps dest: bit_imp_le_length)
    moreover have "drop_bit 32 0xffff00000000 = (0xffff :: 128 word)" by code_simp
    ultimately show "drop_bit 32 w = 0xffff" by metis
  qed
  then show ?thesis using Addr6 by (simp add: mapped_base_def)
qed simp_all

lemma good_Unmap:
  assumes "good_cidr a n" "addr_mask n x = addr_mask n a"
  shows "Unmap x = x"
proof (rule ccontr)
  assume "Unmap x \<noteq> x"
  then have x: "\<not> Is4 x" "x \<noteq> AddrZero" "addr_mask 96 x = mapped_base"
    by (auto simp: Unmap_eq_iff)
  have a: "\<not> Is4 a" using assms(2) x by (cases x; cases a) auto
  have "addr_mask (min n 96) a = addr_mask (min n 96) x"
    using assms(2) addr_mask_mask [of "min n 96" n] by (metis min.cobounded1)
  also have "\<dots> = addr_mask (min n 96) mapped_base"
    using x(3) addr_mask_mask [of "min n 96" 96 x] by simp
  finally show False using assms(1) a by (simp add: good_cidr_def)
qed

lemma good_plain: "good_cidr a n \<Longrightarrow> plain_cidr a n"
  using good_Unmap [of a n "addr_mask n a"] addr_mask_mask [of n n a]
  by (simp add: good_cidr_def plain_cidr_def)

lemma good_interval_Unmap:
  assumes "good_cidr a n" "addr_mask n a \<le> x" "x \<le> addr_last n a"
  shows "Unmap x = x"
proof (rule good_Unmap [OF assms(1)])
  have a: "a \<noteq> AddrZero" using assms(1) by (simp add: good_cidr_def)
  show "addr_mask n x = addr_mask n a"
    using same_prefix_iff [OF a addr_between [OF a assms(2,3)]] assms(2,3) by simp
qed

subsection \<open>Network, broadcast and usable addresses\<close>

lemma toPrefix_plain:
  assumes "plain_cidr a n"
  shows "toPrefix (cidr_net a n) = Some (Prefix (addr_mask n a) (Some n))"
proof -
  have a: "a \<noteq> AddrZero" "n \<le> BitLen a" "Unmap (addr_mask n a) = addr_mask n a"
    using assms by (auto simp: plain_cidr_def)
  have "n \<le> 8 * (BitLen a div 8)" using a by (cases a) simp_all
  with a show ?thesis
    by (simp add: toPrefix_def toAddr_eq cidr_net_eq ip_addr_AsSlice Mask_Size_cidr_mask
        PrefixFrom_def Let_def)
qed

lemma addrToNetIP_slice: "BitLen b = BitLen a \<Longrightarrow> addrToNetIP b (AsSlice a) = AsSlice b"
  by (cases a; cases b) (simp_all add: addrToNetIP_def)

lemma net_IP_cidr_net: "a \<noteq> AddrZero \<Longrightarrow> n \<le> BitLen a \<Longrightarrow> net_IP (cidr_net a n) = AsSlice (addr_mask n a)"
  by (simp add: cidr_net_eq)

lemma NetworkIP_plain:
  assumes "plain_cidr a n"
  shows "NetworkIP (cidr_net a n) = AsSlice (addr_mask n a)"
  using assms
  by (simp add: NetworkIP_def toPrefix_plain [OF assms] Masked_def net_IP_cidr_net addr_mask_mask
      addrToNetIP_slice plain_cidr_def)

lemma SubnetBroadcastIP_plain:
  assumes "plain_cidr a n"
  shows "SubnetBroadcastIP (cidr_net a n) = AsSlice (addr_last n a)"
  using assms
  by (simp add: SubnetBroadcastIP_def toPrefix_plain [OF assms] extnetip_Range_def net_IP_cidr_net
      addrToNetIP_slice plain_cidr_def)

lemma addr_last_plus:
  assumes "a \<noteq> AddrZero"
  shows "addr_nat (addr_last n a) + 1 = addr_nat (addr_mask n a) + 2 ^ (BitLen a - n)"
    and "1 \<le> (2::nat) ^ (BitLen a - n)"
proof -
  show pos: "1 \<le> (2::nat) ^ (BitLen a - n)" by simp
  show "addr_nat (addr_last n a) + 1 = addr_nat (addr_mask n a) + 2 ^ (BitLen a - n)"
    unfolding addr_nat_last [OF assms] addr_nat_mask using pos by linarith
qed

lemma mask_le_last: "addr_mask n a \<le> addr_last n a"
proof (cases "a = AddrZero")
  case False
  have "addr_nat (addr_mask n a) \<le> addr_nat (addr_last n a)"
    using addr_last_plus [OF False, of n] by linarith
  then show ?thesis by (simp add: addr_le_iff)
qed simp

lemma good_last_Unmap: "good_cidr a n \<Longrightarrow> Unmap (addr_last n a) = addr_last n a"
  by (erule good_interval_Unmap [OF _ mask_le_last order_refl])

lemma Mask_Size_cidr_net:
  assumes "a \<noteq> AddrZero" "n \<le> BitLen a"
  shows "Mask_Size (net_Mask (cidr_net a n)) = (n, BitLen a)"
proof -
  have "n \<le> 8 * (BitLen a div 8)" "8 * (BitLen a div 8) = BitLen a" using assms by (cases a; simp)+
  then show ?thesis using assms by (simp add: cidr_net_eq Mask_Size_cidr_mask)
qed

lemma BitLen_pos: "a \<noteq> AddrZero \<Longrightarrow> 0 < BitLen a"
  by (cases a) simp_all

definition usable_lo :: "addr \<Rightarrow> nat \<Rightarrow> addr" where
  "usable_lo a n = (if BitLen a - n \<le> 1 then addr_mask n a else Next (addr_mask n a))"

definition usable_hi :: "addr \<Rightarrow> nat \<Rightarrow> addr" where
  "usable_hi a n = (if BitLen a - n \<le> 1 then addr_last n a else Prev (addr_last n a))"

lemma host_ge2: "\<not> BitLen a - n \<le> 1 \<Longrightarrow> (4::nat) \<le> 2 ^ (BitLen a - n)"
proof -
  assume "\<not> BitLen a - n \<le> 1"
  then have "(2::nat) ^ 2 \<le> 2 ^ (BitLen a - n)" by (intro power_increasing) auto
  then show ?thesis by simp
qed

lemma usable_lo_nat:
  assumes "a \<noteq> AddrZero"
  shows "BitLen (usable_lo a n) = BitLen a"
    "addr_nat (usable_lo a n) = addr_nat (addr_mask n a) + (if BitLen a - n \<le> 1 then 0 else 1)"
proof -
  have "Next (addr_mask n a) \<noteq> AddrZero" if "\<not> BitLen a - n \<le> 1"
  proof -
    have "addr_nat (addr_mask n a) < addr_nat (addr_last n a)"
      using addr_last_plus [OF assms, of n] host_ge2 [OF that] by linarith
    then show ?thesis
      using assms addr_nat_lt [of "addr_last n a"] by (auto simp: Next_zero_iff)
  qed
  then show "BitLen (usable_lo a n) = BitLen a"
    "addr_nat (usable_lo a n) = addr_nat (addr_mask n a) + (if BitLen a - n \<le> 1 then 0 else 1)"
    using Next_nat [of "addr_mask n a"] by (auto simp: usable_lo_def)
qed

lemma usable_hi_nat:
  assumes "a \<noteq> AddrZero"
  shows "BitLen (usable_hi a n) = BitLen a"
    "addr_nat (usable_hi a n) = addr_nat (addr_last n a) - (if BitLen a - n \<le> 1 then 0 else 1)"
proof -
  have "Prev (addr_last n a) \<noteq> AddrZero" if "\<not> BitLen a - n \<le> 1"
    using assms addr_last_plus [OF assms, of n] host_ge2 [OF that] by (auto simp: Prev_zero_iff)
  then show "BitLen (usable_hi a n) = BitLen a"
    "addr_nat (usable_hi a n) = addr_nat (addr_last n a) - (if BitLen a - n \<le> 1 then 0 else 1)"
    using Prev_nat [of "addr_last n a"] by (auto simp: usable_hi_def)
qed

lemma usable_bounds:
  assumes "a \<noteq> AddrZero"
  shows "addr_mask n a \<le> usable_lo a n" "usable_lo a n \<le> usable_hi a n" "usable_hi a n \<le> addr_last n a"
proof -
  show "addr_mask n a \<le> usable_lo a n" using usable_lo_nat [OF assms, of n] by (simp add: addr_le_iff)
  show "usable_hi a n \<le> addr_last n a" using usable_hi_nat [OF assms, of n] by (simp add: addr_le_iff)
  have "addr_nat (usable_lo a n) \<le> addr_nat (usable_hi a n)"
    unfolding usable_lo_nat(2) [OF assms] usable_hi_nat(2) [OF assms]
    using addr_last_plus [OF assms, of n] host_ge2 [of a n] mask_le_last [of n a]
    by (auto split: if_split simp: addr_le_iff simp del: One_nat_def)
  then show "usable_lo a n \<le> usable_hi a n"
    using usable_lo_nat(1) [OF assms, of n] usable_hi_nat(1) [OF assms, of n] by (simp add: addr_le_iff)
qed

lemma ip_addr_IncIP:
  assumes "valid_ip ip"
  shows "ip_addr (IncIP ip) = (if Next (ip_addr ip) = AddrZero then ip_addr ip else Unmap (Next (ip_addr ip)))"
    and "valid_ip (IncIP ip)"
  using assms by (simp_all add: IncIP_def toAddr_eq Let_def ip_addr_addrToNetIP ip_addr_valid)

lemma ip_addr_DecIP:
  assumes "valid_ip ip"
  shows "ip_addr (DecIP ip) = (if Prev (ip_addr ip) = AddrZero then ip_addr ip else Unmap (Prev (ip_addr ip)))"
    and "valid_ip (DecIP ip)"
  using assms by (simp_all add: DecIP_def toAddr_eq Let_def ip_addr_addrToNetIP ip_addr_valid)

lemma IP_Mask_net:
  assumes "a \<noteq> AddrZero" "n \<le> BitLen a"
  shows "IP_Mask (net_IP (cidr_net a n)) (net_Mask (cidr_net a n)) = AsSlice (addr_mask n a)"
proof -
  have k: "8 * (BitLen a div 8) = BitLen a" using assms by (cases a) simp_all
  have "and_bytes (AsSlice (addr_mask n a)) (cidr_mask n (BitLen a div 8)) = AsSlice (addr_mask n a)"
    using and_bytes_to_be [of n "BitLen a div 8" "addr_nat (addr_mask n a)"] assms
      addr_nat_lt [of "addr_mask n a"]
    by (simp add: k AsSlice_addr [of "addr_mask n a"]) (simp add: addr_nat_mask)
  then show ?thesis
    using assms by (cases a) (simp_all add: cidr_net_eq IP_Mask_def)
qed

lemma FirstUsableIP_good:
  assumes "good_cidr a n"
  shows "\<exists>ip. FirstUsableIP (cidr_net a n) = Inr ip \<and> valid_ip ip \<and> ip_addr ip = usable_lo a n"
proof -
  note p = good_plain [OF assms]
  have a: "a \<noteq> AddrZero" "n \<le> BitLen a" "0 < BitLen a" "Unmap (addr_mask n a) = addr_mask n a"
    using p BitLen_pos [of a] by (auto simp: plain_cidr_def)
  have v: "valid_ip (AsSlice (addr_mask n a))" "ip_addr (AsSlice (addr_mask n a)) = addr_mask n a"
    using a by (simp_all add: ip_addr_valid ip_addr_AsSlice)
  have "usable_lo a n = ip_addr (IncIP (AsSlice (addr_mask n a)))" if "\<not> BitLen a - n \<le> 1"
  proof -
    have "Unmap (usable_lo a n) = usable_lo a n"
      using good_interval_Unmap [OF assms] usable_bounds [OF a(1), of n] by (meson order_trans)
    moreover have "usable_lo a n \<noteq> AddrZero" using usable_lo_nat(1) [OF a(1), of n] a(3) by auto
    ultimately show ?thesis using that v ip_addr_IncIP by (simp add: usable_lo_def)
  qed
  then show ?thesis
    using a v ip_addr_IncIP(2) [OF v(1)]
    by (auto simp: FirstUsableIP_def HasUsableIPs_def Mask_Size_cidr_net NetworkIP_plain [OF p]
        IP_Mask_net Let_def usable_lo_def)
qed

lemma LastUsableIP_good:
  assumes "good_cidr a n"
  shows "\<exists>ip. LastUsableIP (cidr_net a n) = Inr ip \<and> valid_ip ip \<and> ip_addr ip = usable_hi a n"
proof -
  note p = good_plain [OF assms]
  have a: "a \<noteq> AddrZero" "n \<le> BitLen a" "0 < BitLen a" "Unmap (addr_mask n a) = addr_mask n a"
    using p BitLen_pos [of a] by (auto simp: plain_cidr_def)
  have v: "valid_ip (AsSlice (addr_last n a))" "ip_addr (AsSlice (addr_last n a)) = addr_last n a"
    using a good_last_Unmap [OF assms] by (simp_all add: ip_addr_valid ip_addr_AsSlice)
  have v0: "valid_ip (AsSlice (addr_mask n a))" "ip_addr (AsSlice (addr_mask n a)) = addr_mask n a"
    using a by (simp_all add: ip_addr_valid ip_addr_AsSlice)
  have eq: "addr_mask n a = addr_last n a" if "BitLen a - n = 0"
    using that addr_last_plus [OF a(1), of n] by (simp add: addr_eq_iff)
  have "usable_hi a n = ip_addr (DecIP (AsSlice (addr_last n a)))" if "\<not> BitLen a - n \<le> 1"
  proof -
    have "Unmap (usable_hi a n) = usable_hi a n"
      using good_interval_Unmap [OF assms] usable_bounds [OF a(1), of n] by (meson order_trans)
    moreover have "usable_hi a n \<noteq> AddrZero" using usable_hi_nat(1) [OF a(1), of n] a(3) by auto
    ultimately show ?thesis using that v ip_addr_DecIP by (simp add: usable_hi_def)
  qed
  then show ?thesis
    using a v v0 eq ip_addr_DecIP(2) [OF v(1)]
    by (auto simp: LastUsableIP_def HasUsableIPs_def Mask_Size_cidr_net SubnetBroadcastIP_plain [OF p]
        IP_Mask_net Let_def usable_hi_def)
qed

definition range_lo :: "addr \<Rightarrow> nat \<Rightarrow> IP \<Rightarrow> addr" where
  "range_lo a n s =
     (if s \<noteq> [] \<and> usable_lo a n \<le> ip_addr s \<and> ip_addr s \<le> usable_hi a n then ip_addr s else usable_lo a n)"

definition range_hi :: "addr \<Rightarrow> nat \<Rightarrow> IP \<Rightarrow> IP \<Rightarrow> addr" where
  "range_hi a n s e =
     (if e \<noteq> [] \<and> range_lo a n s \<le> ip_addr e \<and> ip_addr e \<le> usable_hi a n then ip_addr e else usable_hi a n)"

definition nil_or_valid :: "IP \<Rightarrow> bool" where
  "nil_or_valid ip \<longleftrightarrow> ip = [] \<or> valid_ip ip"

lemma GetIPRange_good:
  assumes "good_cidr a n" "nil_or_valid s" "nil_or_valid e"
  shows "\<exists>f l. GetIPRange (cidr_net a n) s e = Inr (f, l) \<and> valid_ip f \<and> valid_ip l
    \<and> ip_addr f = range_lo a n s \<and> ip_addr l = range_hi a n s e"
proof -
  obtain f where f: "FirstUsableIP (cidr_net a n) = Inr f" "valid_ip f" "ip_addr f = usable_lo a n"
    using FirstUsableIP_good [OF assms(1)] by blast
  obtain l where l: "LastUsableIP (cidr_net a n) = Inr l" "valid_ip l" "ip_addr l = usable_hi a n"
    using LastUsableIP_good [OF assms(1)] by blast
  define f' where "f' = (if s = [] then f
    else if usable_lo a n \<le> ip_addr s \<and> ip_addr s \<le> usable_hi a n then s else f)"
  have f': "valid_ip f'" "ip_addr f' = range_lo a n s"
    using assms(2) f by (auto simp: f'_def range_lo_def nil_or_valid_def)
  show ?thesis
    using f l assms(2,3) f' unfolding GetIPRange_def nil_or_valid_def f'_def
    by (auto simp: IsIPInRange_valid range_hi_def split: if_splits)
qed

lemma range_lo_bounds:
  assumes "a \<noteq> AddrZero"
  shows "usable_lo a n \<le> range_lo a n s" "range_lo a n s \<le> usable_hi a n"
  using usable_bounds [OF assms, of n] by (simp_all add: range_lo_def)

lemma range_hi_bounds:
  assumes "a \<noteq> AddrZero"
  shows "range_lo a n s \<le> range_hi a n s e" "range_hi a n s e \<le> usable_hi a n"
  using range_lo_bounds [OF assms, of n s] by (simp_all add: range_hi_def)

subsection \<open>Offsets\<close>

lemma BigForIP_addr:
  assumes "valid_ip ip"
  shows "BigForIP ip = int (addr_nat (ip_addr ip)) + (if Is4 (ip_addr ip) then 0xffff00000000 else 0)"
proof -
  have "BigForIP ip = int (be_nat (As16 (ip_addr ip)))"
    by (simp add: BigForIP_def As16_ip_addr [OF assms])
  then show ?thesis
    using be_nat_AsSlice [of "ip_addr ip"] assms
    by (cases "ip_addr ip") (simp_all add: be_nat_append be_nat_v4InV6Prefix ip_addr_valid)
qed

lemma IPGetOffset_same:
  assumes "valid_ip x" "valid_ip y" "BitLen (ip_addr x) = BitLen (ip_addr y)"
  shows "IPGetOffset x y = Inr \<bar>int (addr_nat (ip_addr x)) - int (addr_nat (ip_addr y))\<bar>"
  using assms
  by (cases "ip_addr x"; cases "ip_addr y")
    (simp_all add: IPGetOffset_def toAddr_eq BigForIP_addr Let_def ip_addr_valid)

lemma IPGetOffset_mixed:
  assumes "BitLen (ip_addr x) \<noteq> BitLen (ip_addr y)"
  shows "\<exists>e. IPGetOffset x y = Inl e"
  using assms by (cases "ip_addr x"; cases "ip_addr y") (simp_all add: IPGetOffset_def toAddr_eq Let_def)

fun addr_plus :: "addr \<Rightarrow> nat \<Rightarrow> addr" where
  "addr_plus AddrZero k = AddrZero"
| "addr_plus (Addr4 w) k = Addr4 (w + word_of_nat k)"
| "addr_plus (Addr6 w) k = Addr6 (w + word_of_nat k)"

lemma BitLen_addr_plus [simp]: "BitLen (addr_plus a k) = BitLen a"
  by (cases a) simp_all

lemma addr_nat_plus: "addr_nat a + k < 2 ^ BitLen a \<Longrightarrow> addr_nat (addr_plus a k) = addr_nat a + k"
  by (cases a) (simp_all add: unat_word_ariths unat_of_nat take_bit_nat_eq_self)

lemma netutil_Add_plus:
  assumes "a \<noteq> AddrZero" "addr_nat a + k < 2 ^ BitLen a"
  shows "netutil_Add a (int k) = Inr (addr_plus a k)"
proof -
  have "\<not> 2 ^ BitLen a \<le> int (addr_nat a) + int k"
    using assms(2) by (simp flip: of_nat_add of_nat_power add: not_le)
  then show ?thesis
    using assms(1) by (cases a) (simp_all add: netutil_Add_def Let_def not_less)
qed

lemma IPAddOffset_plus:
  assumes "valid_ip b" "addr_nat (ip_addr b) + k < 2 ^ BitLen (ip_addr b)"
  shows "IPAddOffset b (int k) = AsSlice (addr_plus (ip_addr b) k)"
  using assms netutil_Add_plus [of "ip_addr b" k]
  by (simp add: IPAddOffset_def toAddr_eq ip_addr_valid valid_not_Nil Let_def)

lemma IPAddOffset_overflow:
  assumes "valid_ip b" "2 ^ BitLen (ip_addr b) \<le> int (addr_nat (ip_addr b)) + k"
  shows "IPAddOffset b k = []"
  using assms by (simp add: IPAddOffset_def toAddr_eq netutil_Add_def Let_def)

lemma addr_plus_eq: "BitLen a = BitLen x \<Longrightarrow> addr_nat a + k = addr_nat x \<Longrightarrow> addr_plus a k = x"
  using addr_nat_plus [of a k] addr_nat_lt [of x] by (simp add: addr_eq_iff [of _ x])

subsection \<open>Prefixes as intervals, subdivision\<close>

definition pfx_contains :: "prefix \<Rightarrow> addr \<Rightarrow> bool" where
  "pfx_contains p x = (case pfx_bits p of
     None \<Rightarrow> False
   | Some n \<Rightarrow> addr_mask n (pfx_addr p) \<le> x \<and> x \<le> addr_last n (pfx_addr p))"

lemma pfx_contains_mask:
  assumes "a \<noteq> AddrZero"
  shows "pfx_contains (Prefix a (Some n)) x \<longleftrightarrow> BitLen x = BitLen a \<and> addr_mask n x = addr_mask n a"
  using same_prefix_iff [OF assms] addr_between [OF assms] by (auto simp: pfx_contains_def)

text \<open>Two valid prefixes overlap exactly when they have an address in common.\<close>

lemma Overlaps_iff:
  assumes "pfx_valid p" "pfx_valid q" "pfx_addr p \<noteq> AddrZero" "pfx_addr q \<noteq> AddrZero"
  shows "Overlaps p q \<longleftrightarrow> (\<exists>x. pfx_contains p x \<and> pfx_contains q x)"
proof -
  obtain a m where p: "p = Prefix a (Some m)" "a \<noteq> AddrZero"
    using assms(1,3) by (cases p) (auto simp: pfx_valid_def)
  obtain b n where q: "q = Prefix b (Some n)" "b \<noteq> AddrZero"
    using assms(2,4) by (cases q) (auto simp: pfx_valid_def)
  have is4: "Is4 a = Is4 b \<longleftrightarrow> BitLen a = BitLen b" using p q by (cases a; cases b) simp_all
  have zero: "addr_mask 0 a = addr_mask 0 b" if "BitLen a = BitLen b"
    using that p(2) q(2) addr_nat_lt [of a] addr_nat_lt [of b] by (auto simp: addr_eq_iff addr_nat_mask)
  have ov: "Overlaps p q \<longleftrightarrow> BitLen a = BitLen b \<and> addr_mask (min m n) a = addr_mask (min m n) b"
    unfolding p(1) q(1) Overlaps_def using zero is4 by (auto split: if_splits)
  show ?thesis unfolding ov
  proof
    assume h: "BitLen a = BitLen b \<and> addr_mask (min m n) a = addr_mask (min m n) b"
    then show "\<exists>x. pfx_contains p x \<and> pfx_contains q x"
    proof (cases "m \<le> n")
      case True
      then show ?thesis
        using h p q by (intro exI [of _ b]) (simp add: pfx_contains_mask min_def)
    next
      case False
      then show ?thesis
        using h p q by (intro exI [of _ a]) (simp add: pfx_contains_mask min_def)
    qed
  next
    assume "\<exists>x. pfx_contains p x \<and> pfx_contains q x"
    then obtain x where x: "BitLen x = BitLen a" "addr_mask m x = addr_mask m a"
        "BitLen x = BitLen b" "addr_mask n x = addr_mask n b"
      using p q by (auto simp: pfx_contains_mask)
    have "addr_mask (min m n) a = addr_mask (min m n) x"
      using x(2) addr_mask_mask [of "min m n" m] by (metis min.cobounded1)
    moreover have "addr_mask (min m n) b = addr_mask (min m n) x"
      using x(4) addr_mask_mask [of "min m n" n] by (metis min.cobounded2)
    ultimately show "BitLen a = BitLen b \<and> addr_mask (min m n) a = addr_mask (min m n) b"
      using x by simp
  qed
qed

lemma mask_self_nat: "addr_mask n a = a \<Longrightarrow> addr_nat (addr_last n a) + 1 = addr_nat a + 2 ^ (BitLen a - n) \<or> a = AddrZero"
  using addr_last_plus [of a n] by auto

lemma mask_step:
  assumes "addr_mask n a = a" "b = addr_plus a (2 ^ (BitLen a - n))"
    "addr_nat a + 2 ^ (BitLen a - n) < 2 ^ BitLen a"
  shows "addr_mask n b = b"
proof -
  have "addr_nat b = addr_nat a + 2 ^ (BitLen a - n)" "BitLen b = BitLen a"
    using assms addr_nat_plus by simp_all
  moreover have "addr_nat a div 2 ^ (BitLen a - n) * 2 ^ (BitLen a - n) = addr_nat a"
    using assms(1) by (metis addr_nat_mask)
  ultimately show ?thesis by (simp add: addr_eq_iff addr_nat_mask div_add_self2 distrib_right)
qed

lemma subdivide_loop_nth:
  assumes "a \<noteq> AddrZero" "addr_mask n a = a" "n \<le> BitLen a"
    "addr_nat a + k * 2 ^ (BitLen a - n) \<le> 2 ^ BitLen a" "i < k"
  shows "subdivide_loop k a n ! i = Prefix (addr_plus a (i * 2 ^ (BitLen a - n))) (Some n)"
  using assms
proof (induction k arbitrary: a i)
  case (Suc k)
  let ?h = "2 ^ (BitLen a - n) :: nat"
  show ?case
  proof (cases i)
    case 0
    have "addr_plus a 0 = a" by (cases a) simp_all
    then show ?thesis using Suc.prems 0 by (simp add: PrefixFrom_def)
  next
    case (Suc j)
    then have jk: "j < k" "0 < k" using Suc.prems(5) by auto
    then have "0 < k * ?h" by simp
    then have lt: "addr_nat a + ?h < 2 ^ BitLen a"
      using Suc.prems(4) unfolding mult_Suc by linarith
    define b where "b = addr_plus a ?h"
    have b: "addr_nat b = addr_nat a + ?h" "BitLen b = BitLen a"
      using lt by (simp_all add: b_def addr_nat_plus)
    have last: "addr_nat (addr_last n a) + 1 = addr_nat a + ?h"
      using mask_self_nat [OF Suc.prems(2)] Suc.prems(1) by simp
    have nz: "Next (addr_last n a) \<noteq> AddrZero"
      using last lt Suc.prems(1) by (auto simp: Next_zero_iff)
    have nx: "Next (addr_last n a) = b"
      using Next_nat [OF nz] last b by (simp add: addr_eq_iff)
    have bz: "b \<noteq> AddrZero" using b(2) Suc.prems(1) by (cases a) auto
    have "addr_nat b + k * 2 ^ (BitLen b - n) \<le> 2 ^ BitLen b"
      using Suc.prems(4) b by simp
    then have "subdivide_loop k b n ! j = Prefix (addr_plus b (j * ?h)) (Some n)"
      using Suc.IH [OF bz mask_step [OF Suc.prems(2) b_def lt]] Suc.prems(3) b jk by simp
    moreover have "addr_plus b (j * ?h) = addr_plus a (i * ?h)"
      by (cases a) (simp_all add: b_def Suc algebra_simps)
    ultimately show ?thesis using nx Suc by simp
  qed
qed simp

lemma length_subdivide_loop [simp]: "length (subdivide_loop k a n) = k"
  by (induction k arbitrary: a) simp_all

lemma dec_bits_ok: "bits_ok (dec n)"
proof -
  have "digit 0 = CHR ''0''" by code_simp
  then show ?thesis
    using dec_hd_zero [of n] dec_set_digits [of "hd (dec n)" n] dec_small [of 0]
    by (cases "n = 0") (auto simp: bits_ok_def)
qed

lemma ParsePrefix_String:
  assumes "a \<noteq> AddrZero" "n \<le> BitLen a" "Unmap a = a"
  shows "ParsePrefix (prefix_String (Prefix a (Some n))) = Inr (Prefix a (Some n))"
proof -
  let ?s = "IP_String (AsSlice a)"
  have "CHR ''/'' \<notin> set (rev (dec n))"
    using dec_set_digits [of "CHR ''/''" n] by (auto simp: is_digit_def)
  then have "Cut (CHR ''/'') (rev (prefix_String (Prefix a (Some n)))) = Some (rev (dec n), rev ?s)"
    using assms Cut_append [of "CHR ''/''" "rev (dec n)" "rev ?s"] by (simp add: prefix_String_def)
  moreover have "ParseAddr ?s = a"
    using assms by (simp add: ParseAddr_IP_String ip_addr_valid ip_addr_AsSlice)
  ultimately show ?thesis
    using assms dec_bits_ok by (simp add: ParsePrefix_def mask_len_def PrefixFrom_def Let_def)
qed

lemma ParsePrefix_valid:
  assumes "ParsePrefix s = Inr p"
  shows "\<exists>a n. p = Prefix a (Some n) \<and> a \<noteq> AddrZero \<and> n \<le> BitLen a"
  using assms by (auto simp: ParsePrefix_def mask_len_def PrefixFrom_def Let_def
      split: option.splits if_splits prod.splits)

lemma pfx_contains_nat:
  assumes "a \<noteq> AddrZero" "addr_mask n a = a"
  shows "pfx_contains (Prefix a (Some n)) x \<longleftrightarrow>
    BitLen x = BitLen a \<and> addr_nat a \<le> addr_nat x \<and> addr_nat x < addr_nat a + 2 ^ (BitLen a - n)"
proof -
  have "addr_nat (addr_last n a) + 1 = addr_nat a + 2 ^ (BitLen a - n)"
    using mask_self_nat [OF assms(2)] assms(1) by simp
  then have "addr_nat x \<le> addr_nat (addr_last n a) \<longleftrightarrow> addr_nat x < addr_nat a + 2 ^ (BitLen a - n)"
    by linarith
  then show ?thesis using assms by (auto simp: pfx_contains_def addr_le_iff)
qed

definition slice_at :: "addr \<Rightarrow> nat \<Rightarrow> nat \<Rightarrow> prefix" where
  "slice_at a n i = Prefix (addr_plus a (i * 2 ^ (BitLen a - n))) (Some n)"

lemma net_aligned:
  assumes "a \<noteq> AddrZero" "addr_mask m a = a" "m \<le> n" "n \<le> BitLen a"
  shows "2 ^ (n - m) * 2 ^ (BitLen a - n) = (2::nat) ^ (BitLen a - m)"
    and "addr_nat a + 2 ^ (BitLen a - m) \<le> 2 ^ BitLen a"
proof -
  show "2 ^ (n - m) * 2 ^ (BitLen a - n) = (2::nat) ^ (BitLen a - m)"
    using assms by (simp flip: power_add)
  show "addr_nat a + 2 ^ (BitLen a - m) \<le> 2 ^ BitLen a"
    using mask_self_nat [OF assms(2)] assms(1) addr_nat_lt [of "addr_last m a"] by simp
qed

lemma slice_at_contains:
  assumes "a \<noteq> AddrZero" "addr_mask m a = a" "m \<le> n" "n \<le> BitLen a" "i < 2 ^ (n - m)"
  defines "h \<equiv> 2 ^ (BitLen a - n) :: nat"
  shows "pfx_contains (slice_at a n i) x \<longleftrightarrow> BitLen x = BitLen a
    \<and> addr_nat a \<le> addr_nat x \<and> (addr_nat x - addr_nat a) div h = i"
proof -
  have "i * h + h \<le> 2 ^ (n - m) * h" using assms(5) by (metis Suc_leI add.commute mult_Suc mult_le_mono1)
  then have le: "addr_nat a + (i * h + h) \<le> 2 ^ BitLen a"
    using net_aligned [OF assms(1-4)] by (simp add: h_def)
  have h0: "0 < h" by (simp add: h_def)
  have b: "addr_nat (addr_plus a (i * h)) = addr_nat a + i * h"
    using le h0 by (intro addr_nat_plus) linarith
  have "(2::nat) ^ (BitLen a - m) dvd addr_nat a"
    using assms(2) by (metis addr_nat_mask dvd_triv_right)
  then have "h dvd addr_nat a"
    unfolding h_def using assms(3) by (meson diff_le_mono2 dvd_trans le_imp_power_dvd)
  then have "addr_nat a div h * h = addr_nat a" by simp
  then have "addr_nat (addr_plus a (i * h)) div h * h = addr_nat (addr_plus a (i * h))"
    using h0 b by (simp add: distrib_right)
  then have m: "addr_mask n (addr_plus a (i * h)) = addr_plus a (i * h)"
    by (simp add: addr_eq_iff addr_nat_mask h_def)
  have nz: "addr_plus a (i * h) \<noteq> AddrZero" using assms(1) by (cases a) simp_all
  have arith: "addr_nat a + i * h \<le> y \<and> y < addr_nat a + i * h + h \<longleftrightarrow>
      addr_nat a \<le> y \<and> (y - addr_nat a) div h = i" for y
  proof (cases "addr_nat a \<le> y")
    case True
    then obtain d where "y = addr_nat a + d" using le_Suc_ex by blast
    moreover have "i * h \<le> d \<and> d < i * h + h \<longleftrightarrow> d div h = i"
      using h0 dividend_less_div_times [of h d]
      by (auto simp: add.commute intro: div_nat_eqI simp: mult.commute)
    ultimately show ?thesis by simp
  qed (use h0 in \<open>auto\<close>)
  show ?thesis
    unfolding slice_at_def using pfx_contains_nat [OF nz m] arith [of "addr_nat x"] b
    by (auto simp: h_def)
qed

theorem slices_partition:
  assumes "a \<noteq> AddrZero" "addr_mask m a = a" "m \<le> n" "n \<le> BitLen a"
  shows "pfx_contains (Prefix a (Some m)) x \<longleftrightarrow>
    (\<exists>!i. i < 2 ^ (n - m) \<and> pfx_contains (slice_at a n i) x)"
proof -
  let ?h = "2 ^ (BitLen a - n) :: nat" and ?q = "(addr_nat x - addr_nat a) div 2 ^ (BitLen a - n)"
  have "addr_nat x < addr_nat a + 2 ^ (BitLen a - m) \<longleftrightarrow> ?q < 2 ^ (n - m)"
    if "addr_nat a \<le> addr_nat x"
  proof -
    have "?q < 2 ^ (n - m) \<longleftrightarrow> addr_nat x - addr_nat a < 2 ^ (n - m) * ?h"
      by (rule div_less_iff_less_mult) simp
    then show ?thesis using that unfolding net_aligned(1) [OF assms] by linarith
  qed
  then have "pfx_contains (Prefix a (Some m)) x \<longleftrightarrow>
      BitLen x = BitLen a \<and> addr_nat a \<le> addr_nat x \<and> ?q < 2 ^ (n - m)"
    using pfx_contains_nat [OF assms(1,2), of x] by auto
  also have "\<dots> \<longleftrightarrow> (\<exists>!i. i < 2 ^ (n - m) \<and> pfx_contains (slice_at a n i) x)"
    using slice_at_contains [OF assms, of _ x] by auto
  finally show ?thesis .
qed

lemma Subdivide_ok:
  assumes "Subdivide (Prefix a (Some m)) n lim = Inr ps" "a \<noteq> AddrZero" "addr_mask m a = a" "m \<le> BitLen a"
  shows "m \<le> n" "n \<le> BitLen a" "length ps = 2 ^ (n - m)" "int (length ps) \<le> lim"
    "i < length ps \<Longrightarrow> ps ! i = slice_at a n i"
proof -
  have s: "\<not> (n < m \<or> BitLen a < n)" "\<not> lim < 2 ^ (n - m)" "ps = subdivide_loop (2 ^ (n - m)) a n"
    using assms by (auto simp: Subdivide_def Masked_def Let_def split: if_splits)
  then show mn: "m \<le> n" "n \<le> BitLen a" and l: "length ps = 2 ^ (n - m)" "int (length ps) \<le> lim"
    by auto
  have "(2::nat) ^ (BitLen a - m) dvd addr_nat a"
    using assms(3) by (metis addr_nat_mask dvd_triv_right)
  then have "2 ^ (BitLen a - n) dvd addr_nat a"
    using mn by (meson diff_le_mono2 dvd_trans le_imp_power_dvd)
  then have "addr_mask n a = a" by (simp add: addr_eq_iff addr_nat_mask)
  moreover have "addr_nat a + 2 ^ (n - m) * 2 ^ (BitLen a - n) \<le> 2 ^ BitLen a"
    using net_aligned [OF assms(2,3) mn] by simp
  ultimately show "i < length ps \<Longrightarrow> ps ! i = slice_at a n i"
    using subdivide_loop_nth [OF assms(2)] mn l s(3) by (simp add: slice_at_def)
qed

lemma slice_at_good:
  assumes "good_cidr a m" "addr_mask m a = a" "m \<le> n" "n \<le> BitLen a" "i < 2 ^ (n - m)"
  shows "ParsePrefix (prefix_String (slice_at a n i)) = Inr (slice_at a n i)"
proof -
  have a: "a \<noteq> AddrZero" using assms(1) by (simp add: good_cidr_def)
  let ?b = "addr_plus a (i * 2 ^ (BitLen a - n))"
  have nz: "?b \<noteq> AddrZero" using a by (cases a) simp_all
  have "pfx_contains (slice_at a n i) (addr_mask n ?b)"
    using nz addr_mask_mask [of n n ?b] by (simp add: slice_at_def pfx_contains_mask)
  then have "addr_nat a \<le> addr_nat (addr_mask n ?b)"
    "(addr_nat (addr_mask n ?b) - addr_nat a) div 2 ^ (BitLen a - n) = i"
    using slice_at_contains [OF a assms(2-5)] by auto
  then have le: "addr_nat a + i * 2 ^ (BitLen a - n) \<le> addr_nat (addr_mask n ?b)"
    using div_times_less_eq_dividend [of "addr_nat (addr_mask n ?b) - addr_nat a" "2 ^ (BitLen a - n)"]
    by (metis add.commute le_diff_conv2)
  have "addr_nat (addr_mask n ?b) < 2 ^ BitLen a" using addr_nat_lt [of "addr_mask n ?b"] by simp
  then have "addr_nat ?b = addr_nat a + i * 2 ^ (BitLen a - n)"
    using le by (intro addr_nat_plus) simp
  then have "addr_nat ?b \<le> addr_nat (addr_mask n ?b)" using le by simp
  then have "addr_mask n ?b = ?b"
    by (metis addr_eq_iff BitLen_addr_mask addr_nat_mask div_times_less_eq_dividend le_antisym)
  then have "pfx_contains (slice_at a n i) ?b"
    using nz by (simp add: slice_at_def pfx_contains_mask)
  then have "pfx_contains (Prefix a (Some m)) ?b"
    using slices_partition [OF a assms(2-4), of ?b] slice_at_contains [OF a assms(2-4), of _ ?b] assms(5)
    by auto
  then have "Unmap ?b = ?b"
    using good_interval_Unmap [OF assms(1)] by (simp add: pfx_contains_def)
  then show ?thesis
    using ParsePrefix_String [OF nz] assms(4) by (simp add: slice_at_def)
qed

lemma divideRangeBySize_ok:
  assumes "divideRangeBySize net sz lim = Inr subs" "ParsePrefix net = Inr (Prefix a (Some m))"
  shows "\<exists>n ps. Atoi (TrimPrefix (CHR ''/'') sz) = Some (int n) \<and> addr_mask m a = a
    \<and> (0 < lim \<longrightarrow> int (length ps) \<le> lim) \<and> subs = map prefix_String ps
    \<and> (\<exists>l. Subdivide (Prefix a (Some m)) n l = Inr ps)"
proof -
  obtain k where k: "Atoi (TrimPrefix (CHR ''/'') sz) = Some k" "addr_mask m a = a" "int m \<le> k"
      "\<not> (lim > 0 \<and> 2 ^ nat (k - int m) > lim)"
      "\<exists>l ps. Subdivide (Prefix a (Some m)) (nat k) l = Inr ps \<and> subs = map prefix_String ps"
    using assms by (auto simp: divideRangeBySize_def Masked_def Let_def split: option.splits if_splits sum.splits)
  then obtain l ps where s: "Subdivide (Prefix a (Some m)) (nat k) l = Inr ps" "subs = map prefix_String ps"
    by blast
  have "a \<noteq> AddrZero" "m \<le> BitLen a" using ParsePrefix_valid [OF assms(2)] by auto
  then have "int (length ps) = 2 ^ nat (k - int m)"
    using Subdivide_ok(3) [OF s(1) _ k(2)] k(3) by (simp add: nat_diff_distrib')
  then show ?thesis using k s by (intro exI [of _ "nat k"] exI [of _ ps]) auto
qed

lemma divide_slices_parse:
  assumes "DivideRangeBySizeWithLimit net sz lim = Inr subs"
    and "ParsePrefix net = Inr (Prefix a (Some m))" "good_cidr a m"
  obtains n where "Atoi (TrimPrefix (CHR ''/'') sz) = Some (int n)" "addr_mask m a = a" "m \<le> n" "n \<le> BitLen a"
    "length subs = 2 ^ (n - m)" "0 < lim \<longrightarrow> int (length subs) \<le> lim"
    "\<And>i. i < length subs \<Longrightarrow> ParsePrefix (subs ! i) = Inr (slice_at a n i)"
proof -
  obtain n ps l where d: "Atoi (TrimPrefix (CHR ''/'') sz) = Some (int n)" "addr_mask m a = a"
      "0 < lim \<longrightarrow> int (length ps) \<le> lim" "subs = map prefix_String ps"
      "Subdivide (Prefix a (Some m)) n l = Inr ps"
    using divideRangeBySize_ok [OF _ assms(2)] assms(1) unfolding DivideRangeBySizeWithLimit_def by metis
  have a: "a \<noteq> AddrZero" "m \<le> BitLen a" using assms(3) by (simp_all add: good_cidr_def)
  note s = Subdivide_ok [OF d(5) a(1) d(2) a(2)]
  have "ParsePrefix (subs ! i) = Inr (slice_at a n i)" if "i < length subs" for i
    using that s d(4) slice_at_good [OF assms(3) d(2) s(1,2)] by simp
  then show thesis using that [of n] d s by simp
qed

lemma divide_slices_disjoint:
  assumes "DivideRangeBySizeWithLimit net sz lim = Inr subs"
    and "ParsePrefix net = Inr (Prefix a (Some m))" "good_cidr a m" "i < length subs" "j < length subs"
    and "ParsePrefix (subs ! i) = Inr q" "ParsePrefix (subs ! j) = Inr q'" "pfx_contains q x" "pfx_contains q' x"
  shows "i = j"
proof -
  obtain n where d: "addr_mask m a = a" "m \<le> n" "n \<le> BitLen a" "length subs = 2 ^ (n - m)"
    and parse: "\<And>i. i < length subs \<Longrightarrow> ParsePrefix (subs ! i) = Inr (slice_at a n i)"
    using divide_slices_parse [OF assms(1-3)] by blast
  have "a \<noteq> AddrZero" using assms(3) by (simp add: good_cidr_def)
  note c = slice_at_contains [OF this d(1-3), of _ x]
  have "pfx_contains (slice_at a n i) x" "pfx_contains (slice_at a n j) x" using assms(4-) parse by simp_all
  then show ?thesis using c [of i] c [of j] assms(4,5) d(4) by simp
qed

text \<open>
  C18: the slices of a divided range are printed as CIDRs that parse back to prefixes of the
  requested length; they partition the range (every address of it lies in exactly one of them,
  and none lies outside), and there are never more of them than the limit.
\<close>

theorem divide_range_partition:
  assumes "DivideRangeBySizeWithLimit net sz lim = Inr subs"
    and "ParsePrefix net = Inr (Prefix a (Some m))" "good_cidr a m"
  shows "(0 < lim \<longrightarrow> int (length subs) \<le> lim)
    \<and> (\<forall>x. pfx_contains (Prefix a (Some m)) x \<longleftrightarrow>
         (\<exists>!i. i < length subs \<and> (\<exists>q. ParsePrefix (subs ! i) = Inr q \<and> pfx_contains q x)))
    \<and> (\<forall>i < length subs. \<exists>b n. ParsePrefix (subs ! i) = Inr (Prefix b (Some n))
         \<and> Atoi (TrimPrefix (CHR ''/'') sz) = Some (int n))"
proof -
  obtain n where d: "Atoi (TrimPrefix (CHR ''/'') sz) = Some (int n)" "addr_mask m a = a" "m \<le> n" "n \<le> BitLen a"
      "length subs = 2 ^ (n - m)" "0 < lim \<longrightarrow> int (length subs) \<le> lim"
    and parse: "\<And>i. i < length subs \<Longrightarrow> ParsePrefix (subs ! i) = Inr (slice_at a n i)"
    using divide_slices_parse [OF assms] by blast
  have a: "a \<noteq> AddrZero" using assms(3) by (simp add: good_cidr_def)
  have "(\<exists>!i. i < length subs \<and> (\<exists>q. ParsePrefix (subs ! i) = Inr q \<and> pfx_contains q x)) \<longleftrightarrow>
      (\<exists>!i. i < 2 ^ (n - m) \<and> pfx_contains (slice_at a n i) x)" for x
    using parse d(5) by (intro arg_cong [where f = Ex1] ext) auto
  then show ?thesis
    using slices_partition [OF a d(2-4)] parse d by (auto simp: slice_at_def)
qed

theorem divide_range_partition_witness:
  "DivideRangeBySizeWithLimit ''10.0.0.0/22'' ''/24'' 16384
     = Inr [''10.0.0.0/24'', ''10.0.1.0/24'', ''10.0.2.0/24'', ''10.0.3.0/24'']
   \<and> (\<exists>!i. i < 4 \<and> (\<exists>q. ParsePrefix ([''10.0.0.0/24'', ''10.0.1.0/24'', ''10.0.2.0/24'', ''10.0.3.0/24''] ! i) = Inr q
         \<and> pfx_contains q (Addr4 0x0a000207)))"
proof -
  have d: "DivideRangeBySizeWithLimit ''10.0.0.0/22'' ''/24'' 16384
     = Inr [''10.0.0.0/24'', ''10.0.1.0/24'', ''10.0.2.0/24'', ''10.0.3.0/24'']" by code_simp
  have p: "ParsePrefix ''10.0.0.0/22'' = Inr (Prefix (Addr4 0x0a000000) (Some 22))" by code_simp
  have g: "good_cidr (Addr4 0x0a000000) 22" by code_simp
  have "pfx_contains (Prefix (Addr4 0x0a000000) (Some 22)) (Addr4 0x0a000207)" by code_simp
  then show ?thesis using divide_range_partition [OF d p g] d by (simp add: eval_nat_numeral)
qed

lemma ParseCIDR_net:
  assumes "ParseCIDR s = Inr (ip, N)"
  shows "\<exists>a n. a \<noteq> AddrZero \<and> n \<le> BitLen a \<and> ip = As16 a \<and> N = cidr_net a n"
  using assms by (auto simp: ParseCIDR_def mask_len_def Let_def split: option.splits if_splits prod.splits)

lemma card_addr_interval:
  assumes "BitLen lo = BitLen hi" "lo \<le> hi"
  shows "int (card {x. lo \<le> x \<and> x \<le> hi}) = int (addr_nat hi) - int (addr_nat lo) + 1"
proof -
  let ?A = "{x. lo \<le> x \<and> x \<le> hi}"
  have bl: "BitLen x = BitLen lo \<and> addr_nat lo \<le> addr_nat x \<and> addr_nat x \<le> addr_nat hi" if "x \<in> ?A" for x
    using that assms by (auto simp: addr_le_iff)
  have "inj_on addr_nat ?A" using bl by (intro inj_onI) (simp add: addr_eq_iff)
  moreover have "addr_nat ` ?A = {addr_nat lo..addr_nat hi}"
  proof (intro set_eqI iffI)
    fix k assume k: "k \<in> {addr_nat lo..addr_nat hi}"
    then have "addr_nat (addr_plus lo (k - addr_nat lo)) = k"
      using addr_nat_lt [of hi] assms by (subst addr_nat_plus) auto
    then show "k \<in> addr_nat ` ?A"
      using k assms by (intro image_eqI [of _ _ "addr_plus lo (k - addr_nat lo)"]) (auto simp: addr_le_iff)
  qed (use bl in auto)
  ultimately have "card ?A = card {addr_nat lo..addr_nat hi}" by (metis card_image)
  then show ?thesis using assms by (auto simp: addr_le_iff)
qed

lemma usable_card:
  assumes "a \<noteq> AddrZero"
  shows "int (card {x. usable_lo a n \<le> x \<and> x \<le> usable_hi a n}) =
    (if BitLen a - n \<le> 1 then 2 ^ (BitLen a - n) else 2 ^ (BitLen a - n) - 2)"
proof -
  have "int (card {x. usable_lo a n \<le> x \<and> x \<le> usable_hi a n})
      = int (addr_nat (usable_hi a n)) - int (addr_nat (usable_lo a n)) + 1"
    using usable_lo_nat(1) [OF assms] usable_hi_nat(1) [OF assms] usable_bounds(2) [OF assms]
    by (intro card_addr_interval) simp_all
  moreover have "int (addr_nat (addr_last n a)) + 1 = int (addr_nat (addr_mask n a)) + 2 ^ (BitLen a - n)"
    using addr_last_plus(1) [OF assms, of n] by (metis of_nat_1 of_nat_add of_nat_numeral of_nat_power)
  moreover have "1 \<le> addr_nat (addr_last n a)" if "\<not> BitLen a - n \<le> 1"
    using addr_last_plus(1) [OF assms, of n] host_ge2 [OF that] by linarith
  ultimately show ?thesis
    using usable_lo_nat(2) [OF assms, of n] usable_hi_nat(2) [OF assms, of n] by (auto simp: of_nat_diff)
qed

text \<open>
  The number of usable addresses that the status shows is the number of addresses
  between the first and the last usable one, cut off at the largest \<^verbatim>\<open>int32\<close>.
\<close>

theorem CountUsableIPs_correct:
  assumes "ParseCIDR cidr = Inr (ip, cidr_net a n)" "good_cidr a n"
  shows "CountUsableIPs cidr =
    Inr (min (int (card {x. usable_lo a n \<le> x \<and> x \<le> usable_hi a n})) MaxInt32)"
proof -
  obtain f where f: "FirstUsableIP (cidr_net a n) = Inr f" "valid_ip f" "ip_addr f = usable_lo a n"
    using FirstUsableIP_good [OF assms(2)] by blast
  obtain l where l: "LastUsableIP (cidr_net a n) = Inr l" "valid_ip l" "ip_addr l = usable_hi a n"
    using LastUsableIP_good [OF assms(2)] by blast
  have a: "a \<noteq> AddrZero" "n \<le> BitLen a" "0 < BitLen a"
    using assms(2) BitLen_pos by (auto simp: good_cidr_def)
  note nats = usable_lo_nat [OF a(1)] usable_hi_nat [OF a(1)]
  have "IPGetOffset f l = Inr (int (card {x. usable_lo a n \<le> x \<and> x \<le> usable_hi a n}) - 1)"
    using IPGetOffset_same [OF f(2) l(2)] f l nats usable_bounds(2) [OF a(1), of n]
      card_addr_interval [of "usable_lo a n" "usable_hi a n"]
    by (simp add: addr_le_iff)
  moreover have "(2::int) ^ (BitLen a - n) = (if BitLen a - n = 0 then 1 else 2)" if "BitLen a - n \<le> 1"
    using that by (cases "BitLen a - n") auto
  ultimately show ?thesis
    using assms(1) f l a usable_card [OF a(1), of n]
    by (auto simp: CountUsableIPs_def HasUsableIPs_def Mask_Size_cidr_net Let_def MaxInt32_def min_def)
qed

theorem CountUsableIPs_correct_witness:
  "CountUsableIPs ''192.168.2.0/29'' = Inr 6 \<and> CountUsableIPs ''0.0.0.0/0'' = Inr MaxInt32
   \<and> card {x. usable_lo (Addr4 0xc0a80200) 29 \<le> x \<and> x \<le> usable_hi (Addr4 0xc0a80200) 29} = 6"
proof -
  have p: "ParseCIDR ''192.168.2.0/29'' = Inr (As16 (Addr4 0xc0a80200), cidr_net (Addr4 0xc0a80200) 29)"
    "good_cidr (Addr4 0xc0a80200) 29" by code_simp+
  have c: "CountUsableIPs ''192.168.2.0/29'' = Inr 6" "CountUsableIPs ''0.0.0.0/0'' = Inr MaxInt32"
    by code_simp+
  show ?thesis using CountUsableIPs_correct [OF p] c by (simp add: MaxInt32_def min_def split: if_splits)
qed


subsection \<open>The interface the allocator relies on\<close>

text \<open>
  What \<^verbatim>\<open>pkg/allocate\<close> uses of this package, as laws. \<open>key\<close> is the position of an address in the
  order of \<open>CompareIPs\<close>, \<open>six\<close> its family; \<open>cidr\<close> are the networks \<^verbatim>\<open>net.ParseCIDR\<close> produces
  and \<open>good\<close> those of them clear of the IPv4-mapped block. Incrementing may leave IPv6
  for IPv4 (at the start of the mapped block) but never the other way.
\<close>

locale ip_net =
  fixes valid :: "'ip \<Rightarrow> bool" and key :: "'ip \<Rightarrow> nat" and six :: "'ip \<Rightarrow> bool"
    and cidr :: "'net \<Rightarrow> bool" and good :: "'net \<Rightarrow> bool" and inside :: "'net \<Rightarrow> 'ip \<Rightarrow> bool"
    and inc :: "'ip \<Rightarrow> 'ip" and bcast :: "'net \<Rightarrow> 'ip"
  assumes inside_valid: "cidr n \<Longrightarrow> inside n x \<Longrightarrow> valid x"
    and inside_six: "cidr n \<Longrightarrow> inside n x \<Longrightarrow> inside n y \<Longrightarrow> six x = six y"
    and good_cidr: "good n \<Longrightarrow> cidr n"
    and inside_convex: "good n \<Longrightarrow> inside n x \<Longrightarrow> inside n z \<Longrightarrow> valid y \<Longrightarrow> key x \<le> key y \<Longrightarrow> key y \<le> key z \<Longrightarrow> inside n y"
    and inc_valid: "valid x \<Longrightarrow> valid (inc x)"
    and inc_six: "valid x \<Longrightarrow> six (inc x) \<Longrightarrow> six x"
    and inc_key: "valid x \<Longrightarrow> six (inc x) = six x \<Longrightarrow> key (inc x) \<noteq> key x \<Longrightarrow> key (inc x) = key x + 1"
    and inc_within: "good n \<Longrightarrow> inside n x \<Longrightarrow> inside n z \<Longrightarrow> key x < key z \<Longrightarrow> six (inc x) = six x \<and> key (inc x) \<noteq> key x"
    and bcast_good: "good n \<Longrightarrow> inside n x \<Longrightarrow> inside n (bcast n) \<and> key x \<le> key (bcast n)"
    and bcast_cidr: "cidr n \<Longrightarrow> inside n x \<Longrightarrow> valid (bcast n) \<Longrightarrow>
          six (bcast n) = six x \<and> key x \<le> key (bcast n) \<or> six x \<and> \<not> six (bcast n)"

text \<open>The position of an address, and the networks of CIDR strings.\<close>

definition ip_key :: "IP \<Rightarrow> nat" where
  "ip_key ip = addr_key (ip_addr ip)"

definition ip_six :: "IP \<Rightarrow> bool" where
  "ip_six ip \<longleftrightarrow> Is6 (ip_addr ip)"

definition is_cidr :: "IPNet \<Rightarrow> bool" where
  "is_cidr N \<longleftrightarrow> (\<exists>a n. a \<noteq> AddrZero \<and> n \<le> BitLen a \<and> N = cidr_net a n)"

definition good_net :: "IPNet \<Rightarrow> bool" where
  "good_net N \<longleftrightarrow> (let a = AddrFromSlice (net_IP N); n = fst (Mask_Size (net_Mask N))
     in good_cidr a n \<and> N = cidr_net a n)"

lemma good_netD:
  assumes "good_net N"
  shows "\<exists>a n. good_cidr a n \<and> N = cidr_net a n"
  using assms by (auto simp: good_net_def Let_def)

lemma good_net_cidr_net: "good_cidr a n \<Longrightarrow> good_net (cidr_net a n)"
proof -
  assume g: "good_cidr a n"
  then have a: "a \<noteq> AddrZero" "n \<le> BitLen a" by (simp_all add: good_cidr_def)
  have m: "addr_mask k (addr_mask n a) = addr_mask k a" if "k \<le> n" for k
    using that by (rule addr_mask_mask)
  have "good_cidr (addr_mask n a) n"
    using g m [of "min n 96"] by (cases a) (auto simp: good_cidr_def)
  moreover have "cidr_net (addr_mask n a) n = cidr_net a n"
    using a m [of n] by (simp add: cidr_net_eq)
  ultimately show ?thesis
    using a by (simp add: good_net_def net_IP_cidr_net Mask_Size_cidr_net Let_def)
qed

lemma ip_key_le: "ip_key x \<le> ip_key y \<longleftrightarrow> ip_addr x \<le> ip_addr y"
  by (simp add: ip_key_def less_eq_addr_def)

lemma ip_key_lt: "ip_key x < ip_key y \<longleftrightarrow> ip_addr x < ip_addr y"
  by (simp add: ip_key_def less_addr_def)

lemma ip_key_eq: "ip_key x = ip_key y \<longleftrightarrow> ip_addr x = ip_addr y"
  by (simp add: ip_key_def addr_key_eq)

lemma ip_six_BitLen: "valid_ip x \<Longrightarrow> valid_ip y \<Longrightarrow> ip_six x = ip_six y \<longleftrightarrow> BitLen (ip_addr x) = BitLen (ip_addr y)"
  by (cases "ip_addr x"; cases "ip_addr y") (auto simp: ip_addr_valid ip_six_def)

lemma Contains_valid: "Contains N x \<Longrightarrow> is_cidr N \<Longrightarrow> valid_ip x"
proof -
  assume c: "Contains N x" and n: "is_cidr N"
  obtain a k where a: "a \<noteq> AddrZero" "k \<le> BitLen a" "N = cidr_net a k" using n by (auto simp: is_cidr_def)
  have l: "length (net_IP N) = 4 \<or> length (net_IP N) = 16" "length (net_Mask N) = length (net_IP N)"
    using a by (cases a; simp add: cidr_net_eq length_AsSlice length_cidr_mask)+
  then have "fst (networkNumberAndMask N) \<noteq> []"
    using length_To4 [of "net_IP N"]
    by (auto simp: networkNumberAndMask_def Let_def)
  moreover have "To4 x \<noteq> [] \<Longrightarrow> valid_ip x" by (auto simp: To4_def valid_ip_def split: if_splits)
  ultimately show ?thesis using c l length_To4 [of "net_IP N"]
    by (auto simp: Contains_def Let_def valid_ip_def networkNumberAndMask_def split: if_splits prod.splits)
qed

lemma ip_six_iff: "valid_ip x \<Longrightarrow> ip_six x \<longleftrightarrow> To4 x = []"
  by (cases x rule: ip_addr_cases) (auto simp: ip_six_def)

lemma Contains_six:
  assumes "Contains N x" "valid_ip x"
  shows "ip_six x \<longleftrightarrow> length (fst (networkNumberAndMask N)) = 16"
  using assms length_To4 [of x]
  by (auto simp: Contains_def ip_six_iff valid_ip_def Let_def split: prod.splits if_splits)

lemma IncIP_six: "valid_ip x \<Longrightarrow> ip_six (IncIP x) \<Longrightarrow> ip_six x"
  by (cases "ip_addr x") (auto simp: ip_six_def ip_addr_IncIP ip_addr_valid split: if_splits)

lemma IncIP_key:
  assumes "valid_ip x" "ip_six (IncIP x) = ip_six x" "ip_key (IncIP x) \<noteq> ip_key x"
  shows "ip_addr (IncIP x) = Next (ip_addr x)" "Next (ip_addr x) \<noteq> AddrZero" "ip_key (IncIP x) = ip_key x + 1"
proof -
  show nz: "Next (ip_addr x) \<noteq> AddrZero"
    using assms by (auto simp: ip_key_def ip_addr_IncIP)
  show eq: "ip_addr (IncIP x) = Next (ip_addr x)"
    using assms(1,2) nz by (cases "ip_addr x") (auto simp: ip_addr_IncIP ip_six_def split: if_splits)
  show "ip_key (IncIP x) = ip_key x + 1"
    using Next_nat [OF nz] eq by (simp add: ip_key_def addr_key_def)
qed

lemma IncIP_within:
  assumes "good_cidr a n" "Contains (cidr_net a n) x" "Contains (cidr_net a n) z" "ip_key x < ip_key z"
  shows "ip_six (IncIP x) = ip_six x \<and> ip_key (IncIP x) \<noteq> ip_key x"
proof -
  note int = Contains_plain_interval [OF good_plain [OF assms(1)]]
  have a: "a \<noteq> AddrZero" using assms(1) by (simp add: good_cidr_def)
  have "BitLen (ip_addr x) = BitLen a" "BitLen (ip_addr z) = BitLen a"
    using addr_between [OF a] assms(2,3) int by auto
  then have nx: "Next (ip_addr x) \<noteq> AddrZero" "ip_addr x < Next (ip_addr x)" "Next (ip_addr x) \<le> ip_addr z"
    using Next_between [of "ip_addr x" "ip_addr z"] assms(4) BitLen_pos [OF a]
    by (cases "ip_addr x = AddrZero"; auto simp: ip_key_lt)+
  then have "Unmap (Next (ip_addr x)) = Next (ip_addr x)"
    using assms(2,3) int by (intro good_interval_Unmap [OF assms(1)]) auto
  moreover have "valid_ip x"
    using assms(1,2) Contains_valid by (auto simp: is_cidr_def good_cidr_def)
  ultimately have "ip_addr (IncIP x) = Next (ip_addr x)" using nx ip_addr_IncIP by simp
  then show ?thesis
    using nx Next_nat [OF nx(1)] by (cases "ip_addr x") (auto simp: ip_six_def ip_key_eq)
qed

lemma SubnetBroadcastIP_mapped:
  assumes "a \<noteq> AddrZero" "n \<le> BitLen a" "\<not> plain_cidr a n"
  shows "SubnetBroadcastIP (cidr_net a n) = []" "NetworkIP (cidr_net a n) = []"
proof -
  have u: "Unmap (addr_mask n a) \<noteq> addr_mask n a" using assms by (simp add: plain_cidr_def)
  then have m: "\<not> Is4 a" "addr_mask 96 (addr_mask n a) = mapped_base"
    using Unmap_eq_iff [of "addr_mask n a"] by (cases a; simp)+
  have a6: "BitLen a = 128" using m(1) assms(1) by (cases a) simp_all
  have "\<not> n \<le> 32"
  proof
    assume n: "n \<le> 32"
    have "(2::nat) ^ 96 dvd addr_nat (addr_mask n a)"
      unfolding addr_nat_mask a6 using n by (intro dvd_mult le_imp_power_dvd) simp
    then have "addr_nat (addr_mask 96 (addr_mask n a)) = addr_nat (addr_mask n a)"
      using dvd_trans [OF le_imp_power_dvd [of 32 96 "2::nat"]] by (simp add: addr_nat_mask [of 96] a6)
    then have "(2::nat) ^ 96 dvd addr_nat mapped_base"
      using \<open>(2::nat) ^ 96 dvd addr_nat (addr_mask n a)\<close> m(2) by metis
    then show False by (simp add: mapped_base_def)
  qed
  moreover obtain w where "Unmap (addr_mask n a) = Addr4 w"
    using u by (cases "addr_mask n a") (auto split: if_splits)
  ultimately have "toPrefix (cidr_net a n) = Some (Prefix (Addr4 w) None)"
    using assms by (simp add: toPrefix_def toAddr_eq net_IP_cidr_net ip_addr_AsSlice Mask_Size_cidr_net PrefixFrom_def Let_def)
  then show "SubnetBroadcastIP (cidr_net a n) = []" "NetworkIP (cidr_net a n) = []"
    by (simp_all add: SubnetBroadcastIP_def NetworkIP_def extnetip_Range_def Masked_def addrToNetIP_def)
qed

lemma SubnetBroadcastIP_contains:
  assumes "is_cidr N" "Contains N x" "valid_ip (SubnetBroadcastIP N)"
  shows "ip_six (SubnetBroadcastIP N) = ip_six x \<and> ip_key x \<le> ip_key (SubnetBroadcastIP N)
    \<or> ip_six x \<and> \<not> ip_six (SubnetBroadcastIP N)"
proof -
  obtain a n where a: "a \<noteq> AddrZero" "n \<le> BitLen a" "N = cidr_net a n" using assms(1) by (auto simp: is_cidr_def)
  have p: "plain_cidr a n"
    using SubnetBroadcastIP_mapped(1) [OF a(1,2)] assms(3) a(3)
    by (cases "plain_cidr a n") (auto simp: valid_ip_def)
  have b: "ip_addr (SubnetBroadcastIP N) = Unmap (addr_last n a)"
    unfolding a(3) SubnetBroadcastIP_plain [OF p] by (rule ip_addr_AsSlice)
  have x: "BitLen (ip_addr x) = BitLen a" "ip_addr x \<le> addr_last n a"
    using assms(2) Contains_plain [OF p] Contains_plain_interval [OF p] by (auto simp: a(3))
  show ?thesis
  proof (cases "Unmap (addr_last n a) = addr_last n a")
    case True
    then show ?thesis
      using x b a(1) by (cases a; cases "ip_addr x") (auto simp: ip_six_def ip_key_le)
  next
    case False
    then show ?thesis
      using x b a(1) by (cases a; cases "ip_addr x") (auto simp: ip_six_def split: if_splits)
  qed
qed

interpretation wb: ip_net valid_ip ip_key ip_six is_cidr good_net Contains IncIP SubnetBroadcastIP
proof
  fix n x y z
  show "is_cidr n \<Longrightarrow> Contains n x \<Longrightarrow> valid_ip x" by (rule Contains_valid)
  show "is_cidr n \<Longrightarrow> Contains n x \<Longrightarrow> Contains n y \<Longrightarrow> ip_six x = ip_six y"
    using Contains_six Contains_valid by blast
  show "good_net n \<Longrightarrow> is_cidr n" 
    unfolding is_cidr_def good_cidr_def by (drule good_netD) (auto simp: good_cidr_def)
  show "good_net n \<Longrightarrow> Contains n x \<Longrightarrow> Contains n z \<Longrightarrow> valid_ip y \<Longrightarrow> ip_key x \<le> ip_key y
      \<Longrightarrow> ip_key y \<le> ip_key z \<Longrightarrow> Contains n y"
    by (auto simp: ip_key_le Contains_plain_interval good_plain dest!: good_netD)
  show "valid_ip x \<Longrightarrow> valid_ip (IncIP x)" by (rule ip_addr_IncIP)
  show "valid_ip x \<Longrightarrow> ip_six (IncIP x) \<Longrightarrow> ip_six x" by (rule IncIP_six)
  show "valid_ip x \<Longrightarrow> ip_six (IncIP x) = ip_six x \<Longrightarrow> ip_key (IncIP x) \<noteq> ip_key x
      \<Longrightarrow> ip_key (IncIP x) = ip_key x + 1" by (rule IncIP_key)
  show "good_net n \<Longrightarrow> Contains n x \<Longrightarrow> Contains n z \<Longrightarrow> ip_key x < ip_key z
      \<Longrightarrow> ip_six (IncIP x) = ip_six x \<and> ip_key (IncIP x) \<noteq> ip_key x"
    using IncIP_within by (blast dest!: good_netD)
  show "good_net n \<Longrightarrow> Contains n x \<Longrightarrow> Contains n (SubnetBroadcastIP n) \<and> ip_key x \<le> ip_key (SubnetBroadcastIP n)"
    by (auto simp: ip_key_le Contains_plain_interval good_plain SubnetBroadcastIP_plain ip_addr_AsSlice
        good_last_Unmap mask_le_last dest!: good_netD)
  show "is_cidr n \<Longrightarrow> Contains n x \<Longrightarrow> valid_ip (SubnetBroadcastIP n) \<Longrightarrow>
      ip_six (SubnetBroadcastIP n) = ip_six x \<and> ip_key x \<le> ip_key (SubnetBroadcastIP n)
      \<or> ip_six x \<and> \<not> ip_six (SubnetBroadcastIP n)"
    by (rule SubnetBroadcastIP_contains)
qed

end
