(* ===== verification/Types.thy ===== *)
theory Types
  imports IPHelpers
begin

text \<open>
  The data model: \<^verbatim>\<open>pkg/types\<close> (IPAM configuration, reservations, sanitising of addresses in
  the configuration) and the API objects of \<^verbatim>\<open>api/whereabouts.cni.cncf.io/v1alpha1\<close>. A Go map
  is an association list with distinct keys; its order is the order of one iteration.
\<close>

section \<open>pkg/types\<close>

definition DefaultOverlappingIPsFeatures :: bool where
  "DefaultOverlappingIPsFeatures = True"

definition DefaultSleepForRace :: int where
  "DefaultSleepForRace = 0"

definition MaxSleepForRace :: int where
  "MaxSleepForRace = 10"

record Route =
  Dst :: IPNet
  GW :: IP
  MTU :: int
  AdvMSS :: int
  Priority :: int
  Table :: "int option"
  Scope :: "int option"

record DNS =
  Nameservers :: "string list"
  dns_Domain :: string
  Search :: "string list"
  Options :: "string list"

record RangeConfiguration =
  rc_OmitRanges :: "string list"
  rc_Range :: string
  rc_RangeStart :: IP
  rc_RangeEnd :: IP
  rc_PickAddresses :: "IP list"
  rc_PreferredIP :: IP
  rc_L3 :: bool

record KubernetesConfig =
  KubeConfigPath :: string
  K8sAPIRoot :: string

record Address =
  AddressStr :: string
  ad_Gateway :: IP
  ad_Address :: IPNet
  ad_Version :: string

record IPAMConfig =
  ic_Name :: string
  ic_Type :: string
  ic_Routes :: "Route list"
  ic_Addresses :: "Address list"
  ic_IPRanges :: "RangeConfiguration list"
  ic_OmitRanges :: "string list"
  ic_DNS :: DNS
  ic_Range :: string
  ic_NodeSliceSize :: string
  ic_RangeStart :: IP
  ic_RangeEnd :: IP
  ic_PickAddresses :: "IP list"
  ic_GatewayStr :: string
  ic_LeaderLeaseDuration :: int
  ic_LeaderRenewDeadline :: int
  ic_LeaderRetryPeriod :: int
  ic_LogFile :: string
  ic_LogLevel :: string
  ic_ReconcilerCronExpression :: string
  ic_OverlappingRanges :: bool
  ic_ExcludeGateway :: bool
  ic_OptimisticIPAM :: bool
  ic_EnableL3 :: bool
  ic_SleepForRace :: int
  ic_Gateway :: IP
  ic_Kubernetes :: KubernetesConfig
  ic_ConfigurationPath :: string
  ic_PodName :: string
  ic_PodNamespace :: string
  ic_PodUID :: string
  ic_NetworkName :: string
  ic_ServiceCIDRs :: "string list"

record Net =
  nt_Name :: string
  nt_CNIVersion :: string
  nt_IPAM :: "IPAMConfig option"

record NetConfList =
  nl_CNIVersion :: string
  nl_Name :: string
  nl_DisableCheck :: bool
  nl_Plugins :: "Net option list"

record IPReservation =
  ir_IP :: IP
  ir_ContainerID :: string
  ir_PodRef :: string
  ir_IfName :: string
  ir_IsAllocated :: bool

text \<open>The two operations, \<^verbatim>\<open>types.Allocate\<close> and \<^verbatim>\<open>types.Deallocate\<close>.\<close>

definition Allocate :: int where
  "Allocate = 0"

definition Deallocate :: int where
  "Deallocate = 1"

subsection \<open>Addresses in the configuration\<close>

definition sanitizeIP :: "string \<Rightarrow> IP result" where
  "sanitizeIP address =
     (let sanitizedAddress = ParseIPSloppy address
      in if sanitizedAddress = [] then Inl (Msg ''is not a valid IP address'') else Inr sanitizedAddress)"

definition backwardsCompatibleIPAddress :: "string \<Rightarrow> IP" where
  "backwardsCompatibleIPAddress ip = (case sanitizeIP ip of Inr a \<Rightarrow> a | Inl _ \<Rightarrow> [])"

fun parseIPs :: "string list \<Rightarrow> string \<Rightarrow> IP list result" where
  "parseIPs [] fieldName = Inr []"
| "parseIPs (rawIP # rest) fieldName =
     (let ip = backwardsCompatibleIPAddress rawIP
      in if ip = [] then Inl (Msg (''invalid IP in '' @ fieldName))
         else (case parseIPs rest fieldName of Inl e \<Rightarrow> Inl e | Inr ips \<Rightarrow> Inr (ip # ips)))"

definition parseIPList :: "string list \<Rightarrow> string \<Rightarrow> IP list result" where
  "parseIPList rawIPs fieldName = (if rawIPs = [] then Inr [] else parseIPs rawIPs fieldName)"

definition parseOptionalIP :: "string \<Rightarrow> string \<Rightarrow> IP result" where
  "parseOptionalIP rawIP fieldName =
     (if rawIP = [] then Inr []
      else let ip = backwardsCompatibleIPAddress rawIP
           in if ip = [] then Inl (Msg (''invalid IP in '' @ fieldName)) else Inr ip)"

definition GetPodRef :: "IPAMConfig \<Rightarrow> string" where
  "GetPodRef ic = ic_PodNamespace ic @ ''/'' @ ic_PodName ic"

text \<open>
  The alias structures that \<^verbatim>\<open>encoding/json\<close> fills; the custom \<^verbatim>\<open>UnmarshalJSON\<close> methods turn
  them into the configuration. The JSON decoder itself is not part of the model.
\<close>

record RangeConfigurationAlias =
  ra_OmitRanges :: "string list"
  ra_Range :: string
  ra_RangeStart :: string
  ra_RangeEnd :: string
  ra_PickAddresses :: "string list"
  ra_L3 :: bool

definition RangeConfiguration_UnmarshalJSON :: "RangeConfigurationAlias \<Rightarrow> RangeConfiguration result" where
  "RangeConfiguration_UnmarshalJSON al = (case parseIPList (ra_PickAddresses al) ''pick_addresses'' of
     Inl e \<Rightarrow> Inl e
   | Inr pickAddresses \<Rightarrow> (case parseOptionalIP (ra_RangeStart al) ''range_start'' of
       Inl e \<Rightarrow> Inl e
     | Inr rangeStart \<Rightarrow> (case parseOptionalIP (ra_RangeEnd al) ''range_end'' of
         Inl e \<Rightarrow> Inl e
       | Inr rangeEnd \<Rightarrow> Inr
           \<lparr> rc_OmitRanges = ra_OmitRanges al, rc_Range = ra_Range al, rc_RangeStart = rangeStart,
             rc_RangeEnd = rangeEnd, rc_PickAddresses = pickAddresses, rc_PreferredIP = [],
             rc_L3 = ra_L3 al \<rparr>)))"

record IPAMConfigAlias =
  al_Name :: string
  al_Type :: string
  al_Routes :: "Route list"
  al_Addresses :: "Address list"
  al_IPRanges :: "RangeConfiguration list"
  al_NodeSliceSize :: string
  al_OmitRanges :: "string list"
  al_DNS :: DNS
  al_Range :: string
  al_RangeStart :: string
  al_RangeEnd :: string
  al_PickAddresses :: "string list"
  al_GatewayStr :: string
  al_LeaderLeaseDuration :: int
  al_LeaderRenewDeadline :: int
  al_LeaderRetryPeriod :: int
  al_LogFile :: string
  al_LogLevel :: string
  al_ReconcilerCronExpression :: string
  al_OverlappingRanges :: bool
  al_ExcludeGateway :: bool
  al_OptimisticIPAM :: bool
  al_EnableL3 :: bool
  al_SleepForRace :: int
  al_Gateway :: string
  al_Kubernetes :: KubernetesConfig
  al_ConfigurationPath :: string
  al_PodName :: string
  al_PodNamespace :: string
  al_PodUID :: string
  al_NetworkName :: string
  al_ServiceCIDRs :: "string list"

definition IPAMConfig_UnmarshalJSON :: "IPAMConfigAlias \<Rightarrow> IPAMConfig result" where
  "IPAMConfig_UnmarshalJSON al = (case parseIPList (al_PickAddresses al) ''pick_addresses'' of
     Inl e \<Rightarrow> Inl e
   | Inr pickAddresses \<Rightarrow> (case parseOptionalIP (al_RangeStart al) ''range_start'' of
       Inl e \<Rightarrow> Inl e
     | Inr rangeStart \<Rightarrow> (case parseOptionalIP (al_RangeEnd al) ''range_end'' of
         Inl e \<Rightarrow> Inl e
       | Inr rangeEnd \<Rightarrow> Inr
           \<lparr> ic_Name = al_Name al, ic_Type = al_Type al, ic_Routes = al_Routes al,
             ic_Addresses = al_Addresses al, ic_IPRanges = al_IPRanges al,
             ic_OmitRanges = al_OmitRanges al, ic_DNS = al_DNS al, ic_Range = al_Range al,
             ic_NodeSliceSize = al_NodeSliceSize al, ic_RangeStart = rangeStart,
             ic_RangeEnd = rangeEnd, ic_PickAddresses = pickAddresses,
             ic_GatewayStr = al_GatewayStr al, ic_LeaderLeaseDuration = al_LeaderLeaseDuration al,
             ic_LeaderRenewDeadline = al_LeaderRenewDeadline al,
             ic_LeaderRetryPeriod = al_LeaderRetryPeriod al, ic_LogFile = al_LogFile al,
             ic_LogLevel = al_LogLevel al,
             ic_ReconcilerCronExpression = al_ReconcilerCronExpression al,
             ic_OverlappingRanges = al_OverlappingRanges al, ic_ExcludeGateway = al_ExcludeGateway al,
             ic_OptimisticIPAM = al_OptimisticIPAM al, ic_EnableL3 = al_EnableL3 al,
             ic_SleepForRace = al_SleepForRace al,
             ic_Gateway = backwardsCompatibleIPAddress (al_Gateway al),
             ic_Kubernetes = al_Kubernetes al, ic_ConfigurationPath = al_ConfigurationPath al,
             ic_PodName = al_PodName al, ic_PodNamespace = al_PodNamespace al,
             ic_PodUID = al_PodUID al, ic_NetworkName = al_NetworkName al,
             ic_ServiceCIDRs = al_ServiceCIDRs al \<rparr>)))"

section \<open>API objects\<close>

text \<open>A time stamp is a number of seconds; \<^verbatim>\<open>metav1.Time\<close> pointers are options.\<close>

record OwnerReference =
  or_APIVersion :: string
  or_Kind :: string
  or_Name :: string
  or_UID :: string

record ObjectMeta =
  om_Name :: string
  om_Namespace :: string
  om_UID :: string
  om_ResourceVersion :: string
  om_Generation :: int
  om_Annotations :: "(string \<times> string) list"
  om_OwnerReferences :: "OwnerReference list"
  om_Finalizers :: "string list"
  om_DeletionTimestamp :: "nat option"

record Condition =
  co_Type :: string
  co_Status :: string
  co_ObservedGeneration :: int
  co_LastTransitionTime :: nat
  co_Reason :: string
  co_Message :: string

record IPAllocation =
  ia_ContainerID :: string
  ia_PodRef :: string
  ia_IfName :: string

type_synonym allocations = "(string \<times> IPAllocation) list"

record IPPoolSpec =
  ps_Range :: string
  ps_Allocations :: allocations
  ps_EnableL3 :: bool

record IPAddressAllocation =
  aa_IP :: string
  aa_PodRef :: string
  aa_IfName :: string

record IPPoolStatus =
  pt_FirstIP :: string
  pt_LastIP :: string
  pt_TotalIPs :: int
  pt_UsedIPs :: int
  pt_FreeIPs :: int
  pt_OrphanedIPs :: int
  pt_PendingPods :: int
  pt_OverlappingReservations :: int
  pt_AllocatedIPs :: "IPAddressAllocation list"
  pt_Conditions :: "Condition list"

record IPPool =
  ip_Meta :: ObjectMeta
  ip_Spec :: IPPoolSpec
  ip_Status :: IPPoolStatus

definition IPPool_ParseCIDR :: "IPPool \<Rightarrow> (IP \<times> IPNet) result" where
  "IPPool_ParseCIDR p = ParseCIDR (ps_Range (ip_Spec p))"

record NodeSlicePoolSpec =
  ns_Range :: string
  ns_SliceSize :: string

record NodeSliceAllocation =
  na_NodeName :: string
  na_SliceRange :: string

record NodeSlicePoolStatus =
  nst_Allocations :: "NodeSliceAllocation list"
  nst_TotalSlices :: int
  nst_AssignedSlices :: int
  nst_FreeSlices :: int
  nst_Conditions :: "Condition list"

record NodeSlicePool =
  np_Meta :: ObjectMeta
  np_Spec :: NodeSlicePoolSpec
  np_Status :: NodeSlicePoolStatus

definition NodeSlicePool_ParseCIDR :: "NodeSlicePool \<Rightarrow> (IP \<times> IPNet) result" where
  "NodeSlicePool_ParseCIDR p = ParseCIDR (ns_Range (np_Spec p))"

record OverlappingRangeIPReservationSpec =
  os_ContainerID :: string
  os_PodRef :: string
  os_IfName :: string
  os_PodUID :: string

record OverlappingRangeIPReservation =
  ov_Meta :: ObjectMeta
  ov_Spec :: OverlappingRangeIPReservationSpec
  ov_Conditions :: "Condition list"

text \<open>The fields of a pod that the program reads.\<close>

record PodCondition =
  pc_Type :: string
  pc_Status :: string
  pc_Reason :: string

record Pod =
  po_Meta :: ObjectMeta
  po_Phase :: string
  po_Reason :: string
  po_Conditions :: "PodCondition list"

definition empty_meta :: ObjectMeta where
  "empty_meta = \<lparr> om_Name = [], om_Namespace = [], om_UID = [], om_ResourceVersion = [],
     om_Generation = 0, om_Annotations = [], om_OwnerReferences = [], om_Finalizers = [],
     om_DeletionTimestamp = None \<rparr>"

definition empty_pool_status :: IPPoolStatus where
  "empty_pool_status = \<lparr> pt_FirstIP = [], pt_LastIP = [], pt_TotalIPs = 0, pt_UsedIPs = 0,
     pt_FreeIPs = 0, pt_OrphanedIPs = 0, pt_PendingPods = 0, pt_OverlappingReservations = 0,
     pt_AllocatedIPs = [], pt_Conditions = [] \<rparr>"

section \<open>Sanitised addresses are valid\<close>

lemma valid_As16: "valid_ip (As16 a)"
  by (simp add: valid_ip_def)

lemma ParseIPSloppy_valid: "nil_or_valid (ParseIPSloppy s)"
  by (auto simp: nil_or_valid_def ParseIPSloppy_def valid_As16 Let_def split: option.splits)

lemma ParseIP_valid: "nil_or_valid (ParseIP s)"
  by (auto simp: nil_or_valid_def ParseIP_def valid_As16 Let_def)

lemma backwards_valid: "nil_or_valid (backwardsCompatibleIPAddress s)"
  using ParseIPSloppy_valid [of s]
  by (auto simp: backwardsCompatibleIPAddress_def sanitizeIP_def nil_or_valid_def Let_def)

lemma parseIPs_valid: "parseIPs raw f = Inr ips \<Longrightarrow> list_all valid_ip ips \<and> length ips = length raw"
proof (induction raw arbitrary: ips)
  case (Cons r raw)
  then show ?case
    using backwards_valid [of r]
    by (auto simp: Let_def nil_or_valid_def split: if_splits sum.splits)
qed simp

lemma parseIPList_valid: "parseIPList raw f = Inr ips \<Longrightarrow> list_all valid_ip ips"
  using parseIPs_valid by (auto simp: parseIPList_def split: if_splits)

lemma parseOptionalIP_valid: "parseOptionalIP raw f = Inr ip \<Longrightarrow> nil_or_valid ip"
  using backwards_valid [of raw]
  by (auto simp: parseOptionalIP_def nil_or_valid_def Let_def split: if_splits)

definition addresses_valid :: "RangeConfiguration \<Rightarrow> bool" where
  "addresses_valid rc \<longleftrightarrow> nil_or_valid (rc_RangeStart rc) \<and> nil_or_valid (rc_RangeEnd rc)
     \<and> list_all valid_ip (rc_PickAddresses rc) \<and> nil_or_valid (rc_PreferredIP rc)"

lemma RangeConfiguration_UnmarshalJSON_valid:
  "RangeConfiguration_UnmarshalJSON al = Inr rc \<Longrightarrow> addresses_valid rc"
  by (auto simp: RangeConfiguration_UnmarshalJSON_def addresses_valid_def nil_or_valid_def
      dest: parseOptionalIP_valid parseIPList_valid split: sum.splits)

end
