(* ===== verification/Kube.thy ===== *)
theory Kube
  imports Types
begin

text \<open>
  The Kubernetes API as the program sees it. It is not part of the repository, so it is a
  parameter: a record of operations on an abstract world \<open>'w\<close>. Each operation returns its
  result and the world after it, so every interleaving with other clients is covered by
  some instance. The context (\<^verbatim>\<open>ctx.Err()\<close>), the random source and sleeping are
  operations of the same kind. Patches are JSON patches, with a JSON pointer as the list of
  its reference tokens.
\<close>

datatype pvalue = PNull | PStr string | PAlloc IPAllocation

record Operation =
  op_Operation :: string
  op_Path :: "string list"
  op_Value :: pvalue

definition NewOperation :: "string \<Rightarrow> string list \<Rightarrow> pvalue \<Rightarrow> Operation" where
  "NewOperation op path v = \<lparr> op_Operation = op, op_Path = path, op_Value = v \<rparr>"

record 'w kube =
  k_GetIPPool :: "string \<Rightarrow> string \<Rightarrow> 'w \<Rightarrow> IPPool result \<times> 'w"
  k_CreateIPPool :: "string \<Rightarrow> IPPool \<Rightarrow> 'w \<Rightarrow> unit result \<times> 'w"
  k_PatchIPPool :: "string \<Rightarrow> string \<Rightarrow> Operation list \<Rightarrow> 'w \<Rightarrow> unit result \<times> 'w"
  k_GetORIP :: "string \<Rightarrow> string \<Rightarrow> 'w \<Rightarrow> OverlappingRangeIPReservation result \<times> 'w"
  k_CreateORIP :: "string \<Rightarrow> OverlappingRangeIPReservation \<Rightarrow> 'w \<Rightarrow> unit result \<times> 'w"
  k_DeleteORIP :: "string \<Rightarrow> string \<Rightarrow> string option \<Rightarrow> 'w \<Rightarrow> unit result \<times> 'w"
  k_ListORIPs :: "string \<Rightarrow> 'w \<Rightarrow> OverlappingRangeIPReservation list result \<times> 'w"
  k_GetNodeSlicePool :: "string \<Rightarrow> string \<Rightarrow> 'w \<Rightarrow> NodeSlicePool result \<times> 'w"
  k_GetPod :: "string \<Rightarrow> string \<Rightarrow> 'w \<Rightarrow> Pod result \<times> 'w"
  k_CtxErr :: "'w \<Rightarrow> err option \<times> 'w"
  k_Rand :: "int \<Rightarrow> 'w \<Rightarrow> int \<times> 'w"
  k_Sleep :: "int \<Rightarrow> 'w \<Rightarrow> 'w"

text \<open>The node's environment: a variable's value, and a file: \<open>Inl\<close> if it cannot be opened.\<close>

record os_env =
  os_Getenv :: "string \<Rightarrow> string"
  os_Open :: "string \<Rightarrow> err + string result"

end
