(* ===== verification/Allocate.thy ===== *)
theory Allocate
  imports Types "HOL-Library.Multiset"
begin

text \<open>
  \<^verbatim>\<open>pkg/allocate/allocate.go\<close>: the assignment of the lowest free address of a range (or of a
  preferred or picked one) and its release. The scan of \<^verbatim>\<open>IterateForAssignment\<close> is a loop that
  runs forever on some networks that \<^verbatim>\<open>net.ParseCIDR\<close> never produces, so it is a partial
  function, \<open>None\<close> meaning that it does not return; the first lemmas show that it always
  returns in this program. The result of a call is \<open>Inl\<close> an error or \<open>Inr\<close> the address
  with the new reservation list.
\<close>

section \<open>Definitions\<close>

definition AssignmentError :: err where
  "AssignmentError = Msg ''Could not allocate IP in range''"

fun getMatchingIPReservationIndex :: "IPReservation list \<Rightarrow> string \<Rightarrow> string \<Rightarrow> int" where
  "getMatchingIPReservationIndex [] cid ifName = -1"
| "getMatchingIPReservationIndex (v # rest) cid ifName =
     (if ir_ContainerID v = cid \<and> ir_IfName v = ifName then 0
      else let idx = getMatchingIPReservationIndex rest cid ifName in if idx < 0 then -1 else idx + 1)"

definition removeIdxFromSlice :: "IPReservation list \<Rightarrow> nat \<Rightarrow> IPReservation list" where
  "removeIdxFromSlice s i = take (length s - 1) (s[i := last s])"

definition DeallocateIP :: "IPReservation list \<Rightarrow> string \<Rightarrow> string \<Rightarrow> IPReservation list \<times> IP" where
  "DeallocateIP reservelist containerID ifName =
     (let index = getMatchingIPReservationIndex reservelist containerID ifName
      in if index < 0 then (reservelist, [])
         else (removeIdxFromSlice reservelist (nat index), ir_IP (reservelist ! nat index)))"

definition pickAddressAllowed :: "IP list \<Rightarrow> IP \<Rightarrow> bool" where
  "pickAddressAllowed pickAddresses candidate =
     (pickAddresses = [] \<or> list_ex (\<lambda>pickAddress. IP_Equal pickAddress candidate) pickAddresses)"

definition nextIP :: "IP \<Rightarrow> IP option" where
  "nextIP ip = (let next = IncIP ip in if next = [] \<or> IP_Equal next ip then None else Some next)"

definition effectiveIPRange :: "IPNet \<Rightarrow> IP \<Rightarrow> IP \<Rightarrow> bool \<Rightarrow> (IP \<times> IP) result" where
  "effectiveIPRange ipnet rangeStart rangeEnd l3 =
     (if \<not> l3 then GetIPRange ipnet rangeStart rangeEnd
      else let first0 = NetworkIP ipnet;
               last0 = SubnetBroadcastIP ipnet;
               firstIP = (if rangeStart \<noteq> [] \<and> Contains ipnet rangeStart \<and> CompareIPs rangeStart first0 \<ge> 0
                          then rangeStart else first0);
               lastIP = (if rangeEnd \<noteq> [] \<and> Contains ipnet rangeEnd \<and> CompareIPs rangeEnd firstIP \<ge> 0
                            \<and> CompareIPs rangeEnd last0 \<le> 0
                         then rangeEnd else last0)
           in Inr (firstIP, lastIP))"

definition preferredIPInBounds :: "RangeConfiguration \<Rightarrow> IPNet \<Rightarrow> bool" where
  "preferredIPInBounds ipamConf ipnet =
     (case effectiveIPRange ipnet (rc_RangeStart ipamConf) (rc_RangeEnd ipamConf) (rc_L3 ipamConf) of
        Inl _ \<Rightarrow> False
      | Inr (firstIP, lastIP) \<Rightarrow> (case IsIPInRange (rc_PreferredIP ipamConf) firstIP lastIP of
          Inl _ \<Rightarrow> False
        | Inr inBounds \<Rightarrow> inBounds))"

text \<open>The keys of the Go map; \<^verbatim>\<open>reserved[s]\<close> is membership.\<close>

definition makeReservedMap :: "IPReservation list \<Rightarrow> string list" where
  "makeReservedMap reserveList = map (\<lambda>r. IP_String (ir_IP r)) reserveList"

definition parseExcludedRange :: "string \<Rightarrow> IPNet result" where
  "parseExcludedRange s = (case ParseCIDR s of
     Inr (_, subnet) \<Rightarrow> Inr subnet
   | Inl err \<Rightarrow>
       let ip = ParseIP s
       in if ip = [] then Inl err
          else (case ParseCIDR (s @ (if To4 ip \<noteq> [] then ''/32'' else ''/128'')) of
                  Inr (_, subnet) \<Rightarrow> Inr subnet
                | Inl err' \<Rightarrow> Inl err'))"

fun parseExcludedRanges :: "string list \<Rightarrow> IPNet list result" where
  "parseExcludedRanges [] = Inr []"
| "parseExcludedRanges (v # vs) = (case parseExcludedRange v of
     Inl _ \<Rightarrow> Inl (Msg ''could not parse exclude range'')
   | Inr subnet \<Rightarrow> (case parseExcludedRanges vs of
       Inl e \<Rightarrow> Inl e
     | Inr subnets \<Rightarrow> Inr (subnet # subnets)))"

definition ipExcluded :: "IP \<Rightarrow> IPNet list \<Rightarrow> bool" where
  "ipExcluded ip excluded = list_ex (\<lambda>subnet. Contains subnet ip) excluded"

fun skipExcludedSubnets :: "IP \<Rightarrow> IPNet list \<Rightarrow> IP" where
  "skipExcludedSubnets ip [] = []"
| "skipExcludedSubnets ip (subnet # rest) =
     (if Contains subnet ip then SubnetBroadcastIP subnet else skipExcludedSubnets ip rest)"

text \<open>
  The loop of \<^verbatim>\<open>IterateForAssignment\<close>: \<open>Some None\<close> when it runs out of the range or breaks,
  \<open>Some (Some ip)\<close> at the first address that is neither reserved nor excluded.
\<close>

partial_function (option) iterate_loop ::
  "IPNet \<Rightarrow> IP \<Rightarrow> string list \<Rightarrow> IPNet list \<Rightarrow> IP \<Rightarrow> IP option option" where
  "iterate_loop ipnet lastIP reserved excluded ip =
     (if \<not> (Contains ipnet ip \<and> CompareIPs ip lastIP \<le> 0) then Some None
      else if IP_String ip \<in> set reserved
      then (case nextIP ip of
              None \<Rightarrow> Some None
            | Some next \<Rightarrow> iterate_loop ipnet lastIP reserved excluded next)
      else let skipTo = skipExcludedSubnets ip excluded
           in if skipTo \<noteq> []
              then (case nextIP skipTo of
                      None \<Rightarrow> Some None
                    | Some next \<Rightarrow> iterate_loop ipnet lastIP reserved excluded next)
              else Some (Some ip))"

declare iterate_loop.simps [code]

definition new_reservation :: "IP \<Rightarrow> string \<Rightarrow> string \<Rightarrow> string \<Rightarrow> IPReservation" where
  "new_reservation ip containerID podRef ifName =
     \<lparr> ir_IP = ip, ir_ContainerID = containerID, ir_PodRef = podRef, ir_IfName = ifName,
       ir_IsAllocated = False \<rparr>"

definition IterateForAssignment ::
  "IPNet \<Rightarrow> IP \<Rightarrow> IP \<Rightarrow> IPReservation list \<Rightarrow> string list \<Rightarrow> string \<Rightarrow> string \<Rightarrow> string \<Rightarrow> bool
   \<Rightarrow> (IP \<times> IPReservation list) result option" where
  "IterateForAssignment ipnet rangeStart rangeEnd reserveList excludeRanges containerID podRef ifName l3 =
     (case effectiveIPRange ipnet rangeStart rangeEnd l3 of
        Inl e \<Rightarrow> Some (Inl e)
      | Inr (firstIP, lastIP) \<Rightarrow>
          let reserved = makeReservedMap reserveList
          in (case parseExcludedRanges excludeRanges of
                Inl e \<Rightarrow> Some (Inl e)
              | Inr excluded \<Rightarrow> (case iterate_loop ipnet lastIP reserved excluded firstIP of
                  None \<Rightarrow> None
                | Some None \<Rightarrow> Some (Inl AssignmentError)
                | Some (Some ip) \<Rightarrow>
                    Some (Inr (ip, reserveList @ [new_reservation ip containerID podRef ifName])))))"

fun pick_loop :: "IPNet \<Rightarrow> IP \<Rightarrow> IP \<Rightarrow> string list \<Rightarrow> IPNet list \<Rightarrow> IP list \<Rightarrow> IP result" where
  "pick_loop ipnet firstIP lastIP reserved excluded [] = Inl AssignmentError"
| "pick_loop ipnet firstIP lastIP reserved excluded (candidate # rest) =
     (if candidate = [] \<or> \<not> Contains ipnet candidate
      then pick_loop ipnet firstIP lastIP reserved excluded rest
      else (case IsIPInRange candidate firstIP lastIP of
              Inl e \<Rightarrow> Inl e
            | Inr inRange \<Rightarrow>
                if \<not> inRange \<or> IP_String candidate \<in> set reserved \<or> ipExcluded candidate excluded
                then pick_loop ipnet firstIP lastIP reserved excluded rest
                else Inr candidate))"

definition pickForAssignment ::
  "IPNet \<Rightarrow> IP \<Rightarrow> IP \<Rightarrow> IP list \<Rightarrow> IPReservation list \<Rightarrow> string list \<Rightarrow> string \<Rightarrow> string \<Rightarrow> string \<Rightarrow> bool
   \<Rightarrow> (IP \<times> IPReservation list) result" where
  "pickForAssignment ipnet rangeStart rangeEnd pickAddresses reserveList excludeRanges containerID podRef ifName l3 =
     (case effectiveIPRange ipnet rangeStart rangeEnd l3 of
        Inl e \<Rightarrow> Inl e
      | Inr (firstIP, lastIP) \<Rightarrow>
          let reserved = makeReservedMap reserveList
          in (case parseExcludedRanges excludeRanges of
                Inl e \<Rightarrow> Inl e
              | Inr excluded \<Rightarrow> (case pick_loop ipnet firstIP lastIP reserved excluded pickAddresses of
                  Inl e \<Rightarrow> Inl e
                | Inr candidate \<Rightarrow>
                    Inr (candidate, reserveList @ [new_reservation candidate containerID podRef ifName]))))"

text \<open>The loop over the reservations that finds the pod's own one and refreshes its container.\<close>

fun existing_loop :: "string \<Rightarrow> string \<Rightarrow> string \<Rightarrow> IPReservation list \<Rightarrow> (IP \<times> IPReservation list) option" where
  "existing_loop containerID podRef ifName [] = None"
| "existing_loop containerID podRef ifName (r # rest) =
     (if ir_PodRef r = podRef \<and> ir_IfName r = ifName
      then Some (ir_IP r,
                 (if ir_ContainerID r \<noteq> containerID then r\<lparr>ir_ContainerID := containerID\<rparr> else r) # rest)
      else (case existing_loop containerID podRef ifName rest of
              None \<Rightarrow> None
            | Some (ip, rest') \<Rightarrow> Some (ip, r # rest')))"

text \<open>The preferred address against the reservations and the exclude ranges.\<close>

fun preferred_excluded :: "IP \<Rightarrow> string list \<Rightarrow> bool" where
  "preferred_excluded ip [] = False"
| "preferred_excluded ip (er # rest) = (case ParseCIDR er of
     Inl _ \<Rightarrow>
       let p = ParseIP er
       in if p \<noteq> [] \<and> IP_Equal p ip then True else preferred_excluded ip rest
   | Inr (_, subnet) \<Rightarrow> if Contains subnet ip then True else preferred_excluded ip rest)"

definition preferred_available :: "RangeConfiguration \<Rightarrow> IPNet \<Rightarrow> IPReservation list \<Rightarrow> bool" where
  "preferred_available ipamConf ipnet reservelist \<longleftrightarrow>
     rc_PreferredIP ipamConf \<noteq> [] \<and> Contains ipnet (rc_PreferredIP ipamConf)
     \<and> preferredIPInBounds ipamConf ipnet
     \<and> pickAddressAllowed (rc_PickAddresses ipamConf) (rc_PreferredIP ipamConf)
     \<and> \<not> list_ex (\<lambda>r. IP_Equal (ir_IP r) (rc_PreferredIP ipamConf)) reservelist
     \<and> \<not> preferred_excluded (rc_PreferredIP ipamConf) (rc_OmitRanges ipamConf)"

definition AssignIP ::
  "RangeConfiguration \<Rightarrow> IPReservation list \<Rightarrow> string \<Rightarrow> string \<Rightarrow> string
   \<Rightarrow> (IPNet \<times> IPReservation list) result option" where
  "AssignIP ipamConf reservelist containerID podRef ifName =
     (case ParseCIDR (rc_Range ipamConf) of
        Inl e \<Rightarrow> Some (Inl (Wrap ''invalid CIDR in IPAM config'' e))
      | Inr (_, ipnet) \<Rightarrow>
     (case (if rc_PreferredIP ipamConf \<noteq> [] then parseExcludedRanges (rc_OmitRanges ipamConf) else Inr []) of
        Inl e \<Rightarrow> Some (Inl e)
      | Inr _ \<Rightarrow>
     (case existing_loop containerID podRef ifName reservelist of
        Some (ip, reservelist') \<Rightarrow> Some (Inr (\<lparr>net_IP = ip, net_Mask = net_Mask ipnet\<rparr>, reservelist'))
      | None \<Rightarrow>
          if preferred_available ipamConf ipnet reservelist
          then Some (Inr (\<lparr>net_IP = rc_PreferredIP ipamConf, net_Mask = net_Mask ipnet\<rparr>,
                          reservelist @ [new_reservation (rc_PreferredIP ipamConf) containerID podRef ifName]))
          else (case (if rc_PickAddresses ipamConf \<noteq> []
                      then Some (pickForAssignment ipnet (rc_RangeStart ipamConf) (rc_RangeEnd ipamConf)
                                   (rc_PickAddresses ipamConf) reservelist (rc_OmitRanges ipamConf)
                                   containerID podRef ifName (rc_L3 ipamConf))
                      else IterateForAssignment ipnet (rc_RangeStart ipamConf) (rc_RangeEnd ipamConf)
                             reservelist (rc_OmitRanges ipamConf) containerID podRef ifName (rc_L3 ipamConf)) of
                  None \<Rightarrow> None
                | Some (Inl e) \<Rightarrow> Some (Inl e)
                | Some (Inr (newip, updatedreservelist)) \<Rightarrow>
                    Some (Inr (\<lparr>net_IP = newip, net_Mask = net_Mask ipnet\<rparr>, updatedreservelist))))))"

section \<open>The scan, over the interface of iphelpers\<close>

text \<open>
  \<open>ip_scan\<close> is the client's side of \<open>ip_net\<close>: the loop as an equation over the interface,
  with what \<^verbatim>\<open>nextIP\<close>, \<^verbatim>\<open>CompareIPs\<close>, the reserved map and \<^verbatim>\<open>skipExcludedSubnets\<close> promise. The
  two results are that the loop returns, and that it finds the least free address.
\<close>

locale ip_scan = ip_net valid key six cidr good inside inc bcast
  for valid :: "'ip \<Rightarrow> bool" and key six cidr good and inside :: "'net \<Rightarrow> 'ip \<Rightarrow> bool" and inc bcast +
  fixes nil :: 'ip and leq :: "'ip \<Rightarrow> 'ip \<Rightarrow> bool" and nxt :: "'ip \<Rightarrow> 'ip option"
    and res :: "'r \<Rightarrow> 'ip \<Rightarrow> bool" and skip :: "'ip \<Rightarrow> 'net list \<Rightarrow> 'ip" and bound :: nat
    and scan :: "'net \<Rightarrow> 'ip \<Rightarrow> 'r \<Rightarrow> 'net list \<Rightarrow> 'ip \<Rightarrow> 'ip option option"
  assumes leq_key: "valid x \<Longrightarrow> valid y \<Longrightarrow> leq x y \<longleftrightarrow> key x \<le> key y"
    and nxt_inc: "valid x \<Longrightarrow> nxt x = (if key (inc x) = key x then None else Some (inc x))"
    and res_key: "valid x \<Longrightarrow> valid y \<Longrightarrow> key x = key y \<Longrightarrow> res r x = res r y"
    and skip_none: "\<forall>e\<in>set ex. \<not> inside e x \<Longrightarrow> skip x ex = nil"
    and skip_some: "\<exists>e\<in>set ex. inside e x \<Longrightarrow> \<exists>e\<in>set ex. inside e x \<and> skip x ex = bcast e"
    and bcast_nil: "cidr e \<Longrightarrow> inside e x \<Longrightarrow> bcast e \<noteq> nil \<longleftrightarrow> valid (bcast e)"
    and nil_valid: "\<not> valid nil"
    and key_bound: "key x < bound"
    and scan_eq: "scan n hi r ex x =
      (if \<not> (inside n x \<and> leq x hi) then Some None
       else if res r x then (case nxt x of None \<Rightarrow> Some None | Some y \<Rightarrow> scan n hi r ex y)
       else let s = skip x ex
            in if s \<noteq> nil then (case nxt s of None \<Rightarrow> Some None | Some y \<Rightarrow> scan n hi r ex y)
               else Some (Some x))"
begin

definition jump :: "'net list \<Rightarrow> 'ip \<Rightarrow> 'ip \<Rightarrow> bool" where
  "jump ex x b \<longleftrightarrow> b = x \<or> (\<exists>e\<in>set ex. inside e x \<and> b = bcast e \<and> valid b)"

definition taken :: "'r \<Rightarrow> 'net list \<Rightarrow> 'ip \<Rightarrow> bool" where
  "taken r ex z \<longleftrightarrow> res r z \<or> (\<exists>e\<in>set ex. inside e z)"

lemma skip_jump:
  assumes "list_all cidr ex" "skip x ex \<noteq> nil"
  shows "\<exists>e\<in>set ex. inside e x \<and> skip x ex = bcast e \<and> valid (bcast e)"
proof -
  obtain e where e: "e \<in> set ex" "inside e x" "skip x ex = bcast e"
    using skip_none [of ex x] skip_some [of ex x] assms(2) by blast
  then show ?thesis using bcast_nil [of e x] assms by (auto simp: list_all_iff)
qed

lemma jump_up:
  assumes "cidr n" "list_all cidr ex" "inside n x" "jump ex x b" "nxt b = Some y" "inside n y"
  shows "key x \<le> key b" "key y = key b + 1"
proof -
  have vb: "valid b" using assms(1,3,4) inside_valid by (auto simp: jump_def)
  have y: "y = inc b" "key (inc b) \<noteq> key b" using nxt_inc [OF vb] assms(5) by (auto split: if_splits)
  have s: "six (inc b) = six x" using inside_six assms(1,3,6) y by metis
  have "six b = six x \<and> key x \<le> key b"
  proof (cases "b = x")
    case False
    then obtain e where e: "e \<in> set ex" "inside e x" "b = bcast e" using assms(4) by (auto simp: jump_def)
    then have "six b = six x \<and> key x \<le> key b \<or> six x \<and> \<not> six b"
      using bcast_cidr [of e x] assms(2) vb by (auto simp: list_all_iff)
    then show ?thesis using s inc_six [OF vb] by blast
  qed simp
  then show "key x \<le> key b" "key y = key b + 1" using s y inc_key [OF vb] by auto
qed

text \<open>The measure of the loop: what is left above the current address.\<close>

definition left_over :: "'net \<Rightarrow> 'ip \<Rightarrow> nat" where
  "left_over n x = (if inside n x then bound - key x else 0)"

lemma jump_measure:
  assumes "cidr n" "list_all cidr ex" "inside n x" "jump ex x b" "nxt b = Some y"
  shows "left_over n y < left_over n x"
proof (cases "inside n y")
  case True
  then show ?thesis
    using jump_up [OF assms True] key_bound [of x] key_bound [of y] assms(3)
    by (simp add: left_over_def)
next
  case False
  then show ?thesis using key_bound [of x] assms(3) by (simp add: left_over_def)
qed

lemma jump_cases:
  assumes "list_all cidr ex"
  obtains (stop) "scan n hi r ex x = Some None" "\<not> (inside n x \<and> leq x hi)"
  | (found) "scan n hi r ex x = Some (Some x)" "inside n x" "leq x hi" "\<not> res r x" "skip x ex = nil"
  | (jump) b where "inside n x" "leq x hi" "jump ex x b" "b = x \<longrightarrow> taken r ex x"
      "scan n hi r ex x = (case nxt b of None \<Rightarrow> Some None | Some y \<Rightarrow> scan n hi r ex y)"
proof (cases "inside n x \<and> leq x hi")
  case False
  then show ?thesis using stop scan_eq [of n hi r ex x] by simp
next
  case True
  show ?thesis
  proof (cases "res r x")
    case True
    with \<open>inside n x \<and> leq x hi\<close> show ?thesis
      using jump [of x] scan_eq [of n hi r ex x] by (simp add: jump_def taken_def)
  next
    case False
    show ?thesis
    proof (cases "skip x ex = nil")
      case True
      with False \<open>inside n x \<and> leq x hi\<close> show ?thesis
        using found scan_eq [of n hi r ex x] by (simp add: Let_def)
    next
      case sk: False
      then obtain e where "e \<in> set ex" "inside e x" "skip x ex = bcast e" "valid (bcast e)"
        using skip_jump [OF assms] by blast
      with sk False \<open>inside n x \<and> leq x hi\<close> show ?thesis
        using jump [of "bcast e"] scan_eq [of n hi r ex x]
        by (auto simp: Let_def jump_def taken_def)
    qed
  qed
qed

theorem scan_returns:
  assumes "cidr n" "list_all cidr ex"
  shows "scan n hi r ex x \<noteq> None"
proof (induction x rule: measure_induct_rule [of "left_over n"])
  case (less x)
  show ?case
  proof (cases rule: jump_cases [OF assms(2), where n = n and hi = hi and r = r and x = x])
    case (3 b)
    then show ?thesis
      using less jump_measure [OF assms 3(1,3)] by (auto split: option.splits)
  qed simp_all
qed

lemma jump_covers:
  assumes "list_all good ex" "jump ex x b" "b = x \<longrightarrow> taken r ex x" "valid x"
    "valid z" "key x \<le> key z" "key z \<le> key b"
  shows "taken r ex z"
proof (cases "\<exists>e\<in>set ex. inside e x")
  case True
  then obtain e where e: "e \<in> set ex" "inside e x" "b = x \<or> b = bcast e"
    using assms(2) by (auto simp: jump_def)
  then have g: "good e" using assms(1) by (auto simp: list_all_iff)
  have "key z \<le> key (bcast e)" using e assms(7) bcast_good [OF g e(2)] by auto
  then have "inside e z"
    using inside_convex [OF g e(2) _ assms(5,6)] bcast_good [OF g e(2)] by blast
  then show ?thesis using e by (auto simp: taken_def)
next
  case False
  then have "b = x" "res r x" using assms(2,3) by (auto simp: jump_def taken_def)
  then show ?thesis using res_key [OF assms(4,5)] assms(6,7) by (auto simp: taken_def)
qed

lemma jump_gap:
  assumes "good n" "list_all good ex" "inside n x" "jump ex x b" "inside n z" "key b < key z"
  shows "\<exists>y. nxt b = Some y \<and> inside n y"
proof -
  have vb: "valid b" using inside_valid [OF good_cidr [OF assms(1)] assms(3)] assms(4) by (auto simp: jump_def)
  have le: "key x \<le> key b"
    using assms(2,4) bcast_good by (auto simp: jump_def list_all_iff)
  then have b: "inside n b" using inside_convex [OF assms(1,3,5) vb] assms(6) by simp
  have w: "six (inc b) = six b" "key (inc b) \<noteq> key b" using inc_within [OF assms(1) b assms(5,6)] by auto
  then have "key (inc b) = key b + 1" using inc_key [OF vb] by simp
  then have "inside n (inc b)"
    using inside_convex [OF assms(1) b assms(5) inc_valid [OF vb]] assms(6) by simp
  then show ?thesis using nxt_inc [OF vb] w by simp
qed

theorem scan_least:
  assumes "good n" "list_all good ex" "valid hi" "inside n x"
  shows "case scan n hi r ex x of
      None \<Rightarrow> False
    | Some None \<Rightarrow> \<forall>z. inside n z \<longrightarrow> key x \<le> key z \<longrightarrow> key z \<le> key hi \<longrightarrow> taken r ex z
    | Some (Some y) \<Rightarrow> inside n y \<and> key x \<le> key y \<and> key y \<le> key hi \<and> \<not> taken r ex y
        \<and> (\<forall>z. inside n z \<longrightarrow> key x \<le> key z \<longrightarrow> key z < key y \<longrightarrow> taken r ex z)"
  using assms(4)
proof (induction x rule: measure_induct_rule [of "left_over n"])
  case (less x)
  have c: "cidr n" "list_all cidr ex" using assms(1,2) good_cidr by (auto simp: list_all_iff)
  note v = inside_valid [OF c(1)]
  show ?case
  proof (cases rule: jump_cases [OF c(2), where n = n and hi = hi and r = r and x = x])
    case 1
    then show ?thesis using less.prems leq_key [OF v assms(3)] by auto
  next
    case 2
    have "\<not> (\<exists>e\<in>set ex. inside e x)"
      using skip_some [of ex x] 2(5) bcast_good assms(2) good_cidr inside_valid nil_valid
      by (fastforce simp: list_all_iff)
    then show ?thesis using 2 leq_key [OF v assms(3)] by (auto simp: taken_def)
  next
    case (3 b)
    note cover = jump_covers [OF assms(2) 3(3,4) v [OF less.prems]]
    have cov: "taken r ex z" if "inside n z" "key x \<le> key z" "key z \<le> key b" for z
      using cover v that by blast
    show ?thesis
    proof (cases "\<exists>y. nxt b = Some y \<and> inside n y")
      case True
      then obtain y where y: "nxt b = Some y" "inside n y" by blast
      note up = jump_up [OF c 3(1,3) y]
      have eq: "scan n hi r ex x = scan n hi r ex y" using 3(5) y by simp
      have "case scan n hi r ex y of
          None \<Rightarrow> False
        | Some None \<Rightarrow> \<forall>z. inside n z \<longrightarrow> key y \<le> key z \<longrightarrow> key z \<le> key hi \<longrightarrow> taken r ex z
        | Some (Some w) \<Rightarrow> inside n w \<and> key y \<le> key w \<and> key w \<le> key hi \<and> \<not> taken r ex w
            \<and> (\<forall>z. inside n z \<longrightarrow> key y \<le> key z \<longrightarrow> key z < key w \<longrightarrow> taken r ex z)"
        by (rule less.IH [OF jump_measure [OF c 3(1,3) y(1)] y(2)])
      moreover have "key z \<le> key b \<or> key y \<le> key z" for z using up by linarith
      ultimately show ?thesis
        unfolding eq using cov up by (auto split: option.splits)
    next
      case False
      have "scan n hi r ex x = Some None"
        using 3(5) False scan_eq [of n hi r ex] by (auto split: option.splits)
      moreover have "key z \<le> key b" if "inside n z" for z
        using jump_gap [OF assms(1,2) less.prems 3(3) that] False by (meson not_le)
      ultimately show ?thesis using cov by simp
    qed
  qed
qed

end

section \<open>The scan of this program\<close>

definition key_limit :: nat where
  "key_limit = 129 * 2 ^ 128"

lemma ip_key_limit: "ip_key x < key_limit"
proof -
  have "BitLen (ip_addr x) \<le> 128" by (cases "ip_addr x") simp_all
  then have "BitLen (ip_addr x) * 2 ^ 128 \<le> 128 * 2 ^ 128" by (intro mult_right_mono) simp_all
  then show ?thesis
    using addr_nat_lt128 [of "ip_addr x"] by (simp add: ip_key_def addr_key_def key_limit_def)
qed

lemma skipExcludedSubnets_none: "\<forall>e\<in>set ex. \<not> Contains e x \<Longrightarrow> skipExcludedSubnets x ex = []"
  by (induction ex) simp_all

lemma skipExcludedSubnets_some:
  "\<exists>e\<in>set ex. Contains e x \<Longrightarrow> \<exists>e\<in>set ex. Contains e x \<and> skipExcludedSubnets x ex = SubnetBroadcastIP e"
  by (induction ex) auto

lemma SubnetBroadcastIP_nil: "is_cidr e \<Longrightarrow> SubnetBroadcastIP e \<noteq> [] \<longleftrightarrow> valid_ip (SubnetBroadcastIP e)"
proof
  assume e: "is_cidr e" and b: "SubnetBroadcastIP e \<noteq> []"
  obtain a n where a: "a \<noteq> AddrZero" "n \<le> BitLen a" "e = cidr_net a n" using e by (auto simp: is_cidr_def)
  have "plain_cidr a n" using SubnetBroadcastIP_mapped(1) [OF a(1,2)] b a(3) by blast
  then have "SubnetBroadcastIP e = AsSlice (addr_last n a)" using a(3) SubnetBroadcastIP_plain by simp
  then show "valid_ip (SubnetBroadcastIP e)" using a(1) by (simp add: ip_addr_valid ip_addr_AsSlice)
qed (auto simp: valid_ip_def)

interpretation wbscan: ip_scan valid_ip ip_key ip_six is_cidr good_net Contains IncIP SubnetBroadcastIP
  "[]" "\<lambda>x y. CompareIPs x y \<le> 0" nextIP "\<lambda>r x. IP_String x \<in> set r" skipExcludedSubnets key_limit iterate_loop
proof
  fix x y :: IP and r ex e n hi
  show "valid_ip x \<Longrightarrow> valid_ip y \<Longrightarrow> (CompareIPs x y \<le> 0) = (ip_key x \<le> ip_key y)"
    by (simp add: CompareIPs_le ip_key_le)
  show "valid_ip x \<Longrightarrow> nextIP x = (if ip_key (IncIP x) = ip_key x then None else Some (IncIP x))"
    using IP_Equal_addr [of "IncIP x" x] ip_addr_IncIP(2) [of x] valid_not_Nil [of "IncIP x"]
    by (simp add: nextIP_def Let_def ip_key_eq)
  show "valid_ip x \<Longrightarrow> valid_ip y \<Longrightarrow> ip_key x = ip_key y \<Longrightarrow> (IP_String x \<in> set r) = (IP_String y \<in> set r)"
    using IP_String_cong [of x y] by (simp add: ip_key_eq)
  show "\<forall>e\<in>set ex. \<not> Contains e x \<Longrightarrow> skipExcludedSubnets x ex = []"
    by (rule skipExcludedSubnets_none)
  show "\<exists>e\<in>set ex. Contains e x \<Longrightarrow> \<exists>e\<in>set ex. Contains e x \<and> skipExcludedSubnets x ex = SubnetBroadcastIP e"
    by (rule skipExcludedSubnets_some)
  show "is_cidr e \<Longrightarrow> Contains e x \<Longrightarrow> (SubnetBroadcastIP e \<noteq> []) = valid_ip (SubnetBroadcastIP e)"
    by (rule SubnetBroadcastIP_nil)
  show "\<not> valid_ip []" by (simp add: valid_ip_def)
  show "ip_key x < key_limit" by (rule ip_key_limit)
  show "iterate_loop n hi r ex x =
      (if \<not> (Contains n x \<and> CompareIPs x hi \<le> 0) then Some None
       else if IP_String x \<in> set r
       then (case nextIP x of None \<Rightarrow> Some None | Some y \<Rightarrow> iterate_loop n hi r ex y)
       else let s = skipExcludedSubnets x ex
            in if s \<noteq> [] then (case nextIP s of None \<Rightarrow> Some None | Some y \<Rightarrow> iterate_loop n hi r ex y)
               else Some (Some x))"
    by (rule iterate_loop.simps)
qed

lemma parseExcludedRange_cidr: "parseExcludedRange s = Inr N \<Longrightarrow> is_cidr N"
  using ParseCIDR_net by (fastforce simp: parseExcludedRange_def is_cidr_def Let_def split: sum.splits if_splits)

lemma parseExcludedRanges_cidr: "parseExcludedRanges vs = Inr ex \<Longrightarrow> list_all is_cidr ex"
  by (induction vs arbitrary: ex) (auto dest: parseExcludedRange_cidr split: sum.splits)

lemma AssignIP_total: "\<exists>r. AssignIP conf rl containerID podRef ifName = Some r"
proof (cases "ParseCIDR (rc_Range conf)")
  case (Inr p)
  then obtain i N where N: "ParseCIDR (rc_Range conf) = Inr (i, N)" by (cases p) auto
  have "is_cidr N" using ParseCIDR_net [OF N] by (auto simp: is_cidr_def)
  then have loop: "iterate_loop N l r ex f \<noteq> None" if "parseExcludedRanges (rc_OmitRanges conf) = Inr ex" for l r ex f
    using parseExcludedRanges_cidr [OF that] by (rule wbscan.scan_returns)
  have it: "IterateForAssignment N s e rl (rc_OmitRanges conf) c q i' l3 \<noteq> None" for s e c q i' l3
    by (auto simp: IterateForAssignment_def Let_def loop split: sum.splits option.splits prod.splits)
  show ?thesis
    by (auto simp: AssignIP_def N it split: sum.splits option.splits prod.splits)
qed (simp add: AssignIP_def)

text \<open>
  C14: \<^verbatim>\<open>AssignIP\<close> always returns, whatever the configuration and the reservations.
\<close>

theorem AssignIP_returns: "\<exists>r. AssignIP conf rl containerID podRef ifName = Some r"
  by (rule AssignIP_total)

section \<open>Free addresses\<close>

text \<open>
  The specification: an address is free if it lies in the network and between the effective
  bounds, no reservation holds it and no exclude range contains it.
\<close>

definition free_ip :: "IPNet \<Rightarrow> IP \<Rightarrow> IP \<Rightarrow> IPReservation list \<Rightarrow> IPNet list \<Rightarrow> IP \<Rightarrow> bool" where
  "free_ip N f l rl ex ip \<longleftrightarrow> Contains N ip \<and> ip_addr f \<le> ip_addr ip \<and> ip_addr ip \<le> ip_addr l
     \<and> (\<forall>r\<in>set rl. ip_addr (ir_IP r) \<noteq> ip_addr ip) \<and> (\<forall>e\<in>set ex. \<not> Contains e ip)"

definition reservations_valid :: "IPReservation list \<Rightarrow> bool" where
  "reservations_valid rl \<longleftrightarrow> list_all (\<lambda>r. valid_ip (ir_IP r)) rl"

lemma reserved_iff:
  assumes "reservations_valid rl" "valid_ip x"
  shows "IP_String x \<in> set (makeReservedMap rl) \<longleftrightarrow> (\<exists>r\<in>set rl. ip_addr (ir_IP r) = ip_addr x)"
  using assms IP_String_inject by (fastforce simp: makeReservedMap_def reservations_valid_def list_all_iff)

lemma free_ip_taken:
  assumes "good_net N" "reservations_valid rl" "Contains N x"
  shows "free_ip N f l rl ex x \<longleftrightarrow> ip_addr f \<le> ip_addr x \<and> ip_addr x \<le> ip_addr l
    \<and> \<not> wbscan.taken (makeReservedMap rl) ex x"
  using assms reserved_iff [OF assms(2) wb.inside_valid [OF wb.good_cidr [OF assms(1)] assms(3)]]
  by (auto simp: free_ip_def wbscan.taken_def)

lemma iterate_loop_least:
  assumes "good_net N" "list_all good_net ex" "reservations_valid rl" "valid_ip l" "Contains N f"
  shows "case iterate_loop N l (makeReservedMap rl) ex f of
      None \<Rightarrow> False
    | Some None \<Rightarrow> \<forall>z. \<not> free_ip N f l rl ex z
    | Some (Some y) \<Rightarrow> free_ip N f l rl ex y \<and> (\<forall>z. free_ip N f l rl ex z \<longrightarrow> ip_addr y \<le> ip_addr z)"
proof -
  have c: "Contains N z" if "free_ip N f l rl ex z" for z using that by (simp add: free_ip_def)
  note t = free_ip_taken [OF assms(1,3)]
  show ?thesis
    using wbscan.scan_least [OF assms(1,2,4,5), of "makeReservedMap rl"]
    by (auto simp: ip_key_le ip_key_lt split: option.splits dest: c)
      (use t c in \<open>force simp: not_less\<close>)+
qed

definition l3_lo :: "addr \<Rightarrow> nat \<Rightarrow> IP \<Rightarrow> addr" where
  "l3_lo a n s = (if s \<noteq> [] \<and> Contains (cidr_net a n) s then ip_addr s else addr_mask n a)"

definition l3_hi :: "addr \<Rightarrow> nat \<Rightarrow> IP \<Rightarrow> IP \<Rightarrow> addr" where
  "l3_hi a n s e =
     (if e \<noteq> [] \<and> Contains (cidr_net a n) e \<and> l3_lo a n s \<le> ip_addr e then ip_addr e else addr_last n a)"

lemma effectiveIPRange_l3:
  assumes "good_cidr a n" "nil_or_valid s" "nil_or_valid e"
  shows "\<exists>f l. effectiveIPRange (cidr_net a n) s e True = Inr (f, l) \<and> valid_ip f \<and> valid_ip l
    \<and> ip_addr f = l3_lo a n s \<and> ip_addr l = l3_hi a n s e"
proof -
  note p = good_plain [OF assms(1)] and int = Contains_plain_interval [OF good_plain [OF assms(1)]]
  have a: "a \<noteq> AddrZero" using assms(1) by (simp add: good_cidr_def)
  have u: "Unmap (addr_mask n a) = addr_mask n a" using p by (simp add: plain_cidr_def)
  define f0 where "f0 = NetworkIP (cidr_net a n)"
  have f0: "valid_ip f0" "ip_addr f0 = addr_mask n a"
    using a u by (simp_all add: f0_def NetworkIP_plain [OF p] ip_addr_valid ip_addr_AsSlice)
  define l0 where "l0 = SubnetBroadcastIP (cidr_net a n)"
  have l0: "valid_ip l0" "ip_addr l0 = addr_last n a"
    using a good_last_Unmap [OF assms(1)]
    by (simp_all add: l0_def SubnetBroadcastIP_plain [OF p] ip_addr_valid ip_addr_AsSlice)
  define f where "f = (if s \<noteq> [] \<and> Contains (cidr_net a n) s \<and> CompareIPs s f0 \<ge> 0 then s else f0)"
  have f: "valid_ip f" "ip_addr f = l3_lo a n s"
    using assms(2) f0 by (auto simp: f_def l3_lo_def nil_or_valid_def CompareIPs_ge int)
  define l where "l = (if e \<noteq> [] \<and> Contains (cidr_net a n) e \<and> CompareIPs e f \<ge> 0 \<and> CompareIPs e l0 \<le> 0 then e else l0)"
  have l: "valid_ip l" "ip_addr l = l3_hi a n s e"
    using assms(3) f l0 by (auto simp: l_def l3_hi_def nil_or_valid_def CompareIPs_ge CompareIPs_le int)
  show ?thesis
    using f l unfolding effectiveIPRange_def f_def l_def f0_def l0_def by (auto simp: Let_def)
qed

lemma effectiveIPRange_good:
  assumes "good_net N" "nil_or_valid s" "nil_or_valid e"
  shows "\<exists>f l. effectiveIPRange N s e l3 = Inr (f, l) \<and> valid_ip f \<and> valid_ip l \<and> Contains N f
    \<and> Contains N l \<and> ip_addr f \<le> ip_addr l"
proof -
  obtain a n where N: "good_cidr a n" "N = cidr_net a n" using good_netD [OF assms(1)] by blast
  note int = Contains_plain_interval [OF good_plain [OF N(1)]]
  have a: "a \<noteq> AddrZero" using N(1) by (simp add: good_cidr_def)
  note b = usable_bounds [OF a, of n] range_lo_bounds [OF a, of n s] range_hi_bounds [OF a, of n s e]
  show ?thesis
  proof (cases l3)
    case True
    have "addr_mask n a \<le> l3_lo a n s" "l3_lo a n s \<le> l3_hi a n s e" "l3_hi a n s e \<le> addr_last n a"
      using mask_le_last [of n a] by (auto simp: l3_lo_def l3_hi_def int)
    then show ?thesis
      using effectiveIPRange_l3 [OF N(1) assms(2,3)] True by (fastforce simp: N(2) int)
  next
    case False
    have "addr_mask n a \<le> range_lo a n s" "range_lo a n s \<le> range_hi a n s e"
        "range_hi a n s e \<le> addr_last n a" "addr_mask n a \<le> range_hi a n s e" "range_lo a n s \<le> addr_last n a"
      using b by (meson order_trans)+
    then show ?thesis
      using GetIPRange_good [OF N(1) assms(2,3)] False by (fastforce simp: N(2) effectiveIPRange_def int)
  qed
qed

text \<open>
  C17: the range that is searched. It starts and ends with the whole network if \<^verbatim>\<open>enable_l3\<close> is on or
  the network has at most one host bit (RFC 3021, and single addresses), and otherwise without the
  network and the broadcast address; \<^verbatim>\<open>range_start\<close> replaces its first address if it lies in it, and
  \<^verbatim>\<open>range_end\<close> its last one if it lies in what is left; a bound that lies elsewhere is ignored.
\<close>

theorem effectiveIPRange_meaning:
  assumes "good_cidr a n" "nil_or_valid s" "nil_or_valid e"
  shows "\<exists>f l. effectiveIPRange (cidr_net a n) s e l3 = Inr (f, l)
    \<and> (let all = (l3 \<or> BitLen a - n \<le> 1);
           lo = (if all then addr_mask n a else Next (addr_mask n a));
           hi = (if all then addr_last n a else Prev (addr_last n a))
       in ip_addr f = (if s \<noteq> [] \<and> lo \<le> ip_addr s \<and> ip_addr s \<le> hi then ip_addr s else lo)
          \<and> ip_addr l = (if e \<noteq> [] \<and> ip_addr f \<le> ip_addr e \<and> ip_addr e \<le> hi then ip_addr e else hi)
          \<and> lo \<le> ip_addr f \<and> ip_addr f \<le> ip_addr l \<and> ip_addr l \<le> hi
          \<and> (\<not> all \<longrightarrow> addr_mask n a < ip_addr f \<and> ip_addr l < addr_last n a))"
proof -
  note int = Contains_plain_interval [OF good_plain [OF assms(1)]]
  have a: "a \<noteq> AddrZero" using assms(1) by (simp add: good_cidr_def)
  show ?thesis
  proof (cases l3)
    case True
    obtain f l where fl: "effectiveIPRange (cidr_net a n) s e True = Inr (f, l)" "ip_addr f = l3_lo a n s" "ip_addr l = l3_hi a n s e"
      using effectiveIPRange_l3 [OF assms] by blast
    have "addr_mask n a \<le> l3_lo a n s" "l3_lo a n s \<le> l3_hi a n s e" "l3_hi a n s e \<le> addr_last n a"
      using mask_le_last [of n a] by (auto simp: l3_lo_def l3_hi_def int)
    moreover have "ip_addr f = (if s \<noteq> [] \<and> addr_mask n a \<le> ip_addr s \<and> ip_addr s \<le> addr_last n a then ip_addr s else addr_mask n a)"
      unfolding fl(2) by (simp add: l3_lo_def int)
    moreover have "ip_addr l = (if e \<noteq> [] \<and> ip_addr f \<le> ip_addr e \<and> ip_addr e \<le> addr_last n a then ip_addr e else addr_last n a)"
      using calculation(1) unfolding fl(2,3) by (auto simp: l3_hi_def int)
    ultimately show ?thesis using True fl by (intro exI [of _ f] exI [of _ l]) (simp add: fl(2,3))
  next
    case False
    obtain f l where fl: "effectiveIPRange (cidr_net a n) s e l3 = Inr (f, l)" "ip_addr f = range_lo a n s" "ip_addr l = range_hi a n s e"
      using GetIPRange_good [OF assms] False by (auto simp: effectiveIPRange_def)
    note b = usable_bounds [OF a, of n] range_lo_bounds [OF a, of n s] range_hi_bounds [OF a, of n s e]
    have "addr_mask n a < usable_lo a n \<and> usable_hi a n < addr_last n a" if h: "\<not> BitLen a - n \<le> 1"
      using usable_lo_nat [OF a, of n] usable_hi_nat [OF a, of n] h host_ge2 [OF h] addr_last_plus [OF a, of n]
      by (auto simp: addr_less_iff)
    then have strict: "\<not> BitLen a - n \<le> 1 \<Longrightarrow> addr_mask n a < range_lo a n s \<and> range_hi a n s e < addr_last n a"
      using b by (meson order.strict_trans1 order.strict_trans2)
    have lo: "(if l3 \<or> BitLen a - n \<le> 1 then addr_mask n a else Next (addr_mask n a)) = usable_lo a n"
      and hi: "(if l3 \<or> BitLen a - n \<le> 1 then addr_last n a else Prev (addr_last n a)) = usable_hi a n"
      using False by (simp_all add: usable_lo_def usable_hi_def)
    have "ip_addr f = (if s \<noteq> [] \<and> usable_lo a n \<le> ip_addr s \<and> ip_addr s \<le> usable_hi a n then ip_addr s else usable_lo a n)"
      unfolding fl(2) by (simp add: range_lo_def)
    moreover have "ip_addr l = (if e \<noteq> [] \<and> ip_addr f \<le> ip_addr e \<and> ip_addr e \<le> usable_hi a n then ip_addr e else usable_hi a n)"
      unfolding fl(2,3) by (simp add: range_hi_def)
    ultimately show ?thesis
      unfolding Let_def lo hi using fl b strict False by (intro exI [of _ f] exI [of _ l]) (simp add: fl(2,3))
  qed
qed

theorem effectiveIPRange_meaning_witness:
  "\<exists>f l. effectiveIPRange (cidr_net (Addr4 0x0a000000) 28) [10, 0, 0, 3] [10, 0, 1, 9] False = Inr (f, l)
    \<and> ip_addr f = Addr4 0x0a000003 \<and> ip_addr l = Addr4 0x0a00000e"
proof -
  have e: "good_cidr (Addr4 0x0a000000) 28" "nil_or_valid [10, 0, 0, 3]" "nil_or_valid [10, 0, 1, 9]" by code_simp+
  have v: "ip_addr [10, 0, 0, 3] = Addr4 0x0a000003" "ip_addr [10, 0, 1, 9] = Addr4 0x0a000109"
    "Next (addr_mask 28 (Addr4 0x0a000000)) = Addr4 0x0a000001" "Prev (addr_last 28 (Addr4 0x0a000000)) = Addr4 0x0a00000e"
    "Addr4 0x0a000001 \<le> Addr4 0x0a000003" "Addr4 0x0a000003 \<le> Addr4 0x0a00000e" "\<not> Addr4 0x0a000109 \<le> Addr4 0x0a00000e" by code_simp+
  have b: "(False \<or> BitLen (Addr4 0x0a000000) - 28 \<le> 1) = False" "[10, 0, 0, 3] \<noteq> ([] :: IP)" by simp_all
  show ?thesis
    using effectiveIPRange_meaning [OF e, of False] unfolding Let_def b v if_False by - (elim exE conjE, intro exI conjI, assumption, simp_all add: v(5-7))
qed

section \<open>Correctness of AssignIP\<close>

lemma existing_loop_None:
  "existing_loop c q i rl = None \<longleftrightarrow> \<not> (\<exists>r\<in>set rl. ir_PodRef r = q \<and> ir_IfName r = i)"
  by (induction rl) (auto split: option.splits)

lemma existing_loop_Some:
  "existing_loop c q i rl = Some (ip, rl') \<Longrightarrow> \<exists>xs r ys. rl = xs @ r # ys
     \<and> rl' = xs @ r\<lparr>ir_ContainerID := c\<rparr> # ys \<and> ip = ir_IP r \<and> ir_PodRef r = q \<and> ir_IfName r = i
     \<and> (\<forall>x\<in>set xs. \<not> (ir_PodRef x = q \<and> ir_IfName x = i))"
proof (induction rl arbitrary: rl')
  case (Cons r rl)
  show ?case
  proof (cases "ir_PodRef r = q \<and> ir_IfName r = i")
    case True
    then show ?thesis using Cons.prems by (intro exI [of _ "[]"]) auto
  next
    case False
    then obtain rl'' where e: "existing_loop c q i rl = Some (ip, rl'')" "rl' = r # rl''"
      using Cons.prems by (auto split: option.splits)
    obtain xs r' ys where "rl = xs @ r' # ys" "rl'' = xs @ r'\<lparr>ir_ContainerID := c\<rparr> # ys" "ip = ir_IP r'"
        "ir_PodRef r' = q" "ir_IfName r' = i" "\<forall>x\<in>set xs. \<not> (ir_PodRef x = q \<and> ir_IfName x = i)"
      using Cons.IH [OF e(1)] by blast
    then show ?thesis using e(2) False by (intro exI [of _ "r # xs"]) auto
  qed
qed simp

lemma pick_loop_ok:
  assumes "pick_loop N f l (makeReservedMap rl) ex picks = Inr c" "good_net N" "reservations_valid rl"
    "valid_ip f" "valid_ip l" "list_all valid_ip picks"
  shows "free_ip N f l rl ex c" "c \<in> set picks"
proof -
  have "free_ip N f l rl ex c \<and> c \<in> set picks"
    using assms(1,6)
  proof (induction picks)
    case (Cons p picks)
    have v: "valid_ip p" "list_all valid_ip picks" using Cons.prems by simp_all
    show ?case
    proof (cases "Contains N p \<and> ip_addr f \<le> ip_addr p \<and> ip_addr p \<le> ip_addr l
        \<and> \<not> IP_String p \<in> set (makeReservedMap rl) \<and> \<not> ipExcluded p ex")
      case True
      then have "c = p" using Cons.prems v assms(4,5)
        by (auto simp: IsIPInRange_valid valid_not_Nil split: if_splits)
      then show ?thesis
        using True reserved_iff [OF assms(3) v(1)]
        by (auto simp: free_ip_def ipExcluded_def list_ex_iff)
    next
      case False
      then have "pick_loop N f l (makeReservedMap rl) ex picks = Inr c"
        using Cons.prems v assms(4,5) by (auto simp: IsIPInRange_valid split: if_splits)
      then show ?thesis using Cons.IH v by simp
    qed
  qed simp
  then show "free_ip N f l rl ex c" "c \<in> set picks" by simp_all
qed

lemma good_mask_eq:
  assumes "n = BitLen a" "BitLen x = BitLen a"
  shows "addr_mask n x = addr_mask n a \<longleftrightarrow> x = a"
  using assms by (simp add: addr_eq_iff addr_nat_mask)

lemma nat_of_digits_dec': "nat_of_digits ''32'' = Some 32" "nat_of_digits ''128'' = Some 128"
  by code_simp+

lemma good_net_iff:
  assumes "a \<noteq> AddrZero" "n \<le> BitLen a"
  shows "good_net (cidr_net a n) \<longleftrightarrow> good_cidr a n"
proof
  assume "good_net (cidr_net a n)"
  then have g: "good_cidr (addr_mask n a) n"
    using assms by (simp add: good_net_def net_IP_cidr_net Mask_Size_cidr_net Let_def)
  have "addr_mask (min n 96) (addr_mask n a) = addr_mask (min n 96) a" by (rule addr_mask_mask) simp
  then show "good_cidr a n" using g by (cases a) (auto simp: good_cidr_def)
qed (rule good_net_cidr_net)

lemma ParseCIDR_one_slash:
  assumes "CHR ''/'' \<in> set s"
  shows "\<exists>e. ParseCIDR (s @ CHR ''/'' # m) = Inl e"
proof -
  obtain a b where "s = a @ CHR ''/'' # b" "CHR ''/'' \<notin> set a" using assms by (metis split_list_first)
  then have "Cut (CHR ''/'') (s @ CHR ''/'' # m) = Some (a, b @ CHR ''/'' # m)" by simp
  moreover have "nat_of_digits (b @ CHR ''/'' # m) = None" by (simp add: nat_of_digits_def is_digit_def)
  ultimately show ?thesis by (auto simp: ParseCIDR_def mask_len_def Let_def)
qed

text \<open>An exclude entry that is a single address excludes exactly that address.\<close>

lemma single_exclude:
  assumes "parseExcludedRange er = Inr e" "good_net e" "ParseCIDR er = Inl err" "valid_ip ip"
  shows "Contains e ip \<longleftrightarrow> ParseIP er \<noteq> [] \<and> IP_Equal (ParseIP er) ip"
proof -
  let ?m = "if To4 (ParseIP er) \<noteq> [] then ''32'' else ''128''"
  define ad where "ad = ParseAddr er"
  have ne: "ParseIP er \<noteq> []" and pc: "\<exists>i. ParseCIDR (er @ CHR ''/'' # ?m) = Inr (i, e)"
    using assms(1,3) by (auto simp: parseExcludedRange_def Let_def split: sum.splits if_splits)
  have ad: "ad \<noteq> AddrZero" "ParseIP er = As16 ad" using ne by (auto simp: ParseIP_def ad_def Let_def)
  have "CHR ''/'' \<notin> set er" using pc ParseCIDR_one_slash by (metis Inl_Inr_False sum.distinct(1))
  then have "Cut (CHR ''/'') (er @ CHR ''/'' # ?m) = Some (er, ?m)" by simp
  then obtain n where n: "mask_len ?m (BitLen ad) = Some n" "e = cidr_net ad n" "n \<le> BitLen ad"
    using pc ad by (auto simp: ParseCIDR_def ad_def mask_len_def Let_def split: option.splits if_splits)
  have gn: "good_cidr ad n" using good_net_iff [OF ad(1) n(3)] assms(2) n(2) by simp
  have nb: "n = BitLen ad"
  proof (cases ad)
    case (Addr4 w)
    have "To4 (ParseIP er) \<noteq> []"
      using ad Addr4 ip_addr_As16 [of ad] Is4_ip_addr [of "ParseIP er"] by simp
    then show ?thesis using n(1) Addr4 by (simp add: mask_len_def nat_of_digits_dec')
  next
    case (Addr6 w)
    show ?thesis
    proof (cases "To4 (ParseIP er) = []")
      case True
      then show ?thesis using n(1) Addr6 by (simp add: mask_len_def nat_of_digits_dec')
    next
      case False
      then have n32: "n = 32" using n(1) Addr6 by (simp add: mask_len_def nat_of_digits_dec')
      have "Unmap ad \<noteq> ad"
        using False ad(2) Addr6 ip_addr_As16 [of ad] Is4_ip_addr [of "ParseIP er"]
        by (auto split: if_splits)
      then have "addr_mask 96 ad = mapped_base" by (simp add: Unmap_eq_iff)
      then have "addr_mask 32 ad = addr_mask 32 mapped_base" using addr_mask_mask [of 32 96 ad] by simp
      then show ?thesis using gn n32 Addr6 by (simp add: good_cidr_def)
    qed
  qed (use ad in simp)
  have "Contains e ip \<longleftrightarrow> ip_addr ip = ad"
    using Contains_plain [OF good_plain [OF gn]] n(2) good_mask_eq [OF nb] nb by auto
  moreover have "ip_addr (ParseIP er) = ad"
    using good_Unmap [OF gn, of ad] ad ip_addr_As16 [of ad] by simp
  ultimately show ?thesis
    using IP_Equal_addr [of "ParseIP er" ip] ne ad assms(4) by (auto simp: valid_ip_def)
qed

lemma preferred_excluded_iff:
  assumes "parseExcludedRanges vs = Inr ex" "list_all good_net ex" "valid_ip ip"
  shows "preferred_excluded ip vs \<longleftrightarrow> (\<exists>e\<in>set ex. Contains e ip)"
  using assms(1,2)
proof (induction vs arbitrary: ex)
  case (Cons v vs)
  obtain e es where e: "parseExcludedRange v = Inr e" "parseExcludedRanges vs = Inr es" "ex = e # es"
    using Cons.prems(1) by (auto split: sum.splits)
  have IH: "preferred_excluded ip vs \<longleftrightarrow> (\<exists>e\<in>set es. Contains e ip)"
    using Cons.IH [OF e(2)] Cons.prems(2) e(3) by simp
  show ?case
  proof (cases "ParseCIDR v")
    case (Inl err)
    then show ?thesis
      using single_exclude [OF e(1) _ Inl assms(3)] Cons.prems(2) e(3) IH by (simp add: Let_def)
  next
    case (Inr p)
    then show ?thesis using e IH by (cases p) (auto simp: parseExcludedRange_def)
  qed
qed simp

lemma preferred_available_free:
  assumes "preferred_available conf N rl" "good_net N" "addresses_valid conf" "reservations_valid rl"
    "parseExcludedRanges (rc_OmitRanges conf) = Inr ex" "list_all good_net ex"
  shows "\<exists>f l. effectiveIPRange N (rc_RangeStart conf) (rc_RangeEnd conf) (rc_L3 conf) = Inr (f, l)
    \<and> free_ip N f l rl ex (rc_PreferredIP conf)"
proof -
  let ?p = "rc_PreferredIP conf"
  note p = assms(1) [unfolded preferred_available_def]
  have v: "valid_ip ?p" "nil_or_valid (rc_RangeStart conf)" "nil_or_valid (rc_RangeEnd conf)"
    using p assms(3) by (auto simp: addresses_valid_def nil_or_valid_def)
  obtain f l where fl: "effectiveIPRange N (rc_RangeStart conf) (rc_RangeEnd conf) (rc_L3 conf) = Inr (f, l)"
      "valid_ip f" "valid_ip l"
    using effectiveIPRange_good [OF assms(2) v(2,3)] by blast
  have "ip_addr f \<le> ip_addr ?p \<and> ip_addr ?p \<le> ip_addr l"
    using p fl v by (auto simp: preferredIPInBounds_def IsIPInRange_valid)
  moreover have "\<forall>r\<in>set rl. ip_addr (ir_IP r) \<noteq> ip_addr ?p"
    using p assms(4) v IP_Equal_addr by (auto simp: list_ex_iff reservations_valid_def list_all_iff)
  ultimately show ?thesis
    using fl p preferred_excluded_iff [OF assms(5,6) v(1)] by (auto simp: free_ip_def)
qed

lemma AssignIP_new:
  assumes "AssignIP conf rl containerID podRef ifName = Some (Inr (ipn, rl'))"
    and "ParseCIDR (rc_Range conf) = Inr (i, N)" "good_net N"
    and "parseExcludedRanges (rc_OmitRanges conf) = Inr ex" "list_all good_net ex"
    and "addresses_valid conf" "reservations_valid rl"
    and "\<not> (\<exists>r\<in>set rl. ir_PodRef r = podRef \<and> ir_IfName r = ifName)"
  shows "\<exists>f l. effectiveIPRange N (rc_RangeStart conf) (rc_RangeEnd conf) (rc_L3 conf) = Inr (f, l)
    \<and> free_ip N f l rl ex (net_IP ipn) \<and> net_Mask ipn = net_Mask N
    \<and> rl' = rl @ [new_reservation (net_IP ipn) containerID podRef ifName]"
proof -
  have v: "nil_or_valid (rc_RangeStart conf)" "nil_or_valid (rc_RangeEnd conf)" "list_all valid_ip (rc_PickAddresses conf)"
    using assms(6) by (auto simp: addresses_valid_def)
  obtain f l where fl: "effectiveIPRange N (rc_RangeStart conf) (rc_RangeEnd conf) (rc_L3 conf) = Inr (f, l)"
      "valid_ip f" "valid_ip l" "Contains N f"
    using effectiveIPRange_good [OF assms(3) v(1,2)] by blast
  have ex: "existing_loop containerID podRef ifName rl = None" using assms(8) existing_loop_None by blast
  note unf = AssignIP_def assms(2,4) ex fl(1)
  show ?thesis
  proof (cases "preferred_available conf N rl")
    case True
    then show ?thesis
      using preferred_available_free [OF True assms(3,6,7,4,5)] assms(1) fl
      by (auto simp: unf split: if_splits)
  next
    case pref: False
    show ?thesis
    proof (cases "rc_PickAddresses conf = []")
      case True
      then have "iterate_loop N l (makeReservedMap rl) ex f = Some (Some (net_IP ipn))"
          "rl' = rl @ [new_reservation (net_IP ipn) containerID podRef ifName]" "net_Mask ipn = net_Mask N"
        using assms(1) pref by (auto simp: unf IterateForAssignment_def Let_def split: option.splits if_splits)
      then show ?thesis
        using iterate_loop_least [OF assms(3,5,7) fl(3,4)] fl(1) by auto
    next
      case False
      then have "pick_loop N f l (makeReservedMap rl) ex (rc_PickAddresses conf) = Inr (net_IP ipn)"
          "rl' = rl @ [new_reservation (net_IP ipn) containerID podRef ifName]" "net_Mask ipn = net_Mask N"
        using assms(1) pref by (auto simp: unf pickForAssignment_def Let_def split: sum.splits if_splits)
      then show ?thesis
        using pick_loop_ok [OF _ assms(3,7) fl(2,3) v(3)] fl(1) by auto
    qed
  qed
qed

text \<open>
  C3: a newly assigned address is free: it lies in the network and in the effective range,
  no reservation holds it and no exclude range contains it, whichever of the three ways
  (preferred address, candidate list, scan) found it; and exactly one reservation, for
  the requesting pod and interface, is added.
\<close>

theorem AssignIP_safe:
  assumes "AssignIP conf rl containerID podRef ifName = Some (Inr (ipn, rl'))"
    and "ParseCIDR (rc_Range conf) = Inr (i, N)" "good_net N"
    and "parseExcludedRanges (rc_OmitRanges conf) = Inr ex" "list_all good_net ex"
    and "addresses_valid conf" "reservations_valid rl"
    and "\<not> (\<exists>r\<in>set rl. ir_PodRef r = podRef \<and> ir_IfName r = ifName)"
  shows "\<exists>f l. effectiveIPRange N (rc_RangeStart conf) (rc_RangeEnd conf) (rc_L3 conf) = Inr (f, l)
    \<and> free_ip N f l rl ex (net_IP ipn) \<and> net_Mask ipn = net_Mask N
    \<and> rl' = rl @ [new_reservation (net_IP ipn) containerID podRef ifName]"
  using assms by (rule AssignIP_new)

text \<open>
  C8: without a preferred address and a candidate list, \<^verbatim>\<open>AssignIP\<close> assigns the lowest free
  address whenever there is one, and fails with \<^verbatim>\<open>AssignmentError\<close> exactly when there is none.
\<close>

theorem AssignIP_lowest_free:
  assumes "ParseCIDR (rc_Range conf) = Inr (i, N)" "good_net N"
    and "parseExcludedRanges (rc_OmitRanges conf) = Inr ex" "list_all good_net ex"
    and "addresses_valid conf" "reservations_valid rl"
    and "rc_PreferredIP conf = []" "rc_PickAddresses conf = []"
    and "\<not> (\<exists>r\<in>set rl. ir_PodRef r = podRef \<and> ir_IfName r = ifName)"
    and "effectiveIPRange N (rc_RangeStart conf) (rc_RangeEnd conf) (rc_L3 conf) = Inr (f, l)"
  shows "if \<exists>x. free_ip N f l rl ex x
    then \<exists>ip. AssignIP conf rl containerID podRef ifName
           = Some (Inr (\<lparr>net_IP = ip, net_Mask = net_Mask N\<rparr>,
                        rl @ [new_reservation ip containerID podRef ifName]))
         \<and> free_ip N f l rl ex ip \<and> (\<forall>x. free_ip N f l rl ex x \<longrightarrow> ip_addr ip \<le> ip_addr x)
    else AssignIP conf rl containerID podRef ifName = Some (Inl AssignmentError)"
proof -
  have v: "nil_or_valid (rc_RangeStart conf)" "nil_or_valid (rc_RangeEnd conf)"
    using assms(5) by (auto simp: addresses_valid_def)
  have fl: "valid_ip f" "valid_ip l" "Contains N f"
    using effectiveIPRange_good [OF assms(2) v, of "rc_L3 conf"] assms(10) by auto
  have ex: "existing_loop containerID podRef ifName rl = None" using assms(9) existing_loop_None by blast
  have np: "\<not> preferred_available conf N rl" using assms(7) by (simp add: preferred_available_def)
  note unf = AssignIP_def assms(1,3,7,8,10) ex np IterateForAssignment_def Let_def
  show ?thesis
    using iterate_loop_least [OF assms(2,4,6) fl(2,3)]
    by (cases "iterate_loop N l (makeReservedMap rl) ex f") (auto simp: unf split: option.splits)
qed

definition conf_ex :: RangeConfiguration where
  "conf_ex = \<lparr> rc_OmitRanges = [''10.0.0.0/30'', ''10.0.0.5''], rc_Range = ''10.0.0.0/28'',
     rc_RangeStart = [], rc_RangeEnd = [], rc_PickAddresses = [], rc_PreferredIP = [], rc_L3 = False \<rparr>"

definition rl_ex :: "IPReservation list" where
  "rl_ex = [new_reservation [10, 0, 0, 4] ''c0'' ''ns/p0'' ''eth0'']"

definition net_ex :: IPNet where
  "net_ex = cidr_net (Addr4 0x0a000000) 28"

definition ex_ex :: "IPNet list" where
  "ex_ex = [cidr_net (Addr4 0x0a000000) 30, cidr_net (Addr4 0x0a000005) 32]"

lemma conf_ex_facts:
  "ParseCIDR (rc_Range conf_ex) = Inr (As16 (Addr4 0x0a000000), net_ex)" "good_net net_ex"
  "parseExcludedRanges (rc_OmitRanges conf_ex) = Inr ex_ex" "list_all good_net ex_ex"
  "addresses_valid conf_ex" "reservations_valid rl_ex"
  "effectiveIPRange net_ex (rc_RangeStart conf_ex) (rc_RangeEnd conf_ex) (rc_L3 conf_ex)
     = Inr ([10, 0, 0, 1], [10, 0, 0, 14])"
  by code_simp+

lemma rl_ex_other: "\<not> (\<exists>r\<in>set rl_ex. ir_PodRef r = ''ns/p1'' \<and> ir_IfName r = ''eth0'')"
  by (simp add: rl_ex_def new_reservation_def)

lemma run_ex: "AssignIP conf_ex rl_ex ''c1'' ''ns/p1'' ''eth0'' =
     Some (Inr (\<lparr>net_IP = [10, 0, 0, 6], net_Mask = [255, 255, 255, 240]\<rparr>,
                rl_ex @ [new_reservation [10, 0, 0, 6] ''c1'' ''ns/p1'' ''eth0'']))"
  by code_simp

theorem AssignIP_safe_witness:
  "AssignIP conf_ex rl_ex ''c1'' ''ns/p1'' ''eth0'' =
     Some (Inr (\<lparr>net_IP = [10, 0, 0, 6], net_Mask = [255, 255, 255, 240]\<rparr>,
                rl_ex @ [new_reservation [10, 0, 0, 6] ''c1'' ''ns/p1'' ''eth0'']))
   \<and> free_ip net_ex [10, 0, 0, 1] [10, 0, 0, 14] rl_ex ex_ex [10, 0, 0, 6]"
  using AssignIP_safe [OF run_ex conf_ex_facts(1-6) rl_ex_other] conf_ex_facts(7) run_ex by auto

theorem AssignIP_lowest_free_witness:
  "free_ip net_ex [10, 0, 0, 1] [10, 0, 0, 14] rl_ex ex_ex [10, 0, 0, 9]
   \<and> ip_addr [10, 0, 0, 6] \<le> ip_addr [10, 0, 0, 9]"
proof -
  have none: "rc_PreferredIP conf_ex = []" "rc_PickAddresses conf_ex = []" by (simp_all add: conf_ex_def)
  have "free_ip net_ex [10, 0, 0, 1] [10, 0, 0, 14] rl_ex ex_ex [10, 0, 0, 9]" by code_simp
  then show ?thesis
    using AssignIP_lowest_free [OF conf_ex_facts(1-6) none rl_ex_other conf_ex_facts(7), of "''c1''"] run_ex
    by (auto split: if_splits)
qed

section \<open>Reservation lists as a whole\<close>

definition ip_unique :: "IPReservation list \<Rightarrow> bool" where
  "ip_unique rl \<longleftrightarrow> distinct (map (\<lambda>r. ip_addr (ir_IP r)) rl)"

definition owner_unique :: "IPReservation list \<Rightarrow> bool" where
  "owner_unique rl \<longleftrightarrow> distinct (map (\<lambda>r. (ir_PodRef r, ir_IfName r)) rl)"

definition rl_inv :: "IPReservation list \<Rightarrow> bool" where
  "rl_inv rl \<longleftrightarrow> reservations_valid rl \<and> ip_unique rl \<and> owner_unique rl"

lemma new_reservation_simps [simp]:
  "ir_IP (new_reservation ip c q i) = ip" "ir_ContainerID (new_reservation ip c q i) = c"
  "ir_PodRef (new_reservation ip c q i) = q" "ir_IfName (new_reservation ip c q i) = i"
  by (simp_all add: new_reservation_def)

lemma AssignIP_existing:
  assumes "AssignIP conf rl c q i = Some (Inr (ipn, rl'))" "\<exists>r\<in>set rl. ir_PodRef r = q \<and> ir_IfName r = i"
  shows "\<exists>xs r ys. rl = xs @ r # ys \<and> rl' = xs @ r\<lparr>ir_ContainerID := c\<rparr> # ys \<and> net_IP ipn = ir_IP r
    \<and> ir_PodRef r = q \<and> ir_IfName r = i \<and> (\<forall>x\<in>set xs. \<not> (ir_PodRef x = q \<and> ir_IfName x = i))"
proof -
  obtain ip rl'' where e: "existing_loop c q i rl = Some (ip, rl'')"
    using assms(2) existing_loop_None by (metis option.exhaust surj_pair)
  then have "net_IP ipn = ip" "rl' = rl''"
    using assms(1) by (auto simp: AssignIP_def split: sum.splits)
  then show ?thesis using existing_loop_Some [OF e] by blast
qed

lemma free_new_inv:
  assumes "good_net N" "free_ip N f l rl ex ip" "rl_inv rl" "\<not> (\<exists>r\<in>set rl. ir_PodRef r = q \<and> ir_IfName r = i)"
  shows "rl_inv (rl @ [new_reservation ip c q i])"
proof -
  have "valid_ip ip"
    using assms(1,2) wb.inside_valid wb.good_cidr by (auto simp: free_ip_def)
  then show ?thesis
    using assms(2,3,4)
    by (force simp: rl_inv_def reservations_valid_def ip_unique_def owner_unique_def free_ip_def)
qed

text \<open>
  C9: a successful \<^verbatim>\<open>AssignIP\<close> keeps the invariant of reservation lists: every reservation
  holds a valid address, no two hold the same address, and no two belong to the same
  interface of the same pod.
\<close>

theorem AssignIP_invariant:
  assumes "AssignIP conf rl containerID podRef ifName = Some (Inr (ipn, rl'))" "rl_inv rl"
    and "ParseCIDR (rc_Range conf) = Inr (i, N)" "good_net N"
    and "parseExcludedRanges (rc_OmitRanges conf) = Inr ex" "list_all good_net ex"
    and "addresses_valid conf"
  shows "rl_inv rl'"
proof (cases "\<exists>r\<in>set rl. ir_PodRef r = podRef \<and> ir_IfName r = ifName")
  case True
  then show ?thesis
    using AssignIP_existing [OF assms(1)] assms(2)
    by (auto simp: rl_inv_def reservations_valid_def ip_unique_def owner_unique_def)
next
  case False
  have "reservations_valid rl" using assms(2) by (simp add: rl_inv_def)
  then show ?thesis
    using AssignIP_new [OF assms(1,3-7) _ False] free_new_inv [OF assms(4) _ assms(2) False] by blast
qed

theorem AssignIP_invariant_witness:
  "\<exists>rl'. AssignIP conf_ex rl_ex ''c1'' ''ns/p1'' ''eth0''
      = Some (Inr (\<lparr>net_IP = [10, 0, 0, 6], net_Mask = [255, 255, 255, 240]\<rparr>, rl')) \<and> rl_inv rl'"
proof -
  have "rl_inv rl_ex" by code_simp
  then show ?thesis using AssignIP_invariant [OF run_ex _ conf_ex_facts(1-5)] run_ex by blast
qed

lemma existing_loop_first:
  assumes "\<forall>x\<in>set xs. \<not> (ir_PodRef x = q \<and> ir_IfName x = i)" "ir_PodRef r = q" "ir_IfName r = i"
  shows "existing_loop c q i (xs @ r # ys) = Some (ir_IP r, xs @ r\<lparr>ir_ContainerID := c\<rparr> # ys)"
  using assms by (induction xs) auto

lemma AssignIP_Inr_list:
  assumes "AssignIP conf rl c q i = Some (Inr (ipn, rl'))"
  shows "\<exists>xs r ys. rl' = xs @ r # ys \<and> ir_IP r = net_IP ipn \<and> ir_PodRef r = q \<and> ir_IfName r = i
    \<and> (\<forall>x\<in>set xs. \<not> (ir_PodRef x = q \<and> ir_IfName x = i))"
proof (cases "\<exists>r\<in>set rl. ir_PodRef r = q \<and> ir_IfName r = i")
  case True
  then obtain xs r ys where "rl' = xs @ r\<lparr>ir_ContainerID := c\<rparr> # ys" "net_IP ipn = ir_IP r"
      "ir_PodRef r = q" "ir_IfName r = i" "\<forall>x\<in>set xs. \<not> (ir_PodRef x = q \<and> ir_IfName x = i)"
    using AssignIP_existing [OF assms] by blast
  then show ?thesis
    by (intro exI [of _ xs] exI [of _ "r\<lparr>ir_ContainerID := c\<rparr>"] exI [of _ ys]) simp
next
  case False
  then have ex: "existing_loop c q i rl = None" using existing_loop_None by blast
  have "rl' = rl @ [new_reservation (net_IP ipn) c q i]"
    using assms ex
    by (auto simp: AssignIP_def IterateForAssignment_def pickForAssignment_def Let_def
        split: sum.splits if_splits option.splits prod.splits)
  then show ?thesis using False by (intro exI [of _ rl]) auto
qed

text \<open>
  Assigning again for the same pod and interface, from whatever container, returns the
  same address and adds nothing: only the container of the pod's reservation changes.
\<close>

theorem AssignIP_idempotent:
  assumes "AssignIP conf rl containerID podRef ifName = Some (Inr (ipn, rl1))"
  shows "\<exists>rl2. AssignIP conf rl1 containerID' podRef ifName = Some (Inr (ipn, rl2))
    \<and> map ir_IP rl2 = map ir_IP rl1 \<and> map ir_PodRef rl2 = map ir_PodRef rl1
    \<and> map ir_IfName rl2 = map ir_IfName rl1"
proof -
  obtain xs r ys where r: "rl1 = xs @ r # ys" "ir_IP r = net_IP ipn" "ir_PodRef r = podRef"
      "ir_IfName r = ifName" "\<forall>x\<in>set xs. \<not> (ir_PodRef x = podRef \<and> ir_IfName x = ifName)"
    using AssignIP_Inr_list [OF assms] by blast
  let ?rl2 = "xs @ r\<lparr>ir_ContainerID := containerID'\<rparr> # ys"
  have "existing_loop containerID' podRef ifName rl1 = Some (net_IP ipn, ?rl2)"
    using existing_loop_first [OF r(5,3,4)] r(1,2) by simp
  then have "AssignIP conf rl1 containerID' podRef ifName = Some (Inr (ipn, ?rl2))"
    using assms by (auto simp: AssignIP_def split: sum.splits if_splits option.splits prod.splits)
  then show ?thesis using r(1) by auto
qed

theorem AssignIP_idempotent_witness:
  "\<exists>rl2. AssignIP conf_ex (rl_ex @ [new_reservation [10, 0, 0, 6] ''c1'' ''ns/p1'' ''eth0'']) ''c2'' ''ns/p1'' ''eth0''
      = Some (Inr (\<lparr>net_IP = [10, 0, 0, 6], net_Mask = [255, 255, 255, 240]\<rparr>, rl2)) \<and> length rl2 = 2"
proof -
  have "length rl_ex = 1" by (simp add: rl_ex_def)
  then show ?thesis
    using AssignIP_idempotent [OF run_ex, of "''c2''"] by (metis (no_types) length_map length_append_singleton one_add_one plus_1_eq_Suc)
qed

section \<open>Release\<close>

lemma getMatching_neg:
  "getMatchingIPReservationIndex rl c i < 0 \<longleftrightarrow> \<not> (\<exists>r\<in>set rl. ir_ContainerID r = c \<and> ir_IfName r = i)"
  by (induction rl) (auto simp: Let_def)

lemma getMatching_split:
  assumes "\<not> getMatchingIPReservationIndex rl c i < 0"
  shows "\<exists>xs r ys. rl = xs @ r # ys \<and> nat (getMatchingIPReservationIndex rl c i) = length xs
    \<and> ir_ContainerID r = c \<and> ir_IfName r = i \<and> (\<forall>x\<in>set xs. \<not> (ir_ContainerID x = c \<and> ir_IfName x = i))"
  using assms
proof (induction rl)
  case (Cons v rl)
  show ?case
  proof (cases "ir_ContainerID v = c \<and> ir_IfName v = i")
    case True
    then show ?thesis by (intro exI [of _ "[]"]) simp
  next
    case False
    then have "\<not> getMatchingIPReservationIndex rl c i < 0" using Cons.prems by (auto simp: Let_def split: if_splits)
    then obtain xs r ys where "rl = xs @ r # ys" "nat (getMatchingIPReservationIndex rl c i) = length xs"
        "ir_ContainerID r = c" "ir_IfName r = i" "\<forall>x\<in>set xs. \<not> (ir_ContainerID x = c \<and> ir_IfName x = i)"
        "0 \<le> getMatchingIPReservationIndex rl c i"
      using Cons.IH by (auto simp: not_less)
    then show ?thesis using False by (intro exI [of _ "v # xs"]) (auto simp: Let_def nat_add_distrib)
  qed
qed simp

lemma removeIdxFromSlice_mset: "mset (removeIdxFromSlice (xs @ r # ys) (length xs)) = mset (xs @ ys)"
proof (cases ys rule: rev_cases)
  case Nil
  then show ?thesis by (simp add: removeIdxFromSlice_def)
next
  case (snoc zs z)
  then show ?thesis by (simp add: removeIdxFromSlice_def)
qed

lemma distinct_map_mset: "mset xs = mset ys \<Longrightarrow> distinct (map f xs) = distinct (map f ys)"
  by (metis mset_eq_imp_distinct_iff mset_map)

lemma rl_inv_mset:
  assumes "mset xs = mset ys"
  shows "rl_inv xs = rl_inv ys"
  using mset_eq_setD [OF assms] distinct_map_mset [OF assms, of "\<lambda>r. ip_addr (ir_IP r)"]
    distinct_map_mset [OF assms, of "\<lambda>r. (ir_PodRef r, ir_IfName r)"]
  by (simp add: rl_inv_def ip_unique_def owner_unique_def reservations_valid_def list_all_iff)

lemma DeallocateIP_match:
  assumes "\<exists>r\<in>set rl. ir_ContainerID r = c \<and> ir_IfName r = i"
  shows "\<exists>xs r ys. rl = xs @ r # ys \<and> ir_ContainerID r = c \<and> ir_IfName r = i
    \<and> (\<forall>x\<in>set xs. \<not> (ir_ContainerID x = c \<and> ir_IfName x = i))
    \<and> snd (DeallocateIP rl c i) = ir_IP r \<and> mset (fst (DeallocateIP rl c i)) = mset (xs @ ys)"
proof -
  have nn: "\<not> getMatchingIPReservationIndex rl c i < 0" using assms getMatching_neg by blast
  then obtain xs r ys where x: "rl = xs @ r # ys" "nat (getMatchingIPReservationIndex rl c i) = length xs"
      "ir_ContainerID r = c" "ir_IfName r = i" "\<forall>x\<in>set xs. \<not> (ir_ContainerID x = c \<and> ir_IfName x = i)"
    using getMatching_split [OF nn] by blast
  then have "DeallocateIP rl c i = (removeIdxFromSlice (xs @ r # ys) (length xs), ir_IP r)"
    using nn by (simp add: DeallocateIP_def Let_def)
  then show ?thesis
    using x removeIdxFromSlice_mset [of xs r ys] by (intro exI [of _ xs] exI [of _ r] exI [of _ ys]) simp
qed

text \<open>
  C16: \<^verbatim>\<open>DeallocateIP\<close> removes exactly the first reservation of the container's interface and
  returns its address, whatever its position; with no such reservation it changes nothing
  and returns nil. No other reservation is lost, and the invariant is kept.
\<close>

theorem DeallocateIP_correct:
  "(if \<exists>r\<in>set rl. ir_ContainerID r = containerID \<and> ir_IfName r = ifName
    then \<exists>xs r ys. rl = xs @ r # ys \<and> ir_ContainerID r = containerID \<and> ir_IfName r = ifName
           \<and> (\<forall>x\<in>set xs. \<not> (ir_ContainerID x = containerID \<and> ir_IfName x = ifName))
           \<and> snd (DeallocateIP rl containerID ifName) = ir_IP r
           \<and> mset (fst (DeallocateIP rl containerID ifName)) = mset (xs @ ys)
    else DeallocateIP rl containerID ifName = (rl, []))
   \<and> (rl_inv rl \<longrightarrow> rl_inv (fst (DeallocateIP rl containerID ifName)))"
  (is "?A \<and> ?B")
proof -
  have A: "?A"
  proof (cases "\<exists>r\<in>set rl. ir_ContainerID r = containerID \<and> ir_IfName r = ifName")
    case True
    then show ?thesis using DeallocateIP_match [OF True] by (simp only: if_True)
  next
    case False
    then have "getMatchingIPReservationIndex rl containerID ifName < 0" using getMatching_neg by blast
    then show ?thesis using False by (simp only: if_False DeallocateIP_def Let_def if_True)
  qed
  have "?B"
  proof (cases "\<exists>r\<in>set rl. ir_ContainerID r = containerID \<and> ir_IfName r = ifName")
    case True
    then obtain xs r ys where x: "rl = xs @ r # ys" "mset (fst (DeallocateIP rl containerID ifName)) = mset (xs @ ys)"
      using A by auto
    have "rl_inv rl \<longrightarrow> rl_inv (xs @ ys)"
      unfolding x(1) by (auto simp: rl_inv_def ip_unique_def owner_unique_def reservations_valid_def)
    then show ?thesis using rl_inv_mset [OF x(2)] by simp
  qed (use A in simp)
  then show ?thesis using A by simp
qed

theorem DeallocateIP_correct_witness:
  "fst (DeallocateIP (rl_ex @ [new_reservation [10, 0, 0, 6] ''c1'' ''ns/p1'' ''eth0'']) ''c0'' ''eth0'')
     = [new_reservation [10, 0, 0, 6] ''c1'' ''ns/p1'' ''eth0'']
   \<and> rl_inv [new_reservation [10, 0, 0, 6] ''c1'' ''ns/p1'' ''eth0'']"
proof -
  let ?rl = "rl_ex @ [new_reservation [10, 0, 0, 6] ''c1'' ''ns/p1'' ''eth0'']"
  have "rl_inv ?rl" by code_simp
  moreover have "fst (DeallocateIP ?rl ''c0'' ''eth0'') = [new_reservation [10, 0, 0, 6] ''c1'' ''ns/p1'' ''eth0'']"
    by code_simp
  ultimately show ?thesis using DeallocateIP_correct [of ?rl "''c0''" "''eth0''"] by simp
qed

text \<open>
  Releasing what was just assigned restores the reservations: \<^verbatim>\<open>DeallocateIP\<close> after a new
  \<^verbatim>\<open>AssignIP\<close> returns the assigned address and the old reservations (in some order).
\<close>

theorem AssignIP_DeallocateIP_roundtrip:
  assumes "AssignIP conf rl containerID podRef ifName = Some (Inr (ipn, rl'))"
    and "\<not> (\<exists>r\<in>set rl. ir_PodRef r = podRef \<and> ir_IfName r = ifName)"
    and "\<not> (\<exists>r\<in>set rl. ir_ContainerID r = containerID \<and> ir_IfName r = ifName)"
  shows "snd (DeallocateIP rl' containerID ifName) = net_IP ipn
    \<and> mset (fst (DeallocateIP rl' containerID ifName)) = mset rl"
proof -
  have "existing_loop containerID podRef ifName rl = None" using assms(2) existing_loop_None by blast
  then have rl': "rl' = rl @ [new_reservation (net_IP ipn) containerID podRef ifName]"
    using assms(1)
    by (auto simp: AssignIP_def IterateForAssignment_def pickForAssignment_def Let_def
        split: sum.splits if_splits option.splits prod.splits)
  obtain xs r ys where x: "rl' = xs @ r # ys" "ir_ContainerID r = containerID" "ir_IfName r = ifName"
      "snd (DeallocateIP rl' containerID ifName) = ir_IP r"
      "mset (fst (DeallocateIP rl' containerID ifName)) = mset (xs @ ys)"
    using DeallocateIP_match [of rl' containerID ifName] rl' by auto
  have "ys = []" using x(1-3) rl' assms(3) by (cases ys rule: rev_cases) auto
  then have "r = new_reservation (net_IP ipn) containerID podRef ifName" "xs = rl" using x(1) rl' by simp_all
  then show ?thesis using x(4,5) \<open>ys = []\<close> by simp
qed

theorem AssignIP_DeallocateIP_roundtrip_witness:
  "mset (fst (DeallocateIP (rl_ex @ [new_reservation [10, 0, 0, 6] ''c1'' ''ns/p1'' ''eth0'']) ''c1'' ''eth0''))
     = mset rl_ex"
proof -
  have "\<not> (\<exists>r\<in>set rl_ex. ir_ContainerID r = ''c1'' \<and> ir_IfName r = ''eth0'')"
    by (simp add: rl_ex_def)
  then show ?thesis using AssignIP_DeallocateIP_roundtrip [OF run_ex rl_ex_other] by simp
qed

section \<open>Excludes inside the IPv4-mapped block\<close>

text \<open>
  An exclude written as a range of the IPv4-mapped block (\<^verbatim>\<open>::ffff:a.b.c.d/n\<close>, \<^verbatim>\<open>n\<close> at
  least 96) contains the IPv4 addresses it names, and the candidate list honours it, but the
  scan does not: \<^verbatim>\<open>SubnetBroadcastIP\<close> gives nil for it, which \<^verbatim>\<open>IterateForAssignment\<close> reads
  as "not excluded".
\<close>

theorem mapped_exclude_not_skipped:
  assumes "a \<noteq> AddrZero" "n \<le> BitLen a" "\<not> plain_cidr a n" "Contains (cidr_net a n) ip"
  shows "ipExcluded ip [cidr_net a n] \<and> skipExcludedSubnets ip [cidr_net a n] = []"
  using assms SubnetBroadcastIP_mapped(1) [OF assms(1-3)] by (simp add: ipExcluded_def)

theorem mapped_exclude_not_skipped_witness:
  "Contains (cidr_net (Addr6 0xffff0a000000) 120) [10, 0, 0, 1]
   \<and> skipExcludedSubnets [10, 0, 0, 1] [cidr_net (Addr6 0xffff0a000000) 120] = []"
proof -
  have "\<not> plain_cidr (Addr6 0xffff0a000000) 120" "Contains (cidr_net (Addr6 0xffff0a000000) 120) [10, 0, 0, 1]"
    by code_simp+
  then show ?thesis using mapped_exclude_not_skipped [of "Addr6 0xffff0a000000" 120] by simp
qed


section \<open>Success\<close>

lemma exists_free:
  assumes "good_net N" "Contains N f" "Contains N l" "ip_addr f \<le> ip_addr l"
    "length rl < card {x. ip_addr f \<le> x \<and> x \<le> ip_addr l \<and> (\<forall>e\<in>set ex. \<not> Contains e (AsSlice x))}"
  shows "\<exists>ip. free_ip N f l rl ex ip"
proof -
  obtain a n where N: "good_cidr a n" "N = cidr_net a n" using good_netD [OF assms(1)] by blast
  let ?I = "{x. ip_addr f \<le> x \<and> x \<le> ip_addr l \<and> (\<forall>e\<in>set ex. \<not> Contains e (AsSlice x))}" and ?R = "set (map (\<lambda>r. ip_addr (ir_IP r)) rl)"
  have "card ?R \<le> length rl" using card_length [of "map (\<lambda>r. ip_addr (ir_IP r)) rl"] by simp
  then have "\<not> ?I \<subseteq> ?R" using card_mono [of ?R ?I] assms(5) by auto
  then obtain x where x: "ip_addr f \<le> x" "x \<le> ip_addr l" "\<forall>e\<in>set ex. \<not> Contains e (AsSlice x)" "x \<notin> ?R" by auto
  have b: "addr_mask n a \<le> x" "x \<le> addr_last n a"
    using assms(2,3) x(1,2) Contains_plain_interval [OF good_plain [OF N(1)]] N(2) by auto
  then have "ip_addr (AsSlice x) = x" using good_interval_Unmap [OF N(1)] by (simp add: ip_addr_AsSlice)
  moreover have "Contains N (AsSlice x)"
    using calculation b Contains_plain_interval [OF good_plain [OF N(1)]] N(2) by simp
  ultimately show ?thesis using x by (intro exI [of _ "AsSlice x"]) (auto simp: free_ip_def)
qed

lemma pick_loop_finds:
  assumes "p \<in> set picks" "free_ip N f l rl ex p" "reservations_valid rl" "valid_ip f" "valid_ip l" "list_all valid_ip picks"
  shows "\<exists>c. pick_loop N f l (makeReservedMap rl) ex picks = Inr c"
  using assms(1,6)
proof (induction picks)
  case (Cons x picks)
  have v: "valid_ip x" "list_all valid_ip picks" using Cons.prems by simp_all
  show ?case
  proof (cases "x = p")
    case True
    then show ?thesis
      using assms(2,4,5) v reserved_iff [OF assms(3) v(1)]
      by (auto simp: free_ip_def IsIPInRange_valid valid_not_Nil ipExcluded_def list_ex_iff)
  next
    case False
    then show ?thesis using Cons.IH Cons.prems v assms(4,5) by (auto simp: IsIPInRange_valid)
  qed
qed simp

lemma AssignIP_enough:
  assumes "ParseCIDR (rc_Range conf) = Inr (i, N)" "good_net N" "rc_OmitRanges conf = []"
    and "addresses_valid conf" "reservations_valid rl" "rc_PreferredIP conf = []" "rc_PickAddresses conf = []"
    and "\<not> (\<exists>r\<in>set rl. ir_PodRef r = podRef \<and> ir_IfName r = ifName)"
    and "effectiveIPRange N (rc_RangeStart conf) (rc_RangeEnd conf) (rc_L3 conf) = Inr (f, l)"
    and "length rl < card {x. ip_addr f \<le> x \<and> x \<le> ip_addr l}"
  shows "\<exists>ip. AssignIP conf rl containerID podRef ifName
      = Some (Inr (\<lparr>net_IP = ip, net_Mask = net_Mask N\<rparr>, rl @ [new_reservation ip containerID podRef ifName]))
    \<and> free_ip N f l rl [] ip"
proof -
  have v: "nil_or_valid (rc_RangeStart conf)" "nil_or_valid (rc_RangeEnd conf)"
    using assms(4) by (auto simp: addresses_valid_def)
  have fl: "valid_ip l" "Contains N f" "Contains N l" "ip_addr f \<le> ip_addr l"
    using effectiveIPRange_good [OF assms(2) v, of "rc_L3 conf"] assms(9) by auto
  have ex: "existing_loop containerID podRef ifName rl = None" using assms(8) existing_loop_None by blast
  have np: "\<not> preferred_available conf N rl" using assms(6) by (simp add: preferred_available_def)
  have em: "parseExcludedRanges (rc_OmitRanges conf) = Inr []" using assms(3) by simp
  note unf = AssignIP_def assms(1,6,7,9) em ex np IterateForAssignment_def Let_def
  show ?thesis
    using iterate_loop_least [OF assms(2) _ assms(5) fl(1,2), of "[]"] exists_free [where ex = "[]", OF assms(2) fl(2-4)] assms(10)
    by (cases "iterate_loop N l (makeReservedMap rl) [] f") (auto simp: unf split: option.splits)
qed

text \<open>
  C15: an address is assigned whenever there is one to assign: without a candidate list whenever
  there are fewer reservations than addresses in the effective range that no exclude range
  contains, with a candidate list whenever one of the candidates is free. A pod that already has a
  reservation and a preferred address only add to this.
\<close>

theorem AssignIP_succeeds:
  assumes "ParseCIDR (rc_Range conf) = Inr (i, N)" "good_net N"
    and "parseExcludedRanges (rc_OmitRanges conf) = Inr ex" "list_all good_net ex"
    and "addresses_valid conf" "reservations_valid rl"
    and "effectiveIPRange N (rc_RangeStart conf) (rc_RangeEnd conf) (rc_L3 conf) = Inr (f, l)"
    and "if rc_PickAddresses conf = []
         then length rl < card {x. ip_addr f \<le> x \<and> x \<le> ip_addr l \<and> (\<forall>e\<in>set ex. \<not> Contains e (AsSlice x))}
         else \<exists>p\<in>set (rc_PickAddresses conf). free_ip N f l rl ex p"
  shows "\<exists>ipn rl'. AssignIP conf rl containerID podRef ifName = Some (Inr (ipn, rl'))"
proof -
  have v: "nil_or_valid (rc_RangeStart conf)" "nil_or_valid (rc_RangeEnd conf)" "list_all valid_ip (rc_PickAddresses conf)"
    using assms(5) by (auto simp: addresses_valid_def)
  have fl: "valid_ip f" "valid_ip l" "Contains N f" "Contains N l" "ip_addr f \<le> ip_addr l"
    using effectiveIPRange_good [OF assms(2) v(1,2), of "rc_L3 conf"] assms(7) by auto
  note unf = AssignIP_def assms(1,3,7) IterateForAssignment_def pickForAssignment_def Let_def
  show ?thesis
  proof (cases "existing_loop containerID podRef ifName rl = None \<and> \<not> preferred_available conf N rl")
    case False
    then show ?thesis by (auto simp: unf split: option.splits)
  next
    case new: True
    show ?thesis
    proof (cases "rc_PickAddresses conf = []")
      case True
      then have "\<exists>ip. free_ip N f l rl ex ip" using exists_free [OF assms(2) fl(3-5)] assms(8) by simp
      then show ?thesis
        using iterate_loop_least [OF assms(2,4,6) fl(2,3)] new True
        by (cases "iterate_loop N l (makeReservedMap rl) ex f") (auto simp: unf split: option.splits)
    next
      case False
      then obtain p where p: "p \<in> set (rc_PickAddresses conf)" "free_ip N f l rl ex p" using assms(8) by auto
      obtain c where "pick_loop N f l (makeReservedMap rl) ex (rc_PickAddresses conf) = Inr c"
        using pick_loop_finds [OF p assms(6) fl(1,2) v(3)] by blast
      then show ?thesis using new False by (auto simp: unf split: option.splits)
    qed
  qed
qed

theorem AssignIP_succeeds_witness:
  "\<exists>ipn rl'. AssignIP conf_ex rl_ex ''c1'' ''ns/p1'' ''eth0'' = Some (Inr (ipn, rl'))"
proof -
  let ?I = "{x. ip_addr [10, 0, 0, 1] \<le> x \<and> x \<le> ip_addr [10, 0, 0, 14]}"
  have f: "BitLen (ip_addr [10, 0, 0, 1]) = BitLen (ip_addr [10, 0, 0, 14])" "ip_addr [10, 0, 0, 1] \<le> ip_addr [10, 0, 0, 14]"
    "int (addr_nat (ip_addr [10, 0, 0, 14])) - int (addr_nat (ip_addr [10, 0, 0, 1])) + 1 = 14" by code_simp+
  have "int (card ?I) = 14" unfolding card_addr_interval [OF f(1,2)] by (rule f(3))
  then have fin: "finite ?I" by (intro card_ge_0_finite) simp
  let ?F = "{x. ip_addr [10, 0, 0, 1] \<le> x \<and> x \<le> ip_addr [10, 0, 0, 14] \<and> (\<forall>e\<in>set ex_ex. \<not> Contains e (AsSlice x))}"
  have in_F: "Addr4 0x0a000006 \<in> ?F" "Addr4 0x0a000007 \<in> ?F" unfolding mem_Collect_eq by code_simp+
  have "finite ?F" by (rule finite_subset [OF _ fin]) auto
  then have "card {Addr4 0x0a000006, Addr4 0x0a000007} \<le> card ?F" using in_F by (intro card_mono) auto
  then have l: "length rl_ex < card ?F" by (simp add: rl_ex_def)
  show ?thesis
    by (rule AssignIP_succeeds [OF conf_ex_facts(1-7)]) (use l in \<open>simp add: conf_ex_def\<close>)
qed

end
