(* ===== verification/Pool.thy ===== *)
theory Pool
  imports Kube Allocate
begin

text \<open>
  \<^verbatim>\<open>pkg/storage/kubernetes/ipam.go\<close>, first part: names of pools and reservations, the pool as a
  map from offsets to allocations, its optimistic update by JSON patch, the store of
  cluster-wide reservations, and the node's slice of a range.
\<close>

section \<open>Definitions\<close>

definition UnnamedNetwork :: string where
  "UnnamedNetwork = []"

definition retryInitialBackoff :: int where
  "retryInitialBackoff = 5000000"

definition retryMaxBackoff :: int where
  "retryMaxBackoff = 1000000000"

definition retryBackoff :: "('w, 'x) kube_scheme \<Rightarrow> int \<Rightarrow> 'w \<Rightarrow> 'w" where
  "retryBackoff k d w =
     (let half0 = d div 2; half = (if half0 \<le> 0 then 1 else half0);
          (n, w) = k_Rand k half w;
          jittered = half + n
      in k_Sleep k jittered w)"

record KubernetesIPAM =
  ki_Config :: IPAMConfig
  ki_Namespace :: string
  ki_ContainerID :: string
  ki_IfName :: string

definition newKubernetesIPAM :: "string \<Rightarrow> string \<Rightarrow> IPAMConfig \<Rightarrow> string \<Rightarrow> KubernetesIPAM" where
  "newKubernetesIPAM containerID ifName ipamConf namespace =
     \<lparr> ki_Config = ipamConf, ki_Namespace = namespace, ki_ContainerID = containerID, ki_IfName = ifName \<rparr>"

record PoolIdentifier =
  pi_IPRange :: string
  pi_NetworkName :: string
  pi_NodeName :: string

definition normalizeRange :: "string \<Rightarrow> string" where
  "normalizeRange ipRange = NormalizeRangeForResourceName ipRange"

definition IPPoolName :: "PoolIdentifier \<Rightarrow> string" where
  "IPPoolName pid =
     (if pi_NodeName pid \<noteq> []
      then if pi_NetworkName pid = UnnamedNetwork
           then pi_NodeName pid @ ''-'' @ normalizeRange (pi_IPRange pid)
           else pi_NetworkName pid @ ''-'' @ pi_NodeName pid @ ''-'' @ normalizeRange (pi_IPRange pid)
      else if pi_NetworkName pid = UnnamedNetwork then normalizeRange (pi_IPRange pid)
      else pi_NetworkName pid @ ''-'' @ normalizeRange (pi_IPRange pid))"

subsection \<open>Pools\<close>

record KubernetesIPPool =
  kp_firstIP :: IP
  kp_pool :: IPPool

definition getExistingPool ::
  "('w, 'x) kube_scheme \<Rightarrow> KubernetesIPAM \<Rightarrow> string \<Rightarrow> 'w \<Rightarrow> IPPool result \<times> 'w" where
  "getExistingPool k i name w = (case k_GetIPPool k (ki_Namespace i) name w of
     (Inl e, w) \<Rightarrow> (Inl (Wrap ''k8s get error'' e), w)
   | (Inr pool, w) \<Rightarrow> (Inr pool, w))"

definition ErrPoolInitialized :: err where
  "ErrPoolInitialized = Msg ''k8s pool initialized''"

definition new_pool :: "string \<Rightarrow> string \<Rightarrow> IPPool" where
  "new_pool name iprange =
     \<lparr> ip_Meta = empty_meta\<lparr>om_Name := name\<rparr>,
       ip_Spec = \<lparr> ps_Range = iprange, ps_Allocations = [], ps_EnableL3 = False \<rparr>,
       ip_Status = empty_pool_status \<rparr>"

definition getPool ::
  "('w, 'x) kube_scheme \<Rightarrow> KubernetesIPAM \<Rightarrow> string \<Rightarrow> string \<Rightarrow> 'w \<Rightarrow> IPPool result \<times> 'w" where
  "getPool k i name iprange w = (case k_GetIPPool k (ki_Namespace i) name w of
     (Inr pool, w) \<Rightarrow> (Inr pool, w)
   | (Inl e, w) \<Rightarrow>
       if IsNotFound e
       then (case k_CreateIPPool k (ki_Namespace i) (new_pool name iprange) w of
               (Inl e, w) \<Rightarrow>
                 if IsAlreadyExists e then (Inl (TemporaryError e), w)
                 else (Inl (Wrap ''k8s create error'' e), w)
             | (Inr _, w) \<Rightarrow> (Inl (TemporaryError ErrPoolInitialized), w))
       else (Inl (Wrap ''k8s get error'' e), w))"

definition with_firstIP :: "IPPool result \<times> 'w \<Rightarrow> KubernetesIPPool result \<times> 'w" where
  "with_firstIP r = (case r of
     (Inl e, w) \<Rightarrow> (Inl e, w)
   | (Inr pool, w) \<Rightarrow> (case IPPool_ParseCIDR pool of
       Inl e \<Rightarrow> (Inl e, w)
     | Inr (firstIP, _) \<Rightarrow> (Inr \<lparr> kp_firstIP = firstIP, kp_pool = pool \<rparr>, w)))"

definition GetIPPool ::
  "('w, 'x) kube_scheme \<Rightarrow> KubernetesIPAM \<Rightarrow> PoolIdentifier \<Rightarrow> 'w \<Rightarrow> KubernetesIPPool result \<times> 'w" where
  "GetIPPool k i pid w = with_firstIP (getPool k i (IPPoolName pid) (pi_IPRange pid) w)"

definition GetExistingIPPool ::
  "('w, 'x) kube_scheme \<Rightarrow> KubernetesIPAM \<Rightarrow> PoolIdentifier \<Rightarrow> 'w \<Rightarrow> KubernetesIPPool result \<times> 'w" where
  "GetExistingIPPool k i pid w = with_firstIP (getExistingPool k i (IPPoolName pid) w)"

fun toIPReservationList :: "allocations \<Rightarrow> IP \<Rightarrow> IPReservation list" where
  "toIPReservationList [] firstip = []"
| "toIPReservationList ((offset, a) # rest) firstip = (case big_SetString offset of
     None \<Rightarrow> toIPReservationList rest firstip
   | Some numOffset \<Rightarrow>
       if numOffset < 0 then toIPReservationList rest firstip
       else \<lparr> ir_IP = IPAddOffset firstip numOffset, ir_ContainerID = ia_ContainerID a,
              ir_PodRef = ia_PodRef a, ir_IfName = ia_IfName a, ir_IsAllocated = False \<rparr>
            # toIPReservationList rest firstip)"

text \<open>Assignment to a key of a Go map: replaces the entry or adds one.\<close>

fun map_put :: "'k \<Rightarrow> 'v \<Rightarrow> ('k \<times> 'v) list \<Rightarrow> ('k \<times> 'v) list" where
  "map_put k v [] = [(k, v)]"
| "map_put k v ((k', v') # m) = (if k' = k then (k, v) # m else (k', v') # map_put k v m)"

fun toAllocationMap_loop :: "IPReservation list \<Rightarrow> IP \<Rightarrow> allocations \<Rightarrow> allocations result" where
  "toAllocationMap_loop [] firstip m = Inr m"
| "toAllocationMap_loop (r # rs) firstip m = (case IPGetOffset (ir_IP r) firstip of
     Inl e \<Rightarrow> Inl e
   | Inr index \<Rightarrow> toAllocationMap_loop rs firstip
       (map_put (dec (nat index))
          \<lparr> ia_ContainerID = ir_ContainerID r, ia_PodRef = ir_PodRef r, ia_IfName = ir_IfName r \<rparr> m))"

definition toAllocationMap :: "IPReservation list \<Rightarrow> IP \<Rightarrow> allocations result" where
  "toAllocationMap reservelist firstip = toAllocationMap_loop reservelist firstip []"

definition Allocations :: "KubernetesIPPool \<Rightarrow> IPReservation list" where
  "Allocations p = toIPReservationList (ps_Allocations (ip_Spec (kp_pool p))) (kp_firstIP p)"

text \<open>
  \<^verbatim>\<open>jsonpatch.CreatePatch\<close> on two pools that differ in their allocations only. An allocation is
  the JSON object of its fields; \<^verbatim>\<open>ifname\<close> is left out when empty.
\<close>

definition alloc_fields :: "IPAllocation \<Rightarrow> (string \<times> string) list" where
  "alloc_fields a = [(''id'', ia_ContainerID a), (''podref'', ia_PodRef a)]
     @ (if ia_IfName a = [] then [] else [(''ifname'', ia_IfName a)])"

definition diff_fields :: "(string \<times> string) list \<Rightarrow> (string \<times> string) list \<Rightarrow> string list \<Rightarrow> Operation list" where
  "diff_fields a b path =
     concat (map (\<lambda>(key, bv). case map_of a key of
         None \<Rightarrow> [NewOperation ''add'' (path @ [key]) (PStr bv)]
       | Some av \<Rightarrow> if av = bv then [] else [NewOperation ''replace'' (path @ [key]) (PStr bv)]) b)
     @ concat (map (\<lambda>(key, _). case map_of b key of
         None \<Rightarrow> [NewOperation ''remove'' (path @ [key]) PNull] | Some _ \<Rightarrow> []) a)"

definition alloc_path :: "string \<Rightarrow> string list" where
  "alloc_path key = [''spec'', ''allocations'', key]"

definition diff_allocs :: "allocations \<Rightarrow> allocations \<Rightarrow> Operation list" where
  "diff_allocs a b =
     concat (map (\<lambda>(key, bv). case map_of a key of
         None \<Rightarrow> [NewOperation ''add'' (alloc_path key) (PAlloc bv)]
       | Some av \<Rightarrow> diff_fields (alloc_fields av) (alloc_fields bv) (alloc_path key)) b)
     @ concat (map (\<lambda>(key, _). case map_of b key of
         None \<Rightarrow> [NewOperation ''remove'' (alloc_path key) PNull] | Some _ \<Rightarrow> []) a)"

definition update_patch :: "IPPool \<Rightarrow> allocations \<Rightarrow> Operation list" where
  "update_patch orig allocs =
     (let patch = diff_allocs (ps_Allocations (ip_Spec orig)) allocs
      in NewOperation ''test'' [''metadata'', ''resourceVersion''] (PStr (om_ResourceVersion (ip_Meta orig)))
         # map (\<lambda>o'. NewOperation ''test'' (op_Path o') PNull) (filter (\<lambda>o'. op_Operation o' = ''add'') patch)
         @ patch)"

text \<open>\<^verbatim>\<open>Update\<close> changes the pool in memory before it sends the patch, whatever becomes of it.\<close>

definition Update ::
  "('w, 'x) kube_scheme \<Rightarrow> KubernetesIPPool \<Rightarrow> IPReservation list \<Rightarrow> 'w
   \<Rightarrow> err option \<times> KubernetesIPPool \<times> 'w" where
  "Update k p reservations w = (case toAllocationMap reservations (kp_firstIP p) of
     Inl e \<Rightarrow> (Some e, p, w)
   | Inr allocs \<Rightarrow>
       let orig = kp_pool p;
           p' = p\<lparr>kp_pool := orig\<lparr>ip_Spec := (ip_Spec orig)\<lparr>ps_Allocations := allocs\<rparr>\<rparr>\<rparr>;
           (r, w) = k_PatchIPPool k (om_Namespace (ip_Meta orig)) (om_Name (ip_Meta orig))
                      (update_patch orig allocs) w
       in (case r of
             Inl e \<Rightarrow> (Some (if IsInvalid e then TemporaryError e
                             else if IsConflict e then TemporaryError e else e), p', w)
           | Inr _ \<Rightarrow> (None, p', w)))"

subsection \<open>Cluster-wide reservations\<close>

definition hex4 :: "nat \<Rightarrow> string" where
  "hex4 n = replicate (4 - length (hex n)) (CHR ''0'') @ hex n"

definition dashed :: "IP \<Rightarrow> string" where
  "dashed ip = trim_by (\<lambda>c. c = CHR ''-'')
     (replace_byte (CHR ''.'') (CHR ''-'') (replace_byte (CHR '':'') (CHR ''-'') (IP_String ip)))"

definition NormalizeIP :: "IP \<Rightarrow> string \<Rightarrow> string" where
  "NormalizeIP ip networkName =
     (let normalizedIP =
        (if To4 ip \<noteq> [] then IP_String (To4 ip)
         else if To16 ip \<noteq> [] then join (CHR ''-'') (map hex4 (byte_groups (To16 ip)))
         else dashed ip)
      in if networkName \<noteq> UnnamedNetwork then networkName @ ''-'' @ normalizedIP else normalizedIP)"

definition LegacyNormalizeIP :: "IP \<Rightarrow> string \<Rightarrow> string" where
  "LegacyNormalizeIP ip networkName =
     (let raw = dashed ip
      in if networkName \<noteq> UnnamedNetwork then networkName @ ''-'' @ raw else raw)"

definition GetOverlappingRangeIPReservation ::
  "('w, 'x) kube_scheme \<Rightarrow> string \<Rightarrow> IP \<Rightarrow> string \<Rightarrow> 'w
   \<Rightarrow> OverlappingRangeIPReservation option result \<times> 'w" where
  "GetOverlappingRangeIPReservation k namespace ip networkName w =
     (let normalizedIP = NormalizeIP ip networkName
      in case k_GetORIP k namespace normalizedIP w of
           (Inr r, w) \<Rightarrow> (Inr (Some r), w)
         | (Inl e, w) \<Rightarrow>
             if IsNotFound e
             then let legacyName = LegacyNormalizeIP ip networkName
                  in if legacyName \<noteq> normalizedIP
                     then (case k_GetORIP k namespace legacyName w of
                             (Inr r, w) \<Rightarrow> (Inr (Some r), w)
                           | (Inl e, w) \<Rightarrow>
                               if IsNotFound e then (Inr None, w)
                               else (Inl (Wrap ''k8s get OverlappingRangeIPReservation error'' e), w))
                     else (Inr None, w)
             else (Inl (Wrap ''k8s get OverlappingRangeIPReservation error'' e), w))"

definition new_orip :: "string \<Rightarrow> string \<Rightarrow> string \<Rightarrow> string \<Rightarrow> string \<Rightarrow> OverlappingRangeIPReservation" where
  "new_orip name namespace podRef ifName podUID =
     \<lparr> ov_Meta = empty_meta\<lparr>om_Name := name, om_Namespace := namespace\<rparr>,
       ov_Spec = \<lparr> os_ContainerID = [], os_PodRef = podRef, os_IfName = ifName, os_PodUID = podUID \<rparr>,
       ov_Conditions = [] \<rparr>"

text \<open>
  The guard before a delete: \<open>Inl (Some e)\<close> to fail, \<open>Inl None\<close> to leave the object alone because
  it belongs to another lifecycle of the pod, \<open>Inr ()\<close> to go on.
\<close>

definition uid_guard ::
  "('w, 'x) kube_scheme \<Rightarrow> string \<Rightarrow> string \<Rightarrow> string \<Rightarrow> string \<Rightarrow> 'w \<Rightarrow> (err option + unit) \<times> 'w" where
  "uid_guard k namespace name podUID msg w =
     (if podUID = [] then (Inr (), w)
      else case k_GetORIP k namespace name w of
             (Inl e, w) \<Rightarrow> if IsNotFound e then (Inr (), w) else (Inl (Some (Wrap msg e)), w)
           | (Inr existing, w) \<Rightarrow>
               if os_PodUID (ov_Spec existing) \<noteq> [] \<and> os_PodUID (ov_Spec existing) \<noteq> podUID
               then (Inl None, w) else (Inr (), w))"

definition delete_legacy ::
  "('w, 'x) kube_scheme \<Rightarrow> string \<Rightarrow> IP \<Rightarrow> string \<Rightarrow> string \<Rightarrow> 'w \<Rightarrow> err option \<times> 'w" where
  "delete_legacy k namespace ip networkName podUID w =
     (let legacyName = LegacyNormalizeIP ip networkName
      in if legacyName \<noteq> NormalizeIP ip networkName
         then (case uid_guard k namespace legacyName podUID ''k8s get legacy OverlappingRangeIPReservation error'' w of
                 (Inl r, w) \<Rightarrow> (r, w)
               | (Inr _, w) \<Rightarrow> (case k_DeleteORIP k namespace legacyName None w of
                   (Inl e, w) \<Rightarrow> (if IsNotFound e then None else Some e, w)
                 | (Inr _, w) \<Rightarrow> (None, w)))
         else (None, w))"

definition UpdateOverlappingRangeAllocation ::
  "('w, 'x) kube_scheme \<Rightarrow> string \<Rightarrow> int \<Rightarrow> IP \<Rightarrow> string \<Rightarrow> string \<Rightarrow> string \<Rightarrow> string \<Rightarrow> 'w \<Rightarrow> err option \<times> 'w" where
  "UpdateOverlappingRangeAllocation k namespace mode ip podRef ifName networkName podUID w =
     (let normalizedIP = NormalizeIP ip networkName
      in if mode = Allocate
         then (case k_CreateORIP k namespace (new_orip normalizedIP namespace podRef ifName podUID) w of
                 (Inl e, w) \<Rightarrow>
                   (Some (if IsAlreadyExists e then TemporaryError (Wrap ''ORIP already exists'' e) else e), w)
               | (Inr _, w) \<Rightarrow> (None, w))
         else if mode = Deallocate
         then (case uid_guard k namespace normalizedIP podUID ''k8s get OverlappingRangeIPReservation error'' w of
                 (Inl r, w) \<Rightarrow> (r, w)
               | (Inr _, w) \<Rightarrow> (case k_DeleteORIP k namespace normalizedIP None w of
                   (Inl e, w) \<Rightarrow>
                     if IsNotFound e then delete_legacy k namespace ip networkName podUID w else (Some e, w)
                 | (Inr _, w) \<Rightarrow> (None, w)))
         else (None, w))"

subsection \<open>The node and its slice\<close>

definition getNodeName :: "os_env \<Rightarrow> KubernetesIPAM \<Rightarrow> string result" where
  "getNodeName env ipam =
     (let envName = os_Getenv env ''NODENAME''
      in if envName \<noteq> [] then Inr (TrimSpace envName)
         else let read = (case os_Open env (ic_ConfigurationPath (ki_Config ipam) @ ''/'' @ ''nodename'') of
                            Inr c \<Rightarrow> Inr c
                          | Inl _ \<Rightarrow> os_Open env ''/etc/hostname'')
              in (case read of
                    Inl e \<Rightarrow> Inl e
                  | Inr (Inl e) \<Rightarrow> Inl e
                  | Inr (Inr contents) \<Rightarrow> Inr (TrimSpace (take 1024 contents))))"

definition firstConfiguredRange :: "IPAMConfig \<Rightarrow> string" where
  "firstConfiguredRange config =
     (if ic_Range config \<noteq> [] then ic_Range config
      else case ic_IPRanges config of [] \<Rightarrow> [] | r # _ \<Rightarrow> rc_Range r)"

definition getNodeSliceName :: "KubernetesIPAM \<Rightarrow> string" where
  "getNodeSliceName ipam =
     (if ic_NetworkName (ki_Config ipam) \<noteq> UnnamedNetwork then ic_NetworkName (ki_Config ipam)
      else if firstConfiguredRange (ki_Config ipam) \<noteq> []
      then normalizeRange (firstConfiguredRange (ki_Config ipam))
      else ic_Name (ki_Config ipam))"

definition GetNodeSlicePoolRange ::
  "('w, 'x) kube_scheme \<Rightarrow> KubernetesIPAM \<Rightarrow> string \<Rightarrow> 'w \<Rightarrow> string result \<times> 'w" where
  "GetNodeSlicePoolRange k ipam nodeName w =
     (case k_GetNodeSlicePool k (ki_Namespace ipam) (getNodeSliceName ipam) w of
        (Inl e, w) \<Rightarrow> (Inl e, w)
      | (Inr nodeSlice, w) \<Rightarrow>
          (case find (\<lambda>a. na_NodeName a = nodeName) (nst_Allocations (np_Status nodeSlice)) of
             Some a \<Rightarrow> (Inr (na_SliceRange a), w)
           | None \<Rightarrow> (Inl (Msg ''no allocated node slice for node''), w)))"

definition EffectivePoolIdentifier ::
  "('w, 'x) kube_scheme \<Rightarrow> os_env \<Rightarrow> KubernetesIPAM \<Rightarrow> string \<Rightarrow> 'w \<Rightarrow> PoolIdentifier result \<times> 'w" where
  "EffectivePoolIdentifier k env ipam configuredRange w =
     (let pid = \<lparr> pi_IPRange = configuredRange, pi_NetworkName = ic_NetworkName (ki_Config ipam), pi_NodeName = [] \<rparr>
      in if ic_NodeSliceSize (ki_Config ipam) = [] then (Inr pid, w)
         else case getNodeName env ipam of
                Inl e \<Rightarrow> (Inl e, w)
              | Inr hostname \<Rightarrow> (case GetNodeSlicePoolRange k ipam hostname w of
                  (Inl e, w) \<Rightarrow> (Inl e, w)
                | (Inr nodeSliceRange, w) \<Rightarrow>
                    (Inr (pid\<lparr>pi_NodeName := hostname, pi_IPRange := nodeSliceRange\<rparr>), w)))"


section \<open>Pools and reservation lists\<close>

text \<open>What a reservation says, up to the length of its address in bytes.\<close>

definition res_view :: "IPReservation \<Rightarrow> addr \<times> string \<times> string \<times> string" where
  "res_view r = (ip_addr (ir_IP r), ir_ContainerID r, ir_PodRef r, ir_IfName r)"

definition in_pool :: "IP \<Rightarrow> IP \<Rightarrow> bool" where
  "in_pool firstip ip \<longleftrightarrow> valid_ip ip \<and> BitLen (ip_addr ip) = BitLen (ip_addr firstip) \<and> ip_addr firstip \<le> ip_addr ip"

definition offset_of :: "IP \<Rightarrow> IP \<Rightarrow> nat" where
  "offset_of firstip ip = addr_nat (ip_addr ip) - addr_nat (ip_addr firstip)"

definition alloc_of :: "IPReservation \<Rightarrow> IPAllocation" where
  "alloc_of r = \<lparr> ia_ContainerID = ir_ContainerID r, ia_PodRef = ir_PodRef r, ia_IfName = ir_IfName r \<rparr>"

lemma IPGetOffset_in_pool:
  assumes "valid_ip f" "in_pool f ip"
  shows "IPGetOffset ip f = Inr (int (offset_of f ip))"
  using assms IPGetOffset_same [of ip f] by (auto simp: in_pool_def offset_of_def addr_le_iff of_nat_diff)

lemma map_put_new: "k \<notin> fst ` set m \<Longrightarrow> map_put k v m = m @ [(k, v)]"
  by (induction m) auto

lemma map_of_map_put: "map_of (map_put k v m) = (map_of m)(k \<mapsto> v)"
  by (induction m) auto

lemma map_put_keys: "fst ` set (map_put k v m) = insert k (fst ` set m)"
  using arg_cong [OF map_of_map_put [of k v m], of dom] by (simp add: dom_map_of_conv_image_fst)

lemma distinct_map_put: "distinct (map fst m) \<Longrightarrow> distinct (map fst (map_put k v m))"
  by (induction m) (auto simp: map_put_keys)

lemma offset_of_inject:
  assumes "in_pool f a" "in_pool f b"
  shows "offset_of f a = offset_of f b \<longleftrightarrow> ip_addr a = ip_addr b"
proof -
  have "BitLen (ip_addr a) = BitLen (ip_addr b)" "addr_nat (ip_addr f) \<le> addr_nat (ip_addr a)"
    "addr_nat (ip_addr f) \<le> addr_nat (ip_addr b)"
    using assms unfolding in_pool_def addr_le_iff by linarith+
  then show ?thesis
    using addr_eq_iff [of "ip_addr a" "ip_addr b"] eq_diff_iff by (auto simp: offset_of_def)
qed

lemma toAllocationMap_loop_eq:
  assumes "valid_ip f" "\<forall>r\<in>set rs. in_pool f (ir_IP r)" "distinct (map (\<lambda>r. ip_addr (ir_IP r)) rs)"
    "\<forall>r\<in>set rs. dec (offset_of f (ir_IP r)) \<notin> fst ` set m"
  shows "toAllocationMap_loop rs f m = Inr (m @ map (\<lambda>r. (dec (offset_of f (ir_IP r)), alloc_of r)) rs)"
  using assms(2-4)
proof (induction rs arbitrary: m)
  case (Cons r rs)
  have off: "IPGetOffset (ir_IP r) f = Inr (int (offset_of f (ir_IP r)))"
    using IPGetOffset_in_pool [OF assms(1)] Cons.prems by simp
  let ?m = "m @ [(dec (offset_of f (ir_IP r)), alloc_of r)]"
  have "\<forall>x\<in>set rs. dec (offset_of f (ir_IP x)) \<notin> fst ` set ?m"
    using Cons.prems offset_of_inject [of f] by auto (metis image_eqI)
  then have "toAllocationMap_loop rs f ?m = Inr (?m @ map (\<lambda>r. (dec (offset_of f (ir_IP r)), alloc_of r)) rs)"
    using Cons by simp
  then show ?case using off Cons.prems map_put_new [of "dec (offset_of f (ir_IP r))" m]
    by (simp add: alloc_of_def)
qed simp

lemma IPAddOffset_in_pool:
  assumes "valid_ip f" "in_pool f ip"
  shows "ip_addr (IPAddOffset f (int (offset_of f ip))) = ip_addr ip"
proof -
  have sum: "addr_nat (ip_addr f) + offset_of f ip = addr_nat (ip_addr ip)"
    and bl: "BitLen (ip_addr f) = BitLen (ip_addr ip)"
    using assms(2) by (auto simp: in_pool_def offset_of_def addr_le_iff)
  then have "addr_nat (ip_addr f) + offset_of f ip < 2 ^ BitLen (ip_addr f)"
    using addr_nat_lt [of "ip_addr ip"] by simp
  then have "IPAddOffset f (int (offset_of f ip)) = AsSlice (ip_addr ip)"
    using IPAddOffset_plus [OF assms(1)] addr_plus_eq [OF bl sum] by simp
  then show ?thesis by (simp add: ip_addr_AsSlice)
qed

lemma pool_codec:
  assumes "valid_ip firstip" "\<forall>r\<in>set rl. in_pool firstip (ir_IP r)"
    and "distinct (map (\<lambda>r. ip_addr (ir_IP r)) rl)"
  shows "\<exists>m. toAllocationMap rl firstip = Inr m \<and> distinct (map fst m)
    \<and> map res_view (toIPReservationList m firstip) = map res_view rl"
proof -
  let ?m = "map (\<lambda>r. (dec (offset_of firstip (ir_IP r)), alloc_of r)) rl"
  have enc: "toAllocationMap rl firstip = Inr ?m"
    using toAllocationMap_loop_eq [OF assms, of "[]"] by (simp add: toAllocationMap_def)
  have "distinct (map (\<lambda>r. offset_of firstip (ir_IP r)) rl)"
    using assms(2,3) offset_of_inject [of firstip] by (induction rl) force+
  then have "distinct (map fst ?m)" by (simp add: distinct_map comp_def inj_on_def)
  moreover have "map res_view (toIPReservationList ?m firstip) = map res_view rl"
    using assms(2)
    by (induction rl)
      (simp_all add: res_view_def alloc_of_def IPAddOffset_in_pool [OF assms(1)])
  ultimately show ?thesis using enc by blast
qed

text \<open>
  C28: writing reservations into the pool's offset map and reading them back gives the same
  addresses and owners, in the same number, as long as the addresses are distinct and not
  below the pool's first address. So a pool update loses no reservation and merges no two.
\<close>

theorem pool_codec_roundtrip:
  assumes "valid_ip firstip" "\<forall>r\<in>set rl. in_pool firstip (ir_IP r)"
    and "distinct (map (\<lambda>r. ip_addr (ir_IP r)) rl)"
  shows "\<exists>m. toAllocationMap rl firstip = Inr m \<and> distinct (map fst m)
    \<and> map res_view (toIPReservationList m firstip) = map res_view rl"
  using assms by (rule pool_codec)

theorem pool_codec_roundtrip_witness:
  "toAllocationMap [new_reservation [10, 0, 0, 5] ''c'' ''ns/p'' ''eth0'', new_reservation [10, 0, 0, 9] ''d'' ''ns/q'' ''eth0'']
     [10, 0, 0, 0]
   = Inr [(''5'', alloc_of (new_reservation [10, 0, 0, 5] ''c'' ''ns/p'' ''eth0'')),
          (''9'', alloc_of (new_reservation [10, 0, 0, 9] ''d'' ''ns/q'' ''eth0''))]
   \<and> (\<exists>m. distinct (map fst m) \<and> map res_view (toIPReservationList m [10, 0, 0, 0])
        = [(Addr4 0x0a000005, ''c'', ''ns/p'', ''eth0''), (Addr4 0x0a000009, ''d'', ''ns/q'', ''eth0'')])"
proof -
  let ?rl = "[new_reservation [10, 0, 0, 5] ''c'' ''ns/p'' ''eth0'', new_reservation [10, 0, 0, 9] ''d'' ''ns/q'' ''eth0'']"
  have v: "valid_ip [10, 0, 0, 0]" by (simp add: valid_ip_def)
  have p: "list_all (\<lambda>r. in_pool [10, 0, 0, 0] (ir_IP r)) ?rl" "distinct (map (\<lambda>r. ip_addr (ir_IP r)) ?rl)"
    by code_simp+
  have e: "toAllocationMap ?rl [10, 0, 0, 0] = Inr [(''5'', alloc_of (new_reservation [10, 0, 0, 5] ''c'' ''ns/p'' ''eth0'')),
          (''9'', alloc_of (new_reservation [10, 0, 0, 9] ''d'' ''ns/q'' ''eth0''))]"
    by code_simp
  have "map res_view ?rl = [(Addr4 0x0a000005, ''c'', ''ns/p'', ''eth0''), (Addr4 0x0a000009, ''d'', ''ns/q'', ''eth0'')]"
    by code_simp
  moreover obtain m where "distinct (map fst m)" "map res_view (toIPReservationList m [10, 0, 0, 0]) = map res_view ?rl"
    using pool_codec_roundtrip [OF v _ p(2)] p(1) unfolding list_all_iff by blast
  ultimately show ?thesis using e by (intro conjI exI [of _ m]) simp_all
qed

text \<open>
  The offset is an absolute difference, so two addresses on either side of the first
  address collide: a pool whose range is written with host bits (\<^verbatim>\<open>10.0.0.5/24\<close>), which the
  webhook accepts, keeps only one of two reservations.
\<close>

theorem toAllocationMap_collision:
  "\<exists>firstip N m. ParseCIDR ''10.0.0.5/24'' = Inr (firstip, N)
   \<and> Contains N [10, 0, 0, 3] \<and> Contains N [10, 0, 0, 7]
   \<and> toAllocationMap [new_reservation [10, 0, 0, 3] ''c'' ''ns/p'' ''eth0'', new_reservation [10, 0, 0, 7] ''d'' ''ns/q'' ''eth0''] firstip
     = Inr m \<and> length m = 1"
proof -
  let ?rl = "[new_reservation [10, 0, 0, 3] ''c'' ''ns/p'' ''eth0'', new_reservation [10, 0, 0, 7] ''d'' ''ns/q'' ''eth0'']"
  have "ParseCIDR ''10.0.0.5/24'' = Inr (As16 (Addr4 0x0a000005), cidr_net (Addr4 0x0a000005) 24)"
    "Contains (cidr_net (Addr4 0x0a000005) 24) [10, 0, 0, 3]" "Contains (cidr_net (Addr4 0x0a000005) 24) [10, 0, 0, 7]"
    "toAllocationMap ?rl (As16 (Addr4 0x0a000005)) = Inr [(''2'', alloc_of (new_reservation [10, 0, 0, 7] ''d'' ''ns/q'' ''eth0''))]"
    by code_simp+
  then show ?thesis by (metis length_Cons list.size(3) One_nat_def)
qed

section \<open>The patch of an update\<close>

text \<open>
  JSON patch (RFC 6902) on the part of a pool that an update touches: the resource version and
  the allocations, each an object of string fields. \<^verbatim>\<open>test\<close> with null succeeds on a missing
  member only; any failing operation rejects the patch.
\<close>

type_synonym pool_doc = "string \<times> (string \<Rightarrow> (string \<Rightarrow> string option) option)"

fun field_op :: "(string \<Rightarrow> string option) \<Rightarrow> string \<Rightarrow> string \<Rightarrow> pvalue \<Rightarrow> (string \<Rightarrow> string option) option" where
  "field_op fs op f v =
     (if op = ''test'' then (if v = PNull \<and> fs f = None then Some fs else None)
      else if op = ''add'' then (case v of PStr s \<Rightarrow> Some (fs(f \<mapsto> s)) | _ \<Rightarrow> None)
      else if op = ''replace'' then (case v of PStr s \<Rightarrow> if fs f = None then None else Some (fs(f \<mapsto> s)) | _ \<Rightarrow> None)
      else if op = ''remove'' then (if fs f = None then None else Some (fs(f := None)))
      else None)"

fun entry_op :: "(string \<Rightarrow> (string \<Rightarrow> string option) option) \<Rightarrow> string \<Rightarrow> string \<Rightarrow> pvalue
   \<Rightarrow> (string \<Rightarrow> (string \<Rightarrow> string option) option) option" where
  "entry_op m op key v =
     (if op = ''test'' then (if v = PNull \<and> m key = None then Some m else None)
      else if op = ''add'' then (case v of PAlloc a \<Rightarrow> Some (m(key \<mapsto> map_of (alloc_fields a))) | _ \<Rightarrow> None)
      else if op = ''remove'' then (if m key = None then None else Some (m(key := None)))
      else None)"

fun apply_op :: "pool_doc \<Rightarrow> Operation \<Rightarrow> pool_doc option" where
  "apply_op (rv, m) o' = (case op_Path o' of
     [a, b] \<Rightarrow> if a = ''metadata'' \<and> b = ''resourceVersion'' \<and> op_Operation o' = ''test'' \<and> op_Value o' = PStr rv
               then Some (rv, m) else None
   | [a, b, key] \<Rightarrow> if a = ''spec'' \<and> b = ''allocations''
                    then map_option (\<lambda>m. (rv, m)) (entry_op m (op_Operation o') key (op_Value o')) else None
   | [a, b, key, f] \<Rightarrow> if a = ''spec'' \<and> b = ''allocations''
                       then (case m key of
                               None \<Rightarrow> None
                             | Some fs \<Rightarrow> map_option (\<lambda>fs. (rv, m(key \<mapsto> fs))) (field_op fs (op_Operation o') f (op_Value o')))
                       else None
   | _ \<Rightarrow> None)"

fun apply_ops :: "pool_doc \<Rightarrow> Operation list \<Rightarrow> pool_doc option" where
  "apply_ops d [] = Some d"
| "apply_ops d (o' # os) = (case apply_op d o' of None \<Rightarrow> None | Some d \<Rightarrow> apply_ops d os)"

definition alloc_doc :: "allocations \<Rightarrow> string \<Rightarrow> (string \<Rightarrow> string option) option" where
  "alloc_doc a = (\<lambda>key. map_option (\<lambda>x. map_of (alloc_fields x)) (map_of a key))"

lemma apply_ops_append:
  "apply_ops d (xs @ ys) = (case apply_ops d xs of None \<Rightarrow> None | Some d \<Rightarrow> apply_ops d ys)"
  by (induction xs arbitrary: d) (auto split: option.splits)

lemma apply_entry [simp]:
  "apply_op (rv, m) (NewOperation op (alloc_path key) v) = map_option (\<lambda>m. (rv, m)) (entry_op m op key v)"
  by (simp add: NewOperation_def alloc_path_def)

lemma apply_field [simp]:
  "apply_op (rv, m) (NewOperation op (alloc_path key @ [f]) v) = (case m key of
     None \<Rightarrow> None | Some fs \<Rightarrow> map_option (\<lambda>fs. (rv, m(key \<mapsto> fs))) (field_op fs op f v))"
  by (simp add: NewOperation_def alloc_path_def split: option.splits)

declare apply_op.simps [simp del]

lemma NewOperation_simps [simp]:
  "op_Operation (NewOperation op p v) = op" "op_Path (NewOperation op p v) = p" "op_Value (NewOperation op p v) = v"
  by (simp_all add: NewOperation_def)

lemma NewOperation_eq [simp]: "NewOperation op p v = NewOperation op' p' v' \<longleftrightarrow> op = op' \<and> p = p' \<and> v = v'"
  by (simp add: NewOperation_def)

definition put_field :: "(string \<times> string) list \<Rightarrow> string list \<Rightarrow> string \<times> string \<Rightarrow> Operation list" where
  "put_field a path = (\<lambda>(key, bv). case map_of a key of
     None \<Rightarrow> [NewOperation ''add'' (path @ [key]) (PStr bv)]
   | Some av \<Rightarrow> if av = bv then [] else [NewOperation ''replace'' (path @ [key]) (PStr bv)])"

lemma put_fields:
  assumes "distinct (map fst b)" "\<forall>(f, _)\<in>set b. fs f = map_of a f" "m key = Some fs"
  shows "apply_ops (rv, m) (concat (map (put_field a (alloc_path key)) b)) = Some (rv, m(key \<mapsto> fs ++ map_of b))"
  using assms
proof (induction b arbitrary: fs m)
  case Nil
  then show ?case by (simp add: map_upd_triv)
next
  case (Cons p b)
  obtain f v where p: "p = (f, v)" by (cases p)
  let ?fs = "fs(f \<mapsto> v)"
  have f: "fs f = map_of a f" "f \<notin> fst ` set b" using Cons.prems p by auto
  have step: "apply_ops (rv, m) (put_field a (alloc_path key) p) = Some (rv, m(key \<mapsto> ?fs))"
    using f Cons.prems(3) by (auto simp: p put_field_def map_upd_triv split: option.splits)
  have inv: "\<forall>(g, _)\<in>set b. ?fs g = map_of a g" using Cons.prems(2) f(2) by force
  have d: "distinct (map fst b)" using Cons.prems(1) by simp
  have "apply_ops (rv, m(key \<mapsto> ?fs)) (concat (map (put_field a (alloc_path key)) b))
      = Some (rv, (m(key \<mapsto> ?fs))(key \<mapsto> ?fs ++ map_of b))"
    by (rule Cons.IH [OF d inv fun_upd_same])
  moreover have "?fs ++ map_of b = fs ++ map_of (p # b)"
    using f(2) by (auto simp: p map_add_def fun_eq_iff dom_map_of_conv_image_fst split: option.splits)
      (metis domI dom_map_of_conv_image_fst)+
  ultimately show ?case
    using step by (simp only: list.map concat.simps apply_ops_append option.case fun_upd_upd)
qed

lemma del_fields:
  assumes "distinct (map fst a)" "\<forall>(f, _)\<in>set a. map_of b f = None \<longrightarrow> fs f \<noteq> None" "m key = Some fs"
  shows "apply_ops (rv, m) (concat (map (\<lambda>(f, _). case map_of b f of
      None \<Rightarrow> [NewOperation ''remove'' (alloc_path key @ [f]) PNull] | Some _ \<Rightarrow> []) a))
    = Some (rv, m(key \<mapsto> (\<lambda>f. if f \<in> fst ` set a \<and> map_of b f = None then None else fs f)))"
  using assms
proof (induction a arbitrary: fs m)
  case Nil
  then show ?case by (simp add: map_upd_triv)
next
  case (Cons p a)
  obtain f v where p: "p = (f, v)" by (cases p)
  have f: "f \<notin> fst ` set a" using Cons.prems p by auto
  show ?case
  proof (cases "map_of b f")
    case None
    let ?fs = "fs(f := None)"
    have inv: "\<forall>(g, _)\<in>set a. map_of b g = None \<longrightarrow> ?fs g \<noteq> None" using Cons.prems(2) f by force
    have d: "distinct (map fst a)" using Cons.prems(1) by simp
    have "fs f \<noteq> None" using Cons.prems(2) p None by auto
    moreover have "(\<lambda>g. if g \<in> fst ` set a \<and> map_of b g = None then None else ?fs g)
        = (\<lambda>g. if g \<in> fst ` set (p # a) \<and> map_of b g = None then None else fs g)"
      using None by (auto simp: p)
    moreover have "apply_ops (rv, m(key \<mapsto> ?fs)) (concat (map (\<lambda>(f, _). case map_of b f of
        None \<Rightarrow> [NewOperation ''remove'' (alloc_path key @ [f]) PNull] | Some _ \<Rightarrow> []) a))
      = Some (rv, (m(key \<mapsto> ?fs))(key \<mapsto> (\<lambda>g. if g \<in> fst ` set a \<and> map_of b g = None then None else ?fs g)))"
      by (rule Cons.IH [OF d inv fun_upd_same])
    moreover have "apply_ops (rv, m) (case p of (f, _) \<Rightarrow> (case map_of b f of
        None \<Rightarrow> [NewOperation ''remove'' (alloc_path key @ [f]) PNull] | Some _ \<Rightarrow> []))
      = Some (rv, m(key \<mapsto> ?fs))"
      using Cons.prems(3) None \<open>fs f \<noteq> None\<close> by (auto simp: p)
    ultimately show ?thesis
      by (simp only: list.map concat.simps apply_ops_append option.case fun_upd_upd)
  next
    case (Some x)
    have "(\<lambda>g. if g \<in> fst ` set a \<and> map_of b g = None then None else fs g)
        = (\<lambda>g. if g \<in> fst ` set (p # a) \<and> map_of b g = None then None else fs g)"
      using Some by (intro ext) (auto simp: p)
    moreover have "apply_ops (rv, m) (case p of (f, _) \<Rightarrow> (case map_of b f of
        None \<Rightarrow> [NewOperation ''remove'' (alloc_path key @ [f]) PNull] | Some _ \<Rightarrow> [])) = Some (rv, m)"
      using Some by (simp add: p)
    moreover have "distinct (map fst a)" "\<forall>(f, _)\<in>set a. map_of b f = None \<longrightarrow> fs f \<noteq> None"
      using Cons.prems(1,2) by auto
    ultimately show ?thesis
      using Cons.IH [of fs m] Cons.prems(3) by (simp only: list.map concat.simps apply_ops_append option.case)
  qed
qed

lemma del_map:
  "(\<lambda>f. if f \<in> fst ` set a \<and> map_of b f = None then None else (map_of a ++ map_of b) f) = map_of b"
proof (rule ext)
  fix f
  have "f \<notin> fst ` set a \<Longrightarrow> map_of a f = None" by (simp add: map_of_eq_None_iff)
  then show "(if f \<in> fst ` set a \<and> map_of b f = None then None else (map_of a ++ map_of b) f) = map_of b f"
    by (cases "map_of b f") (auto simp: map_add_def)
qed

lemma diff_fields_apply:
  assumes "distinct (map fst a)" "distinct (map fst b)" "m key = Some (map_of a)"
  shows "apply_ops (rv, m) (diff_fields a b (alloc_path key)) = Some (rv, m(key \<mapsto> map_of b))"
proof -
  have put: "apply_ops (rv, m) (concat (map (put_field a (alloc_path key)) b)) = Some (rv, m(key \<mapsto> map_of a ++ map_of b))"
    using put_fields [of b "map_of a" a m key, OF assms(2) _ assms(3)] by blast
  have some: "\<forall>(f, _)\<in>set a. map_of b f = None \<longrightarrow> (map_of a ++ map_of b) f \<noteq> None"
    by (auto simp: map_add_def dest: weak_map_of_SomeI)
  have "diff_fields a b (alloc_path key) = concat (map (put_field a (alloc_path key)) b)
      @ concat (map (\<lambda>(f, _). case map_of b f of
          None \<Rightarrow> [NewOperation ''remove'' (alloc_path key @ [f]) PNull] | Some _ \<Rightarrow> []) a)"
    by (simp add: diff_fields_def put_field_def)
  then show ?thesis
    using put del_fields [OF assms(1) some, of "m(key \<mapsto> map_of a ++ map_of b)" key rv] del_map [of a b]
    by (simp add: apply_ops_append)
qed

text \<open>The same for the entries of the allocation map.\<close>

definition put_entry :: "allocations \<Rightarrow> string \<times> IPAllocation \<Rightarrow> Operation list" where
  "put_entry a = (\<lambda>(key, bv). case map_of a key of
     None \<Rightarrow> [NewOperation ''add'' (alloc_path key) (PAlloc bv)]
   | Some av \<Rightarrow> diff_fields (alloc_fields av) (alloc_fields bv) (alloc_path key))"

definition del_entry :: "allocations \<Rightarrow> string \<times> IPAllocation \<Rightarrow> Operation list" where
  "del_entry b = (\<lambda>(key, _). case map_of b key of
     None \<Rightarrow> [NewOperation ''remove'' (alloc_path key) PNull] | Some _ \<Rightarrow> [])"

lemma distinct_alloc_fields: "distinct (map fst (alloc_fields a))"
  by (simp add: alloc_fields_def)

lemma put_entry_apply:
  assumes "m key = alloc_doc a key"
  shows "apply_ops (rv, m) (put_entry a (key, v)) = Some (rv, m(key \<mapsto> map_of (alloc_fields v)))"
  using assms diff_fields_apply [OF distinct_alloc_fields distinct_alloc_fields, of m key _ rv v]
  by (auto simp: put_entry_def alloc_doc_def split: option.splits)

lemma put_entries:
  assumes "distinct (map fst b)" "\<forall>(key, _)\<in>set b. m key = alloc_doc a key"
  shows "apply_ops (rv, m) (concat (map (put_entry a) b)) = Some (rv, m ++ alloc_doc b)"
  using assms
proof (induction b arbitrary: m)
  case Nil
  then show ?case by (simp add: alloc_doc_def map_add_def)
next
  case (Cons p b)
  obtain key v where p: "p = (key, v)" by (cases p)
  let ?m = "m(key \<mapsto> map_of (alloc_fields v))"
  have k: "key \<notin> fst ` set b" using Cons.prems p by auto
  then have kb: "map_of b key = None" by (simp add: map_of_eq_None_iff)
  have step: "apply_ops (rv, m) (put_entry a p) = Some (rv, ?m)"
    using put_entry_apply [of m key a] Cons.prems(2) by (simp add: p)
  have inv: "\<forall>(g, _)\<in>set b. ?m g = alloc_doc a g" using Cons.prems(2) k by force
  have d: "distinct (map fst b)" using Cons.prems(1) by simp
  have "apply_ops (rv, ?m) (concat (map (put_entry a) b)) = Some (rv, ?m ++ alloc_doc b)"
    by (rule Cons.IH [OF d inv])
  moreover have "?m ++ alloc_doc b = m ++ alloc_doc (p # b)"
    using kb by (auto simp: p map_add_def alloc_doc_def fun_eq_iff split: option.splits)
  ultimately show ?case
    using step by (simp only: list.map concat.simps apply_ops_append option.case)
qed

lemma del_entries:
  assumes "distinct (map fst a)" "\<forall>(key, _)\<in>set a. map_of b key = None \<longrightarrow> m key \<noteq> None"
  shows "apply_ops (rv, m) (concat (map (del_entry b) a))
    = Some (rv, \<lambda>key. if key \<in> fst ` set a \<and> map_of b key = None then None else m key)"
  using assms
proof (induction a arbitrary: m)
  case (Cons p a)
  obtain key v where p: "p = (key, v)" by (cases p)
  have k: "key \<notin> fst ` set a" using Cons.prems p by auto
  let ?m = "if map_of b key = None then m(key := None) else m"
  have step: "apply_ops (rv, m) (del_entry b p) = Some (rv, ?m)"
    using Cons.prems(2) by (auto simp: p del_entry_def split: option.splits)
  have inv: "\<forall>(g, _)\<in>set a. map_of b g = None \<longrightarrow> ?m g \<noteq> None" using Cons.prems(2) k by force
  have d: "distinct (map fst a)" using Cons.prems(1) by simp
  have "apply_ops (rv, ?m) (concat (map (del_entry b) a))
      = Some (rv, \<lambda>g. if g \<in> fst ` set a \<and> map_of b g = None then None else ?m g)"
    by (rule Cons.IH [OF d inv])
  moreover have "(\<lambda>g. if g \<in> fst ` set a \<and> map_of b g = None then None else ?m g)
      = (\<lambda>g. if g \<in> fst ` set (p # a) \<and> map_of b g = None then None else m g)"
    by (intro ext) (auto simp: p)
  ultimately show ?case
    using step by (simp only: list.map concat.simps apply_ops_append option.case)
qed simp

lemma diff_allocs_apply:
  assumes "distinct (map fst a)" "distinct (map fst b)"
  shows "apply_ops (rv, alloc_doc a) (diff_allocs a b) = Some (rv, alloc_doc b)"
proof -
  have put: "apply_ops (rv, alloc_doc a) (concat (map (put_entry a) b)) = Some (rv, alloc_doc a ++ alloc_doc b)"
    using put_entries [of b "alloc_doc a" a, OF assms(2)] by blast
  have some: "\<forall>(key, _)\<in>set a. map_of b key = None \<longrightarrow> (alloc_doc a ++ alloc_doc b) key \<noteq> None"
    by (auto simp: map_add_def alloc_doc_def dest: weak_map_of_SomeI)
  have "(if key \<in> fst ` set a \<and> map_of b key = None then None else (alloc_doc a ++ alloc_doc b) key)
      = alloc_doc b key" for key
  proof -
    have "key \<notin> fst ` set a \<Longrightarrow> map_of a key = None" by (simp add: map_of_eq_None_iff)
    then show ?thesis by (cases "map_of b key") (auto simp: map_add_def alloc_doc_def)
  qed
  then show ?thesis
    using put del_entries [OF assms(1) some, of rv]
    by (simp add: diff_allocs_def put_entry_def del_entry_def apply_ops_append)
qed

lemma add_tests:
  assumes "o' \<in> set (diff_allocs a b)" "op_Operation o' = ''add''" "distinct (map fst b)"
  shows "apply_op (rv, alloc_doc a) (NewOperation ''test'' (op_Path o') PNull) = Some (rv, alloc_doc a)"
proof -
  obtain key bv where kb: "(key, bv) \<in> set b" "o' \<in> set (put_entry a (key, bv))"
    using assms(1,2) by (auto simp: diff_allocs_def put_entry_def split: option.splits if_splits)
  show ?thesis
  proof (cases "map_of a key")
    case None
    then show ?thesis using kb by (auto simp: put_entry_def alloc_doc_def)
  next
    case (Some av)
    then obtain f where "op_Path o' = alloc_path key @ [f]" "map_of (alloc_fields av) f = None"
      using kb assms(2)
      by (auto simp: put_entry_def diff_fields_def split: option.splits if_splits) (metis option.exhaust)
    then show ?thesis using Some by (simp add: alloc_doc_def map_upd_triv)
  qed
qed

lemma apply_tests:
  assumes "\<forall>o'\<in>set os. apply_op d (NewOperation ''test'' (op_Path o') PNull) = Some d"
  shows "apply_ops d (map (\<lambda>o'. NewOperation ''test'' (op_Path o') PNull) os) = Some d"
  using assms by (induction os) simp_all

lemma update_patch_apply:
  assumes "distinct (map fst (ps_Allocations (ip_Spec orig)))" "distinct (map fst allocs)"
  shows "apply_ops (rv, alloc_doc (ps_Allocations (ip_Spec orig))) (update_patch orig allocs)
    = (if rv = om_ResourceVersion (ip_Meta orig) then Some (rv, alloc_doc allocs) else None)"
proof -
  let ?a = "ps_Allocations (ip_Spec orig)"
  let ?d = "(rv, alloc_doc ?a)"
  have "apply_ops ?d (map (\<lambda>o'. NewOperation ''test'' (op_Path o') PNull)
      (filter (\<lambda>o'. op_Operation o' = ''add'') (diff_allocs ?a allocs))) = Some ?d"
    using add_tests [OF _ _ assms(2)] by (intro apply_tests) auto
  moreover have "apply_op ?d (NewOperation ''test'' [''metadata'', ''resourceVersion''] (PStr v))
      = (if rv = v then Some ?d else None)" for v
    by (simp add: apply_op.simps)
  ultimately show ?thesis
    using diff_allocs_apply [OF assms, of rv]
    by (cases "om_ResourceVersion (ip_Meta orig) = rv") (auto simp: update_patch_def Let_def apply_ops_append)
qed

text \<open>
  C27: the patch an update sends turns the pool it was computed from into the pool with the
  new allocations, if the server still has that resource version, and is rejected as a whole if
  it has another one. So of two updates computed from the same version at most one succeeds.
\<close>

theorem update_patch_correct:
  assumes "distinct (map fst (ps_Allocations (ip_Spec orig)))" "distinct (map fst allocs)"
  shows "apply_ops (rv, alloc_doc (ps_Allocations (ip_Spec orig))) (update_patch orig allocs)
    = (if rv = om_ResourceVersion (ip_Meta orig) then Some (rv, alloc_doc allocs) else None)"
  using assms by (rule update_patch_apply)

definition pool_ex :: IPPool where
  "pool_ex = \<lparr> ip_Meta = empty_meta\<lparr>om_Name := ''10.0.0.0-28'', om_ResourceVersion := ''7''\<rparr>,
     ip_Spec = \<lparr> ps_Range = ''10.0.0.0/28'', ps_Allocations =
       [(''4'', \<lparr> ia_ContainerID = ''c0'', ia_PodRef = ''ns/p0'', ia_IfName = ''eth0'' \<rparr>)], ps_EnableL3 = False \<rparr>,
     ip_Status = empty_pool_status \<rparr>"

theorem update_patch_correct_witness:
  "apply_ops (''8'', alloc_doc (ps_Allocations (ip_Spec pool_ex))) (update_patch pool_ex []) = None
   \<and> (\<exists>d. apply_ops (''7'', alloc_doc (ps_Allocations (ip_Spec pool_ex))) (update_patch pool_ex []) = Some (''7'', d) \<and> d ''4'' = None)"
proof -
  have d: "distinct (map fst (ps_Allocations (ip_Spec pool_ex)))" "distinct (map fst ([] :: allocations))"
    by (simp_all add: pool_ex_def)
  have "om_ResourceVersion (ip_Meta pool_ex) = ''7''" by (simp add: pool_ex_def)
  then show ?thesis using update_patch_correct [OF d] by (simp add: alloc_doc_def)
qed

section \<open>Names of cluster-wide reservations\<close>

lemma hexs_val_zeros: "hexs_val (replicate k (CHR ''0'') @ s) = hexs_val s"
proof -
  have z: "foldl (\<lambda>n c. n * 16 + hex_val c) 0 (replicate k (CHR ''0'')) = 0"
    by (induction k) (simp_all add: hex_val_def is_digit_def digit_val_def)
  show ?thesis unfolding hexs_val_def foldl_append z ..
qed

lemma hex4_inject: "hex4 m = hex4 n \<Longrightarrow> m = n"
  using hexs_val_zeros hexs_val_hex unfolding hex4_def by metis

lemma hex4_chars: "c \<in> set (hex4 n) \<Longrightarrow> is_hex c"
  using hex_set [of c n] by (auto simp: hex4_def is_hex_def is_digit_def)

lemma length_hex4: "n < 65536 \<Longrightarrow> length (hex4 n) = 4"
  using length_hex [of n 3] by (simp add: hex4_def)

lemma set_join: "set (join c xs) \<subseteq> insert c (\<Union>x\<in>set xs. set x)"
  by (induction c xs rule: join.induct) auto

lemma length_join:
  "xs \<noteq> [] \<Longrightarrow> list_all (\<lambda>x. length x = k) xs \<Longrightarrow> length (join c xs) + 1 = length xs * (k + 1)"
  by (induction c xs rule: join.induct) auto

lemma join_inject:
  assumes "xs \<noteq> []" "ys \<noteq> []" "list_all (\<lambda>x. c \<notin> set x) xs" "list_all (\<lambda>x. c \<notin> set x) ys" "join c xs = join c ys"
  shows "xs = ys"
  using split_on_join [OF assms(1,3)] split_on_join [OF assms(2,4)] assms(5) by metis

definition dash_groups :: "IP \<Rightarrow> string" where
  "dash_groups ip = join (CHR ''-'') (map hex4 (byte_groups ip))"

lemma dash_groups_props:
  assumes "length ip = 16"
  shows "length (dash_groups ip) = 39" "CHR ''.'' \<notin> set (dash_groups ip)"
    "\<exists>t u. dash_groups ip = t @ CHR ''-'' # u \<and> CHR ''-'' \<notin> set u"
proof -
  have l: "length (byte_groups ip) = 8" using assms by (simp add: length_byte_groups)
  have "list_all (\<lambda>x. length x = 4) (map hex4 (byte_groups ip))"
    using small_byte_groups [of ip] length_hex4 by (simp add: list_all_iff)
  then show "length (dash_groups ip) = 39"
    using length_join [of "map hex4 (byte_groups ip)" 4 "CHR ''-''"] l by (cases "byte_groups ip") (auto simp: dash_groups_def)
  show "CHR ''.'' \<notin> set (dash_groups ip)"
    using set_join [of "CHR ''-''" "map hex4 (byte_groups ip)"] hex4_chars [of "CHR ''.''"]
    by (auto simp: dash_groups_def)
  have "CHR ''-'' \<in> set (dash_groups ip)"
    using l by (cases "byte_groups ip"; cases "tl (byte_groups ip)") (auto simp: dash_groups_def)
  then show "\<exists>t u. dash_groups ip = t @ CHR ''-'' # u \<and> CHR ''-'' \<notin> set u" by (rule split_list_last)
qed

lemma dash_groups_inject:
  assumes "length a = 16" "length b = 16" "dash_groups a = dash_groups b"
  shows "a = b"
proof -
  have dash: "list_all (\<lambda>x. CHR ''-'' \<notin> set x) (map hex4 (byte_groups ip))" for ip
    using hex4_chars [of "CHR ''-''"] by (auto simp: list_all_iff)
  have "byte_groups a \<noteq> []" "byte_groups b \<noteq> []"
    using assms(1,2) length_byte_groups [of a] length_byte_groups [of b] by auto
  then have "map hex4 (byte_groups a) = map hex4 (byte_groups b)"
    using join_inject [OF _ _ dash dash] assms(3) unfolding dash_groups_def by blast
  then have "byte_groups a = byte_groups b"
    using map_inj_on [of hex4 "byte_groups a" "byte_groups b"] hex4_inject by (simp add: inj_on_def)
  moreover have "group_bytes (byte_groups a) = a" "group_bytes (byte_groups b) = b"
    using assms(1,2) by (auto intro: group_bytes_byte_groups)
  ultimately show ?thesis by metis
qed

lemma dotted_props:
  assumes "length b = 4"
  shows "CHR ''-'' \<notin> set (dotted b)" "CHR ''.'' \<in> set (dotted b)"
proof -
  show "CHR ''-'' \<notin> set (dotted b)"
    using set_join [of "CHR ''.''" "map (\<lambda>x. dec (unat x)) b"] dec_no_sep [of "CHR ''-''"]
    by (auto simp: dotted_def)
  show "CHR ''.'' \<in> set (dotted b)"
    using assms by (cases b; cases "tl b") (auto simp: dotted_def)
qed

lemma NormalizeIP_cases:
  assumes "valid_ip ip"
  obtains (v4) "Is4 (ip_addr ip)" "NormalizeIP ip [] = IP_String ip" "CHR ''-'' \<notin> set (IP_String ip)" "CHR ''.'' \<in> set (IP_String ip)"
  | (v6) "\<not> Is4 (ip_addr ip)" "length ip = 16" "NormalizeIP ip [] = dash_groups ip"
proof (cases "To4 ip = []")
  case False
  then have "IP_String ip = dotted (To4 ip)" "IP_String (To4 ip) = dotted (To4 ip)" "length (To4 ip) = 4"
    using assms length_To4 [OF False] by (auto simp: IP_String_def valid_ip_def)
  then show ?thesis
    using v4 False dotted_props [of "To4 ip"] by (simp add: NormalizeIP_def UnnamedNetwork_def Is4_ip_addr)
next
  case True
  then have "length ip = 16" using assms by (auto simp: valid_ip_def)
  then show ?thesis
    using v6 True valid_not_Nil [OF assms]
    by (auto simp: NormalizeIP_def UnnamedNetwork_def Is4_ip_addr To16_def dash_groups_def)
qed

lemma NormalizeIP_named: "NormalizeIP ip net = (if net = [] then NormalizeIP ip [] else net @ CHR ''-'' # NormalizeIP ip [])"
  by (simp add: NormalizeIP_def UnnamedNetwork_def)

lemma last_dash_unique:
  assumes "a @ CHR ''-'' # b = c @ CHR ''-'' # d" "CHR ''-'' \<notin> set b" "CHR ''-'' \<notin> set d"
  shows "a = c \<and> b = d"
proof -
  have "rev b @ CHR ''-'' # rev a = rev d @ CHR ''-'' # rev c" using arg_cong [OF assms(1), of rev] by simp
  then have "Cut (CHR ''-'') (rev b @ CHR ''-'' # rev a) = Some (rev d, rev c)" using assms(3) by simp
  then show ?thesis using assms(2) by simp
qed

lemma v4_v4_names:
  assumes "CHR ''-'' \<notin> set s" "CHR ''-'' \<notin> set t"
    "(if n = [] then s else n @ CHR ''-'' # s) = (if m = [] then t else m @ CHR ''-'' # t)"
  shows "s = t \<and> n = m"
proof (cases "n = []"; cases "m = []")
  assume "n = []" "m \<noteq> []"
  then show ?thesis using assms(1,3) by auto
next
  assume "n \<noteq> []" "m = []"
  then show ?thesis using assms(2,3) by auto
next
  assume "n \<noteq> []" "m \<noteq> []"
  then show ?thesis using last_dash_unique [OF _ assms(1,2)] assms(3) by auto
qed (use assms in auto)

lemma v4_v6_names:
  assumes "CHR ''-'' \<notin> set s" "CHR ''.'' \<in> set s" "length ip = 16"
  shows "(if n = [] then s else n @ CHR ''-'' # s) \<noteq> (if m = [] then dash_groups ip else m @ CHR ''-'' # dash_groups ip)"
proof
  assume eq: "(if n = [] then s else n @ CHR ''-'' # s) = (if m = [] then dash_groups ip else m @ CHR ''-'' # dash_groups ip)"
  obtain t u where tu: "dash_groups ip = t @ CHR ''-'' # u" "CHR ''-'' \<notin> set u"
    using dash_groups_props(3) [OF assms(3)] by blast
  have dot: "CHR ''.'' \<notin> set u" using dash_groups_props(2) [OF assms(3)] tu by auto
  define t' where "t' = (if m = [] then t else m @ CHR ''-'' # t)"
  have r: "(if m = [] then dash_groups ip else m @ CHR ''-'' # dash_groups ip) = t' @ CHR ''-'' # u"
    by (simp add: t'_def tu)
  show False
  proof (cases "n = []")
    case True
    then show ?thesis using eq r assms(1) by (metis in_set_conv_decomp)
  next
    case False
    then have "n @ CHR ''-'' # s = t' @ CHR ''-'' # u" using eq r by simp
    then show ?thesis using last_dash_unique [OF _ assms(1) tu(2)] dot assms(2) by blast
  qed
qed

lemma NormalizeIP_cong:
  assumes "valid_ip x" "valid_ip y" "ip_addr x = ip_addr y"
  shows "NormalizeIP x n = NormalizeIP y n"
proof -
  have "IP_String x = IP_String y" using IP_String_cong [OF assms] .
  moreover have "To16 x = To16 y" using assms(3) As16_ip_addr [OF assms(1)] As16_ip_addr [OF assms(2)] by simp
  moreover have "length z = 16 \<Longrightarrow> To16 z = z" for z :: IP by (simp add: To16_def)
  ultimately have "NormalizeIP x [] = NormalizeIP y []"
    using assms(3) by (cases rule: NormalizeIP_cases [OF assms(1)]; cases rule: NormalizeIP_cases [OF assms(2)]) auto
  then show ?thesis by (simp add: NormalizeIP_named [of _ n])
qed

text \<open>
  C29: the resource name of a cluster-wide reservation identifies the network and the
  address: two pairs have the same name only if they are the same network and the same
  address (in whatever byte form), so no reservation can shadow another.
\<close>

theorem NormalizeIP_injective:
  assumes "valid_ip x" "valid_ip y"
  shows "NormalizeIP x n = NormalizeIP y m \<longleftrightarrow> ip_addr x = ip_addr y \<and> n = m"
proof
  assume eq: "NormalizeIP x n = NormalizeIP y m"
  note eq' = eq [unfolded NormalizeIP_named [of x n] NormalizeIP_named [of y m]]
  show "ip_addr x = ip_addr y \<and> n = m"
  proof (cases rule: NormalizeIP_cases [OF assms(1)]; cases rule: NormalizeIP_cases [OF assms(2)])
    assume 1: "NormalizeIP x [] = IP_String x" "CHR ''-'' \<notin> set (IP_String x)"
      and 2: "NormalizeIP y [] = IP_String y" "CHR ''-'' \<notin> set (IP_String y)"
    have "IP_String x = IP_String y \<and> n = m"
      using eq' unfolding 1(1) 2(1) by (rule v4_v4_names [OF 1(2) 2(2)])
    then show ?thesis using IP_String_inject [OF assms] by simp
  next
    assume 1: "NormalizeIP x [] = IP_String x" "CHR ''-'' \<notin> set (IP_String x)" "CHR ''.'' \<in> set (IP_String x)"
      and 2: "length y = 16" "NormalizeIP y [] = dash_groups y"
    show ?thesis using eq' [unfolded 1(1) 2(2)] v4_v6_names [OF 1(2,3) 2(1), of n m] by contradiction
  next
    assume 1: "NormalizeIP y [] = IP_String y" "CHR ''-'' \<notin> set (IP_String y)" "CHR ''.'' \<in> set (IP_String y)"
      and 2: "length x = 16" "NormalizeIP x [] = dash_groups x"
    show ?thesis using eq' [unfolded 1(1) 2(2), symmetric] v4_v6_names [OF 1(2,3) 2(1), of m n] by contradiction
  next
    assume 1: "length x = 16" "NormalizeIP x [] = dash_groups x" and 2: "length y = 16" "NormalizeIP y [] = dash_groups y"
    have l: "length (dash_groups x) = length (dash_groups y)" using dash_groups_props(1) 1 2 by simp
    then have "dash_groups x = dash_groups y \<and> n = m"
      using eq' 1 2 by (auto split: if_splits dest: arg_cong [of _ _ length])
    then show ?thesis using dash_groups_inject [OF 1(1) 2(1)] by simp
  qed
next
  assume "ip_addr x = ip_addr y \<and> n = m"
  then show "NormalizeIP x n = NormalizeIP y m" using NormalizeIP_cong [OF assms] by simp
qed

theorem NormalizeIP_injective_witness:
  "NormalizeIP [10, 0, 0, 5] ''net'' = ''net-10.0.0.5''
   \<and> NormalizeIP [10, 0, 0, 5] ''net'' = NormalizeIP (v4InV6Prefix @ [10, 0, 0, 5]) ''net''"
proof -
  have "valid_ip [10, 0, 0, 5]" "valid_ip (v4InV6Prefix @ [10, 0, 0, 5])" by (simp_all add: valid_ip_def)
  moreover have "ip_addr [10, 0, 0, 5] = ip_addr (v4InV6Prefix @ [10, 0, 0, 5])" "NormalizeIP [10, 0, 0, 5] ''net'' = ''net-10.0.0.5''"
    by code_simp+
  ultimately show ?thesis using NormalizeIP_injective by blast
qed

section \<open>The order of the API's worlds\<close>

text \<open>
  The worlds that one run of the program passes through are ordered by the calls it makes. The
  locale states it for any reflexive and transitive relation that every call respects, so that
  the functions of the program respect it too.
\<close>

locale api_reads =
  fixes k :: "('w, 'x) kube_scheme" and R :: "'w \<Rightarrow> 'w \<Rightarrow> bool"
  assumes o_refl: "R w w"
    and o_trans: "R w w1 \<Longrightarrow> R w1 w2 \<Longrightarrow> R w w2"
    and o_GetIPPool: "k_GetIPPool k ns name w = (a, w') \<Longrightarrow> R w w'"
    and o_CreateIPPool: "k_CreateIPPool k ns pool w = (b, w') \<Longrightarrow> R w w'"
    and o_GetORIP: "k_GetORIP k ns name w = (c, w') \<Longrightarrow> R w w'"
    and o_CreateORIP: "k_CreateORIP k ns orip w = (b, w') \<Longrightarrow> R w w'"
    and o_DeleteORIP: "k_DeleteORIP k ns name uid w = (b, w') \<Longrightarrow> R w w'"
    and o_GetNodeSlicePool: "k_GetNodeSlicePool k ns name w = (d, w') \<Longrightarrow> R w w'"
    and o_GetPod: "k_GetPod k ns name w = (p, w') \<Longrightarrow> R w w'"
    and o_CtxErr: "k_CtxErr k w = (e, w') \<Longrightarrow> R w w'"
    and o_Rand: "k_Rand k i w = (n, w') \<Longrightarrow> R w w'"
    and o_Sleep: "R w (k_Sleep k i w)"
begin

lemma o_retryBackoff: "R w (retryBackoff k d w)"
  using o_Rand o_Sleep o_trans by (fastforce simp: retryBackoff_def Let_def split: prod.splits)

lemma o_getPool: "getPool k i name iprange w = (r, w') \<Longrightarrow> R w w'"
  unfolding getPool_def
  by (auto split: prod.splits sum.splits if_splits dest!: o_GetIPPool o_CreateIPPool intro: o_trans)

lemma o_getExistingPool: "getExistingPool k i name w = (r, w') \<Longrightarrow> R w w'"
  unfolding getExistingPool_def by (auto split: prod.splits sum.splits if_splits dest!: o_GetIPPool)

lemma with_firstIP_world: "with_firstIP (s, w) = (r, w') \<Longrightarrow> w' = w"
  by (auto simp: with_firstIP_def split: sum.splits prod.splits)

lemma o_get_pool: "GetIPPool k i pid w = (r, w') \<Longrightarrow> R w w'"
  unfolding GetIPPool_def using o_getPool with_firstIP_world by (metis surj_pair)

lemma o_get_existing_pool: "GetExistingIPPool k i pid w = (r, w') \<Longrightarrow> R w w'"
  unfolding GetExistingIPPool_def using o_getExistingPool with_firstIP_world by (metis surj_pair)

lemma o_get_orip: "GetOverlappingRangeIPReservation k ns ip net w = (r, w') \<Longrightarrow> R w w'"
  unfolding GetOverlappingRangeIPReservation_def Let_def
  by (auto split: prod.splits sum.splits if_splits dest!: o_GetORIP intro: o_trans)

lemma o_uid_guard: "uid_guard k ns name uid msg w = (r, w') \<Longrightarrow> R w w'"
  unfolding uid_guard_def by (auto split: prod.splits sum.splits if_splits dest!: o_GetORIP intro: o_refl)

lemma o_delete_legacy: "delete_legacy k ns ip net uid w = (r, w') \<Longrightarrow> R w w'"
  unfolding delete_legacy_def Let_def
  by (auto split: prod.splits sum.splits if_splits dest!: o_uid_guard o_DeleteORIP intro: o_trans o_refl)

lemma o_update_orip: "UpdateOverlappingRangeAllocation k ns mode ip p i net uid w = (r, w') \<Longrightarrow> R w w'"
  unfolding UpdateOverlappingRangeAllocation_def Let_def
  by (auto split: prod.splits sum.splits if_splits dest!: o_CreateORIP o_uid_guard o_DeleteORIP o_delete_legacy
      intro: o_trans o_refl)

lemma o_slice_range: "GetNodeSlicePoolRange k ipam node w = (r, w') \<Longrightarrow> R w w'"
  unfolding GetNodeSlicePoolRange_def
  by (auto split: prod.splits sum.splits option.splits dest!: o_GetNodeSlicePool)

end

text \<open>With the writes of the client's own as moves, too.\<close>

locale api_order = api_reads +
  assumes o_PatchIPPool: "k_PatchIPPool k ns name ops w = (b, w') \<Longrightarrow> R w w'"
begin

lemma o_Update: "Update k p reservations w = (r, p', w') \<Longrightarrow> R w w'"
  unfolding Update_def Let_def by (auto split: prod.splits sum.splits dest!: o_PatchIPPool intro: o_refl)

end

text \<open>The least such relation: the worlds reached by calls of the API.\<close>

inductive api_step :: "('w, 'x) kube_scheme \<Rightarrow> 'w \<Rightarrow> 'w \<Rightarrow> bool" for k where
  "k_GetIPPool k ns name w = (a, w') \<Longrightarrow> api_step k w w'"
| "k_CreateIPPool k ns pool w = (b, w') \<Longrightarrow> api_step k w w'"
| "k_PatchIPPool k ns name ops w = (b, w') \<Longrightarrow> api_step k w w'"
| "k_GetORIP k ns name w = (c, w') \<Longrightarrow> api_step k w w'"
| "k_CreateORIP k ns orip w = (b, w') \<Longrightarrow> api_step k w w'"
| "k_DeleteORIP k ns name uid w = (b, w') \<Longrightarrow> api_step k w w'"
| "k_GetNodeSlicePool k ns name w = (d, w') \<Longrightarrow> api_step k w w'"
| "k_GetPod k ns name w = (p, w') \<Longrightarrow> api_step k w w'"
| "k_CtxErr k w = (e, w') \<Longrightarrow> api_step k w w'"
| "k_Rand k i w = (n, w') \<Longrightarrow> api_step k w w'"
| "api_step k w (k_Sleep k i w)"

abbreviation reaches :: "('w, 'x) kube_scheme \<Rightarrow> 'w \<Rightarrow> 'w \<Rightarrow> bool" where
  "reaches k \<equiv> (api_step k)\<^sup>*\<^sup>*"

interpretation api: api_order k "reaches k" for k
  by unfold_locales (auto intro: api_step.intros rtranclp_trans)

end
