(* ===== verification/Storage.thy ===== *)
theory Storage
  imports Pool
begin

text \<open>
  \<^verbatim>\<open>pkg/storage/kubernetes/ipam.go\<close>, second part: \<^verbatim>\<open>IPManagementKubernetesUpdate\<close> with its retry
  loop and the rollback of what it committed, and \<^verbatim>\<open>IPManagement\<close>, which runs it as leader.
  One pass of the retry loop is \<open>attempt\<close>, cut where the code has its phases; the variables
  the passes share are the record \<open>loop_state\<close>. \<^verbatim>\<open>AssignIP\<close> always returns
  (see \<^verbatim>\<open>Allocate\<close>), so its value is taken with \<open>the\<close>. Logging is left out.
\<close>

section \<open>Definitions\<close>

definition DatastoreRetries :: nat where
  "DatastoreRetries = 100"

definition rollbackRetries :: nat where
  "rollbackRetries = 5"

fun is_Temporary :: "err \<Rightarrow> bool" where
  "is_Temporary (TemporaryError _) = True"
| "is_Temporary _ = False"

definition isRetryableRollbackError :: "err \<Rightarrow> bool" where
  "isRetryableRollbackError e \<longleftrightarrow> is_Temporary e
     \<or> IsConflict e \<or> is_reason ServerTimeout e \<or> is_reason Timeout e \<or> is_reason TooManyRequests e
     \<or> is_reason ServiceUnavailable e \<or> e = NetTimeout"

definition allocationAlreadyInPool :: "IPReservation list \<Rightarrow> IP \<Rightarrow> string \<Rightarrow> string \<Rightarrow> bool" where
  "allocationAlreadyInPool reservations ip podRef ifName =
     list_ex (\<lambda>r. IP_Equal (ir_IP r) ip \<and> ir_PodRef r = podRef \<and> ir_IfName r = ifName) reservations"

subsection \<open>Rollback\<close>

text \<open>
  \<open>ca_pool\<close> is \<open>None\<close> for the nil pool; \<open>ca_ipam\<close> and \<open>ca_overlap\<close> say whether those pointers
  are set (the client is the parameter \<open>k\<close>).
\<close>

record committedAlloc =
  ca_pool :: "KubernetesIPPool option"
  ca_poolID :: PoolIdentifier
  ca_ip :: IP
  ca_ipam :: "KubernetesIPAM option"
  ca_overlap :: "string option"
  ca_overlapIP :: IP
  ca_containerID :: string
  ca_podRef :: string
  ca_ifName :: string
  ca_networkName :: string
  ca_podUID :: string

definition rollbackAllocationMatches :: "committedAlloc \<Rightarrow> IPReservation \<Rightarrow> bool" where
  "rollbackAllocationMatches c r =
     (if \<not> IP_Equal (ir_IP r) (ca_ip c) then False
      else if ca_containerID c = [] \<and> ca_podRef c = [] \<and> ca_ifName c = [] then True
      else ir_ContainerID r = ca_containerID c \<and> ir_PodRef r = ca_podRef c \<and> ir_IfName r = ca_ifName c)"

fun rollback_orip_loop :: "('w, 'x) kube_scheme \<Rightarrow> committedAlloc \<Rightarrow> string \<Rightarrow> nat \<Rightarrow> 'w \<Rightarrow> 'w" where
  "rollback_orip_loop k c ns 0 w = w"
| "rollback_orip_loop k c ns (Suc n) w =
     (case UpdateOverlappingRangeAllocation k ns Deallocate (ca_overlapIP c) (ca_podRef c) (ca_ifName c)
             (ca_networkName c) (ca_podUID c) w of
        (Some e, w) \<Rightarrow> if isRetryableRollbackError e then rollback_orip_loop k c ns n w else w
      | (None, w) \<Rightarrow> w)"

definition rollbackOverlappingReservation :: "('w, 'x) kube_scheme \<Rightarrow> committedAlloc \<Rightarrow> 'w \<Rightarrow> 'w" where
  "rollbackOverlappingReservation k c w = (case ca_overlap c of
     None \<Rightarrow> w
   | Some ns \<Rightarrow> if ca_overlapIP c = [] then w else rollback_orip_loop k c ns rollbackRetries w)"

text \<open>
  One attempt on a pool at hand: drop the matching reservations and update; \<open>Inl pool\<close> asks for
  another attempt, with the pool as the failed update left it.
\<close>

definition rollback_on ::
  "('w, 'x) kube_scheme \<Rightarrow> committedAlloc \<Rightarrow> KubernetesIPPool \<Rightarrow> 'w \<Rightarrow> (KubernetesIPPool + unit) \<times> 'w" where
  "rollback_on k c pool w =
     (let allocs = Allocations pool;
          cleaned = filter (\<lambda>r. \<not> rollbackAllocationMatches c r) allocs;
          removed = list_ex (rollbackAllocationMatches c) allocs
      in if \<not> removed then (Inr (), w)
         else (case Update k pool cleaned w of
                 (Some e, pool', w) \<Rightarrow> if isRetryableRollbackError e then (Inl pool', w) else (Inr (), w)
               | (None, _, w) \<Rightarrow> (Inr (), rollbackOverlappingReservation k c w)))"

text \<open>The attempts after the first: the pool is read again if there is an IPAM to read it with.\<close>

fun rollback_retry ::
  "('w, 'x) kube_scheme \<Rightarrow> committedAlloc \<Rightarrow> nat \<Rightarrow> KubernetesIPPool \<Rightarrow> 'w \<Rightarrow> 'w" where
  "rollback_retry k c 0 pool w = w"
| "rollback_retry k c (Suc n) pool w = (case ca_ipam c of
     None \<Rightarrow> (case rollback_on k c pool w of
         (Inl pool', w) \<Rightarrow> rollback_retry k c n pool' w
       | (Inr _, w) \<Rightarrow> w)
   | Some ipam \<Rightarrow> (case GetExistingIPPool k ipam (ca_poolID c) w of
         (Inl e, w) \<Rightarrow> if IsNotFound e then w else rollback_retry k c n pool w
       | (Inr freshPool, w) \<Rightarrow> (case rollback_on k c freshPool w of
             (Inl _, w) \<Rightarrow> rollback_retry k c n pool w
           | (Inr _, w) \<Rightarrow> w)))"

definition rollback_one :: "('w, 'x) kube_scheme \<Rightarrow> committedAlloc \<Rightarrow> 'w \<Rightarrow> 'w" where
  "rollback_one k c w = (case ca_pool c of
     None \<Rightarrow> rollbackOverlappingReservation k c w
   | Some pool \<Rightarrow> (case rollback_on k c pool w of
       (Inl pool', w) \<Rightarrow> rollback_retry k c (rollbackRetries - 1) pool' w
     | (Inr _, w) \<Rightarrow> w))"

fun rollbackCommitted :: "('w, 'x) kube_scheme \<Rightarrow> committedAlloc list \<Rightarrow> 'w \<Rightarrow> 'w" where
  "rollbackCommitted k [] w = w"
| "rollbackCommitted k (c # cs) w = rollbackCommitted k cs (rollback_one k c w)"

subsection \<open>One attempt\<close>

record loop_state =
  ls_ipRange :: RangeConfiguration
  ls_overlapping :: "IPReservation list"
  ls_ipfor :: IP
  ls_newip :: IPNet
  ls_pool :: "KubernetesIPPool option"
  ls_poolID :: PoolIdentifier
  ls_allocationCreated :: bool
  ls_overlappingReservationCreated :: bool
  ls_skipOverlapping :: bool
  ls_skipPool :: bool
  ls_pending :: IP
  ls_backoff :: int
  ls_updated :: "IPReservation list"
  ls_err :: "err option"

text \<open>
  How a phase ends: go on to the next phase, \<^verbatim>\<open>continue\<close> the retry loop, break out of it, or
  return from the function with an error.
\<close>

datatype flow = Next_phase | Continue | Break_loop | Return err

definition backoff_continue :: "('w, 'x) kube_scheme \<Rightarrow> loop_state \<Rightarrow> 'w \<Rightarrow> flow \<times> loop_state \<times> 'w" where
  "backoff_continue k st w =
     (Continue, st\<lparr>ls_backoff := min (ls_backoff st * 2) retryMaxBackoff\<rparr>, retryBackoff k (ls_backoff st) w)"

text \<open>Lines 798--860: the context, and the pool identifier and range of the node's slice.\<close>

definition phase_range ::
  "('w, 'x) kube_scheme \<Rightarrow> os_env \<Rightarrow> KubernetesIPAM \<Rightarrow> IPAMConfig \<Rightarrow> loop_state \<Rightarrow> 'w
   \<Rightarrow> flow \<times> loop_state \<times> 'w" where
  "phase_range k env ipam ipamConf st0 w =
     (let st = st0\<lparr>ls_allocationCreated := False, ls_overlappingReservationCreated := False,
                   ls_skipOverlapping := False, ls_skipPool := False\<rparr>
      in case k_CtxErr k w of
           (Some e, w) \<Rightarrow> (Break_loop, st\<lparr>ls_err := Some (Wrap ''IPAM context canceled before attempt'' e)\<rparr>, w)
         | (None, w) \<Rightarrow>
             let ipRange = ls_ipRange st;
                 pid = \<lparr> pi_IPRange = rc_Range ipRange, pi_NetworkName = ic_NetworkName ipamConf, pi_NodeName = [] \<rparr>;
                 st = st\<lparr>ls_err := None, ls_poolID := pid\<rparr>
             in if ic_NodeSliceSize ipamConf = [] then (Next_phase, st, w)
                else (case getNodeName env ipam of
                        Inl e \<Rightarrow> (Return e, st, w)
                      | Inr hostname \<Rightarrow> (case GetNodeSlicePoolRange k ipam hostname w of
                          (Inl e, w) \<Rightarrow> (Return e, st, w)
                        | (Inr nodeSliceRange, w) \<Rightarrow> (case ParseCIDR nodeSliceRange of
                            Inl e \<Rightarrow> (Return e, st, w)
                          | Inr (_, ipNet) \<Rightarrow> (case FirstUsableIP ipNet of
                              Inl e \<Rightarrow> (Return e, st, w)
                            | Inr rangeStart \<Rightarrow> (case LastUsableIP ipNet of
                                Inl e \<Rightarrow> (Return e, st, w)
                              | Inr rangeEnd \<Rightarrow>
                                  (Next_phase,
                                   st\<lparr>ls_poolID := pid\<lparr>pi_NodeName := hostname, pi_IPRange := nodeSliceRange\<rparr>,
                                      ls_ipRange := \<lparr> rc_OmitRanges = rc_OmitRanges ipRange, rc_Range = nodeSliceRange,
                                        rc_RangeStart = rangeStart, rc_RangeEnd = rangeEnd,
                                        rc_PickAddresses = rc_PickAddresses ipRange, rc_PreferredIP = [],
                                        rc_L3 = rc_L3 ipRange \<rparr>\<rparr>, w)))))))"

text \<open>Lines 861--882: the pool.\<close>

definition phase_pool ::
  "('w, 'x) kube_scheme \<Rightarrow> int \<Rightarrow> KubernetesIPAM \<Rightarrow> loop_state \<Rightarrow> 'w \<Rightarrow> flow \<times> loop_state \<times> 'w" where
  "phase_pool k mode ipam st w =
     (case (if mode = Deallocate then GetExistingIPPool k ipam (ls_poolID st) w
            else GetIPPool k ipam (ls_poolID st) w) of
        (Inr pool, w) \<Rightarrow> (Next_phase, st\<lparr>ls_pool := Some pool, ls_err := None\<rparr>, w)
      | (Inl e, w) \<Rightarrow>
          if mode = Deallocate \<and> IsNotFound e then (Break_loop, st\<lparr>ls_pool := None, ls_err := None\<rparr>, w)
          else if is_Temporary e then backoff_continue k (st\<lparr>ls_pool := None, ls_err := Some e\<rparr>) w
          else (Return e, st\<lparr>ls_pool := None, ls_err := Some e\<rparr>, w))"

definition dummy :: "IP \<Rightarrow> IPReservation" where
  "dummy ip = \<lparr> ir_IP = ip, ir_ContainerID = [], ir_PodRef = [], ir_IfName = [], ir_IsAllocated = True \<rparr>"

text \<open>Lines 904--955: is the address allocated in an overlapping range?\<close>

definition phase_overlap ::
  "('w, 'x) kube_scheme \<Rightarrow> KubernetesIPAM \<Rightarrow> IPAMConfig \<Rightarrow> loop_state \<Rightarrow> 'w \<Rightarrow> flow \<times> loop_state \<times> 'w" where
  "phase_overlap k ipam ipamConf st w =
     (let newIP = net_IP (ls_newip st);
          retry = st\<lparr>ls_overlapping := ls_overlapping st @ [dummy newIP]\<rparr>
      in case GetOverlappingRangeIPReservation k (ki_Namespace ipam) newIP (ic_NetworkName ipamConf) w of
           (Inl e, w) \<Rightarrow> (Return e, st, w)
         | (Inr None, w) \<Rightarrow> (Next_phase, st\<lparr>ls_ipfor := newIP\<rparr>, w)
         | (Inr (Some res), w) \<Rightarrow>
             if os_PodRef (ov_Spec res) \<noteq> GetPodRef ipamConf then (Continue, retry, w)
             else if os_IfName (ov_Spec res) \<noteq> ki_IfName ipam then (Continue, retry, w)
             else if ic_PodUID ipamConf \<noteq> [] \<and> os_PodUID (ov_Spec res) \<noteq> []
                     \<and> os_PodUID (ov_Spec res) \<noteq> ic_PodUID ipamConf
             then (case UpdateOverlappingRangeAllocation k (ki_Namespace ipam) Deallocate newIP (GetPodRef ipamConf)
                          (ki_IfName ipam) (ic_NetworkName ipamConf) (os_PodUID (ov_Spec res)) w of
                     (Some e, w) \<Rightarrow> (Return (Wrap ''failed to delete stale ORIP'' e), st, w)
                   | (None, w) \<Rightarrow> (Next_phase, st\<lparr>ls_ipfor := newIP\<rparr>, w))
             else (Next_phase, st\<lparr>ls_skipOverlapping := True, ls_ipfor := newIP\<rparr>, w))"

text \<open>Lines 884--975: the new reservation list, of an allocation and of a release.\<close>

definition phase_assign ::
  "('w, 'x) kube_scheme \<Rightarrow> KubernetesIPAM \<Rightarrow> IPAMConfig \<Rightarrow> IP \<Rightarrow> KubernetesIPPool \<Rightarrow> loop_state \<Rightarrow> 'w
   \<Rightarrow> flow \<times> loop_state \<times> 'w" where
  "phase_assign k ipam ipamConf preferredIP pool st w =
     (let poolReservelist = Allocations pool;
          reservelist = poolReservelist @ ls_overlapping st;
          ipRange = (if preferredIP \<noteq> [] then (ls_ipRange st)\<lparr>rc_PreferredIP := preferredIP\<rparr> else ls_ipRange st);
          st = st\<lparr>ls_ipRange := ipRange\<rparr>
      in case the (AssignIP ipRange reservelist (ki_ContainerID ipam) (GetPodRef ipamConf) (ki_IfName ipam)) of
           Inl e \<Rightarrow> (Return e, st\<lparr>ls_err := Some e\<rparr>, w)
         | Inr (newip, updated) \<Rightarrow>
             let st = st\<lparr>ls_newip := newip, ls_updated := updated, ls_err := None,
                         ls_allocationCreated :=
                           \<not> allocationAlreadyInPool poolReservelist (net_IP newip) (GetPodRef ipamConf) (ki_IfName ipam)\<rparr>
             in if ic_OverlappingRanges ipamConf then phase_overlap k ipam ipamConf st w
                else (Next_phase, st, w))"

definition phase_release ::
  "KubernetesIPAM \<Rightarrow> IPAMConfig \<Rightarrow> KubernetesIPPool \<Rightarrow> loop_state \<Rightarrow> 'w \<Rightarrow> flow \<times> loop_state \<times> 'w" where
  "phase_release ipam ipamConf pool st w =
     (let reservelist = Allocations pool @ ls_overlapping st;
          (updated, ip) = DeallocateIP reservelist (ki_ContainerID ipam) (ki_IfName ipam)
      in if ip = []
         then if ic_OverlappingRanges ipamConf \<and> ls_pending st \<noteq> []
              then (Next_phase, st\<lparr>ls_ipfor := ls_pending st, ls_updated := reservelist, ls_skipPool := True\<rparr>, w)
              else (Break_loop, st\<lparr>ls_ipfor := ip, ls_updated := updated\<rparr>, w)
         else (Next_phase, st\<lparr>ls_ipfor := ip, ls_updated := updated, ls_pending := ip\<rparr>, w))"

text \<open>Lines 977--1008: the pool update, without the dummies.\<close>

definition phase_update ::
  "('w, 'x) kube_scheme \<Rightarrow> IPAMConfig \<Rightarrow> KubernetesIPPool \<Rightarrow> loop_state \<Rightarrow> 'w \<Rightarrow> flow \<times> loop_state \<times> 'w" where
  "phase_update k ipamConf pool st w0 =
     (let usereservelist = filter (\<lambda>r. \<not> ir_IsAllocated r) (ls_updated st);
          w = (if ic_SleepForRace ipamConf > 0
               then k_Sleep k (min (ic_SleepForRace ipamConf) MaxSleepForRace * 1000000000) w0 else w0)
      in if ls_skipPool st then (Next_phase, st, w)
         else (case Update k pool usereservelist w of
                 (None, pool', w) \<Rightarrow> (Next_phase, st\<lparr>ls_pool := Some pool', ls_err := None\<rparr>, w)
               | (Some e, pool', w) \<Rightarrow>
                   let st = st\<lparr>ls_pool := Some pool', ls_err := Some e\<rparr>
                   in if is_Temporary e then backoff_continue k st w else (Break_loop, st, w)))"

definition commit_of ::
  "KubernetesIPAM \<Rightarrow> IPAMConfig \<Rightarrow> loop_state \<Rightarrow> committedAlloc" where
  "commit_of ipam ipamConf st =
     \<lparr> ca_pool = None, ca_poolID = \<lparr> pi_IPRange = [], pi_NetworkName = [], pi_NodeName = [] \<rparr>,
       ca_ip = net_IP (ls_newip st), ca_ipam = None, ca_overlap = None, ca_overlapIP = [],
       ca_containerID = ki_ContainerID ipam, ca_podRef = GetPodRef ipamConf, ca_ifName = ki_IfName ipam,
       ca_networkName = [], ca_podUID = [] \<rparr>"

text \<open>Lines 1012--1046: the cluster-wide reservation, undoing the pool update if it fails.\<close>

definition phase_reserve ::
  "('w, 'x) kube_scheme \<Rightarrow> int \<Rightarrow> KubernetesIPAM \<Rightarrow> IPAMConfig \<Rightarrow> loop_state \<Rightarrow> 'w \<Rightarrow> flow \<times> loop_state \<times> 'w" where
  "phase_reserve k mode ipam ipamConf st w =
     (if ic_OverlappingRanges ipamConf \<and> \<not> ls_skipOverlapping st
      then (case UpdateOverlappingRangeAllocation k (ki_Namespace ipam) mode (ls_ipfor st) (GetPodRef ipamConf)
                   (ki_IfName ipam) (ic_NetworkName ipamConf) (ic_PodUID ipamConf) w of
              (Some e, w) \<Rightarrow>
                let st = st\<lparr>ls_err := Some e\<rparr>;
                    w = (if mode = Allocate \<and> ls_pool st \<noteq> None \<and> ls_allocationCreated st
                         then rollbackCommitted k [(commit_of ipam ipamConf st)
                                \<lparr>ca_pool := ls_pool st, ca_poolID := ls_poolID st, ca_ipam := Some ipam\<rparr>] w
                         else w)
                in if isRetryableRollbackError e then backoff_continue k st w else (Break_loop, st, w)
            | (None, w) \<Rightarrow>
                (Break_loop, st\<lparr>ls_err := None, ls_overlappingReservationCreated := (mode = Allocate)\<rparr>, w))
      else (Break_loop, st, w))"

definition attempt ::
  "('w, 'x) kube_scheme \<Rightarrow> os_env \<Rightarrow> int \<Rightarrow> KubernetesIPAM \<Rightarrow> IPAMConfig \<Rightarrow> IP \<Rightarrow> loop_state \<Rightarrow> 'w
   \<Rightarrow> flow \<times> loop_state \<times> 'w" where
  "attempt k env mode ipam ipamConf preferredIP st w =
     (case phase_range k env ipam ipamConf st w of
        (Next_phase, st, w) \<Rightarrow> (case phase_pool k mode ipam st w of
          (Next_phase, st, w) \<Rightarrow>
            let pool = the (ls_pool st)
            in (case (if mode = Allocate then phase_assign k ipam ipamConf preferredIP pool st w
                      else phase_release ipam ipamConf pool st w) of
                  (Next_phase, st, w) \<Rightarrow> (case phase_update k ipamConf pool st w of
                    (Next_phase, st, w) \<Rightarrow> phase_reserve k mode ipam ipamConf st w
                  | r \<Rightarrow> r)
                | r \<Rightarrow> r)
        | r \<Rightarrow> r)
      | r \<Rightarrow> r)"

fun retry_loop ::
  "nat \<Rightarrow> ('w, 'x) kube_scheme \<Rightarrow> os_env \<Rightarrow> int \<Rightarrow> KubernetesIPAM \<Rightarrow> IPAMConfig \<Rightarrow> IP \<Rightarrow> loop_state \<Rightarrow> 'w
   \<Rightarrow> flow \<times> loop_state \<times> 'w" where
  "retry_loop 0 k env mode ipam ipamConf preferredIP st w = (Break_loop, st, w)"
| "retry_loop (Suc n) k env mode ipam ipamConf preferredIP st w =
     (case attempt k env mode ipam ipamConf preferredIP st w of
        (Continue, st, w) \<Rightarrow> retry_loop n k env mode ipam ipamConf preferredIP st w
      | r \<Rightarrow> r)"

subsection \<open>All ranges\<close>

record run_state =
  rs_newips :: "IPNet list"
  rs_committed :: "committedAlloc list"
  rs_overlapping :: "IPReservation list"
  rs_ipfor :: IP
  rs_newip :: IPNet

definition start_range :: "run_state \<Rightarrow> IPAMConfig \<Rightarrow> RangeConfiguration \<Rightarrow> loop_state" where
  "start_range rs ipamConf ipRange =
     \<lparr> ls_ipRange = ipRange, ls_overlapping = rs_overlapping rs, ls_ipfor = rs_ipfor rs,
       ls_newip = rs_newip rs, ls_pool = None,
       ls_poolID = \<lparr> pi_IPRange = rc_Range ipRange, pi_NetworkName = ic_NetworkName ipamConf, pi_NodeName = [] \<rparr>,
       ls_allocationCreated = False, ls_overlappingReservationCreated = False, ls_skipOverlapping = False,
       ls_skipPool = False, ls_pending = [], ls_backoff = retryInitialBackoff, ls_updated = [], ls_err = None \<rparr>"

text \<open>Lines 1049--1083: what a finished range leaves behind.\<close>

definition finish_range ::
  "int \<Rightarrow> KubernetesIPAM \<Rightarrow> IPAMConfig \<Rightarrow> loop_state \<Rightarrow> run_state \<Rightarrow> run_state" where
  "finish_range mode ipam ipamConf st rs0 =
     (let rs = rs0\<lparr>rs_ipfor := ls_ipfor st, rs_newip := ls_newip st, rs_overlapping := ls_overlapping st\<rparr>
      in if mode \<noteq> Allocate then rs
         else let c0 = commit_of ipam ipamConf st;
                  c1 = (if ls_allocationCreated st
                        then c0\<lparr>ca_pool := ls_pool st, ca_poolID := ls_poolID st, ca_ipam := Some ipam\<rparr> else c0);
                  c2 = (if ls_overlappingReservationCreated st
                        then c1\<lparr>ca_overlap := Some (ki_Namespace ipam), ca_overlapIP := ls_ipfor st,
                                ca_networkName := ic_NetworkName ipamConf, ca_podUID := ic_PodUID ipamConf\<rparr>
                        else c1)
              in rs\<lparr>rs_committed := rs_committed rs @
                      (if ls_allocationCreated st \<or> ls_overlappingReservationCreated st then [c2] else []),
                    rs_overlapping := rs_overlapping rs @
                      (if ic_OverlappingRanges ipamConf then [dummy (net_IP (ls_newip st))] else []),
                    rs_newips := rs_newips rs @ [ls_newip st]\<rparr>)"

fun all_ranges ::
  "('w, 'x) kube_scheme \<Rightarrow> os_env \<Rightarrow> int \<Rightarrow> KubernetesIPAM \<Rightarrow> IPAMConfig \<Rightarrow> IP \<Rightarrow> RangeConfiguration list
   \<Rightarrow> run_state \<Rightarrow> 'w \<Rightarrow> err option \<times> run_state \<times> 'w" where
  "all_ranges k env mode ipam ipamConf preferredIP [] rs w = (None, rs, w)"
| "all_ranges k env mode ipam ipamConf preferredIP (ipRange # rest) rs w =
     (case retry_loop DatastoreRetries k env mode ipam ipamConf preferredIP (start_range rs ipamConf ipRange) w of
        (Return e, st, w) \<Rightarrow> (Some e, rs, w)
      | (_, st, w) \<Rightarrow> (case ls_err st of
          Some e \<Rightarrow> (Some (Wrap ''IP allocation failed for range'' e), rs, w)
        | None \<Rightarrow> all_ranges k env mode ipam ipamConf preferredIP rest (finish_range mode ipam ipamConf st rs) w))"

text \<open>Lines 770--783: the pod's preferred address.\<close>

definition preferred_of ::
  "('w, 'x) kube_scheme \<Rightarrow> int \<Rightarrow> IPAMConfig \<Rightarrow> 'w \<Rightarrow> IP \<times> 'w" where
  "preferred_of k mode ipamConf w =
     (if mode = Allocate \<and> ic_PodName ipamConf \<noteq> [] \<and> ic_PodNamespace ipamConf \<noteq> []
      then (case k_GetPod k (ic_PodNamespace ipamConf) (ic_PodName ipamConf) w of
              (Inl _, w) \<Rightarrow> ([], w)
            | (Inr pod, w) \<Rightarrow>
                (case map_of (om_Annotations (po_Meta pod)) ''whereabouts.cni.cncf.io/preferred-ip'' of
                   None \<Rightarrow> ([], w)
                 | Some preferred \<Rightarrow> (ParseIP preferred, w)))
      else ([], w))"

definition IPManagementKubernetesUpdate ::
  "('w, 'x) kube_scheme \<Rightarrow> os_env \<Rightarrow> int \<Rightarrow> KubernetesIPAM \<Rightarrow> IPAMConfig \<Rightarrow> 'w
   \<Rightarrow> IPNet list \<times> err option \<times> 'w" where
  "IPManagementKubernetesUpdate k env mode ipam ipamConf w =
     (if mode \<noteq> Allocate \<and> mode \<noteq> Deallocate
      then ([], Some (Msg ''got an unknown mode passed to IPManagement''), w)
      else let (preferredIP, w) = preferred_of k mode ipamConf w;
               rs0 = \<lparr> rs_newips = [], rs_committed = [], rs_overlapping = [], rs_ipfor = [],
                       rs_newip = \<lparr> net_IP = [], net_Mask = [] \<rparr> \<rparr>;
               (err, rs, w) = all_ranges k env mode ipam ipamConf preferredIP (ic_IPRanges ipamConf) rs0 w;
               w = (if err \<noteq> None \<and> mode = Allocate \<and> rs_committed rs \<noteq> []
                    then rollbackCommitted k (rs_committed rs) w else w)
           in (rs_newips rs, err, w))"

subsection \<open>Leader election\<close>

definition lease_name ::
  "('w, 'x) kube_scheme \<Rightarrow> os_env \<Rightarrow> KubernetesIPAM \<Rightarrow> 'w \<Rightarrow> string option \<times> 'w" where
  "lease_name k env ipam w =
     (if ic_NodeSliceSize (ki_Config ipam) = [] then (Some ''whereabouts'', w)
      else case getNodeName env ipam of
             Inl _ \<Rightarrow> (None, w)
           | Inr hostname \<Rightarrow> (case GetNodeSlicePoolRange k ipam hostname w of
               (Inl _, w) \<Rightarrow> (None, w)
             | (Inr nodeSliceRange, w) \<Rightarrow>
                 (Some (IPPoolName \<lparr> pi_IPRange = nodeSliceRange, pi_NetworkName = ic_NetworkName (ki_Config ipam),
                                     pi_NodeName = hostname \<rparr>), w)))"

record leader_elector =
  le_Name :: string
  le_Namespace :: string
  le_Identity :: string
  le_LeaseDuration :: int
  le_RenewDeadline :: int
  le_RetryPeriod :: int

text \<open>
  \<^verbatim>\<open>leaderelection.NewLeaderElector\<close> rejects inconsistent durations: it is the parameter \<open>accept\<close>.
\<close>

definition newLeaderElector ::
  "('w, 'x) kube_scheme \<Rightarrow> (leader_elector \<Rightarrow> bool) \<Rightarrow> os_env \<Rightarrow> KubernetesIPAM \<Rightarrow> 'w \<Rightarrow> leader_elector option \<times> 'w" where
  "newLeaderElector k accept env ipam w = (case lease_name k env ipam w of
     (None, w) \<Rightarrow> (None, w)
   | (Some leaseName, w) \<Rightarrow>
       let cfg = ki_Config ipam;
           le = \<lparr> le_Name = leaseName, le_Namespace = ki_Namespace ipam,
                  le_Identity = ic_PodNamespace cfg @ ''/'' @ ic_PodName cfg,
                  le_LeaseDuration = ic_LeaderLeaseDuration cfg * 1000000,
                  le_RenewDeadline = ic_LeaderRenewDeadline cfg * 1000000,
                  le_RetryPeriod = ic_LeaderRetryPeriod cfg * 1000000 \<rparr>
       in (if accept le then Some le else None, w))"

text \<open>
  The goroutine that waits for the election takes one of three cases, whichever channel is
  ready (any of them, if several are); the second goroutine only stops the elector.
\<close>

datatype election_event = CtxDone | Elected | Deposed

definition IPManagement ::
  "('w, 'x) kube_scheme \<Rightarrow> (leader_elector \<Rightarrow> bool) \<Rightarrow> os_env \<Rightarrow> election_event \<Rightarrow> int \<Rightarrow> IPAMConfig \<Rightarrow> KubernetesIPAM \<Rightarrow> 'w
   \<Rightarrow> IPNet list \<times> err option \<times> 'w" where
  "IPManagement k accept env ev mode ipamConf ipam w =
     (if ic_PodName ipamConf = [] then ([], Some (Msg ''IPAM client initialization error: no pod name''), w)
      else case newLeaderElector k accept env ipam w of
             (None, w) \<Rightarrow> ([], Some (Msg ''failed to create leader elector''), w)
           | (Some _, w) \<Rightarrow> (case ev of
               CtxDone \<Rightarrow> ([], Some (Msg ''time limit exceeded while waiting to become leader''), w)
             | Elected \<Rightarrow> IPManagementKubernetesUpdate k env mode ipam ipamConf w
             | Deposed \<Rightarrow> ([], Some (Msg ''deposed as leader, cannot complete IP management''), w)))"

text \<open>An attempt ends with the first phase that does not go on to the next.\<close>

lemma attempt_eq:
  obtains f1 st1 w1 f2 st2 w2 f3 st3 w3 f4 st4 w4 f5 st5 w5 where
    "phase_range k env ipam conf st w = (f1, st1, w1)"
    "phase_pool k mode ipam st1 w1 = (f2, st2, w2)"
    "(if mode = Allocate then phase_assign k ipam conf pref (the (ls_pool st2)) st2 w2
      else phase_release ipam conf (the (ls_pool st2)) st2 w2) = (f3, st3, w3)"
    "phase_update k conf (the (ls_pool st2)) st3 w3 = (f4, st4, w4)"
    "phase_reserve k mode ipam conf st4 w4 = (f5, st5, w5)"
    "attempt k env mode ipam conf pref st w = (if f1 \<noteq> Next_phase then (f1, st1, w1) else if f2 \<noteq> Next_phase then (f2, st2, w2)
      else if f3 \<noteq> Next_phase then (f3, st3, w3) else if f4 \<noteq> Next_phase then (f4, st4, w4) else (f5, st5, w5))"
proof -
  obtain f1 st1 w1 where 1: "phase_range k env ipam conf st w = (f1, st1, w1)" by (metis prod_cases3)
  obtain f2 st2 w2 where 2: "phase_pool k mode ipam st1 w1 = (f2, st2, w2)" by (metis prod_cases3)
  obtain f3 st3 w3 where 3: "(if mode = Allocate then phase_assign k ipam conf pref (the (ls_pool st2)) st2 w2
      else phase_release ipam conf (the (ls_pool st2)) st2 w2) = (f3, st3, w3)" by (metis prod_cases3)
  obtain f4 st4 w4 where 4: "phase_update k conf (the (ls_pool st2)) st3 w3 = (f4, st4, w4)" by (metis prod_cases3)
  obtain f5 st5 w5 where 5: "phase_reserve k mode ipam conf st4 w4 = (f5, st5, w5)" by (metis prod_cases3)
  show thesis
    by (rule that [OF 1 2 3 4 5]) (auto simp: attempt_def 1 2 3 4 5 Let_def split: flow.splits)
qed

section \<open>The worlds of a run\<close>

context api_reads
begin

lemma o_rollback_orip_loop: "R w (rollback_orip_loop k c ns n w)"
  by (induction n arbitrary: w)
    (auto split: prod.splits option.splits intro: o_refl o_trans dest!: o_update_orip)

lemma o_rollbackOverlappingReservation: "R w (rollbackOverlappingReservation k c w)"
  by (auto simp: rollbackOverlappingReservation_def o_rollback_orip_loop o_refl split: option.splits)

lemma o_backoff: "backoff_continue k st w = (f, st', w') \<Longrightarrow> R w w'"
  by (auto simp: backoff_continue_def o_retryBackoff)

lemma o_phase_range: "phase_range k env ipam conf st w = (f, st', w') \<Longrightarrow> R w w'"
  unfolding phase_range_def Let_def
  by (auto split: prod.splits sum.splits option.splits if_splits dest!: o_CtxErr o_slice_range intro: o_trans)

lemma o_phase_pool: "phase_pool k mode ipam st w = (f, st', w') \<Longrightarrow> R w w'"
  unfolding phase_pool_def
  by (auto split: prod.splits sum.splits if_splits dest!: o_get_pool o_get_existing_pool o_backoff intro: o_trans)

lemma o_phase_assign: "phase_assign k ipam conf pref pool st w = (f, st', w') \<Longrightarrow> R w w'"
  unfolding phase_assign_def phase_overlap_def Let_def
  by (auto split: prod.splits sum.splits option.splits if_splits dest!: o_get_orip o_update_orip intro: o_trans o_refl)

lemma o_preferred_of: "preferred_of k mode conf w = (ip, w') \<Longrightarrow> R w w'"
  unfolding preferred_of_def
  by (auto split: prod.splits sum.splits option.splits if_splits dest!: o_GetPod intro: o_refl)

end

context api_order
begin

lemma o_rollback_on: "rollback_on k c pool w = (r, w') \<Longrightarrow> R w w'"
  unfolding rollback_on_def Let_def
  by (auto split: prod.splits option.splits if_splits dest!: o_Update intro: o_refl o_trans [OF _ o_rollbackOverlappingReservation])

lemma o_rollback_retry: "R w (rollback_retry k c n pool w)"
proof (induction n arbitrary: pool w)
  case (Suc n)
  show ?case
    by (auto split: prod.splits sum.splits option.splits dest!: o_rollback_on o_get_existing_pool
        intro: o_refl o_trans [OF _ Suc.IH] o_trans)
qed (simp add: o_refl)

lemma o_rollback_one: "R w (rollback_one k c w)"
  unfolding rollback_one_def
  by (auto split: prod.splits sum.splits option.splits dest!: o_rollback_on
      intro: o_rollbackOverlappingReservation o_trans [OF _ o_rollback_retry])

lemma o_rollbackCommitted: "R w (rollbackCommitted k cs w)"
  by (induction cs arbitrary: w) (auto intro: o_refl o_trans [OF o_rollback_one])

lemma o_phase_update: "phase_update k conf pool st w = (f, st', w') \<Longrightarrow> R w w'"
  unfolding phase_update_def Let_def
  by (auto split: prod.splits option.splits if_splits dest!: o_Update o_backoff intro: o_refl o_Sleep o_trans o_trans [OF o_Sleep])

lemma o_phase_reserve: "phase_reserve k mode ipam conf st w = (f, st', w') \<Longrightarrow> R w w'"
  unfolding phase_reserve_def Let_def
  by (auto split: prod.splits option.splits if_splits dest!: o_update_orip o_backoff
      intro: o_refl o_trans o_trans [OF _ o_rollback_one] o_trans [OF _ o_trans [OF o_rollback_one]])

lemma o_attempt: "attempt k env mode ipam conf pref st w = (f, st', w') \<Longrightarrow> R w w'"
proof (rule attempt_eq [of k env ipam conf st w mode pref])
  fix f1 st1 w1 f2 st2 w2 f3 st3 w3 f4 st4 w4 f5 st5 w5
  assume a: "attempt k env mode ipam conf pref st w = (f, st', w')"
    and p: "phase_range k env ipam conf st w = (f1, st1, w1)" "phase_pool k mode ipam st1 w1 = (f2, st2, w2)"
    "(if mode = Allocate then phase_assign k ipam conf pref (the (ls_pool st2)) st2 w2
      else phase_release ipam conf (the (ls_pool st2)) st2 w2) = (f3, st3, w3)"
    "phase_update k conf (the (ls_pool st2)) st3 w3 = (f4, st4, w4)" "phase_reserve k mode ipam conf st4 w4 = (f5, st5, w5)"
    "attempt k env mode ipam conf pref st w = (if f1 \<noteq> Next_phase then (f1, st1, w1) else if f2 \<noteq> Next_phase then (f2, st2, w2)
      else if f3 \<noteq> Next_phase then (f3, st3, w3) else if f4 \<noteq> Next_phase then (f4, st4, w4) else (f5, st5, w5))"
  have "R w2 w3"
    using p(3) o_phase_assign by (auto simp: phase_release_def Let_def o_refl split: if_splits prod.splits)
  then have "R w w1" "R w w2" "R w w3" "R w w4" "R w w5"
    using o_phase_range [OF p(1)] o_phase_pool [OF p(2)] o_phase_update [OF p(4)] o_phase_reserve [OF p(5)] by (meson o_trans)+
  then show "R w w'" using a p(6) by (auto split: if_splits)
qed

lemma o_retry_loop: "retry_loop n k env mode ipam conf pref st w = (f, st', w') \<Longrightarrow> R w w'"
proof (induction n arbitrary: st w)
  case (Suc n)
  obtain f1 st1 w1 where a: "attempt k env mode ipam conf pref st w = (f1, st1, w1)" by (metis prod_cases3)
  show ?case using Suc o_attempt [OF a] a by (cases f1) (auto intro: o_trans)
qed (simp add: o_refl)

lemma o_all_ranges: "all_ranges k env mode ipam conf pref ranges rs w = (e, rs', w') \<Longrightarrow> R w w'"
proof (induction ranges arbitrary: rs w)
  case (Cons r ranges)
  obtain f st w1 where a: "retry_loop DatastoreRetries k env mode ipam conf pref (start_range rs conf r) w = (f, st, w1)"
    by (metis prod_cases3)
  show ?case using Cons o_retry_loop [OF a] a by (auto split: flow.splits option.splits intro: o_trans)
qed (simp add: o_refl)

end

section \<open>What a successful attempt has done\<close>

lemma AssignIP_mem:
  assumes "AssignIP conf rl c q i = Some (Inr (ipn, rl'))" "\<forall>r\<in>set rl. ir_PodRef r = q \<longrightarrow> \<not> ir_IsAllocated r"
  shows "\<exists>r\<in>set rl'. ir_IP r = net_IP ipn \<and> ir_ContainerID r = c \<and> ir_PodRef r = q \<and> ir_IfName r = i
    \<and> \<not> ir_IsAllocated r"
proof (cases "\<exists>r\<in>set rl. ir_PodRef r = q \<and> ir_IfName r = i")
  case True
  then obtain xs r ys where "rl = xs @ r # ys" "rl' = xs @ r\<lparr>ir_ContainerID := c\<rparr> # ys" "net_IP ipn = ir_IP r"
      "ir_PodRef r = q" "ir_IfName r = i"
    using AssignIP_existing [OF assms(1)] by blast
  then show ?thesis using assms(2) by (intro bexI [of _ "r\<lparr>ir_ContainerID := c\<rparr>"]) auto
next
  case False
  then have ex: "existing_loop c q i rl = None" using existing_loop_None by blast
  have "rl' = rl @ [new_reservation (net_IP ipn) c q i]"
    using assms(1) ex
    by (auto simp: AssignIP_def IterateForAssignment_def pickForAssignment_def Let_def
        split: sum.splits if_splits option.splits prod.splits)
  then show ?thesis by (simp add: new_reservation_def)
qed

lemma Allocations_not_dummy: "r \<in> set (Allocations p) \<Longrightarrow> \<not> ir_IsAllocated r"
proof -
  have "r \<in> set (toIPReservationList m f) \<Longrightarrow> \<not> ir_IsAllocated r" for m f
    by (induction m f rule: toIPReservationList.induct) (auto split: option.splits if_splits)
  then show "r \<in> set (Allocations p) \<Longrightarrow> \<not> ir_IsAllocated r" by (simp add: Allocations_def)
qed

lemma GetPodRef_not_Nil [simp]: "GetPodRef conf \<noteq> []"
  by (simp add: GetPodRef_def)

text \<open>Between the passes only dummies, which belong to no pod, are kept in the local list.\<close>

definition only_dummies :: "IPReservation list \<Rightarrow> bool" where
  "only_dummies rl \<longleftrightarrow> list_all (\<lambda>r. \<exists>ip. r = dummy ip) rl"

lemma dummy_IP [simp]: "ir_IP (dummy ip) = ip"
  by (simp add: dummy_def)

lemma only_dummies_simps [simp]:
  "only_dummies []" "only_dummies (xs @ ys) \<longleftrightarrow> only_dummies xs \<and> only_dummies ys" "only_dummies [dummy ip]"
  by (auto simp: only_dummies_def)

lemma only_dummies_map: "only_dummies rl \<Longrightarrow> \<exists>ds. rl = map dummy ds"
  unfolding only_dummies_def ex_map_conv list_all_iff .

lemma only_dummies_PodRef: "only_dummies rl \<Longrightarrow> r \<in> set rl \<Longrightarrow> ir_PodRef r = [] \<and> ir_IsAllocated r"
  by (auto simp: only_dummies_def list_all_iff dummy_def)

text \<open>The pod's own reservation of an address was in the cluster-wide store between two worlds.\<close>

definition owns_orip ::
  "('w, 'x) kube_scheme \<Rightarrow> KubernetesIPAM \<Rightarrow> IPAMConfig \<Rightarrow> IP \<Rightarrow> 'w \<Rightarrow> 'w \<Rightarrow> bool" where
  "owns_orip k ipam ipamConf ip w w1 \<longleftrightarrow>
     (\<exists>w0 res w0'. reaches k w w0
        \<and> GetOverlappingRangeIPReservation k (ki_Namespace ipam) ip (ic_NetworkName ipamConf) w0 = (Inr (Some res), w0')
        \<and> os_PodRef (ov_Spec res) = GetPodRef ipamConf \<and> os_IfName (ov_Spec res) = ki_IfName ipam \<and> reaches k w0' w1)"

lemma phase_overlap_next:
  assumes "phase_overlap k ipam conf st w = (Next_phase, st', w')"
  shows "ls_newip st' = ls_newip st" "ls_updated st' = ls_updated st" "ls_skipPool st' = ls_skipPool st"
    "ls_ipfor st' = net_IP (ls_newip st)" "ls_err st' = ls_err st"
    "ls_skipOverlapping st' \<Longrightarrow> \<not> ls_skipOverlapping st \<Longrightarrow> owns_orip k ipam conf (net_IP (ls_newip st)) w w'"
    "ls_ipRange st' = ls_ipRange st"
  using assms unfolding phase_overlap_def Let_def
  by (auto split: prod.splits sum.splits option.splits if_splits simp: owns_orip_def)

lemma phase_assign_next:
  assumes "phase_assign k ipam conf pref pool st w = (Next_phase, st', w')" "only_dummies (ls_overlapping st)"
    "\<not> ls_skipOverlapping st"
  shows "\<exists>r\<in>set (ls_updated st'). ir_IP r = net_IP (ls_newip st') \<and> ir_ContainerID r = ki_ContainerID ipam
      \<and> ir_PodRef r = GetPodRef conf \<and> ir_IfName r = ki_IfName ipam \<and> \<not> ir_IsAllocated r"
    "ls_skipPool st' = ls_skipPool st"
    "ic_OverlappingRanges conf \<Longrightarrow> ls_ipfor st' = net_IP (ls_newip st')"
    "ls_skipOverlapping st' \<Longrightarrow> owns_orip k ipam conf (net_IP (ls_newip st')) w w'"
    "\<exists>ds. AssignIP (ls_ipRange st') (Allocations pool @ map dummy ds) (ki_ContainerID ipam) (GetPodRef conf) (ki_IfName ipam)
       = Some (Inr (ls_newip st', ls_updated st'))"
proof -
  define rl where "rl = Allocations pool @ ls_overlapping st"
  define conf' where "conf' = (if pref \<noteq> [] then (ls_ipRange st)\<lparr>rc_PreferredIP := pref\<rparr> else ls_ipRange st)"
  obtain newip updated where a: "AssignIP conf' rl (ki_ContainerID ipam) (GetPodRef conf) (ki_IfName ipam) = Some (Inr (newip, updated))"
    using assms(1) AssignIP_total [of conf' rl "ki_ContainerID ipam" "GetPodRef conf" "ki_IfName ipam"]
    unfolding phase_assign_def rl_def conf'_def Let_def by (auto split: sum.splits prod.splits)
  have own: "\<forall>r\<in>set rl. ir_PodRef r = GetPodRef conf \<longrightarrow> \<not> ir_IsAllocated r"
  proof (intro ballI impI)
    fix r assume r: "r \<in> set rl" "ir_PodRef r = GetPodRef conf"
    then have "r \<notin> set (ls_overlapping st)"
      using only_dummies_PodRef [OF assms(2)] GetPodRef_not_Nil [of conf] by metis
    with r(1) show "\<not> ir_IsAllocated r" using Allocations_not_dummy by (auto simp: rl_def)
  qed
  define st1 where "st1 = st\<lparr>ls_ipRange := conf', ls_newip := newip, ls_updated := updated, ls_err := None,
    ls_allocationCreated := \<not> allocationAlreadyInPool (Allocations pool) (net_IP newip) (GetPodRef conf) (ki_IfName ipam)\<rparr>"
  have run: "(if ic_OverlappingRanges conf then phase_overlap k ipam conf st1 w else (Next_phase, st1, w)) = (Next_phase, st', w')"
    using assms(1) a by (simp add: phase_assign_def Let_def rl_def [symmetric] conf'_def [symmetric] st1_def split: if_splits)
  have eqs: "ls_newip st' = newip \<and> ls_updated st' = updated \<and> ls_skipPool st' = ls_skipPool st
      \<and> (ic_OverlappingRanges conf \<longrightarrow> ls_ipfor st' = net_IP newip)
      \<and> (ls_skipOverlapping st' \<longrightarrow> owns_orip k ipam conf (net_IP newip) w w') \<and> ls_ipRange st' = conf'"
  proof (cases "ic_OverlappingRanges conf")
    case True
    then show ?thesis using run phase_overlap_next [of k ipam conf st1 w st' w'] assms(3) by (simp add: st1_def)
  next
    case False
    then show ?thesis using run assms(3) by (auto simp: st1_def)
  qed
  show "\<exists>r\<in>set (ls_updated st'). ir_IP r = net_IP (ls_newip st') \<and> ir_ContainerID r = ki_ContainerID ipam
      \<and> ir_PodRef r = GetPodRef conf \<and> ir_IfName r = ki_IfName ipam \<and> \<not> ir_IsAllocated r"
    using AssignIP_mem [OF a own] eqs by simp
  show "ls_skipPool st' = ls_skipPool st" "ic_OverlappingRanges conf \<Longrightarrow> ls_ipfor st' = net_IP (ls_newip st')"
    "ls_skipOverlapping st' \<Longrightarrow> owns_orip k ipam conf (net_IP (ls_newip st')) w w'"
    using eqs by simp_all
  show "\<exists>ds. AssignIP (ls_ipRange st') (Allocations pool @ map dummy ds) (ki_ContainerID ipam) (GetPodRef conf) (ki_IfName ipam)
       = Some (Inr (ls_newip st', ls_updated st'))"
    using a eqs only_dummies_map [OF assms(2)] unfolding rl_def by metis
qed

text \<open>
  The limits of a range: a configuration derived from it in the retry loop has other bounds
  only with node slices, and another preferred address.
\<close>

definition derived :: "IPAMConfig \<Rightarrow> RangeConfiguration \<Rightarrow> RangeConfiguration \<Rightarrow> bool" where
  "derived ipamConf r r' \<longleftrightarrow> rc_OmitRanges r' = rc_OmitRanges r \<and> rc_PickAddresses r' = rc_PickAddresses r \<and> rc_L3 r' = rc_L3 r
     \<and> (ic_NodeSliceSize ipamConf = [] \<longrightarrow> r' = r\<lparr>rc_PreferredIP := rc_PreferredIP r'\<rparr>)"

text \<open>The pool of a range: its own, or the one of the node's slice, read after \<open>w\<close>.\<close>

definition pool_id ::
  "('w, 'x) kube_scheme \<Rightarrow> os_env \<Rightarrow> KubernetesIPAM \<Rightarrow> IPAMConfig \<Rightarrow> RangeConfiguration \<Rightarrow> PoolIdentifier \<Rightarrow> 'w \<Rightarrow> bool" where
  "pool_id k env ipam ipamConf r pid w \<longleftrightarrow> pi_NetworkName pid = ic_NetworkName ipamConf
     \<and> (if ic_NodeSliceSize ipamConf = [] then pi_IPRange pid = rc_Range r \<and> pi_NodeName pid = []
        else getNodeName env ipam = Inr (pi_NodeName pid)
          \<and> (\<exists>w0 w0'. reaches k w w0 \<and> GetNodeSlicePoolRange k ipam (pi_NodeName pid) w0 = (Inr (pi_IPRange pid), w0')))"

text \<open>
  Between \<open>w\<close> and \<open>w2\<close> the pool of the range was read, \<^verbatim>\<open>AssignIP\<close> gave \<open>ipn\<close> for its reservations and
  local dummies, and the API accepted the update of this pool with the pod's own reservation of
  \<open>ipn\<close> and without the dummies; \<open>w2\<close> is the world right after it.
\<close>

definition written ::
  "('w, 'x) kube_scheme \<Rightarrow> os_env \<Rightarrow> KubernetesIPAM \<Rightarrow> IPAMConfig \<Rightarrow> RangeConfiguration \<Rightarrow> IPNet \<Rightarrow> 'w \<Rightarrow> 'w \<Rightarrow> bool" where
  "written k env ipam ipamConf r ipn w w2 \<longleftrightarrow>
     (\<exists>pid pool w0 wp r' ds updated w1 pool'.
        pool_id k env ipam ipamConf r pid w \<and> reaches k w w0 \<and> GetIPPool k ipam pid w0 = (Inr pool, wp)
        \<and> derived ipamConf r r' \<and> rc_Range r' = pi_IPRange pid
        \<and> AssignIP r' (Allocations pool @ map dummy ds) (ki_ContainerID ipam) (GetPodRef ipamConf) (ki_IfName ipam)
          = Some (Inr (ipn, updated))
        \<and> reaches k wp w1 \<and> Update k pool (filter (\<lambda>x. \<not> ir_IsAllocated x) updated) w1 = (None, pool', w2)
        \<and> (\<exists>x\<in>set updated. ir_IP x = net_IP ipn \<and> ir_ContainerID x = ki_ContainerID ipam
              \<and> ir_PodRef x = GetPodRef ipamConf \<and> ir_IfName x = ki_IfName ipam \<and> \<not> ir_IsAllocated x))"

lemma derived_refl [simp]: "derived conf r r"
  by (simp add: derived_def)

lemma derived_PreferredIP [simp]: "derived conf r (r'\<lparr>rc_PreferredIP := ip\<rparr>) = derived conf r r'"
proof -
  have "r'\<lparr>rc_PreferredIP := ip\<rparr> = r\<lparr>rc_PreferredIP := ip\<rparr> \<longleftrightarrow> r' = r\<lparr>rc_PreferredIP := rc_PreferredIP r'\<rparr>"
    by (cases r; cases r') auto
  then show ?thesis by (simp add: derived_def)
qed

lemma derived_slice:
  assumes "derived conf r r'" "ic_NodeSliceSize conf \<noteq> []"
  shows "derived conf r \<lparr> rc_OmitRanges = rc_OmitRanges r', rc_Range = s, rc_RangeStart = lo, rc_RangeEnd = hi,
    rc_PickAddresses = rc_PickAddresses r', rc_PreferredIP = p, rc_L3 = rc_L3 r' \<rparr>"
  using assms by (simp add: derived_def)

lemma derived_Range: "derived conf r r' \<Longrightarrow> ic_NodeSliceSize conf = [] \<Longrightarrow> rc_Range r' = rc_Range r"
  unfolding derived_def by (cases r; cases r') auto

lemma phase_range_derived:
  assumes "phase_range k env ipam conf st w = (f, st', w')" "derived conf r (ls_ipRange st)"
  shows "derived conf r (ls_ipRange st')"
    "f = Next_phase \<Longrightarrow> pool_id k env ipam conf r (ls_poolID st') w \<and> rc_Range (ls_ipRange st') = pi_IPRange (ls_poolID st')"
  using assms derived_slice [OF assms(2)] derived_Range [OF assms(2)] unfolding phase_range_def Let_def pool_id_def
  by (auto split: prod.splits sum.splits option.splits if_splits dest: api.o_CtxErr)

lemma phase_pool_derived:
  assumes "phase_pool k mode ipam st w = (f, st', w')"
  shows "ls_ipRange st' = ls_ipRange st" "ls_poolID st' = ls_poolID st"
    "f = Next_phase \<Longrightarrow> mode = Allocate \<Longrightarrow> \<exists>pool. ls_pool st' = Some pool \<and> GetIPPool k ipam (ls_poolID st) w = (Inr pool, w')"
  using assms unfolding phase_pool_def backoff_continue_def
  by (auto split: prod.splits sum.splits if_splits simp: Allocate_def Deallocate_def)

lemma phase_assign_derived:
  assumes "phase_assign k ipam conf pref pool st w = (f, st', w')" "derived conf r (ls_ipRange st)"
  shows "derived conf r (ls_ipRange st')" "rc_Range (ls_ipRange st') = rc_Range (ls_ipRange st)"
  using assms unfolding phase_assign_def phase_overlap_def Let_def
  by (auto split: prod.splits sum.splits option.splits if_splits)

lemma phase_update_derived: "phase_update k conf pool st w = (f, st', w') \<Longrightarrow> ls_ipRange st' = ls_ipRange st"
  unfolding phase_update_def Let_def backoff_continue_def by (auto split: prod.splits option.splits if_splits)

lemma phase_reserve_derived: "phase_reserve k mode ipam conf st w = (f, st', w') \<Longrightarrow> ls_ipRange st' = ls_ipRange st"
  unfolding phase_reserve_def Let_def backoff_continue_def by (auto split: prod.splits option.splits if_splits)

lemma phase_range_next:
  assumes "phase_range k env ipam conf st w = (f, st', w')"
  shows "ls_overlapping st' = ls_overlapping st" "\<not> ls_skipOverlapping st'" "\<not> ls_skipPool st'"
    "f \<noteq> Continue" "f = Break_loop \<Longrightarrow> ls_err st' \<noteq> None"
  using assms unfolding phase_range_def Let_def by (auto split: prod.splits sum.splits option.splits if_splits)

lemma phase_pool_next:
  assumes "phase_pool k mode ipam st w = (f, st', w')"
  shows "ls_overlapping st' = ls_overlapping st" "ls_skipOverlapping st' = ls_skipOverlapping st" "ls_skipPool st' = ls_skipPool st"
    "f = Next_phase \<Longrightarrow> ls_pool st' \<noteq> None" "f = Continue \<Longrightarrow> ls_err st' \<noteq> None"
    "f = Break_loop \<Longrightarrow> mode = Deallocate"
  using assms unfolding phase_pool_def Let_def backoff_continue_def
  by (auto split: prod.splits sum.splits option.splits if_splits)

lemma phase_update_next:
  assumes "phase_update k conf pool st w = (f, st', w')"
  shows "ls_overlapping st' = ls_overlapping st" "ls_newip st' = ls_newip st" "ls_ipfor st' = ls_ipfor st"
    "ls_skipOverlapping st' = ls_skipOverlapping st" "f \<noteq> Next_phase \<Longrightarrow> ls_err st' \<noteq> None"
    "f = Next_phase \<Longrightarrow> \<not> ls_skipPool st \<Longrightarrow>
       \<exists>w1 pool'. reaches k w w1 \<and> Update k pool (filter (\<lambda>r. \<not> ir_IsAllocated r) (ls_updated st)) w1 = (None, pool', w')"
  using assms unfolding phase_update_def Let_def backoff_continue_def
  by (auto split: prod.splits sum.splits option.splits if_splits intro: api.o_Sleep)

lemma phase_reserve_next:
  assumes "phase_reserve k mode ipam conf st w = (f, st', w')"
  shows "f \<noteq> Next_phase" "ls_overlapping st' = ls_overlapping st" "ls_newip st' = ls_newip st"
    "f = Continue \<Longrightarrow> ls_err st' \<noteq> None \<and> ic_OverlappingRanges conf"
    "f = Break_loop \<Longrightarrow> ls_err st' = None \<Longrightarrow>
       (if ic_OverlappingRanges conf \<and> \<not> ls_skipOverlapping st
        then UpdateOverlappingRangeAllocation k (ki_Namespace ipam) mode (ls_ipfor st) (GetPodRef conf)
               (ki_IfName ipam) (ic_NetworkName conf) (ic_PodUID conf) w = (None, w')
        else w' = w)"
  using assms unfolding phase_reserve_def Let_def backoff_continue_def
  by (auto split: prod.splits sum.splits option.splits if_splits)

lemma phase_assign_flow:
  assumes "phase_assign k ipam conf pref pool st w = (f, st', w')"
  shows "f \<noteq> Break_loop" "f = Continue \<Longrightarrow> ic_OverlappingRanges conf"
    "\<not> ic_OverlappingRanges conf \<Longrightarrow> ls_overlapping st' = ls_overlapping st"
  using assms unfolding phase_assign_def phase_overlap_def Let_def
  by (auto split: prod.splits sum.splits option.splits if_splits)

lemma attempt_phases:
  assumes "attempt k env Allocate ipam conf pref st w = (f, st', w')" "f = Break_loop" "ls_err st' = None"
  obtains st1 w1 st2 w2 st3 w3 st4 w4 where
    "phase_range k env ipam conf st w = (Next_phase, st1, w1)"
    "phase_pool k Allocate ipam st1 w1 = (Next_phase, st2, w2)"
    "phase_assign k ipam conf pref (the (ls_pool st2)) st2 w2 = (Next_phase, st3, w3)"
    "phase_update k conf (the (ls_pool st2)) st3 w3 = (Next_phase, st4, w4)"
    "phase_reserve k Allocate ipam conf st4 w4 = (f, st', w')"
proof -
  obtain f1 st1 w1 where 1: "phase_range k env ipam conf st w = (f1, st1, w1)" by (metis prod_cases3)
  obtain f2 st2 w2 where 2: "phase_pool k Allocate ipam st1 w1 = (f2, st2, w2)" by (metis prod_cases3)
  obtain f3 st3 w3 where 3: "phase_assign k ipam conf pref (the (ls_pool st2)) st2 w2 = (f3, st3, w3)" by (metis prod_cases3)
  obtain f4 st4 w4 where 4: "phase_update k conf (the (ls_pool st2)) st3 w3 = (f4, st4, w4)" by (metis prod_cases3)
  note run = assms(1) [unfolded attempt_def 1 Let_def]
  have f1: "f1 = Next_phase"
    using run phase_range_next(4,5) [OF 1] assms(2,3) by (cases f1) auto
  have f2: "f2 = Next_phase"
    using run [unfolded f1] 2 phase_pool_next(6) [OF 2] assms(2)
    by (cases f2) (auto simp: Allocate_def Deallocate_def)
  have f3: "f3 = Next_phase"
    using run [unfolded f1] 2 f2 3 phase_assign_flow(1) [OF 3] assms(2) by (cases f3) auto
  have f4: "f4 = Next_phase"
    using run [unfolded f1] 2 f2 3 f3 4 phase_update_next(5) [OF 4] assms(2,3) by (cases f4) auto
  show thesis
    using that 1 2 3 4 f1 f2 f3 f4 run by simp
qed

lemma attempt_success:
  assumes "attempt k env Allocate ipam conf pref st w = (Break_loop, st', w')" "ls_err st' = None"
    "only_dummies (ls_overlapping st)" "derived conf r (ls_ipRange st)"
  shows "\<exists>w2. written k env ipam conf r (ls_newip st') w w2
    \<and> (if ic_OverlappingRanges conf
       then (owns_orip k ipam conf (net_IP (ls_newip st')) w w2 \<and> w' = w2)
         \<or> UpdateOverlappingRangeAllocation k (ki_Namespace ipam) Allocate (net_IP (ls_newip st')) (GetPodRef conf)
             (ki_IfName ipam) (ic_NetworkName conf) (ic_PodUID conf) w2 = (None, w')
       else w' = w2)"
proof -
  obtain st1 w1 st2 w2 st3 w3 st4 w4 where p:
    "phase_range k env ipam conf st w = (Next_phase, st1, w1)"
    "phase_pool k Allocate ipam st1 w1 = (Next_phase, st2, w2)"
    "phase_assign k ipam conf pref (the (ls_pool st2)) st2 w2 = (Next_phase, st3, w3)"
    "phase_update k conf (the (ls_pool st2)) st3 w3 = (Next_phase, st4, w4)"
    "phase_reserve k Allocate ipam conf st4 w4 = (Break_loop, st', w')"
    using attempt_phases [OF assms(1) refl assms(2)] .
  note r = phase_range_next [OF p(1)] phase_pool_next [OF p(2)]
  have od: "only_dummies (ls_overlapping st2)" "\<not> ls_skipOverlapping st2" using r assms(3) by simp_all
  note a = phase_assign_next [OF p(3) od]
  note u = phase_update_next [OF p(4)] and v = phase_reserve_next [OF p(5)]
  obtain w0 pool' where up: "reaches k w3 w0"
      "Update k (the (ls_pool st2)) (filter (\<lambda>r. \<not> ir_IsAllocated r) (ls_updated st3)) w0 = (None, pool', w4)"
    using u(6) a(2) r by auto
  have ip: "ls_newip st' = ls_newip st3" using u v by simp
  note d1 = phase_range_derived [OF p(1) assms(4)] and d2 = phase_pool_derived [OF p(2)]
  have d: "derived conf r (ls_ipRange st3)" "rc_Range (ls_ipRange st3) = pi_IPRange (ls_poolID st1)"
    using phase_assign_derived [OF p(3), of r] d1 d2 by simp_all
  have reach: "reaches k w w1" "reaches k w2 w0" "reaches k w w2" "reaches k w3 w4"
    using api.o_phase_range [OF p(1)] api.o_phase_pool [OF p(2)] api.o_phase_assign [OF p(3)] up(1)
      api.o_phase_update [OF p(4)] by (auto intro: rtranclp_trans)
  obtain ds where as: "AssignIP (ls_ipRange st3) (Allocations (the (ls_pool st2)) @ map dummy ds) (ki_ContainerID ipam) (GetPodRef conf) (ki_IfName ipam)
       = Some (Inr (ls_newip st3, ls_updated st3))" using a(5) by blast
  have get: "GetIPPool k ipam (ls_poolID st1) w1 = (Inr (the (ls_pool st2)), w2)" using d2(3) by auto
  have "written k env ipam conf r (ls_newip st') w w4"
    unfolding written_def ip
    by (intro exI conjI) (rule d1(2) [OF refl, THEN conjunct1] reach(1) get d as reach(2) up(2) a(1))+
  moreover have "owns_orip k ipam conf (net_IP (ls_newip st3)) w w4" if "ls_skipOverlapping st3"
    using a(4) [OF that] reach(3,4) unfolding owns_orip_def by (blast intro: rtranclp_trans)
  ultimately show ?thesis using v(5) assms(2) u(3,4) a(3) ip by (intro exI [of _ w4]) auto
qed

text \<open>Without overlapping ranges an attempt only asks for another one after an error.\<close>

lemma attempt_no_overlap:
  assumes "attempt k env Allocate ipam conf pref st w = (f, st', w')" "\<not> ic_OverlappingRanges conf"
  shows "f \<noteq> Next_phase" "f = Continue \<Longrightarrow> ls_err st' \<noteq> None" "ls_overlapping st' = ls_overlapping st"
proof -
  obtain f1 st1 w1 f2 st2 w2 f3 st3 w3 f4 st4 w4 f5 st5 w5 where
    1: "phase_range k env ipam conf st w = (f1, st1, w1)" and 2: "phase_pool k Allocate ipam st1 w1 = (f2, st2, w2)"
    and 3: "phase_assign k ipam conf pref (the (ls_pool st2)) st2 w2 = (f3, st3, w3)"
    and 4: "phase_update k conf (the (ls_pool st2)) st3 w3 = (f4, st4, w4)" and 5: "phase_reserve k Allocate ipam conf st4 w4 = (f5, st5, w5)"
    and run: "(f, st', w') = (if f1 \<noteq> Next_phase then (f1, st1, w1) else if f2 \<noteq> Next_phase then (f2, st2, w2)
      else if f3 \<noteq> Next_phase then (f3, st3, w3) else if f4 \<noteq> Next_phase then (f4, st4, w4) else (f5, st5, w5))"
    by (rule attempt_eq [of k env ipam conf st w Allocate pref]; rule that) (use assms(1) in simp_all)
  have "f \<noteq> Next_phase \<and> (f = Continue \<longrightarrow> ls_err st' \<noteq> None) \<and> ls_overlapping st' = ls_overlapping st"
    using run phase_range_next(1,4) [OF 1] phase_pool_next(1,5) [OF 2] phase_assign_flow(2,3) [OF 3]
      phase_update_next(1,5) [OF 4] phase_reserve_next(1,2,4) [OF 5] assms(2)
    by (auto split: if_splits)
  then show "f \<noteq> Next_phase" "f = Continue \<Longrightarrow> ls_err st' \<noteq> None" "ls_overlapping st' = ls_overlapping st" by auto
qed

lemma attempt_derived:
  assumes "attempt k env Allocate ipam conf pref st w = (f, st', w')" "derived conf r (ls_ipRange st)"
  shows "derived conf r (ls_ipRange st')"
proof -
  obtain f1 st1 w1 f2 st2 w2 f3 st3 w3 f4 st4 w4 f5 st5 w5 where
    1: "phase_range k env ipam conf st w = (f1, st1, w1)" and 2: "phase_pool k Allocate ipam st1 w1 = (f2, st2, w2)"
    and 3: "phase_assign k ipam conf pref (the (ls_pool st2)) st2 w2 = (f3, st3, w3)"
    and 4: "phase_update k conf (the (ls_pool st2)) st3 w3 = (f4, st4, w4)" and 5: "phase_reserve k Allocate ipam conf st4 w4 = (f5, st5, w5)"
    and run: "(f, st', w') = (if f1 \<noteq> Next_phase then (f1, st1, w1) else if f2 \<noteq> Next_phase then (f2, st2, w2)
      else if f3 \<noteq> Next_phase then (f3, st3, w3) else if f4 \<noteq> Next_phase then (f4, st4, w4) else (f5, st5, w5))"
    by (rule attempt_eq [of k env ipam conf st w Allocate pref]; rule that) (use assms(1) in simp_all)
  have "st' \<in> {st1, st2, st3, st4, st5}" using run by (auto split: if_splits)
  then show ?thesis
    using phase_range_derived(1) [OF 1 assms(2)] phase_pool_derived(1) [OF 2] phase_assign_derived(1) [OF 3, of r]
      phase_update_derived [OF 4] phase_reserve_derived [OF 5] by auto
qed

lemma retry_loop_no_overlap:
  assumes "retry_loop n k env Allocate ipam conf pref st w = (f, st', w')" "\<not> ic_OverlappingRanges conf"
    "\<forall>e. f \<noteq> Return e" "ls_err st' = None" "ls_overlapping st = []" "n > 0 \<or> ls_err st \<noteq> None"
    "derived conf r (ls_ipRange st)"
  shows "(\<exists>w1. reaches k w w1 \<and> written k env ipam conf r (ls_newip st') w1 w') \<and> ls_overlapping st' = []"
  using assms
proof (induction n arbitrary: st w)
  case 0
  then show ?case by simp
next
  case (Suc n)
  obtain f1 st1 w1 where a: "attempt k env Allocate ipam conf pref st w = (f1, st1, w1)" by (metis prod_cases3)
  note na = attempt_no_overlap [OF a Suc.prems(2)]
  show ?case
  proof (cases f1)
    case Continue
    then have "(\<exists>w2. reaches k w1 w2 \<and> written k env ipam conf r (ls_newip st') w2 w') \<and> ls_overlapping st' = []"
      using Suc.IH [of st1 w1] Suc.prems a na attempt_derived [OF a Suc.prems(7)] by simp
    then show ?thesis using api.o_attempt [OF a] by (blast intro: rtranclp_trans)
  next
    case Break_loop
    then have e: "st' = st1" "w' = w1" using Suc.prems(1) a by simp_all
    have "attempt k env Allocate ipam conf pref st w = (Break_loop, st1, w1)" "ls_err st1 = None"
      using a Break_loop Suc.prems(4) e by simp_all
    from attempt_success [OF this _ Suc.prems(7)] show ?thesis using e na(3) Suc.prems(2,5) by auto
  qed (use Suc.prems a na in auto)
qed

lemma all_ranges_no_overlap:
  assumes "all_ranges k env Allocate ipam conf pref ranges rs w = (None, rs', w')"
    "\<not> ic_OverlappingRanges conf" "rs_overlapping rs = []"
  shows "\<exists>ips. rs_newips rs' = rs_newips rs @ ips \<and> list_all2 (\<lambda>r ip. \<exists>w1 w2. reaches k w w1 \<and> written k env ipam conf r ip w1 w2 \<and> reaches k w2 w') ranges ips"
  using assms
proof (induction ranges arbitrary: rs w)
  case Nil
  then show ?case by simp
next
  case (Cons ipRange rest)
  obtain f st w1 where r: "retry_loop DatastoreRetries k env Allocate ipam conf pref (start_range rs conf ipRange) w = (f, st, w1)"
    by (metis prod_cases3)
  have ok: "\<forall>e. f \<noteq> Return e" "ls_err st = None"
    using Cons.prems(1) r by (auto split: flow.splits option.splits)
  have wr: "(\<exists>w0. reaches k w w0 \<and> written k env ipam conf ipRange (ls_newip st) w0 w1) \<and> ls_overlapping st = []"
    by (rule retry_loop_no_overlap [OF r Cons.prems(2) ok]) (simp_all add: start_range_def Cons.prems(3) DatastoreRetries_def)
  have rest: "all_ranges k env Allocate ipam conf pref rest (finish_range Allocate ipam conf st rs) w1 = (None, rs', w')"
    using Cons.prems(1) r ok by (auto split: flow.splits)
  have fr: "rs_overlapping (finish_range Allocate ipam conf st rs) = []"
      "rs_newips (finish_range Allocate ipam conf st rs) = rs_newips rs @ [ls_newip st]"
    using wr Cons.prems(2) by (simp_all add: finish_range_def Let_def)
  obtain ips where "rs_newips rs' = rs_newips rs @ [ls_newip st] @ ips" 
      "list_all2 (\<lambda>r ip. \<exists>w2 w3. reaches k w1 w2 \<and> written k env ipam conf r ip w2 w3 \<and> reaches k w3 w') rest ips"
    using Cons.IH [OF rest Cons.prems(2) fr(1)] fr(2) by auto
  moreover from this(2) have "list_all2 (\<lambda>r ip. \<exists>w2 w3. reaches k w w2 \<and> written k env ipam conf r ip w2 w3 \<and> reaches k w3 w') rest ips"
    by (rule list_all2_mono) (use api.o_retry_loop [OF r] in \<open>blast intro: rtranclp_trans\<close>)
  ultimately show ?case using wr api.o_all_ranges [OF rest] by (intro exI [of _ "ls_newip st # ips"]) auto
qed

text \<open>
  C5: without overlapping ranges, \<^verbatim>\<open>IPManagementKubernetesUpdate\<close> succeeds in mode
  \<^verbatim>\<open>Allocate\<close> with one address per configured range, in their order, and each of them was written
  during the call: the pool of the range was read, the address assigned on what was read, and the
  API accepted the update of this pool with the pod's own reservation.
\<close>

theorem allocate_all_written:
  assumes "IPManagementKubernetesUpdate k env Allocate ipam conf w = (ips, None, w')"
    "\<not> ic_OverlappingRanges conf"
  shows "list_all2 (\<lambda>r ip. \<exists>w1 w2. reaches k w w1 \<and> written k env ipam conf r ip w1 w2 \<and> reaches k w2 w') (ic_IPRanges conf) ips"
proof -
  obtain pref w1 where 1: "preferred_of k Allocate conf w = (pref, w1)" by fastforce
  define rs0 where "rs0 = \<lparr> rs_newips = [], rs_committed = [], rs_overlapping = [], rs_ipfor = [],
      rs_newip = \<lparr> net_IP = [], net_Mask = [] \<rparr> \<rparr>"
  obtain err rs w2 where 2: "all_ranges k env Allocate ipam conf pref (ic_IPRanges conf) rs0 w1 = (err, rs, w2)"
    by (metis prod_cases3)
  have e: "err = None" "ips = rs_newips rs" "w' = w2"
    using assms(1) 1 2 by (auto simp: IPManagementKubernetesUpdate_def Let_def rs0_def)
  then have "list_all2 (\<lambda>r ip. \<exists>w3 w4. reaches k w1 w3 \<and> written k env ipam conf r ip w3 w4 \<and> reaches k w4 w') (ic_IPRanges conf) ips"
    using all_ranges_no_overlap [OF _ assms(2), of k env ipam pref "ic_IPRanges conf" rs0 w1 rs w2] 2
    by (auto simp: rs0_def)
  then show ?thesis
    by (rule list_all2_mono) (use api.o_preferred_of [OF 1] in \<open>blast intro: rtranclp_trans\<close>)
qed

text \<open>
  C10: an attempt to allocate that ends the retry loop without an error has read the pool,
  assigned the address on what it read and written the pod's reservation, without the local
  dummies; and with overlapping ranges the cluster-wide reservation was then created, or was
  already the pod's own when the attempt looked.
\<close>

theorem attempt_reserves:
  assumes "attempt k env Allocate ipam conf pref st w = (Break_loop, st', w')" "ls_err st' = None"
    "only_dummies (ls_overlapping st)"
  shows "\<exists>w2. written k env ipam conf (ls_ipRange st) (ls_newip st') w w2
    \<and> (if ic_OverlappingRanges conf
       then (owns_orip k ipam conf (net_IP (ls_newip st')) w w2 \<and> w' = w2)
         \<or> UpdateOverlappingRangeAllocation k (ki_Namespace ipam) Allocate (net_IP (ls_newip st')) (GetPodRef conf)
             (ki_IfName ipam) (ic_NetworkName conf) (ic_PodUID conf) w2 = (None, w')
       else w' = w2)"
  by (rule attempt_success [OF assms derived_refl])

section \<open>Running out of attempts\<close>

lemma attempt_conflict:
  assumes "k_CtxErr k w = (None, w)" "ic_NodeSliceSize conf = []" "ic_OverlappingRanges conf"
    "GetIPPool k ipam \<lparr> pi_IPRange = rc_Range (ls_ipRange st), pi_NetworkName = ic_NetworkName conf, pi_NodeName = [] \<rparr> w
       = (Inr pool, w)"
    "AssignIP (ls_ipRange st) (Allocations pool @ ls_overlapping st) (ki_ContainerID ipam) (GetPodRef conf) (ki_IfName ipam)
       = Some (Inr (ipn, rl'))"
    "GetOverlappingRangeIPReservation k (ki_Namespace ipam) (net_IP ipn) (ic_NetworkName conf) w = (Inr (Some res), w)"
    "os_PodRef (ov_Spec res) \<noteq> GetPodRef conf"
  shows "\<exists>st'. attempt k env Allocate ipam conf [] st w = (Continue, st', w)
    \<and> ls_ipRange st' = ls_ipRange st \<and> ls_err st' = None \<and> ls_newip st' = ipn
    \<and> ls_overlapping st' = ls_overlapping st @ [dummy (net_IP ipn)]"
  using assms
  by (simp add: attempt_def phase_range_def phase_pool_def phase_assign_def phase_overlap_def Let_def
      Allocate_def Deallocate_def)

lemma retry_loop_conflicts:
  assumes "k_CtxErr k w = (None, w)" "ic_NodeSliceSize conf = []" "ic_OverlappingRanges conf"
    "GetIPPool k ipam \<lparr> pi_IPRange = rc_Range rc, pi_NetworkName = ic_NetworkName conf, pi_NodeName = [] \<rparr> w = (Inr pool, w)"
    and foreign: "\<forall>ip. \<exists>res. GetOverlappingRangeIPReservation k (ki_Namespace ipam) ip (ic_NetworkName conf) w = (Inr (Some res), w)
       \<and> os_PodRef (ov_Spec res) \<noteq> GetPodRef conf"
    and rc: "ParseCIDR (rc_Range rc) = Inr (i, N)" "good_net N" "rc_OmitRanges rc = []"
    "addresses_valid rc" "rc_PreferredIP rc = []" "rc_PickAddresses rc = []"
    "effectiveIPRange N (rc_RangeStart rc) (rc_RangeEnd rc) (rc_L3 rc) = Inr (f, l)"
    and rl: "reservations_valid (Allocations pool)" "\<not> (\<exists>r\<in>set (Allocations pool). ir_PodRef r = GetPodRef conf \<and> ir_IfName r = ki_IfName ipam)"
    and st: "ls_ipRange st = rc" "only_dummies (ls_overlapping st)" "reservations_valid (ls_overlapping st)"
    "length (Allocations pool) + length (ls_overlapping st) + n \<le> card {x. ip_addr f \<le> x \<and> x \<le> ip_addr l}"
    "n > 0 \<or> ls_err st = None \<and> Contains N (net_IP (ls_newip st))"
  shows "\<exists>st'. retry_loop n k env Allocate ipam conf [] st w = (Break_loop, st', w) \<and> ls_err st' = None
    \<and> Contains N (net_IP (ls_newip st'))"
  using st
proof (induction n arbitrary: st)
  case 0
  then show ?case by auto
next
  case (Suc n)
  let ?rl = "Allocations pool @ ls_overlapping st"
  have v: "reservations_valid ?rl" using rl(1) Suc.prems(3) by (simp add: reservations_valid_def)
  have o: "\<not> (\<exists>r\<in>set ?rl. ir_PodRef r = GetPodRef conf \<and> ir_IfName r = ki_IfName ipam)"
    using rl(2) only_dummies_PodRef [OF Suc.prems(2)] GetPodRef_not_Nil [of conf] by (metis Un_iff set_append)
  have "length ?rl < card {x. ip_addr f \<le> x \<and> x \<le> ip_addr l}" using Suc.prems(4) by simp
  from AssignIP_enough [OF rc(1-4) v rc(5,6) o rc(7) this, of "ki_ContainerID ipam"] obtain ip where
    a: "AssignIP rc ?rl (ki_ContainerID ipam) (GetPodRef conf) (ki_IfName ipam)
      = Some (Inr (\<lparr>net_IP = ip, net_Mask = net_Mask N\<rparr>, ?rl @ [new_reservation ip (ki_ContainerID ipam) (GetPodRef conf) (ki_IfName ipam)]))"
    and fr: "free_ip N f l ?rl [] ip" by blast
  have c: "Contains N ip" using fr by (simp add: free_ip_def)
  then have vip: "valid_ip ip" using wb.inside_valid [OF wb.good_cidr [OF rc(2)]] by blast
  obtain res where res: "GetOverlappingRangeIPReservation k (ki_Namespace ipam) ip (ic_NetworkName conf) w = (Inr (Some res), w)"
    "os_PodRef (ov_Spec res) \<noteq> GetPodRef conf" using foreign by blast
  obtain st' where s: "attempt k env Allocate ipam conf [] st w = (Continue, st', w)" "ls_ipRange st' = rc"
    "ls_err st' = None" "net_IP (ls_newip st') = ip" "ls_overlapping st' = ls_overlapping st @ [dummy ip]"
    using attempt_conflict [of k w conf ipam st pool _ _ res env] assms(1-4) a res Suc.prems(1) by fastforce
  have "\<exists>st''. retry_loop n k env Allocate ipam conf [] st' w = (Break_loop, st'', w) \<and> ls_err st'' = None
      \<and> Contains N (net_IP (ls_newip st''))"
    using s Suc.prems vip c by (intro Suc.IH) (auto simp: reservations_valid_def)
  then show ?case using s(1) by simp
qed

text \<open>
  C25: the retry loop gives up after \<^verbatim>\<open>DatastoreRetries\<close> addresses that other pods hold in
  overlapping ranges, with \<^verbatim>\<open>err\<close> still nil. The call then reports success with the last of
  these addresses, reserved by another pod, and has written nothing: the world is as before.
\<close>

theorem overlap_exhaustion_unreserved:
  assumes "k_CtxErr k w = (None, w)" "ic_NodeSliceSize conf = []" "ic_OverlappingRanges conf" "preferred_of k Allocate conf w = ([], w)"
    "GetIPPool k ipam \<lparr> pi_IPRange = rc_Range rc, pi_NetworkName = ic_NetworkName conf, pi_NodeName = [] \<rparr> w = (Inr pool, w)"
    "\<forall>ip. \<exists>res. GetOverlappingRangeIPReservation k (ki_Namespace ipam) ip (ic_NetworkName conf) w = (Inr (Some res), w)
       \<and> os_PodRef (ov_Spec res) \<noteq> GetPodRef conf"
    "ParseCIDR (rc_Range rc) = Inr (i, N)" "good_net N" "rc_OmitRanges rc = []"
    "addresses_valid rc" "rc_PreferredIP rc = []" "rc_PickAddresses rc = []"
    "effectiveIPRange N (rc_RangeStart rc) (rc_RangeEnd rc) (rc_L3 rc) = Inr (f, l)"
    "reservations_valid (Allocations pool)"
    "\<not> (\<exists>r\<in>set (Allocations pool). ir_PodRef r = GetPodRef conf \<and> ir_IfName r = ki_IfName ipam)"
    "length (Allocations pool) + 100 \<le> card {x. ip_addr f \<le> x \<and> x \<le> ip_addr l}"
    "ic_IPRanges conf = [rc]"
  shows "\<exists>ipn res. IPManagementKubernetesUpdate k env Allocate ipam conf w = ([ipn], None, w) \<and> Contains N (net_IP ipn)
    \<and> GetOverlappingRangeIPReservation k (ki_Namespace ipam) (net_IP ipn) (ic_NetworkName conf) w = (Inr (Some res), w)
    \<and> os_PodRef (ov_Spec res) \<noteq> GetPodRef conf"
proof -
  define rs0 where "rs0 = \<lparr> rs_newips = [], rs_committed = [], rs_overlapping = [], rs_ipfor = [],
      rs_newip = \<lparr> net_IP = [], net_Mask = [] \<rparr> \<rparr>"
  have "\<exists>st'. retry_loop DatastoreRetries k env Allocate ipam conf [] (start_range rs0 conf rc) w = (Break_loop, st', w)
      \<and> ls_err st' = None \<and> Contains N (net_IP (ls_newip st'))"
    by (rule retry_loop_conflicts [OF assms(1-3,5-15)])
      (use assms(16) in \<open>simp_all add: start_range_def rs0_def DatastoreRetries_def reservations_valid_def\<close>)
  then obtain st where r: "retry_loop DatastoreRetries k env Allocate ipam conf [] (start_range rs0 conf rc) w = (Break_loop, st, w)"
    "ls_err st = None" "Contains N (net_IP (ls_newip st))" by blast
  have "IPManagementKubernetesUpdate k env Allocate ipam conf w = ([ls_newip st], None, w)"
    using r assms(4,17)
    by (simp add: IPManagementKubernetesUpdate_def rs0_def [symmetric] Let_def finish_range_def)
      (simp add: rs0_def)
  then show ?thesis using r(3) assms(6) by blast
qed

subsection \<open>A small cluster\<close>

text \<open>
  The API of a cluster with one pool, of the range \<^verbatim>\<open>10.0.0.0/24\<close>; the world counts the writes.
  In the busy cluster another pod holds every address in some overlapping range.
\<close>

definition dns_ex :: DNS where
  "dns_ex = \<lparr> Nameservers = [], dns_Domain = [], Search = [], Options = [] \<rparr>"

definition range_ex :: RangeConfiguration where
  "range_ex = \<lparr> rc_OmitRanges = [], rc_Range = ''10.0.0.0/24'', rc_RangeStart = [], rc_RangeEnd = [],
     rc_PickAddresses = [], rc_PreferredIP = [], rc_L3 = False \<rparr>"

definition ipam_conf_ex :: IPAMConfig where
  "ipam_conf_ex = \<lparr> ic_Name = ''net'', ic_Type = ''whereabouts'', ic_Routes = [], ic_Addresses = [],
     ic_IPRanges = [range_ex], ic_OmitRanges = [], ic_DNS = dns_ex, ic_Range = [], ic_NodeSliceSize = [],
     ic_RangeStart = [], ic_RangeEnd = [], ic_PickAddresses = [], ic_GatewayStr = [],
     ic_LeaderLeaseDuration = 1500, ic_LeaderRenewDeadline = 1000, ic_LeaderRetryPeriod = 500,
     ic_LogFile = [], ic_LogLevel = [], ic_ReconcilerCronExpression = [], ic_OverlappingRanges = True,
     ic_ExcludeGateway = False, ic_OptimisticIPAM = False, ic_EnableL3 = False, ic_SleepForRace = 0,
     ic_Gateway = [], ic_Kubernetes = \<lparr> KubeConfigPath = [], K8sAPIRoot = [] \<rparr>, ic_ConfigurationPath = [],
     ic_PodName = ''p1'', ic_PodNamespace = ''ns'', ic_PodUID = ''u1'', ic_NetworkName = [], ic_ServiceCIDRs = [] \<rparr>"

definition ipam_ex :: KubernetesIPAM where
  "ipam_ex = newKubernetesIPAM ''c1'' ''eth0'' ipam_conf_ex ''kube-system''"

definition env_ex :: os_env where
  "env_ex = \<lparr> os_Getenv = (\<lambda>_. []), os_Open = (\<lambda>_. Inl (Msg ''no such file'')) \<rparr>"

definition pool24_ex :: IPPool where
  "pool24_ex = new_pool ''10.0.0.0-24'' ''10.0.0.0/24''"

definition quiet_kube :: "nat kube" where
  "quiet_kube = \<lparr> k_GetIPPool = (\<lambda>_ _ w. (Inr pool24_ex, w)), k_CreateIPPool = (\<lambda>_ _ w. (Inr (), Suc w)),
     k_PatchIPPool = (\<lambda>_ _ _ w. (Inr (), Suc w)), k_GetORIP = (\<lambda>_ _ w. (Inl (ApiErr NotFound), w)),
     k_CreateORIP = (\<lambda>_ _ w. (Inr (), Suc w)), k_DeleteORIP = (\<lambda>_ _ _ w. (Inr (), Suc w)),
     k_ListORIPs = (\<lambda>_ w. (Inr [], w)), k_GetNodeSlicePool = (\<lambda>_ _ w. (Inl (ApiErr NotFound), w)),
     k_GetPod = (\<lambda>_ _ w. (Inl (ApiErr NotFound), w)), k_CtxErr = (\<lambda>w. (None, w)),
     k_Rand = (\<lambda>_ w. (0, w)), k_Sleep = (\<lambda>_ w. w) \<rparr>"

definition busy_kube :: "nat kube" where
  "busy_kube = quiet_kube\<lparr>k_GetORIP := \<lambda>ns name w. (Inr (new_orip name ns ''ns/p0'' ''eth0'' ''u0''), w)\<rparr>"

theorem attempt_reserves_witness:
  "\<exists>st' w' w2. attempt quiet_kube env_ex Allocate ipam_ex ipam_conf_ex []
      (start_range \<lparr> rs_newips = [], rs_committed = [], rs_overlapping = [], rs_ipfor = [],
        rs_newip = \<lparr> net_IP = [], net_Mask = [] \<rparr> \<rparr> ipam_conf_ex range_ex) 0 = (Break_loop, st', w')
    \<and> written quiet_kube env_ex ipam_ex ipam_conf_ex range_ex (ls_newip st') 0 w2"
proof -
  define st where "st = start_range \<lparr> rs_newips = [], rs_committed = [], rs_overlapping = [], rs_ipfor = [],
        rs_newip = \<lparr> net_IP = [], net_Mask = [] \<rparr> \<rparr> ipam_conf_ex range_ex"
  have "fst (attempt quiet_kube env_ex Allocate ipam_ex ipam_conf_ex [] st 0) = Break_loop"
    "ls_err (fst (snd (attempt quiet_kube env_ex Allocate ipam_ex ipam_conf_ex [] st 0))) = None"
    unfolding st_def by code_simp+
  then obtain st' w' where "attempt quiet_kube env_ex Allocate ipam_ex ipam_conf_ex [] st 0 = (Break_loop, st', w')" "ls_err st' = None"
    by (metis prod.collapse)
  then show ?thesis using attempt_reserves [of quiet_kube env_ex ipam_ex ipam_conf_ex "[]" st 0 st' w']
    by (auto simp: st_def start_range_def)
qed

theorem allocate_all_written_witness:
  "\<exists>ips w'. IPManagementKubernetesUpdate quiet_kube env_ex Allocate ipam_ex (ipam_conf_ex\<lparr>ic_OverlappingRanges := False\<rparr>) 0
      = (ips, None, w') \<and> length ips = 1
    \<and> (\<exists>w1 w2. written quiet_kube env_ex ipam_ex (ipam_conf_ex\<lparr>ic_OverlappingRanges := False\<rparr>) range_ex (hd ips) w1 w2)"
proof -
  let ?c = "ipam_conf_ex\<lparr>ic_OverlappingRanges := False\<rparr>"
  have "fst (snd (IPManagementKubernetesUpdate quiet_kube env_ex Allocate ipam_ex ?c 0)) = None" by code_simp
  then obtain ips w' where "IPManagementKubernetesUpdate quiet_kube env_ex Allocate ipam_ex ?c 0 = (ips, None, w')"
    by (metis prod.collapse)
  moreover have c: "\<not> ic_OverlappingRanges ?c" "ic_IPRanges ?c = [range_ex]" by (simp_all add: ipam_conf_ex_def)
  ultimately show ?thesis
    using allocate_all_written [of quiet_kube env_ex ipam_ex ?c 0 ips w'] unfolding c(2) by (fastforce simp: list_all2_Cons1)
qed

theorem overlap_exhaustion_unreserved_witness:
  "\<exists>ipn. IPManagementKubernetesUpdate busy_kube env_ex Allocate ipam_ex ipam_conf_ex 0 = ([ipn], None, 0)"
proof -
  let ?N = "cidr_net (Addr4 0x0a000000) 24"
  let ?pool = "\<lparr> kp_firstIP = As16 (Addr4 0x0a000000), kp_pool = pool24_ex \<rparr>"
  have c: "int (card {x. ip_addr [10, 0, 0, 1] \<le> x \<and> x \<le> ip_addr [10, 0, 0, 254]}) = 254"
  proof -
    have f: "BitLen (ip_addr [10, 0, 0, 1]) = BitLen (ip_addr [10, 0, 0, 254])" "ip_addr [10, 0, 0, 1] \<le> ip_addr [10, 0, 0, 254]"
      "int (addr_nat (ip_addr [10, 0, 0, 254])) - int (addr_nat (ip_addr [10, 0, 0, 1])) + 1 = 254" by code_simp+
    show ?thesis unfolding card_addr_interval [OF f(1,2)] by (rule f(3))
  qed
  have al: "Allocations ?pool = []" by code_simp
  have r: "ParseCIDR (rc_Range range_ex) = Inr (As16 (Addr4 0x0a000000), ?N)" "good_net ?N" "addresses_valid range_ex"
    "effectiveIPRange ?N (rc_RangeStart range_ex) (rc_RangeEnd range_ex) (rc_L3 range_ex) = Inr ([10, 0, 0, 1], [10, 0, 0, 254])"
    by code_simp+
  have p: "GetIPPool busy_kube ipam_ex \<lparr> pi_IPRange = rc_Range range_ex, pi_NetworkName = ic_NetworkName ipam_conf_ex, pi_NodeName = [] \<rparr> 0
      = (Inr ?pool, 0)"
    using r(1) by (simp add: GetIPPool_def getPool_def with_firstIP_def busy_kube_def quiet_kube_def IPPool_ParseCIDR_def
        pool24_ex_def new_pool_def range_ex_def)
  have fg: "\<forall>ip. \<exists>res. GetOverlappingRangeIPReservation busy_kube (ki_Namespace ipam_ex) ip (ic_NetworkName ipam_conf_ex) 0
        = (Inr (Some res), 0) \<and> os_PodRef (ov_Spec res) \<noteq> GetPodRef ipam_conf_ex"
    by (simp add: GetOverlappingRangeIPReservation_def busy_kube_def new_orip_def GetPodRef_def ipam_conf_ex_def)
  have o: "ic_IPRanges ipam_conf_ex = [range_ex]" "rc_OmitRanges range_ex = []" "rc_PreferredIP range_ex = []"
      "rc_PickAddresses range_ex = []" "preferred_of busy_kube Allocate ipam_conf_ex 0 = ([], 0)"
      "ic_NodeSliceSize ipam_conf_ex = []" "ic_OverlappingRanges ipam_conf_ex" "k_CtxErr busy_kube 0 = (None, 0)"
    by (simp_all add: ipam_conf_ex_def range_ex_def preferred_of_def busy_kube_def quiet_kube_def)
  have rest: "reservations_valid (Allocations ?pool)"
      "\<not> (\<exists>r\<in>set (Allocations ?pool). ir_PodRef r = GetPodRef ipam_conf_ex \<and> ir_IfName r = ki_IfName ipam_ex)"
      "length (Allocations ?pool) + 100 \<le> card {x. ip_addr [10, 0, 0, 1] \<le> x \<and> x \<le> ip_addr [10, 0, 0, 254]}"
    unfolding al using c by (simp_all add: reservations_valid_def)
  show ?thesis
    using overlap_exhaustion_unreserved [OF o(8,6,7,5) p fg r(1,2) o(2) r(3) o(3,4) r(4) rest o(1), of env_ex] by blast
qed

section \<open>A release creates nothing\<close>

lemma create_irrelevant:
  "k_GetIPPool (k\<lparr>k_CreateIPPool := f, k_CreateORIP := g\<rparr>) = k_GetIPPool k"
  "k_PatchIPPool (k\<lparr>k_CreateIPPool := f, k_CreateORIP := g\<rparr>) = k_PatchIPPool k"
  "k_GetORIP (k\<lparr>k_CreateIPPool := f, k_CreateORIP := g\<rparr>) = k_GetORIP k"
  "k_DeleteORIP (k\<lparr>k_CreateIPPool := f, k_CreateORIP := g\<rparr>) = k_DeleteORIP k"
  "k_GetNodeSlicePool (k\<lparr>k_CreateIPPool := f, k_CreateORIP := g\<rparr>) = k_GetNodeSlicePool k"
  "k_CtxErr (k\<lparr>k_CreateIPPool := f, k_CreateORIP := g\<rparr>) = k_CtxErr k"
  "k_Rand (k\<lparr>k_CreateIPPool := f, k_CreateORIP := g\<rparr>) = k_Rand k"
  "k_Sleep (k\<lparr>k_CreateIPPool := f, k_CreateORIP := g\<rparr>) = k_Sleep k"
  by simp_all

lemma phases_create:
  "phase_range (k\<lparr>k_CreateIPPool := f, k_CreateORIP := g\<rparr>) env ipam conf st w = phase_range k env ipam conf st w"
  "phase_pool (k\<lparr>k_CreateIPPool := f, k_CreateORIP := g\<rparr>) Deallocate ipam st w = phase_pool k Deallocate ipam st w"
  "phase_update (k\<lparr>k_CreateIPPool := f, k_CreateORIP := g\<rparr>) conf pool st w = phase_update k conf pool st w"
  unfolding phase_range_def GetNodeSlicePoolRange_def phase_pool_def GetExistingIPPool_def getExistingPool_def
    phase_update_def Update_def backoff_continue_def retryBackoff_def create_irrelevant
  by simp_all

lemma release_create:
  "UpdateOverlappingRangeAllocation (k\<lparr>k_CreateIPPool := f, k_CreateORIP := g\<rparr>) ns Deallocate ip p i net uid w
   = UpdateOverlappingRangeAllocation k ns Deallocate ip p i net uid w"
  unfolding UpdateOverlappingRangeAllocation_def uid_guard_def delete_legacy_def create_irrelevant
  by (simp add: Allocate_def Deallocate_def)

lemma Deallocate_mode: "(Deallocate = Allocate) = False" "(False \<and> P) = False" "(if False then a else b) = b"
  by (simp_all add: Allocate_def Deallocate_def)

lemma phase_reserve_create:
  "phase_reserve (k\<lparr>k_CreateIPPool := f, k_CreateORIP := g\<rparr>) Deallocate ipam conf st w = phase_reserve k Deallocate ipam conf st w"
  unfolding phase_reserve_def release_create backoff_continue_def retryBackoff_def create_irrelevant
  by (simp add: Deallocate_def Allocate_def split: prod.split option.split)

lemma attempt_create:
  "attempt (k\<lparr>k_CreateIPPool := f, k_CreateORIP := g\<rparr>) env Deallocate ipam conf pref st w = attempt k env Deallocate ipam conf pref st w"
  unfolding attempt_def phases_create phase_reserve_create Deallocate_mode by (rule refl)

lemma retry_loop_create:
  "retry_loop n (k\<lparr>k_CreateIPPool := f, k_CreateORIP := g\<rparr>) env Deallocate ipam conf pref st w
   = retry_loop n k env Deallocate ipam conf pref st w"
  by (induction n arbitrary: st w) (auto simp: attempt_create split: prod.splits flow.splits)

lemma all_ranges_create:
  "all_ranges (k\<lparr>k_CreateIPPool := f, k_CreateORIP := g\<rparr>) env Deallocate ipam conf pref ranges rs w
   = all_ranges k env Deallocate ipam conf pref ranges rs w"
  by (induction ranges arbitrary: rs w) (auto simp: retry_loop_create split: prod.splits flow.splits option.splits)

text \<open>
  Releasing a pod's addresses never creates a pool or a cluster-wide reservation,
  whatever the API answers: the operations that create them may be replaced by any others
  without a change to the outcome.
\<close>

theorem Deallocate_creates_nothing:
  "IPManagementKubernetesUpdate (k\<lparr>k_CreateIPPool := f, k_CreateORIP := g\<rparr>) env Deallocate ipam conf w
   = IPManagementKubernetesUpdate k env Deallocate ipam conf w"
  unfolding IPManagementKubernetesUpdate_def preferred_of_def all_ranges_create by (simp add: Allocate_def Deallocate_def)

section \<open>Reservations of others\<close>

text \<open>
  A release for one lifecycle of a pod leaves the reservation of another lifecycle alone:
  if the stored UID is set and differs, the delete operation is not used and the release
  succeeds.
\<close>

theorem release_respects_uid:
  assumes "podUID \<noteq> []" "k_GetORIP k ns (NormalizeIP ip net) w = (Inr existing, w')"
    "os_PodUID (ov_Spec existing) \<noteq> []" "os_PodUID (ov_Spec existing) \<noteq> podUID"
  shows "UpdateOverlappingRangeAllocation (k\<lparr>k_DeleteORIP := del\<rparr>) ns Deallocate ip p i net podUID w = (None, w')"
  using assms by (simp add: UpdateOverlappingRangeAllocation_def uid_guard_def Allocate_def Deallocate_def)

theorem release_respects_uid_witness:
  "UpdateOverlappingRangeAllocation (busy_kube\<lparr>k_DeleteORIP := \<lambda>_ _ _ w. (Inr (), Suc w)\<rparr>) ''kube-system'' Deallocate
     [10, 0, 0, 1] ''ns/p0'' ''eth0'' [] ''u1'' 0 = (None, 0)"
  by (rule release_respects_uid [where existing = "new_orip ''10.0.0.1'' ''kube-system'' ''ns/p0'' ''eth0'' ''u0''"])
    (simp, code_simp, simp_all add: new_orip_def)


end
