(* ===== verification/Validation.thy ===== *)
theory Validation
  imports Types
begin

text \<open>
  \<^verbatim>\<open>internal/validation/validation.go\<close> and the three admission validators of
  \<^verbatim>\<open>internal/webhook\<close>. A validator returns its warnings or an error; metrics and logs are left
  out. The locale \<open>admission\<close> is the \<^verbatim>\<open>admission.Validator\<close> interface with what the three
  validators promise of the fields that may not change.
\<close>

section \<open>Field validation\<close>

definition ValidateCIDR :: "string \<Rightarrow> unit result" where
  "ValidateCIDR cidr =
     (if cidr = [] then Inl (Msg ''CIDR is required'')
      else case ParseCIDR cidr of
             Inl e \<Rightarrow> Inl (Wrap ''invalid CIDR'' e)
           | Inr _ \<Rightarrow> Inr ())"

definition validateOmitRange :: "string \<Rightarrow> unit result" where
  "validateOmitRange omitRange =
     (if omitRange = [] then Inl (Msg ''value is empty'')
      else case ParseCIDR omitRange of
             Inr _ \<Rightarrow> Inr ()
           | Inl _ \<Rightarrow> (case Cut (CHR ''-'') omitRange of
               Some (a, b) \<Rightarrow>
                 let start = ParseIP (TrimSpace a); stop = ParseIP (TrimSpace b)
                 in if start = [] \<or> stop = [] then Inl (Msg ''malformed IP range'')
                    else if (To4 start = []) \<noteq> (To4 stop = [])
                    then Inl (Msg ''IP range endpoints must use the same address family'')
                    else Inr ()
             | None \<Rightarrow>
                 if ParseIP omitRange \<noteq> [] then Inr ()
                 else Inl (Msg ''must be a valid CIDR, IP, or IP range'')))"

fun ValidateOmitRanges :: "string list \<Rightarrow> unit result" where
  "ValidateOmitRanges [] = Inr ()"
| "ValidateOmitRanges (omitRange # rest) = (case validateOmitRange omitRange of
     Inl e \<Rightarrow> Inl (Wrap ''omitRanges entry is not a valid CIDR or IP range'' e)
   | Inr _ \<Rightarrow> ValidateOmitRanges rest)"

definition ValidatePodRef :: "string \<Rightarrow> bool \<Rightarrow> unit result" where
  "ValidatePodRef podRef required =
     (if podRef = [] then if required then Inl (Msg ''podRef is required'') else Inr ()
      else case Cut (CHR ''/'') podRef of
             None \<Rightarrow> Inl (Msg ''podRef must contain a slash separator'')
           | Some (ns, name) \<Rightarrow>
               if TrimSpace ns = [] \<or> TrimSpace name = []
               then Inl (Msg ''podRef has an empty namespace or name component'')
               else Inr ())"

definition ValidateSliceSize :: "string \<Rightarrow> int result" where
  "ValidateSliceSize s =
     (if s = [] then Inl (Msg ''sliceSize is required'')
      else let trimmed = TrimPrefix (CHR ''/'') s
           in if CHR ''/'' \<in> set trimmed then Inl (Msg ''invalid sliceSize: must be a CIDR prefix length'')
              else case Atoi trimmed of
                     None \<Rightarrow> Inl (Msg ''invalid sliceSize: must be a CIDR prefix length'')
                   | Some sz \<Rightarrow>
                       if sz < 1 \<or> sz > 128
                       then Inl (Msg ''invalid sliceSize: prefix length must be between 1 and 128'')
                       else Inr sz)"

definition ValidateSliceSizeForRange :: "string \<Rightarrow> string \<Rightarrow> int result" where
  "ValidateSliceSizeForRange sliceSize cidr = (case ValidateSliceSize sliceSize of
     Inl e \<Rightarrow> Inl e
   | Inr sz \<Rightarrow> (case ParseCIDR cidr of
       Inl e \<Rightarrow> Inl (Wrap ''invalid CIDR'' e)
     | Inr (_, ipNet) \<Rightarrow>
         let (rangePrefix, addressBits) = Mask_Size (net_Mask ipNet)
         in if addressBits = 0 then Inl (Msg ''invalid CIDR: could not determine address family'')
            else if sz > int addressBits then Inl (Msg ''invalid sliceSize: prefix length out of range'')
            else if sz < int rangePrefix
            then Inl (Msg ''invalid sliceSize: prefix length must not be broader than range prefix'')
            else Inr sz))"

section \<open>Admission validators\<close>

subsection \<open>IPPool\<close>

definition validateAllocationKey :: "string \<Rightarrow> unit result" where
  "validateAllocationKey key = (case big_SetString key of
     None \<Rightarrow> Inl (Msg ''invalid allocation key'')
   | Some offset \<Rightarrow> if offset < 0 then Inl (Msg ''invalid allocation key'') else Inr ())"

fun validate_allocs :: "allocations \<Rightarrow> string list \<Rightarrow> string list result" where
  "validate_allocs [] warnings = Inr warnings"
| "validate_allocs ((key, a) # rest) warnings = (case validateAllocationKey key of
     Inl e \<Rightarrow> Inl e
   | Inr _ \<Rightarrow>
       if ia_PodRef a = [] then validate_allocs rest (warnings @ [''allocation '' @ key @ '' has empty podRef''])
       else case ValidatePodRef (ia_PodRef a) False of
              Inl e \<Rightarrow> Inl (Wrap ''allocation'' e)
            | Inr _ \<Rightarrow> validate_allocs rest warnings)"

definition validateIPPool :: "IPPool \<Rightarrow> string list result" where
  "validateIPPool pool = (case ValidateCIDR (ps_Range (ip_Spec pool)) of
     Inl e \<Rightarrow> Inl (Wrap ''invalid spec.range'' e)
   | Inr _ \<Rightarrow> validate_allocs (ps_Allocations (ip_Spec pool)) [])"

definition IPPool_ValidateCreate :: "IPPool \<Rightarrow> string list result" where
  "IPPool_ValidateCreate pool = validateIPPool pool"

definition IPPool_ValidateUpdate :: "IPPool option \<Rightarrow> IPPool \<Rightarrow> string list result" where
  "IPPool_ValidateUpdate oldPool pool = (case oldPool of
     Some old \<Rightarrow>
       if ps_Range (ip_Spec old) \<noteq> ps_Range (ip_Spec pool) then Inl (Msg ''spec.range is immutable'')
       else validateIPPool pool
   | None \<Rightarrow> validateIPPool pool)"

definition IPPool_ValidateDelete :: "IPPool \<Rightarrow> string list result" where
  "IPPool_ValidateDelete pool = Inr []"

subsection \<open>NodeSlicePool\<close>

definition validateNodeSlicePool :: "NodeSlicePool \<Rightarrow> unit result" where
  "validateNodeSlicePool pool = (case ValidateCIDR (ns_Range (np_Spec pool)) of
     Inl e \<Rightarrow> Inl (Wrap ''invalid spec.range'' e)
   | Inr _ \<Rightarrow> (case ValidateSliceSizeForRange (ns_SliceSize (np_Spec pool)) (ns_Range (np_Spec pool)) of
       Inl e \<Rightarrow> Inl (Wrap ''invalid spec.sliceSize'' e)
     | Inr _ \<Rightarrow> Inr ()))"

definition NodeSlicePool_ValidateCreate :: "NodeSlicePool \<Rightarrow> string list result" where
  "NodeSlicePool_ValidateCreate pool = map_sum id (\<lambda>_. []) (validateNodeSlicePool pool)"

definition immutable_errs :: "NodeSlicePool option \<Rightarrow> NodeSlicePool \<Rightarrow> err list" where
  "immutable_errs oldPool pool = (case oldPool of
     None \<Rightarrow> []
   | Some old \<Rightarrow>
       (if ns_Range (np_Spec old) \<noteq> ns_Range (np_Spec pool) then [Msg ''spec.range is immutable''] else [])
       @ (if ns_SliceSize (np_Spec old) \<noteq> ns_SliceSize (np_Spec pool) then [Msg ''spec.sliceSize is immutable''] else []))"

definition NodeSlicePool_ValidateUpdate :: "NodeSlicePool option \<Rightarrow> NodeSlicePool \<Rightarrow> string list result" where
  "NodeSlicePool_ValidateUpdate oldPool pool =
     (if immutable_errs oldPool pool \<noteq> [] then Inl (Msg ''immutable field(s) changed'')
      else map_sum id (\<lambda>_. []) (validateNodeSlicePool pool))"

definition NodeSlicePool_ValidateDelete :: "NodeSlicePool \<Rightarrow> string list result" where
  "NodeSlicePool_ValidateDelete pool = Inr []"

subsection \<open>OverlappingRangeIPReservation\<close>

definition validateOverlappingRange :: "OverlappingRangeIPReservation \<Rightarrow> unit result" where
  "validateOverlappingRange res = (case ValidatePodRef (os_PodRef (ov_Spec res)) True of
     Inl e \<Rightarrow> Inl (Wrap ''spec.podRef'' e)
   | Inr _ \<Rightarrow> Inr ())"

definition OverlappingRange_ValidateCreate :: "OverlappingRangeIPReservation \<Rightarrow> string list result" where
  "OverlappingRange_ValidateCreate res = map_sum id (\<lambda>_. []) (validateOverlappingRange res)"

definition OverlappingRange_ValidateUpdate ::
  "OverlappingRangeIPReservation option \<Rightarrow> OverlappingRangeIPReservation \<Rightarrow> string list result" where
  "OverlappingRange_ValidateUpdate oldRes res = (case oldRes of
     None \<Rightarrow> Inl (Msg ''old object is nil in update operation'')
   | Some old \<Rightarrow>
       if os_PodRef (ov_Spec old) \<noteq> os_PodRef (ov_Spec res) then Inl (Msg ''spec.podRef is immutable'')
       else if os_IfName (ov_Spec old) \<noteq> os_IfName (ov_Spec res) then Inl (Msg ''spec.ifName is immutable'')
       else if os_ContainerID (ov_Spec old) \<noteq> os_ContainerID (ov_Spec res) then Inl (Msg ''spec.containerID is immutable'')
       else if os_PodUID (ov_Spec old) \<noteq> os_PodUID (ov_Spec res) then Inl (Msg ''spec.podUID is immutable'')
       else map_sum id (\<lambda>_. []) (validateOverlappingRange res))"

definition OverlappingRange_ValidateDelete :: "OverlappingRangeIPReservation \<Rightarrow> string list result" where
  "OverlappingRange_ValidateDelete res = Inr []"

section \<open>What admission guarantees\<close>

text \<open>
  The contract of a validator with immutable fields: an accepted update leaves the frozen fields
  as they were, and the new object would be accepted on its own.
\<close>

locale admission =
  fixes create :: "'o \<Rightarrow> string list result" and update :: "'o option \<Rightarrow> 'o \<Rightarrow> string list result"
    and frozen :: "'o \<Rightarrow> 'f"
  assumes update_frozen: "update (Some old) new = Inr ws \<Longrightarrow> frozen new = frozen old"
    and update_create: "update (Some old) new = Inr ws \<Longrightarrow> create new = Inr ws"
    and update_complete: "create new = Inr ws \<Longrightarrow> frozen new = frozen old \<Longrightarrow> update (Some old) new = Inr ws"
begin

definition step :: "'o \<Rightarrow> 'o \<Rightarrow> bool" where
  "step old new \<longleftrightarrow> (\<exists>ws. update (Some old) new = Inr ws)"

lemma step_iff: "step old new \<longleftrightarrow> frozen new = frozen old \<and> (\<exists>ws. create new = Inr ws)"
  unfolding step_def using update_frozen update_create update_complete by metis

lemma history:
  assumes "step\<^sup>*\<^sup>* a b" "create a = Inr ws"
  shows "frozen b = frozen a \<and> (\<exists>ws. create b = Inr ws)"
  using assms(1)
proof (induction rule: rtranclp_induct)
  case base
  then show ?case using assms(2) by blast
next
  case (step b c)
  then show ?case by (simp add: step_iff)
qed

lemma step_trans: "step a b \<Longrightarrow> step b c \<Longrightarrow> step a c"
  by (auto simp: step_iff)

end

interpretation ippool: admission IPPool_ValidateCreate IPPool_ValidateUpdate "\<lambda>p. ps_Range (ip_Spec p)"
  by unfold_locales (auto simp: IPPool_ValidateCreate_def IPPool_ValidateUpdate_def split: if_splits)

interpretation nodeslicepool: admission NodeSlicePool_ValidateCreate NodeSlicePool_ValidateUpdate np_Spec
proof
  fix old new :: NodeSlicePool and ws
  show "NodeSlicePool_ValidateUpdate (Some old) new = Inr ws \<Longrightarrow> np_Spec new = np_Spec old"
    by (cases "np_Spec old"; cases "np_Spec new")
      (auto simp: NodeSlicePool_ValidateUpdate_def immutable_errs_def split: if_splits)
qed (auto simp: NodeSlicePool_ValidateCreate_def NodeSlicePool_ValidateUpdate_def immutable_errs_def split: if_splits)

interpretation overlappingrange: admission OverlappingRange_ValidateCreate OverlappingRange_ValidateUpdate ov_Spec
proof
  fix old new :: OverlappingRangeIPReservation and ws
  show "OverlappingRange_ValidateUpdate (Some old) new = Inr ws \<Longrightarrow> ov_Spec new = ov_Spec old"
    by (cases "ov_Spec old"; cases "ov_Spec new")
      (auto simp: OverlappingRange_ValidateUpdate_def split: if_splits)
qed (auto simp: OverlappingRange_ValidateCreate_def OverlappingRange_ValidateUpdate_def split: if_splits)

text \<open>What an accepted pool looks like: the range parses, every key is an offset, every pod reference splits.\<close>

definition offset_key :: "string \<Rightarrow> bool" where
  "offset_key key \<longleftrightarrow> (case big_SetString key of None \<Rightarrow> False | Some n \<Rightarrow> 0 \<le> n)"

definition podRef_ok :: "string \<Rightarrow> bool" where
  "podRef_ok q \<longleftrightarrow> q = [] \<or> (case Cut (CHR ''/'') q of None \<Rightarrow> False
     | Some (ns, name) \<Rightarrow> TrimSpace ns \<noteq> [] \<and> TrimSpace name \<noteq> [])"

lemma ValidatePodRef_iff: "ValidatePodRef q False = Inr () \<longleftrightarrow> podRef_ok q"
  by (auto simp: ValidatePodRef_def podRef_ok_def split: option.splits)

lemma validateAllocationKey_iff: "validateAllocationKey key = Inr () \<longleftrightarrow> offset_key key"
  by (auto simp: validateAllocationKey_def offset_key_def split: option.splits)

lemma validate_allocs_iff:
  "(\<exists>ws'. validate_allocs m ws = Inr ws') \<longleftrightarrow> list_all (\<lambda>(key, a). offset_key key \<and> podRef_ok (ia_PodRef a)) m"
proof (induction m ws rule: validate_allocs.induct)
  case (2 key a rest ws)
  then show ?case
    using validateAllocationKey_iff [of key] ValidatePodRef_iff [of "ia_PodRef a"]
    by (cases "validateAllocationKey key"; cases "ValidatePodRef (ia_PodRef a) False")
      (auto simp: podRef_ok_def)
qed simp

lemma validateIPPool_iff:
  "(\<exists>ws. validateIPPool p = Inr ws) \<longleftrightarrow> (\<exists>r. IPPool_ParseCIDR p = Inr r)
     \<and> list_all (\<lambda>(key, a). offset_key key \<and> podRef_ok (ia_PodRef a)) (ps_Allocations (ip_Spec p))"
proof -
  have "ParseCIDR [] = Inl e" if "ParseCIDR [] = Inr r" for e r
    using that by (simp add: ParseCIDR_def)
  then have "ValidateCIDR (ps_Range (ip_Spec p)) = Inr () \<longleftrightarrow> (\<exists>r. ParseCIDR (ps_Range (ip_Spec p)) = Inr r)"
    by (auto simp: ValidateCIDR_def split: sum.splits)
  then show ?thesis
    using validate_allocs_iff [of "ps_Allocations (ip_Spec p)" "[]"]
    by (cases "ValidateCIDR (ps_Range (ip_Spec p))") (auto simp: validateIPPool_def IPPool_ParseCIDR_def)
qed

text \<open>
  C40: along any sequence of updates that the webhook accepts, a pool keeps the range it was
  created with, and each of its allocations has an offset as its key and no pod reference or a
  splittable one.
\<close>

theorem admitted_pool_history:
  assumes "IPPool_ValidateCreate p = Inr ws" "(\<lambda>a b. \<exists>ws. IPPool_ValidateUpdate (Some a) b = Inr ws)\<^sup>*\<^sup>* p q"
  shows "ps_Range (ip_Spec q) = ps_Range (ip_Spec p)
    \<and> list_all (\<lambda>(key, a). offset_key key \<and> podRef_ok (ia_PodRef a)) (ps_Allocations (ip_Spec q))"
proof -
  have "ippool.step\<^sup>*\<^sup>* p q" using assms(2) unfolding ippool.step_def [abs_def] .
  from ippool.history [OF this assms(1)] show ?thesis
    using validateIPPool_iff [of q] by (auto simp: IPPool_ValidateCreate_def)
qed

definition ippool_ex :: IPPool where
  "ippool_ex = \<lparr> ip_Meta = empty_meta, ip_Spec = \<lparr> ps_Range = ''10.0.0.0/24'', ps_Allocations =
     [(''1'', \<lparr> ia_ContainerID = ''c'', ia_PodRef = ''ns/p'', ia_IfName = ''eth0'' \<rparr>)], ps_EnableL3 = False \<rparr>,
     ip_Status = empty_pool_status \<rparr>"

theorem admitted_pool_history_witness:
  "(\<lambda>a b. \<exists>ws. IPPool_ValidateUpdate (Some a) b = Inr ws)\<^sup>*\<^sup>*
      (ippool_ex\<lparr>ip_Spec := (ip_Spec ippool_ex)\<lparr>ps_Allocations := []\<rparr>\<rparr>) ippool_ex
   \<and> list_all (\<lambda>(key, a). offset_key key \<and> podRef_ok (ia_PodRef a)) (ps_Allocations (ip_Spec ippool_ex))"
proof -
  let ?p = "ippool_ex\<lparr>ip_Spec := (ip_Spec ippool_ex)\<lparr>ps_Allocations := []\<rparr>\<rparr>"
  have c: "IPPool_ValidateCreate ?p = Inr []" "IPPool_ValidateUpdate (Some ?p) ippool_ex = Inr []" by code_simp+
  then have "(\<lambda>a b. \<exists>ws. IPPool_ValidateUpdate (Some a) b = Inr ws)\<^sup>*\<^sup>* ?p ippool_ex" by blast
  then show ?thesis using admitted_pool_history [OF c(1)] by blast
qed

text \<open>
  No sequence of accepted updates changes the specification of a cluster-wide
  reservation: pod, interface, container and pod UID stay as they were created.
\<close>

theorem admitted_reservation_frozen:
  assumes "OverlappingRange_ValidateCreate r = Inr ws"
    "(\<lambda>a b. \<exists>ws. OverlappingRange_ValidateUpdate (Some a) b = Inr ws)\<^sup>*\<^sup>* r r'"
  shows "ov_Spec r' = ov_Spec r \<and> podRef_ok (os_PodRef (ov_Spec r')) \<and> os_PodRef (ov_Spec r') \<noteq> []"
proof -
  have "overlappingrange.step\<^sup>*\<^sup>* r r'" using assms(2) unfolding overlappingrange.step_def [abs_def] .
  from overlappingrange.history [OF this assms(1)] show ?thesis
    by (auto simp: OverlappingRange_ValidateCreate_def validateOverlappingRange_def ValidatePodRef_def podRef_ok_def
        split: sum.splits if_splits option.splits prod.splits)
qed

theorem admitted_reservation_frozen_witness:
  "(let r = \<lparr> ov_Meta = empty_meta, ov_Spec = \<lparr> os_ContainerID = [], os_PodRef = ''ns/p'', os_IfName = ''eth0'',
       os_PodUID = ''u'' \<rparr>, ov_Conditions = [] \<rparr> in ov_Spec r = ov_Spec r \<and> podRef_ok (os_PodRef (ov_Spec r)))"
proof -
  let ?r = "\<lparr> ov_Meta = empty_meta, ov_Spec = \<lparr> os_ContainerID = [], os_PodRef = ''ns/p'', os_IfName = ''eth0'',
       os_PodUID = ''u'' \<rparr>, ov_Conditions = [] \<rparr>"
  have c: "OverlappingRange_ValidateCreate ?r = Inr []" "OverlappingRange_ValidateUpdate (Some ?r) ?r = Inr []" by code_simp+
  then have "(\<lambda>a b. \<exists>ws. OverlappingRange_ValidateUpdate (Some a) b = Inr ws)\<^sup>*\<^sup>* ?r ?r" by blast
  then show ?thesis using admitted_reservation_frozen [OF c(1)] unfolding Let_def by blast
qed

end
