(* ===== verification/Conditions.thy ===== *)
theory Conditions
  imports Types "HOL-Library.Multiset"
begin

text \<open>
  \<^verbatim>\<open>internal/controller/conditions.go\<close>: the status conditions that the reconcilers set, with
  \<^verbatim>\<open>conditions.Set\<close> of the vendored Flux runtime, which keeps the conditions sorted and their
  transition times. The time is the clock in seconds, 0 for the zero time.
\<close>

section \<open>Setting a condition\<close>

definition hasSameState :: "Condition \<Rightarrow> Condition \<Rightarrow> bool" where
  "hasSameState i j \<longleftrightarrow> co_Type i = co_Type j \<and> co_Status i = co_Status j \<and> co_Reason i = co_Reason j
     \<and> co_Message i = co_Message j"

fun string_less :: "string \<Rightarrow> string \<Rightarrow> bool" where
  "string_less [] ys \<longleftrightarrow> ys \<noteq> []"
| "string_less (x # xs) [] \<longleftrightarrow> False"
| "string_less (x # xs) (y # ys) \<longleftrightarrow> (of_char x :: nat) < of_char y \<or> x = y \<and> string_less xs ys"

definition conditionWeights :: "string \<Rightarrow> nat option" where
  "conditionWeights t = map_of [(''Stalled'', 0), (''Reconciling'', 1), (''Ready'', 2)] t"

definition lexicographicLess :: "Condition \<Rightarrow> Condition \<Rightarrow> bool" where
  "lexicographicLess i j = (case (conditionWeights (co_Type i), conditionWeights (co_Type j)) of
     (Some w1, Some w2) \<Rightarrow> w1 < w2
   | (Some _, None) \<Rightarrow> True
   | (None, Some _) \<Rightarrow> False
   | (None, None) \<Rightarrow>
       if co_ObservedGeneration i = co_ObservedGeneration j then string_less (co_Type i) (co_Type j)
       else co_ObservedGeneration i > co_ObservedGeneration j)"

fun insert_cond :: "Condition \<Rightarrow> Condition list \<Rightarrow> Condition list" where
  "insert_cond c [] = [c]"
| "insert_cond c (x # xs) = (if lexicographicLess x c then x # insert_cond c xs else c # x # xs)"

definition sort_conds :: "Condition list \<Rightarrow> Condition list" where
  "sort_conds cs = foldr insert_cond cs []"

definition maxMessageLength :: nat where
  "maxMessageLength = 32768"

definition trimConditionMessage :: "string \<Rightarrow> nat \<Rightarrow> string" where
  "trimConditionMessage msg maxLength0 =
     (let maxLength = max maxLength0 3
      in if length msg \<le> maxLength then msg else take (maxLength - 3) msg @ ''...'')"

fun put_cond :: "nat \<Rightarrow> Condition \<Rightarrow> Condition list \<Rightarrow> Condition list" where
  "put_cond now c [] = [if co_LastTransitionTime c = 0 then c\<lparr>co_LastTransitionTime := now\<rparr> else c]"
| "put_cond now c (x # xs) =
     (if co_Type x = co_Type c
      then if \<not> hasSameState x c then c\<lparr>co_LastTransitionTime := now\<rparr> # xs
           else if co_ObservedGeneration x \<noteq> co_ObservedGeneration c
           then c\<lparr>co_LastTransitionTime := co_LastTransitionTime x\<rparr> # xs
           else x # xs
      else x # put_cond now c xs)"

definition Set :: "nat \<Rightarrow> int \<Rightarrow> Condition \<Rightarrow> Condition list \<Rightarrow> Condition list" where
  "Set now generation c cs =
     sort_conds (put_cond now (c\<lparr>co_ObservedGeneration := generation,
       co_Message := trimConditionMessage (co_Message c) maxMessageLength\<rparr>) cs)"

definition new_cond :: "string \<Rightarrow> string \<Rightarrow> string \<Rightarrow> string \<Rightarrow> Condition" where
  "new_cond t st reason message =
     \<lparr> co_Type = t, co_Status = st, co_ObservedGeneration = 0, co_LastTransitionTime = 0,
       co_Reason = reason, co_Message = message \<rparr>"

section \<open>The marks\<close>

definition markReconciling :: "nat \<Rightarrow> int \<Rightarrow> string \<Rightarrow> Condition list \<Rightarrow> Condition list" where
  "markReconciling now gen message cs =
     Set now gen (new_cond ''Ready'' ''Unknown'' ''Reconciling'' message)
       (Set now gen (new_cond ''Reconciling'' ''True'' ''Reconciling'' message) cs)"

definition markReady :: "nat \<Rightarrow> int \<Rightarrow> string \<Rightarrow> string \<Rightarrow> Condition list \<Rightarrow> Condition list" where
  "markReady now gen reason message cs =
     Set now gen (new_cond ''Stalled'' ''False'' reason message)
       (Set now gen (new_cond ''Reconciling'' ''False'' reason message)
         (Set now gen (new_cond ''Ready'' ''True'' reason message) cs))"

definition markStalled :: "nat \<Rightarrow> int \<Rightarrow> string \<Rightarrow> string \<Rightarrow> Condition list \<Rightarrow> Condition list" where
  "markStalled now gen reason message cs =
     Set now gen (new_cond ''Reconciling'' ''False'' reason message)
       (Set now gen (new_cond ''Ready'' ''False'' reason message)
         (Set now gen (new_cond ''Stalled'' ''True'' reason message) cs))"

section \<open>One condition per type\<close>

definition one_per_type :: "Condition list \<Rightarrow> bool" where
  "one_per_type cs \<longleftrightarrow> distinct (map co_Type cs)"

definition cond_of :: "string \<Rightarrow> Condition list \<Rightarrow> Condition option" where
  "cond_of t cs = find (\<lambda>c. co_Type c = t) cs"

definition status_of :: "string \<Rightarrow> Condition list \<Rightarrow> string option" where
  "status_of t cs = map_option co_Status (cond_of t cs)"

lemma mset_insert_cond: "mset (insert_cond c cs) = add_mset c (mset cs)"
  by (induction cs) auto

lemma mset_sort_conds: "mset (sort_conds cs) = mset cs"
  by (induction cs) (simp_all add: sort_conds_def mset_insert_cond)

lemma one_per_type_mset: "mset cs = mset ds \<Longrightarrow> one_per_type cs \<longleftrightarrow> one_per_type ds"
  unfolding one_per_type_def by (metis mset_map mset_eq_imp_distinct_iff)

lemma cond_of_iff: "one_per_type cs \<Longrightarrow> cond_of t cs = Some c \<longleftrightarrow> c \<in> set cs \<and> co_Type c = t"
  by (induction cs) (auto simp: cond_of_def one_per_type_def)

lemma cond_of_mset:
  assumes "mset cs = mset ds" "one_per_type cs"
  shows "cond_of t cs = cond_of t ds"
proof -
  have "cond_of t cs = Some c \<longleftrightarrow> cond_of t ds = Some c" for c
    using assms cond_of_iff [of cs] cond_of_iff [of ds] one_per_type_mset [OF assms(1)] mset_eq_setD [OF assms(1)] by auto
  then show ?thesis by (metis option.exhaust)
qed

lemma put_cond_types: "set (map co_Type (put_cond now c cs)) = insert (co_Type c) (set (map co_Type cs))"
  by (induction cs) auto

lemma one_per_type_put: "one_per_type cs \<Longrightarrow> one_per_type (put_cond now c cs)"
proof (induction cs)
  case (Cons x cs)
  then show ?case using put_cond_types [of now c cs] by (auto simp: one_per_type_def image_iff)
qed (simp add: one_per_type_def)

lemma cond_of_put_other: "t \<noteq> co_Type c \<Longrightarrow> cond_of t (put_cond now c cs) = cond_of t cs"
  by (induction cs) (auto simp: cond_of_def)

lemma status_of_put: "status_of (co_Type c) (put_cond now c cs) = Some (co_Status c)"
  by (induction cs) (auto simp: status_of_def cond_of_def hasSameState_def)

lemma one_per_type_Set: "one_per_type cs \<Longrightarrow> one_per_type (Set now gen c cs)"
  unfolding Set_def using one_per_type_mset [OF mset_sort_conds] one_per_type_put by blast

lemma cond_of_Set:
  assumes "one_per_type cs" "t \<noteq> co_Type c"
  shows "cond_of t (Set now gen c cs) = cond_of t cs"
  unfolding Set_def using assms
  by (subst cond_of_mset [OF mset_sort_conds]) (auto simp: one_per_type_mset [OF mset_sort_conds] one_per_type_put cond_of_put_other)

lemma status_of_Set:
  assumes "one_per_type cs"
  shows "status_of t (Set now gen c cs) = (if t = co_Type c then Some (co_Status c) else status_of t cs)"
proof (cases "t = co_Type c")
  case True
  let ?c = "c\<lparr>co_ObservedGeneration := gen, co_Message := trimConditionMessage (co_Message c) maxMessageLength\<rparr>"
  have "cond_of t (Set now gen c cs) = cond_of t (put_cond now ?c cs)"
    unfolding Set_def using assms
    by (intro cond_of_mset mset_sort_conds) (simp add: one_per_type_mset [OF mset_sort_conds] one_per_type_put)
  then show ?thesis using True status_of_put [of ?c now cs] by (simp add: status_of_def)
next
  case False
  then show ?thesis using assms cond_of_Set by (simp add: status_of_def)
qed

lemma new_cond_simps [simp]: "co_Type (new_cond t s r m) = t" "co_Status (new_cond t s r m) = s"
  by (simp_all add: new_cond_def)

text \<open>
  Each mark leaves one condition per type and sets the three conditions consistently:
  ready, reconciling and stalled are never claimed together, and other conditions are kept.
\<close>

theorem marks_exclusive:
  assumes "one_per_type cs"
  shows "one_per_type (markReady now gen r m cs) \<and> one_per_type (markStalled now gen r m cs)
      \<and> one_per_type (markReconciling now gen m cs)
    \<and> map (\<lambda>t. status_of t (markReady now gen r m cs)) [''Ready'', ''Reconciling'', ''Stalled'']
        = [Some ''True'', Some ''False'', Some ''False'']
    \<and> map (\<lambda>t. status_of t (markStalled now gen r m cs)) [''Ready'', ''Reconciling'', ''Stalled'']
        = [Some ''False'', Some ''False'', Some ''True'']
    \<and> map (\<lambda>t. status_of t (markReconciling now gen m cs)) [''Ready'', ''Reconciling'']
        = [Some ''Unknown'', Some ''True'']
    \<and> (\<forall>t. t \<notin> {''Ready'', ''Reconciling'', ''Stalled''} \<longrightarrow>
        cond_of t (markReady now gen r m cs) = cond_of t cs \<and> cond_of t (markStalled now gen r m cs) = cond_of t cs
        \<and> cond_of t (markReconciling now gen m cs) = cond_of t cs)"
  using assms
  by (simp add: markReady_def markStalled_def markReconciling_def status_of_Set cond_of_Set one_per_type_Set)

theorem marks_exclusive_witness:
  "status_of ''Ready'' (markReady 7 1 ''Reconciled'' ''ok'' []) = Some ''True''"
  using marks_exclusive [of "[]" 7 1 "''Reconciled''" "''ok''"] by (simp add: one_per_type_def)

end
