(* ===== verification/PatchHelper.thy ===== *)
theory PatchHelper
  imports Kube Conditions
begin

text \<open>
  The client of the reconcilers, as an extension of the Kubernetes API, and
  \<^verbatim>\<open>internal/controller/patchhelper.go\<close>. The helper works on any object: \<open>obj_client\<close> has what it
  uses of one kind, the comparison of the JSON without status and of the status, and the
  two write operations, each of which returns the object as the server has it. Metrics are left
  out; an event is recorded by its reason.
\<close>

section \<open>The client\<close>

record NetworkStatus =
  nw_Interface :: string
  nw_IPs :: "string list"

record NetworkAttachmentDefinition =
  nad_Meta :: ObjectMeta
  nad_Config :: string

text \<open>
  The parts of a network configuration that the reconciler decodes: the \<^verbatim>\<open>ipam\<close> object of a plugin
  and the plugins of a list.
\<close>

record nad_ipam =
  nm_Type :: string
  nm_NetworkName :: string
  nm_Range :: string
  nm_NodeSliceSize :: string

text \<open>
  The patches that the client library makes from the object before the changes: the merge patch for
  the differences, without and with the resource version of that object as a precondition.
  \<open>c_UnmarshalStatus\<close>, \<open>c_UnmarshalPlugin\<close> and \<open>c_UnmarshalConfList\<close> are \<^verbatim>\<open>json.Unmarshal\<close> into the
  structures the code declares.
\<close>

datatype 'o merge_patch = MergeFrom 'o | MergeFromWithOptimisticLock 'o

record 'w ctrl = "'w kube" +
  c_Now :: "'w \<Rightarrow> nat"
  c_Eventf :: "string \<Rightarrow> 'w \<Rightarrow> 'w"
  c_UpdateIPPool :: "IPPool \<Rightarrow> 'w \<Rightarrow> IPPool result \<times> 'w"
  c_PatchIPPool :: "IPPool \<Rightarrow> IPPool merge_patch \<Rightarrow> 'w \<Rightarrow> IPPool result \<times> 'w"
  c_StatusIPPool :: "IPPool \<Rightarrow> 'w \<Rightarrow> IPPool result \<times> 'w"
  c_DeleteIPPool :: "IPPool \<Rightarrow> 'w \<Rightarrow> unit result \<times> 'w"
  c_PatchORIP :: "OverlappingRangeIPReservation \<Rightarrow> OverlappingRangeIPReservation merge_patch \<Rightarrow> 'w \<Rightarrow> OverlappingRangeIPReservation result \<times> 'w"
  c_StatusORIP :: "OverlappingRangeIPReservation \<Rightarrow> 'w \<Rightarrow> OverlappingRangeIPReservation result \<times> 'w"
  c_CreateNSP :: "NodeSlicePool \<Rightarrow> 'w \<Rightarrow> NodeSlicePool result \<times> 'w"
  c_UpdateNSP :: "NodeSlicePool \<Rightarrow> 'w \<Rightarrow> NodeSlicePool result \<times> 'w"
  c_PatchNSP :: "NodeSlicePool \<Rightarrow> NodeSlicePool merge_patch \<Rightarrow> 'w \<Rightarrow> NodeSlicePool result \<times> 'w"
  c_StatusNSP :: "NodeSlicePool \<Rightarrow> 'w \<Rightarrow> NodeSlicePool result \<times> 'w"
  c_DeleteNSP :: "NodeSlicePool \<Rightarrow> 'w \<Rightarrow> unit result \<times> 'w"
  c_ListNSPs :: "string \<Rightarrow> 'w \<Rightarrow> NodeSlicePool list result \<times> 'w"
  c_GetNAD :: "string \<Rightarrow> string \<Rightarrow> 'w \<Rightarrow> NetworkAttachmentDefinition result \<times> 'w"
  c_ListNADs :: "string option \<Rightarrow> 'w \<Rightarrow> NetworkAttachmentDefinition list result \<times> 'w"
  c_ListNodes :: "'w \<Rightarrow> string list result \<times> 'w"
  c_UnmarshalStatus :: "string \<Rightarrow> NetworkStatus list result"
  c_UnmarshalPlugin :: "string \<Rightarrow> (string \<times> nad_ipam) result"
  c_UnmarshalConfList :: "string \<Rightarrow> (string \<times> nad_ipam list) result"

text \<open>\<^verbatim>\<open>ctrl.Result\<close>, with the interval in nanoseconds.\<close>

record Result =
  re_Requeue :: bool
  re_RequeueAfter :: int

definition no_requeue :: Result where
  "no_requeue = \<lparr> re_Requeue = False, re_RequeueAfter = 0 \<rparr>"

definition requeue_after :: "int \<Rightarrow> Result" where
  "requeue_after d = \<lparr> re_Requeue = False, re_RequeueAfter = d \<rparr>"

section \<open>The patch helper\<close>

record ('o, 'w) obj_client =
  oc_sameSpec :: "'o \<Rightarrow> 'o \<Rightarrow> bool"
  oc_sameStatus :: "'o \<Rightarrow> 'o \<Rightarrow> bool"
  oc_overwriteStatus :: "'o \<Rightarrow> 'o \<Rightarrow> 'o"
  oc_Patch :: "'o \<Rightarrow> 'o merge_patch \<Rightarrow> 'w \<Rightarrow> 'o result \<times> 'w"
  oc_StatusUpdate :: "'o \<Rightarrow> 'w \<Rightarrow> 'o result \<times> 'w"

definition patch_main :: "('o, 'w) obj_client \<Rightarrow> 'o \<Rightarrow> 'o \<Rightarrow> 'w \<Rightarrow> err option \<times> 'o \<times> 'w" where
  "patch_main oc before obj w = (case oc_Patch oc obj (MergeFrom before) w of
     (Inl e, w) \<Rightarrow> (Some (Wrap ''patching spec/metadata'' e), obj, w)
   | (Inr server, w) \<Rightarrow> (None, server, w))"

definition update_status :: "('o, 'w) obj_client \<Rightarrow> 'o \<Rightarrow> 'w \<Rightarrow> err option \<times> 'o \<times> 'w" where
  "update_status oc obj w = (case oc_StatusUpdate oc obj w of
     (Inl e, w) \<Rightarrow> (Some (Wrap ''updating status'' e), obj, w)
   | (Inr server, w) \<Rightarrow> (None, server, w))"

definition Patch :: "('o, 'w) obj_client \<Rightarrow> 'o \<Rightarrow> 'o \<Rightarrow> 'w \<Rightarrow> err option \<times> 'o \<times> 'w" where
  "Patch oc before obj w =
     (let specChanged = \<not> oc_sameSpec oc before obj; statusChanged = \<not> oc_sameStatus oc before obj
      in if \<not> specChanged \<and> \<not> statusChanged then (None, obj, w)
         else if specChanged \<and> statusChanged
         then (case patch_main oc before obj w of
                 (Some e, obj', w) \<Rightarrow> (Some e, obj', w)
               | (None, server, w) \<Rightarrow> update_status oc (oc_overwriteStatus oc obj server) w)
         else if specChanged then patch_main oc before obj w
         else update_status oc obj w)"

definition HasChanges :: "('o, 'w) obj_client \<Rightarrow> 'o \<Rightarrow> 'o \<Rightarrow> bool" where
  "HasChanges oc before obj \<longleftrightarrow> \<not> oc_sameSpec oc before obj \<or> \<not> oc_sameStatus oc before obj"

text \<open>JSON objects are compared as maps: \<^verbatim>\<open>jsonEqual\<close> on the annotations and the allocations.\<close>

definition same_map :: "('k \<times> 'v) list \<Rightarrow> ('k \<times> 'v) list \<Rightarrow> bool" where
  "same_map a b \<longleftrightarrow> list_all (\<lambda>(k, _). map_of a k = map_of b k) (a @ b)"

definition same_meta :: "ObjectMeta \<Rightarrow> ObjectMeta \<Rightarrow> bool" where
  "same_meta a b \<longleftrightarrow> a\<lparr>om_Annotations := []\<rparr> = b\<lparr>om_Annotations := []\<rparr>
     \<and> same_map (om_Annotations a) (om_Annotations b)"

definition ippool_client :: "('w, 'x) ctrl_scheme \<Rightarrow> (IPPool, 'w) obj_client" where
  "ippool_client k =
     \<lparr> oc_sameSpec = (\<lambda>a b. same_meta (ip_Meta a) (ip_Meta b) \<and> ps_Range (ip_Spec a) = ps_Range (ip_Spec b)
           \<and> ps_EnableL3 (ip_Spec a) = ps_EnableL3 (ip_Spec b)
           \<and> same_map (ps_Allocations (ip_Spec a)) (ps_Allocations (ip_Spec b))),
       oc_sameStatus = (\<lambda>a b. ip_Status a = ip_Status b),
       oc_overwriteStatus = (\<lambda>src dst. dst\<lparr>ip_Status := ip_Status src\<rparr>),
       oc_Patch = c_PatchIPPool k, oc_StatusUpdate = c_StatusIPPool k \<rparr>"

definition nsp_client :: "('w, 'x) ctrl_scheme \<Rightarrow> (NodeSlicePool, 'w) obj_client" where
  "nsp_client k =
     \<lparr> oc_sameSpec = (\<lambda>a b. same_meta (np_Meta a) (np_Meta b) \<and> np_Spec a = np_Spec b),
       oc_sameStatus = (\<lambda>a b. np_Status a = np_Status b),
       oc_overwriteStatus = (\<lambda>src dst. dst\<lparr>np_Status := np_Status src\<rparr>),
       oc_Patch = c_PatchNSP k, oc_StatusUpdate = c_StatusNSP k \<rparr>"

definition orip_client :: "('w, 'x) ctrl_scheme \<Rightarrow> (OverlappingRangeIPReservation, 'w) obj_client" where
  "orip_client k =
     \<lparr> oc_sameSpec = (\<lambda>a b. same_meta (ov_Meta a) (ov_Meta b) \<and> ov_Spec a = ov_Spec b),
       oc_sameStatus = (\<lambda>a b. ov_Conditions a = ov_Conditions b),
       oc_overwriteStatus = (\<lambda>src dst. dst\<lparr>ov_Conditions := ov_Conditions src\<rparr>),
       oc_Patch = c_PatchORIP k, oc_StatusUpdate = c_StatusORIP k \<rparr>"

section \<open>What a patch does\<close>

text \<open>
  The laws of an object split into spec and status, and what the helper makes of them: nothing is
  sent when nothing changed, the status is only sent after the spec was accepted, and what is sent
  is the desired status on the server's spec.
\<close>

locale split_object =
  fixes oc :: "('o, 'w) obj_client"
  assumes same_refl: "oc_sameSpec oc a a" "oc_sameStatus oc a a"
    and status_sym: "oc_sameStatus oc a b \<Longrightarrow> oc_sameStatus oc b a"
    and overwrite_spec: "oc_sameSpec oc (oc_overwriteStatus oc src dst) dst"
    and overwrite_status: "oc_sameStatus oc (oc_overwriteStatus oc src dst) src"
begin

lemma unchanged: "Patch oc a a w = (None, a, w)"
  by (simp add: Patch_def same_refl)

lemma HasChanges_iff: "\<not> HasChanges oc a b \<Longrightarrow> Patch oc a b w = (None, b, w)"
  by (simp add: HasChanges_def Patch_def)

lemma gated:
  assumes "\<not> oc_sameSpec oc before obj" "oc_Patch oc obj (MergeFrom before) w = (Inl e, w')"
  shows "Patch oc before obj w = (Some (Wrap ''patching spec/metadata'' e), obj, w')"
  using assms by (simp add: Patch_def patch_main_def Let_def)

lemma sent_status:
  assumes "Patch oc before obj w = (None, obj', w')" "\<not> oc_sameStatus oc before obj"
  shows "\<exists>sent w1. oc_StatusUpdate oc sent w1 = (Inr obj', w') \<and> oc_sameStatus oc sent obj
    \<and> (if oc_sameSpec oc before obj then sent = obj \<and> w1 = w
       else \<exists>server. oc_Patch oc obj (MergeFrom before) w = (Inr server, w1) \<and> oc_sameSpec oc sent server)"
proof (cases "oc_sameSpec oc before obj")
  case True
  then have "oc_StatusUpdate oc obj w = (Inr obj', w')"
    using assms by (auto simp: Patch_def update_status_def Let_def split: prod.splits sum.splits)
  then show ?thesis using True same_refl by auto
next
  case False
  obtain server w1 where s: "oc_Patch oc obj (MergeFrom before) w = (Inr server, w1)"
      "oc_StatusUpdate oc (oc_overwriteStatus oc obj server) w1 = (Inr obj', w')"
    using assms False by (auto simp: Patch_def patch_main_def update_status_def Let_def split: prod.splits sum.splits)
  then show ?thesis using False overwrite_spec overwrite_status by auto
qed

end

lemma same_map_refl [simp]: "same_map a a"
  by (auto simp: same_map_def list_all_iff)

lemma same_map_iff: "same_map a b \<longleftrightarrow> map_of a = map_of b"
proof
  assume s: "same_map a b"
  show "map_of a = map_of b"
  proof
    fix k
    show "map_of a k = map_of b k"
    proof (cases "k \<in> fst ` set (a @ b)")
      case True
      then show ?thesis using s by (fastforce simp: same_map_def list_all_iff)
    next
      case False
      then show ?thesis by (metis Un_iff image_Un map_of_eq_None_iff set_append)
    qed
  qed
qed (auto simp: same_map_def list_all_iff)

lemma same_meta_refl [simp]: "same_meta a a"
  by (simp add: same_meta_def)

interpretation ippool_obj: split_object "ippool_client k" for k :: "('w, 'x) ctrl_scheme"
  by unfold_locales (simp_all add: ippool_client_def)

interpretation nsp_obj: split_object "nsp_client k" for k :: "('w, 'x) ctrl_scheme"
  by unfold_locales (simp_all add: nsp_client_def)

interpretation orip_obj: split_object "orip_client k" for k :: "('w, 'x) ctrl_scheme"
  by unfold_locales (simp_all add: orip_client_def)

text \<open>
  The allocations of a node slice pool are never published when the patch of its spec
  failed: the helper returns the error without using the status operation, whatever it does.
\<close>

theorem failed_spec_gates_status:
  assumes "\<not> oc_sameSpec (nsp_client k) before obj" "c_PatchNSP k obj (MergeFrom before) w = (Inl e, w')"
  shows "Patch (nsp_client (k\<lparr>c_StatusNSP := f\<rparr>)) before obj w = (Some (Wrap ''patching spec/metadata'' e), obj, w')"
  using assms by (intro nsp_obj.gated) (simp_all add: nsp_client_def)

text \<open>A client whose every operation fails with \<^verbatim>\<open>NotFound\<close> and changes nothing; the world counts writes.\<close>

abbreviation (input) gone :: "'w \<Rightarrow> 'a result \<times> 'w" where
  "gone w \<equiv> (Inl (ApiErr NotFound), w)"

definition null_ctrl :: "'w ctrl" where
  "null_ctrl = \<lparr> k_GetIPPool = (\<lambda>_ _. gone), k_CreateIPPool = (\<lambda>_ _. gone), k_PatchIPPool = (\<lambda>_ _ _. gone),
     k_GetORIP = (\<lambda>_ _. gone), k_CreateORIP = (\<lambda>_ _. gone), k_DeleteORIP = (\<lambda>_ _ _. gone), k_ListORIPs = (\<lambda>_. gone),
     k_GetNodeSlicePool = (\<lambda>_ _. gone), k_GetPod = (\<lambda>_ _. gone), k_CtxErr = (\<lambda>w. (None, w)), k_Rand = (\<lambda>_ w. (0, w)),
     k_Sleep = (\<lambda>_ w. w), c_Now = (\<lambda>_. 1), c_Eventf = (\<lambda>_ w. w), c_UpdateIPPool = (\<lambda>_. gone),
     c_PatchIPPool = (\<lambda>_ _. gone), c_StatusIPPool = (\<lambda>_. gone), c_DeleteIPPool = (\<lambda>_. gone), c_PatchORIP = (\<lambda>_ _. gone),
     c_StatusORIP = (\<lambda>_. gone), c_CreateNSP = (\<lambda>_. gone), c_UpdateNSP = (\<lambda>_. gone), c_PatchNSP = (\<lambda>_ _. gone),
     c_StatusNSP = (\<lambda>_. gone), c_DeleteNSP = (\<lambda>_. gone), c_ListNSPs = (\<lambda>_. gone), c_GetNAD = (\<lambda>_ _. gone),
     c_ListNADs = (\<lambda>_. gone), c_ListNodes = gone, c_UnmarshalStatus = (\<lambda>_. Inl (Msg ''json'')),
     c_UnmarshalPlugin = (\<lambda>_. Inl (Msg ''json'')), c_UnmarshalConfList = (\<lambda>_. Inl (Msg ''json'')) \<rparr>"

definition nsp_ex :: NodeSlicePool where
  "nsp_ex = \<lparr> np_Meta = empty_meta\<lparr>om_Name := ''net''\<rparr>, np_Spec = \<lparr> ns_Range = ''10.0.0.0/24'', ns_SliceSize = ''/26'' \<rparr>,
     np_Status = \<lparr> nst_Allocations = [], nst_TotalSlices = 0, nst_AssignedSlices = 0, nst_FreeSlices = 0, nst_Conditions = [] \<rparr> \<rparr>"

theorem failed_spec_gates_status_witness:
  "Patch (nsp_client (null_ctrl\<lparr>c_StatusNSP := \<lambda>o' w. (Inr o', Suc w)\<rparr>)) nsp_ex
     (nsp_ex\<lparr>np_Spec := (np_Spec nsp_ex)\<lparr>ns_SliceSize := ''/27''\<rparr>\<rparr>) 0
   = (Some (Wrap ''patching spec/metadata'' (ApiErr NotFound)), nsp_ex\<lparr>np_Spec := (np_Spec nsp_ex)\<lparr>ns_SliceSize := ''/27''\<rparr>\<rparr>, 0)"
  by (rule failed_spec_gates_status) (simp_all add: nsp_client_def null_ctrl_def nsp_ex_def)

text \<open>
  When the helper succeeds and the status changed, the last write was a status update
  that carried the desired status, on the object at hand or, if the spec was patched as well,
  on the object the server returned for it.
\<close>

theorem patch_sends_desired_status:
  assumes "Patch (nsp_client k) before obj w = (None, obj', w')" "np_Status before \<noteq> np_Status obj"
  shows "\<exists>sent w1. c_StatusNSP k sent w1 = (Inr obj', w') \<and> np_Status sent = np_Status obj
    \<and> (sent = obj \<and> w1 = w \<or> (\<exists>server. c_PatchNSP k obj (MergeFrom before) w = (Inr server, w1) \<and> np_Spec sent = np_Spec server))"
  using nsp_obj.sent_status [OF assms(1)] assms(2) by (auto simp: nsp_client_def split: if_splits)

theorem patch_sends_desired_status_witness:
  "\<exists>sent w1. np_Status sent = (np_Status nsp_ex)\<lparr>nst_TotalSlices := 4\<rparr>
    \<and> c_StatusNSP (null_ctrl\<lparr>c_StatusNSP := \<lambda>o' w. (Inr o', Suc w)\<rparr>) sent w1 = (Inr sent, 1)"
proof -
  let ?o = "nsp_ex\<lparr>np_Status := (np_Status nsp_ex)\<lparr>nst_TotalSlices := 4\<rparr>\<rparr>"
    and ?k = "null_ctrl\<lparr>c_StatusNSP := \<lambda>o' w. (Inr o', Suc w)\<rparr>"
  have "Patch (nsp_client ?k) nsp_ex ?o 0 = (None, ?o, 1)" "np_Status nsp_ex \<noteq> np_Status ?o"
    by (simp_all add: Patch_def update_status_def nsp_client_def nsp_ex_def)
  from patch_sends_desired_status [OF this] obtain sent w1 where
    "c_StatusNSP ?k sent w1 = (Inr ?o, 1)" "np_Status sent = np_Status ?o" by blast
  then show ?thesis by (intro exI [of _ sent] exI [of _ w1]) simp
qed

end
