(* ===== verification/IPPoolController.thy ===== *)
theory IPPoolController
  imports Pool Validation PatchHelper
begin

text \<open>
  \<^verbatim>\<open>internal/controller/ippool_controller.go\<close>: the reconciler that removes the allocations of pods
  that are gone, with the cluster-wide reservations that belong to them, and keeps the status of
  a pool. The association list of a pool's allocations stands for a Go map in one of its
  iteration orders. Metrics and logs are left out.
\<close>

section \<open>Definitions\<close>

record IPPoolReconciler =
  rp_reconcileInterval :: int
  rp_serviceCIDRs :: "string list"
  rp_cleanupTerminating :: bool
  rp_cleanupDisrupted :: bool
  rp_verifyNetworkStatus :: bool

definition ippoolFinalizer :: string where
  "ippoolFinalizer = ''whereabouts.cni.cncf.io/ippool-cleanup''"

definition serviceCIDROverlapAnnotation :: string where
  "serviceCIDROverlapAnnotation = ''whereabouts.cni.cncf.io/service-cidr-overlap''"

definition retryRequeueInterval :: int where
  "retryRequeueInterval = 5000000000"

definition pendingPodRequeueInterval :: int where
  "pendingPodRequeueInterval = 5000000000"

subsection \<open>Names and keys\<close>

definition allocationKeyToIP :: "IPPool \<Rightarrow> string \<Rightarrow> IP" where
  "allocationKeyToIP pool key = (case ParseCIDR (ps_Range (ip_Spec pool)) of
     Inl _ \<Rightarrow> []
   | Inr (_, ipNet) \<Rightarrow> (case big_SetString key of
       None \<Rightarrow> []
     | Some offset \<Rightarrow> if offset < 0 then [] else IPAddOffset (net_IP ipNet) offset))"

definition isDecimalToken :: "string \<Rightarrow> bool" where
  "isDecimalToken value \<longleftrightarrow> value \<noteq> [] \<and> list_all is_digit value"

definition octet :: "string \<Rightarrow> byte option" where
  "octet part = (case Atoi part of
     None \<Rightarrow> None
   | Some value \<Rightarrow> if value < 0 \<or> value > 255 then None else Some (word_of_int value))"

definition parseDashedIPv4Name :: "string \<Rightarrow> IP" where
  "parseDashedIPv4Name name =
     (let parts = split_on (CHR ''-'') name;
          octets = (\<lambda>i. those (map octet (take 4 (drop i parts))))
      in case find (\<lambda>i. \<not> (i > 0 \<and> isDecimalToken (parts ! (i - 1)))
                        \<and> \<not> (i + 4 < length parts \<and> isDecimalToken (parts ! (i + 4)))
                        \<and> octets i \<noteq> None) [0..<length parts - 3] of
           None \<Rightarrow> []
         | Some i \<Rightarrow> v4InV6Prefix @ the (octets i))"

definition try_name :: "string \<Rightarrow> IP" where
  "try_name name =
     (if ParseIP name \<noteq> [] then ParseIP name
      else if parseDashedIPv4Name name \<noteq> [] then parseDashedIPv4Name name
      else ParseIP (replace_byte (CHR ''-'') (CHR '':'') name))"

function strip_prefixes :: "string \<Rightarrow> IP" where
  "strip_prefixes name = (case Cut (CHR ''-'') name of
     None \<Rightarrow> []
   | Some (_, suffix) \<Rightarrow> if try_name suffix \<noteq> [] then try_name suffix else strip_prefixes suffix)"
  by pat_completeness auto
termination
  by (relation "measure length") (auto dest: Cut_SomeD)

declare strip_prefixes.simps [simp del]

definition denormalizeIPName :: "string \<Rightarrow> IP" where
  "denormalizeIPName name = (if try_name name \<noteq> [] then try_name name else strip_prefixes name)"

definition parsePodRef :: "string \<Rightarrow> (string \<times> string) option" where
  "parsePodRef podRef = (case Cut (CHR ''/'') podRef of
     None \<Rightarrow> None
   | Some (namespace, name) \<Rightarrow> if namespace = [] \<or> name = [] then None else Some (namespace, name))"

subsection \<open>Pods\<close>

definition isPodMarkedForDeletion :: "PodCondition list \<Rightarrow> bool" where
  "isPodMarkedForDeletion conditions =
     list_ex (\<lambda>c. pc_Type c = ''DisruptionTarget'' \<and> pc_Status c = ''True'' \<and> pc_Reason c = ''DeletionByTaintManager'') conditions"

definition isPodCompleted :: "string \<Rightarrow> bool" where
  "isPodCompleted phase \<longleftrightarrow> phase = ''Succeeded'' \<or> phase = ''Failed''"

definition isPodLostToNodeFailure :: "Pod \<Rightarrow> bool" where
  "isPodLostToNodeFailure pod \<longleftrightarrow> po_Phase pod = ''Unknown'' \<and> po_Reason pod = ''NodeLost''"

definition isPodUsingIP :: "('w, 'x) ctrl_scheme \<Rightarrow> Pod \<Rightarrow> IP \<Rightarrow> string \<Rightarrow> bool" where
  "isPodUsingIP k pod ip ifName =
     (case map_of (om_Annotations (po_Meta pod)) ''k8s.v1.cni.cncf.io/network-status'' of
        None \<Rightarrow> True
      | Some annotation \<Rightarrow>
          if TrimSpace annotation = [] then False
          else case c_UnmarshalStatus k annotation of
                 Inl _ \<Rightarrow> True
               | Inr statuses \<Rightarrow>
                   let allocatedIfName = TrimSpace ifName
                   in list_ex (\<lambda>s. let statusIfName = TrimSpace (nw_Interface s)
                        in \<not> (allocatedIfName \<noteq> [] \<and> statusIfName \<noteq> [] \<and> statusIfName \<noteq> allocatedIfName)
                           \<and> list_ex (\<lambda>ipStr. ParseIP ipStr \<noteq> [] \<and> IP_Equal (ParseIP ipStr) ip) (nw_IPs s)) statuses)"

subsection \<open>Cluster-wide reservations of removed allocations\<close>

definition removeAllocations :: "IPPool \<Rightarrow> string list \<Rightarrow> IPPool" where
  "removeAllocations pool keys =
     pool\<lparr>ip_Spec := (ip_Spec pool)\<lparr>ps_Allocations :=
       filter (\<lambda>(key, _). key \<notin> set keys) (ps_Allocations (ip_Spec pool))\<rparr>\<rparr>"

text \<open>One listed reservation against one removed allocation: \<open>Some e\<close> is a new \<^verbatim>\<open>lastErr\<close>.\<close>

definition cleanup_one ::
  "('w, 'x) ctrl_scheme \<Rightarrow> string \<Rightarrow> IP \<Rightarrow> IPAllocation \<Rightarrow> OverlappingRangeIPReservation \<Rightarrow> 'w \<Rightarrow> err option \<times> 'w" where
  "cleanup_one k namespace ip alloc res w =
     (let name = om_Name (ov_Meta res); resIP = denormalizeIPName name
      in if resIP = [] \<or> \<not> IP_Equal resIP ip then (None, w)
         else if ia_PodRef alloc = [] \<or> os_PodRef (ov_Spec res) \<noteq> ia_PodRef alloc
                 \<or> ia_IfName alloc = [] \<or> os_IfName (ov_Spec res) \<noteq> ia_IfName alloc
         then (None, w)
         else case k_GetORIP k namespace name w of
                (Inl e, w) \<Rightarrow>
                  if IsNotFound e then (None, w)
                  else (Some (Wrap ''re-fetching overlapping reservation'' e), w)
              | (Inr fresh, w) \<Rightarrow>
                  if os_PodRef (ov_Spec fresh) \<noteq> ia_PodRef alloc \<or> os_IfName (ov_Spec fresh) \<noteq> ia_IfName alloc
                  then (None, w)
                  else (case k_DeleteORIP k (om_Namespace (ov_Meta fresh)) (om_Name (ov_Meta fresh)) (Some (om_UID (ov_Meta fresh))) w of
                          (Inl e, w) \<Rightarrow>
                            if IsNotFound e then (None, w)
                            else (Some (Wrap ''deleting overlapping reservation'' e), w)
                        | (Inr _, w) \<Rightarrow> (None, w)))"

fun cleanup_items ::
  "('w, 'x) ctrl_scheme \<Rightarrow> string \<Rightarrow> IP \<Rightarrow> IPAllocation \<Rightarrow> OverlappingRangeIPReservation list \<Rightarrow> err option \<Rightarrow> 'w
   \<Rightarrow> err option \<times> 'w" where
  "cleanup_items k namespace ip alloc [] lastErr w = (lastErr, w)"
| "cleanup_items k namespace ip alloc (res # rest) lastErr w =
     (case cleanup_one k namespace ip alloc res w of
        (Some e, w) \<Rightarrow> cleanup_items k namespace ip alloc rest (Some e) w
      | (None, w) \<Rightarrow> cleanup_items k namespace ip alloc rest lastErr w)"

fun cleanup_keys ::
  "('w, 'x) ctrl_scheme \<Rightarrow> IPPool \<Rightarrow> OverlappingRangeIPReservation list \<Rightarrow> allocations \<Rightarrow> err option \<Rightarrow> 'w
   \<Rightarrow> err option \<times> 'w" where
  "cleanup_keys k pool items [] lastErr w = (lastErr, w)"
| "cleanup_keys k pool items ((key, alloc) # rest) lastErr w =
     (let ip = allocationKeyToIP pool key
      in if ip = [] then cleanup_keys k pool items rest lastErr w
         else case cleanup_items k (om_Namespace (ip_Meta pool)) ip alloc items lastErr w of
                (lastErr, w) \<Rightarrow> cleanup_keys k pool items rest lastErr w)"

definition cleanupOverlappingReservations ::
  "('w, 'x) ctrl_scheme \<Rightarrow> IPPool \<Rightarrow> allocations \<Rightarrow> 'w \<Rightarrow> err option \<times> 'w" where
  "cleanupOverlappingReservations k pool orphaned w = (case k_ListORIPs k (om_Namespace (ip_Meta pool)) w of
     (Inl e, w) \<Rightarrow> (Some (Wrap ''listing overlapping reservations'' e), w)
   | (Inr items, w) \<Rightarrow> cleanup_keys k pool items orphaned None w)"

subsection \<open>Statistics\<close>

text \<open>Conversion to \<^verbatim>\<open>int32\<close>.\<close>

definition int32 :: "int \<Rightarrow> int" where
  "int32 n = (n + 2 ^ 31) mod 2 ^ 32 - 2 ^ 31"

definition pool_bounds :: "IPPool \<Rightarrow> IPPoolStatus \<Rightarrow> IPPoolStatus" where
  "pool_bounds pool st = (case ParseCIDR (ps_Range (ip_Spec pool)) of
     Inl _ \<Rightarrow> st
   | Inr (_, ipNet) \<Rightarrow>
       if ps_EnableL3 (ip_Spec pool)
       then st\<lparr>pt_FirstIP := IP_String (NetworkIP ipNet), pt_LastIP := IP_String (SubnetBroadcastIP ipNet)\<rparr>
       else let st = (case FirstUsableIP ipNet of Inr f \<Rightarrow> st\<lparr>pt_FirstIP := IP_String f\<rparr> | Inl _ \<Rightarrow> st)
            in (case LastUsableIP ipNet of Inr l \<Rightarrow> st\<lparr>pt_LastIP := IP_String l\<rparr> | Inl _ \<Rightarrow> st))"

definition total_ips :: "IPPool \<Rightarrow> int" where
  "total_ips pool =
     (let count = (case CountUsableIPs (ps_Range (ip_Spec pool)) of Inl _ \<Rightarrow> 0 | Inr n \<Rightarrow> n)
      in case ParseCIDR (ps_Range (ip_Spec pool)) of
           Inl _ \<Rightarrow> count
         | Inr (_, ipNet) \<Rightarrow>
             if ps_EnableL3 (ip_Spec pool)
             then (case IPGetOffset (NetworkIP ipNet) (SubnetBroadcastIP ipNet) of
                     Inl _ \<Rightarrow> 0
                   | Inr offset \<Rightarrow> if offset < MaxInt32 then int32 (offset + 1) else MaxInt32)
             else count)"

definition resolve :: "IPPool \<Rightarrow> string \<times> IPAllocation \<Rightarrow> IPAddressAllocation" where
  "resolve pool ka = (case ka of (key, alloc) \<Rightarrow>
     let ip = allocationKeyToIP pool key
     in \<lparr> aa_IP = (if ip \<noteq> [] then IP_String ip else key), aa_PodRef = ia_PodRef alloc, aa_IfName = ia_IfName alloc \<rparr>)"

fun count_reserved :: "string set \<Rightarrow> string set \<Rightarrow> OverlappingRangeIPReservation list \<Rightarrow> int \<Rightarrow> int" where
  "count_reserved poolIPs seen [] n = n"
| "count_reserved poolIPs seen (res # rest) n =
     (let resIP = denormalizeIPName (om_Name (ov_Meta res))
      in if resIP = [] then count_reserved poolIPs seen rest n
         else if IP_String resIP \<in> seen then count_reserved poolIPs seen rest n
         else if IP_String resIP \<in> poolIPs then count_reserved poolIPs (insert (IP_String resIP) seen) rest (int32 (n + 1))
         else count_reserved poolIPs seen rest n)"

definition computePoolStats ::
  "('w, 'x) ctrl_scheme \<Rightarrow> IPPool \<Rightarrow> int \<Rightarrow> int \<Rightarrow> 'w \<Rightarrow> IPPool \<times> 'w" where
  "computePoolStats k pool orphanedCount pendingCount w =
     (let allocs = ps_Allocations (ip_Spec pool);
          usedIPs = int32 (int (length allocs)); total = total_ips pool;
          free = int32 (total - usedIPs);
          st = (pool_bounds pool (ip_Status pool))
                 \<lparr>pt_TotalIPs := total, pt_UsedIPs := usedIPs, pt_FreeIPs := (if free < 0 then 0 else free),
                  pt_OrphanedIPs := orphanedCount, pt_PendingPods := pendingCount,
                  pt_AllocatedIPs := map (resolve pool) allocs\<rparr>
      in case k_ListORIPs k (om_Namespace (ip_Meta pool)) w of
           (Inl _, w) \<Rightarrow> (pool\<lparr>ip_Status := st\<rparr>, w)
         | (Inr items, w) \<Rightarrow>
             let poolIPs = IP_String ` (set (map (\<lambda>(key, _). allocationKeyToIP pool key) allocs) - {[]})
             in (pool\<lparr>ip_Status := st\<lparr>pt_OverlappingReservations := count_reserved poolIPs {} items 0\<rparr>\<rparr>, w))"

subsection \<open>The service CIDR marker\<close>

definition serviceCIDROverlapKey :: "string \<Rightarrow> string \<Rightarrow> string" where
  "serviceCIDROverlapKey poolRange serviceCIDR = TrimSpace poolRange @ ''|'' @ TrimSpace serviceCIDR"

definition set_annotations :: "(string \<times> string) list \<Rightarrow> IPPool \<Rightarrow> IPPool" where
  "set_annotations a pool = pool\<lparr>ip_Meta := (ip_Meta pool)\<lparr>om_Annotations := a\<rparr>\<rparr>"

definition clearServiceCIDROverlapAnnotation :: "IPPool \<Rightarrow> bool \<times> IPPool" where
  "clearServiceCIDROverlapAnnotation pool =
     (let a = om_Annotations (ip_Meta pool)
      in if map_of a serviceCIDROverlapAnnotation = None then (False, pool)
         else (True, set_annotations (filter (\<lambda>(key, _). key \<noteq> serviceCIDROverlapAnnotation) a) pool))"

definition recordServiceCIDROverlap ::
  "('w, 'x) ctrl_scheme \<Rightarrow> IPPoolReconciler \<Rightarrow> IPPool \<Rightarrow> 'w \<Rightarrow> (bool \<times> IPPool) \<times> 'w" where
  "recordServiceCIDROverlap k r pool w =
     (if rp_serviceCIDRs r = [] \<or> TrimSpace (ps_Range (ip_Spec pool)) = []
      then (clearServiceCIDROverlapAnnotation pool, w)
      else case CIDROverlapsAny (ps_Range (ip_Spec pool)) (rp_serviceCIDRs r) of
             Inl _ \<Rightarrow> (clearServiceCIDROverlapAnnotation pool, w)
           | Inr (overlapping, found) \<Rightarrow>
               if \<not> found then (clearServiceCIDROverlapAnnotation pool, w)
               else let overlapKey = serviceCIDROverlapKey (ps_Range (ip_Spec pool)) overlapping;
                        a = om_Annotations (ip_Meta pool)
                    in if map_of a serviceCIDROverlapAnnotation = Some overlapKey then ((False, pool), w)
                       else ((True, set_annotations (map_put serviceCIDROverlapAnnotation overlapKey a) pool),
                             c_Eventf k ''ServiceCIDROverlap'' w))"

subsection \<open>Reconcile\<close>

datatype verdict = Orphaned | Pending | Verified

text \<open>The body of the loop over the allocations; \<open>Inl\<close> is the return with an error.\<close>

definition classify ::
  "('w, 'x) ctrl_scheme \<Rightarrow> IPPoolReconciler \<Rightarrow> IPPool \<Rightarrow> string \<Rightarrow> IPAllocation \<Rightarrow> 'w \<Rightarrow> verdict result \<times> 'w" where
  "classify k r pool key alloc w = (case parsePodRef (ia_PodRef alloc) of
     None \<Rightarrow> (Inr Orphaned, w)
   | Some (podNS, podName) \<Rightarrow> (case k_GetPod k podNS podName w of
       (Inl e, w) \<Rightarrow> (if IsNotFound e then Inr Orphaned else Inl (Wrap ''getting pod'' e), w)
     | (Inr pod, w) \<Rightarrow>
         let poolIP = allocationKeyToIP pool key
         in (Inr (if rp_cleanupDisrupted r \<and> isPodMarkedForDeletion (po_Conditions pod) then Orphaned
                  else if rp_cleanupTerminating r \<and> om_DeletionTimestamp (po_Meta pod) \<noteq> None then Orphaned
                  else if isPodCompleted (po_Phase pod) then Orphaned
                  else if isPodLostToNodeFailure pod then Orphaned
                  else if po_Phase pod = ''Pending'' then Pending
                  else if rp_verifyNetworkStatus r \<and> poolIP \<noteq> [] \<and> \<not> isPodUsingIP k pod poolIP (ia_IfName alloc)
                  then Orphaned
                  else Verified), w)))"

fun collect ::
  "('w, 'x) ctrl_scheme \<Rightarrow> IPPoolReconciler \<Rightarrow> IPPool \<Rightarrow> allocations \<Rightarrow> allocations \<Rightarrow> int \<Rightarrow> 'w
   \<Rightarrow> (allocations \<times> int) result \<times> 'w" where
  "collect k r pool [] orphaned pending w = (Inr (orphaned, pending), w)"
| "collect k r pool ((key, alloc) # rest) orphaned pending w = (case classify k r pool key alloc w of
     (Inl e, w) \<Rightarrow> (Inl e, w)
   | (Inr Orphaned, w) \<Rightarrow> collect k r pool rest (orphaned @ [(key, alloc)]) pending w
   | (Inr Pending, w) \<Rightarrow> collect k r pool rest orphaned (int32 (pending + 1)) w
   | (Inr Verified, w) \<Rightarrow> collect k r pool rest orphaned pending w)"

definition mark_pool :: "(Condition list \<Rightarrow> Condition list) \<Rightarrow> IPPool \<Rightarrow> IPPool" where
  "mark_pool f pool = pool\<lparr>ip_Status := (ip_Status pool)\<lparr>pt_Conditions := f (pt_Conditions (ip_Status pool))\<rparr>\<rparr>"

text \<open>The deferred patch: an error is returned if the spec or the marker was not saved.\<close>

definition finish_pool ::
  "('w, 'x) ctrl_scheme \<Rightarrow> IPPool \<Rightarrow> IPPool \<Rightarrow> bool \<Rightarrow> bool \<Rightarrow> Result \<Rightarrow> 'w \<Rightarrow> Result \<times> err option \<times> 'w" where
  "finish_pool k before pool orphans overlapMarkerChanged res w = (case Patch (ippool_client k) before pool w of
     (None, _, w) \<Rightarrow> (res, None, w)
   | (Some e, _, w) \<Rightarrow>
       if orphans then (no_requeue, Some (Wrap ''patching pool after orphan cleanup'' e), w)
       else if overlapMarkerChanged
       then (no_requeue, Some (Wrap ''patching pool after service CIDR overlap marker update'' e), w)
       else (res, None, w))"

definition reconcile_deleting ::
  "('w, 'x) ctrl_scheme \<Rightarrow> IPPool \<Rightarrow> 'w \<Rightarrow> Result \<times> err option \<times> 'w" where
  "reconcile_deleting k pool w =
     (if ippoolFinalizer \<notin> set (om_Finalizers (ip_Meta pool)) then (no_requeue, None, w)
      else let allocs = ps_Allocations (ip_Spec pool);
               (failed, w) = (if allocs \<noteq> [] then cleanupOverlappingReservations k pool allocs w else (None, w))
           in if failed \<noteq> None then (requeue_after retryRequeueInterval, None, w)
              else let pool' = pool\<lparr>ip_Meta := (ip_Meta pool)\<lparr>om_Finalizers :=
                                filter (\<lambda>f. f \<noteq> ippoolFinalizer) (om_Finalizers (ip_Meta pool))\<rparr>\<rparr>
                   in (case c_UpdateIPPool k pool' w of
                         (Inl e, w) \<Rightarrow> (no_requeue, Some (Wrap ''removing finalizer'' e), w)
                       | (Inr _, w) \<Rightarrow> (no_requeue, None, w)))"

definition reconcile_checked ::
  "('w, 'x) ctrl_scheme \<Rightarrow> IPPoolReconciler \<Rightarrow> IPPool \<Rightarrow> IPPool \<Rightarrow> bool \<Rightarrow> allocations \<Rightarrow> int \<Rightarrow> 'w
   \<Rightarrow> Result \<times> err option \<times> 'w" where
  "reconcile_checked k r before pool0 overlapMarkerChanged orphaned pending w =
     (let orphans = (orphaned \<noteq> []);
          pool = (if orphans then removeAllocations pool0 (map fst orphaned) else pool0);
          (failed, w) =
            (if orphans then cleanupOverlappingReservations k pool orphaned (c_Eventf k ''OrphanedAllocationsCleaned'' w)
             else (None, w))
      in if failed \<noteq> None
         then (requeue_after retryRequeueInterval, None, c_Eventf k ''OverlappingReservationCleanupFailed'' w)
         else let (pool, w) = computePoolStats k pool (int32 (int (length orphaned))) pending w;
                  gen = om_Generation (ip_Meta pool)
              in if pending > 0
                 then finish_pool k before
                        (mark_pool (markReconciling (c_Now k w) gen ''waiting for pending pods to be scheduled'') pool)
                        orphans overlapMarkerChanged (requeue_after pendingPodRequeueInterval) w
                 else finish_pool k before
                        (mark_pool (if orphans
                            then markReady (c_Now k w) gen ''OrphansCleaned''
                                   (''cleaned '' @ dec (length orphaned) @ '' orphaned allocation(s)'')
                            else markReady (c_Now k w) gen ''Reconciled'' ''all allocations verified'') pool)
                        orphans overlapMarkerChanged (requeue_after (rp_reconcileInterval r)) w)"

definition Reconcile ::
  "('w, 'x) ctrl_scheme \<Rightarrow> IPPoolReconciler \<Rightarrow> string \<Rightarrow> string \<Rightarrow> 'w \<Rightarrow> Result \<times> err option \<times> 'w" where
  "Reconcile k r namespace name w = (case k_GetIPPool k namespace name w of
     (Inl e, w) \<Rightarrow> (no_requeue, if IsNotFound e then None else Some (Wrap ''getting IPPool'' e), w)
   | (Inr pool, w) \<Rightarrow>
       if om_DeletionTimestamp (ip_Meta pool) \<noteq> None then reconcile_deleting k pool w
       else if ippoolFinalizer \<notin> set (om_Finalizers (ip_Meta pool))
       then (case c_UpdateIPPool k (pool\<lparr>ip_Meta := (ip_Meta pool)\<lparr>om_Finalizers :=
                    om_Finalizers (ip_Meta pool) @ [ippoolFinalizer]\<rparr>\<rparr>) w of
               (Inl e, w) \<Rightarrow> (no_requeue, Some (Wrap ''adding finalizer'' e), w)
             | (Inr _, w) \<Rightarrow> (\<lparr> re_Requeue = True, re_RequeueAfter = 0 \<rparr>, None, w))
       else let before = pool;
                ((overlapMarkerChanged, pool), w) = recordServiceCIDROverlap k r pool w;
                gen = om_Generation (ip_Meta pool);
                pool = mark_pool (markReconciling (c_Now k w) gen ''checking allocations for orphaned entries'') pool;
                allocs = ps_Allocations (ip_Spec pool)
            in if allocs = []
               then let (pool, w) = computePoolStats k pool 0 0 w
                    in finish_pool k before (mark_pool (markReady (c_Now k w) gen ''Reconciled'' ''no allocations to reconcile'') pool)
                         False overlapMarkerChanged (requeue_after (rp_reconcileInterval r)) w
               else (case collect k r pool allocs [] 0 w of
                       (Inl e, w) \<Rightarrow> (no_requeue, Some e, w)
                     | (Inr (orphaned, pending), w) \<Rightarrow>
                         reconcile_checked k r before pool overlapMarkerChanged orphaned pending w))"

section \<open>Which allocations are removed\<close>

definition reads_pods :: "('w, 'x) ctrl_scheme \<Rightarrow> bool" where
  "reads_pods k \<longleftrightarrow> (\<forall>ns n w. snd (k_GetPod k ns n w) = w)"

lemma classify_world: "reads_pods k \<Longrightarrow> snd (classify k r pool key alloc w) = w"
  by (auto simp: classify_def reads_pods_def Let_def split: option.splits prod.splits sum.splits) (metis snd_conv)+

lemma collect_exact:
  assumes "reads_pods k" "collect k r pool allocs orphaned pending w = (Inr (orphaned', pending'), w')"
  shows "w' = w \<and> orphaned' = orphaned @ filter (\<lambda>(key, a). fst (classify k r pool key a w) = Inr Orphaned) allocs
    \<and> list_all (\<lambda>(key, a). \<exists>v. fst (classify k r pool key a w) = Inr v) allocs"
  using assms(2)
proof (induction allocs arbitrary: orphaned pending)
  case Nil
  then show ?case by simp
next
  case (Cons ka rest)
  obtain key a where ka: "ka = (key, a)" by fastforce
  obtain v where v: "classify k r pool key a w = (Inr v, w)"
    using Cons.prems classify_world [OF assms(1), of r pool key a w]
    by (cases "classify k r pool key a w"; cases "fst (classify k r pool key a w)") (auto simp: ka)
  show ?case
    using Cons.prems Cons.IH [of "orphaned @ [(key, a)]" pending] Cons.IH [of orphaned "int32 (pending + 1)"]
      Cons.IH [of orphaned pending] v
    by (cases v) (auto simp: ka)
qed

lemma surviving:
  assumes "reads_pods k" "collect k r pool (ps_Allocations (ip_Spec pool)) [] 0 w = (Inr (orphaned, pending), w')"
    and "distinct (map fst (ps_Allocations (ip_Spec pool)))" "(key, a) \<in> set (ps_Allocations (ip_Spec pool))"
  shows "(key, a) \<in> set (ps_Allocations (ip_Spec (removeAllocations pool (map fst orphaned))))
    \<longleftrightarrow> fst (classify k r pool key a w) \<noteq> Inr Orphaned"
proof -
  have o: "orphaned = filter (\<lambda>(key, a). fst (classify k r pool key a w) = Inr Orphaned) (ps_Allocations (ip_Spec pool))"
    using collect_exact [OF assms(1,2)] by simp
  have "key \<in> set (map fst orphaned) \<longleftrightarrow> (key, a) \<in> set orphaned"
  proof
    assume "key \<in> set (map fst orphaned)"
    then obtain b where b: "(key, b) \<in> set orphaned" by auto
    then have "(key, b) \<in> set (ps_Allocations (ip_Spec pool))" by (simp add: o)
    then show "(key, a) \<in> set orphaned" using b eq_key_imp_eq_value [OF assms(3)] assms(4) by blast
  qed force
  then show ?thesis using assms(4) by (auto simp: removeAllocations_def o)
qed

text \<open>
  The pass with other operations for writing the pool. What it reads does not depend on them, and
  of the writes only the calls it makes.
\<close>

definition with_writes ::
  "('w, 'x) ctrl_scheme \<Rightarrow> (IPPool \<Rightarrow> IPPool merge_patch \<Rightarrow> 'w \<Rightarrow> IPPool result \<times> 'w) \<Rightarrow> (IPPool \<Rightarrow> 'w \<Rightarrow> IPPool result \<times> 'w)
   \<Rightarrow> ('w, 'x) ctrl_scheme" where
  "with_writes k patch update = k\<lparr>c_PatchIPPool := patch, c_UpdateIPPool := update\<rparr>"

lemma with_writes_simps [simp]:
  "k_GetIPPool (with_writes k f u) = k_GetIPPool k" "k_GetPod (with_writes k f u) = k_GetPod k"
  "k_ListORIPs (with_writes k f u) = k_ListORIPs k" "k_GetORIP (with_writes k f u) = k_GetORIP k"
  "k_DeleteORIP (with_writes k f u) = k_DeleteORIP k" "c_Now (with_writes k f u) = c_Now k"
  "c_Eventf (with_writes k f u) = c_Eventf k" "c_UnmarshalStatus (with_writes k f u) = c_UnmarshalStatus k"
  "c_StatusIPPool (with_writes k f u) = c_StatusIPPool k"
  "c_PatchIPPool (with_writes k f u) = f" "c_UpdateIPPool (with_writes k f u) = u"
  by (simp_all add: with_writes_def)

lemma isPodUsingIP_writes: "isPodUsingIP (with_writes k f u) = isPodUsingIP k"
  by (intro ext) (simp only: isPodUsingIP_def with_writes_simps)

lemma classify_writes: "classify (with_writes k f u) = classify k"
  by (intro ext) (simp only: classify_def with_writes_simps isPodUsingIP_writes)

lemma collect_writes: "collect (with_writes k f u) r pool allocs o' p w = collect k r pool allocs o' p w"
proof (induction allocs arbitrary: o' p w)
  case (Cons ka rest)
  then show ?case by (cases ka) (simp add: classify_writes split: prod.split sum.split verdict.split)
qed simp

lemma cleanup_items_writes: "cleanup_items (with_writes k f u) ns ip alloc items e w = cleanup_items k ns ip alloc items e w"
proof -
  have "cleanup_one (with_writes k f u) = cleanup_one k" by (intro ext) (simp only: cleanup_one_def with_writes_simps)
  then show ?thesis by (induction items arbitrary: e w) (simp_all split: prod.split option.split)
qed

lemma cleanup_keys_writes: "cleanup_keys (with_writes k f u) pool items orphaned e w = cleanup_keys k pool items orphaned e w"
proof (induction orphaned arbitrary: e w)
  case (Cons ka rest)
  then show ?case by (cases ka) (simp add: cleanup_items_writes Let_def split: prod.split)
qed simp

lemma reads_writes:
  "cleanupOverlappingReservations (with_writes k f u) pool orphaned w = cleanupOverlappingReservations k pool orphaned w"
  "computePoolStats (with_writes k f u) pool n m w = computePoolStats k pool n m w"
  "recordServiceCIDROverlap (with_writes k f u) r pool w = recordServiceCIDROverlap k r pool w"
  by (simp_all only: cleanupOverlappingReservations_def cleanup_keys_writes computePoolStats_def recordServiceCIDROverlap_def with_writes_simps)

lemma computePoolStats_same:
  "computePoolStats k pool n m w = (pool', w') \<Longrightarrow> ip_Spec pool' = ip_Spec pool \<and> ip_Meta pool' = ip_Meta pool"
  by (auto simp: computePoolStats_def Let_def split: prod.splits sum.splits)

lemma recordServiceCIDROverlap_spec: "recordServiceCIDROverlap k r pool w = ((changed, pool'), w') \<Longrightarrow> ip_Spec pool' = ip_Spec pool"
  by (auto simp: recordServiceCIDROverlap_def clearServiceCIDROverlapAnnotation_def set_annotations_def Let_def
      split: if_splits sum.splits option.splits)

lemma mark_pool_same [simp]: "ip_Spec (mark_pool g pool) = ip_Spec pool" "ip_Meta (mark_pool g pool) = ip_Meta pool"
  by (simp_all add: mark_pool_def)

lemma Patch_writes:
  assumes "c_PatchIPPool k obj (MergeFrom before) = f obj (MergeFrom before)"
  shows "Patch (ippool_client (with_writes k f u)) before obj w = Patch (ippool_client k) before obj w"
proof -
  let ?c = "ippool_client (with_writes k f u)" and ?d = "ippool_client k"
  have "oc_sameSpec ?c = oc_sameSpec ?d" "oc_sameStatus ?c = oc_sameStatus ?d" "oc_overwriteStatus ?c = oc_overwriteStatus ?d"
    "oc_StatusUpdate ?c = oc_StatusUpdate ?d" "oc_Patch ?c obj (MergeFrom before) = oc_Patch ?d obj (MergeFrom before)"
    using assms by (simp_all add: ippool_client_def)
  then show ?thesis by (simp only: Patch_def patch_main_def update_status_def)
qed

text \<open>A pod that the reconciler configured by \<open>r\<close> takes for a user of the address.\<close>

definition uses_address :: "('w, 'x) ctrl_scheme \<Rightarrow> IPPoolReconciler \<Rightarrow> IPPool \<Rightarrow> string \<Rightarrow> IPAllocation \<Rightarrow> Pod \<Rightarrow> bool" where
  "uses_address k r pool key a pod \<longleftrightarrow> po_Phase pod = ''Running''
     \<and> (rp_cleanupDisrupted r \<longrightarrow> \<not> isPodMarkedForDeletion (po_Conditions pod))
     \<and> (rp_cleanupTerminating r \<longrightarrow> om_DeletionTimestamp (po_Meta pod) = None)
     \<and> (rp_verifyNetworkStatus r \<longrightarrow> isPodUsingIP k pod (allocationKeyToIP pool key) (ia_IfName a))"

lemma collect_spares:
  assumes "parsePodRef (ia_PodRef a) = Some (ns, n)" "\<And>w. \<exists>pod. fst (k_GetPod k ns n w) = Inr pod \<and> uses_address k r pool key a pod"
    and "collect k r pool allocs o' p w = (Inr (orphaned, pending), w')" "\<forall>b. (key, b) \<in> set allocs \<longrightarrow> b = a" "key \<notin> fst ` set o'"
  shows "key \<notin> fst ` set orphaned"
  using assms(3-5)
proof (induction allocs arbitrary: o' p w)
  case (Cons ka rest)
  obtain key' b where ka: "ka = (key', b)" by fastforce
  obtain v w1 where v: "classify k r pool key' b w = (v, w1)" by fastforce
  have "v \<noteq> Inr Orphaned" if "key' = key"
  proof -
    have b: "b = a" using Cons.prems(2) that by (auto simp: ka)
    obtain pod w2 where "k_GetPod k ns n w = (Inr pod, w2)" "uses_address k r pool key a pod" using assms(2) [of w] by (metis prod.collapse)
    then show ?thesis
      using v assms(1) by (auto simp: b that classify_def uses_address_def isPodCompleted_def isPodLostToNodeFailure_def Let_def)
  qed
  then show ?case
    using Cons.prems Cons.IH [of "o' @ [(key', b)]" p w1] Cons.IH [of o' "int32 (p + 1)" w1] Cons.IH [of o' p w1] v
    by (auto simp: ka split: sum.splits verdict.splits)
qed simp

text \<open>A write that leaves an allocation as it is: a merge patch sends the differences of its two objects.\<close>

fun patch_base :: "'o merge_patch \<Rightarrow> 'o" where
  "patch_base (MergeFrom before) = before"
| "patch_base (MergeFromWithOptimisticLock before) = before"

definition has_alloc :: "string \<Rightarrow> IPAllocation \<Rightarrow> IPPool \<Rightarrow> bool" where
  "has_alloc key a pool \<longleftrightarrow> (key, a) \<in> set (ps_Allocations (ip_Spec pool))"

definition sparing ::
  "('w, 'x) ctrl_scheme \<Rightarrow> string \<Rightarrow> IPAllocation \<Rightarrow> (IPPool \<Rightarrow> IPPool merge_patch \<Rightarrow> 'w \<Rightarrow> IPPool result \<times> 'w)
   \<Rightarrow> (IPPool \<Rightarrow> 'w \<Rightarrow> IPPool result \<times> 'w) \<Rightarrow> ('w, 'x) ctrl_scheme" where
  "sparing k key a f u = with_writes k
     (\<lambda>obj patch w. if has_alloc key a obj \<and> has_alloc key a (patch_base patch) then c_PatchIPPool k obj patch w else f obj patch w)
     (\<lambda>obj w. if has_alloc key a obj then c_UpdateIPPool k obj w else u obj w)"

lemma finish_pool_sparing:
  assumes "has_alloc key a before" "has_alloc key a obj"
  shows "finish_pool (sparing k key a f u) before obj orphans marker res w = finish_pool k before obj orphans marker res w"
proof -
  have "Patch (ippool_client (sparing k key a f u)) before obj w = Patch (ippool_client k) before obj w"
    unfolding sparing_def by (rule Patch_writes) (simp add: assms fun_eq_iff)
  then show ?thesis by (simp add: finish_pool_def)
qed

lemma reconcile_checked_sparing:
  assumes "has_alloc key a before" "has_alloc key a pool" "key \<notin> fst ` set orphaned"
  shows "reconcile_checked (sparing k key a f u) r before pool marker orphaned pending w
    = reconcile_checked k r before pool marker orphaned pending w"
proof -
  have "has_alloc key a (removeAllocations pool (map fst orphaned))"
    using assms(2,3) by (auto simp: has_alloc_def removeAllocations_def)
  then have "has_alloc key a pool'" if "computePoolStats k (if orphaned \<noteq> [] then removeAllocations pool (map fst orphaned) else pool) n m w1 = (pool', w2)" for n m w1 pool' w2
    using computePoolStats_same [OF that] assms(2) by (auto simp: has_alloc_def split: if_splits)
  then have fin: "finish_pool (sparing k key a f u) before (mark_pool g pool') orphans marker res w2 = finish_pool k before (mark_pool g pool') orphans marker res w2"
    if "computePoolStats k (if orphaned \<noteq> [] then removeAllocations pool (map fst orphaned) else pool) n m w1 = (pool', w2)" for n m w1 pool' w2 g orphans res
    using that by (intro finish_pool_sparing [OF assms(1)]) (simp add: has_alloc_def)
  have reads: "cleanupOverlappingReservations (sparing k key a f u) = cleanupOverlappingReservations k"
    "computePoolStats (sparing k key a f u) = computePoolStats k" "c_Eventf (sparing k key a f u) = c_Eventf k" "c_Now (sparing k key a f u) = c_Now k"
    by (intro ext; simp add: sparing_def reads_writes)+
  show ?thesis
    unfolding reconcile_checked_def reads Let_def
    by (auto split: prod.split simp: fin)
qed

text \<open>
  C30: the reconciler leaves the address of a pod that runs and uses it alone: as long as the
  pod is there and running, was not marked for deletion by the taint manager (where disrupted pods
  are cleaned up), is not terminating (where terminating pods are) and its network status shows the
  address or is missing (where the status is verified), every write of a pass over the pool sends
  an object that has its allocation as it was read, and every patch is made from one: whatever the
  server would do with other writes makes no difference.
\<close>

theorem running_pod_keeps_address:
  assumes "k_GetIPPool k namespace name w = (Inr pool, w1)"
    and "distinct (map fst (ps_Allocations (ip_Spec pool)))" "(key, a) \<in> set (ps_Allocations (ip_Spec pool))"
    and "parsePodRef (ia_PodRef a) = Some (ns, n)" "\<And>w. \<exists>pod. fst (k_GetPod k ns n w) = Inr pod \<and> uses_address k r pool key a pod"
  shows "Reconcile (sparing k key a f u) r namespace name w = Reconcile k r namespace name w"
proof -
  let ?k = "sparing k key a f u"
  have has: "has_alloc key a pool'" if "ip_Spec pool' = ip_Spec pool" for pool' using assms(3) that by (simp add: has_alloc_def)
  have one: "\<forall>b. (key, b) \<in> set (ps_Allocations (ip_Spec pool)) \<longrightarrow> b = a" using assms(2,3) by (auto dest: eq_key_imp_eq_value)
  have reads: "cleanupOverlappingReservations ?k = cleanupOverlappingReservations k" "computePoolStats ?k = computePoolStats k"
    "recordServiceCIDROverlap ?k = recordServiceCIDROverlap k" "collect ?k = collect k" "c_Now ?k = c_Now k" "k_GetIPPool ?k = k_GetIPPool k"
    by (intro ext; simp add: sparing_def reads_writes collect_writes)+
  have upd: "c_UpdateIPPool ?k obj = c_UpdateIPPool k obj" if "ip_Spec obj = ip_Spec pool" for obj
    using has [OF that] by (auto simp: sparing_def)
  have deleting: "reconcile_deleting ?k pool w' = reconcile_deleting k pool w'" for w'
    unfolding reconcile_deleting_def reads Let_def by (simp add: upd split: prod.split)
  have stats: "finish_pool ?k pool (mark_pool g pool') orphans marker res w3 = finish_pool k pool (mark_pool g pool') orphans marker res w3"
    if "computePoolStats k (mark_pool h pool1) n m w2 = (pool', w3)" "ip_Spec pool1 = ip_Spec pool" for g h pool1 pool' orphans marker res n m w2 w3
    using computePoolStats_same [OF that(1)] that(2) by (intro finish_pool_sparing has) simp_all
  have checked: "reconcile_checked ?k r pool (mark_pool h pool1) marker orphaned pending w3 = reconcile_checked k r pool (mark_pool h pool1) marker orphaned pending w3"
    if s: "ip_Spec pool1 = ip_Spec pool"
      and c: "collect k r (mark_pool h pool1) (ps_Allocations (ip_Spec pool)) [] 0 w2 = (Inr (orphaned, pending), w3)" for h pool1 marker orphaned pending w2 w3
  proof (rule reconcile_checked_sparing)
    have u: "uses_address k r (mark_pool h pool1) key a pod = uses_address k r pool key a pod" for pod
      using s by (simp add: uses_address_def allocationKeyToIP_def)
    show "key \<notin> fst ` set orphaned"
      by (rule collect_spares [where k = k and r = r and pool = "mark_pool h pool1" and o' = "[]", OF assms(4) _ c one]) (use assms(5) in \<open>simp_all add: u\<close>)
  qed (use s has in auto)
  show ?thesis
    unfolding Reconcile_def reads assms(1)
    by (auto simp: deleting upd stats checked Let_def dest!: recordServiceCIDROverlap_spec split: prod.split sum.split)
qed

text \<open>
  C31: the reconciler releases what no pod holds: an allocation whose pod reference is
  malformed, or whose pod does not exist or is completed, is removed.
\<close>

theorem gone_pod_is_released:
  assumes "reads_pods k" "collect k r pool (ps_Allocations (ip_Spec pool)) [] 0 w = (Inr (orphaned, pending), w')"
    and "distinct (map fst (ps_Allocations (ip_Spec pool)))" "(key, a) \<in> set (ps_Allocations (ip_Spec pool))"
    and "case parsePodRef (ia_PodRef a) of None \<Rightarrow> True
      | Some (ns, name) \<Rightarrow> (case fst (k_GetPod k ns name w) of
            Inl e \<Rightarrow> IsNotFound e | Inr pod \<Rightarrow> isPodCompleted (po_Phase pod))"
  shows "(key, a) \<notin> set (ps_Allocations (ip_Spec (removeAllocations pool (map fst orphaned))))"
proof -
  have "fst (classify k r pool key a w) = Inr Orphaned"
    using assms(5) by (auto simp: classify_def Let_def split: option.splits prod.splits sum.splits)
  then show ?thesis using surviving [OF assms(1-4)] by simp
qed

definition pool_with :: "allocations \<Rightarrow> IPPool" where
  "pool_with m = \<lparr> ip_Meta = empty_meta\<lparr>om_Name := ''10.0.0.0-24'', om_Namespace := ''kube-system''\<rparr>,
     ip_Spec = \<lparr> ps_Range = ''10.0.0.0/24'', ps_Allocations = m, ps_EnableL3 = False \<rparr>, ip_Status = empty_pool_status \<rparr>"

definition two_allocs :: allocations where
  "two_allocs = [(''1'', \<lparr> ia_ContainerID = ''c1'', ia_PodRef = ''ns/p1'', ia_IfName = ''eth0'' \<rparr>),
                 (''2'', \<lparr> ia_ContainerID = ''c2'', ia_PodRef = ''ns/p2'', ia_IfName = ''eth0'' \<rparr>)]"

definition pod_ex :: Pod where
  "pod_ex = \<lparr> po_Meta = empty_meta\<lparr>om_Name := ''p1'', om_Namespace := ''ns''\<rparr>, po_Phase = ''Running'', po_Reason = [],
     po_Conditions = [] \<rparr>"

text \<open>A cluster in which the pod \<^verbatim>\<open>ns/p1\<close> runs and no other pod exists.\<close>

definition one_pod :: "nat ctrl" where
  "one_pod = null_ctrl\<lparr>k_GetPod := \<lambda>ns n w. (if ns = ''ns'' \<and> n = ''p1'' then Inr pod_ex else Inl (ApiErr NotFound), w)\<rparr>"

definition reconciler_ex :: IPPoolReconciler where
  "reconciler_ex = \<lparr> rp_reconcileInterval = 30000000000, rp_serviceCIDRs = [], rp_cleanupTerminating = False,
     rp_cleanupDisrupted = True, rp_verifyNetworkStatus = True \<rparr>"

lemma one_pod_reads: "reads_pods one_pod"
  by (simp add: reads_pods_def one_pod_def)

lemma one_pod_collect: "collect one_pod reconciler_ex (pool_with two_allocs) (ps_Allocations (ip_Spec (pool_with two_allocs))) [] 0 0
    = (Inr ([(''2'', \<lparr> ia_ContainerID = ''c2'', ia_PodRef = ''ns/p2'', ia_IfName = ''eth0'' \<rparr>)], 0), 0)"
  by code_simp

lemma two_allocs_facts:
  "distinct (map fst (ps_Allocations (ip_Spec (pool_with two_allocs))))"
  "(''1'', \<lparr> ia_ContainerID = ''c1'', ia_PodRef = ''ns/p1'', ia_IfName = ''eth0'' \<rparr>) \<in> set (ps_Allocations (ip_Spec (pool_with two_allocs)))"
  "(''2'', \<lparr> ia_ContainerID = ''c2'', ia_PodRef = ''ns/p2'', ia_IfName = ''eth0'' \<rparr>) \<in> set (ps_Allocations (ip_Spec (pool_with two_allocs)))"
  by (simp_all add: pool_with_def two_allocs_def)

definition finalized :: "IPPool \<Rightarrow> IPPool" where
  "finalized pool = pool\<lparr>ip_Meta := (ip_Meta pool)\<lparr>om_Finalizers := om_Finalizers (ip_Meta pool) @ [ippoolFinalizer]\<rparr>\<rparr>"

text \<open>A server that stores the pool, in its world, and takes every write.\<close>

definition pool_server :: "IPPool ctrl" where
  "pool_server = null_ctrl\<lparr>k_GetPod := \<lambda>ns n w. (if ns = ''ns'' \<and> n = ''p1'' then Inr pod_ex else Inl (ApiErr NotFound), w),
     k_GetIPPool := \<lambda>_ _ w. (Inr w, w), k_ListORIPs := \<lambda>_ w. (Inr [], w), c_PatchIPPool := \<lambda>obj _ w. (Inr obj, obj), c_StatusIPPool := \<lambda>obj w. (Inr obj, obj)\<rparr>"

text \<open>The pass removes the allocation of the pod that is gone, and the other writes would remove all.\<close>

theorem running_pod_keeps_address_witness:
  "ps_Allocations (ip_Spec (snd (snd (Reconcile (sparing pool_server ''1'' \<lparr> ia_ContainerID = ''c1'', ia_PodRef = ''ns/p1'', ia_IfName = ''eth0'' \<rparr>
       (\<lambda>obj _ w. (Inr obj, pool_with [])) (\<lambda>obj w. (Inr obj, pool_with []))) reconciler_ex ''kube-system'' ''10.0.0.0-24'' (finalized (pool_with two_allocs))))))
   = [(''1'', \<lparr> ia_ContainerID = ''c1'', ia_PodRef = ''ns/p1'', ia_IfName = ''eth0'' \<rparr>)]"
proof -
  let ?a = "\<lparr> ia_ContainerID = ''c1'', ia_PodRef = ''ns/p1'', ia_IfName = ''eth0'' \<rparr>" and ?p = "finalized (pool_with two_allocs)"
  have p: "parsePodRef (ia_PodRef ?a) = Some (''ns'', ''p1'')" by code_simp
  have g: "k_GetIPPool pool_server ''kube-system'' ''10.0.0.0-24'' ?p = (Inr ?p, ?p)" by (simp add: pool_server_def)
  have d: "distinct (map fst (ps_Allocations (ip_Spec ?p)))" "(''1'', ?a) \<in> set (ps_Allocations (ip_Spec ?p))"
    by (simp_all add: finalized_def pool_with_def two_allocs_def)
  have u: "\<exists>pod. fst (k_GetPod pool_server ''ns'' ''p1'' w) = Inr pod \<and> uses_address pool_server reconciler_ex ?p ''1'' ?a pod" for w
    by (simp add: pool_server_def uses_address_def pod_ex_def reconciler_ex_def isPodMarkedForDeletion_def isPodUsingIP_def empty_meta_def)
  show ?thesis unfolding running_pod_keeps_address [OF g d p u] by code_simp
qed

theorem gone_pod_is_released_witness:
  "(''2'', \<lparr> ia_ContainerID = ''c2'', ia_PodRef = ''ns/p2'', ia_IfName = ''eth0'' \<rparr>)
     \<notin> set (ps_Allocations (ip_Spec (removeAllocations (pool_with two_allocs) [''2''])))"
proof -
  have "parsePodRef ''ns/p2'' = Some (''ns'', ''p2'')" by code_simp
  then show ?thesis
    using gone_pod_is_released [OF one_pod_reads one_pod_collect two_allocs_facts(1,3)] by (simp add: one_pod_def)
qed

section \<open>Which reservations are deleted\<close>

text \<open>The clean-up with another delete operation, and with another update operation.\<close>

lemma cleanup_delete_irrelevant:
  "k_GetORIP (k\<lparr>k_DeleteORIP := del\<rparr>) = k_GetORIP k" "k_ListORIPs (k\<lparr>k_DeleteORIP := del\<rparr>) = k_ListORIPs k"
  "k_DeleteORIP (k\<lparr>k_DeleteORIP := del\<rparr>) = del"
  by simp_all

lemma cleanup_items_cong:
  assumes "\<And>res w. res \<in> set items \<Longrightarrow> cleanup_one k ns ip alloc res w = cleanup_one k' ns ip alloc res w"
  shows "cleanup_items k ns ip alloc items e w = cleanup_items k' ns ip alloc items e w"
  using assms by (induction items arbitrary: e w) (auto split: prod.splits option.splits)

lemma cleanup_keys_cong:
  assumes "\<And>key alloc res w. (key, alloc) \<in> set orphaned \<Longrightarrow>
      cleanup_one k (om_Namespace (ip_Meta pool)) (allocationKeyToIP pool key) alloc res w
      = cleanup_one k' (om_Namespace (ip_Meta pool)) (allocationKeyToIP pool key) alloc res w"
  shows "cleanup_keys k pool items orphaned e w = cleanup_keys k' pool items orphaned e w"
  using assms
proof (induction orphaned arbitrary: e w)
  case (Cons ka rest)
  obtain key alloc where ka: "ka = (key, alloc)" by fastforce
  have "cleanup_items k (om_Namespace (ip_Meta pool)) (allocationKeyToIP pool key) alloc items e w
      = cleanup_items k' (om_Namespace (ip_Meta pool)) (allocationKeyToIP pool key) alloc items e w"
    using Cons.prems [of key alloc] by (intro cleanup_items_cong) (simp add: ka)
  then show ?case using Cons.IH Cons.prems by (simp add: ka Let_def split: prod.split)
qed simp

text \<open>
  The deletes that a clean-up may make: with the UID of a reservation as a precondition that was
  made for one of the removed allocations, under a name of its address. The webhook keeps pod and
  interface of a reservation from changing, so its UID determines its owner.
\<close>

definition own_delete :: "IPPool \<Rightarrow> allocations \<Rightarrow> (string \<Rightarrow> string \<times> string) \<Rightarrow> string \<Rightarrow> string option \<Rightarrow> bool" where
  "own_delete pool orphaned owner name uid \<longleftrightarrow> (case uid of None \<Rightarrow> False
     | Some u \<Rightarrow> list_ex (\<lambda>(key, a). IP_Equal (denormalizeIPName name) (allocationKeyToIP pool key)
         \<and> owner u = (ia_PodRef a, ia_IfName a)) orphaned)"

text \<open>
  C32: the clean-up after removed allocations leaves the reservations of other pods and
  interfaces alone, also while it deletes those of the removed ones: every delete names a
  reservation of a removed allocation's address, pod and interface by its UID, so what the
  operation would do on any other reservation, or without the precondition, has no influence.
\<close>

theorem cleanup_spares_foreign:
  assumes "\<And>name w res w'. k_GetORIP k (om_Namespace (ip_Meta pool)) name w = (Inr res, w') \<Longrightarrow>
      om_Name (ov_Meta res) = name \<and> owner (om_UID (ov_Meta res)) = (os_PodRef (ov_Spec res), os_IfName (ov_Spec res))"
  shows "cleanupOverlappingReservations (k\<lparr>k_DeleteORIP := \<lambda>ns name uid w.
      if own_delete pool orphaned owner name uid then k_DeleteORIP k ns name uid w else del ns name uid w\<rparr>) pool orphaned w
    = cleanupOverlappingReservations k pool orphaned w"
  (is "cleanupOverlappingReservations ?k pool orphaned w = _")
proof -
  have "cleanup_one ?k (om_Namespace (ip_Meta pool)) (allocationKeyToIP pool key) a res w
      = cleanup_one k (om_Namespace (ip_Meta pool)) (allocationKeyToIP pool key) a res w" if "(key, a) \<in> set orphaned" for key a res w
  proof -
    have "own_delete pool orphaned owner (om_Name (ov_Meta fresh)) (Some (om_UID (ov_Meta fresh)))"
      if "k_GetORIP k (om_Namespace (ip_Meta pool)) name w = (Inr fresh, w')" "IP_Equal (denormalizeIPName name) (allocationKeyToIP pool key)"
        "os_PodRef (ov_Spec fresh) = ia_PodRef a" "os_IfName (ov_Spec fresh) = ia_IfName a" for name w fresh w'
      using assms [OF that(1)] that(2-4) \<open>(key, a) \<in> set orphaned\<close> by (auto simp: own_delete_def list_ex_iff)
    then show ?thesis
      unfolding cleanup_one_def cleanup_delete_irrelevant Let_def by (auto split: prod.split sum.split)
  qed
  then show ?thesis
    unfolding cleanupOverlappingReservations_def cleanup_delete_irrelevant
    using cleanup_keys_cong [of orphaned ?k pool k] by (auto split: prod.split sum.split)
qed

text \<open>
  A server that stores two reservations: one of the removed allocation of \<^verbatim>\<open>ns/p2\<close>, and one that
  \<^verbatim>\<open>ns/p9\<close> has made for the address that \<^verbatim>\<open>ns/p1\<close> gave up. Any other delete would empty the store.
\<close>

definition orip_with :: "string \<Rightarrow> string \<Rightarrow> string \<Rightarrow> OverlappingRangeIPReservation" where
  "orip_with name podRef uid = (let r = new_orip name ''kube-system'' podRef ''eth0'' [] in r\<lparr>ov_Meta := (ov_Meta r)\<lparr>om_UID := uid\<rparr>\<rparr>)"

definition orip_server :: "OverlappingRangeIPReservation list ctrl" where
  "orip_server = null_ctrl\<lparr>k_ListORIPs := \<lambda>_ w. (Inr w, w),
     k_GetORIP := \<lambda>_ name w. (case find (\<lambda>r. om_Name (ov_Meta r) = name \<and> r \<in> {orip_with ''10.0.0.2'' ''ns/p2'' ''u2'', orip_with ''10.0.0.1'' ''ns/p9'' ''u9''}) w of
       None \<Rightarrow> Inl (ApiErr NotFound) | Some r \<Rightarrow> Inr r, w),
     k_DeleteORIP := \<lambda>_ name uid w. (Inr (), filter (\<lambda>r. om_Name (ov_Meta r) \<noteq> name \<or> Some (om_UID (ov_Meta r)) \<noteq> uid) w)\<rparr>"

theorem cleanup_spares_foreign_witness:
  "snd (cleanupOverlappingReservations (orip_server\<lparr>k_DeleteORIP := \<lambda>ns name uid w.
      if own_delete (pool_with two_allocs) two_allocs (\<lambda>u. (if u = ''u2'' then ''ns/p2'' else ''ns/p9'', ''eth0'')) name uid
      then k_DeleteORIP orip_server ns name uid w else (Inr (), [])\<rparr>) (pool_with two_allocs) two_allocs
      [orip_with ''10.0.0.2'' ''ns/p2'' ''u2'', orip_with ''10.0.0.1'' ''ns/p9'' ''u9''])
   = [orip_with ''10.0.0.1'' ''ns/p9'' ''u9'']"
proof -
  let ?owner = "\<lambda>u. (if u = ''u2'' then ''ns/p2'' else ''ns/p9'', ''eth0'')"
  let ?w = "[orip_with ''10.0.0.2'' ''ns/p2'' ''u2'', orip_with ''10.0.0.1'' ''ns/p9'' ''u9'']"
  have "cleanupOverlappingReservations (orip_server\<lparr>k_DeleteORIP := \<lambda>ns name uid w.
      if own_delete (pool_with two_allocs) two_allocs ?owner name uid
      then k_DeleteORIP orip_server ns name uid w else (Inr (), [])\<rparr>) (pool_with two_allocs) two_allocs ?w
    = cleanupOverlappingReservations orip_server (pool_with two_allocs) two_allocs ?w"
    by (rule cleanup_spares_foreign)
      (auto simp: orip_server_def orip_with_def new_orip_def Let_def find_Some_iff split: option.splits)
  moreover have "snd (cleanupOverlappingReservations orip_server (pool_with two_allocs) two_allocs ?w) = [orip_with ''10.0.0.1'' ''ns/p9'' ''u9'']"
    by code_simp
  ultimately show ?thesis by simp
qed

text \<open>
  Every delete of the clean-up carries the UID of the reservation it has just read
  as a precondition: what the operation does without one has no influence.
\<close>

theorem cleanup_deletes_by_uid:
  "cleanupOverlappingReservations
     (k\<lparr>k_DeleteORIP := \<lambda>ns name uid w. case uid of None \<Rightarrow> f ns name w | Some i \<Rightarrow> k_DeleteORIP k ns name (Some i) w\<rparr>)
     pool orphaned w = cleanupOverlappingReservations k pool orphaned w"
  (is "cleanupOverlappingReservations ?k _ _ _ = _")
proof -
  have "cleanup_one ?k ns ip a res w = cleanup_one k ns ip a res w" for ns ip a res w
    unfolding cleanup_one_def cleanup_delete_irrelevant option.case by (rule refl)
  then show ?thesis
    unfolding cleanupOverlappingReservations_def cleanup_delete_irrelevant
    using cleanup_keys_cong [of orphaned ?k pool k] by (auto split: prod.split sum.split)
qed

text \<open>
  The finalizer of a deleted pool stays until its reservations are cleaned up: if the
  clean-up fails, the pool is not updated and the request is tried again.
\<close>

theorem finalizer_waits_for_cleanup:
  assumes "ippoolFinalizer \<in> set (om_Finalizers (ip_Meta pool))" "ps_Allocations (ip_Spec pool) \<noteq> []"
    "cleanupOverlappingReservations k pool (ps_Allocations (ip_Spec pool)) w = (Some e, w')"
  shows "reconcile_deleting (k\<lparr>c_UpdateIPPool := f\<rparr>) pool w = (requeue_after retryRequeueInterval, None, w')"
proof -
  have u: "k_GetORIP (k\<lparr>c_UpdateIPPool := f\<rparr>) = k_GetORIP k" "k_DeleteORIP (k\<lparr>c_UpdateIPPool := f\<rparr>) = k_DeleteORIP k"
    "k_ListORIPs (k\<lparr>c_UpdateIPPool := f\<rparr>) = k_ListORIPs k" by simp_all
  have "cleanup_one (k\<lparr>c_UpdateIPPool := f\<rparr>) ns ip a res w = cleanup_one k ns ip a res w" for ns ip a res w
    unfolding cleanup_one_def u by simp
  then have "cleanupOverlappingReservations (k\<lparr>c_UpdateIPPool := f\<rparr>) pool (ps_Allocations (ip_Spec pool)) w = (Some e, w')"
    using assms(3) cleanup_keys_cong [of "ps_Allocations (ip_Spec pool)" "k\<lparr>c_UpdateIPPool := f\<rparr>" pool k]
    unfolding cleanupOverlappingReservations_def u by (auto split: prod.split sum.split)
  then show ?thesis using assms(1,2) by (simp add: reconcile_deleting_def)
qed

theorem finalizer_waits_for_cleanup_witness:
  "reconcile_deleting (one_pod\<lparr>c_UpdateIPPool := \<lambda>p w. (Inr p, Suc w)\<rparr>)
     ((pool_with two_allocs)\<lparr>ip_Meta := (ip_Meta (pool_with two_allocs))\<lparr>om_Finalizers := [ippoolFinalizer]\<rparr>\<rparr>) 0
   = (requeue_after retryRequeueInterval, None, 0)"
  by (rule finalizer_waits_for_cleanup [where e = "Wrap ''listing overlapping reservations'' (ApiErr NotFound)"])
    (simp_all add: pool_with_def two_allocs_def cleanupOverlappingReservations_def one_pod_def null_ctrl_def)

section \<open>Keys and names\<close>

lemma IPAddOffset_base: "f \<noteq> [] \<Longrightarrow> g \<noteq> [] \<Longrightarrow> toAddr f = toAddr g \<Longrightarrow> IPAddOffset f n = IPAddOffset g n"
  by (simp add: IPAddOffset_def)

lemma toIPReservationList_offsets:
  assumes "list_all (\<lambda>(key, a). offset_key key) m"
  shows "map ir_IP (toIPReservationList m f) = map (\<lambda>(key, _). IPAddOffset f (the (big_SetString key))) m"
  using assms by (induction m f rule: toIPReservationList.induct) (auto simp: offset_key_def split: option.splits)

lemma admitted_offsets:
  assumes "validateIPPool p = Inr ws"
  shows "list_all (\<lambda>(key, a). offset_key key) (ps_Allocations (ip_Spec p))"
proof -
  have "list_all (\<lambda>(key, a). offset_key key \<and> podRef_ok (ia_PodRef a)) (ps_Allocations (ip_Spec p))"
    using assms validateIPPool_iff [of p] by blast
  then show ?thesis by (auto simp: list_all_iff)
qed

text \<open>
  C34: the reconciler and the storage layer read the same addresses from a pool: for a pool
  that the webhook admits and whose range is written with its network address, the reservations
  are those of the allocation keys, one for one.
\<close>

theorem reconciler_reads_storage_addresses:
  assumes "validateIPPool p = Inr ws" "ParseCIDR (ps_Range (ip_Spec p)) = Inr (ip, N)" "toAddr ip = toAddr (net_IP N)"
  shows "map ir_IP (Allocations \<lparr> kp_firstIP = ip, kp_pool = p \<rparr>)
    = map (\<lambda>(key, _). allocationKeyToIP p key) (ps_Allocations (ip_Spec p))"
proof -
  obtain a n where an: "a \<noteq> AddrZero" "n \<le> BitLen a" "ip = As16 a" "N = cidr_net a n"
    using ParseCIDR_net [OF assms(2)] by blast
  have l: "x \<noteq> []" if "valid_ip x" for x using that by (auto simp: valid_ip_def)
  have nv: "valid_ip (net_IP N)"
    unfolding an(4) net_IP_cidr_net [OF an(1,2)] using an(1) by (cases a) (simp_all add: valid_ip_def)
  have ne: "ip \<noteq> []" "net_IP N \<noteq> []" using l [OF valid_As16 [of a]] l [OF nv] unfolding an(3) .
  have "IPAddOffset ip (the (big_SetString key)) = allocationKeyToIP p key" if "offset_key key" for key
    using that IPAddOffset_base [OF ne assms(3)] assms(2)
    by (auto simp: allocationKeyToIP_def offset_key_def split: option.splits)
  then show ?thesis
    using admitted_offsets [OF assms(1)] toIPReservationList_offsets [OF admitted_offsets [OF assms(1)], of ip]
    by (auto simp: Allocations_def list_all_iff)
qed

theorem reconciler_reads_storage_addresses_witness:
  "map ir_IP (Allocations \<lparr> kp_firstIP = As16 (Addr4 0x0a000000), kp_pool = pool_with two_allocs \<rparr>)
    = [[10, 0, 0, 1], [10, 0, 0, 2]]"
proof -
  have p: "validateIPPool (pool_with two_allocs) = Inr []"
    "ParseCIDR (ps_Range (ip_Spec (pool_with two_allocs))) = Inr (As16 (Addr4 0x0a000000), cidr_net (Addr4 0x0a000000) 24)"
    "toAddr (As16 (Addr4 0x0a000000)) = toAddr (net_IP (cidr_net (Addr4 0x0a000000) 24))" by code_simp+
  have "map (\<lambda>(key, _). allocationKeyToIP (pool_with two_allocs) key) (ps_Allocations (ip_Spec (pool_with two_allocs)))
      = [[10, 0, 0, 1], [10, 0, 0, 2]]" by code_simp
  then show ?thesis using reconciler_reads_storage_addresses [OF p] by simp
qed

text \<open>
  For a range written with host bits, which the webhook admits, they disagree: the
  storage layer counts offsets from the address as written, the reconciler from the network
  address, so the same key is \<^verbatim>\<open>10.0.0.6\<close> to one and \<^verbatim>\<open>10.0.0.1\<close> to the other.
\<close>

theorem host_bits_disagree:
  "let p = (pool_with two_allocs)\<lparr>ip_Spec := (ip_Spec (pool_with two_allocs))\<lparr>ps_Range := ''10.0.0.5/24''\<rparr>\<rparr>
   in validateIPPool p = Inr [] \<and> allocationKeyToIP p ''1'' = [10, 0, 0, 1]
      \<and> map ir_IP (Allocations \<lparr> kp_firstIP = fst (projr (IPPool_ParseCIDR p)), kp_pool = p \<rparr>) = [[10, 0, 0, 6], [10, 0, 0, 7]]"
  by code_simp

text \<open>
  The reconciler finds the address in the name of an unnamed network's IPv4 reservation.
\<close>

theorem reservation_name_roundtrip:
  assumes "valid_ip ip" "To4 ip \<noteq> []"
  shows "denormalizeIPName (NormalizeIP ip []) = To16 ip"
proof -
  have v: "valid_ip (To4 ip)" "To16 ip \<noteq> []"
    using assms by (auto simp: valid_ip_def To4_def To16_def split: if_splits)
  have "To16 (To4 ip) = To16 ip"
    using assms by (auto simp: valid_ip_def To4_def To16_def split: if_splits) (metis append_take_drop_id)
  have "ParseIP (NormalizeIP ip []) = To16 ip"
    using ParseIP_String [OF v(1)] \<open>To16 (To4 ip) = To16 ip\<close> assms(2) by (simp add: NormalizeIP_def UnnamedNetwork_def)
  then show ?thesis using v(2) by (simp add: denormalizeIPName_def try_name_def)
qed

theorem reservation_name_roundtrip_witness:
  "denormalizeIPName (NormalizeIP [10, 0, 0, 5] []) = v4InV6Prefix @ [10, 0, 0, 5]"
  using reservation_name_roundtrip [of "[10, 0, 0, 5]"] by (simp add: valid_ip_def To4_def To16_def)

text \<open>
  The name of an IPv6 reservation with a decimal lower half after a group that has a
  letter is read as an IPv4 address: the reservation of \<^verbatim>\<open>fd00:abcd:ef01:beef::1\<close> is taken for
  one of \<^verbatim>\<open>0.0.0.1\<close>, so its clean-up and its count miss it.
\<close>

theorem ipv6_name_misread:
  "let ip = [0xfd, 0, 0xab, 0xcd, 0xef, 1, 0xbe, 0xef, 0, 0, 0, 0, 0, 0, 0, 1]
   in NormalizeIP ip [] = ''fd00-abcd-ef01-beef-0000-0000-0000-0001''
      \<and> denormalizeIPName (NormalizeIP ip []) = v4InV6Prefix @ [0, 0, 0, 1]"
  by code_simp

section \<open>Statistics\<close>

lemma int32_small: "- (2 ^ 31) \<le> n \<Longrightarrow> n < 2 ^ 31 \<Longrightarrow> int32 n = n"
  by (simp add: int32_def)

lemma total_ips_bounds: "0 \<le> total_ips pool \<and> total_ips pool \<le> MaxInt32"
proof -
  have c: "CountUsableIPs s = Inr n \<Longrightarrow> 0 \<le> n \<and> n \<le> MaxInt32" for s n
    by (auto simp: CountUsableIPs_def IPGetOffset_def MaxInt32_def Let_def split: sum.splits prod.splits if_splits)
  have "0 \<le> (if f < MaxInt32 then int32 (f + 1) else MaxInt32) \<and> (if f < MaxInt32 then int32 (f + 1) else MaxInt32) \<le> MaxInt32"
    if "IPGetOffset x y = Inr f" for x y f
    using that int32_small [of "f + 1"] by (auto simp: IPGetOffset_def MaxInt32_def Let_def split: if_splits)
  then show ?thesis
    using c by (auto simp: total_ips_def MaxInt32_def Let_def split: sum.splits)
qed

text \<open>
  The statistics of a pool add up: used is the number of allocations, used and free
  make the total when the allocations fit, free is never negative and the total stays within
  \<^verbatim>\<open>int32\<close>; the address list has an entry for each allocation.
\<close>

theorem computePoolStats_adds_up:
  assumes "length (ps_Allocations (ip_Spec pool)) < 2 ^ 31"
  shows "let st = ip_Status (fst (computePoolStats k pool orphans pending w));
             used = int (length (ps_Allocations (ip_Spec pool)))
    in pt_UsedIPs st = used \<and> pt_TotalIPs st = total_ips pool \<and> 0 \<le> pt_TotalIPs st \<and> pt_TotalIPs st \<le> MaxInt32
       \<and> pt_FreeIPs st = max 0 (pt_TotalIPs st - used)
       \<and> pt_OrphanedIPs st = orphans \<and> pt_PendingPods st = pending
       \<and> length (pt_AllocatedIPs st) = length (ps_Allocations (ip_Spec pool))"
proof -
  let ?n = "int (length (ps_Allocations (ip_Spec pool)))"
  have n: "0 \<le> ?n" "?n < 2 ^ 31" using assms by simp_all
  have t: "0 \<le> total_ips pool" "total_ips pool < 2 ^ 31" using total_ips_bounds [of pool] by (simp_all add: MaxInt32_def)
  have i: "int32 ?n = ?n" "int32 (total_ips pool - ?n) = total_ips pool - ?n"
    by (rule int32_small; use n t in linarith)+
  show ?thesis
    using total_ips_bounds [of pool]
    by (auto simp: computePoolStats_def Let_def i max_def split: prod.splits sum.splits)
qed

theorem computePoolStats_adds_up_witness:
  "pt_FreeIPs (ip_Status (fst (computePoolStats one_pod (pool_with two_allocs) 0 0 0))) = 252"
proof -
  have "length (ps_Allocations (ip_Spec (pool_with two_allocs))) = 2" "total_ips (pool_with two_allocs) = 254" by code_simp+
  then show ?thesis using computePoolStats_adds_up [of "pool_with two_allocs" one_pod 0 0 0] by (simp add: Let_def)
qed

section \<open>Ready on every pass\<close>

lemma cond_of_Set_same:
  assumes "one_per_type cs"
  shows "cond_of (co_Type c) (Set now gen c cs) = cond_of (co_Type c)
    (put_cond now (c\<lparr>co_ObservedGeneration := gen, co_Message := trimConditionMessage (co_Message c) maxMessageLength\<rparr>) cs)"
  unfolding Set_def using assms
  by (intro cond_of_mset mset_sort_conds) (simp add: one_per_type_mset [OF mset_sort_conds] one_per_type_put)

lemma put_cond_changed:
  assumes "co_LastTransitionTime c = 0" "\<And>x. cond_of (co_Type c) cs = Some x \<Longrightarrow> co_Status x \<noteq> co_Status c"
  shows "cond_of (co_Type c) (put_cond now c cs) = Some (c\<lparr>co_LastTransitionTime := now\<rparr>)"
  using assms by (induction cs) (auto simp: cond_of_def hasSameState_def)

text \<open>
  A pass over a pool first marks it reconciling and then ready, so the transition time
  of \<^verbatim>\<open>Ready\<close> is the time of the pass even if the pool was ready before with the same reason and
  message: the status differs on every pass and is written each time.
\<close>

theorem ready_time_moves:
  assumes "one_per_type cs"
  shows "map_option co_LastTransitionTime (cond_of ''Ready'' (markReady now gen r m (markReconciling t gen m' cs))) = Some now"
proof -
  let ?cs = "markReconciling t gen m' cs"
  have o: "one_per_type ?cs" using assms by (simp add: markReconciling_def one_per_type_Set)
  have u: "map_option co_Status (cond_of ''Ready'' ?cs) = Some ''Unknown''"
    using assms by (simp add: markReconciling_def status_of_Set one_per_type_Set flip: status_of_def)
  have "cond_of ''Ready'' (markReady now gen r m ?cs) = cond_of ''Ready'' (Set now gen (new_cond ''Ready'' ''True'' r m) ?cs)"
    using o by (simp add: markReady_def cond_of_Set one_per_type_Set)
  also have "map_option co_LastTransitionTime \<dots> = Some now"
    using cond_of_Set_same [OF o, of "new_cond ''Ready'' ''True'' r m" now gen]
      put_cond_changed [of "(new_cond ''Ready'' ''True'' r m)\<lparr>co_ObservedGeneration := gen,
        co_Message := trimConditionMessage m maxMessageLength\<rparr>" ?cs now] u
    by (auto simp: new_cond_def)
  finally show ?thesis .
qed

theorem ready_time_moves_witness:
  "map_option co_LastTransitionTime (cond_of ''Ready''
     (markReady 9 1 ''Reconciled'' ''ok'' (markReconciling 8 1 ''checking'' (markReady 5 1 ''Reconciled'' ''ok'' [])))) = Some 9"
  by (rule ready_time_moves) code_simp

end
