(* ===== verification/Cluster.thy ===== *)
theory Cluster
  imports Storage IPPoolController
begin

text \<open>
  Several processes on one pool. The API server keeps the pool with a version that every write
  raises; a plugin reads the pool, computes on its copy and sends a JSON patch; the reconciler
  reads the pool and sends a merge patch. Their steps interleave in any order. The server is
  modelled by what the Kubernetes API documents: a JSON patch applies as a whole or not at all, a
  merge patch changes the members in which the two objects it was computed from differ, and
  neither promises the order in which a map is read back.
\<close>

section \<open>The steps\<close>

record cluster =
  cl_version :: nat
  cl_allocs :: allocations
  cl_snap :: "nat \<Rightarrow> IPPool option"
  cl_granted :: "(addr \<times> string \<times> string) set"

text \<open>
  \<open>cl_snap\<close> is the copy each process holds, \<open>cl_granted\<close> the addresses returned to container
  runtimes and not yet released, with pod and interface.
\<close>

definition range_ok :: "IP \<Rightarrow> IPNet \<Rightarrow> RangeConfiguration \<Rightarrow> bool" where
  "range_ok f N conf \<longleftrightarrow> ParseCIDR (rc_Range conf) = Inr (f, N) \<and> good_net N \<and> ip_addr f = ip_addr (net_IP N)
     \<and> (case parseExcludedRanges (rc_OmitRanges conf) of Inl _ \<Rightarrow> False | Inr ex \<Rightarrow> list_all good_net ex)
     \<and> addresses_valid conf"

definition snapshot :: "cluster \<Rightarrow> IPPool \<Rightarrow> bool" where
  "snapshot s pool \<longleftrightarrow> om_ResourceVersion (ip_Meta pool) = dec (cl_version s)
     \<and> distinct (map fst (ps_Allocations (ip_Spec pool))) \<and> map_of (ps_Allocations (ip_Spec pool)) = map_of (cl_allocs s)"

text \<open>The server's side of \<^verbatim>\<open>Update\<close>: the patch for the reservations without dummies applies, with this result.\<close>

definition commits :: "IP \<Rightarrow> IPPool \<Rightarrow> IPReservation list \<Rightarrow> cluster \<Rightarrow> allocations \<Rightarrow> bool" where
  "commits f pool rl s stored \<longleftrightarrow> (case toAllocationMap (filter (\<lambda>r. \<not> ir_IsAllocated r) rl) f of
     Inl _ \<Rightarrow> False
   | Inr allocs \<Rightarrow> distinct (map fst stored)
       \<and> apply_ops (dec (cl_version s), alloc_doc (cl_allocs s)) (update_patch pool allocs)
         = Some (dec (cl_version s), alloc_doc stored))"

definition after_write :: "nat \<Rightarrow> allocations \<Rightarrow> (addr \<times> string \<times> string) set \<Rightarrow> cluster \<Rightarrow> cluster" where
  "after_write p stored granted s = s\<lparr>cl_version := Suc (cl_version s), cl_allocs := stored,
     cl_snap := (cl_snap s)(p := None), cl_granted := granted\<rparr>"

text \<open>
  The steps of the plugins: a copy is read; an address is assigned on the copy and written, and
  returned to the runtime (\<open>take\<close>) or not, since the answer or the process is lost or a later step
  fails (\<open>lost\<close>); an address is released; a write is taken back; a copy is dropped; and anything
  else changes the version, such as a write of the status. A step is labelled with the entries that
  it claims to make in the books: the address that a write has assigned, with its holder, or the
  address that it has released.
\<close>

datatype entry = Held addr string string string | Freed addr

inductive plugin_act :: "IP \<Rightarrow> IPNet \<Rightarrow> entry list \<Rightarrow> cluster \<Rightarrow> cluster \<Rightarrow> bool" for f N where
  read: "snapshot s pool \<Longrightarrow> plugin_act f N [] s (s\<lparr>cl_snap := (cl_snap s)(p \<mapsto> pool)\<rparr>)"
| take: "cl_snap s p = Some pool \<Longrightarrow> range_ok f N conf \<Longrightarrow> list_all valid_ip dummies \<Longrightarrow> podRef \<noteq> []
    \<Longrightarrow> AssignIP conf (Allocations \<lparr> kp_firstIP = f, kp_pool = pool \<rparr> @ map dummy dummies) containerID podRef ifName = Some (Inr (ipn, rl))
    \<Longrightarrow> commits f pool rl s stored
    \<Longrightarrow> plugin_act f N [Held (ip_addr (net_IP ipn)) containerID podRef ifName]
          s (after_write p stored (insert (ip_addr (net_IP ipn), podRef, ifName) (cl_granted s)) s)"
| lost: "cl_snap s p = Some pool \<Longrightarrow> range_ok f N conf \<Longrightarrow> list_all valid_ip dummies \<Longrightarrow> podRef \<noteq> []
    \<Longrightarrow> AssignIP conf (Allocations \<lparr> kp_firstIP = f, kp_pool = pool \<rparr> @ map dummy dummies) containerID podRef ifName = Some (Inr (ipn, rl))
    \<Longrightarrow> commits f pool rl s stored
    \<Longrightarrow> plugin_act f N [Held (ip_addr (net_IP ipn)) containerID podRef ifName] s (after_write p stored (cl_granted s) s)"
| release: "cl_snap s p = Some pool
    \<Longrightarrow> DeallocateIP (Allocations \<lparr> kp_firstIP = f, kp_pool = pool \<rparr>) containerID ifName = (rl, ip) \<Longrightarrow> ip \<noteq> []
    \<Longrightarrow> commits f pool rl s stored
    \<Longrightarrow> plugin_act f N [Freed (ip_addr ip)] s (after_write p stored {g \<in> cl_granted s. fst g \<noteq> ip_addr ip} s)"
| rollback: "cl_snap s p = Some pool \<Longrightarrow> A = Allocations \<lparr> kp_firstIP = f, kp_pool = pool \<rparr> \<Longrightarrow> list_ex (rollbackAllocationMatches c) A
    \<Longrightarrow> commits f pool (filter (\<lambda>r. \<not> rollbackAllocationMatches c r) A) s stored
    \<Longrightarrow> plugin_act f N [Freed (ip_addr (ca_ip c))] s (after_write p stored {g \<in> cl_granted s. fst g \<noteq> ip_addr (ca_ip c)} s)"
| abort: "plugin_act f N [] s (s\<lparr>cl_snap := (cl_snap s)(p := None)\<rparr>)"
| touch: "plugin_act f N [] s (s\<lparr>cl_version := Suc (cl_version s)\<rparr>)"

definition plugin_step :: "IP \<Rightarrow> IPNet \<Rightarrow> cluster \<Rightarrow> cluster \<Rightarrow> bool" where
  "plugin_step f N s s' \<longleftrightarrow> (\<exists>e. plugin_act f N e s s')"

lemma plugin_stepI: "plugin_act f N e s s' \<Longrightarrow> plugin_step f N s s'"
  by (auto simp: plugin_step_def)

lemmas plugin_read = plugin_act.read [THEN plugin_stepI]
lemmas plugin_take = plugin_act.take [THEN plugin_stepI]
lemmas plugin_lost = plugin_act.lost [THEN plugin_stepI]
lemmas plugin_release = plugin_act.release [THEN plugin_stepI]
lemmas plugin_rollback = plugin_act.rollback [THEN plugin_stepI]
lemmas plugin_touch = plugin_act.touch [THEN plugin_stepI]

definition empty_cluster :: cluster where
  "empty_cluster = \<lparr> cl_version = 0, cl_allocs = [], cl_snap = (\<lambda>_. None), cl_granted = {} \<rparr>"

abbreviation plugin_run :: "IP \<Rightarrow> IPNet \<Rightarrow> cluster \<Rightarrow> cluster \<Rightarrow> bool" where
  "plugin_run f N \<equiv> (plugin_step f N)\<^sup>*\<^sup>*"

text \<open>A run with all the entries made on the way, in the order in which the server accepted the writes.\<close>

inductive plugin_log :: "IP \<Rightarrow> IPNet \<Rightarrow> cluster \<Rightarrow> entry list \<Rightarrow> cluster \<Rightarrow> bool" for f N s where
  start: "plugin_log f N s [] s"
| act: "plugin_log f N s es t \<Longrightarrow> plugin_act f N e t u \<Longrightarrow> plugin_log f N s (es @ e) u"

section \<open>The contract\<close>

text \<open>
  The pool as a ledger: who holds which address. The books are kept entry by entry: an entry is
  permitted if a free address of the network goes to an owner that has none, if the holder of an
  address renews it from another container, or if a held address is released.
\<close>

type_synonym ledger = "addr \<Rightarrow> (string \<times> string \<times> string) option"

fun book :: "entry \<Rightarrow> ledger \<Rightarrow> ledger" where
  "book (Held a c q i) L = L(a \<mapsto> (c, q, i))"
| "book (Freed a) L = L(a := None)"

fun permitted :: "IPNet \<Rightarrow> entry \<Rightarrow> ledger \<Rightarrow> bool" where
  "permitted N (Held a c q i) L \<longleftrightarrow> (\<exists>c'. L a = Some (c', q, i))
     \<or> L a = None \<and> (\<exists>ip. Contains N ip \<and> ip_addr ip = a) \<and> (\<nexists>b c'. L b = Some (c', q, i))"
| "permitted N (Freed a) L \<longleftrightarrow> L a \<noteq> None"

fun keep_books :: "IPNet \<Rightarrow> entry list \<Rightarrow> ledger \<Rightarrow> ledger option" where
  "keep_books N [] L = Some L"
| "keep_books N (e # es) L = (if permitted N e L then keep_books N es (book e L) else None)"

lemma keep_books_append: "keep_books N (xs @ ys) L = Option.bind (keep_books N xs L) (keep_books N ys)"
  by (induction xs arbitrary: L) simp_all

text \<open>One entry takes a ledger to another.\<close>

definition entered :: "IPNet \<Rightarrow> entry \<Rightarrow> ledger \<Rightarrow> ledger \<Rightarrow> bool" where
  "entered N e L L' \<longleftrightarrow> permitted N e L \<and> L' = book e L"

lemma entered_books: "entered N e L L' \<Longrightarrow> keep_books N [e] L = Some L'"
  by (simp add: entered_def)

definition stored :: "IP \<Rightarrow> allocations \<Rightarrow> IPReservation list" where
  "stored f allocs = toIPReservationList allocs f"

definition ledger_of :: "IPReservation list \<Rightarrow> ledger" where
  "ledger_of rl = map_of (map res_view rl)"

definition ledger :: "IP \<Rightarrow> cluster \<Rightarrow> ledger" where
  "ledger f s = ledger_of (stored f (cl_allocs s))"

section \<open>Reading and writing the stored map\<close>

lemma fields_inject: "map_of (alloc_fields x) = map_of (alloc_fields y) \<Longrightarrow> x = y"
proof -
  assume eq: "map_of (alloc_fields x) = map_of (alloc_fields y)"
  have "ia_ContainerID x = ia_ContainerID y" using fun_cong [OF eq, of "''id''"] by (simp add: alloc_fields_def)
  moreover have "ia_PodRef x = ia_PodRef y" using fun_cong [OF eq, of "''podref''"] by (simp add: alloc_fields_def)
  moreover have "ia_IfName x = ia_IfName y" using fun_cong [OF eq, of "''ifname''"] by (simp add: alloc_fields_def split: if_splits)
  ultimately show ?thesis by simp
qed

lemma doc_inject: "alloc_doc a = alloc_doc b \<Longrightarrow> map_of a = map_of b"
proof (rule ext)
  fix key assume "alloc_doc a = alloc_doc b"
  then have "map_option (\<lambda>x. map_of (alloc_fields x)) (map_of a key) = map_option (\<lambda>x. map_of (alloc_fields x)) (map_of b key)"
    unfolding alloc_doc_def by (rule fun_cong)
  then show "map_of a key = map_of b key"
    by (cases "map_of a key"; cases "map_of b key") (auto dest: fields_inject)
qed

lemma same_map_mset:
  assumes "distinct (map fst a)" "distinct (map fst b)" "map_of a = map_of b"
  shows "mset a = mset b"
  using assms map_of_inject_set [OF assms(1,2)] by (metis distinct_map set_eq_iff_mset_eq_distinct)

lemma toIPReservationList_mset: "mset a = mset b \<Longrightarrow> mset (toIPReservationList a f) = mset (toIPReservationList b f)"
proof -
  have eq: "mset (toIPReservationList a f) = \<Sum>\<^sub># (image_mset (\<lambda>e. mset (toIPReservationList [e] f)) (mset a))" for a
  proof (induction a)
    case (Cons e a)
    have "toIPReservationList (e # a) f = toIPReservationList [e] f @ toIPReservationList a f"
      by (cases e) (simp split: option.split)
    then show ?case using Cons by (simp only: mset_append mset.simps image_mset_add_mset sum_mset.add_mset)
  qed simp
  show "mset a = mset b \<Longrightarrow> ?thesis" by (simp only: eq [of a] eq [of b])
qed

lemma ledger_of_mset:
  assumes "mset (map res_view xs) = mset (map res_view ys)" "ip_unique xs"
  shows "ledger_of xs = ledger_of ys"
proof (rule ext)
  fix a
  have u: "distinct (map fst (map res_view xs))" using assms(2) by (simp add: ip_unique_def res_view_def comp_def)
  then have v: "distinct (map fst (map res_view ys))" using assms(1) by (metis distinct_map_mset)
  have "set (map res_view xs) = set (map res_view ys)" using assms(1) by (rule mset_eq_setD)
  then show "ledger_of xs a = ledger_of ys a"
    unfolding ledger_of_def using map_of_eq_Some_iff [OF u] map_of_eq_Some_iff [OF v]
    by (cases "map_of (map res_view ys) a") (metis not_None_eq)+
qed

lemma rl_inv_view:
  assumes "mset (map res_view xs) = mset (map res_view ys)"
  shows "rl_inv xs = rl_inv ys"
proof -
  have v: "reservations_valid rl \<longleftrightarrow> (\<forall>v\<in>set (map res_view rl). fst v \<noteq> AddrZero)" for rl
    by (auto simp: reservations_valid_def list_all_iff res_view_def ip_addr_valid)
  have u: "ip_unique rl = distinct (map fst (map res_view rl))" for rl
    by (simp add: ip_unique_def res_view_def comp_def)
  have w: "owner_unique rl = distinct (map (snd \<circ> snd) (map res_view rl))" for rl
    by (simp add: owner_unique_def res_view_def comp_def)
  show ?thesis
    unfolding rl_inv_def v u w
    using mset_eq_setD [OF assms] distinct_map_mset [OF assms, of fst] distinct_map_mset [OF assms, of "snd \<circ> snd"] by simp
qed

definition pooled :: "IP \<Rightarrow> IPReservation list \<Rightarrow> bool" where
  "pooled f rl \<longleftrightarrow> (\<forall>r\<in>set rl. in_pool f (ir_IP r))"

lemma pooled_view:
  assumes "mset (map res_view xs) = mset (map res_view ys)"
  shows "pooled f xs = pooled f ys"
proof -
  have p: "pooled f rl \<longleftrightarrow> (\<forall>v\<in>set (map res_view rl). fst v \<noteq> AddrZero \<and> BitLen (fst v) = BitLen (ip_addr f) \<and> ip_addr f \<le> fst v)" for rl
    by (auto simp: pooled_def in_pool_def res_view_def ip_addr_valid)
  show ?thesis unfolding p mset_eq_setD [OF assms] ..
qed

lemma toAllocationMap_distinct: "toAllocationMap rl f = Inr m \<Longrightarrow> distinct (map fst m)"
proof -
  have "toAllocationMap_loop rl f m0 = Inr m \<Longrightarrow> distinct (map fst m0) \<Longrightarrow> distinct (map fst m)" for m0
    by (induction rl f m0 rule: toAllocationMap_loop.induct) (auto split: sum.splits simp: distinct_map_put)
  then show "toAllocationMap rl f = Inr m \<Longrightarrow> ?thesis" by (simp add: toAllocationMap_def)
qed

lemma update_patch_stale: "rv \<noteq> om_ResourceVersion (ip_Meta pool) \<Longrightarrow> apply_ops (rv, m) (update_patch pool allocs) = None"
  by (simp add: update_patch_def Let_def apply_op.simps)

section \<open>Effects on the ledger\<close>

definition grants :: "IPReservation list \<Rightarrow> (addr \<times> string \<times> string) set" where
  "grants rl = (\<lambda>v. (fst v, snd (snd v))) ` set (map res_view rl)"

lemma grants_Cons: "grants (r # rl) = insert (ip_addr (ir_IP r), ir_PodRef r, ir_IfName r) (grants rl)"
  by (simp add: grants_def res_view_def)

lemma grants_append [simp]: "grants (xs @ ys) = grants xs \<union> grants ys"
  by (auto simp: grants_def)

lemma grants_nil [simp]: "grants [] = {}"
  by (simp add: grants_def)

lemma ledger_of_None: "ledger_of rl a = None \<longleftrightarrow> (\<forall>r\<in>set rl. ip_addr (ir_IP r) \<noteq> a)"
  by (induction rl) (auto simp: ledger_of_def res_view_def)

lemma ledger_of_Some: "ip_unique rl \<Longrightarrow> ledger_of rl a = Some v \<longleftrightarrow> (a, v) \<in> set (map res_view rl)"
  unfolding ledger_of_def by (rule map_of_eq_Some_iff) (simp add: ip_unique_def res_view_def comp_def)

lemma ledger_of_append: "ledger_of (xs @ ys) = ledger_of ys ++ ledger_of xs"
  by (simp add: ledger_of_def)

lemma ledger_of_Cons: "ledger_of (r # rl) = (ledger_of rl)(ip_addr (ir_IP r) \<mapsto> (ir_ContainerID r, ir_PodRef r, ir_IfName r))"
  by (simp add: ledger_of_def res_view_def)

lemma ip_unique_middle:
  "ip_unique (xs @ r # ys) \<longleftrightarrow> ledger_of xs (ip_addr (ir_IP r)) = None \<and> ledger_of ys (ip_addr (ir_IP r)) = None \<and> ip_unique (xs @ ys)"
  by (auto simp: ip_unique_def ledger_of_None image_iff)

lemma ledger_of_middle:
  assumes "ip_unique (xs @ r # ys)"
  shows "ledger_of (xs @ r # ys) = (ledger_of (xs @ ys))(ip_addr (ir_IP r) \<mapsto> (ir_ContainerID r, ir_PodRef r, ir_IfName r))"
    and "ledger_of (xs @ ys) (ip_addr (ir_IP r)) = None"
  using assms by (auto simp: ip_unique_middle ledger_of_append ledger_of_Cons map_add_def fun_eq_iff split: option.splits)

lemma Contains_in_pool:
  assumes "good_net N" "ip_addr f = ip_addr (net_IP N)" "Contains N ip"
  shows "in_pool f ip"
proof -
  obtain a n where a: "good_cidr a n" "N = cidr_net a n" using good_netD [OF assms(1)] by blast
  note p = good_plain [OF a(1)]
  have "a \<noteq> AddrZero" "n \<le> BitLen a" "Unmap (addr_mask n a) = addr_mask n a" using p by (auto simp: plain_cidr_def)
  then have "ip_addr f = addr_mask n a" using assms(2) a(2) by (simp add: net_IP_cidr_net ip_addr_AsSlice)
  moreover have "addr_mask n a \<le> ip_addr ip" "BitLen (ip_addr ip) = BitLen a"
    using assms(3) Contains_plain_interval [OF p] Contains_plain [OF p] unfolding a(2) by blast+
  moreover have "ip_addr ip \<noteq> AddrZero" using calculation(3) BitLen_pos [OF \<open>a \<noteq> AddrZero\<close>] by auto
  ultimately show ?thesis by (simp add: in_pool_def ip_addr_valid)
qed

abbreviation kept :: "IPReservation list \<Rightarrow> IPReservation list" where
  "kept \<equiv> filter (\<lambda>r. \<not> ir_IsAllocated r)"

lemma stored_kept: "\<forall>r\<in>set (stored f allocs). \<not> ir_IsAllocated r"
  unfolding stored_def by (induction allocs f rule: toIPReservationList.induct) (auto split: option.splits)

lemma kept_id: "\<forall>r\<in>set rl. \<not> ir_IsAllocated r \<Longrightarrow> kept rl = rl"
  by (simp add: filter_id_conv)

lemma kept_dummies: "kept (map dummy ds) = []"
  by (simp add: dummy_def filter_empty_conv)

lemma take_new:
  assumes "rl_inv A" "pooled f A" "kept A = A" "range_ok f N conf" "list_all valid_ip ds"
    and "AssignIP conf (A @ map dummy ds) c q i = Some (Inr (ipn, rl))"
    and "\<not> (\<exists>r\<in>set (A @ map dummy ds). ir_PodRef r = q \<and> ir_IfName r = i)"
  shows "rl_inv (kept rl) \<and> pooled f (kept rl) \<and> grants (kept rl) = insert (ip_addr (net_IP ipn), q, i) (grants A)
    \<and> entered N (Held (ip_addr (net_IP ipn)) c q i) (ledger_of A) (ledger_of (kept rl))"
proof -
  let ?D = "map dummy ds" and ?n = "new_reservation (net_IP ipn) c q i"
  obtain ex where ok: "ParseCIDR (rc_Range conf) = Inr (f, N)" "good_net N" "ip_addr f = ip_addr (net_IP N)"
      "parseExcludedRanges (rc_OmitRanges conf) = Inr ex" "list_all good_net ex" "addresses_valid conf"
    using assms(4) by (auto simp: range_ok_def split: sum.splits)
  have v: "reservations_valid (A @ ?D)"
    using assms(1,5) by (auto simp: rl_inv_def reservations_valid_def list_all_iff dummy_def)
  obtain lo hi where new: "free_ip N lo hi (A @ ?D) ex (net_IP ipn)" "rl = (A @ ?D) @ [?n]"
    using AssignIP_new [OF assms(6) ok(1,2,4-6) v assms(7)] by blast
  have k: "kept rl = A @ [?n]" using assms(3) kept_dummies by (simp add: new(2) new_reservation_def)
  have fr: "free_ip N lo hi A ex (net_IP ipn)" using new(1) by (simp add: free_ip_def)
  have o: "\<not> (\<exists>r\<in>set A. ir_PodRef r = q \<and> ir_IfName r = i)" using assms(7) by simp
  have inv: "rl_inv (A @ [?n])" by (rule free_new_inv [OF ok(2) fr assms(1) o])
  have c: "Contains N (net_IP ipn)" using fr by (simp add: free_ip_def)
  have "ledger_of A (ip_addr (net_IP ipn)) = None" using fr by (auto simp: free_ip_def ledger_of_None)
  moreover have "\<nexists>a c. ledger_of A a = Some (c, q, i)"
    using o assms(1) ledger_of_Some [of A] by (auto simp: rl_inv_def res_view_def)
  ultimately have "permitted N (Held (ip_addr (net_IP ipn)) c q i) (ledger_of A)" using c by auto
  moreover have "ledger_of (A @ [?n]) = (ledger_of A)(ip_addr (net_IP ipn) \<mapsto> (c, q, i))"
    using ledger_of_middle(1) [of A ?n "[]"] inv by (simp add: rl_inv_def)
  ultimately have "entered N (Held (ip_addr (net_IP ipn)) c q i) (ledger_of A) (ledger_of (A @ [?n]))" by (simp add: entered_def)
  moreover have "pooled f (A @ [?n])"
    using assms(2) Contains_in_pool [OF ok(2,3) c] by (simp add: pooled_def)
  moreover have "grants (A @ [?n]) = insert (ip_addr (net_IP ipn), q, i) (grants A)" by (simp add: grants_Cons)
  ultimately show ?thesis unfolding k using inv by simp
qed

lemma take_existing:
  assumes "rl_inv A" "pooled f A" "kept A = A" "q \<noteq> []"
    and "AssignIP conf (A @ map dummy ds) c q i = Some (Inr (ipn, rl))"
    and "\<exists>r\<in>set (A @ map dummy ds). ir_PodRef r = q \<and> ir_IfName r = i"
  shows "rl_inv (kept rl) \<and> pooled f (kept rl) \<and> grants (kept rl) = insert (ip_addr (net_IP ipn), q, i) (grants A)
    \<and> entered N (Held (ip_addr (net_IP ipn)) c q i) (ledger_of A) (ledger_of (kept rl))"
proof -
  let ?D = "map dummy ds"
  obtain xs r ys where e: "A @ ?D = xs @ r # ys" "rl = xs @ r\<lparr>ir_ContainerID := c\<rparr> # ys" "net_IP ipn = ir_IP r"
      "ir_PodRef r = q" "ir_IfName r = i"
    using AssignIP_existing [OF assms(5,6)] by blast
  have "r \<notin> set ?D" using e(4) assms(4) by (auto simp: dummy_def)
  then have "\<nexists>us. ?D = us @ r # ys" by (metis in_set_conv_decomp)
  then obtain us where us: "A = xs @ us" "us @ ?D = r # ys" using e(1) by (auto simp: append_eq_append_conv2)
  then have "us \<noteq> []" using \<open>\<nexists>us. ?D = us @ r # ys\<close> by (metis append_Nil)
  then obtain zs where z: "A = xs @ r # zs" "ys = zs @ ?D" using us by (cases us) auto
  let ?r = "r\<lparr>ir_ContainerID := c\<rparr>"
  have kk: "\<forall>x\<in>set A. \<not> ir_IsAllocated x" using assms(3) by (simp add: filter_id_conv)
  then have k: "kept rl = xs @ ?r # zs" using kept_dummies kept_id by (simp add: e(2) z filter_id_conv)
  have inv: "rl_inv (xs @ ?r # zs)"
    using assms(1) by (auto simp: z rl_inv_def reservations_valid_def ip_unique_def owner_unique_def)
  have u: "ip_unique (xs @ r # zs)" "ip_unique (xs @ ?r # zs)" using assms(1) inv by (auto simp: z rl_inv_def)
  have la: "ledger_of A (ip_addr (ir_IP r)) = Some (ir_ContainerID r, q, i)"
    using ledger_of_middle(1) [OF u(1)] e by (simp add: z)
  have "ledger_of (xs @ ?r # zs) = (ledger_of A)(ip_addr (ir_IP r) \<mapsto> (c, q, i))"
    using ledger_of_middle(1) [OF u(1)] ledger_of_middle(1) [OF u(2)] e by (simp add: z)
  then have "entered N (Held (ip_addr (net_IP ipn)) c q i) (ledger_of A) (ledger_of (xs @ ?r # zs))"
    using la e(3) by (simp add: entered_def)
  moreover have "pooled f (xs @ ?r # zs)" using assms(2) by (simp add: z pooled_def)
  moreover have "grants (xs @ ?r # zs) = insert (ip_addr (net_IP ipn), q, i) (grants A)"
    using e by (auto simp: z grants_Cons)
  ultimately show ?thesis unfolding k using inv by simp
qed

lemma release_effect:
  assumes "rl_inv A" "pooled f A" "kept A = A" "DeallocateIP A c i = (rl, ip)" "ip \<noteq> []"
  shows "rl_inv (kept rl) \<and> pooled f (kept rl) \<and> {g \<in> grants A. fst g \<noteq> ip_addr ip} \<subseteq> grants (kept rl)
    \<and> entered N (Freed (ip_addr ip)) (ledger_of A) (ledger_of (kept rl))"
proof -
  have "\<exists>r\<in>set A. ir_ContainerID r = c \<and> ir_IfName r = i"
    using assms(4,5) getMatching_neg [of A c i] by (auto simp: DeallocateIP_def Let_def split: if_splits)
  then obtain xs r ys where x: "A = xs @ r # ys" "ir_IP r = ip" "mset rl = mset (xs @ ys)"
    using DeallocateIP_match [of A c i] assms(4) by auto
  have "\<forall>y\<in>set A. \<not> ir_IsAllocated y" using assms(3) by (simp add: filter_id_conv)
  moreover have s: "set rl = set (xs @ ys)" using x(3) by (rule mset_eq_setD)
  ultimately have k: "kept rl = rl" using x(1) by (intro kept_id) auto
  have i: "rl_inv (xs @ ys)" using assms(1) by (auto simp: x(1) rl_inv_def reservations_valid_def ip_unique_def owner_unique_def)
  then have inv: "rl_inv rl" using rl_inv_mset [OF x(3)] by simp
  have u: "ip_unique (xs @ r # ys)" "ip_unique rl" using assms(1) inv by (simp_all add: x(1) rl_inv_def)
  have "ledger_of rl = ledger_of (xs @ ys)" using x(3) u(2) by (intro ledger_of_mset) simp_all
  also have "\<dots> = (ledger_of A)(ip_addr ip := None)"
    using ledger_of_middle [OF u(1)] x(2) by (auto simp: x(1) fun_eq_iff)
  finally have l: "ledger_of rl = (ledger_of A)(ip_addr ip := None)" .
  have "ledger_of A (ip_addr ip) = Some (ir_ContainerID r, ir_PodRef r, ir_IfName r)"
    using ledger_of_middle(1) [OF u(1)] x(2) by (simp add: x(1))
  then have "entered N (Freed (ip_addr ip)) (ledger_of A) (ledger_of rl)" by (simp add: entered_def l)
  moreover have "pooled f rl" using assms(2) s by (auto simp: pooled_def x(1))
  moreover have "grants rl = grants (xs @ ys)" using s by (simp add: grants_def image_Un)
  moreover have "{g \<in> grants A. fst g \<noteq> ip_addr ip} \<subseteq> grants (xs @ ys)" using x(2) by (auto simp: x(1) grants_Cons)
  ultimately show ?thesis unfolding k using inv by simp
qed

lemma rollback_effect:
  assumes "rl_inv A" "pooled f A" "kept A = A" "list_ex (rollbackAllocationMatches c) A"
  defines "rl \<equiv> filter (\<lambda>r. \<not> rollbackAllocationMatches c r) A"
  shows "rl_inv (kept rl) \<and> pooled f (kept rl) \<and> {g \<in> grants A. fst g \<noteq> ip_addr (ca_ip c)} \<subseteq> grants (kept rl)
    \<and> entered N (Freed (ip_addr (ca_ip c))) (ledger_of A) (ledger_of (kept rl))"
proof -
  obtain xs r ys where x: "A = xs @ r # ys" "rollbackAllocationMatches c r"
    using assms(4) by (auto simp: list_ex_iff dest: split_list)
  have m: "ip_addr (ir_IP y) = ip_addr (ca_ip c)" if "rollbackAllocationMatches c y" "y \<in> set A" for y
  proof -
    have "IP_Equal (ir_IP y) (ca_ip c)" using that(1) by (simp add: rollbackAllocationMatches_def split: if_splits)
    moreover have "valid_ip (ir_IP y)" using that(2) assms(1) by (simp add: rl_inv_def reservations_valid_def list_all_iff)
    ultimately show ?thesis using IP_Equal_valid IP_Equal_addr by blast
  qed
  have r: "ip_addr (ir_IP r) = ip_addr (ca_ip c)" using m [OF x(2)] by (simp add: x(1))
  have u: "ip_unique (xs @ r # ys)" using assms(1) by (simp add: x(1) rl_inv_def)
  then have "\<forall>y\<in>set (xs @ ys). \<not> rollbackAllocationMatches c y"
    using m r by (auto simp: x(1) ip_unique_def image_iff)
  then have l: "rl = xs @ ys" using x by (simp add: rl_def filter_id_conv)
  have "\<forall>y\<in>set A. \<not> ir_IsAllocated y" using assms(3) by (simp add: filter_id_conv)
  then have k: "kept rl = xs @ ys" unfolding l by (intro kept_id) (simp add: x(1))
  have "ledger_of (xs @ ys) = (ledger_of A)(ip_addr (ca_ip c) := None)"
    using ledger_of_middle [OF u] r by (auto simp: x(1) fun_eq_iff)
  moreover have "ledger_of A (ip_addr (ca_ip c)) = Some (ir_ContainerID r, ir_PodRef r, ir_IfName r)"
    using ledger_of_middle(1) [OF u] r by (simp add: x(1))
  ultimately have "entered N (Freed (ip_addr (ca_ip c))) (ledger_of A) (ledger_of (xs @ ys))" by (simp add: entered_def)
  moreover have "rl_inv (xs @ ys)"
    using assms(1) by (auto simp: x(1) rl_inv_def reservations_valid_def ip_unique_def owner_unique_def)
  moreover have "pooled f (xs @ ys)" using assms(2) by (auto simp: pooled_def x(1))
  moreover have "{g \<in> grants A. fst g \<noteq> ip_addr (ca_ip c)} \<subseteq> grants (xs @ ys)" using r by (auto simp: x(1) grants_Cons)
  ultimately show ?thesis unfolding k by simp
qed

section \<open>Invariant and refinement\<close>

definition snap_ok :: "cluster \<Rightarrow> IPPool \<Rightarrow> bool" where
  "snap_ok s pool \<longleftrightarrow> distinct (map fst (ps_Allocations (ip_Spec pool)))
     \<and> (\<exists>v\<le>cl_version s. om_ResourceVersion (ip_Meta pool) = dec v
          \<and> (v = cl_version s \<longrightarrow> map_of (ps_Allocations (ip_Spec pool)) = map_of (cl_allocs s)))"

definition cl_inv :: "IP \<Rightarrow> cluster \<Rightarrow> bool" where
  "cl_inv f s \<longleftrightarrow> valid_ip f \<and> distinct (map fst (cl_allocs s)) \<and> rl_inv (stored f (cl_allocs s))
     \<and> pooled f (stored f (cl_allocs s)) \<and> (\<forall>p pool. cl_snap s p = Some pool \<longrightarrow> snap_ok s pool)
     \<and> cl_granted s \<subseteq> grants (stored f (cl_allocs s))"

lemma snap_ok_later: "snap_ok s pool \<Longrightarrow> cl_version s' = Suc (cl_version s) \<Longrightarrow> snap_ok s' pool"
  unfolding snap_ok_def by (metis Suc_n_not_le_n le_SucI)

text \<open>A patch that applies was computed from what the server has: no update is lost.\<close>

lemma commits_fresh:
  assumes "cl_inv f s" "cl_snap s p = Some pool" "commits f pool rl s allocs'"
  obtains allocs where "toAllocationMap (kept rl) f = Inr allocs" "mset allocs' = mset allocs"
    "mset (ps_Allocations (ip_Spec pool)) = mset (cl_allocs s)"
proof -
  obtain allocs where c: "toAllocationMap (kept rl) f = Inr allocs" "distinct (map fst allocs')"
      "apply_ops (dec (cl_version s), alloc_doc (cl_allocs s)) (update_patch pool allocs) = Some (dec (cl_version s), alloc_doc allocs')"
    using assms(3) by (auto simp: commits_def split: sum.splits)
  have s: "snap_ok s pool" using assms(1,2) by (simp add: cl_inv_def)
  have v: "dec (cl_version s) = om_ResourceVersion (ip_Meta pool)"
    using c(3) update_patch_stale [of "dec (cl_version s)" pool] by fastforce
  have m: "map_of (ps_Allocations (ip_Spec pool)) = map_of (cl_allocs s)" and d: "distinct (map fst (ps_Allocations (ip_Spec pool)))"
    using s v by (auto simp: snap_ok_def)
  have "alloc_doc (ps_Allocations (ip_Spec pool)) = alloc_doc (cl_allocs s)" unfolding alloc_doc_def m ..
  then have "alloc_doc allocs' = alloc_doc allocs"
    using c(3) update_patch_apply [OF d toAllocationMap_distinct [OF c(1)], of "dec (cl_version s)"] v by simp
  then have "mset allocs' = mset allocs"
    using same_map_mset [OF c(2) toAllocationMap_distinct [OF c(1)]] doc_inject by blast
  moreover have "mset (ps_Allocations (ip_Spec pool)) = mset (cl_allocs s)"
    using assms(1) by (intro same_map_mset [OF d _ m]) (simp add: cl_inv_def)
  ultimately show thesis using that c(1) by blast
qed

lemma commits_read:
  assumes "cl_inv f s" "cl_snap s p = Some pool" "commits f pool rl s allocs'"
  defines "A \<equiv> Allocations \<lparr> kp_firstIP = f, kp_pool = pool \<rparr>"
  shows "rl_inv A" "pooled f A" "kept A = A" "grants A = grants (stored f (cl_allocs s))" "ledger_of A = ledger f s"
proof -
  have A: "A = stored f (ps_Allocations (ip_Spec pool))" by (simp add: A_def Allocations_def stored_def)
  have m: "mset A = mset (stored f (cl_allocs s))"
    using commits_fresh [OF assms(1-3)] toIPReservationList_mset unfolding A stored_def by metis
  then have v: "mset (map res_view A) = mset (map res_view (stored f (cl_allocs s)))" by simp
  show i: "rl_inv A" using assms(1) rl_inv_view [OF v] by (simp add: cl_inv_def)
  show "pooled f A" using assms(1) pooled_view [OF v] by (simp add: cl_inv_def)
  show "kept A = A" unfolding A by (rule kept_id [OF stored_kept])
  show "grants A = grants (stored f (cl_allocs s))" unfolding grants_def mset_eq_setD [OF v] ..
  show "ledger_of A = ledger f s" unfolding ledger_def using i by (intro ledger_of_mset [OF v]) (simp add: rl_inv_def)
qed

lemma commits_written:
  assumes "cl_inv f s" "cl_snap s p = Some pool" "commits f pool rl s allocs'"
    and "rl_inv (kept rl)" "pooled f (kept rl)" "granted \<subseteq> grants (kept rl)"
  shows "cl_inv f (after_write p allocs' granted s) \<and> ledger f (after_write p allocs' granted s) = ledger_of (kept rl)"
proof -
  obtain allocs where a: "toAllocationMap (kept rl) f = Inr allocs" "mset allocs' = mset allocs"
    using commits_fresh [OF assms(1-3)] by blast
  have f: "valid_ip f" using assms(1) by (simp add: cl_inv_def)
  have "\<forall>r\<in>set (kept rl). in_pool f (ir_IP r)" "distinct (map (\<lambda>r. ip_addr (ir_IP r)) (kept rl))"
    using assms(4,5) unfolding pooled_def rl_inv_def ip_unique_def by blast+
  from pool_codec [OF f this] have "map res_view (toIPReservationList allocs f) = map res_view (kept rl)"
    using a(1) by (metis Inr_inject)
  moreover have "mset (map res_view (toIPReservationList allocs' f)) = mset (map res_view (toIPReservationList allocs f))"
    using toIPReservationList_mset [OF a(2)] by simp
  ultimately have v: "mset (map res_view (stored f allocs')) = mset (map res_view (kept rl))" by (simp add: stored_def)
  have i: "rl_inv (stored f allocs')" using assms(4) rl_inv_view [OF v] by simp
  have "distinct (map fst allocs')" using assms(3) by (auto simp: commits_def split: sum.splits)
  moreover have "granted \<subseteq> grants (stored f allocs')" using assms(6) unfolding grants_def mset_eq_setD [OF v] .
  moreover have "snap_ok (after_write p allocs' granted s) x" if "cl_snap (after_write p allocs' granted s) y = Some x" for x y
  proof (rule snap_ok_later [of s])
    have "cl_snap s y = Some x" using that by (simp add: after_write_def split: if_splits)
    then show "snap_ok s x" using assms(1) by (simp add: cl_inv_def)
  qed (simp add: after_write_def)
  ultimately have "cl_inv f (after_write p allocs' granted s)"
    using f i assms(5) pooled_view [OF v] by (simp add: cl_inv_def after_write_def)
  moreover have "ledger f (after_write p allocs' granted s) = ledger_of (kept rl)"
    using ledger_of_mset [OF v] i by (simp add: ledger_def after_write_def rl_inv_def)
  ultimately show ?thesis ..
qed

lemma commits_entered:
  assumes "cl_inv f s" "cl_snap s p = Some pool" "commits f pool rl s allocs'"
    and "rl_inv (kept rl)" "pooled f (kept rl)" "granted \<subseteq> grants (kept rl)" "entered N e (ledger f s) (ledger_of (kept rl))"
  shows "cl_inv f (after_write p allocs' granted s) \<and> keep_books N [e] (ledger f s) = Some (ledger f (after_write p allocs' granted s))"
  using commits_written [OF assms(1-6)] entered_books [OF assms(7)] by (simp only: simp_thms)

lemma plugin_act_refines:
  assumes "plugin_act f N e s s'" "cl_inv f s"
  shows "cl_inv f s' \<and> keep_books N e (ledger f s) = Some (ledger f s')"
  using assms
proof (induction rule: plugin_act.induct)
  case (take s p pool conf ds q c i ipn rl allocs')
  note r = commits_read [OF take.prems take.hyps(1,6)]
  let ?A = "Allocations \<lparr> kp_firstIP = f, kp_pool = pool \<rparr>"
  have "rl_inv (kept rl) \<and> pooled f (kept rl) \<and> grants (kept rl) = insert (ip_addr (net_IP ipn), q, i) (grants ?A)
      \<and> entered N (Held (ip_addr (net_IP ipn)) c q i) (ledger_of ?A) (ledger_of (kept rl))"
    using take_new [OF r(1-3) take.hyps(2,3,5)] take_existing [OF r(1-3) take.hyps(4,5)] by blast
  moreover have "cl_granted s \<subseteq> grants ?A" using take.prems r(4) by (simp add: cl_inv_def)
  ultimately have e: "rl_inv (kept rl)" "pooled f (kept rl)" "insert (ip_addr (net_IP ipn), q, i) (cl_granted s) \<subseteq> grants (kept rl)"
      "entered N (Held (ip_addr (net_IP ipn)) c q i) (ledger_of ?A) (ledger_of (kept rl))" by auto
  show ?case by (rule commits_entered [OF take.prems take.hyps(1,6) e(1-3) e(4) [unfolded r(5)]])
next
  case (lost s p pool conf ds q c i ipn rl allocs')
  note r = commits_read [OF lost.prems lost.hyps(1,6)]
  let ?A = "Allocations \<lparr> kp_firstIP = f, kp_pool = pool \<rparr>"
  have e: "rl_inv (kept rl)" "pooled f (kept rl)" "grants ?A \<subseteq> grants (kept rl)"
      "entered N (Held (ip_addr (net_IP ipn)) c q i) (ledger_of ?A) (ledger_of (kept rl))"
    using take_new [OF r(1-3) lost.hyps(2,3,5)] take_existing [OF r(1-3) lost.hyps(4,5)] by blast+
  then have "cl_granted s \<subseteq> grants (kept rl)" using lost.prems r(4) by (auto simp: cl_inv_def)
  then show ?case by (rule commits_entered [OF lost.prems lost.hyps(1,6) e(1,2) _ e(4) [unfolded r(5)]])
next
  case (rollback s p pool A c allocs')
  note r = commits_read [OF rollback.prems rollback.hyps(1,4), folded rollback.hyps(2)]
  let ?rl = "filter (\<lambda>r. \<not> rollbackAllocationMatches c r) A"
  have e: "rl_inv (kept ?rl)" "pooled f (kept ?rl)" "{g \<in> grants A. fst g \<noteq> ip_addr (ca_ip c)} \<subseteq> grants (kept ?rl)"
      "entered N (Freed (ip_addr (ca_ip c))) (ledger_of A) (ledger_of (kept ?rl))"
    using rollback_effect [OF r(1-3) rollback.hyps(3)] by blast+
  have "{g \<in> cl_granted s. fst g \<noteq> ip_addr (ca_ip c)} \<subseteq> grants (kept ?rl)" using e(3) rollback.prems r(4) by (auto simp: cl_inv_def)
  then show ?case by (rule commits_entered [OF rollback.prems rollback.hyps(1,4) e(1,2) _ e(4) [unfolded r(5)]])
next
  case (release s p pool c i rl ip allocs')
  note r = commits_read [OF release.prems release.hyps(1,4)]
  let ?A = "Allocations \<lparr> kp_firstIP = f, kp_pool = pool \<rparr>"
  have e: "rl_inv (kept rl)" "pooled f (kept rl)" "{g \<in> grants ?A. fst g \<noteq> ip_addr ip} \<subseteq> grants (kept rl)"
      "entered N (Freed (ip_addr ip)) (ledger_of ?A) (ledger_of (kept rl))"
    using release_effect [OF r(1-3) release.hyps(2,3)] by blast+
  have "{g \<in> cl_granted s. fst g \<noteq> ip_addr ip} \<subseteq> grants (kept rl)" using e(3) release.prems r(4) by (auto simp: cl_inv_def)
  then show ?case by (rule commits_entered [OF release.prems release.hyps(1,4) e(1,2) _ e(4) [unfolded r(5)]])
next
  case (touch s)
  then have "snap_ok (s\<lparr>cl_version := Suc (cl_version s)\<rparr>) pool" if "cl_snap s p = Some pool" for p pool
    using that by - (rule snap_ok_later [of s], simp_all add: cl_inv_def)
  then show ?case using touch by (simp add: cl_inv_def ledger_def)
next
  case (read s pool p)
  then have "snap_ok s pool" by (auto simp: snap_ok_def snapshot_def)
  moreover have "snap_ok (s\<lparr>cl_snap := m\<rparr>) = snap_ok s" for m by (auto simp: snap_ok_def)
  ultimately show ?case using read.prems by (simp add: cl_inv_def ledger_def)
next
  case (abort s p)
  have "snap_ok (s\<lparr>cl_snap := m\<rparr>) = snap_ok s" for m by (auto simp: snap_ok_def)
  then show ?case using abort by (simp add: cl_inv_def ledger_def)
qed

lemma empty_inv: "valid_ip f \<Longrightarrow> cl_inv f empty_cluster"
  by (simp add: cl_inv_def empty_cluster_def stored_def rl_inv_def reservations_valid_def ip_unique_def owner_unique_def pooled_def)

lemma plugin_run_inv: "plugin_run f N s s' \<Longrightarrow> cl_inv f s \<Longrightarrow> cl_inv f s'"
  by (induction rule: rtranclp_induct) (auto simp: plugin_step_def dest: plugin_act_refines)

lemma plugin_log_refines:
  assumes "plugin_log f N s es s'" "cl_inv f s"
  shows "cl_inv f s' \<and> keep_books N es (ledger f s) = Some (ledger f s')"
  using assms
proof (induction rule: plugin_log.induct)
  case (act es t e u)
  then show ?case using plugin_act_refines [OF act.hyps(2)] by (simp add: keep_books_append)
qed simp

text \<open>
  C4: the stored pool is the books of the writes: whatever the interleaving of plugins on a
  pool, entering the addresses of all writes that the server accepted, one after the other and in
  that order, is permitted at each entry and ends in what the pool stores. So no accepted write is
  lost or undone by another process, and none assigns an address that someone holds.
\<close>

theorem pool_refines_ledger:
  assumes "plugin_log f N empty_cluster es s" "valid_ip f"
  shows "keep_books N es (\<lambda>_. None) = Some (ledger f s)"
proof -
  have "ledger f empty_cluster = (\<lambda>_. None)" by (simp add: ledger_def empty_cluster_def stored_def ledger_of_def)
  then show ?thesis using plugin_log_refines [OF assms(1) empty_inv [OF assms(2)]] by simp
qed

text \<open>
  C1: no address is handed out twice: among the addresses returned to pods by any number
  of concurrent plugins and not yet released, one address has one pod and interface and one pod
  interface has one address; and the stored pool has each of them.
\<close>

theorem no_double_grant:
  assumes "plugin_run f N empty_cluster s" "valid_ip f" "(a, q, i) \<in> cl_granted s" "(b, q', i') \<in> cl_granted s"
  shows "(a = b \<longleftrightarrow> q = q' \<and> i = i') \<and> (\<exists>c. ledger f s a = Some (c, q, i))"
proof -
  let ?R = "stored f (cl_allocs s)"
  have inv: "rl_inv ?R" "cl_granted s \<subseteq> grants ?R" using plugin_run_inv [OF assms(1) empty_inv [OF assms(2)]] by (simp_all add: cl_inv_def)
  have held: "\<exists>r\<in>set ?R. x = ip_addr (ir_IP r) \<and> y = ir_PodRef r \<and> z = ir_IfName r" if "(x, y, z) \<in> cl_granted s" for x y z
    using subsetD [OF inv(2) that] by (auto simp: grants_def res_view_def)
  obtain r where r: "r \<in> set ?R" "a = ip_addr (ir_IP r)" "q = ir_PodRef r" "i = ir_IfName r" using held [OF assms(3)] by blast
  obtain r' where r': "r' \<in> set ?R" "b = ip_addr (ir_IP r')" "q' = ir_PodRef r'" "i' = ir_IfName r'" using held [OF assms(4)] by blast
  have u: "ip_unique ?R" and "inj_on (\<lambda>r. ip_addr (ir_IP r)) (set ?R)" "inj_on (\<lambda>r. (ir_PodRef r, ir_IfName r)) (set ?R)"
    using inv(1) by (simp_all add: rl_inv_def ip_unique_def owner_unique_def distinct_map)
  then have "a = b \<longleftrightarrow> q = q' \<and> i = i'" using r r' by (auto dest: inj_onD)
  moreover have "(a, ir_ContainerID r, q, i) \<in> set (map res_view ?R)" using r by (auto simp: res_view_def)
  ultimately show ?thesis using ledger_of_Some [OF u] by (auto simp: ledger_def)
qed

section \<open>Undisturbed writes, and a run\<close>

definition pool_at :: "cluster \<Rightarrow> IPPool" where
  "pool_at s = pool_ex\<lparr>ip_Meta := (ip_Meta pool_ex)\<lparr>om_ResourceVersion := dec (cl_version s), om_DeletionTimestamp := None, om_Finalizers := [ippoolFinalizer]\<rparr>,
     ip_Spec := (ip_Spec pool_ex)\<lparr>ps_Allocations := cl_allocs s\<rparr>\<rparr>"

definition reading :: "nat \<Rightarrow> cluster \<Rightarrow> cluster" where
  "reading p s = s\<lparr>cl_snap := (cl_snap s)(p \<mapsto> pool_at s)\<rparr>"

lemma plugin_log_run: "plugin_log f N s es s' \<Longrightarrow> plugin_run f N s s'"
  by (induction rule: plugin_log.induct) (auto intro: plugin_stepI rtranclp.rtrancl_into_rtrancl)

lemma plugin_log_trans:
  assumes "plugin_log f N t es' u" "plugin_log f N s es t"
  shows "plugin_log f N s (es @ es') u"
  using assms
proof (induction rule: plugin_log.induct)
  case (act es' t' e u')
  then show ?case using plugin_log.act [OF act.IH [OF act.prems] act.hyps(2)] by simp
qed simp

lemma plugin_log_act: "plugin_act f N e s t \<Longrightarrow> plugin_log f N s e t"
  using plugin_log.act [OF plugin_log.start] by simp

lemma read_current: "distinct (map fst (cl_allocs s)) \<Longrightarrow> plugin_log f N s [] (reading p s)"
  unfolding reading_def by (rule plugin_log_act, rule plugin_act.read) (simp add: snapshot_def pool_at_def)

lemma commits_current:
  assumes "distinct (map fst (cl_allocs s))" "toAllocationMap (kept rl) f = Inr allocs"
  shows "commits f (pool_at s) rl (reading p s) allocs"
  using update_patch_apply [of "pool_at s" allocs "dec (cl_version s)"] assms toAllocationMap_distinct [OF assms(2)]
  by (simp add: commits_def reading_def pool_at_def)

lemma take_current:
  assumes "distinct (map fst (cl_allocs s))" "range_ok f N conf" "q \<noteq> []"
    and "AssignIP conf (stored f (cl_allocs s)) c q i = Some (Inr (ipn, rl))" "toAllocationMap (kept rl) f = Inr allocs"
  shows "plugin_log f N s [Held (ip_addr (net_IP ipn)) c q i]
    (after_write p allocs (insert (ip_addr (net_IP ipn), q, i) (cl_granted s)) (reading p s))"
proof -
  have "plugin_act f N [Held (ip_addr (net_IP ipn)) c q i] (reading p s)
      (after_write p allocs (insert (ip_addr (net_IP ipn), q, i) (cl_granted (reading p s))) (reading p s))"
    by (rule plugin_act.take [where dummies = "[]", OF _ assms(2) _ assms(3) _ commits_current [OF assms(1,5)]])
      (use assms(4) in \<open>simp_all add: reading_def Allocations_def pool_at_def stored_def\<close>)
  from plugin_log_trans [OF plugin_log_act [OF this] read_current [OF assms(1)]] show ?thesis by (simp add: reading_def)
qed

lemma release_current:
  assumes "distinct (map fst (cl_allocs s))" "DeallocateIP (stored f (cl_allocs s)) c i = (rl, ip)" "ip \<noteq> []" "toAllocationMap (kept rl) f = Inr allocs"
  shows "plugin_log f N s [Freed (ip_addr ip)] (after_write p allocs {g \<in> cl_granted s. fst g \<noteq> ip_addr ip} (reading p s))"
proof -
  have "plugin_act f N [Freed (ip_addr ip)] (reading p s) (after_write p allocs {g \<in> cl_granted (reading p s). fst g \<noteq> ip_addr ip} (reading p s))"
    by (rule plugin_act.release [OF _ _ assms(3) commits_current [OF assms(1,4)]])
      (use assms(2) in \<open>simp_all add: reading_def Allocations_def pool_at_def stored_def\<close>)
  from plugin_log_trans [OF plugin_log_act [OF this] read_current [OF assms(1)]] show ?thesis by (simp add: reading_def)
qed

definition lan_conf :: RangeConfiguration where
  "lan_conf = \<lparr> rc_OmitRanges = [], rc_Range = ''10.0.0.0/29'', rc_RangeStart = [], rc_RangeEnd = [], rc_PickAddresses = [], rc_PreferredIP = [], rc_L3 = False \<rparr>"

definition lan_first :: IP where
  "lan_first = As16 (Addr4 0x0a000000)"

definition lan :: IPNet where
  "lan = \<lparr> net_IP = [10, 0, 0, 0], net_Mask = [255, 255, 255, 248] \<rparr>"

definition lan_alloc :: "string \<Rightarrow> IPAllocation" where
  "lan_alloc n = \<lparr> ia_ContainerID = n, ia_PodRef = n, ia_IfName = ''eth0'' \<rparr>"

lemma lan_ok: "range_ok lan_first lan lan_conf" "valid_ip lan_first"
  by code_simp+

lemma lan_assign_first:
  "AssignIP lan_conf (stored lan_first []) c q i
    = Some (Inr (\<lparr>net_IP = [10, 0, 0, 1], net_Mask = [255, 255, 255, 248]\<rparr>, [new_reservation [10, 0, 0, 1] c q i]))"
  by code_simp

lemma lan_map_first: "toAllocationMap (kept [new_reservation [10, 0, 0, 1] n n ''eth0'']) lan_first = Inr [(''1'', lan_alloc n)]"
  by code_simp

definition lan_grant :: "string \<Rightarrow> addr \<times> string \<times> string" where
  "lan_grant n = (Addr4 0x0a000001, n, ''eth0'')"

text \<open>A pod gets the first address of an empty pool, and gives it back.\<close>

lemma lan_take:
  assumes "cl_allocs s = []" "n \<noteq> []"
  shows "plugin_log lan_first lan s [Held (Addr4 0x0a000001) n n ''eth0'']
    (after_write p [(''1'', lan_alloc n)] (insert (lan_grant n) (cl_granted s)) (reading p s))"
proof -
  have "ip_addr [10, 0, 0, 1] = Addr4 0x0a000001" by code_simp
  then show ?thesis
    using take_current [OF _ lan_ok(1) assms(2), of s n "''eth0''" "\<lparr>net_IP = [10, 0, 0, 1], net_Mask = [255, 255, 255, 248]\<rparr>"
        "[new_reservation [10, 0, 0, 1] n n ''eth0'']" "[(''1'', lan_alloc n)]" p]
      assms(1) lan_assign_first [of n n "''eth0''"] lan_map_first by (simp add: lan_grant_def)
qed

lemma lan_release:
  assumes "cl_allocs s = [(''1'', lan_alloc n)]"
  shows "plugin_log lan_first lan s [Freed (Addr4 0x0a000001)] (after_write p [] {g \<in> cl_granted s. fst g \<noteq> Addr4 0x0a000001} (reading p s))"
proof -
  have ip: "stored lan_first [(''1'', lan_alloc n)] = [new_reservation [10, 0, 0, 1] n n ''eth0'']" "ip_addr [10, 0, 0, 1] = Addr4 0x0a000001"
    by code_simp+
  have "DeallocateIP (stored lan_first (cl_allocs s)) n ''eth0'' = ([], [10, 0, 0, 1])"
    by (simp add: assms ip DeallocateIP_def removeIdxFromSlice_def Let_def)
  moreover have "toAllocationMap (kept []) lan_first = Inr []" by (simp add: toAllocationMap_def)
  ultimately show ?thesis using release_current [of s lan_first n "''eth0''" "[]" "[10, 0, 0, 1]" "[]" lan p] assms ip(2) by simp
qed

text \<open>Two pods take turns on the first address.\<close>

definition turn_a :: cluster where
  "turn_a = after_write 1 [(''1'', lan_alloc ''ns/a'')] {lan_grant ''ns/a''} (reading 1 empty_cluster)"

definition turn_none :: cluster where
  "turn_none = after_write 2 [] {} (reading 2 (reading 0 turn_a))"

definition turns :: cluster where
  "turns = after_write 3 [(''1'', lan_alloc ''ns/b'')] {lan_grant ''ns/b''} (reading 3 turn_none)"

lemmas turn_defs = turns_def turn_none_def turn_a_def after_write_def reading_def

lemma turns_log:
  "plugin_log lan_first lan empty_cluster
     [Held (Addr4 0x0a000001) ''ns/a'' ''ns/a'' ''eth0'', Freed (Addr4 0x0a000001), Held (Addr4 0x0a000001) ''ns/b'' ''ns/b'' ''eth0''] turns"
proof -
  have 1: "plugin_log lan_first lan empty_cluster [Held (Addr4 0x0a000001) ''ns/a'' ''ns/a'' ''eth0''] turn_a"
    unfolding turn_a_def using lan_take [of empty_cluster "''ns/a''" 1] by (simp add: empty_cluster_def)
  have 2: "plugin_log lan_first lan turn_a [] (reading 0 turn_a)"
    by (rule read_current) (simp add: turn_defs)
  have "{g \<in> cl_granted (reading 0 turn_a). fst g \<noteq> Addr4 0x0a000001} = {}" by (simp add: turn_defs lan_grant_def)
  moreover have "cl_allocs (reading 0 turn_a) = [(''1'', lan_alloc ''ns/a'')]" by (simp add: turn_defs)
  ultimately have 3: "plugin_log lan_first lan (reading 0 turn_a) [Freed (Addr4 0x0a000001)] turn_none"
    unfolding turn_none_def using lan_release [of "reading 0 turn_a" "''ns/a''" 2] by presburger
  have "cl_allocs turn_none = []" "cl_granted turn_none = {}" by (simp_all add: turn_defs)
  then have 4: "plugin_log lan_first lan turn_none [Held (Addr4 0x0a000001) ''ns/b'' ''ns/b'' ''eth0''] turns"
    unfolding turns_def using lan_take [of turn_none "''ns/b''" 3] by simp
  show ?thesis using plugin_log_trans [OF 4 plugin_log_trans [OF 3 plugin_log_trans [OF 2 1]]] by simp
qed

lemmas turns_run = plugin_log_run [OF turns_log]

theorem pool_refines_ledger_witness:
  "keep_books lan [Held (Addr4 0x0a000001) ''ns/a'' ''ns/a'' ''eth0'', Freed (Addr4 0x0a000001), Held (Addr4 0x0a000001) ''ns/b'' ''ns/b'' ''eth0''] (\<lambda>_. None)
     = Some (ledger lan_first turns)
   \<and> ledger lan_first turns (Addr4 0x0a000001) = Some (''ns/b'', ''ns/b'', ''eth0'')"
proof -
  note books = pool_refines_ledger [OF turns_log lan_ok(2)]
  then have "ledger lan_first turns = [Addr4 0x0a000001 \<mapsto> (''ns/b'', ''ns/b'', ''eth0'')]" by (auto split: if_splits)
  then show ?thesis using books by simp
qed

theorem no_double_grant_witness:
  "lan_grant ''ns/b'' \<in> cl_granted turns \<and> (\<exists>c. ledger lan_first turns (Addr4 0x0a000001) = Some (c, ''ns/b'', ''eth0''))"
proof -
  have b: "(Addr4 0x0a000001, ''ns/b'', ''eth0'') \<in> cl_granted turns" by (simp add: turn_defs lan_grant_def)
  show ?thesis using no_double_grant [OF turns_run lan_ok(2) b b] b by (simp add: lan_grant_def)
qed

section \<open>The reconciler beside the plugins\<close>

text \<open>
  The reconciler of pools as a further client of the same server. Its client reads a cached copy,
  the one of process 0. The server merges a patch as the API documents it: what the two objects of
  the patch have in common stays as the pool has it by then, what was dropped or changed between
  them is dropped or changed; a patch with the optimistic lock only applies to the version it was
  made from. Pods are read from \<open>pods\<close>; there are no cluster-wide reservations.
\<close>

definition merged :: "IPPool \<Rightarrow> IPPool \<Rightarrow> allocations \<Rightarrow> allocations" where
  "merged before obj allocs =
     (let old = ps_Allocations (ip_Spec before); new = ps_Allocations (ip_Spec obj)
      in fold (\<lambda>(key, a) m. if map_of old key = Some a then m else map_put key a m) new
           (filter (\<lambda>(key, _). map_of old key = None \<or> map_of new key \<noteq> None) allocs))"

definition merge_pool :: "IPPool \<Rightarrow> IPPool \<Rightarrow> cluster \<Rightarrow> IPPool result \<times> cluster" where
  "merge_pool before obj s =
     (let s' = s\<lparr>cl_version := Suc (cl_version s), cl_allocs := merged before obj (cl_allocs s)\<rparr>
      in (Inr (obj\<lparr>ip_Meta := (ip_Meta obj)\<lparr>om_ResourceVersion := dec (cl_version s')\<rparr>,
                   ip_Spec := (ip_Spec obj)\<lparr>ps_Allocations := cl_allocs s'\<rparr>\<rparr>), s'))"

fun serve_patch :: "IPPool \<Rightarrow> IPPool merge_patch \<Rightarrow> cluster \<Rightarrow> IPPool result \<times> cluster" where
  "serve_patch obj (MergeFrom before) s = merge_pool before obj s"
| "serve_patch obj (MergeFromWithOptimisticLock before) s =
     (if om_ResourceVersion (ip_Meta before) = dec (cl_version s) then merge_pool before obj s else (Inl (ApiErr Conflict), s))"

definition serve_status :: "IPPool \<Rightarrow> cluster \<Rightarrow> IPPool result \<times> cluster" where
  "serve_status obj s = (if om_ResourceVersion (ip_Meta obj) = dec (cl_version s)
     then (Inr (obj\<lparr>ip_Meta := (ip_Meta obj)\<lparr>om_ResourceVersion := dec (Suc (cl_version s))\<rparr>\<rparr>), s\<lparr>cl_version := Suc (cl_version s)\<rparr>)
     else (Inl (ApiErr Conflict), s))"

definition reaper_client :: "(string \<Rightarrow> string \<Rightarrow> Pod option) \<Rightarrow> cluster ctrl" where
  "reaper_client pods = null_ctrl\<lparr>
     k_GetIPPool := \<lambda>_ _ s. (case cl_snap s 0 of None \<Rightarrow> Inl (ApiErr NotFound) | Some pool \<Rightarrow> Inr pool, s),
     k_GetPod := \<lambda>ns n s. (case pods ns n of None \<Rightarrow> Inl (ApiErr NotFound) | Some pod \<Rightarrow> Inr pod, s),
     k_ListORIPs := \<lambda>_ s. (Inr [], s), c_PatchIPPool := serve_patch, c_StatusIPPool := serve_status\<rparr>"

lemma reaper_simps [simp]:
  "k_GetIPPool (reaper_client pods) ns n s = (case cl_snap s 0 of None \<Rightarrow> Inl (ApiErr NotFound) | Some pool \<Rightarrow> Inr pool, s)"
  "k_GetPod (reaper_client pods) ns n s = (case pods ns n of None \<Rightarrow> Inl (ApiErr NotFound) | Some pod \<Rightarrow> Inr pod, s)"
  "k_ListORIPs (reaper_client pods) ns s = (Inr [], s)" "c_Eventf (reaper_client pods) x s = s"
  "c_PatchIPPool (reaper_client pods) = serve_patch" "c_StatusIPPool (reaper_client pods) = serve_status"
  by (simp_all add: reaper_client_def null_ctrl_def)

lemma reaper_collect: "\<exists>xs' p'. collect (reaper_client pods) r pool allocs xs p s = (Inr (xs', p'), s)"
proof (induction allocs arbitrary: xs p)
  case (Cons ka rest)
  obtain key a where ka: "ka = (key, a)" by fastforce
  have "\<exists>v. classify (reaper_client pods) r pool key a s = (Inr v, s)"
    by (simp add: classify_def is_reason_def Let_def split: option.split)
  then obtain v where "classify (reaper_client pods) r pool key a s = (Inr v, s)" ..
  then show ?case using Cons.IH by (cases v) (simp_all add: ka)
qed simp

lemma reaper_cleanup: "cleanupOverlappingReservations (reaper_client pods) pool orphaned s = (None, s)"
proof -
  have "cleanup_keys (reaper_client pods) pool [] orphaned None s = (None, s)"
  proof (induction orphaned)
    case (Cons ka rest)
    then show ?case by (cases ka) (simp add: Let_def)
  qed simp
  then show ?thesis by (simp add: cleanupOverlappingReservations_def)
qed

lemma reaper_patch:
  assumes "finish_pool (reaper_client pods) before obj b marker res s = (x, e, s')"
    and "map_of (ps_Allocations (ip_Spec before)) \<noteq> map_of (ps_Allocations (ip_Spec obj))"
  shows "cl_allocs s' = merged before obj (cl_allocs s) \<and> cl_granted s' = cl_granted s"
proof -
  have "\<not> oc_sameSpec (ippool_client (reaper_client pods)) before obj" using assms(2) by (simp add: ippool_client_def same_map_iff)
  then show ?thesis
    using assms(1)
    by (auto simp: finish_pool_def Patch_def patch_main_def update_status_def ippool_client_def merge_pool_def serve_status_def Let_def
        split: prod.splits sum.splits if_splits option.splits)
qed

text \<open>What the pass over a copy does to the pool: the keys of pods that are gone are deleted, whoever has them by then.\<close>

lemma reaper_removes:
  assumes "cl_snap s 0 = Some pool" "om_DeletionTimestamp (ip_Meta pool) = None" "ippoolFinalizer \<in> set (om_Finalizers (ip_Meta pool))"
    and "distinct (map fst (ps_Allocations (ip_Spec pool)))" "(key, a) \<in> set (ps_Allocations (ip_Spec pool))"
    and "parsePodRef (ia_PodRef a) = Some (ns, n)" "pods ns n = None"
    and run: "Reconcile (reaper_client pods) r namespace name s = (res, e, s')"
  obtains P where "cl_allocs s' = filter P (cl_allocs s)" "\<And>b. \<not> P (key, b)" "cl_granted s' = cl_granted s"
proof -
  let ?k = "reaper_client pods"
  have "snd (recordServiceCIDROverlap ?k r pool s) = s"
    by (simp add: recordServiceCIDROverlap_def Let_def split: sum.split prod.split)
  then obtain changed pool1 where o: "recordServiceCIDROverlap ?k r pool s = ((changed, pool1), s)" by (metis prod.collapse)
  have sp: "ip_Spec pool1 = ip_Spec pool" using recordServiceCIDROverlap_spec [OF o] .
  define pool2 where "pool2 = mark_pool (markReconciling (c_Now ?k s) (om_Generation (ip_Meta pool1)) ''checking allocations for orphaned entries'') pool1"
  have sp2: "ip_Spec pool2 = ip_Spec pool" by (simp add: pool2_def sp)
  obtain orphaned pending where c: "collect ?k r pool2 (ps_Allocations (ip_Spec pool)) [] 0 s = (Inr (orphaned, pending), s)"
    using reaper_collect by blast
  have "reads_pods ?k" by (simp add: reads_pods_def)
  moreover have "fst (classify ?k r pool2 key a s) = Inr Orphaned" using assms(6,7) by (simp add: classify_def)
  ultimately have key: "(key, a) \<in> set orphaned" using collect_exact [OF _ c] assms(5) by auto
  define obj where "obj = removeAllocations pool2 (map fst orphaned)"
  have obj: "ps_Allocations (ip_Spec obj) = filter (\<lambda>(k, _). k \<notin> fst ` set orphaned) (ps_Allocations (ip_Spec pool))"
    by (simp add: obj_def removeAllocations_def sp2)
  have gone: "map_of (ps_Allocations (ip_Spec obj)) key = None" unfolding obj map_of_eq_None_iff using key by force
  have "Reconcile ?k r namespace name s = reconcile_checked ?k r pool pool2 changed orphaned pending s"
    using assms(1-3,5) sp2 c by (auto simp: Reconcile_def o Let_def sp pool2_def [symmetric])
  then have ch: "reconcile_checked ?k r pool pool2 changed orphaned pending s = (res, e, s')" using run by simp
  have "snd (computePoolStats ?k obj n' m s) = s" for n' m by (simp add: computePoolStats_def Let_def)
  then have "\<exists>pool3. computePoolStats ?k obj n' m s = (pool3, s) \<and> ip_Spec pool3 = ip_Spec obj" for n' m
    using computePoolStats_same [of ?k obj n' m s] by (metis prod.collapse)
  then obtain pool3 where st: "computePoolStats ?k obj (int32 (int (length orphaned))) pending s = (pool3, s)" "ip_Spec pool3 = ip_Spec obj" by blast
  have "orphaned \<noteq> []" using key by auto
  then have "\<exists>obj' marker b res' x. finish_pool ?k pool obj' b marker res' s = (x, e, s') \<and> ip_Spec obj' = ip_Spec obj"
    using ch st(2) unfolding reconcile_checked_def obj_def [symmetric] Let_def
    by (simp add: reaper_cleanup st(1) split: if_splits) (metis mark_pool_same(1))+
  then obtain obj' marker b res' x where fin: "finish_pool ?k pool obj' b marker res' s = (x, e, s')" "ip_Spec obj' = ip_Spec obj" by blast
  have "map_of (ps_Allocations (ip_Spec pool)) key = Some a" using assms(4,5) by simp
  then have w: "cl_allocs s' = merged pool obj' (cl_allocs s)" "cl_granted s' = cl_granted s"
    using reaper_patch [OF fin(1)] gone fin(2) by (metis option.distinct(1))+
  have "fold (\<lambda>(key, a) m. if map_of (ps_Allocations (ip_Spec pool)) key = Some a then m else map_put key a m) xs m = m"
    if "set xs \<subseteq> set (ps_Allocations (ip_Spec pool))" for xs m
    using that assms(4) by (induction xs arbitrary: m) auto
  from this [of "ps_Allocations (ip_Spec obj)"]
  have "cl_allocs s' = filter (\<lambda>(key, _). map_of (ps_Allocations (ip_Spec pool)) key = None \<or> map_of (ps_Allocations (ip_Spec obj)) key \<noteq> None) (cl_allocs s)"
    unfolding w merged_def Let_def fin(2) by (simp add: obj)
  then show thesis using that w(2) gone \<open>map_of (ps_Allocations (ip_Spec pool)) key = Some a\<close> by simp
qed

text \<open>
  C26: the reconciler can take an address from a pod that has it. If its copy of the pool is
  older than the pool and the pod that held an address in the copy is gone, the pass deletes the
  allocation that the pool has under the same key by then, whose ever it is: the patch is sent
  without the version of the copy. The address stays with its holder, the pool has no owner for it.
\<close>

theorem reaper_races_plugins:
  assumes "plugin_run f N empty_cluster s" "valid_ip f" "cl_snap s 0 = Some pool"
    and "om_DeletionTimestamp (ip_Meta pool) = None" "ippoolFinalizer \<in> set (om_Finalizers (ip_Meta pool))"
    and "(key, a) \<in> set (ps_Allocations (ip_Spec pool))" "parsePodRef (ia_PodRef a) = Some (ns, n)" "pods ns n = None"
    and "Reconcile (reaper_client pods) r namespace name s = (res, e, s')"
    and "(key, b) \<in> set (cl_allocs s)" "toIPReservationList [(key, b)] f = [x]"
  shows "cl_granted s' = cl_granted s \<and> ledger f s (ip_addr (ir_IP x)) \<noteq> None \<and> ledger f s' (ip_addr (ir_IP x)) = None"
proof -
  have inv: "cl_inv f s" by (rule plugin_run_inv [OF assms(1) empty_inv [OF assms(2)]])
  then have d: "distinct (map fst (ps_Allocations (ip_Spec pool)))" using assms(3) by (auto simp: cl_inv_def snap_ok_def)
  obtain P where P: "cl_allocs s' = filter P (cl_allocs s)" "\<And>b. \<not> P (key, b)" "cl_granted s' = cl_granted s"
    using reaper_removes [OF assms(3-5) d assms(6-9)] by blast
  obtain ys zs where yz: "cl_allocs s = ys @ (key, b) # zs" using assms(10) by (metis split_list)
  have app: "stored f (us @ vs) = stored f us @ stored f vs" for us vs
    unfolding stored_def by (induction us f rule: toIPReservationList.induct) (auto split: option.splits)
  have sub: "set (stored f (filter P us)) \<subseteq> set (stored f us)" for us
    unfolding stored_def by (induction us f rule: toIPReservationList.induct) (auto split: option.splits)
  have S: "stored f (cl_allocs s) = stored f ys @ x # stored f zs"
    using app [of ys "(key, b) # zs"] app [of "[(key, b)]" zs] assms(11) by (simp add: yz stored_def)
  have S': "stored f (cl_allocs s') = stored f (filter P ys) @ stored f (filter P zs)" by (simp add: P(1,2) yz app)
  have "ip_unique (stored f ys @ x # stored f zs)" using inv by (simp add: cl_inv_def rl_inv_def S)
  then have "ledger_of (stored f ys) (ip_addr (ir_IP x)) = None" "ledger_of (stored f zs) (ip_addr (ir_IP x)) = None" by (simp_all add: ip_unique_middle)
  then have "ledger f s' (ip_addr (ir_IP x)) = None"
    using sub [of ys] sub [of zs] unfolding ledger_def S' ledger_of_None by auto
  moreover have "ledger f s (ip_addr (ir_IP x)) \<noteq> None" unfolding ledger_def S ledger_of_None by simp
  ultimately show ?thesis using P(3) by simp
qed

text \<open>
  The race in a run: the reconciler reads the pool when pod \<^verbatim>\<open>ns/a\<close> has the address; \<^verbatim>\<open>ns/a\<close> releases it
  and goes, \<^verbatim>\<open>ns/b\<close> gets it; the pass then removes the allocation of \<^verbatim>\<open>ns/b\<close>, and \<^verbatim>\<open>ns/c\<close> gets the
  address that \<^verbatim>\<open>ns/b\<close> still has.
\<close>

theorem reaper_races_plugins_witness:
  "\<exists>res e s s'. Reconcile (reaper_client (\<lambda>_ n. if n = ''a'' then None else Some pod_ex)) reconciler_ex ''kube-system'' ''10.0.0.0-29'' turns = (res, e, s)
    \<and> ledger lan_first s (Addr4 0x0a000001) = None
    \<and> plugin_run lan_first lan s s' \<and> {lan_grant ''ns/b'', lan_grant ''ns/c''} \<subseteq> cl_granted s'"
proof -
  let ?pods = "\<lambda>_ n. if n = ''a'' then None else Some pod_ex"
  obtain res e s where r: "Reconcile (reaper_client ?pods) reconciler_ex ''kube-system'' ''10.0.0.0-29'' turns = (res, e, s)" by (metis prod_cases3)
  obtain pool where p: "cl_snap turns 0 = Some pool" "om_DeletionTimestamp (ip_Meta pool) = None" "ippoolFinalizer \<in> set (om_Finalizers (ip_Meta pool))"
      "ps_Allocations (ip_Spec pool) = [(''1'', lan_alloc ''ns/a'')]"
    by (simp add: turn_defs pool_at_def)
  have b: "cl_allocs turns = [(''1'', lan_alloc ''ns/b'')]" "cl_granted turns = {lan_grant ''ns/b''}" by (simp_all add: turn_defs)
  have a: "parsePodRef (ia_PodRef (lan_alloc ''ns/a'')) = Some (''ns'', ''a'')"
    "toIPReservationList [(''1'', lan_alloc ''ns/b'')] lan_first = [new_reservation [10, 0, 0, 1] ''ns/b'' ''ns/b'' ''eth0'']"
    "ip_addr [10, 0, 0, 1] = Addr4 0x0a000001" by code_simp+
  have race: "cl_granted s = {lan_grant ''ns/b''}" "ledger lan_first s (Addr4 0x0a000001) = None"
    using reaper_races_plugins [OF turns_run lan_ok(2) p(1-3) _ a(1) _ r _ a(2)] p(4) b a(3) by simp_all
  obtain P where "cl_allocs s = filter P (cl_allocs turns)" "\<And>x. \<not> P (''1'', x)"
    by (rule reaper_removes [OF p(1-3) _ _ a(1) _ r, of "''1''"]) (auto simp: p(4))
  then have "cl_allocs s = []" by (simp add: b)
  from plugin_log_run [OF lan_take [OF this, of "''ns/c''" 4]] r race show ?thesis
    by (intro exI conjI) (auto simp: after_write_def)
qed

end
