(* ===== verification/Interleaving.thy ===== *)
theory Interleaving
  imports Cluster
begin

text \<open>
  The code against the step relation of \<^verbatim>\<open>Cluster\<close>: one call of \<^verbatim>\<open>IPManagementKubernetesUpdate\<close>, on an
  API server that other plugins use at the same time, makes only plugin steps on the pool.
\<close>

section \<open>A server that others use, too\<close>

definition pool_state :: "cluster \<Rightarrow> nat \<times> allocations" where
  "pool_state s = (cl_version s, cl_allocs s)"

text \<open>The steps of the processes other than \<open>p\<close>, and what they can make of the stored pool.\<close>

definition others :: "IP \<Rightarrow> IPNet \<Rightarrow> nat \<Rightarrow> cluster \<Rightarrow> cluster \<Rightarrow> bool" where
  "others f N p s s' \<longleftrightarrow> plugin_step f N s s' \<and> cl_snap s' p = cl_snap s p"

definition moves :: "IP \<Rightarrow> IPNet \<Rightarrow> nat \<Rightarrow> nat \<times> allocations \<Rightarrow> nat \<times> allocations \<Rightarrow> bool" where
  "moves f N p x y \<longleftrightarrow> (\<forall>s. pool_state s = x \<longrightarrow> (\<exists>s'. (others f N p)\<^sup>*\<^sup>* s s' \<and> pool_state s' = y))"

definition copy_of :: "nat \<times> allocations \<Rightarrow> IPPool \<Rightarrow> bool" where
  "copy_of x pool \<longleftrightarrow> om_ResourceVersion (ip_Meta pool) = dec (fst x)
     \<and> distinct (map fst (ps_Allocations (ip_Spec pool))) \<and> map_of (ps_Allocations (ip_Spec pool)) = map_of (snd x)"

definition applied :: "IP \<Rightarrow> IPNet \<Rightarrow> nat \<Rightarrow> nat \<times> allocations \<Rightarrow> Operation list \<Rightarrow> nat \<times> allocations \<Rightarrow> bool" where
  "applied f N p x ops y \<longleftrightarrow> (\<exists>v a stored. moves f N p x (v, a) \<and> distinct (map fst stored)
     \<and> apply_ops (dec v, alloc_doc a) ops = Some (dec v, alloc_doc stored) \<and> moves f N p (Suc v, stored) y)"

text \<open>
  The API serves the pool \<open>name\<close> of the namespace \<open>ns\<close>, whose range parses to \<open>f\<close> and \<open>N\<close>, to process
  \<open>p\<close>: it answers with the object that was asked for, as it was stored at some time during the call;
  a patch that succeeds was applied as a whole, one that is answered with an error was applied or
  not; and during every call other plugins may do their steps.
\<close>

definition serves ::
  "('w, 'x) kube_scheme \<Rightarrow> IP \<Rightarrow> IPNet \<Rightarrow> nat \<Rightarrow> string \<Rightarrow> string \<Rightarrow> ('w \<Rightarrow> nat \<times> allocations) \<Rightarrow> bool" where
  "serves k f N p ns name view \<longleftrightarrow>
     api_reads k (\<lambda>w w'. moves f N p (view w) (view w'))
     \<and> (\<forall>ns' name' w pool w'. k_GetIPPool k ns' name' w = (Inr pool, w') \<longrightarrow> om_Namespace (ip_Meta pool) = ns' \<and> om_Name (ip_Meta pool) = name')
     \<and> (\<forall>w pool w'. k_GetIPPool k ns name w = (Inr pool, w') \<longrightarrow> IPPool_ParseCIDR pool = Inr (f, N)
          \<and> (\<exists>x. moves f N p (view w) x \<and> copy_of x pool \<and> moves f N p x (view w')))
     \<and> (\<forall>ops w r w'. k_PatchIPPool k ns name ops w = (r, w')
          \<longrightarrow> applied f N p (view w) ops (view w') \<or> r \<noteq> Inr () \<and> moves f N p (view w) (view w'))"

lemma others_run:
  assumes "(others f N p)\<^sup>*\<^sup>* s s'"
  shows "plugin_run f N s s'" "cl_snap s' p = cl_snap s p"
  using assms by (induction rule: rtranclp_induct) (auto simp: others_def intro: rtranclp.rtrancl_into_rtrancl)

lemma moves_run:
  assumes "moves f N p x y" "pool_state s = x"
  obtains s' where "plugin_run f N s s'" "pool_state s' = y" "cl_snap s' p = cl_snap s p"
  using assms others_run unfolding moves_def by blast

lemma moves_refl: "moves f N p x x"
  unfolding moves_def by blast

lemma moves_trans: "moves f N p x y \<Longrightarrow> moves f N p y z \<Longrightarrow> moves f N p x z"
  unfolding moves_def by (metis rtranclp_trans)

lemma plugin_run_version: "plugin_run f N s s' \<Longrightarrow> cl_version s \<le> cl_version s'"
proof (induction rule: rtranclp_induct)
  case (step y z)
  obtain e where "plugin_act f N e y z" using step.hyps(2) by (auto simp: plugin_step_def)
  then have "cl_version y \<le> cl_version z" by cases (simp_all add: after_write_def)
  then show ?case using step.IH by simp
qed simp

lemma moves_version: "moves f N p x y \<Longrightarrow> fst x \<le> fst y"
proof -
  assume m: "moves f N p x y"
  have "pool_state (empty_cluster\<lparr>cl_version := fst x, cl_allocs := snd x\<rparr>) = x" by (simp add: pool_state_def)
  from moves_run [OF m this] obtain s' where s': "plugin_run f N (empty_cluster\<lparr>cl_version := fst x, cl_allocs := snd x\<rparr>) s'" "pool_state s' = y" .
  have "cl_version s' = fst y" using s'(2) by (auto simp: pool_state_def)
  then show ?thesis using plugin_run_version [OF s'(1)] by simp
qed

lemma serves_reads: "serves k f N p ns name view \<Longrightarrow> api_reads k (\<lambda>w w'. moves f N p (view w) (view w'))"
  by (simp add: serves_def)

section \<open>Reading and writing\<close>

text \<open>A process that has read the pool holds a copy of what was stored.\<close>

lemma get_pool_run:
  assumes "serves k f N p (ki_Namespace ipam) (IPPoolName pid) view" "pool_state s = view w"
    and "GetIPPool k ipam pid w = (Inr kp, w') \<or> GetExistingIPPool k ipam pid w = (Inr kp, w')"
  obtains s1 s' where "plugin_run f N s s1" "copy_of (pool_state s1) (kp_pool kp)" "plugin_run f N s1 s'" "pool_state s' = view w'"
    "cl_snap s' p = Some (kp_pool kp)" "kp_firstIP kp = f"
    "om_Namespace (ip_Meta (kp_pool kp)) = ki_Namespace ipam" "om_Name (ip_Meta (kp_pool kp)) = IPPoolName pid"
proof -
  have get: "k_GetIPPool k (ki_Namespace ipam) (IPPoolName pid) w = (Inr (kp_pool kp), w')"
    and cidr: "\<exists>n. IPPool_ParseCIDR (kp_pool kp) = Inr (kp_firstIP kp, n)"
    using assms(3) by (auto simp: GetIPPool_def GetExistingIPPool_def getPool_def getExistingPool_def with_firstIP_def
        split: prod.splits sum.splits if_splits)
  obtain x where x: "moves f N p (view w) x" "copy_of x (kp_pool kp)" "moves f N p x (view w')" "kp_firstIP kp = f"
    "om_Namespace (ip_Meta (kp_pool kp)) = ki_Namespace ipam" "om_Name (ip_Meta (kp_pool kp)) = IPPoolName pid"
    using assms(1) get cidr unfolding serves_def by (metis Inr_inject Pair_inject)
  obtain s1 where s1: "plugin_run f N s s1" "pool_state s1 = x" using moves_run [OF x(1) assms(2)] .
  let ?s = "s1\<lparr>cl_snap := (cl_snap s1)(p \<mapsto> kp_pool kp)\<rparr>"
  have "plugin_step f N s1 ?s" by (rule plugin_read) (use x(2) s1(2) in \<open>auto simp: copy_of_def snapshot_def pool_state_def\<close>)
  then have step: "plugin_run f N s1 ?s" by (rule r_into_rtranclp)
  have "pool_state ?s = x" using s1(2) by (simp add: pool_state_def)
  from moves_run [OF x(3) this] obtain s' where s': "plugin_run f N ?s s'" "pool_state s' = view w'" "cl_snap s' p = cl_snap ?s p" .
  show thesis by (rule that [OF s1(1) _ rtranclp_trans [OF step s'(1)] s'(2)]) (simp_all add: s'(3) x s1(2))
qed

text \<open>
  An update from a held copy: the patch was applied at some state, and what the write means for
  the grants is up to the caller; or there was an error and only others moved.
\<close>

lemma update_run:
  assumes "serves k f N p (om_Namespace (ip_Meta (kp_pool kp))) (om_Name (ip_Meta (kp_pool kp))) view" "kp_firstIP kp = f"
    "pool_state s = view w" "Update k kp (kept rl) w = (e, kp', w')"
  shows "(\<exists>s1 stored. plugin_run f N s s1 \<and> cl_snap s1 p = cl_snap s p \<and> commits f (kp_pool kp) rl s1 stored
        \<and> om_ResourceVersion (ip_Meta (kp_pool kp)) = dec (cl_version s1) \<and> cl_version s1 < fst (view w')
        \<and> (\<forall>g. \<exists>s'. plugin_run f N (after_write p stored g s1) s' \<and> pool_state s' = view w'))
    \<or> e \<noteq> None \<and> moves f N p (view w) (view w')"
proof (cases "toAllocationMap (kept rl) f")
  case (Inl er)
  then show ?thesis using assms(2,4) by (auto simp: Update_def moves_refl)
next
  case (Inr allocs)
  obtain r where patch: "k_PatchIPPool k (om_Namespace (ip_Meta (kp_pool kp))) (om_Name (ip_Meta (kp_pool kp)))
      (update_patch (kp_pool kp) allocs) w = (r, w')" and e: "r \<noteq> Inr () \<Longrightarrow> e \<noteq> None"
    using assms(2,4) Inr by (auto simp: Update_def Let_def split: prod.splits sum.splits)
  then consider "applied f N p (view w) (update_patch (kp_pool kp) allocs) (view w')" | "r \<noteq> Inr ()" "moves f N p (view w) (view w')"
    using assms(1) unfolding serves_def by blast
  then show ?thesis
  proof cases
    case 1
    then obtain v a stored where v: "moves f N p (view w) (v, a)" "distinct (map fst stored)"
      "apply_ops (dec v, alloc_doc a) (update_patch (kp_pool kp) allocs) = Some (dec v, alloc_doc stored)"
      "moves f N p (Suc v, stored) (view w')" unfolding applied_def by blast
    obtain s1 where s1: "plugin_run f N s s1" "pool_state s1 = (v, a)" "cl_snap s1 p = cl_snap s p" using moves_run [OF v(1) assms(3)] .
    have "commits f (kp_pool kp) rl s1 stored" using v Inr s1(2) by (simp add: commits_def pool_state_def)
    moreover have "om_ResourceVersion (ip_Meta (kp_pool kp)) = dec (cl_version s1)"
      using v(3) update_patch_stale [of "dec v" "kp_pool kp"] s1(2) by (fastforce simp: pool_state_def)
    moreover have "cl_version s1 < fst (view w')" using moves_version [OF v(4)] s1(2) by (simp add: pool_state_def)
    moreover have "\<exists>s'. plugin_run f N (after_write p stored g s1) s' \<and> pool_state s' = view w'" for g
    proof -
      have "pool_state (after_write p stored g s1) = (Suc v, stored)" using s1(2) by (simp add: pool_state_def after_write_def)
      then show ?thesis using moves_run [OF v(4)] by blast
    qed
    ultimately show ?thesis using s1 by blast
  next
    case 2
    then show ?thesis using e by blast
  qed
qed

text \<open>A copy of an older version is never written.\<close>

lemma update_stale:
  assumes "serves k f N p (om_Namespace (ip_Meta (kp_pool kp))) (om_Name (ip_Meta (kp_pool kp))) view" "kp_firstIP kp = f"
    "Update k kp (kept rl) w = (e, kp', w')" "om_ResourceVersion (ip_Meta (kp_pool kp)) = dec v" "v < fst (view w)"
  shows "moves f N p (view w) (view w')"
proof -
  let ?s = "empty_cluster\<lparr>cl_version := fst (view w), cl_allocs := snd (view w)\<rparr>"
  have s: "pool_state ?s = view w" by (simp add: pool_state_def)
  have "cl_version s1 \<noteq> v" if "plugin_run f N ?s s1" for s1 using plugin_run_version [OF that] assms(5) by simp
  then show ?thesis using update_run [OF assms(1,2) s assms(3)] assms(4) by auto
qed

definition runs_to :: "IP \<Rightarrow> IPNet \<Rightarrow> ('w \<Rightarrow> nat \<times> allocations) \<Rightarrow> cluster \<Rightarrow> 'w \<Rightarrow> bool" where
  "runs_to f N view s w' \<longleftrightarrow> (\<exists>s'. plugin_run f N s s' \<and> pool_state s' = view w')"

lemma runs_moves: "moves f N p (view w) (view w') \<Longrightarrow> pool_state s = view w \<Longrightarrow> runs_to f N view s w'"
  unfolding runs_to_def using moves_run by metis

lemma runs_step: "plugin_run f N s s1 \<Longrightarrow> runs_to f N view s1 w' \<Longrightarrow> runs_to f N view s w'"
  unfolding runs_to_def by (meson rtranclp_trans)

lemma runs_then: "runs_to f N view s w \<Longrightarrow> moves f N p (view w) (view w') \<Longrightarrow> runs_to f N view s w'"
  unfolding runs_to_def by (elim exE conjE, rule moves_run, assumption+) (blast intro: rtranclp_trans)

section \<open>Rollback\<close>

lemma kept_Allocations: "kept (filter P (Allocations kp)) = filter P (Allocations kp)"
  by (rule kept_id) (use Allocations_not_dummy in auto)

lemma rollback_on_cases:
  assumes "rollback_on k c kp w = (r, w')"
  shows "w' = w \<or> list_ex (rollbackAllocationMatches c) (Allocations kp)
    \<and> (\<exists>e kp' w1. Update k kp (kept (filter (\<lambda>r. \<not> rollbackAllocationMatches c r) (Allocations kp))) w = (e, kp', w1)
        \<and> (w' = w1 \<or> w' = rollbackOverlappingReservation k c w1))"
  using assms unfolding rollback_on_def Let_def kept_Allocations
  by (auto split: prod.splits option.splits if_splits)

lemma rollback_on_run:
  assumes "serves k f N p (om_Namespace (ip_Meta (kp_pool kp))) (om_Name (ip_Meta (kp_pool kp))) view" "kp_firstIP kp = f"
    "pool_state s = view w" "cl_snap s p = Some (kp_pool kp)" "rollback_on k c kp w = (r, w')"
  shows "runs_to f N view s w'"
proof -
  let ?rl = "filter (\<lambda>r. \<not> rollbackAllocationMatches c r) (Allocations kp)"
  consider "w' = w" | e kp' w1 where "list_ex (rollbackAllocationMatches c) (Allocations kp)" "Update k kp (kept ?rl) w = (e, kp', w1)"
      "w' = w1 \<or> w' = rollbackOverlappingReservation k c w1"
    using rollback_on_cases [OF assms(5)] by blast
  then show ?thesis
  proof cases
    case 1
    then show ?thesis using assms(3) unfolding runs_to_def by blast
  next
    case 2
    have A: "Allocations kp = Allocations \<lparr> kp_firstIP = f, kp_pool = kp_pool kp \<rparr>" using assms(2) by (simp add: Allocations_def)
    have "runs_to f N view s w1"
      using update_run [OF assms(1-3) 2(2)]
    proof (elim disjE exE conjE)
      fix s1 stored assume s1: "plugin_run f N s s1" "cl_snap s1 p = cl_snap s p" "commits f (kp_pool kp) ?rl s1 stored"
        and g: "\<forall>g. \<exists>s'. plugin_run f N (after_write p stored g s1) s' \<and> pool_state s' = view w1"
      have "plugin_step f N s1 (after_write p stored {g \<in> cl_granted s1. fst g \<noteq> ip_addr (ca_ip c)} s1)"
        using s1(2) assms(4) by (intro plugin_rollback [OF _ A 2(1) s1(3)]) simp
      then show ?thesis using g s1(1) unfolding runs_to_def by (meson rtranclp.rtrancl_into_rtrancl rtranclp_trans)
    qed (rule runs_moves [where view = view and w = w, OF _ assms(3)])
    moreover have "moves f N p (view w1) (view w')"
      using 2(3) api_reads.o_rollbackOverlappingReservation [OF serves_reads [OF assms(1)]] moves_refl by metis
    ultimately show ?thesis by (rule runs_then)
  qed
qed

lemma rollback_on_stale:
  assumes "serves k f N p (om_Namespace (ip_Meta (kp_pool kp))) (om_Name (ip_Meta (kp_pool kp))) view" "kp_firstIP kp = f"
    "om_ResourceVersion (ip_Meta (kp_pool kp)) = dec v" "v < fst (view w)" "rollback_on k c kp w = (r, w')"
  shows "moves f N p (view w) (view w')"
  using rollback_on_cases [OF assms(5)]
proof (elim disjE conjE exE)
  fix e kp' w1 assume u: "Update k kp (kept (filter (\<lambda>r. \<not> rollbackAllocationMatches c r) (Allocations kp))) w = (e, kp', w1)"
    and w': "w' = rollbackOverlappingReservation k c w1"
  show ?thesis
    using update_stale [OF assms(1,2) u assms(3,4)] api_reads.o_rollbackOverlappingReservation [OF serves_reads [OF assms(1)]]
    unfolding w' by (metis moves_trans)
qed (use update_stale [where view = view and w = w, OF assms(1,2) _ assms(3,4)] moves_refl in blast)+

lemma rollback_retry_run:
  assumes "serves k f N p (ki_Namespace ipam) (IPPoolName (ca_poolID c)) view" "ca_ipam c = Some ipam" "pool_state s = view w"
  shows "runs_to f N view s (rollback_retry k c n kp w)"
  using assms(3)
proof (induction n arbitrary: s w)
  case 0
  then show ?case by (auto simp: runs_to_def)
next
  case (Suc n)
  obtain r w1 where get: "GetExistingIPPool k ipam (ca_poolID c) w = (r, w1)" by fastforce
  show ?case
  proof (cases r)
    case (Inl e)
    have "moves f N p (view w) (view w1)" using api_reads.o_get_existing_pool [OF serves_reads [OF assms(1)] get] .
    then have "runs_to f N view s w1" using Suc.prems by (rule runs_moves [where view = view])
    moreover have "runs_to f N view s (rollback_retry k c n kp w1)"
      using calculation Suc.IH unfolding runs_to_def [of _ _ _ s w1] by (blast intro: runs_step)
    ultimately show ?thesis using get Inl assms(2) by simp
  next
    case (Inr fresh)
    obtain s1 s2 where s: "plugin_run f N s s1" "plugin_run f N s1 s2" "pool_state s2 = view w1" "cl_snap s2 p = Some (kp_pool fresh)"
        "kp_firstIP fresh = f" "om_Namespace (ip_Meta (kp_pool fresh)) = ki_Namespace ipam" "om_Name (ip_Meta (kp_pool fresh)) = IPPoolName (ca_poolID c)"
      using get_pool_run [OF assms(1) Suc.prems, of fresh w1] get Inr by blast
    obtain r2 w2 where on: "rollback_on k c fresh w1 = (r2, w2)" by fastforce
    have "runs_to f N view s2 w2" by (rule rollback_on_run [where view = view and w = w1, OF _ s(5,3,4) on]) (simp add: s(6,7) assms(1))
    then have w2: "runs_to f N view s w2" by (rule runs_step [OF rtranclp_trans [OF s(1,2)]])
    then have "runs_to f N view s (rollback_retry k c n kp w2)"
      using Suc.IH unfolding runs_to_def [of _ _ _ s w2] by (blast intro: runs_step)
    then show ?thesis using w2 get Inr on assms(2) by (cases r2) simp_all
  qed
qed

lemma rollback_one_run:
  assumes "serves k f N p (ki_Namespace ipam) (IPPoolName (ca_poolID c)) view" "ca_ipam c = Some ipam" "pool_state s = view w"
    and "ca_pool c = Some kp" "om_Namespace (ip_Meta (kp_pool kp)) = ki_Namespace ipam" "om_Name (ip_Meta (kp_pool kp)) = IPPoolName (ca_poolID c)"
    "kp_firstIP kp = f" "om_ResourceVersion (ip_Meta (kp_pool kp)) = dec v" "v < fst (view w)"
  shows "runs_to f N view s (rollback_one k c w)"
proof -
  obtain r w1 where on: "rollback_on k c kp w = (r, w1)" by fastforce
  have "moves f N p (view w) (view w1)" by (rule rollback_on_stale [where view = view and w = w, OF _ assms(7-9) on]) (simp add: assms(1,5,6))
  then obtain s1 where s1: "plugin_run f N s s1" "pool_state s1 = view w1" using moves_run [OF _ assms(3)] by metis
  have "runs_to f N view s1 (rollback_one k c w)"
  proof (cases r)
    case (Inl kp')
    then show ?thesis using rollback_retry_run [OF assms(1,2) s1(2)] on assms(4) by (simp add: rollback_one_def)
  next
    case (Inr u)
    then show ?thesis using s1(2) on assms(4) by (auto simp: rollback_one_def runs_to_def)
  qed
  then show ?thesis using s1(1) by (rule runs_step [rotated])
qed

section \<open>One attempt\<close>

lemma range_ok_pref: "range_ok f N c \<Longrightarrow> nil_or_valid pref \<Longrightarrow> range_ok f N (c\<lparr>rc_PreferredIP := pref\<rparr>)"
  by (auto simp: range_ok_def addresses_valid_def)

lemma phase_range_plain:
  assumes "phase_range k env ipam conf st w = (fl, st', w')" "ic_NodeSliceSize conf = []"
  shows "ls_ipRange st' = ls_ipRange st" "ls_overlapping st' = ls_overlapping st"
    "fl = Next_phase \<Longrightarrow> ls_poolID st' = \<lparr> pi_IPRange = rc_Range (ls_ipRange st), pi_NetworkName = ic_NetworkName conf, pi_NodeName = [] \<rparr>"
    "fl \<noteq> Continue"
  using assms unfolding phase_range_def Let_def by (auto split: prod.splits option.splits)

lemma phase_assign_facts:
  assumes "phase_assign k ipam conf pref kp st w = (fl, st', w')" "range_ok f N (ls_ipRange st)" "nil_or_valid pref"
  shows "range_ok f N (ls_ipRange st')" "rc_Range (ls_ipRange st') = rc_Range (ls_ipRange st)"
    "fl = Next_phase \<or> fl = Continue \<Longrightarrow> AssignIP (ls_ipRange st') (Allocations kp @ ls_overlapping st) (ki_ContainerID ipam) (GetPodRef conf) (ki_IfName ipam)
       = Some (Inr (ls_newip st', ls_updated st'))"
    "ls_overlapping st' = ls_overlapping st @ (if fl = Continue then [dummy (net_IP (ls_newip st'))] else [])"
    "ls_poolID st' = ls_poolID st" "ls_skipPool st' = ls_skipPool st"
proof -
  define r where "r = (if pref \<noteq> [] then (ls_ipRange st)\<lparr>rc_PreferredIP := pref\<rparr> else ls_ipRange st)"
  have r: "range_ok f N r" "rc_Range r = rc_Range (ls_ipRange st)" using assms(2,3) by (simp_all add: r_def range_ok_pref)
  obtain res where a: "AssignIP r (Allocations kp @ ls_overlapping st) (ki_ContainerID ipam) (GetPodRef conf) (ki_IfName ipam) = Some res"
    using AssignIP_total by blast
  note run = assms(1) [unfolded phase_assign_def Let_def, folded r_def, unfolded a option.sel]
  have st': "ls_ipRange st' = r \<and> (fl = Next_phase \<or> fl = Continue \<longrightarrow> res = Inr (ls_newip st', ls_updated st'))
      \<and> ls_overlapping st' = ls_overlapping st @ (if fl = Continue then [dummy (net_IP (ls_newip st'))] else [])
      \<and> ls_poolID st' = ls_poolID st \<and> ls_skipPool st' = ls_skipPool st"
    using run unfolding phase_overlap_def Let_def
    by (auto split: sum.splits prod.splits option.splits if_splits)
  then show "range_ok f N (ls_ipRange st')" "rc_Range (ls_ipRange st') = rc_Range (ls_ipRange st)"
    "ls_overlapping st' = ls_overlapping st @ (if fl = Continue then [dummy (net_IP (ls_newip st'))] else [])"
    "ls_poolID st' = ls_poolID st" "ls_skipPool st' = ls_skipPool st" using r by auto
  show "AssignIP (ls_ipRange st') (Allocations kp @ ls_overlapping st) (ki_ContainerID ipam) (GetPodRef conf) (ki_IfName ipam)
       = Some (Inr (ls_newip st', ls_updated st'))" if "fl = Next_phase \<or> fl = Continue"
    using a st' that by simp
qed

lemma Update_meta:
  "Update k kp rl w = (e, kp', w') \<Longrightarrow> ip_Meta (kp_pool kp') = ip_Meta (kp_pool kp) \<and> kp_firstIP kp' = kp_firstIP kp"
  by (auto simp: Update_def Let_def split: sum.splits prod.splits)

lemma phase_update_cases:
  assumes "phase_update k conf kp st w = (fl, st', w')" "\<not> ls_skipPool st" "api_reads k R"
  obtains e kp' w1 w2 where "R w w1" "Update k kp (kept (ls_updated st)) w1 = (e, kp', w2)" "R w2 w'"
    "fl = Next_phase \<Longrightarrow> e = None \<and> w' = w2 \<and> st' = st\<lparr>ls_pool := Some kp', ls_err := None\<rparr>"
    "fl \<noteq> Next_phase \<Longrightarrow> e \<noteq> None \<and> ls_err st' = e" "ls_overlapping st' = ls_overlapping st" "ls_ipRange st' = ls_ipRange st"
proof -
  define w1 where "w1 = (if ic_SleepForRace conf > 0
    then k_Sleep k (min (ic_SleepForRace conf) MaxSleepForRace * 1000000000) w else w)"
  have r: "R w w1" using api_reads.o_Sleep [OF assms(3)] api_reads.o_refl [OF assms(3)] by (simp add: w1_def)
  obtain e kp' w2 where u: "Update k kp (kept (ls_updated st)) w1 = (e, kp', w2)" by (metis prod_cases3)
  note run = assms(1) [unfolded phase_update_def Let_def, folded w1_def, unfolded u, simplified assms(2)]
  have "R w2 w'"
    using run api_reads.o_refl [OF assms(3)] api_reads.o_backoff [OF assms(3)] by (auto split: option.splits if_splits)
  then show thesis
    by (rule that [OF r u]) (use run in \<open>auto simp: backoff_continue_def split: option.splits if_splits\<close>)
qed

lemma phase_reserve_run:
  assumes "serves k f N p (ki_Namespace ipam) (IPPoolName (ls_poolID st)) view" "pool_state s = view w"
    and "mode = Allocate \<Longrightarrow> \<exists>kp v. ls_pool st = Some kp \<and> om_Namespace (ip_Meta (kp_pool kp)) = ki_Namespace ipam
        \<and> om_Name (ip_Meta (kp_pool kp)) = IPPoolName (ls_poolID st) \<and> kp_firstIP kp = f
        \<and> om_ResourceVersion (ip_Meta (kp_pool kp)) = dec v \<and> v < fst (view w)"
    and "phase_reserve k mode ipam conf st w = (fl, st', w')"
  shows "runs_to f N view s w'"
proof (cases "ic_OverlappingRanges conf \<and> \<not> ls_skipOverlapping st")
  case False
  then show ?thesis using assms(2,4) by (auto simp: phase_reserve_def runs_to_def split: if_splits)
next
  case True
  note reads = serves_reads [OF assms(1)]
  obtain e w1 where u: "UpdateOverlappingRangeAllocation k (ki_Namespace ipam) mode (ls_ipfor st) (GetPodRef conf)
      (ki_IfName ipam) (ic_NetworkName conf) (ic_PodUID conf) w = (e, w1)" by fastforce
  have m1: "moves f N p (view w) (view w1)" using api_reads.o_update_orip [OF reads u] .
  then obtain s1 where s1: "plugin_run f N s s1" "pool_state s1 = view w1" using moves_run [OF _ assms(2)] by metis
  show ?thesis
  proof (cases e)
    case None
    then show ?thesis using assms(4) True u s1 by (auto simp: phase_reserve_def runs_to_def)
  next
    case (Some er)
    define st1 where "st1 = st\<lparr>ls_err := Some er\<rparr>"
    define c where "c = (commit_of ipam conf st1)\<lparr>ca_pool := ls_pool st1, ca_poolID := ls_poolID st1, ca_ipam := Some ipam\<rparr>"
    define w2 where "w2 = (if mode = Allocate \<and> ls_pool st1 \<noteq> None \<and> ls_allocationCreated st1 then rollbackCommitted k [c] w1 else w1)"
    have "runs_to f N view s1 w2"
    proof (cases "mode = Allocate")
      case True
      then obtain kp v where kp: "ls_pool st = Some kp" "om_Namespace (ip_Meta (kp_pool kp)) = ki_Namespace ipam"
        "om_Name (ip_Meta (kp_pool kp)) = IPPoolName (ls_poolID st)" "kp_firstIP kp = f"
        "om_ResourceVersion (ip_Meta (kp_pool kp)) = dec v" "v < fst (view w)" using assms(3) by blast
      have "v < fst (view w1)" using kp(6) moves_version [OF m1] by simp
      then have "runs_to f N view s1 (rollback_one k c w1)"
        by (intro rollback_one_run [where view = view and w = w1 and v = v and ipam = ipam and kp = kp, OF _ _ s1(2)])
          (use kp(1-5) assms(1) in \<open>simp_all add: c_def st1_def\<close>)
      then show ?thesis using s1(2) by (auto simp: w2_def runs_to_def)
    next
      case False
      then show ?thesis using s1(2) by (auto simp: w2_def runs_to_def)
    qed
    moreover have "w' = w2 \<or> (\<exists>fl st'. backoff_continue k st1 w2 = (fl, st', w'))"
      using assms(4) True u Some unfolding phase_reserve_def Let_def w2_def c_def st1_def by (auto split: if_splits)
    then have "moves f N p (view w2) (view w')" using moves_refl api_reads.o_backoff [OF reads] by metis
    ultimately have "runs_to f N view s1 w'" by (rule runs_then [where view = view])
    then show ?thesis by (rule runs_step [OF s1(1)])
  qed
qed

text \<open>
  What a phase does with the copy: the first two phases read it; from then on the process holds
  it until it writes.
\<close>

lemma copy_read:
  assumes "serves k f N p (ki_Namespace ipam) name view" "ic_NodeSliceSize conf = []" "pool_state s = view w"
    "name = IPPoolName \<lparr> pi_IPRange = rc_Range (ls_ipRange st), pi_NetworkName = ic_NetworkName conf, pi_NodeName = [] \<rparr>"
    "phase_range k env ipam conf st w = (Next_phase, st1, w1)" "phase_pool k mode ipam st1 w1 = (Next_phase, st2, w2)"
  obtains kp s1 s2 where "ls_pool st2 = Some kp" "plugin_run f N s s1" "copy_of (pool_state s1) (kp_pool kp)" "plugin_run f N s1 s2"
    "pool_state s2 = view w2" "cl_snap s2 p = Some (kp_pool kp)" "kp_firstIP kp = f"
    "om_Namespace (ip_Meta (kp_pool kp)) = ki_Namespace ipam" "om_Name (ip_Meta (kp_pool kp)) = name"
proof -
  have "moves f N p (view w) (view w1)" using api_reads.o_phase_range [OF serves_reads [OF assms(1)] assms(5)] .
  then obtain s0 where s0: "plugin_run f N s s0" "pool_state s0 = view w1" using moves_run [OF _ assms(3)] by metis
  have n: "name = IPPoolName (ls_poolID st1)" using phase_range_plain(3) [OF assms(5,2) refl] assms(4) by simp
  obtain kp where kp: "ls_pool st2 = Some kp" "GetIPPool k ipam (ls_poolID st1) w1 = (Inr kp, w2) \<or> GetExistingIPPool k ipam (ls_poolID st1) w1 = (Inr kp, w2)"
    using assms(6) by (auto simp: phase_pool_def backoff_continue_def split: prod.splits sum.splits if_splits)
  obtain s1 s2 where "plugin_run f N s0 s1" "copy_of (pool_state s1) (kp_pool kp)" "plugin_run f N s1 s2" "pool_state s2 = view w2"
    "cl_snap s2 p = Some (kp_pool kp)" "kp_firstIP kp = f"
    "om_Namespace (ip_Meta (kp_pool kp)) = ki_Namespace ipam" "om_Name (ip_Meta (kp_pool kp)) = name"
    using get_pool_run [OF assms(1) [unfolded n] s0(2) kp(2)] unfolding n by metis
  then show thesis using that [OF kp(1) rtranclp_trans [OF s0(1)]] by blast
qed

lemma write_run:
  assumes "serves k f N p (ki_Namespace ipam) (IPPoolName (ls_poolID st)) view" "pool_state s = view w" "cl_snap s p = Some (kp_pool kp)"
    "kp_firstIP kp = f" "om_Namespace (ip_Meta (kp_pool kp)) = ki_Namespace ipam" "om_Name (ip_Meta (kp_pool kp)) = IPPoolName (ls_poolID st)"
    "phase_update k conf kp st w = (fl, st', w')" "\<not> ls_skipPool st"
  shows "(\<exists>s1 stored. plugin_run f N s s1 \<and> cl_snap s1 p = Some (kp_pool kp) \<and> commits f (kp_pool kp) (ls_updated st) s1 stored
        \<and> (\<forall>g. \<exists>s'. plugin_run f N (after_write p stored g s1) s' \<and> pool_state s' = view w'
             \<and> (fl = Next_phase \<longrightarrow> (\<forall>fl2 st2 w2. phase_reserve k mode ipam conf st' w' = (fl2, st2, w2) \<longrightarrow> runs_to f N view s' w2))))
    \<or> fl \<noteq> Next_phase \<and> runs_to f N view s w'"
proof -
  note reads = serves_reads [OF assms(1)]
  obtain e kp' w1 w2 where u: "moves f N p (view w) (view w1)" "Update k kp (kept (ls_updated st)) w1 = (e, kp', w2)" "moves f N p (view w2) (view w')"
    "fl = Next_phase \<Longrightarrow> e = None \<and> w' = w2 \<and> st' = st\<lparr>ls_pool := Some kp', ls_err := None\<rparr>" "fl \<noteq> Next_phase \<Longrightarrow> e \<noteq> None"
    using phase_update_cases [OF assms(7,8) reads] by metis
  obtain s0 where s0: "plugin_run f N s s0" "pool_state s0 = view w1" "cl_snap s0 p = Some (kp_pool kp)"
    using moves_run [OF u(1) assms(2)] assms(3) by metis
  have sv: "serves k f N p (om_Namespace (ip_Meta (kp_pool kp))) (om_Name (ip_Meta (kp_pool kp))) view" using assms(1,5,6) by simp
  from update_run [where view = view and w = w1, OF sv assms(4) s0(2) u(2)] show ?thesis
  proof (elim disjE exE conjE)
    fix s1 stored assume s1: "plugin_run f N s0 s1" "cl_snap s1 p = cl_snap s0 p" "commits f (kp_pool kp) (ls_updated st) s1 stored"
      "om_ResourceVersion (ip_Meta (kp_pool kp)) = dec (cl_version s1)" "cl_version s1 < fst (view w2)"
      and g: "\<forall>g. \<exists>s'. plugin_run f N (after_write p stored g s1) s' \<and> pool_state s' = view w2"
    have after: "\<exists>s'. plugin_run f N (after_write p stored g s1) s' \<and> pool_state s' = view w'
        \<and> (fl = Next_phase \<longrightarrow> (\<forall>fl2 st2 w2. phase_reserve k mode ipam conf st' w' = (fl2, st2, w2) \<longrightarrow> runs_to f N view s' w2))" for g
    proof -
      obtain sa where sa: "plugin_run f N (after_write p stored g s1) sa" "pool_state sa = view w2" using g by blast
      obtain s' where s': "plugin_run f N sa s'" "pool_state s' = view w'" using moves_run [OF u(3) sa(2)] by metis
      have "runs_to f N view s' w3" if "fl = Next_phase" "phase_reserve k mode ipam conf st' w' = (fl2, st2, w3)" for fl2 st2 w3
      proof (rule phase_reserve_run [where view = view and w = w', OF _ s'(2) _ that(2)])
        have n: "w' = w2" "st' = st\<lparr>ls_pool := Some kp', ls_err := None\<rparr>" using u(4) that(1) by simp_all
        show "serves k f N p (ki_Namespace ipam) (IPPoolName (ls_poolID st')) view" using assms(1) n by simp
        show "\<exists>kp v. ls_pool st' = Some kp \<and> om_Namespace (ip_Meta (kp_pool kp)) = ki_Namespace ipam
          \<and> om_Name (ip_Meta (kp_pool kp)) = IPPoolName (ls_poolID st') \<and> kp_firstIP kp = f
          \<and> om_ResourceVersion (ip_Meta (kp_pool kp)) = dec v \<and> v < fst (view w')"
          using Update_meta [OF u(2)] s1(4,5) assms(4-6) n by auto
      qed
      then show ?thesis using rtranclp_trans [OF sa(1) s'(1)] s'(2) by blast
    qed
    show ?thesis
      by (rule disjI1, rule exI [of _ s1], rule exI [of _ stored], intro conjI allI)
        (rule rtranclp_trans [OF s0(1) s1(1)] s1(3) after | simp add: s1(2) s0(3))+
  next
    assume "e \<noteq> None" and m: "moves f N p (view w1) (view w2)"
    have "runs_to f N view s0 w'" using moves_trans [OF m u(3)] s0(2) by (rule runs_moves [where view = view])
    then show ?thesis using runs_step [OF s0(1)] u(4) \<open>e \<noteq> None\<close> by metis
  qed
qed

lemma attempt_write_run:
  assumes "serves k f N p (ki_Namespace ipam) name view" "ic_NodeSliceSize conf = []" "pool_state s = view w"
    "name = IPPoolName \<lparr> pi_IPRange = rc_Range (ls_ipRange st), pi_NetworkName = ic_NetworkName conf, pi_NodeName = [] \<rparr>"
    "phase_range k env ipam conf st w = (Next_phase, st1, w1)" "phase_pool k mode ipam st1 w1 = (Next_phase, st2, w2)"
    "moves f N p (view w2) (view w3)" "ls_poolID st3 = ls_poolID st2" "\<not> ls_skipPool st3"
    "phase_update k conf (the (ls_pool st2)) st3 w3 = (f4, st4, w4)" "phase_reserve k mode ipam conf st4 w4 = (f5, st5, w5)"
    "w' = (if f4 = Next_phase then w5 else w4)"
  shows "(\<exists>pool sw stored. the (ls_pool st2) = \<lparr> kp_firstIP = f, kp_pool = pool \<rparr> \<and> plugin_run f N s sw \<and> cl_snap sw p = Some pool
        \<and> commits f pool (ls_updated st3) sw stored \<and> (\<forall>g. runs_to f N view (after_write p stored g sw) w'))
    \<or> f4 \<noteq> Next_phase \<and> runs_to f N view s w'"
proof -
  obtain kp s1 s2 where c: "ls_pool st2 = Some kp" "plugin_run f N s s1" "plugin_run f N s1 s2" "pool_state s2 = view w2"
    "cl_snap s2 p = Some (kp_pool kp)" "kp_firstIP kp = f" "om_Namespace (ip_Meta (kp_pool kp)) = ki_Namespace ipam" "om_Name (ip_Meta (kp_pool kp)) = name"
    using copy_read [OF assms(1-6)] by metis
  have name: "name = IPPoolName (ls_poolID st3)"
    using phase_range_plain(3) [OF assms(5,2)] phase_pool_derived(2) [OF assms(6)] assms(4,8) by simp
  obtain s3 where s3: "plugin_run f N s2 s3" "pool_state s3 = view w3" "cl_snap s3 p = Some (kp_pool kp)"
    using moves_run [OF assms(7) c(4)] c(5) by metis
  have s03: "plugin_run f N s s3" using c(2,3) s3(1) by (meson rtranclp_trans)
  from write_run [where view = view and w = w3 and kp = kp and st = st3 and mode = mode, OF assms(1) [unfolded name] s3(2,3) c(6,7) c(8) [unfolded name]
      assms(10) [unfolded c(1) option.sel] assms(9)]
  show ?thesis
  proof (elim disjE exE conjE)
    fix sw stored assume sw: "plugin_run f N s3 sw" "cl_snap sw p = Some (kp_pool kp)" "commits f (kp_pool kp) (ls_updated st3) sw stored"
      and after: "\<forall>g. \<exists>s'. plugin_run f N (after_write p stored g sw) s' \<and> pool_state s' = view w4
           \<and> (f4 = Next_phase \<longrightarrow> (\<forall>fl2 st2 w2. phase_reserve k mode ipam conf st4 w4 = (fl2, st2, w2) \<longrightarrow> runs_to f N view s' w2))"
    have rest: "runs_to f N view (after_write p stored g sw) w'" for g
    proof -
      obtain s' where s': "plugin_run f N (after_write p stored g sw) s'" "pool_state s' = view w4" "f4 = Next_phase \<Longrightarrow> runs_to f N view s' w5"
        using after assms(11) by metis
      have "runs_to f N view s' w'" using s'(2,3) assms(12) by (cases "f4 = Next_phase") (auto simp: runs_to_def [of _ _ _ s' w4])
      then show ?thesis by (rule runs_step [OF s'(1)])
    qed
    have "the (ls_pool st2) = \<lparr> kp_firstIP = f, kp_pool = kp_pool kp \<rparr>" using c(1,6) by simp
    then show ?thesis using rtranclp_trans [OF s03 sw(1)] sw(2,3) rest by blast
  next
    assume "f4 \<noteq> Next_phase" and r: "runs_to f N view s3 w4"
    then show ?thesis using runs_step [OF s03 r] assms(12) by simp
  qed
qed

text \<open>Whatever becomes of an attempt to allocate, it makes steps of a plugin; a successful one is a grant.\<close>

lemma allocate_attempt_run:
  assumes "serves k f N p (ki_Namespace ipam) name view" "ic_NodeSliceSize conf = []" "pool_state s = view w"
    "name = IPPoolName \<lparr> pi_IPRange = rc_Range (ls_ipRange st), pi_NetworkName = ic_NetworkName conf, pi_NodeName = [] \<rparr>"
    "range_ok f N (ls_ipRange st)" "nil_or_valid pref" "ls_overlapping st = map dummy ds" "list_all valid_ip ds"
    "attempt k env Allocate ipam conf pref st w = (fl, st', w')"
  shows "runs_to f N view s w' \<and> (fl = Break_loop \<and> ls_err st' = None \<longrightarrow>
    (\<exists>s1. plugin_run f N s s1 \<and> (ip_addr (net_IP (ls_newip st')), GetPodRef conf, ki_IfName ipam) \<in> cl_granted s1 \<and> runs_to f N view s1 w'))"
proof -
  note reads = serves_reads [OF assms(1)]
  obtain f1 st1 w1 f2 st2 w2 f3 st3 w3 f4 st4 w4 f5 st5 w5 where
    p: "phase_range k env ipam conf st w = (f1, st1, w1)" "phase_pool k Allocate ipam st1 w1 = (f2, st2, w2)"
      "phase_assign k ipam conf pref (the (ls_pool st2)) st2 w2 = (f3, st3, w3)"
      "phase_update k conf (the (ls_pool st2)) st3 w3 = (f4, st4, w4)" "phase_reserve k Allocate ipam conf st4 w4 = (f5, st5, w5)"
    and run: "(fl, st', w') = (if f1 \<noteq> Next_phase then (f1, st1, w1) else if f2 \<noteq> Next_phase then (f2, st2, w2)
      else if f3 \<noteq> Next_phase then (f3, st3, w3) else if f4 \<noteq> Next_phase then (f4, st4, w4) else (f5, st5, w5))"
    by (rule attempt_eq [of k env ipam conf st w Allocate pref]; rule that) (use assms(9) in simp_all)
  have m: "moves f N p (view w) (view w1)" "moves f N p (view w1) (view w2)" "moves f N p (view w2) (view w3)"
    using api_reads.o_phase_range [OF reads p(1)] api_reads.o_phase_pool [OF reads p(2)] api_reads.o_phase_assign [OF reads p(3)] .
  show ?thesis
  proof (cases "f1 = Next_phase \<and> f2 = Next_phase \<and> f3 = Next_phase")
    case False
    then have "moves f N p (view w) (view w')" using run m by (auto split: if_splits intro: moves_trans)
    then have "runs_to f N view s w'" using assms(3) by (rule runs_moves [where view = view])
    moreover have "\<not> (fl = Break_loop \<and> ls_err st' = None)"
      using run False phase_range_next(5) [OF p(1)] phase_pool_next(6) [OF p(2)] phase_assign_flow(1) [OF p(3)]
      by (auto simp: Allocate_def Deallocate_def split: if_splits)
    ultimately show ?thesis by blast
  next
    case True
    then have q: "phase_range k env ipam conf st w = (Next_phase, st1, w1)" "phase_pool k Allocate ipam st1 w1 = (Next_phase, st2, w2)"
      "phase_assign k ipam conf pref (the (ls_pool st2)) st2 w2 = (Next_phase, st3, w3)" using p by simp_all
    have e: "w' = (if f4 = Next_phase then w5 else w4)" "st' = (if f4 = Next_phase then st5 else st4)" "f4 \<noteq> Next_phase \<Longrightarrow> fl = f4"
      using run True by (auto split: if_splits)
    have ok: "range_ok f N (ls_ipRange st2)" "ls_overlapping st2 = map dummy ds" "\<not> ls_skipPool st2"
      using phase_range_plain [OF q(1) assms(2)] phase_pool_next [OF q(2)] phase_pool_derived [OF q(2)] phase_range_next(3) [OF q(1)] assms(5,7) by simp_all
    note a = phase_assign_facts [OF q(3) ok(1) assms(6)]
    have as: "AssignIP (ls_ipRange st3) (Allocations (the (ls_pool st2)) @ map dummy ds) (ki_ContainerID ipam) (GetPodRef conf) (ki_IfName ipam)
        = Some (Inr (ls_newip st3, ls_updated st3))" using a(3) ok(2) by simp
    have "\<not> ls_skipPool st3" using a(6) ok(3) by simp
    from attempt_write_run [where view = view, OF assms(1-4) q(1,2) m(3) a(5) this p(4,5) e(1)] show ?thesis
    proof (elim disjE exE conjE)
      fix pool sw stored assume sw: "the (ls_pool st2) = \<lparr> kp_firstIP = f, kp_pool = pool \<rparr>" "plugin_run f N s sw" "cl_snap sw p = Some pool"
          "commits f pool (ls_updated st3) sw stored" and rest: "\<forall>g. runs_to f N view (after_write p stored g sw) w'"
      note as = as [unfolded sw(1)]
      have "plugin_step f N sw (after_write p stored (cl_granted sw) sw)"
        by (rule plugin_lost [OF sw(3) a(1) assms(8) _ as sw(4)]) simp
      then have 1: "runs_to f N view s w'" using rest sw(2) by (meson r_into_rtranclp runs_step)
      let ?t = "after_write p stored (insert (ip_addr (net_IP (ls_newip st3)), GetPodRef conf, ki_IfName ipam) (cl_granted sw)) sw"
      have "plugin_step f N sw ?t" by (rule plugin_take [OF sw(3) a(1) assms(8) _ as sw(4)]) simp
      then have "plugin_run f N s ?t" using sw(2) by (meson rtranclp.rtrancl_into_rtrancl)
      moreover have "ls_newip st' = ls_newip st3" if "fl = Break_loop" "ls_err st' = None"
        using e that phase_update_next(2) [OF p(4)] phase_reserve_next(3) [OF p(5)] by simp
      moreover have "(ip_addr (net_IP (ls_newip st3)), GetPodRef conf, ki_IfName ipam) \<in> cl_granted ?t" by (simp add: after_write_def)
      ultimately show ?thesis using 1 rest by metis
    qed (use e phase_update_next(5) [OF p(4)] in auto)
  qed
qed

text \<open>An attempt to release, too.\<close>

lemma phase_release_facts:
  assumes "phase_release ipam conf kp st w = (fl, st', w')" "ls_overlapping st = []"
  shows "w' = w" "ls_poolID st' = ls_poolID st" "ls_overlapping st' = []" "ls_ipRange st' = ls_ipRange st"
    "fl = Next_phase \<Longrightarrow> \<not> ls_skipPool st' \<Longrightarrow>
      DeallocateIP (Allocations kp) (ki_ContainerID ipam) (ki_IfName ipam) = (ls_updated st', ls_ipfor st') \<and> ls_ipfor st' \<noteq> []"
  using assms unfolding phase_release_def Let_def by (auto split: prod.splits if_splits)

lemma release_attempt_run:
  assumes "serves k f N p (ki_Namespace ipam) name view" "ic_NodeSliceSize conf = []" "pool_state s = view w"
    "name = IPPoolName \<lparr> pi_IPRange = rc_Range (ls_ipRange st), pi_NetworkName = ic_NetworkName conf, pi_NodeName = [] \<rparr>"
    "ls_overlapping st = []" "attempt k env Deallocate ipam conf pref st w = (fl, st', w')"
  shows "runs_to f N view s w'"
proof -
  note reads = serves_reads [OF assms(1)]
  have D: "(Deallocate = Allocate) = False" by (simp add: Allocate_def Deallocate_def)
  obtain f1 st1 w1 f2 st2 w2 f3 st3 w3 f4 st4 w4 f5 st5 w5 where
    p: "phase_range k env ipam conf st w = (f1, st1, w1)" "phase_pool k Deallocate ipam st1 w1 = (f2, st2, w2)"
      "phase_release ipam conf (the (ls_pool st2)) st2 w2 = (f3, st3, w3)"
      "phase_update k conf (the (ls_pool st2)) st3 w3 = (f4, st4, w4)" "phase_reserve k Deallocate ipam conf st4 w4 = (f5, st5, w5)"
    and run: "(fl, st', w') = (if f1 \<noteq> Next_phase then (f1, st1, w1) else if f2 \<noteq> Next_phase then (f2, st2, w2)
      else if f3 \<noteq> Next_phase then (f3, st3, w3) else if f4 \<noteq> Next_phase then (f4, st4, w4) else (f5, st5, w5))"
    by (rule attempt_eq [of k env ipam conf st w Deallocate pref]; rule that) (use assms(6) D in simp_all)
  have o: "ls_overlapping st2 = []"
    using phase_range_next(1) [OF p(1)] phase_pool_next(1) [OF p(2)] assms(5) by simp
  note rel = phase_release_facts [OF p(3) o]
  have m: "moves f N p (view w) (view w1)" "moves f N p (view w1) (view w2)" "w3 = w2"
    using api_reads.o_phase_range [OF reads p(1)] api_reads.o_phase_pool [OF reads p(2)] rel(1) .
  consider "f1 = Next_phase" "f2 = Next_phase" "f3 = Next_phase" "\<not> ls_skipPool st3" | "f1 = Next_phase" "f2 = Next_phase" "f3 = Next_phase" "ls_skipPool st3"
    | "f1 \<noteq> Next_phase \<or> f2 \<noteq> Next_phase \<or> f3 \<noteq> Next_phase" by blast
  then show ?thesis
  proof cases
    case 1
    then have q: "phase_range k env ipam conf st w = (Next_phase, st1, w1)" "phase_pool k Deallocate ipam st1 w1 = (Next_phase, st2, w2)"
      using p by simp_all
    have e: "w' = (if f4 = Next_phase then w5 else w4)" using run 1 by (auto split: if_splits)
    have "moves f N p (view w2) (view w3)" using m(3) by (simp add: moves_refl)
    from attempt_write_run [where view = view, OF assms(1-4) q this rel(2) 1(4) p(4,5) e] show ?thesis
    proof (elim disjE exE conjE)
      fix pool sw stored assume sw: "the (ls_pool st2) = \<lparr> kp_firstIP = f, kp_pool = pool \<rparr>" "plugin_run f N s sw" "cl_snap sw p = Some pool"
          "commits f pool (ls_updated st3) sw stored" and rest: "\<forall>g. runs_to f N view (after_write p stored g sw) w'"
      have "plugin_step f N sw (after_write p stored {g \<in> cl_granted sw. fst g \<noteq> ip_addr (ls_ipfor st3)} sw)"
        using rel(5) 1 sw(1)
        by (intro plugin_release [where containerID = "ki_ContainerID ipam" and ifName = "ki_IfName ipam", OF sw(3) _ _ sw(4)]) simp_all
      then show ?thesis using rest sw(2) by (meson r_into_rtranclp runs_step)
    qed auto
  next
    case 2
    have sk: "moves f N p (view w3) (view w4)" "f4 = Next_phase" "st4 = st3"
      using p(4) 2(4) api_reads.o_Sleep [OF reads] moves_refl [of f N p "view w3"] unfolding phase_update_def Let_def by (auto split: if_splits)
    have "moves f N p (view w) (view w4)" using m sk(1) by (auto intro: moves_trans)
    then obtain s4 where s4: "plugin_run f N s s4" "pool_state s4 = view w4" using moves_run [OF _ assms(3)] by metis
    have "name = IPPoolName (ls_poolID st4)"
      using phase_range_plain(3) [OF p(1) assms(2)] phase_pool_derived(2) [OF p(2)] assms(4) rel(2) sk(3) 2(1) by simp
    then have "runs_to f N view s4 w5"
      using phase_reserve_run [where view = view and w = w4, OF _ s4(2) _ p(5)] assms(1) D by simp
    then show ?thesis using run 2 sk(2) runs_step [OF s4(1)] by simp
  next
    case 3
    then have "moves f N p (view w) (view w')" using run m by (auto split: if_splits intro: moves_trans)
    then show ?thesis using assms(3) by (rule runs_moves [where view = view])
  qed
qed

section \<open>The whole call\<close>

lemma copy_inv:
  assumes "cl_inv f s" "copy_of (pool_state s) (kp_pool kp)" "kp_firstIP kp = f"
  shows "rl_inv (Allocations kp)"
proof -
  have "mset (ps_Allocations (ip_Spec (kp_pool kp))) = mset (cl_allocs s)"
    using assms(1,2) by (intro same_map_mset) (simp_all add: copy_of_def pool_state_def cl_inv_def)
  then have "mset (Allocations kp) = mset (stored f (cl_allocs s))"
    unfolding Allocations_def stored_def assms(3) by (rule toIPReservationList_mset)
  then show ?thesis using assms(1) rl_inv_mset by (metis cl_inv_def)
qed

lemma assigned_valid:
  assumes "AssignIP r (A @ map dummy ds) c q i = Some (Inr (ipn, rl))" "rl_inv A" "range_ok f N r" "list_all valid_ip ds" "q \<noteq> []"
  shows "valid_ip (net_IP ipn)"
proof (cases "\<exists>r\<in>set (A @ map dummy ds). ir_PodRef r = q \<and> ir_IfName r = i")
  case True
  then obtain x where "x \<in> set (A @ map dummy ds)" "net_IP ipn = ir_IP x" "ir_PodRef x = q"
    using AssignIP_existing [OF assms(1)] by (metis in_set_conv_decomp)
  then show ?thesis using assms(2,5) by (auto simp: rl_inv_def reservations_valid_def list_all_iff dummy_def)
next
  case False
  obtain ex where ok: "ParseCIDR (rc_Range r) = Inr (f, N)" "good_net N"
      "parseExcludedRanges (rc_OmitRanges r) = Inr ex" "list_all good_net ex" "addresses_valid r"
    using assms(3) by (auto simp: range_ok_def split: sum.splits)
  have "reservations_valid (A @ map dummy ds)"
    using assms(2,4) by (auto simp: rl_inv_def reservations_valid_def list_all_iff)
  from AssignIP_new [OF assms(1) ok this False] have "Contains N (net_IP ipn)" by (auto simp: free_ip_def)
  then show ?thesis using wb.inside_valid [OF wb.good_cidr [OF ok(2)]] by blast
qed

text \<open>The local dummies stay valid addresses, and the range keeps its network.\<close>

lemma allocate_attempt_keeps:
  assumes "serves k f N p (ki_Namespace ipam) name view" "ic_NodeSliceSize conf = []" "pool_state s = view w"
    "name = IPPoolName \<lparr> pi_IPRange = rc_Range (ls_ipRange st), pi_NetworkName = ic_NetworkName conf, pi_NodeName = [] \<rparr>"
    "range_ok f N (ls_ipRange st)" "nil_or_valid pref" "ls_overlapping st = map dummy ds" "list_all valid_ip ds"
    "attempt k env Allocate ipam conf pref st w = (fl, st', w')" "cl_inv f s"
  shows "range_ok f N (ls_ipRange st') \<and> rc_Range (ls_ipRange st') = rc_Range (ls_ipRange st)
    \<and> (\<exists>ds'. ls_overlapping st' = map dummy ds' \<and> list_all valid_ip ds')"
proof -
  obtain f1 st1 w1 f2 st2 w2 f3 st3 w3 f4 st4 w4 f5 st5 w5 where
    p: "phase_range k env ipam conf st w = (f1, st1, w1)" "phase_pool k Allocate ipam st1 w1 = (f2, st2, w2)"
      "phase_assign k ipam conf pref (the (ls_pool st2)) st2 w2 = (f3, st3, w3)"
      "phase_update k conf (the (ls_pool st2)) st3 w3 = (f4, st4, w4)" "phase_reserve k Allocate ipam conf st4 w4 = (f5, st5, w5)"
    and run: "(fl, st', w') = (if f1 \<noteq> Next_phase then (f1, st1, w1) else if f2 \<noteq> Next_phase then (f2, st2, w2)
      else if f3 \<noteq> Next_phase then (f3, st3, w3) else if f4 \<noteq> Next_phase then (f4, st4, w4) else (f5, st5, w5))"
    by (rule attempt_eq [of k env ipam conf st w Allocate pref]; rule that) (use assms(9) in simp_all)
  note r1 = phase_range_plain(1,2) [OF p(1) assms(2)]
  have r2: "ls_ipRange st2 = ls_ipRange st" "ls_overlapping st2 = map dummy ds"
    using r1 phase_pool_derived(1) [OF p(2)] phase_pool_next(1) [OF p(2)] assms(7) by simp_all
  then have ok2: "range_ok f N (ls_ipRange st2)" using assms(5) by simp
  note a = phase_assign_facts [OF p(3) ok2 assms(6)]
  have "\<exists>ds'. ls_overlapping st3 = map dummy ds' \<and> list_all valid_ip ds'" if n: "f1 = Next_phase" "f2 = Next_phase"
  proof (cases "f3 = Continue")
    case True
    obtain kp s1 where c: "ls_pool st2 = Some kp" "plugin_run f N s s1" "copy_of (pool_state s1) (kp_pool kp)" "kp_firstIP kp = f"
      using copy_read [OF assms(1-4) p(1) [unfolded n(1)] p(2) [unfolded n(2)]] by metis
    have "rl_inv (Allocations kp)" using copy_inv [OF plugin_run_inv [OF c(2) assms(10)] c(3,4)] .
    then have "valid_ip (net_IP (ls_newip st3))"
      using assigned_valid [OF a(3) [OF disjI2 [OF True], unfolded r2(2) c(1) option.sel] _ a(1) assms(8)] by simp
    then show ?thesis using a(4) r2(2) assms(8) True by (intro exI [of _ "ds @ [net_IP (ls_newip st3)]"]) simp
  next
    case False
    then show ?thesis using a(4) r2(2) assms(8) by auto
  qed
  moreover note a(1,2) r1 r2 ok2 phase_update_next(1) [OF p(4)] phase_update_derived [OF p(4)]
    phase_reserve_next(2) [OF p(5)] phase_reserve_derived [OF p(5)]
  ultimately show ?thesis using run assms(5,7,8) by (auto split: if_splits)
qed

lemma allocate_loop_run:
  assumes "serves k f N p (ki_Namespace ipam) name view" "ic_NodeSliceSize conf = []" "pool_state s = view w" "cl_inv f s"
    "name = IPPoolName \<lparr> pi_IPRange = rc_Range (ls_ipRange st), pi_NetworkName = ic_NetworkName conf, pi_NodeName = [] \<rparr>"
    "range_ok f N (ls_ipRange st)" "nil_or_valid pref" "ls_overlapping st = map dummy ds" "list_all valid_ip ds"
    "retry_loop n k env Allocate ipam conf pref st w = (fl, st', w')"
  shows "runs_to f N view s w' \<and> (\<not> ic_OverlappingRanges conf \<and> (\<forall>e. fl \<noteq> Return e) \<and> ls_err st' = None \<and> (n > 0 \<or> ls_err st \<noteq> None) \<longrightarrow>
    (\<exists>s1. plugin_run f N s s1 \<and> (ip_addr (net_IP (ls_newip st')), GetPodRef conf, ki_IfName ipam) \<in> cl_granted s1 \<and> runs_to f N view s1 w'))"
  using assms(3-6,8-10)
proof (induction n arbitrary: s w st ds)
  case 0
  then show ?case by (auto simp: runs_to_def)
next
  case (Suc n)
  obtain f1 st1 w1 where a: "attempt k env Allocate ipam conf pref st w = (f1, st1, w1)" by (metis prod_cases3)
  note ar = allocate_attempt_run [OF assms(1,2) Suc.prems(1,3,4) assms(7) Suc.prems(5,6) a]
  show ?case
  proof (cases "f1 = Continue")
    case True
    obtain ds' where keep: "range_ok f N (ls_ipRange st1)" "rc_Range (ls_ipRange st1) = rc_Range (ls_ipRange st)"
        "ls_overlapping st1 = map dummy ds'" "list_all valid_ip ds'"
      using allocate_attempt_keeps [OF assms(1,2) Suc.prems(1,3,4) assms(7) Suc.prems(5,6) a Suc.prems(2)] by blast
    obtain s1 where s1: "plugin_run f N s s1" "pool_state s1 = view w1" using ar by (auto simp: runs_to_def)
    have rest: "retry_loop n k env Allocate ipam conf pref st1 w1 = (fl, st', w')" using Suc.prems(7) a True by simp
    note ih = Suc.IH [OF s1(2) plugin_run_inv [OF s1(1) Suc.prems(2)] Suc.prems(3) [folded keep(2)] keep(1,3,4) rest]
    have "ls_err st1 \<noteq> None" if "\<not> ic_OverlappingRanges conf" using attempt_no_overlap(2) [OF a that True] .
    then show ?thesis using ih runs_step [OF s1(1)] rtranclp_trans [OF s1(1)] by meson
  next
    case False
    then have e: "fl = f1" "st' = st1" "w' = w1" using Suc.prems(7) a by (cases f1; simp)+
    then show ?thesis using ar attempt_no_overlap(1) [OF a] False by (cases f1) auto
  qed
qed

lemma release_attempt_keeps:
  assumes "attempt k env Deallocate ipam conf pref st w = (fl, st', w')" "ic_NodeSliceSize conf = []" "ls_overlapping st = []"
  shows "ls_overlapping st' = [] \<and> ls_ipRange st' = ls_ipRange st"
proof -
  have D: "(Deallocate = Allocate) = False" by (simp add: Allocate_def Deallocate_def)
  obtain f1 st1 w1 f2 st2 w2 f3 st3 w3 f4 st4 w4 f5 st5 w5 where
    p: "phase_range k env ipam conf st w = (f1, st1, w1)" "phase_pool k Deallocate ipam st1 w1 = (f2, st2, w2)"
      "phase_release ipam conf (the (ls_pool st2)) st2 w2 = (f3, st3, w3)"
      "phase_update k conf (the (ls_pool st2)) st3 w3 = (f4, st4, w4)" "phase_reserve k Deallocate ipam conf st4 w4 = (f5, st5, w5)"
    and run: "(fl, st', w') = (if f1 \<noteq> Next_phase then (f1, st1, w1) else if f2 \<noteq> Next_phase then (f2, st2, w2)
      else if f3 \<noteq> Next_phase then (f3, st3, w3) else if f4 \<noteq> Next_phase then (f4, st4, w4) else (f5, st5, w5))"
    by (rule attempt_eq [of k env ipam conf st w Deallocate pref]; rule that) (use assms(1) D in simp_all)
  note r1 = phase_range_plain(1,2) [OF p(1) assms(2)] and r2 = phase_pool_derived(1) [OF p(2)] phase_pool_next(1) [OF p(2)]
  have o: "ls_overlapping st2 = []" using r1 r2 assms(3) by simp
  show ?thesis
    using run r1 r2 assms(3) phase_release_facts(3,4) [OF p(3) o] phase_update_next(1) [OF p(4)] phase_update_derived [OF p(4)]
      phase_reserve_next(2) [OF p(5)] phase_reserve_derived [OF p(5)] by (auto split: if_splits)
qed

lemma release_loop_run:
  assumes "serves k f N p (ki_Namespace ipam) name view" "ic_NodeSliceSize conf = []" "pool_state s = view w"
    "name = IPPoolName \<lparr> pi_IPRange = rc_Range (ls_ipRange st), pi_NetworkName = ic_NetworkName conf, pi_NodeName = [] \<rparr>"
    "ls_overlapping st = []" "retry_loop n k env Deallocate ipam conf pref st w = (fl, st', w')"
  shows "runs_to f N view s w'"
  using assms(3-6)
proof (induction n arbitrary: s w st)
  case 0
  then show ?case by (auto simp: runs_to_def)
next
  case (Suc n)
  obtain f1 st1 w1 where a: "attempt k env Deallocate ipam conf pref st w = (f1, st1, w1)" by (metis prod_cases3)
  have ar: "runs_to f N view s w1" by (rule release_attempt_run [OF assms(1,2) Suc.prems(1-3) a])
  show ?case
  proof (cases "f1 = Continue")
    case True
    note keep = release_attempt_keeps [OF a assms(2) Suc.prems(3)]
    obtain s1 where s1: "plugin_run f N s s1" "pool_state s1 = view w1" using ar by (auto simp: runs_to_def)
    have "runs_to f N view s1 w'"
      by (rule Suc.IH [OF s1(2)]) (use keep Suc.prems(2,4) a True in simp_all)
    then show ?thesis by (rule runs_step [OF s1(1)])
  next
    case False
    then show ?thesis using Suc.prems(4) a ar by (cases f1) auto
  qed
qed

lemma granted_unique:
  assumes "cl_inv f s" "(a, q, i) \<in> cl_granted s"
  shows "{g \<in> cl_granted s. fst g = a} = {(a, q, i)}"
proof -
  let ?R = "stored f (cl_allocs s)"
  have inj: "inj_on (\<lambda>r. ip_addr (ir_IP r)) (set ?R)" using assms(1) by (simp add: cl_inv_def rl_inv_def ip_unique_def distinct_map)
  have u: "q' = q \<and> i' = i" if "(a, q', i') \<in> cl_granted s" for q' i'
  proof -
    have "(a, q, i) \<in> grants ?R" "(a, q', i') \<in> grants ?R" using that assms by (auto simp: cl_inv_def)
    then show ?thesis using inj by (auto simp: grants_def res_view_def dest: inj_onD)
  qed
  show ?thesis
  proof (intro equalityI subsetI)
    fix g assume "g \<in> {g \<in> cl_granted s. fst g = a}"
    then show "g \<in> {(a, q, i)}" using u [of "fst (snd g)" "snd (snd g)"] by (cases g) simp
  qed (use assms(2) in simp)
qed

lemma preferred_valid: "preferred_of k mode conf w = (ip, w') \<Longrightarrow> nil_or_valid ip"
proof -
  have "nil_or_valid (ParseIP x)" for x
    by (auto simp: ParseIP_def Let_def nil_or_valid_def valid_ip_def)
  then show "preferred_of k mode conf w = (ip, w') \<Longrightarrow> ?thesis"
    unfolding preferred_of_def by (auto simp: nil_or_valid_def split: prod.splits sum.splits option.splits if_splits)
qed

text \<open>A call with one range is one retry loop; there is nothing to roll back after it.\<close>

lemma single_range_call:
  assumes "IPManagementKubernetesUpdate k env mode ipam conf w = (ips, e, w')" "mode = Allocate \<or> mode = Deallocate" "ic_IPRanges conf = [rc]"
  obtains pref w1 st0 fl st where "preferred_of k mode conf w = (pref, w1)" "ls_ipRange st0 = rc" "ls_overlapping st0 = []"
    "retry_loop DatastoreRetries k env mode ipam conf pref st0 w1 = (fl, st, w')"
    "e = None \<longrightarrow> (\<forall>e. fl \<noteq> Return e) \<and> ls_err st = None" "e = None \<and> mode = Allocate \<longrightarrow> ips = [ls_newip st]"
proof -
  define rs where "rs = \<lparr> rs_newips = [], rs_committed = [], rs_overlapping = [], rs_ipfor = [], rs_newip = \<lparr> net_IP = [], net_Mask = [] \<rparr> \<rparr>"
  obtain pref w1 where pr: "preferred_of k mode conf w = (pref, w1)" by fastforce
  obtain fl st w2 where loop: "retry_loop DatastoreRetries k env mode ipam conf pref (start_range rs conf rc) w1 = (fl, st, w2)" by (metis prod_cases3)
  obtain err rs2 w3 where all: "all_ranges k env mode ipam conf pref [rc] rs w1 = (err, rs2, w3)" by (metis prod_cases3)
  have f: "w3 = w2" "err = None \<longleftrightarrow> (\<forall>e. fl \<noteq> Return e) \<and> ls_err st = None" "rs2 = (if err = None then finish_range mode ipam conf st rs else rs)"
    using all loop by (auto split: flow.splits option.splits)
  have c: "rs_committed rs = []" "rs_newips rs = []" by (simp_all add: rs_def)
  have "IPManagementKubernetesUpdate k env mode ipam conf w = (rs_newips rs2, err, w2)"
    using assms(2,3) pr all f(1,3) c(1) unfolding IPManagementKubernetesUpdate_def rs_def [symmetric] by (auto simp: Let_def)
  then have r: "w' = w2" "e = err" "ips = rs_newips rs2" using assms(1) by simp_all
  show thesis
    by (rule that [OF pr _ _ loop [folded r(1)]]) (use f(2,3) c(2) r(2,3) in \<open>auto simp: start_range_def rs_def finish_range_def Let_def\<close>)
qed

text \<open>
  C2: The code against the steps: one call of \<^verbatim>\<open>IPManagementKubernetesUpdate\<close> for a range, to allocate or
  to release, with its retries and rollbacks, whatever the API answers and whatever other plugins
  do meanwhile, takes the pool from one state to another by steps of plugins. So the guarantees
  for such steps hold for the code. A successful allocation without overlapping ranges has granted
  the returned address to the pod in a state of this run, and there to no other pod or interface.
\<close>

theorem call_runs_plugin_steps:
  assumes "serves k f N p (ki_Namespace ipam) name view" "valid_ip f"
    "name = IPPoolName \<lparr> pi_IPRange = rc_Range rc, pi_NetworkName = ic_NetworkName conf, pi_NodeName = [] \<rparr>"
    "range_ok f N rc" "ic_IPRanges conf = [rc]" "ic_NodeSliceSize conf = []"
    "plugin_run f N empty_cluster s" "pool_state s = view w"
    "IPManagementKubernetesUpdate k env mode ipam conf w = (ips, e, w')"
  shows "(\<exists>s'. plugin_run f N s s' \<and> pool_state s' = view w')
    \<and> (mode = Allocate \<and> e = None \<and> \<not> ic_OverlappingRanges conf \<longrightarrow>
        (\<exists>ipn s1 s'. ips = [ipn] \<and> plugin_run f N s s1 \<and> plugin_run f N s1 s' \<and> pool_state s' = view w'
          \<and> {g \<in> cl_granted s1. fst g = ip_addr (net_IP ipn)} = {(ip_addr (net_IP ipn), GetPodRef conf, ki_IfName ipam)}))"
proof (cases "mode = Allocate \<or> mode = Deallocate")
  case False
  then show ?thesis using assms(8,9) by (auto simp: IPManagementKubernetesUpdate_def)
next
  case mode: True
  have inv: "cl_inv f s" by (rule plugin_run_inv [OF assms(7) empty_inv [OF assms(2)]])
  obtain pref w1 st0 fl st where pr: "preferred_of k mode conf w = (pref, w1)" and st0: "ls_ipRange st0 = rc" "ls_overlapping st0 = []"
    and loop: "retry_loop DatastoreRetries k env mode ipam conf pref st0 w1 = (fl, st, w')"
    and ok: "e = None \<longrightarrow> (\<forall>e. fl \<noteq> Return e) \<and> ls_err st = None" and ips: "e = None \<and> mode = Allocate \<longrightarrow> ips = [ls_newip st]"
    using single_range_call [OF assms(9) mode assms(5)] .
  have "moves f N p (view w) (view w1)" using api_reads.o_preferred_of [OF serves_reads [OF assms(1)] pr] .
  then obtain s0 where s0: "plugin_run f N s s0" "pool_state s0 = view w1" using moves_run [OF _ assms(8)] by metis
  show ?thesis
  proof (cases "mode = Allocate")
    case True
    have lr: "runs_to f N view s0 w' \<and> (\<not> ic_OverlappingRanges conf \<and> e = None \<longrightarrow>
      (\<exists>s1. plugin_run f N s0 s1 \<and> (ip_addr (net_IP (ls_newip st)), GetPodRef conf, ki_IfName ipam) \<in> cl_granted s1 \<and> runs_to f N view s1 w'))"
      using allocate_loop_run [where view = view and w = w1 and ds = "[]", OF assms(1,6) s0(2) plugin_run_inv [OF s0(1) inv] _ _ preferred_valid [OF pr] _ _ loop [unfolded True]]
        st0 assms(3,4) ok by (simp add: DatastoreRetries_def)
    have "runs_to f N view s w'" by (rule runs_step [OF s0(1) lr [THEN conjunct1]])
    moreover have "\<exists>ipn s1 s'. ips = [ipn] \<and> plugin_run f N s s1 \<and> plugin_run f N s1 s' \<and> pool_state s' = view w'
          \<and> {g \<in> cl_granted s1. fst g = ip_addr (net_IP ipn)} = {(ip_addr (net_IP ipn), GetPodRef conf, ki_IfName ipam)}"
      if none: "e = None" "\<not> ic_OverlappingRanges conf"
    proof -
      obtain s1 s' where s1: "plugin_run f N s0 s1" "(ip_addr (net_IP (ls_newip st)), GetPodRef conf, ki_IfName ipam) \<in> cl_granted s1"
        "plugin_run f N s1 s'" "pool_state s' = view w'" using lr none unfolding runs_to_def by blast
      have r: "plugin_run f N s s1" using s0(1) s1(1) by (rule rtranclp_trans)
      have "{g \<in> cl_granted s1. fst g = ip_addr (net_IP (ls_newip st))} = {(ip_addr (net_IP (ls_newip st)), GetPodRef conf, ki_IfName ipam)}"
        by (rule granted_unique [OF plugin_run_inv [OF r inv] s1(2)])
      then show ?thesis using ips none(1) True r s1(3,4) by blast
    qed
    ultimately show ?thesis unfolding runs_to_def by blast
  next
    case False
    then have d: "mode = Deallocate" using mode by blast
    have r: "runs_to f N view s0 w'"
      by (rule release_loop_run [where view = view and w = w1, OF assms(1,6) s0(2) _ _ loop [unfolded d]]) (simp_all add: st0 assms(3))
    show ?thesis using False runs_step [OF s0(1) r] by (simp add: runs_to_def)
  qed
qed

section \<open>A server\<close>

text \<open>
  A server with one pool, of the range \<^verbatim>\<open>10.0.0.0/29\<close>. Its world is the stored pool; something else
  changes the version whenever the plugin looks at its context.
\<close>

definition lan_pool :: "nat \<times> allocations \<Rightarrow> IPPool" where
  "lan_pool x = (let pool = new_pool ''10.0.0.0-29'' ''10.0.0.0/29'' in
     pool\<lparr>ip_Meta := (ip_Meta pool)\<lparr>om_Namespace := ''kube-system'', om_ResourceVersion := dec (fst x)\<rparr>,
          ip_Spec := (ip_Spec pool)\<lparr>ps_Allocations := snd x\<rparr>\<rparr>)"

definition lan_entry :: allocations where
  "lan_entry = [(''1'', \<lparr> ia_ContainerID = ''c1'', ia_PodRef = ''ns/p1'', ia_IfName = ''eth0'' \<rparr>)]"

definition lan_kube :: "(nat \<times> allocations) kube" where
  "lan_kube = \<lparr> k_GetIPPool = (\<lambda>ns name w. (if ns = ''kube-system'' \<and> name = ''10.0.0.0-29'' \<and> distinct (map fst (snd w))
       then Inr (lan_pool w) else Inl (ApiErr NotFound), w)),
     k_CreateIPPool = (\<lambda>_ _ w. (Inl (ApiErr AlreadyExists), w)),
     k_PatchIPPool = (\<lambda>_ _ ops w. if snd w = [] \<and> ops = update_patch (lan_pool w) lan_entry
       then (Inr (), (Suc (fst w), lan_entry)) else (Inl (ApiErr Conflict), w)),
     k_GetORIP = (\<lambda>_ _ w. (Inl (ApiErr NotFound), w)), k_CreateORIP = (\<lambda>_ _ w. (Inr (), w)),
     k_DeleteORIP = (\<lambda>_ _ _ w. (Inr (), w)), k_ListORIPs = (\<lambda>_ w. (Inr [], w)),
     k_GetNodeSlicePool = (\<lambda>_ _ w. (Inl (ApiErr NotFound), w)), k_GetPod = (\<lambda>_ _ w. (Inl (ApiErr NotFound), w)),
     k_CtxErr = (\<lambda>w. (None, (Suc (fst w), snd w))), k_Rand = (\<lambda>_ w. (0, w)), k_Sleep = (\<lambda>_ w. w) \<rparr>"

lemma moves_touch: "moves f N p (v, a) (Suc v, a)"
  unfolding moves_def
proof (intro allI impI)
  fix s assume s: "pool_state s = (v, a)"
  have "others f N p s (s\<lparr>cl_version := Suc (cl_version s)\<rparr>)" unfolding others_def by (simp add: plugin_touch)
  then show "\<exists>s'. (others f N p)\<^sup>*\<^sup>* s s' \<and> pool_state s' = (Suc v, a)" using s by (auto simp: pool_state_def)
qed

lemma lan_calls:
  "k_GetIPPool lan_kube ns name w = (Inr pool, w')
    \<Longrightarrow> ns = ''kube-system'' \<and> name = ''10.0.0.0-29'' \<and> distinct (map fst (snd w)) \<and> pool = lan_pool w \<and> w' = w"
  "k_PatchIPPool lan_kube ns name ops w = (r, w')
    \<Longrightarrow> snd w = [] \<and> ops = update_patch (lan_pool w) lan_entry \<and> w' = (Suc (fst w), lan_entry) \<or> r \<noteq> Inr () \<and> w' = w"
  "om_Namespace (ip_Meta (lan_pool w)) = ''kube-system''" "om_Name (ip_Meta (lan_pool w)) = ''10.0.0.0-29''"
  by (auto simp: lan_kube_def split: if_splits) (auto simp: lan_pool_def new_pool_def Let_def)

lemma lan_range: "IPPool_ParseCIDR (lan_pool w) = Inr (lan_first, lan)"
proof -
  have "ParseCIDR ''10.0.0.0/29'' = Inr (lan_first, lan)" by code_simp
  then show ?thesis by (simp add: IPPool_ParseCIDR_def lan_pool_def new_pool_def Let_def)
qed

lemma lan_applied: "snd w = [] \<Longrightarrow> applied lan_first lan 0 w (update_patch (lan_pool w) lan_entry) (Suc (fst w), lan_entry)"
proof -
  assume w: "snd w = []"
  have d: "distinct (map fst lan_entry)" by (simp add: lan_entry_def)
  from update_patch_apply [of "lan_pool w", OF _ this, of "dec (fst w)"] w
  have "apply_ops (dec (fst w), alloc_doc (snd w)) (update_patch (lan_pool w) lan_entry) = Some (dec (fst w), alloc_doc lan_entry)"
    by (simp add: lan_pool_def Let_def)
  then show ?thesis
    unfolding applied_def using moves_refl d
    by (intro exI [of _ "fst w"] exI [of _ "snd w"] exI [of _ lan_entry]) simp
qed

lemma lan_serves: "serves lan_kube lan_first lan 0 ''kube-system'' ''10.0.0.0-29'' id"
  unfolding serves_def id_apply
proof (intro conjI allI impI)
  show "api_reads lan_kube (moves lan_first lan 0)"
    by unfold_locales (auto simp: lan_kube_def moves_refl moves_touch intro: moves_trans)
next
  fix ns' name' w pool w' assume "k_GetIPPool lan_kube ns' name' w = (Inr pool, w')"
  from lan_calls(1) [OF this] show "om_Namespace (ip_Meta pool) = ns'" "om_Name (ip_Meta pool) = name'" by (simp_all add: lan_calls(3,4))
next
  fix w pool w' assume "k_GetIPPool lan_kube ''kube-system'' ''10.0.0.0-29'' w = (Inr pool, w')"
  note g = lan_calls(1) [OF this]
  show "IPPool_ParseCIDR pool = Inr (lan_first, lan)" using g lan_range by simp
  have "copy_of w (lan_pool w)" using g by (simp add: copy_of_def lan_pool_def Let_def)
  then show "\<exists>x. moves lan_first lan 0 w x \<and> copy_of x pool \<and> moves lan_first lan 0 x w'" using g moves_refl by blast
next
  fix ops w r w' assume "k_PatchIPPool lan_kube ''kube-system'' ''10.0.0.0-29'' ops w = (r, w')"
  from lan_calls(2) [OF this] show "applied lan_first lan 0 w ops w' \<or> r \<noteq> Inr () \<and> moves lan_first lan 0 w w'"
    using lan_applied [of w] moves_refl by metis
qed

definition lan_ipam_conf :: IPAMConfig where
  "lan_ipam_conf = ipam_conf_ex\<lparr>ic_OverlappingRanges := False, ic_IPRanges := [lan_conf]\<rparr>"

theorem call_runs_plugin_steps_witness:
  "\<exists>(ipn :: IPNet) s. snd (snd (IPManagementKubernetesUpdate lan_kube env_ex Allocate ipam_ex lan_ipam_conf (0, []))) = (2, lan_entry)
    \<and> plugin_run lan_first lan empty_cluster s \<and> (ip_addr (net_IP ipn), ''ns/p1'', ''eth0'') \<in> cl_granted s"
proof -
  let ?call = "IPManagementKubernetesUpdate lan_kube env_ex Allocate ipam_ex lan_ipam_conf (0, [])"
  have c: "fst (snd ?call) = None" "snd (snd ?call) = (2, lan_entry)" by code_simp+
  then have call: "?call = (fst ?call, None, (2, lan_entry))" by (metis prod.collapse)
  have n: "ki_Namespace ipam_ex = ''kube-system''"
    "''10.0.0.0-29'' = IPPoolName \<lparr> pi_IPRange = rc_Range lan_conf, pi_NetworkName = ic_NetworkName lan_ipam_conf, pi_NodeName = [] \<rparr>"
    "ic_IPRanges lan_ipam_conf = [lan_conf]" "ic_NodeSliceSize lan_ipam_conf = []" "\<not> ic_OverlappingRanges lan_ipam_conf"
    "GetPodRef lan_ipam_conf = ''ns/p1''" "ki_IfName ipam_ex = ''eth0''" by code_simp+
  have s: "plugin_run lan_first lan empty_cluster empty_cluster" "pool_state empty_cluster = id (0, [])"
    by (simp_all add: pool_state_def empty_cluster_def)
  have "serves lan_kube lan_first lan 0 (ki_Namespace ipam_ex) ''10.0.0.0-29'' id" using lan_serves by (simp add: n(1))
  note r = call_runs_plugin_steps [OF this lan_ok(2) n(2) lan_ok(1) n(3,4) s call]
  from mp [OF conjunct2 [OF r] conjI [OF refl conjI [OF refl n(5)]], unfolded n(6,7)] show ?thesis
  proof (elim exE conjE)
    fix ipn :: IPNet and s1 assume s1: "plugin_run lan_first lan empty_cluster s1"
      and g: "{g \<in> cl_granted s1. fst g = ip_addr (net_IP ipn)} = {(ip_addr (net_IP ipn), ''ns/p1'', ''eth0'')}"
    have "(ip_addr (net_IP ipn), ''ns/p1'', ''eth0'') \<in> {g \<in> cl_granted s1. fst g = ip_addr (net_IP ipn)}" unfolding g by simp
    then show ?thesis using c(2) s1 by (intro exI [of _ ipn] exI [of _ s1]) simp
  qed
qed

end
