(* ===== verification/Rollback.thy ===== *)
theory Rollback
  imports Interleaving
begin

text \<open>
  An ADD for several ranges that fails leaves the pools as they were: what it committed in the
  ranges before the failing one is taken back by \<^verbatim>\<open>rollbackCommitted\<close>. The API answers reliably here
  and nobody else writes to these pools meanwhile; the call can fail because a range is full, its
  context is done, a pool or a cluster-wide reservation cannot be created, or any other read fails.
\<close>

section \<open>A server without other writers\<close>

type_synonym pool_store = "string \<Rightarrow> (nat \<times> allocations) option"

definition untouched :: "pool_store \<Rightarrow> pool_store \<Rightarrow> bool" where
  "untouched P P' \<longleftrightarrow> (\<forall>n. P' n = P n \<or> P n = None \<and> (\<exists>v. P' n = Some (v, [])))"

text \<open>
  \<open>pools\<close> are the pools of the namespace \<open>ns\<close>, each with its version and its allocations; those of
  the names \<open>M\<close> have a range that starts at \<open>first\<close>. Calls other than patches leave the pools alone but
  for creating empty ones; a stored pool can be read; a patch that applies is applied, as a whole,
  and a patch whose tests fail is answered with \<^verbatim>\<open>Invalid\<close>.
\<close>

definition quiet ::
  "('w, 'x) kube_scheme \<Rightarrow> string \<Rightarrow> string set \<Rightarrow> (string \<Rightarrow> IP) \<Rightarrow> ('w \<Rightarrow> pool_store) \<Rightarrow> bool" where
  "quiet k ns M first pools \<longleftrightarrow>
     api_reads k (\<lambda>w w'. untouched (pools w) (pools w'))
     \<and> (\<forall>n w pool w'. k_GetIPPool k ns n w = (Inr pool, w') \<longrightarrow> om_Namespace (ip_Meta pool) = ns \<and> om_Name (ip_Meta pool) = n
          \<and> (\<exists>x. pools w' n = Some x \<and> copy_of x pool))
     \<and> (\<forall>n\<in>M. \<forall>w pool w'. k_GetIPPool k ns n w = (Inr pool, w') \<longrightarrow> (\<exists>N. IPPool_ParseCIDR pool = Inr (first n, N)))
     \<and> (\<forall>n\<in>M. \<forall>w e w'. k_GetIPPool k ns n w = (Inl e, w') \<longrightarrow> pools w n = None)
     \<and> (\<forall>n ops w r w' v a. k_PatchIPPool k ns n ops w = (r, w') \<longrightarrow> pools w n = Some (v, a) \<longrightarrow>
          (apply_ops (dec v, alloc_doc a) ops = None \<longrightarrow> (\<exists>e. r = Inl e \<and> IsInvalid e) \<and> pools w' = pools w)
          \<and> (\<forall>b. apply_ops (dec v, alloc_doc a) ops = Some (dec v, alloc_doc b) \<and> distinct (map fst b) \<longrightarrow>
               r = Inr () \<and> (\<exists>v' b'. v < v' \<and> distinct (map fst b') \<and> map_of b' = map_of b \<and> pools w' = (pools w)(n \<mapsto> (v', b')))))"

text \<open>Who holds which address of a pool, and that the stored pools are in order.\<close>

definition owners :: "IP \<Rightarrow> (nat \<times> allocations) option \<Rightarrow> (addr \<times> string \<times> string) set" where
  "owners f p = (case p of None \<Rightarrow> {} | Some x \<Rightarrow> grants (stored f (snd x)))"

definition entries :: "IP \<Rightarrow> (nat \<times> allocations) option \<Rightarrow> (addr \<times> string \<times> string \<times> string) set" where
  "entries f p = (case p of None \<Rightarrow> {} | Some x \<Rightarrow> set (map res_view (stored f (snd x))))"

definition pool_ok :: "IP \<Rightarrow> nat \<times> allocations \<Rightarrow> bool" where
  "pool_ok f x \<longleftrightarrow> distinct (map fst (snd x)) \<and> rl_inv (stored f (snd x)) \<and> pooled f (stored f (snd x))"

definition store_ok :: "string set \<Rightarrow> (string \<Rightarrow> IP) \<Rightarrow> pool_store \<Rightarrow> bool" where
  "store_ok M first P \<longleftrightarrow> (\<forall>n\<in>M. valid_ip (first n) \<and> pred_option (pool_ok (first n)) (P n))"

lemma quietD:
  assumes "quiet k ns M first pools"
  shows quiet_reads: "api_reads k (\<lambda>w w'. untouched (pools w) (pools w'))"
    and quiet_get: "k_GetIPPool k ns n w = (Inr pool, w') \<Longrightarrow> om_Namespace (ip_Meta pool) = ns \<and> om_Name (ip_Meta pool) = n
          \<and> (\<exists>x. pools w' n = Some x \<and> copy_of x pool)"
    and quiet_range: "n \<in> M \<Longrightarrow> k_GetIPPool k ns n w = (Inr pool, w') \<Longrightarrow> \<exists>N. IPPool_ParseCIDR pool = Inr (first n, N)"
    and quiet_found: "n \<in> M \<Longrightarrow> k_GetIPPool k ns n w = (Inl e, w') \<Longrightarrow> pools w n = None"
    and quiet_invalid: "k_PatchIPPool k ns n ops w = (r, w') \<Longrightarrow> pools w n = Some (v, a) \<Longrightarrow> apply_ops (dec v, alloc_doc a) ops = None
          \<Longrightarrow> (\<exists>e. r = Inl e \<and> IsInvalid e) \<and> pools w' = pools w"
    and quiet_patch: "k_PatchIPPool k ns n ops w = (r, w') \<Longrightarrow> pools w n = Some (v, a)
          \<Longrightarrow> apply_ops (dec v, alloc_doc a) ops = Some (dec v, alloc_doc b) \<Longrightarrow> distinct (map fst b)
          \<Longrightarrow> r = Inr () \<and> (\<exists>v' b'. v < v' \<and> distinct (map fst b') \<and> map_of b' = map_of b \<and> pools w' = (pools w)(n \<mapsto> (v', b')))"
  using assms unfolding quiet_def by - (elim conjE; assumption | blast)+

lemma untouched_refl: "untouched P P"
  by (simp add: untouched_def)

lemma untouched_trans: "untouched P Q \<Longrightarrow> untouched Q S \<Longrightarrow> untouched P S"
  unfolding untouched_def by (metis option.distinct(1))

lemma untouched_Some: "untouched P Q \<Longrightarrow> P n = Some x \<Longrightarrow> Q n = Some x"
  unfolding untouched_def by (metis option.distinct(1))

lemma owners_empty: "owners f (Some (v, [])) = {}"
  by (simp add: owners_def stored_def grants_def)

lemma untouched_owners: "untouched P Q \<Longrightarrow> owners f (Q n) = owners f (P n)"
proof -
  assume "untouched P Q"
  then have "Q n = P n \<or> P n = None \<and> (\<exists>v. Q n = Some (v, []))" by (simp add: untouched_def)
  moreover have "owners f None = {}" by (simp add: owners_def)
  ultimately show ?thesis using owners_empty by metis
qed

lemma untouched_entries: "untouched P Q \<Longrightarrow> entries f (Q n) = entries f (P n)"
proof -
  assume "untouched P Q"
  then have "Q n = P n \<or> P n = None \<and> (\<exists>v. Q n = Some (v, []))" by (simp add: untouched_def)
  moreover have "entries f (Some (v, [])) = {}" for v by (simp add: entries_def stored_def)
  moreover have "entries f None = {}" by (simp add: entries_def)
  ultimately show ?thesis by metis
qed

text \<open>
  What an ADD may change in the pools: entries of other pods and interfaces stay, new ones have the
  container of the call. \<open>only_own\<close> compares two sets of entries.
\<close>

definition only_own :: "string \<Rightarrow> string \<times> string \<Rightarrow> (addr \<times> string \<times> string \<times> string) set \<Rightarrow> (addr \<times> string \<times> string \<times> string) set \<Rightarrow> bool" where
  "only_own c ow S T \<longleftrightarrow> {e \<in> T. snd (snd e) \<noteq> ow} = {e \<in> S. snd (snd e) \<noteq> ow} \<and> (\<forall>e\<in>T. e \<in> S \<or> fst (snd e) = c)"

definition others_kept :: "KubernetesIPAM \<Rightarrow> IPAMConfig \<Rightarrow> (string \<Rightarrow> IP) \<Rightarrow> pool_store \<Rightarrow> pool_store \<Rightarrow> bool" where
  "others_kept ipam conf first P Q \<longleftrightarrow>
     (\<forall>n. only_own (ki_ContainerID ipam) (GetPodRef conf, ki_IfName ipam) (entries (first n) (P n)) (entries (first n) (Q n)))"

lemma only_own_refl: "only_own c ow S S"
  by (simp add: only_own_def)

lemma only_own_trans: "only_own c ow S T \<Longrightarrow> only_own c ow T U \<Longrightarrow> only_own c ow S U"
  by (auto simp: only_own_def)

lemma others_untouched: "untouched P Q \<Longrightarrow> others_kept ipam conf first P Q"
  by (simp add: others_kept_def untouched_entries only_own_refl)

lemma others_trans: "others_kept ipam conf first P Q \<Longrightarrow> others_kept ipam conf first Q R \<Longrightarrow> others_kept ipam conf first P R"
  unfolding others_kept_def using only_own_trans by blast

lemma others_write:
  assumes "only_own (ki_ContainerID ipam) (GetPodRef conf, ki_IfName ipam) (entries (first n) (P n)) (entries (first n) (Some y))"
  shows "others_kept ipam conf first P (P(n \<mapsto> y))"
  using assms by (simp add: others_kept_def only_own_refl)

lemma pool_ok_empty: "pool_ok f (v, [])"
  by (simp add: pool_ok_def stored_def rl_inv_def reservations_valid_def ip_unique_def owner_unique_def pooled_def)

lemma untouched_ok:
  assumes "untouched P Q" "store_ok M first P"
  shows "store_ok M first Q"
  unfolding store_ok_def
proof (intro ballI conjI)
  fix n assume n: "n \<in> M"
  show "valid_ip (first n)" using assms(2) n by (simp add: store_ok_def)
  have p: "pred_option (pool_ok (first n)) (P n)" using assms(2) n by (simp add: store_ok_def)
  consider "Q n = P n" | v where "Q n = Some (v, [])" using assms(1) unfolding untouched_def by blast
  then show "pred_option (pool_ok (first n)) (Q n)" by cases (simp_all add: p pool_ok_empty)
qed

lemma store_okD:
  assumes "store_ok M first P" "n \<in> M"
  shows "valid_ip (first n)" "P n = Some x \<Longrightarrow> pool_ok (first n) x"
  using assms by (auto simp: store_ok_def)

lemma store_ok_write: "store_ok M first P \<Longrightarrow> pool_ok (first n) y \<Longrightarrow> store_ok M first (P(n \<mapsto> y))"
  by (simp add: store_ok_def)

section \<open>Reading and writing\<close>

definition holds :: "string \<Rightarrow> (string \<Rightarrow> IP) \<Rightarrow> string \<Rightarrow> KubernetesIPPool \<Rightarrow> bool" where
  "holds ns first n kp \<longleftrightarrow> kp_firstIP kp = first n \<and> om_Namespace (ip_Meta (kp_pool kp)) = ns \<and> om_Name (ip_Meta (kp_pool kp)) = n"

lemma quiet_read:
  assumes "quiet k (ki_Namespace ipam) M first pools" "IPPoolName pid \<in> M"
    and "GetIPPool k ipam pid w = (Inr kp, w') \<or> GetExistingIPPool k ipam pid w = (Inr kp, w')"
  shows "holds (ki_Namespace ipam) first (IPPoolName pid) kp \<and> (\<exists>x. pools w' (IPPoolName pid) = Some x \<and> copy_of x (kp_pool kp))"
proof -
  have get: "k_GetIPPool k (ki_Namespace ipam) (IPPoolName pid) w = (Inr (kp_pool kp), w')"
    and cidr: "\<exists>n. IPPool_ParseCIDR (kp_pool kp) = Inr (kp_firstIP kp, n)"
    using assms(3) by (auto simp: GetIPPool_def GetExistingIPPool_def getPool_def getExistingPool_def with_firstIP_def
        split: prod.splits sum.splits if_splits)
  then show ?thesis using quiet_get [OF assms(1) get] quiet_range [OF assms(1,2) get] by (auto simp: holds_def)
qed

text \<open>The reservations in a copy of a stored pool.\<close>

lemma copy_view:
  assumes "copy_of x (kp_pool kp)" "distinct (map fst (snd x))" "kp_firstIP kp = f"
  shows "mset (map res_view (Allocations kp)) = mset (map res_view (stored f (snd x)))"
proof -
  have "mset (ps_Allocations (ip_Spec (kp_pool kp))) = mset (snd x)"
    using assms(1,2) by (intro same_map_mset) (simp_all add: copy_of_def)
  then have "mset (Allocations kp) = mset (stored f (snd x))"
    unfolding Allocations_def stored_def assms(3) by (rule toIPReservationList_mset)
  then show ?thesis by simp
qed

lemma copy_owners:
  assumes "holds ns first n kp" "copy_of x (kp_pool kp)" "pool_ok (first n) x"
  shows "grants (Allocations kp) = owners (first n) (Some x)"
proof -
  have v: "mset (map res_view (Allocations kp)) = mset (map res_view (stored (first n) (snd x)))"
    using copy_view [OF assms(2)] assms(1,3) by (simp add: pool_ok_def holds_def)
  show ?thesis unfolding owners_def grants_def option.case mset_eq_setD [OF v] ..
qed

text \<open>An update from a current copy is stored.\<close>

lemma quiet_update:
  assumes "quiet k ns M first pools" "holds ns first n kp" "pools w n = Some x" "copy_of x (kp_pool kp)" "distinct (map fst (snd x))"
    and "valid_ip (first n)" "rl_inv rl" "pooled (first n) rl" "Update k kp rl w = (e, kp', w')"
  obtains y where "e = None" "pools w' = (pools w)(n \<mapsto> y)" "fst x < fst y" "distinct (map fst (snd y))"
    "mset (map res_view (stored (first n) (snd y))) = mset (map res_view rl)"
    "mset (map res_view (Allocations kp')) = mset (map res_view rl)" "holds ns first n kp'" "ip_Meta (kp_pool kp') = ip_Meta (kp_pool kp)"
proof -
  have h: "kp_firstIP kp = first n" "om_Namespace (ip_Meta (kp_pool kp)) = ns" "om_Name (ip_Meta (kp_pool kp)) = n"
    using assms(2) by (simp_all add: holds_def)
  have "\<forall>r\<in>set rl. in_pool (first n) (ir_IP r)" "distinct (map (\<lambda>r. ip_addr (ir_IP r)) rl)"
    using assms(7,8) by (simp_all add: pooled_def rl_inv_def ip_unique_def)
  from pool_codec [OF assms(6) this] obtain m where m: "toAllocationMap rl (first n) = Inr m" "distinct (map fst m)"
    "map res_view (toIPReservationList m (first n)) = map res_view rl" by blast
  obtain r where patch: "k_PatchIPPool k ns n (update_patch (kp_pool kp) m) w = (r, w')"
    and e: "r = Inr () \<Longrightarrow> e = None \<and> kp' = kp\<lparr>kp_pool := (kp_pool kp)\<lparr>ip_Spec := (ip_Spec (kp_pool kp))\<lparr>ps_Allocations := m\<rparr>\<rparr>\<rparr>"
    using assms(9) m(1) h by (auto simp: Update_def Let_def split: prod.splits sum.splits)
  obtain v a where x: "x = (v, a)" by fastforce
  have c: "om_ResourceVersion (ip_Meta (kp_pool kp)) = dec v" "distinct (map fst (ps_Allocations (ip_Spec (kp_pool kp))))"
    "map_of (ps_Allocations (ip_Spec (kp_pool kp))) = map_of a" using assms(4) by (simp_all add: copy_of_def x)
  have "alloc_doc (ps_Allocations (ip_Spec (kp_pool kp))) = alloc_doc a" unfolding alloc_doc_def c(3) ..
  then have "apply_ops (dec v, alloc_doc a) (update_patch (kp_pool kp) m) = Some (dec v, alloc_doc m)"
    using update_patch_apply [OF c(2) m(2), of "dec v"] c(1) by simp
  from quiet_patch [OF assms(1) patch assms(3) [unfolded x] this m(2)] obtain v' b where
    b: "r = Inr ()" "v < v'" "distinct (map fst b)" "map_of b = map_of m" "pools w' = (pools w)(n \<mapsto> (v', b))" by blast
  have "mset (toIPReservationList b (first n)) = mset (toIPReservationList m (first n))"
    by (rule toIPReservationList_mset [OF same_map_mset [OF b(3) m(2) b(4)]])
  then have "mset (map res_view (stored (first n) b)) = mset (map res_view rl)" using m(3) by (metis mset_map stored_def)
  then show thesis
    using b e m(3) h by (intro that [of "(v', b)"]) (simp_all add: x Allocations_def holds_def)
qed

text \<open>An update from an older copy is refused, and may be tried again.\<close>

lemma quiet_update_stale:
  assumes "quiet k ns M first pools" "holds ns first n kp" "pools w n = Some x" "om_ResourceVersion (ip_Meta (kp_pool kp)) = dec v" "v < fst x"
    and "valid_ip (first n)" "rl_inv rl" "pooled (first n) rl" "Update k kp rl w = (e, kp', w')"
  shows "pools w' = pools w \<and> (\<exists>e'. e = Some (TemporaryError e'))"
proof -
  have h: "kp_firstIP kp = first n" "om_Namespace (ip_Meta (kp_pool kp)) = ns" "om_Name (ip_Meta (kp_pool kp)) = n"
    using assms(2) by (simp_all add: holds_def)
  have "\<forall>r\<in>set rl. in_pool (first n) (ir_IP r)" "distinct (map (\<lambda>r. ip_addr (ir_IP r)) rl)"
    using assms(7,8) by (simp_all add: pooled_def rl_inv_def ip_unique_def)
  from pool_codec [OF assms(6) this] obtain m where m: "toAllocationMap rl (first n) = Inr m" by blast
  obtain r where patch: "k_PatchIPPool k ns n (update_patch (kp_pool kp) m) w = (r, w')"
    and e: "\<And>e'. r = Inl e' \<Longrightarrow> IsInvalid e' \<Longrightarrow> e = Some (TemporaryError e')"
    using assms(9) m h by (auto simp: Update_def Let_def split: prod.splits sum.splits)
  obtain v' a where x: "x = (v', a)" by fastforce
  have "dec v' \<noteq> om_ResourceVersion (ip_Meta (kp_pool kp))" using assms(4,5) by (simp add: x)
  from quiet_invalid [OF assms(1) patch assms(3) [unfolded x] update_patch_stale [OF this]] show ?thesis using e by blast
qed

section \<open>Taking back one allocation\<close>

definition entry_of :: "committedAlloc \<Rightarrow> addr \<times> string \<times> string \<times> string" where
  "entry_of c = (ip_addr (ca_ip c), ca_containerID c, ca_podRef c, ca_ifName c)"

abbreviation without :: "committedAlloc \<Rightarrow> (addr \<times> string \<times> string) set \<Rightarrow> (addr \<times> string \<times> string) set" where
  "without c S \<equiv> {g \<in> S. snd g \<noteq> (ca_podRef c, ca_ifName c)}"

lemma match_entry:
  assumes "valid_ip (ir_IP r)" "ca_podRef c \<noteq> []"
  shows "rollbackAllocationMatches c r \<longleftrightarrow> res_view r = entry_of c"
proof (cases "valid_ip (ca_ip c)")
  case True
  then show ?thesis using assms(2) IP_Equal_addr [OF assms(1) True] by (auto simp: rollbackAllocationMatches_def res_view_def entry_of_def)
next
  case False
  then have "\<not> IP_Equal (ir_IP r) (ca_ip c)" "ip_addr (ir_IP r) \<noteq> ip_addr (ca_ip c)"
    using IP_Equal_valid assms(1) ip_addr_valid by metis+
  then show ?thesis by (simp add: rollbackAllocationMatches_def res_view_def entry_of_def)
qed

lemma matches_entry:
  assumes "rl_inv A" "ca_podRef c \<noteq> []"
  shows "list_ex (rollbackAllocationMatches c) A \<longleftrightarrow> entry_of c \<in> set (map res_view A)"
proof -
  have v: "\<forall>r\<in>set A. valid_ip (ir_IP r)" using assms(1) by (simp add: rl_inv_def reservations_valid_def list_all_iff)
  have "list_ex (rollbackAllocationMatches c) A \<longleftrightarrow> (\<exists>r\<in>set A. res_view r = entry_of c)"
    unfolding list_ex_iff using v match_entry [OF _ assms(2)] by (intro bex_cong refl) blast
  then show ?thesis by force
qed

lemma rl_inv_filter: "rl_inv A \<Longrightarrow> rl_inv (filter P A)"
  by (auto simp: rl_inv_def reservations_valid_def list_all_iff ip_unique_def owner_unique_def distinct_map_filter)

lemma pooled_filter: "pooled f A \<Longrightarrow> pooled f (filter P A)"
  by (simp add: pooled_def)

text \<open>Owners are unique in a pool, so an allocation is taken back by its owner.\<close>

lemma rollback_grants:
  assumes "rl_inv A" "ca_podRef c \<noteq> []" "entry_of c \<in> set (map res_view A)"
  shows "grants (filter (\<lambda>r. \<not> rollbackAllocationMatches c r) A) = without c (grants A)"
proof -
  obtain r0 where r0: "r0 \<in> set A" "res_view r0 = entry_of c" using assms(3) by auto
  have inj: "inj_on (\<lambda>r. (ir_PodRef r, ir_IfName r)) (set A)" using assms(1) by (simp add: rl_inv_def owner_unique_def distinct_map)
  have m: "rollbackAllocationMatches c r \<longleftrightarrow> (ir_PodRef r, ir_IfName r) = (ca_podRef c, ca_ifName c)" if r: "r \<in> set A" for r
  proof -
    have "valid_ip (ir_IP r)" using assms(1) r by (simp add: rl_inv_def reservations_valid_def list_all_iff)
    from match_entry [OF this assms(2)] have "rollbackAllocationMatches c r \<longleftrightarrow> res_view r = entry_of c" .
    moreover have "r = r0" if "(ir_PodRef r, ir_IfName r) = (ca_podRef c, ca_ifName c)"
      using inj_onD [OF inj _ r r0(1)] r0(2) that by (simp add: res_view_def entry_of_def)
    moreover have "(ir_PodRef r, ir_IfName r) = (ca_podRef c, ca_ifName c)" if "res_view r = entry_of c"
      using that by (simp add: res_view_def entry_of_def)
    ultimately show ?thesis using r0(2) by blast
  qed
  then show ?thesis by (auto simp: grants_def res_view_def)
qed

lemma rollback_only_own:
  assumes "rl_inv A" "ca_podRef c \<noteq> []"
  shows "only_own cid (ca_podRef c, ca_ifName c) (set (map res_view A)) (set (map res_view (filter (\<lambda>r. \<not> rollbackAllocationMatches c r) A)))"
proof -
  have "snd (snd (res_view r)) = (ca_podRef c, ca_ifName c)" if "r \<in> set A" "rollbackAllocationMatches c r" for r
    using match_entry [OF _ assms(2), of r] that assms(1) by (simp add: rl_inv_def reservations_valid_def list_all_iff entry_of_def)
  then show ?thesis by (auto simp: only_own_def)
qed

abbreviation commit_pool :: "committedAlloc \<Rightarrow> string" where
  "commit_pool c \<equiv> IPPoolName (ca_poolID c)"

text \<open>A commit that is in the stored pool, with the older copy the call still holds.\<close>

definition committed_in :: "KubernetesIPAM \<Rightarrow> string set \<Rightarrow> (string \<Rightarrow> IP) \<Rightarrow> pool_store \<Rightarrow> committedAlloc \<Rightarrow> bool" where
  "committed_in ipam M first P c \<longleftrightarrow> ca_ipam c = Some ipam \<and> commit_pool c \<in> M \<and> ca_podRef c \<noteq> []
     \<and> (\<exists>kp v x. ca_pool c = Some kp \<and> holds (ki_Namespace ipam) first (commit_pool c) kp
          \<and> rl_inv (Allocations kp) \<and> pooled (first (commit_pool c)) (Allocations kp) \<and> entry_of c \<in> set (map res_view (Allocations kp))
          \<and> om_ResourceVersion (ip_Meta (kp_pool kp)) = dec v \<and> v < fst x
          \<and> P (commit_pool c) = Some x \<and> entry_of c \<in> set (map res_view (stored (first (commit_pool c)) (snd x))))"

lemma read_existing:
  assumes "quiet k (ki_Namespace ipam) M first pools" "IPPoolName pid \<in> M" "pools w (IPPoolName pid) = Some x"
  obtains kp w' where "GetExistingIPPool k ipam pid w = (Inr kp, w')" "untouched (pools w) (pools w')"
    "holds (ki_Namespace ipam) first (IPPoolName pid) kp" "copy_of x (kp_pool kp)"
proof -
  obtain r w' where get: "k_GetIPPool k (ki_Namespace ipam) (IPPoolName pid) w = (r, w')" by fastforce
  have u: "untouched (pools w) (pools w')" using api_reads.o_GetIPPool [OF quiet_reads [OF assms(1)] get] .
  obtain pool where r: "r = Inr pool" using quiet_found [OF assms(1,2)] get assms(3) by (cases r) auto
  obtain N where "IPPool_ParseCIDR pool = Inr (first (IPPoolName pid), N)" using quiet_range [OF assms(1,2) get [unfolded r]] by blast
  then have g: "GetExistingIPPool k ipam pid w = (Inr \<lparr> kp_firstIP = first (IPPoolName pid), kp_pool = pool \<rparr>, w')"
    using get r by (simp add: GetExistingIPPool_def getExistingPool_def with_firstIP_def)
  obtain y where y: "holds (ki_Namespace ipam) first (IPPoolName pid) \<lparr> kp_firstIP = first (IPPoolName pid), kp_pool = pool \<rparr>"
      "pools w' (IPPoolName pid) = Some y" "copy_of y pool"
    using quiet_read [OF assms(1,2) disjI2 [OF g]] unfolding KubernetesIPPool.simps by blast
  have "y = x" using untouched_Some [OF u assms(3)] y(2) by simp
  then show thesis using that [OF g u y(1)] y(3) by simp
qed

text \<open>
  The copy is always older than the stored pool, since the commit itself raised the version: the
  first attempt is refused, and the second one, on the pool read again, takes the allocation back.
\<close>

lemma rollback_on_stale_copy:
  assumes "quiet k (ki_Namespace ipam) M first pools" "store_ok M first (pools w)" "committed_in ipam M first (pools w) c"
  obtains kp kp' w1 where "ca_pool c = Some kp" "rollback_on k c kp w = (Inl kp', w1)" "pools w1 = pools w"
proof -
  let ?n = "commit_pool c"
  obtain kp v x where kp: "ca_pool c = Some kp" "holds (ki_Namespace ipam) first ?n kp" "rl_inv (Allocations kp)" "pooled (first ?n) (Allocations kp)"
      "entry_of c \<in> set (map res_view (Allocations kp))" "om_ResourceVersion (ip_Meta (kp_pool kp)) = dec v" "v < fst x" "pools w ?n = Some x"
    and c: "?n \<in> M" "ca_podRef c \<noteq> []" using assms(3) unfolding committed_in_def by blast
  let ?rl = "filter (\<lambda>r. \<not> rollbackAllocationMatches c r) (Allocations kp)"
  obtain e kp' w1 where u: "Update k kp ?rl w = (e, kp', w1)" by (metis prod_cases3)
  obtain e' where "pools w1 = pools w" "e = Some (TemporaryError e')"
    using quiet_update_stale [OF assms(1) kp(2,8,6,7) store_okD(1) [OF assms(2) c(1)] rl_inv_filter [OF kp(3)] pooled_filter [OF kp(4)] u] by blast
  moreover have "list_ex (rollbackAllocationMatches c) (Allocations kp)" using matches_entry [OF kp(3) c(2)] kp(5) by simp
  ultimately show thesis
    using that [OF kp(1)] u by (simp add: rollback_on_def isRetryableRollbackError_def)
qed

lemma rollback_one_effect:
  assumes "quiet k (ki_Namespace ipam) M first pools" "store_ok M first (pools w)" "committed_in ipam M first (pools w) c"
  obtains x y where "pools w (commit_pool c) = Some x" "untouched ((pools w)(commit_pool c \<mapsto> y)) (pools (rollback_one k c w))"
    "pool_ok (first (commit_pool c)) y" "owners (first (commit_pool c)) (Some y) = without c (owners (first (commit_pool c)) (Some x))"
    "only_own cid (ca_podRef c, ca_ifName c) (entries (first (commit_pool c)) (Some x)) (entries (first (commit_pool c)) (Some y))"
proof -
  let ?n = "commit_pool c"
  obtain kp kp' w1 where first: "ca_pool c = Some kp" "rollback_on k c kp w = (Inl kp', w1)" "pools w1 = pools w"
    using rollback_on_stale_copy [OF assms] .
  obtain x where c: "pools w ?n = Some x" "ca_ipam c = Some ipam" "?n \<in> M" "ca_podRef c \<noteq> []"
      "entry_of c \<in> set (map res_view (stored (first ?n) (snd x)))" using assms(3) unfolding committed_in_def by blast
  have ok: "valid_ip (first ?n)" "distinct (map fst (snd x))" "rl_inv (stored (first ?n) (snd x))" "pooled (first ?n) (stored (first ?n) (snd x))"
    using store_okD [OF assms(2) c(3)] c(1) by (simp_all add: pool_ok_def)
  obtain fresh w2 where get: "GetExistingIPPool k ipam (ca_poolID c) w1 = (Inr fresh, w2)" "untouched (pools w1) (pools w2)"
      "holds (ki_Namespace ipam) first ?n fresh" "copy_of x (kp_pool fresh)"
    using read_existing [OF assms(1) c(3), of w1 x] c(1) first(3) by metis
  have v: "mset (map res_view (Allocations fresh)) = mset (map res_view (stored (first ?n) (snd x)))"
    using copy_view [OF get(4) ok(2)] get(3) by (simp add: holds_def)
  have A: "rl_inv (Allocations fresh)" "pooled (first ?n) (Allocations fresh)" "entry_of c \<in> set (map res_view (Allocations fresh))"
    using rl_inv_view [OF v] pooled_view [OF v] mset_eq_setD [OF v] ok(3,4) c(5) by simp_all
  let ?rl = "filter (\<lambda>r. \<not> rollbackAllocationMatches c r) (Allocations fresh)"
  obtain e kp2 w3 where u: "Update k fresh ?rl w2 = (e, kp2, w3)" by (metis prod_cases3)
  have x2: "pools w2 ?n = Some x" using untouched_Some [OF get(2)] c(1) first(3) by simp
  obtain y where y: "e = None" "pools w3 = (pools w2)(?n \<mapsto> y)" "distinct (map fst (snd y))"
      "mset (map res_view (stored (first ?n) (snd y))) = mset (map res_view ?rl)"
    using quiet_update [OF assms(1) get(3) x2 get(4) ok(2,1) rl_inv_filter [OF A(1)] pooled_filter [OF A(2)] u] by metis
  have "list_ex (rollbackAllocationMatches c) (Allocations fresh)" using matches_entry [OF A(1) c(4)] A(3) by simp
  then have "rollback_on k c fresh w2 = (Inr (), rollbackOverlappingReservation k c w3)"
    using u y(1) by (simp add: rollback_on_def)
  then have w': "rollback_one k c w = rollbackOverlappingReservation k c w3"
    using first(1,2) get(1) c(2) by (simp add: rollback_one_def rollbackRetries_def eval_nat_numeral)
  have "untouched ((pools w)(?n \<mapsto> y)) (pools w3)" using get(2) unfolding y(2) first(3) by (simp add: untouched_def)
  then have 1: "untouched ((pools w)(?n \<mapsto> y)) (pools (rollback_one k c w))"
    using api_reads.o_rollbackOverlappingReservation [OF quiet_reads [OF assms(1)]] unfolding w' by (rule untouched_trans)
  have 2: "pool_ok (first ?n) y"
    using y(3) rl_inv_view [OF y(4)] pooled_view [OF y(4)] rl_inv_filter [OF A(1)] pooled_filter [OF A(2)] by (simp add: pool_ok_def)
  have "grants (stored (first ?n) (snd y)) = grants ?rl" unfolding grants_def mset_eq_setD [OF y(4)] ..
  also have "\<dots> = without c (grants (Allocations fresh))" by (rule rollback_grants [OF A(1) c(4) A(3)])
  also have "grants (Allocations fresh) = grants (stored (first ?n) (snd x))" unfolding grants_def mset_eq_setD [OF v] ..
  finally have 3: "owners (first ?n) (Some y) = without c (owners (first ?n) (Some x))" by (simp add: owners_def)
  have "only_own cid (ca_podRef c, ca_ifName c) (set (map res_view (Allocations fresh))) (set (map res_view ?rl))"
    by (rule rollback_only_own [OF A(1) c(4)])
  moreover have "entries (first ?n) (Some x) = set (map res_view (Allocations fresh))" "entries (first ?n) (Some y) = set (map res_view ?rl)"
    using mset_eq_setD [OF v] mset_eq_setD [OF y(4)] by (simp_all add: entries_def)
  ultimately have 4: "only_own cid (ca_podRef c, ca_ifName c) (entries (first ?n) (Some x)) (entries (first ?n) (Some y))" by simp
  show thesis by (rule that [OF c(1) 1 2 3 4])
qed

section \<open>Taking back everything\<close>

text \<open>
  A commit of the call: it only made a cluster-wide reservation; or its copy of the pool does not
  have the allocation, when the attempts ran out on addresses that are reserved elsewhere; or it is stored.
\<close>

definition committed_ok :: "KubernetesIPAM \<Rightarrow> string set \<Rightarrow> (string \<Rightarrow> IP) \<Rightarrow> pool_store \<Rightarrow> committedAlloc \<Rightarrow> bool" where
  "committed_ok ipam M first P c \<longleftrightarrow> ca_pool c = None
     \<or> (\<exists>kp. ca_pool c = Some kp \<and> \<not> list_ex (rollbackAllocationMatches c) (Allocations kp)) \<or> committed_in ipam M first P c"

lemma committed_in_cong: "Q (commit_pool c) = P (commit_pool c) \<Longrightarrow> committed_in ipam M first Q c = committed_in ipam M first P c"
  unfolding committed_in_def by simp

lemma committed_in_stored: "committed_in ipam M first P c \<Longrightarrow> P (commit_pool c) = Some (v, []) \<Longrightarrow> False"
  unfolding committed_in_def by (auto simp: stored_def)

lemma committed_in_untouched:
  assumes "untouched P Q"
  shows "committed_in ipam M first Q c = committed_in ipam M first P c"
proof -
  consider "Q (commit_pool c) = P (commit_pool c)" | v where "P (commit_pool c) = None" "Q (commit_pool c) = Some (v, [])"
    using assms unfolding untouched_def by blast
  then show ?thesis
  proof cases
    case 2
    then have "\<not> committed_in ipam M first P c" by (simp add: committed_in_def)
    then show ?thesis using 2(2) committed_in_stored by blast
  qed (rule committed_in_cong)
qed

lemma rollback_one_none:
  assumes "quiet k ns M first pools" "committed_ok ipam M first (pools w) c" "\<not> committed_in ipam M first (pools w) c"
  shows "untouched (pools w) (pools (rollback_one k c w))"
proof (cases "ca_pool c")
  case None
  then show ?thesis
    using api_reads.o_rollbackOverlappingReservation [OF quiet_reads [OF assms(1)]] by (simp add: rollback_one_def)
next
  case (Some kp)
  then have "\<not> list_ex (rollbackAllocationMatches c) (Allocations kp)" using assms(2,3) by (simp add: committed_ok_def)
  then show ?thesis using Some by (simp add: rollback_one_def rollback_on_def untouched_refl)
qed

definition taken_back :: "KubernetesIPAM \<Rightarrow> string set \<Rightarrow> (string \<Rightarrow> IP) \<Rightarrow> pool_store \<Rightarrow> committedAlloc list \<Rightarrow> string \<Rightarrow> bool" where
  "taken_back ipam M first P cs m \<longleftrightarrow> (\<exists>c\<in>set cs. committed_in ipam M first P c \<and> commit_pool c = m)"

abbreviation with_pool :: "committedAlloc list \<Rightarrow> committedAlloc list" where
  "with_pool \<equiv> filter (\<lambda>c. ca_pool c \<noteq> None)"

lemma committed_in_pool: "committed_in ipam M first P c \<Longrightarrow> ca_pool c \<noteq> None"
  by (auto simp: committed_in_def)

lemma rollbackCommitted_effect:
  assumes "quiet k (ki_Namespace ipam) M first pools" "store_ok M first (pools w)"
    and "\<forall>c\<in>set cs. committed_ok ipam M first (pools w) c \<and> (ca_podRef c, ca_ifName c) = ow"
    and "distinct (map commit_pool (with_pool cs))"
  shows "owners (first m) (pools (rollbackCommitted k cs w) m)
    = (if taken_back ipam M first (pools w) cs m then {g \<in> owners (first m) (pools w m). snd g \<noteq> ow} else owners (first m) (pools w m))
    \<and> only_own cid ow (entries (first m) (pools w m)) (entries (first m) (pools (rollbackCommitted k cs w) m))
    \<and> store_ok M first (pools (rollbackCommitted k cs w))"
  using assms(2-4)
proof (induction cs arbitrary: w)
  case (Cons c cs)
  let ?w = "rollback_one k c w"
  have c: "committed_ok ipam M first (pools w) c" "(ca_podRef c, ca_ifName c) = ow" using Cons.prems(2) by auto
  have d: "distinct (map commit_pool (with_pool cs))" using Cons.prems(3) by (simp split: if_splits)
  have "store_ok M first (pools ?w) \<and> (\<forall>c'\<in>set cs. committed_in ipam M first (pools ?w) c' = committed_in ipam M first (pools w) c')
    \<and> owners (first m) (pools ?w m) = (if committed_in ipam M first (pools w) c \<and> commit_pool c = m
        then {g \<in> owners (first m) (pools w m). snd g \<noteq> ow} else owners (first m) (pools w m))
    \<and> only_own cid ow (entries (first m) (pools w m)) (entries (first m) (pools ?w m))"
  proof (cases "committed_in ipam M first (pools w) c")
    case True
    obtain x y where e: "pools w (commit_pool c) = Some x" "untouched ((pools w)(commit_pool c \<mapsto> y)) (pools ?w)" "pool_ok (first (commit_pool c)) y"
        "owners (first (commit_pool c)) (Some y) = without c (owners (first (commit_pool c)) (Some x))"
        "only_own cid (ca_podRef c, ca_ifName c) (entries (first (commit_pool c)) (Some x)) (entries (first (commit_pool c)) (Some y))"
      by (rule rollback_one_effect [OF assms(1) Cons.prems(1) True, of cid])
    have "committed_in ipam M first (pools ?w) c' = committed_in ipam M first (pools w) c'" if c': "c' \<in> set cs" for c'
    proof (cases "ca_pool c' = None")
      case True
      then show ?thesis using committed_in_pool by blast
    next
      case False
      then have "commit_pool c' \<noteq> commit_pool c"
        using Cons.prems(3) c' committed_in_pool [OF \<open>committed_in ipam M first (pools w) c\<close>] by (auto simp: image_iff)
      then have "((pools w)(commit_pool c \<mapsto> y)) (commit_pool c') = pools w (commit_pool c')" by simp
      then show ?thesis unfolding committed_in_untouched [OF e(2)] by (rule committed_in_cong)
    qed
    moreover have "store_ok M first (pools ?w)" by (rule untouched_ok [OF e(2) store_ok_write [OF Cons.prems(1) e(3)]])
    moreover have "owners (first m) (pools ?w m) = (if commit_pool c = m then {g \<in> owners (first m) (pools w m). snd g \<noteq> ow} else owners (first m) (pools w m))"
    proof (cases "commit_pool c = m")
      case True
      then show ?thesis using untouched_owners [OF e(2), of "first m" m] e(1,4) c(2) by simp
    qed (use untouched_owners [OF e(2), of "first m" m] in simp)
    moreover have "only_own cid ow (entries (first m) (pools w m)) (entries (first m) (pools ?w m))"
      using untouched_entries [OF e(2), of "first m" m] e(1,5) c(2) only_own_refl by (cases "commit_pool c = m") auto
    ultimately show ?thesis using True by simp
  next
    case False
    have u: "untouched (pools w) (pools ?w)" by (rule rollback_one_none [OF assms(1) c(1) False])
    then show ?thesis
      using untouched_ok [OF u Cons.prems(1)] committed_in_untouched [OF u] untouched_owners [OF u] untouched_entries [OF u] only_own_refl False by simp
  qed
  note step = this
  have ok: "\<forall>c\<in>set cs. committed_ok ipam M first (pools ?w) c \<and> (ca_podRef c, ca_ifName c) = ow"
    using Cons.prems(2) step by (simp add: committed_ok_def)
  have t: "taken_back ipam M first (pools ?w) cs m = taken_back ipam M first (pools w) cs m"
    unfolding taken_back_def using step by (intro bex_cong refl) simp
  have "owners (first m) (pools (rollbackCommitted k (c # cs) w) m)
    = (if taken_back ipam M first (pools w) cs m then {g \<in> owners (first m) (pools ?w m). snd g \<noteq> ow} else owners (first m) (pools ?w m))"
    using conjunct1 [OF Cons.IH [OF conjunct1 [OF step] ok d]] t by simp
  also have "\<dots> = (if taken_back ipam M first (pools w) (c # cs) m then {g \<in> owners (first m) (pools w m). snd g \<noteq> ow} else owners (first m) (pools w m))"
  proof -
    have "taken_back ipam M first (pools w) (c # cs) m
      \<longleftrightarrow> committed_in ipam M first (pools w) c \<and> commit_pool c = m \<or> taken_back ipam M first (pools w) cs m" by (simp add: taken_back_def)
    then show ?thesis unfolding conjunct1 [OF conjunct2 [OF conjunct2 [OF step]]] by auto
  qed
  finally have "owners (first m) (pools (rollbackCommitted k (c # cs) w) m)
    = (if taken_back ipam M first (pools w) (c # cs) m then {g \<in> owners (first m) (pools w m). snd g \<noteq> ow} else owners (first m) (pools w m))" .
  moreover have "only_own cid ow (entries (first m) (pools w m)) (entries (first m) (pools (rollbackCommitted k (c # cs) w) m))"
    using only_own_trans [of cid ow "entries (first m) (pools w m)" "entries (first m) (pools ?w m)"] step Cons.IH [OF conjunct1 [OF step] ok d] by simp
  ultimately show ?case using Cons.IH [OF conjunct1 [OF step] ok d] by simp
qed (simp add: taken_back_def only_own_refl)

section \<open>One attempt\<close>

text \<open>What is assigned, and whether the allocation is new.\<close>

lemma assigned_owner:
  assumes "AssignIP conf (A @ map dummy ds) c q i = Some (Inr (ipn, rl))" "rl_inv A" "pooled f A" "kept A = A"
    "range_ok f N conf" "list_all valid_ip ds" "q \<noteq> []"
  shows "rl_inv (kept rl)" "pooled f (kept rl)" "grants (kept rl) = insert (ip_addr (net_IP ipn), q, i) (grants A)"
    and "allocationAlreadyInPool A (net_IP ipn) q i \<Longrightarrow> (ip_addr (net_IP ipn), q, i) \<in> grants A"
    and "\<not> allocationAlreadyInPool A (net_IP ipn) q i \<Longrightarrow>
      (\<forall>r\<in>set A. (ir_PodRef r, ir_IfName r) \<noteq> (q, i)) \<and> (ip_addr (net_IP ipn), c, q, i) \<in> set (map res_view (kept rl))"
proof -
  let ?ex = "\<exists>r\<in>set (A @ map dummy ds). ir_PodRef r = q \<and> ir_IfName r = i"
  have t: "rl_inv (kept rl) \<and> pooled f (kept rl) \<and> grants (kept rl) = insert (ip_addr (net_IP ipn), q, i) (grants A)
      \<and> entered N (Held (ip_addr (net_IP ipn)) c q i) (ledger_of A) (ledger_of (kept rl))"
    using take_new [OF assms(2-6,1)] take_existing [OF assms(2-4,7,1)] by blast
  then show "rl_inv (kept rl)" "pooled f (kept rl)" "grants (kept rl) = insert (ip_addr (net_IP ipn), q, i) (grants A)" by simp_all
  have v: "valid_ip (net_IP ipn)" by (rule assigned_valid [OF assms(1,2,5-7)])
  have va: "valid_ip (ir_IP r)" if "r \<in> set A" for r using assms(2) that by (simp add: rl_inv_def reservations_valid_def list_all_iff)
  show "(ip_addr (net_IP ipn), q, i) \<in> grants A" if old: "allocationAlreadyInPool A (net_IP ipn) q i"
  proof -
    obtain r where r: "r \<in> set A" "IP_Equal (ir_IP r) (net_IP ipn)" "ir_PodRef r = q" "ir_IfName r = i"
      using old by (auto simp: allocationAlreadyInPool_def list_ex_iff)
    then have "ip_addr (ir_IP r) = ip_addr (net_IP ipn)" using IP_Equal_addr [OF va v] by blast
    then show ?thesis using r by (force simp: grants_def res_view_def)
  qed
  assume new: "\<not> allocationAlreadyInPool A (net_IP ipn) q i"
  have no: "\<not> ?ex"
  proof
    assume ?ex
    from AssignIP_existing [OF assms(1) this] obtain r where r: "r \<in> set (A @ map dummy ds)" "net_IP ipn = ir_IP r" "ir_PodRef r = q" "ir_IfName r = i"
      by (metis in_set_conv_decomp)
    then have "r \<in> set A" using assms(7) by (auto simp: dummy_def)
    then show False using new r va IP_Equal_addr [of "ir_IP r" "ir_IP r"] by (auto simp: allocationAlreadyInPool_def list_ex_iff)
  qed
  obtain ex where ok: "ParseCIDR (rc_Range conf) = Inr (f, N)" "good_net N"
      "parseExcludedRanges (rc_OmitRanges conf) = Inr ex" "list_all good_net ex" "addresses_valid conf"
    using assms(5) by (auto simp: range_ok_def split: sum.splits)
  have "reservations_valid (A @ map dummy ds)" using assms(2,6) by (auto simp: rl_inv_def reservations_valid_def list_all_iff)
  from AssignIP_new [OF assms(1) ok this no] have "rl = (A @ map dummy ds) @ [new_reservation (net_IP ipn) c q i]" by blast
  then have "(ip_addr (net_IP ipn), c, q, i) \<in> set (map res_view (kept rl))" by (simp add: new_reservation_def res_view_def)
  then show "(\<forall>r\<in>set A. (ir_PodRef r, ir_IfName r) \<noteq> (q, i)) \<and> (ip_addr (net_IP ipn), c, q, i) \<in> set (map res_view (kept rl))" using no by auto
qed

lemma assigned_only_own:
  assumes "AssignIP conf (A @ map dummy ds) c q i = Some (Inr (ipn, rl))" "rl_inv A" "kept A = A" "range_ok f N conf" "list_all valid_ip ds" "q \<noteq> []"
  shows "only_own c (q, i) (set (map res_view A)) (set (map res_view (kept rl)))"
proof (cases "\<exists>r\<in>set (A @ map dummy ds). ir_PodRef r = q \<and> ir_IfName r = i")
  case True
  obtain xs r ys where e: "A @ map dummy ds = xs @ r # ys" "rl = xs @ r\<lparr>ir_ContainerID := c\<rparr> # ys" "ir_PodRef r = q" "ir_IfName r = i"
    using AssignIP_existing [OF assms(1) True] by blast
  have "r \<in> set (A @ map dummy ds)" using e(1) by simp
  then have "r \<in> set A" using assms(6) e(3) by (auto simp: dummy_def)
  then have r: "\<not> ir_IsAllocated r" using assms(3) by (auto simp: filter_id_conv)
  have "A = kept (A @ map dummy ds)" using assms(3) kept_dummies by simp
  then have A: "A = kept xs @ r # kept ys" unfolding e(1) using r by simp
  have "kept rl = kept xs @ r\<lparr>ir_ContainerID := c\<rparr> # kept ys" using r by (simp add: e(2))
  moreover have "snd (snd (res_view r)) = (q, i)" "snd (snd (res_view (r\<lparr>ir_ContainerID := c\<rparr>))) = (q, i)" "fst (snd (res_view (r\<lparr>ir_ContainerID := c\<rparr>))) = c"
    using e(3,4) by (simp_all add: res_view_def)
  ultimately show ?thesis by (subst A) (auto simp: only_own_def)
next
  case False
  obtain ex where ok: "ParseCIDR (rc_Range conf) = Inr (f, N)" "good_net N"
      "parseExcludedRanges (rc_OmitRanges conf) = Inr ex" "list_all good_net ex" "addresses_valid conf"
    using assms(4) by (auto simp: range_ok_def split: sum.splits)
  have "reservations_valid (A @ map dummy ds)" using assms(2,5) by (auto simp: rl_inv_def reservations_valid_def list_all_iff)
  from AssignIP_new [OF assms(1) ok this False] have "rl = (A @ map dummy ds) @ [new_reservation (net_IP ipn) c q i]" by blast
  then have "kept rl = A @ [new_reservation (net_IP ipn) c q i]" using assms(3) kept_dummies by (simp add: new_reservation_def)
  moreover have "snd (res_view (new_reservation (net_IP ipn) c q i)) = (c, q, i)" by (simp add: res_view_def)
  ultimately show ?thesis by (auto simp: only_own_def)
qed

definition elsewhere :: "string \<Rightarrow> pool_store \<Rightarrow> pool_store \<Rightarrow> bool" where
  "elsewhere n P Q \<longleftrightarrow> untouched (P(n := None)) (Q(n := None))"

lemma elsewhere_untouched: "untouched P Q \<Longrightarrow> elsewhere n P Q"
  by (simp add: elsewhere_def untouched_def)

lemma elsewhere_trans: "elsewhere n P Q \<Longrightarrow> elsewhere n Q S \<Longrightarrow> elsewhere n P S"
  unfolding elsewhere_def by (rule untouched_trans)

lemma elsewhere_write: "elsewhere n P (P(n \<mapsto> y))"
  by (simp add: elsewhere_def untouched_refl)

lemma elsewhere_owners: "elsewhere n P Q \<Longrightarrow> m \<noteq> n \<Longrightarrow> owners f (Q m) = owners f (P m)"
  unfolding elsewhere_def using untouched_owners [of "P(n := None)" "Q(n := None)" f m] by simp

lemma elsewhere_committed:
  assumes "elsewhere n P Q" "commit_pool c \<noteq> n"
  shows "committed_in ipam M first Q c = committed_in ipam M first P c"
proof -
  have "committed_in ipam M first (Q(n := None)) c = committed_in ipam M first (P(n := None)) c"
    using assms(1) unfolding elsewhere_def by (rule committed_in_untouched)
  moreover have "committed_in ipam M first (P(n := None)) c = committed_in ipam M first P c"
    "committed_in ipam M first (Q(n := None)) c = committed_in ipam M first Q c" by (rule committed_in_cong, use assms(2) in simp)+
  ultimately show ?thesis by simp
qed

text \<open>The commit that a finished range records for its allocation.\<close>

definition commit_in_pool :: "KubernetesIPAM \<Rightarrow> IPAMConfig \<Rightarrow> loop_state \<Rightarrow> committedAlloc" where
  "commit_in_pool ipam conf st = (commit_of ipam conf st)\<lparr>ca_pool := ls_pool st, ca_poolID := ls_poolID st, ca_ipam := Some ipam\<rparr>"

lemma commit_in_pool_simps [simp]:
  "ca_pool (commit_in_pool ipam conf st) = ls_pool st" "ca_poolID (commit_in_pool ipam conf st) = ls_poolID st"
  "ca_ipam (commit_in_pool ipam conf st) = Some ipam" "ca_podRef (commit_in_pool ipam conf st) = GetPodRef conf"
  "ca_ifName (commit_in_pool ipam conf st) = ki_IfName ipam"
  "entry_of (commit_in_pool ipam conf st) = (ip_addr (net_IP (ls_newip st)), ki_ContainerID ipam, GetPodRef conf, ki_IfName ipam)"
  by (simp_all add: commit_in_pool_def commit_of_def entry_of_def)

text \<open>The state of a range after an address has been assigned on a current copy of the pool \<open>x\<close>.\<close>

definition assigned_on :: "KubernetesIPAM \<Rightarrow> IPAMConfig \<Rightarrow> IP \<Rightarrow> KubernetesIPPool \<Rightarrow> loop_state \<Rightarrow> bool" where
  "assigned_on ipam conf f kp st \<longleftrightarrow> (let o' = (ip_addr (net_IP (ls_newip st)), GetPodRef conf, ki_IfName ipam) in
     \<not> ls_skipPool st \<and> rl_inv (kept (ls_updated st)) \<and> pooled f (kept (ls_updated st))
     \<and> grants (kept (ls_updated st)) = insert o' (grants (Allocations kp))
     \<and> only_own (ki_ContainerID ipam) (snd o') (set (map res_view (Allocations kp))) (set (map res_view (kept (ls_updated st))))
     \<and> (if ls_allocationCreated st
        then (\<forall>g\<in>grants (Allocations kp). snd g \<noteq> snd o')
          \<and> (fst o', ki_ContainerID ipam, snd o') \<in> set (map res_view (kept (ls_updated st)))
        else o' \<in> grants (Allocations kp)))"

lemma quiet_write:
  assumes "quiet k (ki_Namespace ipam) M first pools" "store_ok M first (pools w)" "n \<in> M" "IPPoolName (ls_poolID st) = n"
    and "holds (ki_Namespace ipam) first n kp" "pools w n = Some x" "copy_of x (kp_pool kp)" "assigned_on ipam conf (first n) kp st"
    and "phase_update k conf kp st w = (fl, st', w')"
  shows "fl = Next_phase \<and> store_ok M first (pools w') \<and> elsewhere n (pools w) (pools w') \<and> others_kept ipam conf first (pools w) (pools w')
    \<and> owners (first n) (pools w' n) = insert (ip_addr (net_IP (ls_newip st)), GetPodRef conf, ki_IfName ipam) (owners (first n) (pools w n))
    \<and> (ls_allocationCreated st \<longrightarrow> committed_in ipam M first (pools w') (commit_in_pool ipam conf st'))
    \<and> (\<exists>kp'. st' = st\<lparr>ls_pool := Some kp', ls_err := None\<rparr>)"
proof -
  have ok: "valid_ip (first n)" "pool_ok (first n) x" using store_okD [OF assms(2,3)] assms(6) by simp_all
  then have dx: "distinct (map fst (snd x))" by (simp add: pool_ok_def)
  have a: "\<not> ls_skipPool st" "rl_inv (kept (ls_updated st))" "pooled (first n) (kept (ls_updated st))"
    "grants (kept (ls_updated st)) = insert (ip_addr (net_IP (ls_newip st)), GetPodRef conf, ki_IfName ipam) (grants (Allocations kp))"
    using assms(8) by (simp_all add: assigned_on_def Let_def)
  obtain e kp' w1 w2 where u: "untouched (pools w) (pools w1)" "Update k kp (kept (ls_updated st)) w1 = (e, kp', w2)"
      "fl = Next_phase \<Longrightarrow> e = None \<and> w' = w2 \<and> st' = st\<lparr>ls_pool := Some kp', ls_err := None\<rparr>" "fl \<noteq> Next_phase \<Longrightarrow> e \<noteq> None"
    using phase_update_cases [OF assms(9) a(1) quiet_reads [OF assms(1)]] by metis
  have x1: "pools w1 n = Some x" by (rule untouched_Some [OF u(1) assms(6)])
  obtain y where y: "e = None" "pools w2 = (pools w1)(n \<mapsto> y)" "fst x < fst y" "distinct (map fst (snd y))"
      "mset (map res_view (stored (first n) (snd y))) = mset (map res_view (kept (ls_updated st)))"
      "mset (map res_view (Allocations kp')) = mset (map res_view (kept (ls_updated st)))" "holds (ki_Namespace ipam) first n kp'"
      "ip_Meta (kp_pool kp') = ip_Meta (kp_pool kp)"
    using quiet_update [OF assms(1,5) x1 assms(7) dx ok(1) a(2,3) u(2)] by metis
  have s: "fl = Next_phase" "w' = w2" "st' = st\<lparr>ls_pool := Some kp', ls_err := None\<rparr>" using u(3,4) y(1) by auto
  have "pool_ok (first n) y" using y(4) rl_inv_view [OF y(5)] pooled_view [OF y(5)] a(2,3) by (simp add: pool_ok_def)
  then have 1: "store_ok M first (pools w')" unfolding s(2) y(2) by (rule store_ok_write [OF untouched_ok [OF u(1) assms(2)]])
  have 2: "elsewhere n (pools w) (pools w')"
    unfolding s(2) y(2) by (rule elsewhere_trans [OF elsewhere_untouched [OF u(1)] elsewhere_write])
  have "grants (stored (first n) (snd y)) = grants (kept (ls_updated st))" unfolding grants_def mset_eq_setD [OF y(5)] ..
  moreover have "grants (Allocations kp) = grants (stored (first n) (snd x))"
    using copy_owners [OF assms(5,7) ok(2)] by (simp add: owners_def)
  ultimately have 3: "owners (first n) (pools w' n) = insert (ip_addr (net_IP (ls_newip st)), GetPodRef conf, ki_IfName ipam) (owners (first n) (pools w n))"
    using a(4) by (simp add: owners_def s(2) y(2) assms(6))
  have "committed_in ipam M first (pools w') (commit_in_pool ipam conf st')" if "ls_allocationCreated st"
  proof -
    have e: "entry_of (commit_in_pool ipam conf st') \<in> set (map res_view (kept (ls_updated st)))"
      using assms(8) that by (simp add: assigned_on_def Let_def s(3))
    have v: "om_ResourceVersion (ip_Meta (kp_pool kp')) = dec (fst x)" using assms(7) y(8) by (simp add: copy_of_def)
    have kp': "rl_inv (Allocations kp')" "pooled (first n) (Allocations kp')" "entry_of (commit_in_pool ipam conf st') \<in> set (map res_view (Allocations kp'))"
      "entry_of (commit_in_pool ipam conf st') \<in> set (map res_view (stored (first n) (snd y)))"
      using rl_inv_view [OF y(6)] pooled_view [OF y(6)] mset_eq_setD [OF y(6)] mset_eq_setD [OF y(5)] a(2,3) e by simp_all
    have "commit_pool (commit_in_pool ipam conf st') = n" "ca_pool (commit_in_pool ipam conf st') = Some kp'"
      "ca_podRef (commit_in_pool ipam conf st') \<noteq> []" using assms(4) by (simp_all add: s(3))
    moreover have "pools w' n = Some y" by (simp add: s(2) y(2))
    ultimately show ?thesis using assms(3) y(3,7) v kp' unfolding committed_in_def by (metis commit_in_pool_simps(3))
  qed
  moreover have "others_kept ipam conf first (pools w) (pools w')"
  proof -
    have "only_own (ki_ContainerID ipam) (GetPodRef conf, ki_IfName ipam) (set (map res_view (Allocations kp))) (set (map res_view (kept (ls_updated st))))"
      using assms(8) by (simp add: assigned_on_def Let_def)
    moreover have "set (map res_view (Allocations kp)) = entries (first n) (pools w1 n)"
      using mset_eq_setD [OF copy_view [OF assms(7) dx]] assms(5) x1 by (simp add: entries_def holds_def)
    moreover have "entries (first n) (Some y) = set (map res_view (kept (ls_updated st)))" using mset_eq_setD [OF y(5)] by (simp add: entries_def)
    ultimately have "others_kept ipam conf first (pools w1) (pools w')" unfolding s(2) y(2) by (intro others_write) simp
    then show ?thesis by (rule others_trans [OF others_untouched [OF u(1)]])
  qed
  ultimately show ?thesis using s 1 2 3 by blast
qed

lemma quiet_reserve:
  assumes "quiet k (ki_Namespace ipam) M first pools" "store_ok M first (pools w)" "IPPoolName (ls_poolID st) = n" "ls_err st = None" "ls_pool st \<noteq> None"
    and "owners (first n) (pools w n) = insert (a, GetPodRef conf, ki_IfName ipam) S"
    and "if ls_allocationCreated st then committed_in ipam M first (pools w) (commit_in_pool ipam conf st) \<and> (\<forall>g\<in>S. snd g \<noteq> (GetPodRef conf, ki_IfName ipam))
         else (a, GetPodRef conf, ki_IfName ipam) \<in> S"
    and "phase_reserve k Allocate ipam conf st w = (fl, st', w')"
  shows "store_ok M first (pools w') \<and> elsewhere n (pools w) (pools w') \<and> others_kept ipam conf first (pools w) (pools w')
    \<and> (if fl = Break_loop \<and> ls_err st' = None
       then untouched (pools w) (pools w') \<and> ls_allocationCreated st' = ls_allocationCreated st \<and> ls_newip st' = ls_newip st
         \<and> commit_in_pool ipam conf st' = commit_in_pool ipam conf st
       else owners (first n) (pools w' n) = S)"
proof (cases "ic_OverlappingRanges conf \<and> \<not> ls_skipOverlapping st")
  case False
  then have "fl = Break_loop" "st' = st" "w' = w" using assms(8) by (auto simp: phase_reserve_def split: if_splits)
  then show ?thesis using assms(2,4) by (simp add: untouched_refl elsewhere_untouched others_untouched)
next
  case True
  note reads = quiet_reads [OF assms(1)]
  obtain e w1 where u: "UpdateOverlappingRangeAllocation k (ki_Namespace ipam) Allocate (ls_ipfor st) (GetPodRef conf)
      (ki_IfName ipam) (ic_NetworkName conf) (ic_PodUID conf) w = (e, w1)" by fastforce
  have u1: "untouched (pools w) (pools w1)" using api_reads.o_update_orip [OF reads u] .
  show ?thesis
  proof (cases e)
    case None
    then have "fl = Break_loop" "w' = w1" "st' = st\<lparr>ls_err := None, ls_overlappingReservationCreated := True\<rparr>"
      using assms(8) True u by (simp_all add: phase_reserve_def)
    then show ?thesis using u1 untouched_ok [OF u1 assms(2)] elsewhere_untouched [OF u1] others_untouched [OF u1] by (simp add: commit_in_pool_def commit_of_def)
  next
    case (Some er)
    let ?c = "commit_in_pool ipam conf st"
    define w2 where "w2 = (if ls_allocationCreated st then rollbackCommitted k [?c] w1 else w1)"
    have "(fl, st', w') = (if isRetryableRollbackError er then backoff_continue k (st\<lparr>ls_err := Some er\<rparr>) w2 else (Break_loop, st\<lparr>ls_err := Some er\<rparr>, w2))"
      using assms(5,8) True u Some unfolding w2_def
      by (cases "ls_allocationCreated st"; cases "isRetryableRollbackError er")
        (auto simp: phase_reserve_def Let_def commit_in_pool_def commit_of_def)
    then have fl: "\<not> (fl = Break_loop \<and> ls_err st' = None)" "untouched (pools w2) (pools w')"
      using api_reads.o_backoff [OF reads, of "st\<lparr>ls_err := Some er\<rparr>" w2] untouched_refl
      by (auto simp: backoff_continue_def split: if_splits)
    have ok1: "store_ok M first (pools w1)" by (rule untouched_ok [OF u1 assms(2)])
    have o1: "owners (first n) (pools w1 n) = insert (a, GetPodRef conf, ki_IfName ipam) S" using untouched_owners [OF u1] assms(6) by simp
    have "store_ok M first (pools w2) \<and> elsewhere n (pools w1) (pools w2) \<and> others_kept ipam conf first (pools w1) (pools w2) \<and> owners (first n) (pools w2 n) = S"
    proof (cases "ls_allocationCreated st")
      case False
      then show ?thesis using assms(7) ok1 o1 by (auto simp: w2_def elsewhere_untouched others_untouched untouched_refl)
    next
      case created: True
      then have "committed_in ipam M first (pools w1) ?c" using assms(7) committed_in_untouched [OF u1] by simp
      note taken = rollback_one_effect [OF assms(1) ok1 this, unfolded commit_in_pool_simps assms(3)]
      have w2: "w2 = rollback_one k ?c w1" using created by (simp add: w2_def)
      obtain x y where e: "pools w1 n = Some x" "untouched ((pools w1)(n \<mapsto> y)) (pools w2)"
          "pool_ok (first n) y" "owners (first n) (Some y) = {g \<in> owners (first n) (Some x). snd g \<noteq> (GetPodRef conf, ki_IfName ipam)}"
          "only_own (ki_ContainerID ipam) (GetPodRef conf, ki_IfName ipam) (entries (first n) (Some x)) (entries (first n) (Some y))"
        unfolding w2 by (rule taken)
      have "owners (first n) (pools w2 n) = S"
        using untouched_owners [OF e(2), of "first n" n] e(1,4) o1 assms(7) created by auto
      moreover have "others_kept ipam conf first (pools w1) (pools w2)"
        by (rule others_trans [OF others_write others_untouched [OF e(2)]]) (simp add: e(1,5))
      ultimately show ?thesis
        using untouched_ok [OF e(2) store_ok_write [OF ok1 e(3)]] elsewhere_trans [OF elsewhere_write elsewhere_untouched [OF e(2)]] by blast
    qed
    then have w2: "store_ok M first (pools w2)" "elsewhere n (pools w1) (pools w2)" "others_kept ipam conf first (pools w1) (pools w2)" "owners (first n) (pools w2 n) = S"
      by simp_all
    have "elsewhere n (pools w) (pools w')" by (rule elsewhere_trans [OF elsewhere_trans [OF elsewhere_untouched [OF u1] w2(2)] elsewhere_untouched [OF fl(2)]])
    moreover have "others_kept ipam conf first (pools w) (pools w')" by (rule others_trans [OF others_trans [OF others_untouched [OF u1] w2(3)] others_untouched [OF fl(2)]])
    moreover have "owners (first n) (pools w' n) = S" using untouched_owners [OF fl(2)] w2(4) by simp
    ultimately show ?thesis using fl(1) untouched_ok [OF fl(2) w2(1)] by auto
  qed
qed

text \<open>
  An attempt that succeeds adds the pod's reservation to the pool, or finds it there; any other
  attempt leaves the reservations as they are. When it asks for another attempt without an error,
  the pod has no reservation in the copy.
\<close>

definition range_done :: "KubernetesIPAM \<Rightarrow> IPAMConfig \<Rightarrow> string set \<Rightarrow> (string \<Rightarrow> IP) \<Rightarrow> pool_store \<Rightarrow> loop_state \<Rightarrow> pool_store \<Rightarrow> bool" where
  "range_done ipam conf M first P st Q \<longleftrightarrow> (let n = commit_pool (commit_in_pool ipam conf st);
       ow = (GetPodRef conf, ki_IfName ipam); o' = (ip_addr (net_IP (ls_newip st)), ow) in
     owners (first n) (Q n) = insert o' (owners (first n) (P n))
     \<and> (if ls_allocationCreated st then committed_in ipam M first Q (commit_in_pool ipam conf st) \<and> (\<forall>g\<in>owners (first n) (P n). snd g \<noteq> ow)
        else o' \<in> owners (first n) (P n)))"

definition no_owner :: "KubernetesIPAM \<Rightarrow> IPAMConfig \<Rightarrow> loop_state \<Rightarrow> bool" where
  "no_owner ipam conf st \<longleftrightarrow> (\<exists>kp. ls_pool st = Some kp \<and> (\<forall>r\<in>set (Allocations kp). (ir_PodRef r, ir_IfName r) \<noteq> (GetPodRef conf, ki_IfName ipam)))"

lemma phase_assign_created:
  assumes "phase_assign k ipam conf pref kp st w = (fl, st', w')"
  shows "fl = Next_phase \<or> fl = Continue \<Longrightarrow>
      ls_allocationCreated st' = (\<not> allocationAlreadyInPool (Allocations kp) (net_IP (ls_newip st')) (GetPodRef conf) (ki_IfName ipam))"
    "ls_pool st' = ls_pool st" "fl = Continue \<Longrightarrow> ls_err st' = None"
  using assms unfolding phase_assign_def phase_overlap_def Let_def
  by (auto split: sum.splits prod.splits option.splits if_splits)

lemma assigned_copy:
  assumes "holds ns first n kp" "copy_of x (kp_pool kp)" "pool_ok (first n) x" "range_ok (first n) N (ls_ipRange st)" "nil_or_valid pref"
    "ls_overlapping st = map dummy ds" "list_all valid_ip ds" "\<not> ls_skipPool st" "ls_pool st = Some kp"
    "phase_assign k ipam conf pref kp st w = (fl, st', w')" "fl = Next_phase \<or> fl = Continue"
  shows "assigned_on ipam conf (first n) kp st'" "valid_ip (net_IP (ls_newip st'))"
    "ls_allocationCreated st' \<Longrightarrow> no_owner ipam conf st'"
proof -
  have v: "mset (map res_view (Allocations kp)) = mset (map res_view (stored (first n) (snd x)))"
    using copy_view [OF assms(2)] assms(1,3) by (simp add: pool_ok_def holds_def)
  have A: "rl_inv (Allocations kp)" "pooled (first n) (Allocations kp)" "kept (Allocations kp) = Allocations kp"
    using rl_inv_view [OF v] pooled_view [OF v] assms(3) kept_Allocations [of "\<lambda>_. True" kp] by (simp_all add: pool_ok_def)
  note a = phase_assign_facts [OF assms(10,4,5)] and cr = phase_assign_created [OF assms(10)]
  note own = assigned_owner [OF a(3) [OF assms(11), unfolded assms(6)] A a(1) assms(7) GetPodRef_not_Nil]
  show "valid_ip (net_IP (ls_newip st'))" by (rule assigned_valid [OF a(3) [OF assms(11), unfolded assms(6)] A(1) a(1) assms(7) GetPodRef_not_Nil])
  have g: "\<forall>g\<in>grants (Allocations kp). snd g \<noteq> (GetPodRef conf, ki_IfName ipam)" if "ls_allocationCreated st'"
    using own(5) cr(1) [OF assms(11)] that by (auto simp: grants_def res_view_def)
  show "assigned_on ipam conf (first n) kp st'"
    using own(1-4) own(5) g cr(1) [OF assms(11)] a(6) assms(8)
      assigned_only_own [OF a(3) [OF assms(11), unfolded assms(6)] A(1,3) a(1) assms(7) GetPodRef_not_Nil] by (simp add: assigned_on_def Let_def)
  show "no_owner ipam conf st'" if "ls_allocationCreated st'"
    using own(5) cr(1) [OF assms(11)] cr(2) assms(9) that by (simp add: no_owner_def)
qed

lemma quiet_attempt:
  assumes "quiet k (ki_Namespace ipam) M first pools" "store_ok M first (pools w)" "n \<in> M" "ic_NodeSliceSize conf = []"
    "n = IPPoolName \<lparr> pi_IPRange = rc_Range (ls_ipRange st), pi_NetworkName = ic_NetworkName conf, pi_NodeName = [] \<rparr>"
    "range_ok (first n) N (ls_ipRange st)" "nil_or_valid pref" "ls_overlapping st = map dummy ds" "list_all valid_ip ds"
    "attempt k env Allocate ipam conf pref st w = (fl, st', w')"
  shows "store_ok M first (pools w') \<and> elsewhere n (pools w) (pools w') \<and> others_kept ipam conf first (pools w) (pools w')
    \<and> (if fl = Break_loop \<and> ls_err st' = None then IPPoolName (ls_poolID st') = n \<and> range_done ipam conf M first (pools w) st' (pools w')
       else owners (first n) (pools w' n) = owners (first n) (pools w n))
    \<and> (fl = Continue \<and> ls_err st' = None \<and> ls_allocationCreated st' \<longrightarrow> no_owner ipam conf st' \<and> IPPoolName (ls_poolID st') = n)
    \<and> (fl = Continue \<and> ls_err st' = None \<longrightarrow> valid_ip (net_IP (ls_newip st')))
    \<and> range_ok (first n) N (ls_ipRange st') \<and> rc_Range (ls_ipRange st') = rc_Range (ls_ipRange st)
    \<and> (\<exists>ds'. ls_overlapping st' = map dummy ds' \<and> list_all valid_ip ds')"
proof -
  note reads = quiet_reads [OF assms(1)]
  obtain f1 st1 w1 f2 st2 w2 f3 st3 w3 f4 st4 w4 f5 st5 w5 where
    p: "phase_range k env ipam conf st w = (f1, st1, w1)" "phase_pool k Allocate ipam st1 w1 = (f2, st2, w2)"
      "phase_assign k ipam conf pref (the (ls_pool st2)) st2 w2 = (f3, st3, w3)"
      "phase_update k conf (the (ls_pool st2)) st3 w3 = (f4, st4, w4)" "phase_reserve k Allocate ipam conf st4 w4 = (f5, st5, w5)"
    and run: "(fl, st', w') = (if f1 \<noteq> Next_phase then (f1, st1, w1) else if f2 \<noteq> Next_phase then (f2, st2, w2)
      else if f3 \<noteq> Next_phase then (f3, st3, w3) else if f4 \<noteq> Next_phase then (f4, st4, w4) else (f5, st5, w5))"
    by (rule attempt_eq [of k env ipam conf st w Allocate pref]; rule that) (use assms(10) in simp_all)
  have u: "untouched (pools w) (pools w1)" "untouched (pools w1) (pools w2)" "untouched (pools w2) (pools w3)"
    using api_reads.o_phase_range [OF reads p(1)] api_reads.o_phase_pool [OF reads p(2)] api_reads.o_phase_assign [OF reads p(3)] .
  note r1 = phase_range_plain [OF p(1) assms(4)] phase_range_next(3) [OF p(1)]
  have r2: "ls_ipRange st2 = ls_ipRange st" "ls_overlapping st2 = map dummy ds" "ls_poolID st2 = ls_poolID st1" "\<not> ls_skipPool st2"
    using r1 phase_pool_derived(1,2) [OF p(2)] phase_pool_next(1,3) [OF p(2)] assms(8) by simp_all
  have ok2: "range_ok (first n) N (ls_ipRange st2)" using assms(6) r2(1) by simp
  note a = phase_assign_facts [OF p(3) ok2 assms(7)]
  have read: "\<exists>kp x. ls_pool st2 = Some kp \<and> holds (ki_Namespace ipam) first n kp \<and> pools w2 n = Some x \<and> copy_of x (kp_pool kp) \<and> pool_ok (first n) x"
    if q: "f1 = Next_phase" "f2 = Next_phase"
  proof -
    have n: "IPPoolName (ls_poolID st1) = n" using r1(3) q(1) assms(5) by simp
    obtain kp where kp: "ls_pool st2 = Some kp" "GetIPPool k ipam (ls_poolID st1) w1 = (Inr kp, w2)" using phase_pool_derived(3) [OF p(2)] q(2) by auto
    have "store_ok M first (pools w2)" by (rule untouched_ok [OF untouched_trans [OF u(1,2)] assms(2)])
    then show ?thesis using quiet_read [OF assms(1), of "ls_poolID st1" w1 kp w2] kp n assms(3) store_okD(2) by blast
  qed
  have cop: "assigned_on ipam conf (first n) (the (ls_pool st2)) st3 \<and> valid_ip (net_IP (ls_newip st3)) \<and> (ls_allocationCreated st3 \<longrightarrow> no_owner ipam conf st3)"
    if q: "f1 = Next_phase" "f2 = Next_phase" "f3 = Next_phase \<or> f3 = Continue"
  proof -
    obtain kp x where kp: "ls_pool st2 = Some kp" "holds (ki_Namespace ipam) first n kp" "copy_of x (kp_pool kp)" "pool_ok (first n) x"
      using read [OF q(1,2)] by blast
    show ?thesis using assigned_copy [OF kp(2-4) ok2 assms(7) r2(2) assms(9) r2(4) kp(1) p(3) [unfolded kp(1) option.sel] q(3)] kp(1) by simp
  qed
  have ds3: "\<exists>ds'. ls_overlapping st3 = map dummy ds' \<and> list_all valid_ip ds'" if "f1 = Next_phase" "f2 = Next_phase"
  proof (cases "f3 = Continue")
    case True
    then show ?thesis using cop that a(4) r2(2) assms(9) by (intro exI [of _ "ds @ [net_IP (ls_newip st3)]"]) simp
  qed (use a(4) r2(2) assms(9) in auto)
  note keep = a(1,2) r1(1,2) r2 ok2 phase_update_next(1) [OF p(4)] phase_update_derived [OF p(4)] phase_reserve_next(2) [OF p(5)] phase_reserve_derived [OF p(5)]
  have K: "range_ok (first n) N (ls_ipRange st') \<and> rc_Range (ls_ipRange st') = rc_Range (ls_ipRange st) \<and> (\<exists>ds'. ls_overlapping st' = map dummy ds' \<and> list_all valid_ip ds')"
    using run assms(6,8,9) ds3 keep by (auto split: if_splits)
  show ?thesis
  proof (cases "f1 = Next_phase \<and> f2 = Next_phase \<and> f3 = Next_phase")
    case False
    then have uu: "untouched (pools w) (pools w')" using run u by (auto split: if_splits intro: untouched_trans)
    moreover have "\<not> (fl = Break_loop \<and> ls_err st' = None)"
      using run False phase_range_next(5) [OF p(1)] phase_pool_next(6) [OF p(2)] phase_assign_flow(1) [OF p(3)]
      by (auto simp: Allocate_def Deallocate_def split: if_splits)
    moreover have "no_owner ipam conf st' \<and> IPPoolName (ls_poolID st') = n" if "fl = Continue" "ls_err st' = None" "ls_allocationCreated st'"
      using that run False r1(3,4) r2(3) a(5) assms(5) phase_pool_next(5) [OF p(2)] cop by (auto split: if_splits)
    moreover have "valid_ip (net_IP (ls_newip st'))" if "fl = Continue" "ls_err st' = None"
      using that run False r1(4) phase_pool_next(5) [OF p(2)] cop by (auto split: if_splits)
    ultimately show ?thesis
      using K untouched_ok [OF uu assms(2)] untouched_owners [OF uu, of "first n" n] elsewhere_untouched [OF uu] others_untouched [OF uu, of ipam conf first] by fastforce
  next
    case True
    then obtain kp x where kp: "ls_pool st2 = Some kp" "holds (ki_Namespace ipam) first n kp" "pools w2 n = Some x" "copy_of x (kp_pool kp)"
      using read by blast
    have u3: "untouched (pools w) (pools w3)" using u by (blast intro: untouched_trans)
    have n3: "IPPoolName (ls_poolID st3) = n" using a(5) r2(3) r1(3) True assms(5) by simp
    have as: "assigned_on ipam conf (first n) kp st3" using cop True kp(1) by simp
    from quiet_write [OF assms(1) untouched_ok [OF u3 assms(2)] assms(3) n3 kp(2) untouched_Some [OF u(3) kp(3)] kp(4) as p(4) [unfolded kp(1) option.sel]]
    obtain kp4 where w4: "f4 = Next_phase" "store_ok M first (pools w4)" "elsewhere n (pools w3) (pools w4)" "others_kept ipam conf first (pools w3) (pools w4)"
      "owners (first n) (pools w4 n) = insert (ip_addr (net_IP (ls_newip st3)), GetPodRef conf, ki_IfName ipam) (owners (first n) (pools w3 n))"
      "ls_allocationCreated st3 \<longrightarrow> committed_in ipam M first (pools w4) (commit_in_pool ipam conf st4)" "st4 = st3\<lparr>ls_pool := Some kp4, ls_err := None\<rparr>"
      by blast
    have px: "pool_ok (first n) x" by (rule store_okD(2) [OF untouched_ok [OF untouched_trans [OF u(1,2)] assms(2)] assms(3) kp(3)])
    have S: "owners (first n) (pools w3 n) = owners (first n) (pools w n)" by (rule untouched_owners [OF u3])
    have G: "grants (Allocations kp) = owners (first n) (pools w n)"
      using copy_owners [OF kp(2,4) px] S untouched_Some [OF u(3) kp(3)] by simp
    have st4: "IPPoolName (ls_poolID st4) = n" "ls_err st4 = None" "ls_pool st4 \<noteq> None" using n3 by (simp_all add: w4(7))
    have new: "if ls_allocationCreated st4 then committed_in ipam M first (pools w4) (commit_in_pool ipam conf st4) \<and> (\<forall>g\<in>owners (first n) (pools w n). snd g \<noteq> (GetPodRef conf, ki_IfName ipam))
         else (ip_addr (net_IP (ls_newip st3)), GetPodRef conf, ki_IfName ipam) \<in> owners (first n) (pools w n)"
      using as w4(6) unfolding G [symmetric] by (simp add: assigned_on_def Let_def w4(7) split: if_splits)
    have e: "fl = f5" "st' = st5" "w' = w5" using run True w4(1) by simp_all
    note res = quiet_reserve [OF assms(1) w4(2) st4 w4(5) [unfolded S] new p(5), folded e]
    have "others_kept ipam conf first (pools w4) (pools w')" using res by blast
    then have "others_kept ipam conf first (pools w) (pools w')" by (rule others_trans [OF others_trans [OF others_untouched [OF u3] w4(4)]])
    moreover have "elsewhere n (pools w) (pools w')" using res w4(3) elsewhere_untouched [OF u3] by (blast intro: elsewhere_trans)
    moreover have "fl \<noteq> Continue \<or> ls_err st' \<noteq> None" using phase_reserve_next(4) [OF p(5)] e by simp
    moreover have "IPPoolName (ls_poolID st') = n \<and> range_done ipam conf M first (pools w) st' (pools w')" if d: "fl = Break_loop" "ls_err st' = None"
    proof -
      have f: "untouched (pools w4) (pools w')" "ls_allocationCreated st' = ls_allocationCreated st3" "ls_newip st' = ls_newip st3"
          "commit_in_pool ipam conf st' = commit_in_pool ipam conf st4" using res d by (simp_all add: w4(7))
      have n': "IPPoolName (ls_poolID st') = n" using arg_cong [OF f(4), of ca_poolID] st4(1) by simp
      show ?thesis
        using new untouched_owners [OF f(1)] w4(5) committed_in_untouched [OF f(1)] n' st4(1) f(2,3) w4(7)
        by (auto simp: range_done_def Let_def S f(4) split: if_splits)
    qed
    ultimately show ?thesis using res K by (auto split: if_splits)
  qed
qed

section \<open>A range, and all ranges\<close>

definition exhausted :: "KubernetesIPAM \<Rightarrow> IPAMConfig \<Rightarrow> string \<Rightarrow> loop_state \<Rightarrow> bool" where
  "exhausted ipam conf n st \<longleftrightarrow> (ls_allocationCreated st \<longrightarrow> no_owner ipam conf st \<and> IPPoolName (ls_poolID st) = n)"

lemma range_done_cong:
  assumes "range_done ipam conf M first P st Q" "IPPoolName (ls_poolID st) = n" "owners (first n) (P n) = owners (first n) (P' n)"
  shows "range_done ipam conf M first P' st Q"
  using assms(1) unfolding range_done_def Let_def commit_in_pool_simps assms(2) assms(3) .

lemma attempt_ends: "attempt k env mode ipam conf pref st w = (fl, st', w') \<Longrightarrow> fl \<noteq> Next_phase"
  by (rule attempt_eq [of k env ipam conf st w mode pref]) (auto split: if_splits dest: phase_reserve_next(1))

lemma quiet_loop:
  assumes "quiet k (ki_Namespace ipam) M first pools" "store_ok M first (pools w)" "n \<in> M" "ic_NodeSliceSize conf = []"
    "n = IPPoolName \<lparr> pi_IPRange = rc_Range (ls_ipRange st), pi_NetworkName = ic_NetworkName conf, pi_NodeName = [] \<rparr>"
    "range_ok (first n) N (ls_ipRange st)" "nil_or_valid pref" "ls_overlapping st = map dummy ds" "list_all valid_ip ds"
    "ls_err st = None \<Longrightarrow> exhausted ipam conf n st"
    "retry_loop m k env Allocate ipam conf pref st w = (fl, st', w')"
  shows "store_ok M first (pools w') \<and> elsewhere n (pools w) (pools w') \<and> others_kept ipam conf first (pools w) (pools w') \<and> (\<exists>ds'. ls_overlapping st' = map dummy ds' \<and> list_all valid_ip ds')
    \<and> (fl = Break_loop \<and> ls_err st' = None \<and> IPPoolName (ls_poolID st') = n \<and> range_done ipam conf M first (pools w) st' (pools w')
       \<or> owners (first n) (pools w' n) = owners (first n) (pools w n)
         \<and> ((\<forall>e. fl \<noteq> Return e) \<and> ls_err st' = None \<longrightarrow>
              exhausted ipam conf n st' \<and> (ic_OverlappingRanges conf \<and> valid_ip (net_IP (ls_newip st')) \<or> m = 0 \<and> ls_err st = None \<and> st' = st)))"
  using assms(2,5,6,8-11)
proof (induction m arbitrary: w st ds)
  case 0
  then show ?case by (auto simp: elsewhere_untouched others_untouched untouched_refl)
next
  case (Suc m)
  obtain f1 st1 w1 where a: "attempt k env Allocate ipam conf pref st w = (f1, st1, w1)" by (metis prod_cases3)
  note att = quiet_attempt [OF assms(1) Suc.prems(1) assms(3,4) Suc.prems(2,3) assms(7) Suc.prems(4,5) a]
  show ?case
  proof (cases "f1 = Continue")
    case True
    obtain ds1 where k: "store_ok M first (pools w1)" "elsewhere n (pools w) (pools w1)" "range_ok (first n) N (ls_ipRange st1)"
        "rc_Range (ls_ipRange st1) = rc_Range (ls_ipRange st)" "ls_overlapping st1 = map dummy ds1" "list_all valid_ip ds1"
        "owners (first n) (pools w1 n) = owners (first n) (pools w n)" "ls_err st1 = None \<Longrightarrow> exhausted ipam conf n st1"
        "ls_err st1 = None \<Longrightarrow> valid_ip (net_IP (ls_newip st1))" "others_kept ipam conf first (pools w) (pools w1)"
      using att True by (auto simp: exhausted_def)
    have rest: "retry_loop m k env Allocate ipam conf pref st1 w1 = (fl, st', w')" using Suc.prems(7) a True by simp
    note ih = Suc.IH [OF k(1) Suc.prems(2) [folded k(4)] k(3,5,6) k(8) rest, simplified]
    have "ic_OverlappingRanges conf" if "ls_err st1 = None" using attempt_no_overlap(2) [OF a _ True] that by blast
    then show ?thesis
      using ih elsewhere_trans [OF k(2)] others_trans [OF k(10)] k(7,9) range_done_cong [of ipam conf M first "pools w1" st' "pools w'" n "pools w"] by auto
  next
    case False
    then have e: "fl = f1" "st' = st1" "w' = w1" using Suc.prems(7) a by (cases f1; simp)+
    show ?thesis using att attempt_ends [OF a] False unfolding e by (cases f1) (auto split: if_splits)
  qed
qed

definition range_pool :: "IPAMConfig \<Rightarrow> RangeConfiguration \<Rightarrow> string" where
  "range_pool conf r = IPPoolName \<lparr> pi_IPRange = rc_Range r, pi_NetworkName = ic_NetworkName conf, pi_NodeName = [] \<rparr>"

text \<open>What a finished range records: at most one commit, that differs from the above in the cluster-wide reservation.\<close>

definition same_commit :: "committedAlloc \<Rightarrow> committedAlloc \<Rightarrow> bool" where
  "same_commit c d \<longleftrightarrow> ca_pool c = ca_pool d \<and> ca_poolID c = ca_poolID d \<and> ca_ipam c = ca_ipam d \<and> ca_ip c = ca_ip d
     \<and> ca_containerID c = ca_containerID d \<and> ca_podRef c = ca_podRef d \<and> ca_ifName c = ca_ifName d"

lemma same_commit_in: "same_commit c d \<Longrightarrow> committed_in ipam M first P c = committed_in ipam M first P d"
  by (simp add: same_commit_def committed_in_def entry_of_def)

lemma finish_range_commits:
  obtains new where "rs_committed (finish_range Allocate ipam conf st rs) = rs_committed rs @ new"
    "\<forall>c\<in>set new. (ca_podRef c, ca_ifName c) = (GetPodRef conf, ki_IfName ipam)
       \<and> (if ls_allocationCreated st then same_commit c (commit_in_pool ipam conf st) else ca_pool c = None)"
    "length new \<le> 1" "ls_allocationCreated st \<longrightarrow> new \<noteq> []"
proof -
  define c0 where "c0 = (if ls_allocationCreated st then commit_in_pool ipam conf st else commit_of ipam conf st)"
  define c where "c = (if ls_overlappingReservationCreated st then c0\<lparr>ca_overlap := Some (ki_Namespace ipam), ca_overlapIP := ls_ipfor st,
    ca_networkName := ic_NetworkName conf, ca_podUID := ic_PodUID conf\<rparr> else c0)"
  show thesis
  proof (rule that)
    show "rs_committed (finish_range Allocate ipam conf st rs)
      = rs_committed rs @ (if ls_allocationCreated st \<or> ls_overlappingReservationCreated st then [c] else [])"
      by (simp add: finish_range_def Let_def c_def c0_def commit_in_pool_def)
  qed (auto simp: c_def c0_def commit_of_def same_commit_def commit_in_pool_def)
qed

lemma no_owner_not_committed:
  assumes "no_owner ipam conf st" "same_commit c (commit_in_pool ipam conf st)"
  shows "\<not> committed_in ipam M first P c" "committed_ok ipam M first P c"
proof -
  obtain kp where kp: "ls_pool st = Some kp" "\<forall>r\<in>set (Allocations kp). (ir_PodRef r, ir_IfName r) \<noteq> (GetPodRef conf, ki_IfName ipam)"
    using assms(1) unfolding no_owner_def by blast
  then have "entry_of c \<notin> set (map res_view (Allocations kp))" "ca_pool c = Some kp"
    using assms(2) by (auto simp: same_commit_def entry_of_def res_view_def)
  then show "\<not> committed_in ipam M first P c" by (auto simp: committed_in_def)
  have "\<not> list_ex (rollbackAllocationMatches c) (Allocations kp)"
    using kp(2) assms(2) by (auto simp: list_ex_iff rollbackAllocationMatches_def same_commit_def split: if_splits)
  then show "committed_ok ipam M first P c" using \<open>ca_pool c = Some kp\<close> by (simp add: committed_ok_def)
qed

text \<open>The reservations of a pool with the commits so far taken back, and the bookkeeping of these commits.\<close>

definition undo :: "KubernetesIPAM \<Rightarrow> IPAMConfig \<Rightarrow> string set \<Rightarrow> (string \<Rightarrow> IP) \<Rightarrow> committedAlloc list \<Rightarrow> pool_store \<Rightarrow> string \<Rightarrow> (addr \<times> string \<times> string) set" where
  "undo ipam conf M first cs P m = (if taken_back ipam M first P cs m
     then {g \<in> owners (first m) (P m). snd g \<noteq> (GetPodRef conf, ki_IfName ipam)} else owners (first m) (P m))"

definition commits_ok :: "KubernetesIPAM \<Rightarrow> IPAMConfig \<Rightarrow> string set \<Rightarrow> (string \<Rightarrow> IP) \<Rightarrow> string set \<Rightarrow> committedAlloc list \<Rightarrow> pool_store \<Rightarrow> bool" where
  "commits_ok ipam conf M first X cs P \<longleftrightarrow> distinct (map commit_pool (with_pool cs))
     \<and> (\<forall>c\<in>set cs. committed_ok ipam M first P c \<and> (ca_podRef c, ca_ifName c) = (GetPodRef conf, ki_IfName ipam)
          \<and> (ca_pool c \<noteq> None \<longrightarrow> commit_pool c \<notin> X))"

lemma commits_elsewhere:
  assumes "commits_ok ipam conf M first X cs P" "n \<in> X" "elsewhere n P Q"
  shows "commits_ok ipam conf M first X cs Q" "\<not> taken_back ipam M first Q cs n"
    "m \<noteq> n \<Longrightarrow> undo ipam conf M first cs Q m = undo ipam conf M first cs P m"
    "undo ipam conf M first cs P n = owners (first n) (P n)"
proof -
  have cs: "ca_pool c \<noteq> None \<Longrightarrow> commit_pool c \<noteq> n" if "c \<in> set cs" for c using assms(1,2) that by (auto simp: commits_ok_def)
  have same: "\<forall>c\<in>set cs. committed_in ipam M first Q c = committed_in ipam M first P c"
    using elsewhere_committed [OF assms(3)] cs committed_in_pool by metis
  then show "commits_ok ipam conf M first X cs Q" using assms(1) by (simp add: commits_ok_def committed_ok_def)
  have no: "\<not> taken_back ipam M first R cs n" for R using cs committed_in_pool unfolding taken_back_def by blast
  then show "\<not> taken_back ipam M first Q cs n" "undo ipam conf M first cs P n = owners (first n) (P n)" by (simp_all add: undo_def)
  have "taken_back ipam M first Q cs m = taken_back ipam M first P cs m" unfolding taken_back_def using same by (intro bex_cong) auto
  then show "m \<noteq> n \<Longrightarrow> undo ipam conf M first cs Q m = undo ipam conf M first cs P m"
    using elsewhere_owners [OF assms(3)] by (simp add: undo_def)
qed

lemma range_finished:
  assumes "commits_ok ipam conf M first X cs P" "n \<in> X" "elsewhere n P Q"
    and "IPPoolName (ls_poolID st) = n \<and> range_done ipam conf M first P st Q
      \<or> owners (first n) (Q n) = owners (first n) (P n) \<and> exhausted ipam conf n st"
    and "rs_committed rs = cs" "X' \<subseteq> X - {n}"
  defines "cs' \<equiv> rs_committed (finish_range Allocate ipam conf st rs)"
  shows "commits_ok ipam conf M first X' cs' Q" "undo ipam conf M first cs' Q m = undo ipam conf M first cs P m"
proof -
  obtain new where cs': "cs' = cs @ new" and new: "\<forall>c\<in>set new. (ca_podRef c, ca_ifName c) = (GetPodRef conf, ki_IfName ipam)
       \<and> (if ls_allocationCreated st then same_commit c (commit_in_pool ipam conf st) else ca_pool c = None)"
    "length new \<le> 1" "ls_allocationCreated st \<longrightarrow> new \<noteq> []"
    unfolding cs'_def assms(5) [symmetric] by (rule finish_range_commits [of ipam conf st rs])
  note old = commits_elsewhere [OF assms(1-3)]
  have name: "ls_allocationCreated st \<Longrightarrow> IPPoolName (ls_poolID st) = n" using assms(4) by (auto simp: exhausted_def)
  have at_n: "ca_pool c \<noteq> None \<Longrightarrow> commit_pool c = n" if "c \<in> set new" for c
    using new(1) that name by (auto simp: same_commit_def split: if_splits)
  have inew: "committed_in ipam M first Q c \<longleftrightarrow> ls_allocationCreated st \<and> committed_in ipam M first Q (commit_in_pool ipam conf st)"
    "committed_ok ipam M first Q c" if c: "c \<in> set new" for c
  proof -
    show "committed_in ipam M first Q c \<longleftrightarrow> ls_allocationCreated st \<and> committed_in ipam M first Q (commit_in_pool ipam conf st)"
      using new(1) c same_commit_in committed_in_pool by (metis (full_types))
    then show "committed_ok ipam M first Q c"
      using assms(4) new(1) c no_owner_not_committed(2) [of ipam conf st c] unfolding committed_ok_def [of ipam M first Q c]
      by (auto simp: range_done_def Let_def exhausted_def committed_ok_def split: if_splits)
  qed
  have "distinct (map commit_pool (with_pool (cs @ new)))"
    using old(1) assms(2) new(2) at_n by (cases new) (auto simp: commits_ok_def)
  then show "commits_ok ipam conf M first X' cs' Q"
    using old(1) assms(6) inew(2) new(1) at_n unfolding cs' commits_ok_def by auto
  have tb: "taken_back ipam M first Q (cs @ new) m \<longleftrightarrow> taken_back ipam M first Q cs m
      \<or> m = n \<and> ls_allocationCreated st \<and> committed_in ipam M first Q (commit_in_pool ipam conf st)"
  proof -
    have "(\<exists>c\<in>set new. committed_in ipam M first Q c \<and> commit_pool c = m)
        \<longleftrightarrow> m = n \<and> ls_allocationCreated st \<and> committed_in ipam M first Q (commit_in_pool ipam conf st)"
      using inew(1) at_n committed_in_pool new(3) by (metis list.set_sel(1))
    then show ?thesis unfolding taken_back_def set_append bex_Un by blast
  qed
  show "undo ipam conf M first cs' Q m = undo ipam conf M first cs P m"
  proof (cases "m = n")
    case False
    then show ?thesis using old(3) tb unfolding cs' by (simp add: undo_def)
  next
    case True
    have "undo ipam conf M first cs' Q n = owners (first n) (P n)"
      using assms(4)
    proof (elim disjE conjE)
      assume "range_done ipam conf M first P st Q" "IPPoolName (ls_poolID st) = n"
      then show ?thesis using tb True old(2) unfolding cs' undo_def by (auto simp: range_done_def Let_def split: if_splits)
    next
      assume e: "owners (first n) (Q n) = owners (first n) (P n)" "exhausted ipam conf n st"
      have "\<not> (ls_allocationCreated st \<and> committed_in ipam M first Q (commit_in_pool ipam conf st))"
        using e(2) no_owner_not_committed(1) [of ipam conf st "commit_in_pool ipam conf st"] by (auto simp: exhausted_def same_commit_def)
      then show ?thesis using tb True old(2) e(1) unfolding cs' undo_def by auto
    qed
    then show ?thesis using True old(4) by simp
  qed
qed

lemma owners_valid:
  assumes "store_ok M first P" "n \<in> M" "(ip_addr ip, ow) \<in> owners (first n) (P n)"
  shows "valid_ip ip"
proof -
  obtain x where x: "P n = Some x" "(ip_addr ip, ow) \<in> grants (stored (first n) (snd x))"
    using assms(3) by (cases "P n") (auto simp: owners_def)
  have "rl_inv (stored (first n) (snd x))" using store_okD(2) [OF assms(1,2) x(1)] by (simp add: pool_ok_def)
  then have "\<forall>r\<in>set (stored (first n) (snd x)). ip_addr (ir_IP r) \<noteq> AddrZero"
    by (auto simp: rl_inv_def reservations_valid_def list_all_iff ip_addr_valid)
  then show ?thesis using x(2) by (auto simp: grants_def res_view_def ip_addr_valid)
qed

lemma quiet_ranges:
  assumes "quiet k (ki_Namespace ipam) M first pools" "ic_NodeSliceSize conf = []" "nil_or_valid pref"
    "store_ok M first (pools w)" "distinct (map (range_pool conf) ranges)"
    "\<forall>r\<in>set ranges. range_pool conf r \<in> M \<and> (\<exists>N. range_ok (first (range_pool conf r)) N r)"
    "commits_ok ipam conf M first (range_pool conf ` set ranges) (rs_committed rs) (pools w)"
    "rs_overlapping rs = map dummy ds" "list_all valid_ip ds"
    "all_ranges k env Allocate ipam conf pref ranges rs w = (err, rs', w')"
  shows "store_ok M first (pools w') \<and> others_kept ipam conf first (pools w) (pools w') \<and> commits_ok ipam conf M first {} (rs_committed rs') (pools w')
    \<and> (\<forall>m. undo ipam conf M first (rs_committed rs') (pools w') m = undo ipam conf M first (rs_committed rs) (pools w) m)
    \<and> (\<forall>m. m \<notin> range_pool conf ` set ranges \<longrightarrow> owners (first m) (pools w' m) = owners (first m) (pools w m))
    \<and> (err = None \<and> \<not> ic_OverlappingRanges conf \<longrightarrow> (\<exists>ips. rs_newips rs' = rs_newips rs @ ips
        \<and> list_all2 (\<lambda>r ip. (ip_addr (net_IP ip), GetPodRef conf, ki_IfName ipam) \<in> owners (first (range_pool conf r)) (pools w' (range_pool conf r))) ranges ips))"
  using assms(4-10)
proof (induction ranges arbitrary: rs w ds)
  case Nil
  then show ?case by (auto simp: commits_ok_def others_untouched untouched_refl)
next
  case (Cons r ranges)
  let ?n = "range_pool conf r" and ?st = "start_range rs conf r" and ?X = "range_pool conf ` set (r # ranges)"
  obtain fl st w1 where loop: "retry_loop DatastoreRetries k env Allocate ipam conf pref ?st w = (fl, st, w1)" by (metis prod_cases3)
  obtain N where r: "?n \<in> M" "range_ok (first ?n) N r" using Cons.prems(3) by auto
  have st0: "ls_ipRange ?st = r" "ls_overlapping ?st = map dummy ds" "exhausted ipam conf ?n ?st" "DatastoreRetries \<noteq> 0"
    using Cons.prems(5) by (simp_all add: start_range_def exhausted_def DatastoreRetries_def)
  have "?n = IPPoolName \<lparr> pi_IPRange = rc_Range (ls_ipRange ?st), pi_NetworkName = ic_NetworkName conf, pi_NodeName = [] \<rparr>"
    by (simp add: range_pool_def st0)
  note L = quiet_loop [OF assms(1) Cons.prems(1) r(1) assms(2) this _ assms(3) st0(2) Cons.prems(6) st0(3) loop, of N, unfolded st0(1), OF r(2)]
  have L1: "store_ok M first (pools w1)" "elsewhere ?n (pools w) (pools w1)" "others_kept ipam conf first (pools w) (pools w1)" using L by blast+
  have nX: "?n \<in> ?X" by simp
  show ?case
  proof (cases "(\<forall>e. fl \<noteq> Return e) \<and> ls_err st = None")
    case False
    then have same: "owners (first ?n) (pools w1 ?n) = owners (first ?n) (pools w ?n)" using L by auto
    have res: "err \<noteq> None" "rs' = rs" "w' = w1" using Cons.prems(7) loop False by (auto split: flow.splits option.splits)
    note old = commits_elsewhere [OF Cons.prems(4) nX L1(2)]
    have "undo ipam conf M first (rs_committed rs) (pools w1) m = undo ipam conf M first (rs_committed rs) (pools w) m" for m
      using old(3) [of m] old(2,4) same by (cases "m = ?n") (simp_all add: undo_def)
    moreover have "commits_ok ipam conf M first {} (rs_committed rs) (pools w1)" using old(1) by (simp add: commits_ok_def)
    moreover have "owners (first m) (pools w1 m) = owners (first m) (pools w m)" if "m \<notin> ?X" for m
      using elsewhere_owners [OF L1(2)] that by auto
    ultimately show ?thesis using L1(1,3) res by simp
  next
    case True
    define rs1 where "rs1 = finish_range Allocate ipam conf st rs"
    have rest: "all_ranges k env Allocate ipam conf pref ranges rs1 w1 = (err, rs', w')"
      using Cons.prems(7) loop True unfolding rs1_def by (cases fl) auto
    have d: "IPPoolName (ls_poolID st) = ?n \<and> range_done ipam conf M first (pools w) st (pools w1)
      \<or> owners (first ?n) (pools w1 ?n) = owners (first ?n) (pools w ?n) \<and> exhausted ipam conf ?n st" using L True by blast
    have "range_pool conf ` set ranges \<subseteq> ?X - {?n}" using Cons.prems(2) by auto
    note fin = range_finished [OF Cons.prems(4) nX L1(2) d refl this, folded rs1_def]
    have granted: "(ip_addr (net_IP (ls_newip st)), GetPodRef conf, ki_IfName ipam) \<in> owners (first ?n) (pools w1 ?n)"
      if "IPPoolName (ls_poolID st) = ?n" "range_done ipam conf M first (pools w) st (pools w1)" using that by (simp add: range_done_def Let_def)
    have v: "valid_ip (net_IP (ls_newip st))" using L True st0(4) granted owners_valid [OF L1(1) r(1)] by blast
    obtain ds1 where ds1: "ls_overlapping st = map dummy ds1" "list_all valid_ip ds1" using L by blast
    have o1: "rs_overlapping rs1 = map dummy (ds1 @ (if ic_OverlappingRanges conf then [net_IP (ls_newip st)] else []))"
      "rs_newips rs1 = rs_newips rs @ [ls_newip st]"
      using ds1(1) by (simp_all add: rs1_def finish_range_def Let_def Allocate_def)
    have ih: "\<forall>r\<in>set ranges. range_pool conf r \<in> M \<and> (\<exists>N. range_ok (first (range_pool conf r)) N r)" "distinct (map (range_pool conf) ranges)"
      "list_all valid_ip (ds1 @ (if ic_OverlappingRanges conf then [net_IP (ls_newip st)] else []))"
      using Cons.prems(2,3) ds1(2) v by auto
    note IH = Cons.IH [OF L1(1) ih(2,1) fin(1) o1(1) ih(3) rest]
    have out: "\<forall>m. m \<notin> range_pool conf ` set ranges \<longrightarrow> owners (first m) (pools w' m) = owners (first m) (pools w1 m)" using IH by blast
    have "owners (first m) (pools w' m) = owners (first m) (pools w m)" if "m \<notin> ?X" for m
      using out elsewhere_owners [OF L1(2), of m "first m"] that by auto
    moreover have "\<exists>ips. rs_newips rs' = rs_newips rs @ ips
        \<and> list_all2 (\<lambda>r ip. (ip_addr (net_IP ip), GetPodRef conf, ki_IfName ipam) \<in> owners (first (range_pool conf r)) (pools w' (range_pool conf r))) (r # ranges) ips"
      if e: "err = None" "\<not> ic_OverlappingRanges conf"
    proof -
      have "(ip_addr (net_IP (ls_newip st)), GetPodRef conf, ki_IfName ipam) \<in> owners (first ?n) (pools w' ?n)"
        using L True st0(4) e(2) granted out Cons.prems(2) by auto
      moreover obtain ips where "rs_newips rs' = rs_newips rs1 @ ips"
        "list_all2 (\<lambda>r ip. (ip_addr (net_IP ip), GetPodRef conf, ki_IfName ipam) \<in> owners (first (range_pool conf r)) (pools w' (range_pool conf r))) ranges ips"
        using IH e by blast
      ultimately show ?thesis using o1(2) by (intro exI [of _ "ls_newip st # ips"]) simp
    qed
    moreover have "others_kept ipam conf first (pools w) (pools w')" using IH by (intro others_trans [OF L1(3)]) blast
    ultimately show ?thesis using IH fin(2) by auto
  qed
qed

lemma quiet_add:
  assumes "quiet k (ki_Namespace ipam) (range_pool conf ` set (ic_IPRanges conf)) first pools"
    "store_ok (range_pool conf ` set (ic_IPRanges conf)) first (pools w)" "ic_NodeSliceSize conf = []"
    "distinct (map (range_pool conf) (ic_IPRanges conf))" "\<forall>r\<in>set (ic_IPRanges conf). \<exists>N. range_ok (first (range_pool conf r)) N r"
    "IPManagementKubernetesUpdate k env Allocate ipam conf w = (ips, err, w')"
  shows "err \<noteq> None \<Longrightarrow> owners (first n) (pools w' n) = owners (first n) (pools w n)"
    and "err = None \<Longrightarrow> \<not> ic_OverlappingRanges conf \<Longrightarrow>
       list_all2 (\<lambda>r ip. (ip_addr (net_IP ip), GetPodRef conf, ki_IfName ipam) \<in> owners (first (range_pool conf r)) (pools w' (range_pool conf r))) (ic_IPRanges conf) ips"
    and "store_ok (range_pool conf ` set (ic_IPRanges conf)) first (pools w')" "others_kept ipam conf first (pools w) (pools w')"
proof -
  let ?M = "range_pool conf ` set (ic_IPRanges conf)"
  define rs where "rs = \<lparr> rs_newips = [], rs_committed = [], rs_overlapping = [], rs_ipfor = [], rs_newip = \<lparr> net_IP = [], net_Mask = [] \<rparr> \<rparr>"
  obtain pref w1 where pr: "preferred_of k Allocate conf w = (pref, w1)" by fastforce
  obtain err' rs' w2 where all: "all_ranges k env Allocate ipam conf pref (ic_IPRanges conf) rs w1 = (err', rs', w2)" by (metis prod_cases3)
  have res: "err = err'" "ips = rs_newips rs'" "w' = (if err' \<noteq> None \<and> rs_committed rs' \<noteq> [] then rollbackCommitted k (rs_committed rs') w2 else w2)"
    using assms(6) pr all unfolding IPManagementKubernetesUpdate_def rs_def [symmetric] by (auto simp: Let_def)
  have u: "untouched (pools w) (pools w1)" by (rule api_reads.o_preferred_of [OF quiet_reads [OF assms(1)] pr])
  have r: "\<forall>r\<in>set (ic_IPRanges conf). range_pool conf r \<in> ?M \<and> (\<exists>N. range_ok (first (range_pool conf r)) N r)" using assms(5) by blast
  have c: "commits_ok ipam conf ?M first ?M (rs_committed rs) (pools w1)" "rs_overlapping rs = map dummy []" "rs_newips rs = []" "rs_committed rs = []"
    by (simp_all add: rs_def commits_ok_def)
  note R = quiet_ranges [OF assms(1,3) preferred_valid [OF pr] untouched_ok [OF u assms(2)] assms(4) r c(1,2) _ all, simplified]
  have ok: "store_ok ?M first (pools w2)" "commits_ok ipam conf ?M first {} (rs_committed rs') (pools w2)"
    "undo ipam conf ?M first (rs_committed rs') (pools w2) n = owners (first n) (pools w1 n)" "others_kept ipam conf first (pools w1) (pools w2)"
    using R c(4) by (simp_all add: undo_def taken_back_def)
  have undone: "owners (first m) (pools (rollbackCommitted k (rs_committed rs') w2) m) = undo ipam conf ?M first (rs_committed rs') (pools w2) m
      \<and> only_own (ki_ContainerID ipam) (GetPodRef conf, ki_IfName ipam) (entries (first m) (pools w2 m)) (entries (first m) (pools (rollbackCommitted k (rs_committed rs') w2) m))
      \<and> store_ok ?M first (pools (rollbackCommitted k (rs_committed rs') w2))" for m
    unfolding undo_def by (rule rollbackCommitted_effect [OF assms(1) ok(1)]) (use ok(2) in \<open>simp_all add: commits_ok_def\<close>)
  then have "others_kept ipam conf first (pools w2) (pools (rollbackCommitted k (rs_committed rs') w2))" by (simp add: others_kept_def)
  then have "others_kept ipam conf first (pools w2) (pools w')" using res(3) by (auto simp: others_untouched untouched_refl)
  then show "others_kept ipam conf first (pools w) (pools w')" by (rule others_trans [OF others_trans [OF others_untouched [OF u] ok(4)]])
  show "store_ok ?M first (pools w')" using undone ok(1) res(3) by auto
  show "owners (first n) (pools w' n) = owners (first n) (pools w n)" if "err \<noteq> None"
    using undone ok(3) untouched_owners [OF u, of "first n" n] that res(1,3) by (cases "rs_committed rs' = []") simp_all
  show "list_all2 (\<lambda>r ip. (ip_addr (net_IP ip), GetPodRef conf, ki_IfName ipam) \<in> owners (first (range_pool conf r)) (pools w' (range_pool conf r))) (ic_IPRanges conf) ips"
    if "err = None" "\<not> ic_OverlappingRanges conf" using R res that c(3) by simp
qed

text \<open>
  C6: All or nothing: an ADD for several ranges on a reliable API, with nobody else writing to its
  pools. If the call fails, in whichever range and for whatever reason, every pool has the
  reservations it had before, for the same pods and interfaces: what earlier ranges had committed
  is taken back. If it succeeds without overlapping ranges, each range's pool has the returned address reserved
  for the pod and interface.
\<close>

theorem add_all_or_nothing:
  assumes "quiet k (ki_Namespace ipam) (range_pool conf ` set (ic_IPRanges conf)) first pools"
    "store_ok (range_pool conf ` set (ic_IPRanges conf)) first (pools w)" "ic_NodeSliceSize conf = []"
    "distinct (map (range_pool conf) (ic_IPRanges conf))" "\<forall>r\<in>set (ic_IPRanges conf). \<exists>N. range_ok (first (range_pool conf r)) N r"
    "IPManagementKubernetesUpdate k env Allocate ipam conf w = (ips, err, w')"
  shows "(err \<noteq> None \<longrightarrow> owners (first n) (pools w' n) = owners (first n) (pools w n))
    \<and> (err = None \<and> \<not> ic_OverlappingRanges conf \<longrightarrow>
       list_all2 (\<lambda>r ip. (ip_addr (net_IP ip), GetPodRef conf, ki_IfName ipam) \<in> owners (first (range_pool conf r)) (pools w' (range_pool conf r))) (ic_IPRanges conf) ips)"
  using quiet_add(1,2) [OF assms] by blast

section \<open>A server\<close>

text \<open>A server with two pools, that applies any JSON patch to what it stores.\<close>

definition op_keys :: "Operation list \<Rightarrow> string list" where
  "op_keys ops = concat (map (\<lambda>o'. case op_Path o' of _ # _ # key # _ \<Rightarrow> [key] | _ \<Rightarrow> []) ops)"

definition field :: "(string \<Rightarrow> string option) \<Rightarrow> string \<Rightarrow> string" where
  "field fs f = (case fs f of None \<Rightarrow> [] | Some v \<Rightarrow> v)"

definition read_entry :: "(string \<Rightarrow> string option) \<Rightarrow> IPAllocation" where
  "read_entry fs = \<lparr> ia_ContainerID = field fs ''id'', ia_PodRef = field fs ''podref'', ia_IfName = field fs ''ifname'' \<rparr>"

definition read_doc :: "(string \<Rightarrow> (string \<Rightarrow> string option) option) \<Rightarrow> string list \<Rightarrow> allocations" where
  "read_doc m keys = map (\<lambda>key. (key, read_entry (the (m key)))) (filter (\<lambda>key. m key \<noteq> None) (remdups keys))"

lemma read_entry_fields: "read_entry (map_of (alloc_fields x)) = x"
  by (cases x) (simp add: read_entry_def field_def alloc_fields_def)

lemma apply_ops_keys: "apply_ops (rv, m) ops = Some (rv', m') \<Longrightarrow> key \<notin> set (op_keys ops) \<Longrightarrow> m' key = m key"
proof (induction ops arbitrary: rv m)
  case (Cons o' ops)
  obtain rv1 m1 where s: "apply_op (rv, m) o' = Some (rv1, m1)" "apply_ops (rv1, m1) ops = Some (rv', m')"
    using Cons.prems(1) by (auto split: option.splits)
  have "m1 key = m key"
    using s(1) Cons.prems(2) unfolding op_keys_def apply_op.simps
    by (auto split: list.splits if_splits option.splits pvalue.splits)
  then show ?case using Cons.IH [OF s(2)] Cons.prems(2) by (simp add: op_keys_def)
qed simp

lemma read_doc_apply:
  assumes "apply_ops (rv, alloc_doc a) ops = Some (rv', alloc_doc b)"
  shows "map_of (read_doc (alloc_doc b) (map fst a @ op_keys ops)) = map_of b"
    and "distinct (map fst (read_doc m keys))"
proof -
  have *: "map_of (read_doc m keys) key = (if key \<in> set keys then map_option read_entry (m key) else None)" for m keys key
  proof -
    have "map_of (map (\<lambda>k. (k, f k)) ks) key = (if key \<in> set ks then Some (f key) else None)" for f :: "string \<Rightarrow> IPAllocation" and ks
      by (induction ks) auto
    then show ?thesis unfolding read_doc_def by auto
  qed
  show "distinct (map fst (read_doc m keys))" by (simp add: read_doc_def comp_def)
  show "map_of (read_doc (alloc_doc b) (map fst a @ op_keys ops)) = map_of b"
  proof
    fix key
    have "alloc_doc b key = None" if "key \<notin> set (map fst a @ op_keys ops)"
    proof -
      have "alloc_doc b key = alloc_doc a key" using apply_ops_keys [OF assms] that by simp
      moreover have "map_of a key = None" using that by (simp add: map_of_eq_None_iff)
      ultimately show ?thesis by (simp add: alloc_doc_def)
    qed
    moreover have "map_option read_entry (alloc_doc b key) = map_of b key" by (cases "map_of b key") (simp_all add: alloc_doc_def read_entry_fields)
    ultimately show "map_of (read_doc (alloc_doc b) (map fst a @ op_keys ops)) key = map_of b key" unfolding * by auto
  qed
qed

definition annex_conf :: RangeConfiguration where
  "annex_conf = lan_conf\<lparr>rc_Range := ''10.0.1.0/30''\<rparr>"

definition two_first :: "string \<Rightarrow> IP" where
  "two_first n = As16 (Addr4 (if n = ''10.0.0.0-29'' then 0x0a000000 else 0x0a000100))"

definition two_pool :: "string \<Rightarrow> string \<Rightarrow> nat \<times> allocations \<Rightarrow> IPPool" where
  "two_pool ns n x = (let pool = new_pool n (if n = ''10.0.0.0-29'' then ''10.0.0.0/29'' else ''10.0.1.0/30'') in
     pool\<lparr>ip_Meta := (ip_Meta pool)\<lparr>om_Namespace := ns, om_ResourceVersion := dec (fst x)\<rparr>,
          ip_Spec := (ip_Spec pool)\<lparr>ps_Allocations := snd x\<rparr>\<rparr>)"

definition two_view :: "pool_store \<Rightarrow> pool_store" where
  "two_view w n = (case w n of None \<Rightarrow> None | Some x \<Rightarrow> if distinct (map fst (snd x)) then Some x else None)"

definition two_kube :: "pool_store kube" where
  "two_kube = \<lparr> k_GetIPPool = (\<lambda>ns n w. (case two_view w n of None \<Rightarrow> Inl (ApiErr NotFound) | Some x \<Rightarrow> Inr (two_pool ns n x), w)),
     k_CreateIPPool = (\<lambda>_ _ w. (Inl (ApiErr AlreadyExists), w)),
     k_PatchIPPool = (\<lambda>_ n ops w. case w n of None \<Rightarrow> (Inl (ApiErr NotFound), w)
       | Some x \<Rightarrow> (case apply_ops (dec (fst x), alloc_doc (snd x)) ops of None \<Rightarrow> (Inl (ApiErr Invalid), w)
           | Some d \<Rightarrow> (Inr (), w(n \<mapsto> (Suc (fst x), read_doc (snd d) (map fst (snd x) @ op_keys ops)))))),
     k_GetORIP = (\<lambda>_ _ w. (Inl (ApiErr NotFound), w)), k_CreateORIP = (\<lambda>_ _ w. (Inr (), w)),
     k_DeleteORIP = (\<lambda>_ _ _ w. (Inr (), w)), k_ListORIPs = (\<lambda>_ w. (Inr [], w)),
     k_GetNodeSlicePool = (\<lambda>_ _ w. (Inl (ApiErr NotFound), w)), k_GetPod = (\<lambda>_ _ w. (Inl (ApiErr NotFound), w)),
     k_CtxErr = (\<lambda>w. (None, w)), k_Rand = (\<lambda>_ w. (0, w)), k_Sleep = (\<lambda>_ w. w) \<rparr>"

text \<open>The second pool is full.\<close>

definition two_start :: pool_store where
  "two_start = [''10.0.0.0-29'' \<mapsto> (0, []), ''10.0.1.0-30'' \<mapsto> (0, [(''1'', lan_alloc ''a''), (''2'', lan_alloc ''b'')])]"

definition two_conf :: IPAMConfig where
  "two_conf = ipam_conf_ex\<lparr>ic_IPRanges := [lan_conf, annex_conf]\<rparr>"

lemma two_ranges: "two_first ''10.0.0.0-29'' = lan_first"
  "ParseCIDR ''10.0.0.0/29'' = Inr (lan_first, lan)" "\<exists>N. ParseCIDR ''10.0.1.0/30'' = Inr (two_first ''10.0.1.0-30'', N)"
  "range_pool two_conf lan_conf = ''10.0.0.0-29''" "range_pool two_conf annex_conf = ''10.0.1.0-30''"
proof -
  show "two_first ''10.0.0.0-29'' = lan_first" "ParseCIDR ''10.0.0.0/29'' = Inr (lan_first, lan)"
    "range_pool two_conf lan_conf = ''10.0.0.0-29''" "range_pool two_conf annex_conf = ''10.0.1.0-30''" by code_simp+
  have "ParseCIDR ''10.0.1.0/30'' = Inr (two_first ''10.0.1.0-30'', \<lparr> net_IP = [10, 0, 1, 0], net_Mask = [255, 255, 255, 252] \<rparr>)" by code_simp
  then show "\<exists>N. ParseCIDR ''10.0.1.0/30'' = Inr (two_first ''10.0.1.0-30'', N)" by blast
qed

lemma two_quiet: "quiet two_kube ns {''10.0.0.0-29'', ''10.0.1.0-30''} two_first two_view"
  unfolding quiet_def
proof (intro conjI allI ballI impI)
  show "api_reads two_kube (\<lambda>w w'. untouched (two_view w) (two_view w'))"
    by unfold_locales (auto simp: two_kube_def untouched_refl intro: untouched_trans)
next
  fix n w pool w' assume "k_GetIPPool two_kube ns n w = (Inr pool, w')"
  then obtain x where x: "w' = w" "two_view w n = Some x" "pool = two_pool ns n x" by (auto simp: two_kube_def split: option.splits)
  show "om_Namespace (ip_Meta pool) = ns" "om_Name (ip_Meta pool) = n" by (simp_all add: x(3) two_pool_def new_pool_def Let_def)
  have "copy_of x pool" using x(2) by (auto simp: x(3) copy_of_def two_pool_def two_view_def Let_def split: option.splits if_splits)
  then show "\<exists>x. two_view w' n = Some x \<and> copy_of x pool" using x by blast
next
  fix n w pool w' assume n: "n \<in> {''10.0.0.0-29'', ''10.0.1.0-30''}" and "k_GetIPPool two_kube ns n w = (Inr pool, w')"
  then obtain x where "pool = two_pool ns n x" by (auto simp: two_kube_def split: option.splits)
  then show "\<exists>N. IPPool_ParseCIDR pool = Inr (two_first n, N)"
    using n two_ranges(1-3) by (auto simp: IPPool_ParseCIDR_def two_pool_def new_pool_def Let_def)
next
  fix n w e w' assume "k_GetIPPool two_kube ns n w = (Inl e, w')"
  then show "two_view w n = None" by (auto simp: two_kube_def split: option.splits)
next
  fix n ops w r w' v a assume p: "k_PatchIPPool two_kube ns n ops w = (r, w')" and x: "two_view w n = Some (v, a)"
  have w: "w n = Some (v, a)" using x by (auto simp: two_view_def split: option.splits if_splits)
  show "\<exists>e. r = Inl e \<and> IsInvalid e" "two_view w' = two_view w" if "apply_ops (dec v, alloc_doc a) ops = None"
    using p that by (auto simp: two_kube_def w)
  fix b assume b: "apply_ops (dec v, alloc_doc a) ops = Some (dec v, alloc_doc b) \<and> distinct (map fst b)"
  let ?b = "read_doc (alloc_doc b) (map fst a @ op_keys ops)"
  have r: "r = Inr ()" "w' = w(n \<mapsto> (Suc v, ?b))" using p b by (auto simp: two_kube_def w)
  show "r = Inr ()" by (rule r(1))
  note d = read_doc_apply [of "dec v" a ops "dec v" b]
  have "two_view w' = (two_view w)(n \<mapsto> (Suc v, ?b))" using d(2) b by (auto simp: r(2) two_view_def fun_eq_iff)
  then show "\<exists>v' b'. v < v' \<and> distinct (map fst b') \<and> map_of b' = map_of b \<and> two_view w' = (two_view w)(n \<mapsto> (v', b'))"
    using d b by (intro exI [of _ "Suc v"] exI [of _ ?b]) blast
qed

theorem add_all_or_nothing_witness:
  "\<exists>ips e w'. IPManagementKubernetesUpdate two_kube env_ex Allocate ipam_ex two_conf two_start = (ips, Some e, w')
    \<and> map_option fst (w' ''10.0.0.0-29'') = Some 2
    \<and> owners (two_first ''10.0.0.0-29'') (two_view w' ''10.0.0.0-29'') = owners (two_first ''10.0.0.0-29'') (two_view two_start ''10.0.0.0-29'')"
proof -
  let ?call = "IPManagementKubernetesUpdate two_kube env_ex Allocate ipam_ex two_conf two_start"
  have c: "case ?call of (ips, e, w') \<Rightarrow> e \<noteq> None \<and> map_option fst (w' ''10.0.0.0-29'') = Some 2" by code_simp
  then obtain ips e w' where call: "?call = (ips, Some e, w')" and v: "map_option fst (w' ''10.0.0.0-29'') = Some 2"
    by (cases ?call) auto
  have n: "ic_IPRanges two_conf = [lan_conf, annex_conf]" "ic_NodeSliceSize two_conf = []" by code_simp+
  have r: "range_ok (two_first ''10.0.0.0-29'') lan lan_conf"
    "range_ok (two_first ''10.0.1.0-30'') \<lparr> net_IP = [10, 0, 1, 0], net_Mask = [255, 255, 255, 252] \<rparr> annex_conf" by code_simp+
  have s: "valid_ip (two_first ''10.0.0.0-29'')" "pool_ok (two_first ''10.0.0.0-29'') (the (two_view two_start ''10.0.0.0-29''))"
    "valid_ip (two_first ''10.0.1.0-30'')" "pool_ok (two_first ''10.0.1.0-30'') (the (two_view two_start ''10.0.1.0-30''))" by code_simp+
  have t: "pred_option (pool_ok (two_first n)) (two_view two_start n)" if "pool_ok (two_first n) (the (two_view two_start n))" for n
    using that by (cases "two_view two_start n") simp_all
  have M: "range_pool two_conf ` set (ic_IPRanges two_conf) = {''10.0.0.0-29'', ''10.0.1.0-30''}" by (simp add: n two_ranges(4,5))
  have a: "quiet two_kube (ki_Namespace ipam_ex) (range_pool two_conf ` set (ic_IPRanges two_conf)) two_first two_view"
    "store_ok (range_pool two_conf ` set (ic_IPRanges two_conf)) two_first (two_view two_start)"
    using two_quiet s t by (simp_all add: M store_ok_def)
  have d: "distinct (map (range_pool two_conf) (ic_IPRanges two_conf))"
    "\<forall>r\<in>set (ic_IPRanges two_conf). \<exists>N. range_ok (two_first (range_pool two_conf r)) N r"
    using r by (auto simp: n(1) two_ranges(4,5))
  from add_all_or_nothing [OF a n(2) d call, of "''10.0.0.0-29''"] show ?thesis using call v by auto
qed

end
