(* ===== verification/Release.thy ===== *)
theory Release
  imports Rollback
begin

text \<open>
  DEL, and ADD followed by DEL, for several ranges on the server of \<^verbatim>\<open>Rollback\<close>: reliable and without other
  writers. A release is by container and interface, an allocation by pod and interface; so entries of
  a pool are compared here with all four of address, container, pod and interface.
\<close>

lemma elsewhere_entries: "elsewhere n P Q \<Longrightarrow> m \<noteq> n \<Longrightarrow> entries f (Q m) = entries f (P m)"
  unfolding elsewhere_def using untouched_entries [of "P(n := None)" "Q(n := None)" f m] by simp

section \<open>Releasing from a list\<close>

text \<open>A release looks for the container and the interface.\<close>

abbreviation of_container :: "string \<Rightarrow> string \<Rightarrow> addr \<times> string \<times> string \<times> string \<Rightarrow> bool" where
  "of_container c i e \<equiv> fst (snd e) = c \<and> snd (snd (snd e)) = i"

definition released :: "string \<Rightarrow> string \<Rightarrow> (addr \<times> string \<times> string \<times> string) set \<Rightarrow> (addr \<times> string \<times> string \<times> string) set" where
  "released c i S = {e \<in> S. \<not> of_container c i e}"

definition once :: "string \<Rightarrow> string \<Rightarrow> (addr \<times> string \<times> string \<times> string) set \<Rightarrow> bool" where
  "once c i S \<longleftrightarrow> (\<forall>e\<in>S. \<forall>e'\<in>S. of_container c i e \<longrightarrow> of_container c i e' \<longrightarrow> e = e')"

lemma released_idem [simp]: "released c i (released c i S) = released c i S"
  by (auto simp: released_def)

lemma once_released: "once c i S \<Longrightarrow> once c i (released c i S)"
  by (simp add: once_def released_def)

lemma released_insert:
  assumes "v \<notin> S" "of_container c i v" "once c i (insert v S)"
  shows "released c i (insert v S) = S"
proof -
  have "\<not> of_container c i e" if "e \<in> S" for e using assms that unfolding once_def by (metis insertCI)
  then show ?thesis using assms(2) by (auto simp: released_def)
qed

lemma DeallocateIP_entries:
  assumes "rl_inv A" "once c i (set (map res_view A))" "DeallocateIP A c i = (rl, ip)"
  shows "set (map res_view rl) = released c i (set (map res_view A))" "set rl \<subseteq> set A" "ip = [] \<Longrightarrow> rl = A"
proof -
  have "set (map res_view rl) = released c i (set (map res_view A)) \<and> set rl \<subseteq> set A \<and> (ip = [] \<longrightarrow> rl = A)"
  proof (cases "\<exists>r\<in>set A. ir_ContainerID r = c \<and> ir_IfName r = i")
    case True
    obtain xs r ys where x: "A = xs @ r # ys" "ir_ContainerID r = c" "ir_IfName r = i" "ip = ir_IP r" "mset rl = mset (xs @ ys)"
      using DeallocateIP_match [OF True] assms(3) by auto
    have s: "set rl = set xs \<union> set ys" using mset_eq_setD [OF x(5)] by simp
    have "ip \<noteq> []" using assms(1) by (auto simp: x(1,4) rl_inv_def reservations_valid_def valid_ip_def)
    moreover have "distinct (map res_view A)"
      using assms(1) by (auto simp: rl_inv_def ip_unique_def distinct_map res_view_def inj_on_def)
    then have n: "res_view r \<notin> set (map res_view rl)" by (auto simp: x(1) s)
    have A: "set (map res_view A) = insert (res_view r) (set (map res_view rl))" by (auto simp: x(1) s)
    have c: "of_container c i (res_view r)" using x(2,3) by (simp add: res_view_def)
    have "released c i (set (map res_view A)) = set (map res_view rl)"
      unfolding A by (rule released_insert [OF n c assms(2) [unfolded A]])
    moreover have "set rl \<subseteq> set A" using s x(1) by auto
    ultimately show ?thesis by simp
  next
    case False
    then have "getMatchingIPReservationIndex A c i < 0" using getMatching_neg by blast
    then have "rl = A" using assms(3) by (simp add: DeallocateIP_def Let_def)
    moreover have "released c i (set (map res_view A)) = set (map res_view A)"
      using False by (auto simp: released_def res_view_def)
    ultimately show ?thesis by simp
  qed
  then show "set (map res_view rl) = released c i (set (map res_view A))" "set rl \<subseteq> set A" "ip = [] \<Longrightarrow> rl = A" by simp_all
qed

lemma DeallocateIP_inv:
  assumes "rl_inv A" "DeallocateIP A c i = (rl, ip)"
  shows "rl_inv rl"
proof (cases "\<exists>r\<in>set A. ir_ContainerID r = c \<and> ir_IfName r = i")
  case True
  obtain xs r ys where x: "A = xs @ r # ys" "mset rl = mset (xs @ ys)" using DeallocateIP_match [OF True] assms(2) by auto
  have "rl_inv (xs @ ys)" using assms(1) unfolding x(1) by (auto simp: rl_inv_def ip_unique_def owner_unique_def reservations_valid_def)
  then show ?thesis using rl_inv_mset [OF x(2)] by simp
next
  case False
  then have "getMatchingIPReservationIndex A c i < 0" using getMatching_neg by blast
  then show ?thesis using assms by (simp add: DeallocateIP_def Let_def)
qed

section \<open>Releasing from a pool\<close>

text \<open>Reads fail only if the pool does not exist, and the context of the call is not done.\<close>

definition reliable :: "('w, 'x) kube_scheme \<Rightarrow> string \<Rightarrow> bool" where
  "reliable k ns \<longleftrightarrow> (\<forall>n w e w'. k_GetIPPool k ns n w = (Inl e, w') \<longrightarrow> IsNotFound e) \<and> (\<forall>w. fst (k_CtxErr k w) = None)"

lemma reliable_ctx: "reliable k ns \<Longrightarrow> fst (k_CtxErr k w) = None"
  by (simp add: reliable_def)

lemma quiet_existing:
  assumes "quiet k (ki_Namespace ipam) M first pools" "IPPoolName (ls_poolID st) \<in> M" "phase_pool k Deallocate ipam st w = (fl, st', w')"
  shows "fl = Next_phase \<Longrightarrow> \<exists>kp x. ls_pool st' = Some kp \<and> ls_err st' = None \<and> holds (ki_Namespace ipam) first (IPPoolName (ls_poolID st)) kp
      \<and> pools w' (IPPoolName (ls_poolID st)) = Some x \<and> copy_of x (kp_pool kp)"
    and "fl = Break_loop \<Longrightarrow> pools w (IPPoolName (ls_poolID st)) = None"
    and "reliable k (ki_Namespace ipam) \<Longrightarrow> fl = Next_phase \<or> fl = Break_loop"
proof -
  obtain r w1 where g: "GetExistingIPPool k ipam (ls_poolID st) w = (r, w1)" by fastforce
  note run = assms(3) [unfolded phase_pool_def g, simplified]
  have w1: "w' = w1" if "fl = Next_phase \<or> fl = Break_loop" using run that by (auto simp: backoff_continue_def split: sum.splits if_splits)
  have inl: "pools w (IPPoolName (ls_poolID st)) = None \<and> (\<exists>e'. k_GetIPPool k (ki_Namespace ipam) (IPPoolName (ls_poolID st)) w = (Inl e', w1) \<and> (IsNotFound e' \<longrightarrow> IsNotFound e))"
    if e: "r = Inl e" for e
  proof -
    obtain q w2 where q: "k_GetIPPool k (ki_Namespace ipam) (IPPoolName (ls_poolID st)) w = (q, w2)" by fastforce
    have "\<exists>e'. q = Inl e' \<and> w2 = w1 \<and> (IsNotFound e' \<longrightarrow> IsNotFound e)"
    proof (cases q)
      case (Inl e')
      then show ?thesis using g e q by (auto simp: GetExistingIPPool_def getExistingPool_def with_firstIP_def)
    next
      case (Inr pool)
      then obtain N where "IPPool_ParseCIDR pool = Inr (first (IPPoolName (ls_poolID st)), N)" using quiet_range [OF assms(1,2)] q by blast
      then show ?thesis using g e q Inr by (simp add: GetExistingIPPool_def getExistingPool_def with_firstIP_def)
    qed
    then show ?thesis using q quiet_found [OF assms(1,2)] by blast
  qed
  show "\<exists>kp x. ls_pool st' = Some kp \<and> ls_err st' = None \<and> holds (ki_Namespace ipam) first (IPPoolName (ls_poolID st)) kp
      \<and> pools w' (IPPoolName (ls_poolID st)) = Some x \<and> copy_of x (kp_pool kp)" if n: "fl = Next_phase"
  proof -
    obtain kp where kp: "r = Inr kp" "st' = st\<lparr>ls_pool := Some kp, ls_err := None\<rparr>" "w' = w1" using run n by (auto simp: backoff_continue_def split: sum.splits if_splits)
    then show ?thesis using quiet_read [OF assms(1,2) disjI2, of w kp w1] g by auto
  qed
  show "pools w (IPPoolName (ls_poolID st)) = None" if "fl = Break_loop"
    using run that inl by (auto simp: backoff_continue_def split: sum.splits if_splits)
  have "IsNotFound e" if "r = Inl e" "reliable k (ki_Namespace ipam)" for e using inl [OF that(1)] that(2) unfolding reliable_def by blast
  then show "fl = Next_phase \<or> fl = Break_loop" if "reliable k (ki_Namespace ipam)"
    using run that by (cases r) (auto split: if_splits)
qed

text \<open>A release at the pool \<open>n\<close>: its entries are kept or those of the container are gone; the latter if it is \<open>finished\<close>.\<close>

definition del_step :: "KubernetesIPAM \<Rightarrow> string set \<Rightarrow> (string \<Rightarrow> IP) \<Rightarrow> string \<Rightarrow> bool \<Rightarrow> pool_store \<Rightarrow> pool_store \<Rightarrow> bool" where
  "del_step ipam M first n finished P Q \<longleftrightarrow> store_ok M first Q \<and> elsewhere n P Q
     \<and> (entries (first n) (Q n) = entries (first n) (P n) \<and> \<not> finished
        \<or> entries (first n) (Q n) = released (ki_ContainerID ipam) (ki_IfName ipam) (entries (first n) (P n)))"

abbreviation none_twice :: "KubernetesIPAM \<Rightarrow> (string \<Rightarrow> IP) \<Rightarrow> string \<Rightarrow> pool_store \<Rightarrow> bool" where
  "none_twice ipam first n P \<equiv> once (ki_ContainerID ipam) (ki_IfName ipam) (entries (first n) (P n))"

lemma del_step_untouched: "untouched P Q \<Longrightarrow> store_ok M first P \<Longrightarrow> \<not> finished \<Longrightarrow> del_step ipam M first n finished P Q"
  by (simp add: del_step_def untouched_ok elsewhere_untouched untouched_entries)

lemma del_step_trans:
  assumes "del_step ipam M first n False P Q" "del_step ipam M first n finished Q R"
  shows "del_step ipam M first n finished P R"
  using assms by (auto simp: del_step_def intro: elsewhere_trans)

lemma del_step_twice: "del_step ipam M first n finished P Q \<Longrightarrow> none_twice ipam first n P \<Longrightarrow> none_twice ipam first n Q"
  by (auto simp: del_step_def once_released)

lemma quiet_del_write:
  assumes "quiet k (ki_Namespace ipam) M first pools" "store_ok M first (pools w)" "n \<in> M" "none_twice ipam first n (pools w)"
    and "holds (ki_Namespace ipam) first n kp" "pools w n = Some x" "copy_of x (kp_pool kp)" "\<not> ls_skipPool st"
    and "DeallocateIP (Allocations kp) (ki_ContainerID ipam) (ki_IfName ipam) = (ls_updated st, ip)"
    and "phase_update k conf kp st w = (fl, st', w')"
  shows "fl = Next_phase \<and> del_step ipam M first n True (pools w) (pools w') \<and> (\<exists>kp'. st' = st\<lparr>ls_pool := Some kp', ls_err := None\<rparr>)"
proof -
  have ok: "valid_ip (first n)" "pool_ok (first n) x" using store_okD [OF assms(2,3)] assms(6) by simp_all
  have v: "mset (map res_view (Allocations kp)) = mset (map res_view (stored (first n) (snd x)))"
    using copy_view [OF assms(7)] assms(5) ok(2) by (simp add: pool_ok_def holds_def)
  have A: "rl_inv (Allocations kp)" "pooled (first n) (Allocations kp)" "kept (Allocations kp) = Allocations kp"
    using rl_inv_view [OF v] pooled_view [OF v] ok(2) kept_Allocations [of "\<lambda>_. True" kp] by (simp_all add: pool_ok_def)
  have S: "set (map res_view (Allocations kp)) = entries (first n) (pools w n)" using mset_eq_setD [OF v] by (simp add: assms(6) entries_def)
  note D = DeallocateIP_entries [OF A(1) assms(4) [folded S] assms(9)]
  have k: "kept (ls_updated st) = ls_updated st" using D(2) A(3) by (auto simp: filter_id_conv)
  have rl: "rl_inv (ls_updated st)" "pooled (first n) (ls_updated st)"
    using DeallocateIP_inv [OF A(1) assms(9)] A(2) D(2) by (auto simp: pooled_def)
  obtain e kp' w1 w2 where u: "untouched (pools w) (pools w1)" "Update k kp (kept (ls_updated st)) w1 = (e, kp', w2)"
      "fl = Next_phase \<Longrightarrow> e = None \<and> w' = w2 \<and> st' = st\<lparr>ls_pool := Some kp', ls_err := None\<rparr>" "fl \<noteq> Next_phase \<Longrightarrow> e \<noteq> None"
    using phase_update_cases [OF assms(10,8) quiet_reads [OF assms(1)]] by metis
  have x1: "pools w1 n = Some x" by (rule untouched_Some [OF u(1) assms(6)])
  have dx: "distinct (map fst (snd x))" using ok(2) by (simp add: pool_ok_def)
  obtain y where y: "e = None" "pools w2 = (pools w1)(n \<mapsto> y)" "distinct (map fst (snd y))"
      "mset (map res_view (stored (first n) (snd y))) = mset (map res_view (ls_updated st))"
    using quiet_update [OF assms(1,5) x1 assms(7) dx ok(1) rl u(2) [unfolded k]] by metis
  have s: "fl = Next_phase" "w' = w2" "st' = st\<lparr>ls_pool := Some kp', ls_err := None\<rparr>" using u(3,4) y(1) by auto
  have "pool_ok (first n) y" using y(3) rl_inv_view [OF y(4)] pooled_view [OF y(4)] rl by (simp add: pool_ok_def)
  then have "store_ok M first (pools w')" unfolding s(2) y(2) by (rule store_ok_write [OF untouched_ok [OF u(1) assms(2)]])
  moreover have "elsewhere n (pools w) (pools w')"
    unfolding s(2) y(2) by (rule elsewhere_trans [OF elsewhere_untouched [OF u(1)] elsewhere_write])
  moreover have "entries (first n) (pools w' n) = released (ki_ContainerID ipam) (ki_IfName ipam) (entries (first n) (pools w n))"
    using D(1) S mset_eq_setD [OF y(4)] by (simp add: entries_def s(2) y(2))
  ultimately show ?thesis using s(1,3) by (auto simp: del_step_def)
qed

lemma phase_reserve_release:
  assumes "api_reads k (\<lambda>w w'. untouched (pools w) (pools w'))" "phase_reserve k Deallocate ipam conf st w = (fl, st', w')"
  shows "untouched (pools w) (pools w')" "\<not> ic_OverlappingRanges conf \<Longrightarrow> fl = Break_loop \<and> st' = st"
  using assms(2) unfolding phase_reserve_def Let_def
  by (auto simp: Allocate_def Deallocate_def untouched_refl split: prod.splits option.splits if_splits
      dest!: api_reads.o_update_orip [OF assms(1)] api_reads.o_backoff [OF assms(1)] intro: untouched_trans)

lemma phase_release_cases:
  assumes "phase_release ipam conf kp st w = (fl, st', w')" "ls_overlapping st = []" "\<not> ls_skipPool st"
  obtains rl ip where "DeallocateIP (Allocations kp) (ki_ContainerID ipam) (ki_IfName ipam) = (rl, ip)"
    "w' = w" "ls_poolID st' = ls_poolID st" "ls_err st' = ls_err st"
    "ip \<noteq> [] \<Longrightarrow> fl = Next_phase \<and> \<not> ls_skipPool st' \<and> ls_updated st' = rl"
    "ip = [] \<Longrightarrow> fl = Break_loop \<or> fl = Next_phase \<and> ls_skipPool st'"
proof -
  obtain rl ip where d: "DeallocateIP (Allocations kp) (ki_ContainerID ipam) (ki_IfName ipam) = (rl, ip)" by fastforce
  show thesis by (rule that [OF d]) (use assms d in \<open>auto simp: phase_release_def Let_def split: if_splits\<close>)
qed

lemma quiet_release:
  assumes "quiet k (ki_Namespace ipam) M first pools" "store_ok M first (pools w)" "n \<in> M" "none_twice ipam first n (pools w)"
    "ic_NodeSliceSize conf = []" "n = IPPoolName \<lparr> pi_IPRange = rc_Range (ls_ipRange st), pi_NetworkName = ic_NetworkName conf, pi_NodeName = [] \<rparr>"
    "ls_overlapping st = []" "attempt k env Deallocate ipam conf pref st w = (fl, st', w')"
  shows "del_step ipam M first n (fl = Break_loop \<and> ls_err st' = None) (pools w) (pools w')" "fl = Continue \<Longrightarrow> ls_err st' \<noteq> None"
    and "reliable k (ki_Namespace ipam) \<Longrightarrow> \<not> ic_OverlappingRanges conf \<Longrightarrow> fl = Break_loop \<and> ls_err st' = None"
proof -
  note reads = quiet_reads [OF assms(1)]
  have D: "(Deallocate = Allocate) = False" by (simp add: Allocate_def Deallocate_def)
  obtain f1 st1 w1 f2 st2 w2 f3 st3 w3 f4 st4 w4 f5 st5 w5 where
    p: "phase_range k env ipam conf st w = (f1, st1, w1)" "phase_pool k Deallocate ipam st1 w1 = (f2, st2, w2)"
      "phase_release ipam conf (the (ls_pool st2)) st2 w2 = (f3, st3, w3)"
      "phase_update k conf (the (ls_pool st2)) st3 w3 = (f4, st4, w4)" "phase_reserve k Deallocate ipam conf st4 w4 = (f5, st5, w5)"
    and run: "(fl, st', w') = (if f1 \<noteq> Next_phase then (f1, st1, w1) else if f2 \<noteq> Next_phase then (f2, st2, w2)
      else if f3 \<noteq> Next_phase then (f3, st3, w3) else if f4 \<noteq> Next_phase then (f4, st4, w4) else (f5, st5, w5))"
    by (rule attempt_eq [of k env ipam conf st w Deallocate pref]; rule that) (use assms(8) D in simp_all)
  have u: "untouched (pools w) (pools w1)" "untouched (pools w1) (pools w2)"
    using api_reads.o_phase_range [OF reads p(1)] api_reads.o_phase_pool [OF reads p(2)] .
  then have u2: "untouched (pools w) (pools w2)" by (rule untouched_trans)
  have st2: "ls_overlapping st2 = []" "\<not> ls_skipPool st2"
    using phase_range_next(1,3) [OF p(1)] phase_pool_next(1,3) [OF p(2)] assms(7) by simp_all
  obtain rl ip where rel: "DeallocateIP (Allocations (the (ls_pool st2))) (ki_ContainerID ipam) (ki_IfName ipam) = (rl, ip)"
    "w3 = w2" "ls_poolID st3 = ls_poolID st2" "ls_err st3 = ls_err st2" "ip \<noteq> [] \<Longrightarrow> f3 = Next_phase \<and> \<not> ls_skipPool st3 \<and> ls_updated st3 = rl"
    "ip = [] \<Longrightarrow> f3 = Break_loop \<or> f3 = Next_phase \<and> ls_skipPool st3"
    by (rule phase_release_cases [OF p(3) st2]) blast
  have n: "IPPoolName (ls_poolID st1) = n" if "f1 = Next_phase" using phase_range_plain(3) [OF p(1) assms(5)] assms(6) that by simp
  note ex = quiet_existing [OF assms(1) _ p(2)]
  have read: "\<exists>kp x. ls_pool st2 = Some kp \<and> ls_err st2 = None \<and> holds (ki_Namespace ipam) first n kp \<and> pools w2 n = Some x \<and> copy_of x (kp_pool kp)
      \<and> pool_ok (first n) x" if q: "f1 = Next_phase" "f2 = Next_phase"
    using ex(1) n [OF q(1)] assms(3) q(2) store_okD(2) [OF untouched_ok [OF u2 assms(2)] assms(3)] by blast
  have skip: "f4 = Next_phase \<and> st4 = st3 \<and> untouched (pools w3) (pools w4)" if "ls_skipPool st3"
    using p(4) that api_reads.o_Sleep [OF reads] untouched_refl unfolding phase_update_def Let_def by (auto split: if_splits)
  note res = phase_reserve_release [OF reads p(5)] phase_reserve_next(4) [OF p(5)]
  have twice2: "none_twice ipam first n (pools w2)" using assms(4) untouched_entries [OF u2] by simp
  consider (range) "f1 \<noteq> Next_phase" | (pool) "f1 = Next_phase" "f2 \<noteq> Next_phase"
    | (none) "f1 = Next_phase" "f2 = Next_phase" "ip = []" | (found) "f1 = Next_phase" "f2 = Next_phase" "ip \<noteq> []" by blast
  then have "del_step ipam M first n (fl = Break_loop \<and> ls_err st' = None) (pools w) (pools w') \<and> (fl = Continue \<longrightarrow> ls_err st' \<noteq> None)
    \<and> (reliable k (ki_Namespace ipam) \<and> \<not> ic_OverlappingRanges conf \<longrightarrow> fl = Break_loop \<and> ls_err st' = None)"
  proof cases
    case range
    then have e: "fl = f1" "st' = st1" "w' = w1" using run by auto
    have "\<not> (f1 = Break_loop \<and> ls_err st1 = None)" "f1 \<noteq> Continue" using phase_range_next(4,5) [OF p(1)] by auto
    moreover have "fst (k_CtxErr k w) \<noteq> None"
      using p(1) range assms(5) unfolding phase_range_def Let_def by (auto split: prod.splits option.splits)
    then have "\<not> reliable k (ki_Namespace ipam)" using reliable_ctx by metis
    moreover have "del_step ipam M first n False (pools w) (pools w1)" by (rule del_step_untouched [OF u(1) assms(2)]) simp
    moreover have "(f1 = Break_loop \<and> ls_err st1 = None) = False" using calculation by blast
    ultimately show ?thesis unfolding e by metis
  next
    case pool
    then have e: "fl = f2" "st' = st2" "w' = w2" using run by auto
    have M: "IPPoolName (ls_poolID st1) \<in> M" using n pool(1) assms(3) by simp
    have "del_step ipam M first n False (pools w) (pools w2)" by (rule del_step_untouched [OF u2 assms(2)]) simp
    moreover have "del_step ipam M first n True (pools w) (pools w2)" if "f2 = Break_loop"
    proof -
      have "pools w1 n = None" using ex(2) [OF M that] n pool(1) by simp
      then have "entries (first n) (pools w n) = {}" using untouched_entries [OF u(1), of "first n" n] by (simp add: entries_def)
      then show ?thesis
        using untouched_ok [OF u2 assms(2)] elsewhere_untouched [OF u2] untouched_entries [OF u2, of "first n" n] by (simp add: del_step_def released_def)
    qed
    moreover have "f2 = Break_loop" if "reliable k (ki_Namespace ipam)"
      using ex(3) [OF M that] pool(2) by blast
    moreover have "ls_err st2 = None" if "f2 = Break_loop" using p(2) that unfolding phase_pool_def backoff_continue_def by (auto split: prod.splits sum.splits if_splits)
    ultimately show ?thesis using phase_pool_next(5) [OF p(2)] unfolding e by (cases "f2 = Break_loop") auto
  next
    case none
    obtain kp x where kp: "ls_pool st2 = Some kp" "ls_err st2 = None" "holds (ki_Namespace ipam) first n kp" "pools w2 n = Some x" "copy_of x (kp_pool kp)"
        "pool_ok (first n) x" using read [OF none(1,2)] by blast
    have v: "mset (map res_view (Allocations kp)) = mset (map res_view (stored (first n) (snd x)))"
      using copy_view [OF kp(5)] kp(3,6) by (simp add: pool_ok_def holds_def)
    have S: "set (map res_view (Allocations kp)) = entries (first n) (pools w2 n)" using mset_eq_setD [OF v] by (simp add: kp(4) entries_def)
    have "rl_inv (Allocations kp)" using rl_inv_view [OF v] kp(6) by (simp add: pool_ok_def)
    note d = DeallocateIP_entries [OF this twice2 [folded S] rel(1) [unfolded kp(1) option.sel]]
    have "released (ki_ContainerID ipam) (ki_IfName ipam) (entries (first n) (pools w n)) = entries (first n) (pools w n)"
      using d(1,3) none(3) S untouched_entries [OF u2, of "first n" n] by simp
    moreover have uw: "untouched (pools w) (pools w')"
      using run none rel(2,6) skip res(1) u2 by (auto split: if_splits intro: untouched_trans)
    ultimately have 1: "del_step ipam M first n finished (pools w) (pools w')" for finished
      using untouched_ok [OF uw assms(2)] elsewhere_untouched [OF uw] untouched_entries [OF uw, of "first n" n] by (simp add: del_step_def)
    have "fl = Continue \<longrightarrow> ls_err st' \<noteq> None" using run none rel(6) skip res(3) by (auto split: if_splits)
    moreover have "fl = Break_loop \<and> ls_err st' = None" if "\<not> ic_OverlappingRanges conf"
      using run none rel(4,6) skip res(2) that kp(2) by (auto split: if_splits)
    ultimately show ?thesis using 1 by blast
  next
    case found
    obtain kp x where kp: "ls_pool st2 = Some kp" "holds (ki_Namespace ipam) first n kp" "pools w2 n = Some x" "copy_of x (kp_pool kp)"
      using read [OF found(1,2)] by blast
    have f3: "f3 = Next_phase" "\<not> ls_skipPool st3" "ls_updated st3 = rl" using rel(5) found(3) by simp_all
    note wr = quiet_del_write [OF assms(1) untouched_ok [OF u2 assms(2)] assms(3) twice2 kp(2-4) f3(2)]
    have 4: "f4 = Next_phase" "del_step ipam M first n True (pools w2) (pools w4)" "ls_err st4 = None"
      using wr [OF _ p(4) [unfolded kp(1) option.sel rel(2)]] rel(1) f3(3) kp(1) by auto
    have e: "fl = f5" "st' = st5" "w' = w5" using run found f3(1) 4(1) by simp_all
    have "del_step ipam M first n False (pools w) (pools w2)" by (rule del_step_untouched [OF u2 assms(2)]) simp
    then have "del_step ipam M first n True (pools w) (pools w4)" using 4(2) by (rule del_step_trans)
    then have "del_step ipam M first n finished (pools w) (pools w')" for finished
      using untouched_ok [OF res(1)] elsewhere_trans [OF _ elsewhere_untouched [OF res(1)]] untouched_entries [OF res(1), of "first n" n]
      unfolding e(3) by (auto simp: del_step_def)
    moreover have "fl = Break_loop \<and> ls_err st' = None" if "\<not> ic_OverlappingRanges conf" using res(2) that 4(3) unfolding e by simp
    ultimately show ?thesis using res(3) unfolding e by blast
  qed
  then show "del_step ipam M first n (fl = Break_loop \<and> ls_err st' = None) (pools w) (pools w')" "fl = Continue \<Longrightarrow> ls_err st' \<noteq> None"
    "reliable k (ki_Namespace ipam) \<Longrightarrow> \<not> ic_OverlappingRanges conf \<Longrightarrow> fl = Break_loop \<and> ls_err st' = None" by simp_all
qed

lemma quiet_release_loop:
  assumes "quiet k (ki_Namespace ipam) M first pools" "store_ok M first (pools w)" "n \<in> M" "none_twice ipam first n (pools w)"
    "ic_NodeSliceSize conf = []" "n = IPPoolName \<lparr> pi_IPRange = rc_Range (ls_ipRange st), pi_NetworkName = ic_NetworkName conf, pi_NodeName = [] \<rparr>"
    "ls_overlapping st = []" "retry_loop m k env Deallocate ipam conf pref st w = (fl, st', w')" "m \<noteq> 0 \<or> ls_err st \<noteq> None"
  shows "del_step ipam M first n ((\<forall>e. fl \<noteq> Return e) \<and> ls_err st' = None) (pools w) (pools w') \<and> ls_overlapping st' = []
    \<and> (m \<noteq> 0 \<and> reliable k (ki_Namespace ipam) \<and> \<not> ic_OverlappingRanges conf \<longrightarrow> fl = Break_loop \<and> ls_err st' = None)"
  using assms(2,4,6-9)
proof (induction m arbitrary: w st)
  case 0
  then show ?case using del_step_untouched [OF untouched_refl 0(1), of False ipam n] by auto
next
  case (Suc m)
  obtain f1 st1 w1 where a: "attempt k env Deallocate ipam conf pref st w = (f1, st1, w1)" by (metis prod_cases3)
  note rel = quiet_release [OF assms(1) Suc.prems(1) assms(3) Suc.prems(2) assms(5) Suc.prems(3,4) a] and keep = release_attempt_keeps [OF a assms(5) Suc.prems(4)]
  show ?case
  proof (cases "f1 = Continue")
    case True
    have d: "del_step ipam M first n False (pools w) (pools w1)" using rel(1) True by simp
    have rest: "retry_loop m k env Deallocate ipam conf pref st1 w1 = (fl, st', w')" using Suc.prems(5) a True by simp
    have ok: "store_ok M first (pools w1)" using d by (simp add: del_step_def)
    have "del_step ipam M first n ((\<forall>e. fl \<noteq> Return e) \<and> ls_err st' = None) (pools w1) (pools w') \<and> ls_overlapping st' = []"
      using Suc.IH [OF ok del_step_twice [OF d Suc.prems(2)] _ _ rest] keep Suc.prems(3) rel(2) [OF True] by simp
    then show ?thesis using del_step_trans [OF d] rel(3) True by auto
  next
    case False
    then have e: "fl = f1" "st' = st1" "w' = w1" using Suc.prems(5) a by (cases f1; simp)+
    have "(\<forall>e. f1 \<noteq> Return e) = (f1 = Break_loop)" using attempt_ends [OF a] False by (cases f1) auto
    then show ?thesis using rel(1,3) keep unfolding e by simp
  qed
qed

section \<open>Releasing from all ranges\<close>

lemma quiet_release_ranges:
  assumes "quiet k (ki_Namespace ipam) M first pools" "ic_NodeSliceSize conf = []"
    "store_ok M first (pools w)" "\<forall>n\<in>M. none_twice ipam first n (pools w)" "range_pool conf ` set ranges \<subseteq> M" "rs_overlapping rs = []"
    "all_ranges k env Deallocate ipam conf pref ranges rs w = (err, rs', w')"
  shows "store_ok M first (pools w')
    \<and> (\<forall>n. entries (first n) (pools w' n) = entries (first n) (pools w n)
          \<or> n \<in> range_pool conf ` set ranges \<and> entries (first n) (pools w' n) = released (ki_ContainerID ipam) (ki_IfName ipam) (entries (first n) (pools w n)))
    \<and> (err = None \<longrightarrow> (\<forall>n\<in>range_pool conf ` set ranges.
          entries (first n) (pools w' n) = released (ki_ContainerID ipam) (ki_IfName ipam) (entries (first n) (pools w n))))
    \<and> (reliable k (ki_Namespace ipam) \<and> \<not> ic_OverlappingRanges conf \<longrightarrow> err = None)"
  using assms(3-7)
proof (induction ranges arbitrary: rs w)
  case Nil
  then show ?case by simp
next
  case (Cons r ranges)
  let ?n = "range_pool conf r" and ?st = "start_range rs conf r" and ?R = "released (ki_ContainerID ipam) (ki_IfName ipam)"
  obtain fl st w1 where loop: "retry_loop DatastoreRetries k env Deallocate ipam conf pref ?st w = (fl, st, w1)" by (metis prod_cases3)
  have st0: "ls_ipRange ?st = r" "ls_overlapping ?st = []" "DatastoreRetries \<noteq> 0" "?n \<in> M" "none_twice ipam first ?n (pools w)"
    using Cons.prems(2,3,4) by (simp_all add: start_range_def DatastoreRetries_def)
  have "?n = IPPoolName \<lparr> pi_IPRange = rc_Range (ls_ipRange ?st), pi_NetworkName = ic_NetworkName conf, pi_NodeName = [] \<rparr>"
    by (simp add: range_pool_def st0)
  note L = quiet_release_loop [OF assms(1) Cons.prems(1) st0(4,5) assms(2) this st0(2) loop disjI1 [OF st0(3)]]
  let ?done = "(\<forall>e. fl \<noteq> Return e) \<and> ls_err st = None"
  have d: "del_step ipam M first ?n ?done (pools w) (pools w1)" using L by blast
  have w1: "store_ok M first (pools w1)" "\<forall>n. n \<noteq> ?n \<longrightarrow> entries (first n) (pools w1 n) = entries (first n) (pools w n)"
    "entries (first ?n) (pools w1 ?n) = entries (first ?n) (pools w ?n) \<and> \<not> ?done \<or> entries (first ?n) (pools w1 ?n) = ?R (entries (first ?n) (pools w ?n))"
    using d elsewhere_entries [of ?n "pools w" "pools w1"] by (auto simp: del_step_def)
  show ?case
  proof (cases ?done)
    case False
    then have res: "err \<noteq> None" "w' = w1" using Cons.prems(5) loop by (auto split: flow.splits option.splits)
    have "\<not> (reliable k (ki_Namespace ipam) \<and> \<not> ic_OverlappingRanges conf)" using L False st0(3) by auto
    moreover have "entries (first n) (pools w1 n) = entries (first n) (pools w n) \<or> n \<in> range_pool conf ` set (r # ranges)
        \<and> entries (first n) (pools w1 n) = ?R (entries (first n) (pools w n))" for n using w1(2,3) by (cases "n = ?n") auto
    ultimately show ?thesis using w1(1) unfolding res(2) using res(1) by blast
  next
    case True
    have rest: "all_ranges k env Deallocate ipam conf pref ranges (finish_range Deallocate ipam conf st rs) w1 = (err, rs', w')"
      using Cons.prems(5) loop True by (cases fl) auto
    have o: "rs_overlapping (finish_range Deallocate ipam conf st rs) = []" using L by (simp add: finish_range_def Let_def Allocate_def Deallocate_def)
    have E: "entries (first ?n) (pools w1 ?n) = ?R (entries (first ?n) (pools w ?n))" using w1(3) True by blast
    have t: "none_twice ipam first n (pools w1)" if "n \<in> M" for n
      using w1(2) E Cons.prems(2) once_released that by (cases "n = ?n") simp_all
    have s: "range_pool conf ` set ranges \<subseteq> M" using Cons.prems(3) by simp
    note IH = Cons.IH [OF w1(1) ballI [OF t] s o rest]
    have ih1: "entries (first n) (pools w' n) = entries (first n) (pools w1 n) \<or> n \<in> range_pool conf ` set ranges
        \<and> entries (first n) (pools w' n) = ?R (entries (first n) (pools w1 n))" for n
      by (rule spec [OF conjunct1 [OF conjunct2 [OF IH]]])
    have ih2: "entries (first n) (pools w' n) = ?R (entries (first n) (pools w1 n))" if "err = None" "n \<in> range_pool conf ` set ranges" for n
      using conjunct1 [OF conjunct2 [OF conjunct2 [OF IH]]] that by blast
    have same: "entries (first n) (pools w1 n) = entries (first n) (pools w n)" if "n \<noteq> ?n" for n using w1(2) that by blast
    have 1: "entries (first n) (pools w' n) = entries (first n) (pools w n) \<or> n \<in> range_pool conf ` set (r # ranges)
        \<and> entries (first n) (pools w' n) = ?R (entries (first n) (pools w n))" for n
      using ih1 [of n] same [of n] E by (cases "n = ?n") auto
    have 2: "entries (first n) (pools w' n) = ?R (entries (first n) (pools w n))" if e: "err = None" and n: "n \<in> range_pool conf ` set (r # ranges)" for n
      using ih1 [of n] ih2 [OF e, of n] same [of n] E n by (cases "n = ?n") auto
    have "store_ok M first (pools w')" and rel: "reliable k (ki_Namespace ipam) \<and> \<not> ic_OverlappingRanges conf \<longrightarrow> err = None" using IH by simp_all
    with 1 2 show ?thesis by (intro conjI rel) (assumption | intro allI impI ballI)+
  qed
qed

text \<open>
  A DEL on a reliable API, with nobody else writing to its pools, where no pool holds two addresses
  for the container and interface. If it ends without error, the reservations of the container's interface are
  gone from the pool of every range, and no other reservation of any pool has changed; if it fails, some of these
  pools are as they were. Without overlapping ranges it does not fail as long as reads fail for missing pools only
  and its context is not done.
\<close>

lemma del_releases:
  assumes "quiet k (ki_Namespace ipam) (range_pool conf ` set (ic_IPRanges conf)) first pools"
    "store_ok (range_pool conf ` set (ic_IPRanges conf)) first (pools w)" "ic_NodeSliceSize conf = []"
    "\<forall>n\<in>range_pool conf ` set (ic_IPRanges conf). none_twice ipam first n (pools w)"
    "IPManagementKubernetesUpdate k env Deallocate ipam conf w = (ips, err, w')"
  shows "(\<forall>n. entries (first n) (pools w' n) = entries (first n) (pools w n)
      \<or> n \<in> range_pool conf ` set (ic_IPRanges conf)
        \<and> entries (first n) (pools w' n) = released (ki_ContainerID ipam) (ki_IfName ipam) (entries (first n) (pools w n)))
    \<and> (err = None \<longrightarrow> (\<forall>n\<in>range_pool conf ` set (ic_IPRanges conf).
        entries (first n) (pools w' n) = released (ki_ContainerID ipam) (ki_IfName ipam) (entries (first n) (pools w n))))
    \<and> (reliable k (ki_Namespace ipam) \<and> \<not> ic_OverlappingRanges conf \<longrightarrow> err = None)"
proof -
  define rs where "rs = \<lparr> rs_newips = [], rs_committed = [], rs_overlapping = [], rs_ipfor = [], rs_newip = \<lparr> net_IP = [], net_Mask = [] \<rparr> \<rparr>"
  obtain rs' w2 where all: "all_ranges k env Deallocate ipam conf [] (ic_IPRanges conf) rs w = (err, rs', w2)" and w': "w' = w2"
    using assms(5) unfolding IPManagementKubernetesUpdate_def preferred_of_def rs_def [symmetric]
    by (auto simp: Let_def Allocate_def Deallocate_def split: prod.splits)
  have o: "rs_overlapping rs = []" by (simp add: rs_def)
  show ?thesis using quiet_release_ranges [OF assms(1,3,2,4) subset_refl o all] unfolding w' by (rule conjunct2)
qed

section \<open>ADD and DEL\<close>

lemma entries_owner_unique:
  assumes "store_ok M first P" "n \<in> M" "e \<in> entries (first n) (P n)" "e' \<in> entries (first n) (P n)" "snd (snd e) = snd (snd e')"
  shows "e = e'"
proof -
  obtain x where x: "P n = Some x" using assms(3) by (cases "P n") (simp_all add: entries_def)
  have "owner_unique (stored (first n) (snd x))" using store_okD(2) [OF assms(1,2) x] by (simp add: pool_ok_def rl_inv_def)
  then have "inj_on (\<lambda>r. (ir_PodRef r, ir_IfName r)) (set (stored (first n) (snd x)))" by (simp add: owner_unique_def distinct_map)
  moreover obtain r r' where "r \<in> set (stored (first n) (snd x))" "r' \<in> set (stored (first n) (snd x))" "e = res_view r" "e' = res_view r'"
    using assms(3,4) by (auto simp: entries_def x)
  ultimately show ?thesis using assms(5) by (auto simp: res_view_def dest: inj_onD)
qed

text \<open>Neither the pod's interface nor the container has a reservation.\<close>

definition fresh_pod :: "KubernetesIPAM \<Rightarrow> IPAMConfig \<Rightarrow> (addr \<times> string \<times> string \<times> string) set \<Rightarrow> bool" where
  "fresh_pod ipam conf S \<longleftrightarrow> (\<forall>e\<in>S. snd (snd e) \<noteq> (GetPodRef conf, ki_IfName ipam) \<and> \<not> of_container (ki_ContainerID ipam) (ki_IfName ipam) e)"

lemma added_released:
  assumes "only_own (ki_ContainerID ipam) (GetPodRef conf, ki_IfName ipam) S T" "fresh_pod ipam conf S"
    and "\<And>e e'. e \<in> T \<Longrightarrow> e' \<in> T \<Longrightarrow> snd (snd e) = snd (snd e') \<Longrightarrow> e = e'"
  shows "once (ki_ContainerID ipam) (ki_IfName ipam) T" "released (ki_ContainerID ipam) (ki_IfName ipam) T = S"
proof -
  have keep: "{e \<in> T. snd (snd e) \<noteq> (GetPodRef conf, ki_IfName ipam)} = {e \<in> S. snd (snd e) \<noteq> (GetPodRef conf, ki_IfName ipam)}"
    and new: "e \<in> T \<Longrightarrow> e \<in> S \<or> fst (snd e) = ki_ContainerID ipam" for e using assms(1) by (auto simp: only_own_def)
  have S: "snd (snd e) \<noteq> (GetPodRef conf, ki_IfName ipam) \<and> \<not> of_container (ki_ContainerID ipam) (ki_IfName ipam) e" if "e \<in> S" for e
    using assms(2) that by (simp add: fresh_pod_def)
  have old: "e \<in> T \<and> snd (snd e) \<noteq> (GetPodRef conf, ki_IfName ipam) \<longleftrightarrow> e \<in> S" for e
    using arg_cong [OF keep, of "\<lambda>X. e \<in> X"] S [of e] unfolding mem_Collect_eq by blast
  have own: "of_container (ki_ContainerID ipam) (ki_IfName ipam) e \<longleftrightarrow> snd (snd e) = (GetPodRef conf, ki_IfName ipam)" if e: "e \<in> T" for e
  proof (cases "e \<in> S")
    case True
    then show ?thesis using S by blast
  next
    case False
    then show ?thesis using new [OF e] old [of e] e by simp
  qed
  show "once (ki_ContainerID ipam) (ki_IfName ipam) T" using own assms(3) unfolding once_def by metis
  show "released (ki_ContainerID ipam) (ki_IfName ipam) T = S" using own old unfolding released_def by blast
qed

text \<open>
  C7: ADD and DEL on a reliable API with nobody else writing to the pools, for a pod interface and
  container without reservations. However the ADD ends, a DEL that ends without error leaves every pool of the
  configured ranges with the reservations it had before the ADD: address, container, pod and interface of each. And without
  overlapping ranges the DEL does end without error, as long as reads fail for missing pools only
  and its context is not done.
\<close>

theorem add_del_roundtrip:
  assumes "quiet k (ki_Namespace ipam) (range_pool conf ` set (ic_IPRanges conf)) first pools"
    "store_ok (range_pool conf ` set (ic_IPRanges conf)) first (pools w)" "ic_NodeSliceSize conf = []"
    "distinct (map (range_pool conf) (ic_IPRanges conf))" "\<forall>r\<in>set (ic_IPRanges conf). \<exists>N. range_ok (first (range_pool conf r)) N r"
    "\<forall>n\<in>range_pool conf ` set (ic_IPRanges conf). fresh_pod ipam conf (entries (first n) (pools w n))"
    "IPManagementKubernetesUpdate k env Allocate ipam conf w = (ips, err, w1)"
    "IPManagementKubernetesUpdate k env' Deallocate ipam conf w1 = (ips', err', w2)"
  shows "(err' = None \<longrightarrow> (\<forall>n\<in>range_pool conf ` set (ic_IPRanges conf). entries (first n) (pools w2 n) = entries (first n) (pools w n)))
    \<and> (reliable k (ki_Namespace ipam) \<and> \<not> ic_OverlappingRanges conf \<longrightarrow> err' = None)"
proof -
  let ?M = "range_pool conf ` set (ic_IPRanges conf)"
  note add = quiet_add(3,4) [OF assms(1-5,7)]
  have once: "none_twice ipam first n (pools w1)"
    and rel: "released (ki_ContainerID ipam) (ki_IfName ipam) (entries (first n) (pools w1 n)) = entries (first n) (pools w n)" if n: "n \<in> ?M" for n
  proof -
    have "only_own (ki_ContainerID ipam) (GetPodRef conf, ki_IfName ipam) (entries (first n) (pools w n)) (entries (first n) (pools w1 n))"
      using add(2) by (simp add: others_kept_def)
    moreover have "fresh_pod ipam conf (entries (first n) (pools w n))" using assms(6) n by blast
    ultimately show "none_twice ipam first n (pools w1)"
      "released (ki_ContainerID ipam) (ki_IfName ipam) (entries (first n) (pools w1 n)) = entries (first n) (pools w n)"
      using added_released entries_owner_unique [OF add(1) n] by metis+
  qed
  have "\<forall>n\<in>?M. none_twice ipam first n (pools w1)" using once by blast
  note del = del_releases [OF assms(1) add(1) assms(3) this assms(8)]
  have "entries (first n) (pools w2 n) = entries (first n) (pools w n)" if "err' = None" "n \<in> ?M" for n
    using bspec [OF mp [OF conjunct1 [OF conjunct2 [OF del]] that(1)] that(2)] rel [OF that(2)] by simp
  moreover have "reliable k (ki_Namespace ipam) \<and> \<not> ic_OverlappingRanges conf \<longrightarrow> err' = None" by (rule conjunct2 [OF conjunct2 [OF del]])
  ultimately show ?thesis by (intro conjI) (assumption | intro impI ballI)+
qed

text \<open>A pool with one free address.\<close>

definition annex_only :: IPAMConfig where
  "annex_only = two_conf\<lparr>ic_IPRanges := [annex_conf], ic_OverlappingRanges := False\<rparr>"

definition annex_start :: pool_store where
  "annex_start = [''10.0.1.0-30'' \<mapsto> (0, [(''1'', lan_alloc ''a'')])]"

theorem add_del_roundtrip_witness:
  "\<exists>ips w1 ips' w2. IPManagementKubernetesUpdate two_kube env_ex Allocate ipam_ex annex_only annex_start = (ips, None, w1) \<and> length ips = 1
    \<and> IPManagementKubernetesUpdate two_kube env_ex Deallocate ipam_ex annex_only w1 = (ips', None, w2)
    \<and> entries (two_first ''10.0.1.0-30'') (two_view w2 ''10.0.1.0-30'') = entries (two_first ''10.0.1.0-30'') (two_view annex_start ''10.0.1.0-30'')"
proof -
  let ?n = "''10.0.1.0-30''"
  have "case IPManagementKubernetesUpdate two_kube env_ex Allocate ipam_ex annex_only annex_start of (ips, e, w1) \<Rightarrow> e = None \<and> length ips = 1" by code_simp
  then obtain ips w1 where add: "IPManagementKubernetesUpdate two_kube env_ex Allocate ipam_ex annex_only annex_start = (ips, None, w1)" "length ips = 1" by auto
  obtain ips' err' w2 where del: "IPManagementKubernetesUpdate two_kube env_ex Deallocate ipam_ex annex_only w1 = (ips', err', w2)" by (metis prod_cases3)
  have n: "ic_IPRanges annex_only = [annex_conf]" "ic_NodeSliceSize annex_only = []" "\<not> ic_OverlappingRanges annex_only" "range_pool annex_only annex_conf = ?n"
    "range_ok (two_first ?n) \<lparr> net_IP = [10, 0, 1, 0], net_Mask = [255, 255, 255, 252] \<rparr> annex_conf"
    "valid_ip (two_first ?n)" "pool_ok (two_first ?n) (the (two_view annex_start ?n))" "fresh_pod ipam_ex annex_only (entries (two_first ?n) (two_view annex_start ?n))" by code_simp+
  have M: "range_pool annex_only ` set (ic_IPRanges annex_only) = {?n}" by (simp add: n)
  have q: "quiet two_kube (ki_Namespace ipam_ex) {?n} two_first two_view"
    using two_quiet [of "ki_Namespace ipam_ex"] by (auto simp: quiet_def)
  have r: "reliable two_kube (ki_Namespace ipam_ex)" by (auto simp: reliable_def two_kube_def split: option.splits)
  have "pred_option (pool_ok (two_first ?n)) (two_view annex_start ?n)" using n(7) by (cases "two_view annex_start ?n") simp_all
  then have s: "store_ok {?n} two_first (two_view annex_start)" by (simp add: store_ok_def n(6))
  have d: "distinct (map (range_pool annex_only) (ic_IPRanges annex_only))" by (simp add: n(1))
  have ok: "\<forall>r\<in>set (ic_IPRanges annex_only). \<exists>N. range_ok (two_first (range_pool annex_only r)) N r"
    unfolding n(1) using n(4,5) by (metis empty_iff empty_set insert_iff list.simps(15))
  have fr: "\<forall>m\<in>range_pool annex_only ` set (ic_IPRanges annex_only). fresh_pod ipam_ex annex_only (entries (two_first m) (two_view annex_start m))"
    unfolding M using n(8) by blast
  note rt = add_del_roundtrip [OF q [folded M] s [folded M] n(2) d ok fr add(1) del, unfolded M]
  have "err' = None" using rt r n(3) by blast
  then show ?thesis using add del rt by blast
qed

end
