(* ===== verification/Exclusive.thy ===== *)
theory Exclusive
  imports Storage
begin

text \<open>
  Overlapping ranges: several pools may contain one address, and the cluster-wide reservation
  decides who has it. The API's store of reservations is a map from namespace and name to
  objects, and an object has a UID that no other object ever has.
\<close>

section \<open>The store of reservations\<close>

type_synonym orip_store = "string \<times> string \<rightharpoonup> OverlappingRangeIPReservation"

text \<open>The same object with its specification is stored under the name before and after a call, so during the call, too.\<close>

definition stays :: "('w \<Rightarrow> orip_store) \<Rightarrow> string \<times> string \<Rightarrow> string \<Rightarrow> 'w \<Rightarrow> bool" where
  "stays view key uid w \<longleftrightarrow> (\<exists>r. view w key = Some r \<and> om_UID (ov_Meta r) = uid)"

text \<open>
  The API keeps uniqueness of names and the specification of an object, whatever others do during a
  call: while an object is stored under a name, none is created under this name, and a read
  finds it and no other.
\<close>

definition reservation_store :: "('w, 'x) kube_scheme \<Rightarrow> ('w \<Rightarrow> orip_store) \<Rightarrow> bool" where
  "reservation_store k view \<longleftrightarrow>
     (\<forall>ns name w x w' uid. k_GetORIP k ns name w = (x, w') \<and> stays view (ns, name) uid w \<and> stays view (ns, name) uid w'
        \<longrightarrow> (case x of Inl e \<Rightarrow> \<not> IsNotFound e | Inr r \<Rightarrow> ov_Spec r = ov_Spec (the (view w (ns, name)))))
     \<and> (\<forall>ns r w w' uid. k_CreateORIP k ns r w = (Inr (), w')
        \<longrightarrow> \<not> (stays view (ns, om_Name (ov_Meta r)) uid w \<and> stays view (ns, om_Name (ov_Meta r)) uid w'))"

lemma store_get:
  assumes "reservation_store k view" "k_GetORIP k ns name w = (x, w')" "stays view (ns, name) uid w" "stays view (ns, name) uid w'"
  shows "case x of Inl e \<Rightarrow> \<not> IsNotFound e | Inr r \<Rightarrow> ov_Spec r = ov_Spec (the (view w (ns, name)))"
  using assms unfolding reservation_store_def by blast

lemma store_create:
  assumes "reservation_store k view" "k_CreateORIP k ns r w = (Inr (), w')" "stays view (ns, om_Name (ov_Meta r)) uid w"
    "stays view (ns, om_Name (ov_Meta r)) uid w'"
  shows False
  using assms unfolding reservation_store_def by blast

lemma lookup_finds_stored:
  assumes "reservation_store k view" "GetOverlappingRangeIPReservation k ns ip net w = (Inr (Some res), w')"
    and "\<And>w1. reaches k w w1 \<Longrightarrow> reaches k w1 w' \<Longrightarrow> stays view (ns, NormalizeIP ip net) uid w1"
  shows "ov_Spec res = ov_Spec (the (view w (ns, NormalizeIP ip net)))"
proof -
  obtain x w1 where g: "k_GetORIP k ns (NormalizeIP ip net) w = (x, w1)" by fastforce
  have run: "reaches k w w1" using g by (auto intro: api_step.intros)
  have rest: "reaches k w1 w'" using assms(2) g unfolding GetOverlappingRangeIPReservation_def Let_def
    by (auto split: sum.splits prod.splits if_splits intro: api_step.intros)
  have "case x of Inl e \<Rightarrow> \<not> IsNotFound e | Inr r \<Rightarrow> ov_Spec r = ov_Spec (the (view w (ns, NormalizeIP ip net)))"
    using store_get [OF assms(1) g, of uid] assms(3) [of w] assms(3) [of w1] run rest rtranclp_trans [OF run rest] by blast
  then show ?thesis using assms(2) g unfolding GetOverlappingRangeIPReservation_def Let_def by (auto split: sum.splits)
qed

lemma written_reaches: "written k env ipam conf r ipn w w2 \<Longrightarrow> reaches k w w2"
  unfolding written_def using api.o_get_pool api.o_Update by (metis (no_types, lifting) rtranclp_trans)

section \<open>Reserved addresses are not assigned\<close>

text \<open>
  C11: An address that is reserved for another pod, or for another interface of the pod, is not assigned
  from any pool: if the same reservation is stored from the beginning of an attempt to its end,
  and the attempt ends the retry loop without an error, the attempt has another address. Others may use
  the API during every call.
\<close>

theorem reserved_elsewhere_not_assigned:
  assumes "attempt k env Allocate ipam conf pref st w = (Break_loop, st', w')" "ls_err st' = None" "only_dummies (ls_overlapping st)"
    and "ic_OverlappingRanges conf" "reservation_store k view" "valid_ip x"
    and "\<And>w1. reaches k w w1 \<Longrightarrow> reaches k w1 w' \<Longrightarrow> \<exists>r. view w1 (ki_Namespace ipam, NormalizeIP x (ic_NetworkName conf)) = Some r
        \<and> om_UID (ov_Meta r) = uid \<and> ov_Spec r = owner"
    and "os_PodRef owner \<noteq> GetPodRef conf \<or> os_IfName owner \<noteq> ki_IfName ipam"
  shows "ip_addr (net_IP (ls_newip st')) \<noteq> ip_addr x"
proof
  let ?ip = "net_IP (ls_newip st')" and ?ns = "ki_Namespace ipam" and ?net = "ic_NetworkName conf"
  assume eq: "ip_addr ?ip = ip_addr x"
  then have v: "valid_ip ?ip" using assms(6) by (simp add: ip_addr_valid)
  note name = NormalizeIP_cong [OF v assms(6) eq, of ?net]
  have kept: "stays view (?ns, NormalizeIP ?ip ?net) uid w1" "ov_Spec (the (view w1 (?ns, NormalizeIP ?ip ?net))) = owner"
    if "reaches k w w1" "reaches k w1 w'" for w1
    using assms(7) [OF that] unfolding stays_def name by auto
  obtain w2 where w2: "reaches k w w2" "owns_orip k ipam conf ?ip w w2 \<and> w' = w2
      \<or> UpdateOverlappingRangeAllocation k ?ns Allocate ?ip (GetPodRef conf) (ki_IfName ipam) ?net (ic_PodUID conf) w2 = (None, w')"
    using attempt_success [OF assms(1-3) derived_refl] assms(4) by (auto dest: written_reaches)
  from w2(2) show False
  proof
    assume own: "owns_orip k ipam conf ?ip w w2 \<and> w' = w2"
    then obtain w0 res w0' where g: "reaches k w w0" "GetOverlappingRangeIPReservation k ?ns ?ip ?net w0 = (Inr (Some res), w0')"
        "os_PodRef (ov_Spec res) = GetPodRef conf" "os_IfName (ov_Spec res) = ki_IfName ipam" "reaches k w0' w'"
      unfolding owns_orip_def by blast
    have "reaches k w0 w0'" using api.o_get_orip [OF g(2)] .
    then have "ov_Spec res = owner"
      using lookup_finds_stored [OF assms(5) g(2), of uid] kept g(1,5) by (metis rtranclp_trans)
    then show False using assms(8) g(3,4) by simp
  next
    assume u: "UpdateOverlappingRangeAllocation k ?ns Allocate ?ip (GetPodRef conf) (ki_IfName ipam) ?net (ic_PodUID conf) w2 = (None, w')"
    then have c: "k_CreateORIP k ?ns (new_orip (NormalizeIP ?ip ?net) ?ns (GetPodRef conf) (ki_IfName ipam) (ic_PodUID conf)) w2 = (Inr (), w')"
      unfolding UpdateOverlappingRangeAllocation_def Let_def by (auto split: prod.splits sum.splits)
    have r: "reaches k w2 w'" using api.o_update_orip [OF u] .
    show False
      by (rule store_create [OF assms(5) c, of uid]) (use kept(1) r w2(1) rtranclp_trans [OF w2(1) r] in \<open>simp_all add: new_orip_def\<close>)
  qed
qed

text \<open>A store with one reservation of the pod \<^verbatim>\<open>ns/p0\<close>, and an attempt that has met it before.\<close>

definition taken_orip :: OverlappingRangeIPReservation where
  "taken_orip = new_orip ''10.0.0.1'' ''kube-system'' ''ns/p0'' ''eth0'' ''u0''"

definition taken_kube :: "nat kube" where
  "taken_kube = quiet_kube\<lparr>k_GetORIP := \<lambda>ns name w. (if ns = ''kube-system'' \<and> name = ''10.0.0.1'' then Inr taken_orip else Inl (ApiErr NotFound), w),
     k_CreateORIP := \<lambda>ns r w. (if ns = ''kube-system'' \<and> om_Name (ov_Meta r) = ''10.0.0.1'' then Inl (ApiErr AlreadyExists) else Inr (), Suc w)\<rparr>"

definition met_before :: loop_state where
  "met_before = (start_range \<lparr> rs_newips = [], rs_committed = [], rs_overlapping = [], rs_ipfor = [],
     rs_newip = \<lparr> net_IP = [], net_Mask = [] \<rparr> \<rparr> ipam_conf_ex range_ex)\<lparr>ls_overlapping := [dummy [10, 0, 0, 1]]\<rparr>"

theorem reserved_elsewhere_not_assigned_witness:
  "\<exists>st' w'. attempt taken_kube env_ex Allocate ipam_ex ipam_conf_ex [] met_before 0 = (Break_loop, st', w') \<and> ls_err st' = None
    \<and> ip_addr (net_IP (ls_newip st')) \<noteq> ip_addr [10, 0, 0, 1]"
proof -
  have "fst (attempt taken_kube env_ex Allocate ipam_ex ipam_conf_ex [] met_before 0) = Break_loop"
    "ls_err (fst (snd (attempt taken_kube env_ex Allocate ipam_ex ipam_conf_ex [] met_before 0))) = None"
    by code_simp+
  then obtain st' w' where a: "attempt taken_kube env_ex Allocate ipam_ex ipam_conf_ex [] met_before 0 = (Break_loop, st', w')" "ls_err st' = None"
    by (metis prod.collapse)
  let ?view = "\<lambda>_. [(''kube-system'', ''10.0.0.1'') \<mapsto> taken_orip] :: orip_store"
  have s: "reservation_store taken_kube ?view"
    unfolding reservation_store_def stays_def by (auto simp: taken_kube_def)
  have n: "NormalizeIP [10, 0, 0, 1] (ic_NetworkName ipam_conf_ex) = ''10.0.0.1''" by code_simp
  have d: "only_dummies (ls_overlapping met_before)" "ic_OverlappingRanges ipam_conf_ex" "valid_ip [10, 0, 0, 1]"
    by (auto simp: met_before_def only_dummies_def ipam_conf_ex_def valid_ip_def)
  have o: "os_PodRef (ov_Spec taken_orip) \<noteq> GetPodRef ipam_conf_ex \<or> os_IfName (ov_Spec taken_orip) \<noteq> ki_IfName ipam_ex" by code_simp
  have ns: "ki_Namespace ipam_ex = ''kube-system''" by (simp add: ipam_ex_def newKubernetesIPAM_def)
  have "ip_addr (net_IP (ls_newip st')) \<noteq> ip_addr [10, 0, 0, 1]"
    by (rule reserved_elsewhere_not_assigned [where view = ?view and uid = "om_UID (ov_Meta taken_orip)", OF a d(1,2) s d(3) _ o]) (simp add: n ns)
  then show ?thesis using a by blast
qed

section \<open>Releases are not conditional\<close>

text \<open>
  The plugin deletes a cluster-wide reservation by its name only; the check of the pod's UID is a read
  before. If the reconciler removes the reservation of the deleted pod in between and another pod
  reserves the address, the release removes the reservation of that pod, and the address can be
  assigned from another pool while it is in use. The world is what is stored under the name.
\<close>

definition other_orip :: OverlappingRangeIPReservation where
  "other_orip = new_orip ''10.0.0.1'' ''kube-system'' ''ns/p1'' ''eth0'' ''u1''"

definition racing_kube :: "OverlappingRangeIPReservation option kube" where
  "racing_kube =
     \<lparr> k_GetIPPool = (\<lambda>_ _ w. (Inl (ApiErr NotFound), w)), k_CreateIPPool = (\<lambda>_ _ w. (Inr (), w)), k_PatchIPPool = (\<lambda>_ _ _ w. (Inr (), w)),
       k_GetORIP = (\<lambda>_ _ w. (case w of Some r \<Rightarrow> Inr r | None \<Rightarrow> Inl (ApiErr NotFound), Some other_orip)),
       k_CreateORIP = (\<lambda>_ r w. case w of None \<Rightarrow> (Inr (), Some r) | Some _ \<Rightarrow> (Inl (ApiErr AlreadyExists), w)),
       k_DeleteORIP = (\<lambda>_ _ uid w. case w of
          None \<Rightarrow> (Inl (ApiErr NotFound), w)
        | Some r \<Rightarrow> if uid = None \<or> uid = Some (om_UID (ov_Meta r)) then (Inr (), None) else (Inl (ApiErr Conflict), w)),
       k_ListORIPs = (\<lambda>_ w. (Inr [], w)), k_GetNodeSlicePool = (\<lambda>_ _ w. (Inl (ApiErr NotFound), w)),
       k_GetPod = (\<lambda>_ _ w. (Inl (ApiErr NotFound), w)), k_CtxErr = (\<lambda>w. (None, w)), k_Rand = (\<lambda>_ w. (0, w)), k_Sleep = (\<lambda>_ w. w) \<rparr>"

theorem release_removes_foreign_reservation:
  "uid_guard racing_kube ''kube-system'' ''10.0.0.1'' ''u0'' [] (Some taken_orip) = (Inr (), Some other_orip)
   \<and> UpdateOverlappingRangeAllocation racing_kube ''kube-system'' Deallocate [10, 0, 0, 1] ''ns/p0'' ''eth0'' [] ''u0'' (Some taken_orip) = (None, None)"
  by code_simp

end
