(* ===== verification/Paths.thy ===== *)
theory Paths
  imports Prelude
begin

text \<open>
  The functions of Go's \<^verbatim>\<open>path/filepath\<close> that the configuration, the installer and the log file use,
  for Unix paths.
\<close>

section \<open>Definitions\<close>

text \<open>\<^verbatim>\<open>filepath.Clean\<close>: the stack holds the elements kept so far, the last first.\<close>

fun clean_parts :: "bool \<Rightarrow> string list \<Rightarrow> string list \<Rightarrow> string list" where
  "clean_parts rooted st [] = rev st"
| "clean_parts rooted st (p # ps) =
     (if p = [] \<or> p = ''.'' then clean_parts rooted st ps
      else if p = ''..''
      then (case st of
              [] \<Rightarrow> clean_parts rooted (if rooted then [] else [''..'']) ps
            | t # ts \<Rightarrow> clean_parts rooted (if t = ''..'' then ''..'' # st else ts) ps)
      else clean_parts rooted (p # st) ps)"

definition IsAbs :: "string \<Rightarrow> bool" where
  "IsAbs path \<longleftrightarrow> path \<noteq> [] \<and> hd path = CHR ''/''"

definition elems :: "string \<Rightarrow> string list" where
  "elems path = clean_parts (IsAbs path) [] (split_on (CHR ''/'') path)"

definition Clean :: "string \<Rightarrow> string" where
  "Clean path =
     (if path = [] then ''.''
      else let body = join (CHR ''/'') (elems path)
           in if IsAbs path then CHR ''/'' # body else if body = [] then ''.'' else body)"

text \<open>\<^verbatim>\<open>filepath.Join\<close> of two elements, and \<^verbatim>\<open>filepath.Dir\<close>.\<close>

definition Join :: "string \<Rightarrow> string \<Rightarrow> string" where
  "Join a b =
     (if a = [] then (if b = [] then [] else Clean b) else if b = [] then Clean a else Clean (a @ ''/'' @ b))"

definition Dir :: "string \<Rightarrow> string" where
  "Dir path = Clean (rev (dropWhile (\<lambda>c. c \<noteq> CHR ''/'') (rev path)))"

text \<open>\<^verbatim>\<open>filepath.Rel\<close> for an absolute target.\<close>

fun strip_common :: "string list \<Rightarrow> string list \<Rightarrow> string list \<times> string list" where
  "strip_common (b # bs) (t # ts) = (if b = t then strip_common bs ts else (b # bs, t # ts))"
| "strip_common bs ts = (bs, ts)"

definition Rel :: "string \<Rightarrow> string \<Rightarrow> string result" where
  "Rel basepath targpath =
     (if \<not> IsAbs basepath then Inl (Msg ''Rel: can't make target relative to base'')
      else case strip_common (elems basepath) (elems targpath) of
             (bs, ts) \<Rightarrow> if bs = [] \<and> ts = [] then Inr ''.''
                         else Inr (join (CHR ''/'') (map (\<lambda>_. ''..'') bs @ ts)))"

section \<open>Clean paths\<close>

definition plain_elem :: "string \<Rightarrow> bool" where
  "plain_elem e \<longleftrightarrow> e \<noteq> [] \<and> e \<noteq> ''.'' \<and> e \<noteq> ''..'' \<and> CHR ''/'' \<notin> set e"

lemma split_on_parts: "p \<in> set (split_on c s) \<Longrightarrow> c \<notin> set p"
  by (induction s arbitrary: p) (auto split: if_splits list.splits)

lemma clean_parts_plain:
  assumes "list_all plain_elem st" "\<forall>p\<in>set ps. CHR ''/'' \<notin> set p"
  shows "list_all plain_elem (clean_parts True st ps)"
  using assms
proof (induction ps arbitrary: st)
  case (Cons p ps)
  then show ?case by (cases st) (auto simp: plain_elem_def)
qed (simp add: list_all_rev)

lemma elems_plain: "IsAbs path \<Longrightarrow> list_all plain_elem (elems path)"
  unfolding elems_def by (simp add: clean_parts_plain split_on_parts)

lemma clean_parts_id: "list_all plain_elem ps \<Longrightarrow> clean_parts True st ps = rev st @ ps"
  by (induction ps arbitrary: st) (auto simp: plain_elem_def)

lemma Clean_abs: "IsAbs path \<Longrightarrow> Clean path = CHR ''/'' # join (CHR ''/'') (elems path)"
  by (auto simp: Clean_def IsAbs_def)

text \<open>Cleaning an absolute path keeps its elements, so it is idempotent.\<close>

lemma elems_Clean:
  assumes "IsAbs path"
  shows "IsAbs (Clean path)" "elems (Clean path) = elems path"
proof -
  have c: "Clean path = CHR ''/'' # join (CHR ''/'') (elems path)"
    using assms by (rule Clean_abs)
  show i: "IsAbs (Clean path)" by (simp add: c IsAbs_def)
  have pl: "list_all plain_elem (elems path)" using elems_plain [OF assms] .
  then have "list_all (\<lambda>x. CHR ''/'' \<notin> set x) (elems path)" by (auto simp: list_all_iff plain_elem_def)
  then have "split_on (CHR ''/'') (join (CHR ''/'') (elems path)) = (if elems path = [] then [[]] else elems path)"
    using split_on_join [of "elems path" "CHR ''/''"] by auto
  then have "split_on (CHR ''/'') (Clean path) = [] # (if elems path = [] then [[]] else elems path)"
    by (simp add: c)
  then show "elems (Clean path) = elems path"
    using i clean_parts_id [OF pl, of "[]"] by (auto simp: elems_def [of "Clean path"])
qed

theorem Clean_idempotent: "IsAbs path \<Longrightarrow> Clean (Clean path) = Clean path"
  using elems_Clean [of path] by (auto simp: Clean_def IsAbs_def split: if_splits)

section \<open>Relative paths\<close>

lemma strip_common_spec: "strip_common bs ts = (bs', ts') \<Longrightarrow> \<exists>c. bs = c @ bs' \<and> ts = c @ ts'"
proof (induction bs ts rule: strip_common.induct)
  case (1 b bs t ts)
  then show ?case by (cases "b = t") (auto intro: exI [of _ "b # _"] exI [of _ "[]"])
qed auto

lemma strip_common_append: "strip_common bs (bs @ ts) = ([], ts)"
  by (induction bs) (cases ts; simp)+

lemma strip_common_prefix: "fst (strip_common bs ts) = [] \<longleftrightarrow> (\<exists>rest. ts = bs @ rest)"
  using strip_common_spec [of bs ts] strip_common_append [of bs] by (metis append_Nil2 fst_conv surj_pair)

section \<open>Joining and splitting off an element\<close>

lemma split_on_snoc: "c \<notin> set e \<Longrightarrow> split_on c (p @ c # e) = split_on c p @ [e]"
  by (induction p) (auto simp: split_on_notin split: list.splits)

lemma clean_parts_snoc: "plain_elem e \<Longrightarrow> clean_parts r st (ps @ [e]) = clean_parts r st ps @ [e]"
  by (induction r st ps rule: clean_parts.induct) (auto simp: plain_elem_def split: list.splits)

lemma elems_snoc:
  assumes "IsAbs p" "plain_elem e"
  shows "elems (p @ CHR ''/'' # e) = elems p @ [e]"
  using assms by (cases p) (simp_all add: elems_def split_on_snoc clean_parts_snoc plain_elem_def IsAbs_def)

lemma Join_abs:
  assumes "IsAbs p" "plain_elem e"
  shows "Join p e = CHR ''/'' # join (CHR ''/'') (elems p @ [e])"
proof -
  have "p \<noteq> []" "e \<noteq> []" "IsAbs (p @ CHR ''/'' # e)" using assms by (auto simp: IsAbs_def plain_elem_def)
  then show ?thesis using elems_snoc [OF assms] by (simp add: Join_def Clean_def)
qed

lemma join_snoc: "join c (xs @ [e]) = (if xs = [] then e else join c xs @ c # e)"
  by (induction c xs rule: join.induct) auto

lemma Join_inject:
  assumes "IsAbs p" "plain_elem e" "plain_elem e'"
  shows "Join p e = Join p e' \<longleftrightarrow> e = e'"
  using assms by (auto simp: Join_abs join_snoc)

lemma Dir_Join:
  assumes "IsAbs p" "plain_elem e"
  shows "Dir (Join p e) = Clean p"
proof -
  have dw: "dropWhile (\<lambda>c. c \<noteq> CHR ''/'') (rev e @ CHR ''/'' # xs) = CHR ''/'' # xs" for xs
    using assms(2) by (subst dropWhile_append2) (auto simp: plain_elem_def)
  let ?b = "if elems p = [] then [] else CHR ''/'' # join (CHR ''/'') (elems p)"
  have "rev (Join p e) = rev e @ CHR ''/'' # rev ?b"
    using assms by (simp add: Join_abs join_snoc)
  then have "rev (dropWhile (\<lambda>c. c \<noteq> CHR ''/'') (rev (Join p e))) = ?b @ ''/''"
    by (simp only: dw) simp
  then have d: "Dir (Join p e) = Clean (?b @ ''/'')" by (simp add: Dir_def)
  note c = Clean_abs [OF assms(1)]
  show ?thesis
  proof (cases "elems p = []")
    case True
    then show ?thesis unfolding d c by (simp add: Clean_def IsAbs_def elems_def)
  next
    case False
    have "elems (Clean p @ ''/'') = elems p"
    proof -
      have "split_on (CHR ''/'') (Clean p @ CHR ''/'' # []) = split_on (CHR ''/'') (Clean p) @ [[]]"
        by (rule split_on_snoc) simp
      moreover have "clean_parts r st (ps @ [[]]) = clean_parts r st ps" for r st ps
        by (induction r st ps rule: clean_parts.induct) (auto split: list.splits)
      ultimately have "elems (Clean p @ ''/'') = elems (Clean p)"
        by (simp add: elems_def IsAbs_def c)
      then show ?thesis using elems_Clean(2) [OF assms(1)] by simp
    qed
    moreover have "IsAbs (Clean p @ ''/'')" by (simp add: c IsAbs_def)
    ultimately have "Clean (Clean p @ ''/'') = Clean p" using Clean_abs c by metis
    then show ?thesis using False unfolding d c by simp
  qed
qed

lemma Join_Clean: "IsAbs p \<Longrightarrow> plain_elem e \<Longrightarrow> Join (Clean p) e = Join p e"
  by (simp add: Join_abs elems_Clean)

lemma IsAbs_Join: "IsAbs p \<Longrightarrow> plain_elem e \<Longrightarrow> IsAbs (Join p e)"
  by (simp add: Join_abs) (simp add: IsAbs_def)

end
