(* ===== verification/Config.thy ===== *)
theory Config
  imports Storage Paths
begin

text \<open>
  \<^verbatim>\<open>pkg/config/config.go\<close>: loading the IPAM configuration from the network configuration, the
  CNI arguments and the flat file. Decoding of JSON, \<^verbatim>\<open>cnitypes.LoadArgs\<close> and the file system are
  parameters; \<^verbatim>\<open>mergo.Merge\<close> is translated for the configuration's fields. Setting the log file and
  level, and the text of messages, are left out.
\<close>

section \<open>Definitions\<close>

definition DefaultLeaderLeaseDuration :: int where
  "DefaultLeaderLeaseDuration = 1500"

definition DefaultLeaderRenewDeadline :: int where
  "DefaultLeaderRenewDeadline = 1000"

definition DefaultLeaderRetryPeriod :: int where
  "DefaultLeaderRetryPeriod = 500"

record IPAMEnvArgs =
  ea_IP :: string
  ea_GATEWAY :: string
  ea_K8S_POD_NAME :: string
  ea_K8S_POD_NAMESPACE :: string
  ea_K8S_POD_UID :: string

record FileInfo =
  fi_IsRegular :: bool
  fi_Size :: int

text \<open>
  The \<^verbatim>\<open>json.Unmarshal\<close> calls, one per target type; a raw message is its text, a JSON object of raw
  messages an association list, and null decodes to \<open>None\<close> where the target is a pointer or map.
\<close>

record conf_env =
  ce_Net :: "string \<Rightarrow> Net result"
  ce_IPAM :: "string \<Rightarrow> IPAMConfig option result"
  ce_RawNet :: "string \<Rightarrow> string result"
  ce_RawObject :: "string \<Rightarrow> (string \<times> string) list option result"
  ce_Bool :: "string \<Rightarrow> bool result"
  ce_NetConf :: "string \<Rightarrow> (string \<times> string) result"
  ce_ConfList :: "string \<Rightarrow> NetConfList result"
  ce_RawPlugins :: "string \<Rightarrow> string list result"
  ce_MarshalString :: "string \<Rightarrow> string result"
  ce_MarshalObject :: "(string \<times> string) list \<Rightarrow> string result"
  ce_LoadArgs :: "string \<Rightarrow> IPAMEnvArgs result"
  ce_Stat :: "string \<Rightarrow> FileInfo result"
  ce_Open :: "string \<Rightarrow> (string result) result"

definition and_then :: "'a result \<Rightarrow> ('a \<Rightarrow> 'b result) \<Rightarrow> 'b result" where
  "and_then r f = (case r of Inl e \<Rightarrow> Inl e | Inr x \<Rightarrow> f x)"

definition wrap_err :: "string \<Rightarrow> 'a result \<Rightarrow> 'a result" where
  "wrap_err msg r = (case r of Inl e \<Rightarrow> Inl (Wrap msg e) | Inr x \<Rightarrow> Inr x)"

fun traverse :: "('a \<Rightarrow> 'b result) \<Rightarrow> 'a list \<Rightarrow> 'b list result" where
  "traverse f [] = Inr []"
| "traverse f (x # xs) = and_then (f x) (\<lambda>y. and_then (traverse f xs) (\<lambda>ys. Inr (y # ys)))"

definition canonicalizeIP :: "IP \<Rightarrow> IP result" where
  "canonicalizeIP ip =
     (if To4 ip \<noteq> [] then Inr (To4 ip) else if To16 ip \<noteq> [] then Inr (To16 ip) else Inl (Msg ''IP not v4 nor v6''))"

definition maxConfigBytes :: int where
  "maxConfigBytes = 1048576"

subsection \<open>Booleans that are set explicitly\<close>

definition ipamBoolJSONFields :: "string list" where
  "ipamBoolJSONFields = [''enable_overlapping_ranges'', ''exclude_gateway'', ''optimistic_ipam'', ''enable_l3'']"

type_synonym ipamBoolValues = "(string \<times> bool) list"

fun bool_values :: "conf_env \<Rightarrow> (string \<times> string) list \<Rightarrow> string list \<Rightarrow> ipamBoolValues result" where
  "bool_values ce rawIPAM [] = Inr []"
| "bool_values ce rawIPAM (fieldName # rest) = (case map_of rawIPAM fieldName of
     None \<Rightarrow> bool_values ce rawIPAM rest
   | Some rawValue \<Rightarrow> and_then (wrap_err fieldName (ce_Bool ce rawValue))
       (\<lambda>value. and_then (bool_values ce rawIPAM rest) (\<lambda>values. Inr ((fieldName, value) # values))))"

definition ipamBoolValuesFromIPAMConfig :: "conf_env \<Rightarrow> string \<Rightarrow> ipamBoolValues result" where
  "ipamBoolValuesFromIPAMConfig ce ipamBytes =
     (if ipamBytes = [] \<or> ipamBytes = ''null'' then Inr []
      else and_then (ce_RawObject ce ipamBytes) (\<lambda>raw. bool_values ce (case raw of None \<Rightarrow> [] | Some m \<Rightarrow> m) ipamBoolJSONFields))"

definition ipamBoolValuesFromNetConfig :: "conf_env \<Rightarrow> string \<Rightarrow> ipamBoolValues result" where
  "ipamBoolValuesFromNetConfig ce configBytes = and_then (ce_RawNet ce configBytes) (ipamBoolValuesFromIPAMConfig ce)"

definition setIPAMBoolField :: "string \<Rightarrow> bool \<Rightarrow> IPAMConfig \<Rightarrow> IPAMConfig" where
  "setIPAMBoolField fieldName value ipam =
     (if fieldName = ''enable_overlapping_ranges'' then ipam\<lparr>ic_OverlappingRanges := value\<rparr>
      else if fieldName = ''exclude_gateway'' then ipam\<lparr>ic_ExcludeGateway := value\<rparr>
      else if fieldName = ''optimistic_ipam'' then ipam\<lparr>ic_OptimisticIPAM := value\<rparr>
      else if fieldName = ''enable_l3'' then ipam\<lparr>ic_EnableL3 := value\<rparr>
      else ipam)"

definition bool_step :: "ipamBoolValues \<Rightarrow> ipamBoolValues \<Rightarrow> string \<Rightarrow> IPAMConfig \<Rightarrow> IPAMConfig" where
  "bool_step primaryValues flatFileValues fieldName ipam = (case map_of primaryValues fieldName of
     Some value \<Rightarrow> setIPAMBoolField fieldName value ipam
   | None \<Rightarrow> (case map_of flatFileValues fieldName of
       Some value \<Rightarrow> setIPAMBoolField fieldName value ipam
     | None \<Rightarrow> ipam))"

definition applyIPAMBoolPrecedence :: "ipamBoolValues \<Rightarrow> ipamBoolValues \<Rightarrow> IPAMConfig \<Rightarrow> IPAMConfig" where
  "applyIPAMBoolPrecedence primaryValues flatFileValues = fold (bool_step primaryValues flatFileValues) ipamBoolJSONFields"

subsection \<open>Merging\<close>

text \<open>\<^verbatim>\<open>mergo.Merge\<close> without options: a field takes the source's value if it is empty.\<close>

definition fill :: "'a \<Rightarrow> 'a \<Rightarrow> 'a \<Rightarrow> 'a" where
  "fill zero_value dst src = (if dst = zero_value then src else dst)"

definition merge_dns :: "DNS \<Rightarrow> DNS \<Rightarrow> DNS" where
  "merge_dns d s = \<lparr> Nameservers = fill [] (Nameservers d) (Nameservers s), dns_Domain = fill [] (dns_Domain d) (dns_Domain s),
     Search = fill [] (Search d) (Search s), Options = fill [] (Options d) (Options s) \<rparr>"

definition merge_kubernetes :: "KubernetesConfig \<Rightarrow> KubernetesConfig \<Rightarrow> KubernetesConfig" where
  "merge_kubernetes d s = \<lparr> KubeConfigPath = fill [] (KubeConfigPath d) (KubeConfigPath s), K8sAPIRoot = fill [] (K8sAPIRoot d) (K8sAPIRoot s) \<rparr>"

definition merge_ipam :: "IPAMConfig \<Rightarrow> IPAMConfig \<Rightarrow> IPAMConfig" where
  "merge_ipam d s =
     \<lparr> ic_Name = fill [] (ic_Name d) (ic_Name s), ic_Type = fill [] (ic_Type d) (ic_Type s),
       ic_Routes = fill [] (ic_Routes d) (ic_Routes s), ic_Addresses = fill [] (ic_Addresses d) (ic_Addresses s),
       ic_IPRanges = fill [] (ic_IPRanges d) (ic_IPRanges s), ic_OmitRanges = fill [] (ic_OmitRanges d) (ic_OmitRanges s),
       ic_DNS = merge_dns (ic_DNS d) (ic_DNS s), ic_Range = fill [] (ic_Range d) (ic_Range s),
       ic_NodeSliceSize = fill [] (ic_NodeSliceSize d) (ic_NodeSliceSize s),
       ic_RangeStart = fill [] (ic_RangeStart d) (ic_RangeStart s), ic_RangeEnd = fill [] (ic_RangeEnd d) (ic_RangeEnd s),
       ic_PickAddresses = fill [] (ic_PickAddresses d) (ic_PickAddresses s), ic_GatewayStr = fill [] (ic_GatewayStr d) (ic_GatewayStr s),
       ic_LeaderLeaseDuration = fill 0 (ic_LeaderLeaseDuration d) (ic_LeaderLeaseDuration s),
       ic_LeaderRenewDeadline = fill 0 (ic_LeaderRenewDeadline d) (ic_LeaderRenewDeadline s),
       ic_LeaderRetryPeriod = fill 0 (ic_LeaderRetryPeriod d) (ic_LeaderRetryPeriod s),
       ic_LogFile = fill [] (ic_LogFile d) (ic_LogFile s), ic_LogLevel = fill [] (ic_LogLevel d) (ic_LogLevel s),
       ic_ReconcilerCronExpression = fill [] (ic_ReconcilerCronExpression d) (ic_ReconcilerCronExpression s),
       ic_OverlappingRanges = fill False (ic_OverlappingRanges d) (ic_OverlappingRanges s),
       ic_ExcludeGateway = fill False (ic_ExcludeGateway d) (ic_ExcludeGateway s),
       ic_OptimisticIPAM = fill False (ic_OptimisticIPAM d) (ic_OptimisticIPAM s),
       ic_EnableL3 = fill False (ic_EnableL3 d) (ic_EnableL3 s), ic_SleepForRace = fill 0 (ic_SleepForRace d) (ic_SleepForRace s),
       ic_Gateway = fill [] (ic_Gateway d) (ic_Gateway s), ic_Kubernetes = merge_kubernetes (ic_Kubernetes d) (ic_Kubernetes s),
       ic_ConfigurationPath = fill [] (ic_ConfigurationPath d) (ic_ConfigurationPath s), ic_PodName = fill [] (ic_PodName d) (ic_PodName s),
       ic_PodNamespace = fill [] (ic_PodNamespace d) (ic_PodNamespace s), ic_PodUID = fill [] (ic_PodUID d) (ic_PodUID s),
       ic_NetworkName = fill [] (ic_NetworkName d) (ic_NetworkName s), ic_ServiceCIDRs = fill [] (ic_ServiceCIDRs d) (ic_ServiceCIDRs s) \<rparr>"

definition Merge :: "Net \<Rightarrow> Net \<Rightarrow> Net" where
  "Merge n flat = \<lparr> nt_Name = fill [] (nt_Name n) (nt_Name flat), nt_CNIVersion = fill [] (nt_CNIVersion n) (nt_CNIVersion flat),
     nt_IPAM = (case (nt_IPAM n, nt_IPAM flat) of
        (Some d, Some s) \<Rightarrow> Some (merge_ipam d s) | (Some d, None) \<Rightarrow> Some d | (None, s) \<Rightarrow> s) \<rparr>"

subsection \<open>The flat file\<close>

definition contains_str :: "string \<Rightarrow> string \<Rightarrow> bool" where
  "contains_str s sub \<longleftrightarrow> list_ex (\<lambda>i. take (length sub) (drop i s) = sub) [0..<Suc (length s)]"

definition NewFileNotFoundError :: err where
  "NewFileNotFoundError = Msg ''config file not found''"

definition NewInvalidPluginError :: "string \<Rightarrow> err" where
  "NewInvalidPluginError ipamType = Msg (''IPAM type must be 'whereabouts', but got '' @ ipamType)"

definition storageError :: err where
  "storageError = Msg ''kubernetes.kubeconfig path is required but not set''"

definition pathExists :: "conf_env \<Rightarrow> string \<Rightarrow> bool" where
  "pathExists ce path = (case ce_Stat ce path of Inl _ \<Rightarrow> False | Inr _ \<Rightarrow> True)"

definition readFlatConfigFile :: "conf_env \<Rightarrow> string \<Rightarrow> string result" where
  "readFlatConfigFile ce confpath =
     and_then (wrap_err ''error stating flat configuration file'' (ce_Stat ce confpath)) (\<lambda>info.
       if \<not> fi_IsRegular info then Inl (Msg ''flat configuration file is not a regular file'')
       else if fi_Size info > maxConfigBytes then Inl (Msg ''flat configuration file too large'')
       else and_then (wrap_err ''error opening flat configuration file'' (ce_Open ce confpath)) (\<lambda>jsonFile.
         and_then (wrap_err ''io.ReadAll error'' (map_sum id (take (nat (maxConfigBytes + 1))) jsonFile)) (\<lambda>jsonBytes.
           if int (length jsonBytes) > maxConfigBytes then Inl (Msg ''flat configuration file too large'') else Inr jsonBytes)))"

definition confdirs :: "string list" where
  "confdirs = [''/etc/kubernetes/cni/net.d/whereabouts.d/whereabouts.conf'', ''/etc/cni/net.d/whereabouts.d/whereabouts.conf'',
     ''/host/etc/cni/net.d/whereabouts.d/whereabouts.conf'']"

text \<open>The flat configuration, the path it was found at and its text.\<close>

fun flat_loop :: "conf_env \<Rightarrow> string list \<Rightarrow> (Net \<times> string \<times> string) result" where
  "flat_loop ce [] = Inl NewFileNotFoundError"
| "flat_loop ce (confpath # rest) =
     (if \<not> pathExists ce confpath then flat_loop ce rest
      else and_then (readFlatConfigFile ce confpath) (\<lambda>jsonBytes.
        and_then (wrap_err ''LoadIPAMConfig Flatfile - JSON Parsing Error'' (ce_IPAM ce jsonBytes)) (\<lambda>ipam.
          Inr (\<lparr> nt_Name = [], nt_CNIVersion = [], nt_IPAM = ipam \<rparr>, confpath, jsonBytes))))"

definition getFlatIPAM :: "conf_env \<Rightarrow> bool \<Rightarrow> IPAMConfig option \<Rightarrow> string list \<Rightarrow> (Net \<times> string \<times> string) result" where
  "getFlatIPAM ce isControlLoop ipamConfig extraConfigPaths =
     (let dirs = confdirs @ extraConfigPaths
      in case ipamConfig of
           None \<Rightarrow> flat_loop ce dirs
         | Some ipam \<Rightarrow>
             if isControlLoop \<or> ic_ConfigurationPath ipam = [] then flat_loop ce dirs
             else let cleanPath = Clean (ic_ConfigurationPath ipam)
                  in if contains_str cleanPath ''..'' then Inl (Msg ''configuration_path contains path traversal'')
                     else flat_loop ce (cleanPath # dirs))"

definition GetFlatIPAM :: "conf_env \<Rightarrow> bool \<Rightarrow> IPAMConfig option \<Rightarrow> string list \<Rightarrow> (Net \<times> string) result" where
  "GetFlatIPAM ce isControlLoop ipamConfig extraConfigPaths =
     map_sum id (\<lambda>(n, path, _). (n, path)) (getFlatIPAM ce isControlLoop ipamConfig extraConfigPaths)"

subsection \<open>Ranges, gateway and static addresses\<close>

definition isNetworkRelevant :: "IPAMConfig \<Rightarrow> bool" where
  "isNetworkRelevant ipam \<longleftrightarrow> ic_Type ipam = ''whereabouts''"

definition validateFastIPAMConfig :: "IPAMConfig \<Rightarrow> err option" where
  "validateFastIPAMConfig ipam =
     (if ic_NodeSliceSize ipam = [] then None
      else if ic_Range ipam = [] then Some (Msg ''node_slice_size requires a top-level range'')
      else if ic_IPRanges ipam \<noteq> [] then Some (Msg ''node_slice_size cannot be combined with ipRanges'')
      else None)"

definition own_range :: "IPAMConfig \<Rightarrow> RangeConfiguration list" where
  "own_range ipam =
     (if ic_Range ipam = [] then ic_IPRanges ipam
      else \<lparr> rc_OmitRanges = ic_OmitRanges ipam, rc_Range = ic_Range ipam, rc_RangeStart = ic_RangeStart ipam,
             rc_RangeEnd = ic_RangeEnd ipam, rc_PickAddresses = ic_PickAddresses ipam, rc_PreferredIP = [], rc_L3 = False \<rparr>
           # ic_IPRanges ipam)"

definition normalize_range :: "RangeConfiguration \<Rightarrow> RangeConfiguration result" where
  "normalize_range rc = (case Cut (CHR ''-'') (rc_Range rc) of
     Some (lo, cidr) \<Rightarrow>
       let firstip = ParseIPSloppy lo
       in if firstip = [] then Inl (Msg ''invalid range start IP'')
          else and_then (wrap_err ''invalid CIDR'' (ParseCIDRSloppy cidr)) (\<lambda>(lastip, ipNet).
            if \<not> Contains ipNet firstip then Inl (Msg ''invalid range start for CIDR'')
            else Inr (rc\<lparr>rc_Range := IPNet_String ipNet, rc_RangeStart := firstip, rc_RangeEnd := lastip\<rparr>))
   | None \<Rightarrow> and_then (wrap_err ''invalid CIDR'' (ParseCIDRSloppy (rc_Range rc))) (\<lambda>(firstip, ipNet).
       Inr (rc\<lparr>rc_Range := IPNet_String ipNet,
               rc_RangeStart := (if rc_RangeStart rc = [] then ParseIPSloppy (IP_String (IP_Mask firstip (net_Mask ipNet))) else rc_RangeStart rc)\<rparr>)))"

definition cidr_ok :: "string \<Rightarrow> bool" where
  "cidr_ok s \<longleftrightarrow> (case ParseCIDRSloppy s of Inr _ \<Rightarrow> True | Inl _ \<Rightarrow> False)"

definition omit_ok :: "string \<Rightarrow> bool" where
  "omit_ok exclude \<longleftrightarrow> cidr_ok exclude \<or> ParseIPSloppy exclude \<noteq> []"

definition gateway_exclude :: "IP \<Rightarrow> string" where
  "gateway_exclude gateway = IP_String gateway @ (if To4 gateway = [] then ''/128'' else ''/32'')"

definition static_address :: "Address \<Rightarrow> Address result" where
  "static_address a = and_then (wrap_err ''invalid CIDR in addresses'' (ParseCIDRSloppy (AddressStr a))) (\<lambda>(ip, addr).
     and_then (wrap_err ''invalid address'' (canonicalizeIP ip)) (\<lambda>ip.
       Inr (a\<lparr>ad_Address := \<lparr> net_IP = ip, net_Mask = net_Mask addr \<rparr>, ad_Version := (if To4 ip \<noteq> [] then ''4'' else ''6'')\<rparr>)))"

definition env_address :: "string \<Rightarrow> Address result" where
  "env_address item = and_then (wrap_err ''invalid CIDR'' (ParseCIDRSloppy (TrimSpace item))) (\<lambda>(ip, subnet).
     Inr \<lparr> AddressStr = [], ad_Gateway = [], ad_Address = \<lparr> net_IP = ip, net_Mask = net_Mask subnet \<rparr>,
           ad_Version = (if To4 ip \<noteq> [] then ''4'' else ''6'') \<rparr>)"

fun env_gateways :: "string list \<Rightarrow> Address list \<Rightarrow> Address list result" where
  "env_gateways [] addresses = Inr addresses"
| "env_gateways (item # rest) addresses =
     (let gwip = ParseIPSloppy (TrimSpace item)
      in if gwip = [] then Inl (Msg ''invalid gateway address'')
         else env_gateways rest (map (\<lambda>a. if Contains (ad_Address a) gwip then a\<lparr>ad_Gateway := gwip\<rparr> else a) addresses))"

definition handleEnvArgs :: "IPAMEnvArgs \<Rightarrow> Address list \<Rightarrow> Address list result" where
  "handleEnvArgs args addresses =
     and_then (if ea_IP args = [] then Inr [] else traverse env_address (split_on (CHR '','') (ea_IP args))) (\<lambda>new.
       if ea_GATEWAY args = [] then Inr (addresses @ new)
       else env_gateways (split_on (CHR '','') (ea_GATEWAY args)) (addresses @ new))"

text \<open>The counters of the loops are the numbers of addresses per version.\<close>

definition configureStatic :: "string \<Rightarrow> IPAMEnvArgs \<Rightarrow> Address list \<Rightarrow> Address list result" where
  "configureStatic cniVersion args addresses =
     and_then (traverse static_address addresses) (\<lambda>static.
       and_then (handleEnvArgs args static) (\<lambda>all.
         let count = (\<lambda>v. length (filter (\<lambda>a. ad_Version a = v) all))
         in if (count ''4'' > 1 \<or> count ''6'' > 1) \<and> cniVersion \<in> {[], ''0.1.0'', ''0.2.0''}
            then Inl (Msg ''CNI version does not support more than 1 address per family'') else Inr all))"

subsection \<open>Loading\<close>

definition check_all :: "('a \<Rightarrow> bool) \<Rightarrow> string \<Rightarrow> 'a list \<Rightarrow> unit result" where
  "check_all ok msg xs = (if list_all ok xs then Inr () else Inl (Msg msg))"

text \<open>Lines 188--259: the ranges of the merged configuration.\<close>

definition load_ranges :: "IPAMConfig \<Rightarrow> IPAMConfig result" where
  "load_ranges ipam =
     and_then (traverse normalize_range (own_range ipam)) (\<lambda>ranges.
     and_then (check_all cidr_ok ''invalid CIDR in exclude list'' (ic_OmitRanges ipam)) (\<lambda>_.
     and_then (check_all omit_ok ''invalid CIDR in exclude list for range'' (concat (map rc_OmitRanges ranges))) (\<lambda>_.
       Inr (ipam\<lparr>ic_IPRanges := (if ic_EnableL3 ipam then map (\<lambda>r. r\<lparr>rc_L3 := True\<rparr>) ranges else ranges),
                 ic_OmitRanges := [], ic_Range := [], ic_RangeStart := [], ic_RangeEnd := [], ic_PickAddresses := []\<rparr>))))"

text \<open>Lines 265--288: the gateway.\<close>

definition load_gateway :: "IPAMConfig \<Rightarrow> IPAMConfig result" where
  "load_gateway ipam =
     and_then (if ic_GatewayStr ipam = [] then Inr ipam
               else let gwip = ParseIPSloppy (ic_GatewayStr ipam)
                    in if gwip = [] then Inl (Msg ''couldn't parse gateway IP'') else Inr (ipam\<lparr>ic_Gateway := gwip\<rparr>)) (\<lambda>ipam.
       Inr (if ic_ExcludeGateway ipam \<and> ic_Gateway ipam \<noteq> []
            then ipam\<lparr>ic_IPRanges := map (\<lambda>r. r\<lparr>rc_OmitRanges := rc_OmitRanges r @ [gateway_exclude (ic_Gateway ipam)]\<rparr>) (ic_IPRanges ipam)\<rparr>
            else ipam))"

definition leader_defaults :: "IPAMConfig \<Rightarrow> IPAMConfig" where
  "leader_defaults ipam =
     ipam\<lparr>ic_LeaderLeaseDuration := fill 0 (ic_LeaderLeaseDuration ipam) DefaultLeaderLeaseDuration,
          ic_LeaderRenewDeadline := fill 0 (ic_LeaderRenewDeadline ipam) DefaultLeaderRenewDeadline,
          ic_LeaderRetryPeriod := fill 0 (ic_LeaderRetryPeriod ipam) DefaultLeaderRetryPeriod\<rparr>"

text \<open>Lines 184--307, on the merged configuration.\<close>

definition load_merged :: "string \<Rightarrow> string \<Rightarrow> IPAMEnvArgs \<Rightarrow> IPAMConfig \<Rightarrow> IPAMConfig result" where
  "load_merged name cniVersion args ipam = (case validateFastIPAMConfig ipam of
     Some e \<Rightarrow> Inl e
   | None \<Rightarrow> and_then (load_ranges ipam) (\<lambda>ipam.
       if KubeConfigPath (ic_Kubernetes ipam) = [] then Inl storageError
       else and_then (load_gateway ipam) (\<lambda>ipam.
         and_then (configureStatic cniVersion args (ic_Addresses ipam)) (\<lambda>addresses.
           Inr ((leader_defaults (ipam\<lparr>ic_Addresses := addresses\<rparr>))\<lparr>ic_Name := name\<rparr>)))))"

definition flat_or_none :: "(Net \<times> string \<times> string) result \<Rightarrow> (Net \<times> string \<times> string) result" where
  "flat_or_none r = (if r = Inl NewFileNotFoundError then Inr (\<lparr> nt_Name = [], nt_CNIVersion = [], nt_IPAM = None \<rparr>, [], []) else r)"

definition LoadIPAMConfig :: "conf_env \<Rightarrow> string \<Rightarrow> string \<Rightarrow> string list \<Rightarrow> (IPAMConfig \<times> string) result" where
  "LoadIPAMConfig ce bytes envArgs extraConfigPaths =
     (if int (length bytes) > maxConfigBytes then Inl (Msg ''IPAM configuration too large'')
      else and_then (wrap_err ''LoadIPAMConfig - JSON Parsing Error'' (ce_Net ce bytes)) (\<lambda>n. case nt_IPAM n of
        None \<Rightarrow> Inl (Msg ''IPAM config missing 'ipam' key'')
      | Some ipam0 \<Rightarrow>
          if \<not> isNetworkRelevant ipam0 then Inl (NewInvalidPluginError (ic_Type ipam0))
          else and_then (wrap_err ''LoadArgs - CNI Args Parsing Error'' (ce_LoadArgs ce envArgs)) (\<lambda>args.
            let ipam = ipam0\<lparr>ic_PodName := ea_K8S_POD_NAME args, ic_PodNamespace := ea_K8S_POD_NAMESPACE args, ic_PodUID := ea_K8S_POD_UID args\<rparr>
            in and_then (wrap_err ''LoadIPAMConfig - JSON Parsing Error'' (ipamBoolValuesFromNetConfig ce bytes)) (\<lambda>primaryBoolValues.
               and_then (flat_or_none (getFlatIPAM ce False (Some ipam) extraConfigPaths)) (\<lambda>(flatipam, foundflatfile, flatConfigBytes).
               and_then (if foundflatfile = [] then Inr [] else wrap_err ''LoadIPAMConfig Flatfile - JSON Parsing Error''
                           (ipamBoolValuesFromIPAMConfig ce flatConfigBytes)) (\<lambda>flatFileBoolValues.
                 let n' = Merge (n\<lparr>nt_IPAM := Some ipam\<rparr>) flatipam
                 in map_sum id (\<lambda>ipam. (ipam, nt_CNIVersion n'))
                      (load_merged (nt_Name n') (nt_CNIVersion n') args
                        (applyIPAMBoolPrecedence primaryBoolValues flatFileBoolValues (the (nt_IPAM n'))))))))))"

subsection \<open>Configuration lists\<close>

definition loadPluginConfig :: "conf_env \<Rightarrow> string \<Rightarrow> (string \<times> string) result" where
  "loadPluginConfig ce bytes = ce_NetConf ce bytes"

definition loadPluginConfigList :: "conf_env \<Rightarrow> string \<Rightarrow> NetConfList result" where
  "loadPluginConfigList ce bytes = ce_ConfList ce bytes"

definition firstPluginConfigBytes :: "conf_env \<Rightarrow> string \<Rightarrow> string \<Rightarrow> string result" where
  "firstPluginConfigBytes ce configBytes cniVersion =
     and_then (ce_RawPlugins ce configBytes) (\<lambda>plugins. case plugins of
       [] \<Rightarrow> Inl (Msg ''CNI config list must contain at least one plugin'')
     | p # _ \<Rightarrow> and_then (ce_RawObject ce p) (\<lambda>first. case first of
         None \<Rightarrow> Inl (Msg ''CNI config list first plugin must not be null'')
       | Some firstPlugin \<Rightarrow> and_then (ce_MarshalString ce cniVersion) (\<lambda>v.
           ce_MarshalObject ce (map_put ''cniVersion'' v firstPlugin))))"

definition LoadIPAMConfiguration :: "conf_env \<Rightarrow> string \<Rightarrow> string \<Rightarrow> string list \<Rightarrow> IPAMConfig result" where
  "LoadIPAMConfiguration ce bytes envArgs extraConfigPaths =
     (if int (length bytes) > maxConfigBytes then Inl (Msg ''IPAM configuration too large'')
      else and_then (loadPluginConfig ce bytes) (\<lambda>(type, cniVersion).
        if type \<noteq> [] then map_sum id fst (LoadIPAMConfig ce bytes envArgs extraConfigPaths)
        else and_then (loadPluginConfigList ce bytes) (\<lambda>pluginConfigList. case nl_Plugins pluginConfigList of
          [] \<Rightarrow> Inl (Msg ''CNI config list must contain at least one plugin'')
        | None # _ \<Rightarrow> Inl (Msg ''CNI config list first plugin must not be null'')
        | Some _ # _ \<Rightarrow> and_then (firstPluginConfigBytes ce bytes cniVersion) (\<lambda>firstPluginBytes.
            map_sum id fst (LoadIPAMConfig ce firstPluginBytes envArgs extraConfigPaths)))))"

subsection \<open>The previous result\<close>

record IPConfig =
  ipc_Address :: IPNet
  ipc_Gateway :: IP

record CNIResult =
  rs_DNS :: DNS
  rs_Routes :: "Route list"
  rs_IPs :: "IPConfig list"

text \<open>A decoded JSON object: a value is a string or the text of another value.\<close>

type_synonym raw_object = "(string \<times> (string + string)) list"

text \<open>
  The decoders of \<^verbatim>\<open>encoding/json\<close> and of the CNI library. \<open>None\<close> is a missing or null object for the
  first, and for \<open>pv_NewResult\<close> a result of another type than the current one; the results of older
  versions are opaque.
\<close>

record prev_lib =
  pv_Unmarshal :: "string \<Rightarrow> raw_object option result"
  pv_Marshal :: "raw_object \<Rightarrow> string result"
  pv_NewResult :: "string \<Rightarrow> CNIResult option result"
  pv_VersionNewResult :: "string \<Rightarrow> string \<Rightarrow> string result"
  pv_FromResult :: "string \<Rightarrow> CNIResult result"

definition raw_version :: "raw_object \<Rightarrow> string option" where
  "raw_version raw = (case map_of raw ''cniVersion'' of Some (Inl v) \<Rightarrow> Some v | _ \<Rightarrow> None)"

definition ParsePrevResult :: "prev_lib \<Rightarrow> string \<Rightarrow> CNIResult option result" where
  "ParsePrevResult lib stdinData = (case pv_Unmarshal lib stdinData of
     Inl e \<Rightarrow> Inl (Wrap ''failed to unmarshal prevResult'' e)
   | Inr None \<Rightarrow> Inr None
   | Inr (Some raw) \<Rightarrow> (case pv_Marshal lib raw of
       Inl e \<Rightarrow> Inl (Wrap ''failed to re-marshal prevResult'' e)
     | Inr resultBytes \<Rightarrow> (case pv_NewResult lib resultBytes of
         Inl e \<Rightarrow> (case raw_version raw of
             None \<Rightarrow> Inl (Wrap ''prevResult missing or invalid cniVersion field'' e)
           | Some cniVer \<Rightarrow> (case pv_VersionNewResult lib cniVer resultBytes of
               Inl parseErr \<Rightarrow> Inl (Wrap ''failed to parse prevResult'' parseErr)
             | Inr rawResult \<Rightarrow> (case pv_FromResult lib rawResult of
                 Inl convertErr \<Rightarrow> Inl (Wrap ''failed to convert prevResult to current version'' convertErr)
               | Inr converted \<Rightarrow> Inr (Some converted))))
       | Inr None \<Rightarrow> Inl (Msg ''prevResult is not a *current.Result'')
       | Inr (Some typedResult) \<Rightarrow> Inr (Some typedResult))))"

section \<open>What a loaded configuration looks like\<close>

lemma and_then_Inr [simp]: "and_then r f = Inr y \<longleftrightarrow> (\<exists>x. r = Inr x \<and> f x = Inr y)"
  by (auto simp: and_then_def split: sum.splits)

lemma wrap_err_Inr [simp]: "wrap_err msg r = Inr y \<longleftrightarrow> r = Inr y"
  by (auto simp: wrap_err_def split: sum.splits)

lemma map_sum_Inr [simp]: "map_sum f g r = Inr y \<longleftrightarrow> (\<exists>x. r = Inr x \<and> y = g x)"
  by (cases r) auto

lemma check_all_Inr [simp]: "check_all ok msg xs = Inr u \<longleftrightarrow> list_all ok xs"
  by (simp add: check_all_def)

lemma traverse_Inr: "traverse f xs = Inr ys \<longleftrightarrow> list_all2 (\<lambda>x y. f x = Inr y) xs ys"
  by (induction xs arbitrary: ys) (auto simp: list_all2_Cons1)

lemma set_join_map: "c \<in> set (join d (map f xs)) \<Longrightarrow> c = d \<or> (\<exists>x\<in>set xs. c \<in> set (f x))"
  using set_join [of d "map f xs"] by auto

lemma IP_String_no_slash:
  assumes "valid_ip ip"
  shows "CHR ''/'' \<notin> set (IP_String ip)"
proof (cases "To4 ip = []")
  case False
  then show ?thesis
    using assms dec_no_sep [of "CHR ''/''"]
    by (auto simp: IP_String_def valid_ip_def dotted_def is_digit_def dest!: set_join_map)
next
  case True
  have h: "CHR ''/'' \<notin> set (hex n)" for n using hex_set [of "CHR ''/''" n] by (auto simp: is_hex_def)
  have "CHR ''/'' \<notin> set (groups_String gs)" for gs
    using h by (auto simp: groups_String_def split: prod.splits dest!: set_join_map)
  then show ?thesis using True assms by (auto simp: IP_String_def valid_ip_def)
qed

lemma CIDR_roundtrip:
  assumes "good_cidr a n"
  shows "ParseCIDR (IPNet_String (cidr_net a n)) = Inr (As16 (addr_mask n a), cidr_net a n)"
proof -
  let ?b = "addr_mask n a"
  have a: "a \<noteq> AddrZero" "n \<le> BitLen a" "Unmap ?b = ?b" using good_plain [OF assms] by (auto simp: plain_cidr_def)
  have v: "valid_ip (AsSlice ?b)" using a by (simp add: ip_addr_valid ip_addr_AsSlice)
  have k: "8 * (BitLen a div 8) = BitLen a" "0 < BitLen a div 8" using a(1) by (cases a; simp)+
  have "AsSlice ?b \<noteq> []" "cidr_mask n (BitLen a div 8) \<noteq> []"
    using valid_not_Nil [OF v] k(2) length_cidr_mask [of n "BitLen a div 8"] by (auto simp del: length_cidr_mask)
  then have s: "IPNet_String (cidr_net a n) = IP_String (AsSlice ?b) @ CHR ''/'' # dec n"
    using networkNumberAndMask_plain [OF good_plain [OF assms]] simpleMaskLength_cidr_mask [of n "BitLen a div 8"] a(2) k(1)
    by (simp add: IPNet_String_def)
  have "ParseAddr (IP_String (AsSlice ?b)) = ?b" using ParseAddr_IP_String [OF v] a(3) by (simp add: ip_addr_AsSlice)
  moreover have "mask_len (dec n) (BitLen ?b) = Some n" using a(2) by (simp add: mask_len_def)
  moreover have "cidr_net ?b n = cidr_net a n" using a addr_mask_mask [of n n a] by (simp add: cidr_net_eq)
  ultimately show ?thesis using IP_String_no_slash [OF v] a(1) by (simp add: ParseCIDR_def s Let_def)
qed

lemma ParseCIDRSloppy_net:
  assumes "ParseCIDRSloppy s = Inr (ip, N)"
  shows "is_cidr N"
proof -
  obtain ad n where "ad \<noteq> AddrZero" "n \<le> BitLen ad" "N = cidr_net ad n"
    using assms unfolding ParseCIDRSloppy_def mask_len_def Let_def
    by (auto split: option.splits if_split_asm)
  then show ?thesis unfolding is_cidr_def by blast
qed

lemma normalize_range_net:
  assumes "normalize_range rc = Inr rc'"
  shows "\<exists>N. is_cidr N \<and> rc_Range rc' = IPNet_String N"
proof -
  obtain ip N s where "ParseCIDRSloppy s = Inr (ip, N)" "rc_Range rc' = IPNet_String N"
    using assms by (fastforce simp: normalize_range_def Let_def split: option.splits if_split_asm)
  then show ?thesis using ParseCIDRSloppy_net by blast
qed

text \<open>The stages of a successful load.\<close>

lemma LoadIPAMConfig_merged:
  assumes "LoadIPAMConfig ce bytes envArgs extra = Inr (conf, ver)"
  obtains name args primary flat ipam where "load_merged name ver args (applyIPAMBoolPrecedence primary flat ipam) = Inr conf"
    "ipamBoolValuesFromNetConfig ce bytes = Inr primary"
  using assms by (auto simp: LoadIPAMConfig_def Let_def split: if_splits option.splits prod.splits)

lemma load_merged_stages:
  assumes "load_merged name ver args ipam = Inr conf"
  obtains ranged gated addresses where "validateFastIPAMConfig ipam = None" "load_ranges ipam = Inr ranged"
    "KubeConfigPath (ic_Kubernetes ranged) \<noteq> []" "load_gateway ranged = Inr gated"
    "conf = (leader_defaults (gated\<lparr>ic_Addresses := addresses\<rparr>))\<lparr>ic_Name := name\<rparr>"
  using assms by (auto simp: load_merged_def split: option.splits if_splits)

lemma load_ranges_fields:
  assumes "load_ranges ipam = Inr ranged"
  shows "\<exists>ranges. list_all2 (\<lambda>x y. normalize_range x = Inr y) (own_range ipam) ranges
    \<and> ranged = ipam\<lparr>ic_IPRanges := (if ic_EnableL3 ipam then map (\<lambda>r. r\<lparr>rc_L3 := True\<rparr>) ranges else ranges),
        ic_OmitRanges := [], ic_Range := [], ic_RangeStart := [], ic_RangeEnd := [], ic_PickAddresses := []\<rparr>"
  using assms by (auto simp: load_ranges_def traverse_Inr)

lemma load_gateway_fields:
  assumes "load_gateway ranged = Inr gated"
  shows "\<exists>gw. gated = ranged\<lparr>ic_Gateway := gw,
    ic_IPRanges := map (\<lambda>r. if ic_ExcludeGateway ranged \<and> gw \<noteq> [] then r\<lparr>rc_OmitRanges := rc_OmitRanges r @ [gateway_exclude gw]\<rparr> else r) (ic_IPRanges ranged)\<rparr>"
proof -
  define gw where "gw = (if ic_GatewayStr ranged = [] then ic_Gateway ranged else ParseIPSloppy (ic_GatewayStr ranged))"
  have "(let mid = ranged\<lparr>ic_Gateway := gw\<rparr> in if ic_ExcludeGateway mid \<and> ic_Gateway mid \<noteq> []
      then mid\<lparr>ic_IPRanges := map (\<lambda>r. r\<lparr>rc_OmitRanges := rc_OmitRanges r @ [gateway_exclude (ic_Gateway mid)]\<rparr>) (ic_IPRanges mid)\<rparr> else mid) = gated"
    using assms by (cases "ic_GatewayStr ranged = []") (simp_all add: load_gateway_def gw_def Let_def split: if_split_asm)
  then show ?thesis by (intro exI [of _ gw]) (cases "ic_ExcludeGateway ranged \<and> gw \<noteq> []"; auto simp: Let_def)
qed

text \<open>The fields of the result in terms of the merged configuration.\<close>

lemma loaded_fields:
  assumes "load_merged name ver args ipam = Inr conf"
  obtains ranges where "list_all2 (\<lambda>x y. normalize_range x = Inr y) (own_range ipam) ranges"
    "ic_IPRanges conf = map (\<lambda>r. let r' = (if ic_EnableL3 conf then r\<lparr>rc_L3 := True\<rparr> else r)
       in if ic_ExcludeGateway conf \<and> ic_Gateway conf \<noteq> [] then r'\<lparr>rc_OmitRanges := rc_OmitRanges r' @ [gateway_exclude (ic_Gateway conf)]\<rparr> else r') ranges"
    "validateFastIPAMConfig ipam = None" "KubeConfigPath (ic_Kubernetes conf) \<noteq> []"
    "ic_Range conf = []" "ic_OmitRanges conf = []" "ic_NodeSliceSize conf = ic_NodeSliceSize ipam"
    "ic_OverlappingRanges conf = ic_OverlappingRanges ipam" "ic_ExcludeGateway conf = ic_ExcludeGateway ipam"
    "ic_OptimisticIPAM conf = ic_OptimisticIPAM ipam" "ic_EnableL3 conf = ic_EnableL3 ipam"
    "ic_LeaderLeaseDuration conf \<noteq> 0 \<and> ic_LeaderRenewDeadline conf \<noteq> 0 \<and> ic_LeaderRetryPeriod conf \<noteq> 0"
proof -
  obtain ranged gated addresses where s: "validateFastIPAMConfig ipam = None" "load_ranges ipam = Inr ranged"
      "KubeConfigPath (ic_Kubernetes ranged) \<noteq> []" "load_gateway ranged = Inr gated"
      "conf = (leader_defaults (gated\<lparr>ic_Addresses := addresses\<rparr>))\<lparr>ic_Name := name\<rparr>"
    using load_merged_stages [OF assms] by blast
  obtain ranges where r: "list_all2 (\<lambda>x y. normalize_range x = Inr y) (own_range ipam) ranges"
      "ranged = ipam\<lparr>ic_IPRanges := (if ic_EnableL3 ipam then map (\<lambda>r. r\<lparr>rc_L3 := True\<rparr>) ranges else ranges),
        ic_OmitRanges := [], ic_Range := [], ic_RangeStart := [], ic_RangeEnd := [], ic_PickAddresses := []\<rparr>"
    using load_ranges_fields [OF s(2)] by blast
  obtain gw where g: "gated = ranged\<lparr>ic_Gateway := gw,
      ic_IPRanges := map (\<lambda>r. if ic_ExcludeGateway ranged \<and> gw \<noteq> [] then r\<lparr>rc_OmitRanges := rc_OmitRanges r @ [gateway_exclude gw]\<rparr> else r) (ic_IPRanges ranged)\<rparr>"
    using load_gateway_fields [OF s(4)] by blast
  show thesis
    by (rule that [OF r(1)])
      (use s(1,3) in \<open>simp_all add: s(5) g r(2) leader_defaults_def fill_def Let_def DefaultLeaderLeaseDuration_def
        DefaultLeaderRenewDeadline_def DefaultLeaderRetryPeriod_def\<close>)
qed

lemma is_cidr_good: "is_cidr N \<Longrightarrow> good_net N \<Longrightarrow> \<exists>f. ParseCIDR (IPNet_String N) = Inr (f, N) \<and> ip_addr f = ip_addr (net_IP N)"
proof -
  assume "good_net N"
  then obtain a n where a: "good_cidr a n" "N = cidr_net a n" using good_netD by blast
  have "plain_cidr a n" by (rule good_plain [OF a(1)])
  then have p: "a \<noteq> AddrZero" "n \<le> BitLen a" by (simp_all add: plain_cidr_def)
  then have "ip_addr (As16 (addr_mask n a)) = ip_addr (net_IP N)"
    by (simp add: a(2) net_IP_cidr_net ip_addr_As16 ip_addr_AsSlice)
  then show ?thesis using CIDR_roundtrip [OF a(1)] a(2) by blast
qed

text \<open>
  C19: what the rest of the program may rely on in a loaded configuration: the datastore is
  configured, the election times are set, the top-level range has become one of the ranges (the
  only one with node slices), and every range is written as a network without host bits, which
  the allocator's parser reads back as the same network.
\<close>

theorem loaded_config_normal:
  assumes "LoadIPAMConfig ce bytes envArgs extra = Inr (conf, ver)"
  shows "KubeConfigPath (ic_Kubernetes conf) \<noteq> [] \<and> ic_Range conf = [] \<and> ic_OmitRanges conf = []
    \<and> ic_LeaderLeaseDuration conf \<noteq> 0 \<and> ic_LeaderRenewDeadline conf \<noteq> 0 \<and> ic_LeaderRetryPeriod conf \<noteq> 0
    \<and> (ic_NodeSliceSize conf \<noteq> [] \<longrightarrow> length (ic_IPRanges conf) = 1)
    \<and> (\<forall>r\<in>set (ic_IPRanges conf). (ic_EnableL3 conf \<longrightarrow> rc_L3 r) \<and> (\<exists>N. is_cidr N \<and> rc_Range r = IPNet_String N
        \<and> (good_net N \<longrightarrow> (\<exists>f. ParseCIDR (rc_Range r) = Inr (f, N) \<and> ip_addr f = ip_addr (net_IP N)))))"
proof -
  obtain name args primary flat ipam0 where m: "load_merged name ver args (applyIPAMBoolPrecedence primary flat ipam0) = Inr conf"
      "ipamBoolValuesFromNetConfig ce bytes = Inr primary"
    by (rule LoadIPAMConfig_merged [OF assms])
  obtain ipam where i: "ipam = applyIPAMBoolPrecedence primary flat ipam0" by blast
  let ?F = "\<lambda>r. let r' = (if ic_EnableL3 conf then r\<lparr>rc_L3 := True\<rparr> else r)
       in if ic_ExcludeGateway conf \<and> ic_Gateway conf \<noteq> [] then r'\<lparr>rc_OmitRanges := rc_OmitRanges r' @ [gateway_exclude (ic_Gateway conf)]\<rparr> else r'"
  have F: "rc_Range (?F x) = rc_Range x \<and> (ic_EnableL3 conf \<longrightarrow> rc_L3 (?F x))" for x by (simp add: Let_def)
  show ?thesis
  proof (rule loaded_fields [OF m(1) [folded i]])
    fix ranges
    assume r: "list_all2 (\<lambda>x y. normalize_range x = Inr y) (own_range ipam) ranges"
      and c: "ic_IPRanges conf = map ?F ranges"
      and v: "validateFastIPAMConfig ipam = None" "KubeConfigPath (ic_Kubernetes conf) \<noteq> []" "ic_Range conf = []" "ic_OmitRanges conf = []"
        "ic_NodeSliceSize conf = ic_NodeSliceSize ipam"
        "ic_LeaderLeaseDuration conf \<noteq> 0 \<and> ic_LeaderRenewDeadline conf \<noteq> 0 \<and> ic_LeaderRetryPeriod conf \<noteq> 0"
    have "length (ic_IPRanges conf) = length (own_range ipam)" using c list_all2_lengthD [OF r] by simp
    then have "ic_NodeSliceSize conf \<noteq> [] \<longrightarrow> length (ic_IPRanges conf) = 1"
      using v(1,5) by (auto simp: validateFastIPAMConfig_def own_range_def split: if_splits)
    moreover have "(ic_EnableL3 conf \<longrightarrow> rc_L3 y) \<and> (\<exists>N. is_cidr N \<and> rc_Range y = IPNet_String N
        \<and> (good_net N \<longrightarrow> (\<exists>f. ParseCIDR (rc_Range y) = Inr (f, N) \<and> ip_addr f = ip_addr (net_IP N))))" if y: "y \<in> set (ic_IPRanges conf)" for y
    proof -
      obtain x where x: "x \<in> set ranges" "y = ?F x" using y unfolding c set_map by blast
      obtain j where j: "j < length ranges" "ranges ! j = x" using x(1) by (auto simp: in_set_conv_nth)
      have "normalize_range (own_range ipam ! j) = Inr x" using list_all2_nthD2 [OF r j(1)] j(2) by simp
      then obtain N where "is_cidr N" "rc_Range x = IPNet_String N" using normalize_range_net by blast
      then show ?thesis using F [of x] is_cidr_good [of N] unfolding x(2) by auto
    qed
    ultimately show ?thesis using v by blast
  qed
qed

text \<open>An example: host bits in the range, a gateway to be kept free, and a flat file.\<close>

definition conf_env_ex :: conf_env where
  "conf_env_ex =
     \<lparr> ce_Net = (\<lambda>_. Inr \<lparr> nt_Name = ''net'', nt_CNIVersion = ''1.0.0'', nt_IPAM = Some (ipam_conf_ex\<lparr>ic_IPRanges := [],
           ic_Range := ''10.0.0.9/29'', ic_GatewayStr := ''10.0.0.1'', ic_ExcludeGateway := True, ic_LeaderRetryPeriod := 0\<rparr>) \<rparr>),
       ce_IPAM = (\<lambda>_. Inr (Some (ipam_conf_ex\<lparr>ic_Kubernetes := \<lparr> KubeConfigPath = ''/kubeconfig'', K8sAPIRoot = [] \<rparr>, ic_IPRanges := [], ic_OptimisticIPAM := True\<rparr>))),
       ce_RawNet = (\<lambda>_. Inr ''{exclude_gateway: true, optimistic_ipam: false}''),
       ce_RawObject = (\<lambda>s. Inr (Some [(''exclude_gateway'', ''true''), (''optimistic_ipam'', ''false'')])),
       ce_Bool = (\<lambda>s. Inr (s = ''true'')), ce_NetConf = (\<lambda>_. Inr (''macvlan'', ''1.0.0'')),
       ce_ConfList = (\<lambda>_. Inl (Msg ''json'')), ce_RawPlugins = (\<lambda>_. Inl (Msg ''json'')), ce_MarshalString = Inr, ce_MarshalObject = (\<lambda>_. Inr []),
       ce_LoadArgs = (\<lambda>_. Inr \<lparr> ea_IP = [], ea_GATEWAY = [], ea_K8S_POD_NAME = ''p1'', ea_K8S_POD_NAMESPACE = ''ns'', ea_K8S_POD_UID = ''u1'' \<rparr>),
       ce_Stat = (\<lambda>p. if p = ''/etc/cni/net.d/whereabouts.d/whereabouts.conf'' then Inr \<lparr> fi_IsRegular = True, fi_Size = 40 \<rparr> else Inl (Msg ''no such file'')),
       ce_Open = (\<lambda>_. Inr (Inr ''{optimistic_ipam: true}'')) \<rparr>"

definition prev_lib_ex :: prev_lib where
  "prev_lib_ex = \<lparr> pv_Unmarshal = (\<lambda>_. Inr None), pv_Marshal = (\<lambda>_. Inr []), pv_NewResult = (\<lambda>_. Inr None),
     pv_VersionNewResult = (\<lambda>_ d. Inr d), pv_FromResult = (\<lambda>_. Inl (Msg ''no result'')) \<rparr>"

definition range_loaded_ex :: RangeConfiguration where
  "range_loaded_ex = range_ex\<lparr>rc_Range := ''10.0.0.8/29'', rc_RangeStart := As16 (Addr4 0x0a000008), rc_OmitRanges := [''10.0.0.1/32'']\<rparr>"

definition conf_loaded_ex :: IPAMConfig where
  "conf_loaded_ex = ipam_conf_ex\<lparr>ic_IPRanges := [range_loaded_ex], ic_GatewayStr := ''10.0.0.1'', ic_Gateway := As16 (Addr4 0x0a000001),
     ic_ExcludeGateway := True, ic_LeaderRetryPeriod := 500, ic_Kubernetes := \<lparr> KubeConfigPath = ''/kubeconfig'', K8sAPIRoot = [] \<rparr>\<rparr>"

lemma load_ex: "LoadIPAMConfig conf_env_ex ''{}'' [] [] = Inr (conf_loaded_ex, ''1.0.0'')"
  by code_simp

theorem loaded_config_normal_witness:
  "LoadIPAMConfig conf_env_ex ''{}'' [] [] = Inr (conf_loaded_ex, ''1.0.0'')
   \<and> (\<exists>N. is_cidr N \<and> ''10.0.0.8/29'' = IPNet_String N) \<and> ic_LeaderRetryPeriod conf_loaded_ex \<noteq> 0"
proof -
  have "ic_IPRanges conf_loaded_ex = [range_loaded_ex]" "rc_Range range_loaded_ex = ''10.0.0.8/29''"
    by (simp_all add: conf_loaded_ex_def range_loaded_ex_def)
  then show ?thesis using load_ex loaded_config_normal [OF load_ex] by auto
qed

section \<open>Precedence\<close>

definition pick_bool :: "ipamBoolValues \<Rightarrow> ipamBoolValues \<Rightarrow> string \<Rightarrow> bool \<Rightarrow> bool" where
  "pick_bool p q key v = (case map_of p key of Some x \<Rightarrow> x | None \<Rightarrow> (case map_of q key of Some x \<Rightarrow> x | None \<Rightarrow> v))"

lemma bool_step_fields:
  "ic_OverlappingRanges (bool_step p q key ipam) = (if key = ''enable_overlapping_ranges'' then pick_bool p q key (ic_OverlappingRanges ipam) else ic_OverlappingRanges ipam)"
  "ic_ExcludeGateway (bool_step p q key ipam) = (if key = ''exclude_gateway'' then pick_bool p q key (ic_ExcludeGateway ipam) else ic_ExcludeGateway ipam)"
  "ic_OptimisticIPAM (bool_step p q key ipam) = (if key = ''optimistic_ipam'' then pick_bool p q key (ic_OptimisticIPAM ipam) else ic_OptimisticIPAM ipam)"
  "ic_EnableL3 (bool_step p q key ipam) = (if key = ''enable_l3'' then pick_bool p q key (ic_EnableL3 ipam) else ic_EnableL3 ipam)"
  by (simp_all add: bool_step_def pick_bool_def setIPAMBoolField_def split: option.split)

lemma precedence_fields:
  "ic_OverlappingRanges (applyIPAMBoolPrecedence p q ipam) = pick_bool p q ''enable_overlapping_ranges'' (ic_OverlappingRanges ipam)"
  "ic_ExcludeGateway (applyIPAMBoolPrecedence p q ipam) = pick_bool p q ''exclude_gateway'' (ic_ExcludeGateway ipam)"
  "ic_OptimisticIPAM (applyIPAMBoolPrecedence p q ipam) = pick_bool p q ''optimistic_ipam'' (ic_OptimisticIPAM ipam)"
  "ic_EnableL3 (applyIPAMBoolPrecedence p q ipam) = pick_bool p q ''enable_l3'' (ic_EnableL3 ipam)"
  by (simp_all add: applyIPAMBoolPrecedence_def ipamBoolJSONFields_def bool_step_fields)

text \<open>
  A boolean that the network configuration sets, to true or to false, has that value in
  the loaded configuration, whatever the flat file says and whatever merging does.
\<close>

theorem explicit_bool_wins:
  assumes "LoadIPAMConfig ce bytes envArgs extra = Inr (conf, ver)" "ipamBoolValuesFromNetConfig ce bytes = Inr values"
  shows "(\<forall>b. map_of values ''enable_overlapping_ranges'' = Some b \<longrightarrow> ic_OverlappingRanges conf = b)
    \<and> (\<forall>b. map_of values ''exclude_gateway'' = Some b \<longrightarrow> ic_ExcludeGateway conf = b)
    \<and> (\<forall>b. map_of values ''optimistic_ipam'' = Some b \<longrightarrow> ic_OptimisticIPAM conf = b)
    \<and> (\<forall>b. map_of values ''enable_l3'' = Some b \<longrightarrow> ic_EnableL3 conf = b)"
proof -
  obtain name args primary flat ipam where m: "load_merged name ver args (applyIPAMBoolPrecedence primary flat ipam) = Inr conf"
      "ipamBoolValuesFromNetConfig ce bytes = Inr primary"
    by (rule LoadIPAMConfig_merged [OF assms(1)])
  then have v: "primary = values" using assms(2) by simp
  show ?thesis
    by (rule loaded_fields [OF m(1)]) (simp add: precedence_fields pick_bool_def v)
qed

theorem explicit_bool_wins_witness: "ic_OptimisticIPAM conf_loaded_ex = False"
proof -
  have "ipamBoolValuesFromNetConfig conf_env_ex ''{}'' = Inr [(''exclude_gateway'', True), (''optimistic_ipam'', False)]" by code_simp
  from explicit_bool_wins [OF load_ex this] show ?thesis by fastforce
qed

section \<open>The gateway\<close>

lemma gateway_exclude_contains:
  assumes "valid_ip gw" "parseExcludedRange (gateway_exclude gw) = Inr e" "ip_addr ip = ip_addr gw"
  shows "Contains e ip"
proof -
  let ?m = "if To4 gw = [] then ''128'' else ''32''" and ?n = "BitLen (ip_addr gw)"
  have nz: "ip_addr gw \<noteq> AddrZero" using assms(1) by (simp add: ip_addr_valid)
  have s: "gateway_exclude gw = IP_String gw @ CHR ''/'' # ?m" by (simp add: gateway_exclude_def)
  have "mask_len ?m ?n = Some ?n"
    using assms(1) by (cases gw rule: ip_addr_cases) (auto simp: mask_len_def nat_of_digits_dec' valid_ip_def)
  then have "ParseCIDR (gateway_exclude gw) = Inr (As16 (ip_addr gw), cidr_net (ip_addr gw) ?n)"
    using IP_String_no_slash [OF assms(1)] ParseAddr_IP_String [OF assms(1)] nz by (simp add: ParseCIDR_def s Let_def)
  then have e: "e = cidr_net (ip_addr gw) ?n" using assms(2) by (simp add: parseExcludedRange_def)
  have "addr_mask ?n (ip_addr gw) = ip_addr gw" by (simp add: addr_eq_iff addr_nat_mask)
  then have "plain_cidr (ip_addr gw) ?n" using nz by (simp add: plain_cidr_def)
  then show ?thesis using assms(3) by (simp add: e Contains_plain)
qed

lemma parseExcludedRanges_mem: "parseExcludedRanges vs = Inr ex \<Longrightarrow> v \<in> set vs \<Longrightarrow> \<exists>e\<in>set ex. parseExcludedRange v = Inr e"
  by (induction vs arbitrary: ex) (auto split: sum.splits)

text \<open>
  C20: with \<^verbatim>\<open>exclude_gateway\<close> the gateway is never assigned from a range of the loaded
  configuration, whichever way the allocator picks the address.
\<close>

theorem gateway_never_assigned:
  assumes "LoadIPAMConfig ce bytes envArgs extra = Inr (conf, ver)" "ic_ExcludeGateway conf" "valid_ip (ic_Gateway conf)"
    and "r \<in> set (ic_IPRanges conf)" "AssignIP r rl c q i = Some (Inr (ipn, rl'))"
    and "ParseCIDR (rc_Range r) = Inr (f, N)" "good_net N"
    and "parseExcludedRanges (rc_OmitRanges r) = Inr ex" "list_all good_net ex" "addresses_valid r" "reservations_valid rl"
    and "\<not> (\<exists>x\<in>set rl. ir_PodRef x = q \<and> ir_IfName x = i)"
  shows "ip_addr (net_IP ipn) \<noteq> ip_addr (ic_Gateway conf)"
proof
  assume eq: "ip_addr (net_IP ipn) = ip_addr (ic_Gateway conf)"
  obtain name args primary flat ipam where m: "load_merged name ver args (applyIPAMBoolPrecedence primary flat ipam) = Inr conf"
      "ipamBoolValuesFromNetConfig ce bytes = Inr primary"
    by (rule LoadIPAMConfig_merged [OF assms(1)])
  have "gateway_exclude (ic_Gateway conf) \<in> set (rc_OmitRanges r)"
  proof (rule loaded_fields [OF m(1)])
    fix ranges
    assume c: "ic_IPRanges conf = map (\<lambda>r. let r' = (if ic_EnableL3 conf then r\<lparr>rc_L3 := True\<rparr> else r)
       in if ic_ExcludeGateway conf \<and> ic_Gateway conf \<noteq> [] then r'\<lparr>rc_OmitRanges := rc_OmitRanges r' @ [gateway_exclude (ic_Gateway conf)]\<rparr> else r') ranges"
    show ?thesis using assms(2,4) valid_not_Nil [OF assms(3)] unfolding c by (auto simp: Let_def)
  qed
  then obtain e where e: "e \<in> set ex" "parseExcludedRange (gateway_exclude (ic_Gateway conf)) = Inr e"
    using parseExcludedRanges_mem [OF assms(8)] by blast
  have "Contains e (net_IP ipn)" by (rule gateway_exclude_contains [OF assms(3) e(2) eq])
  then show False using AssignIP_new [OF assms(5-12)] e(1) by (auto simp: free_ip_def)
qed

theorem gateway_never_assigned_witness:
  "ip_addr [10, 0, 0, 9] \<noteq> ip_addr (ic_Gateway conf_loaded_ex)
   \<and> AssignIP range_loaded_ex [] ''c'' ''ns/p'' ''eth0''
     = Some (Inr (\<lparr>net_IP = [10, 0, 0, 9], net_Mask = [255, 255, 255, 248]\<rparr>, [new_reservation [10, 0, 0, 9] ''c'' ''ns/p'' ''eth0'']))"
proof -
  have a: "AssignIP range_loaded_ex [] ''c'' ''ns/p'' ''eth0''
     = Some (Inr (\<lparr>net_IP = [10, 0, 0, 9], net_Mask = [255, 255, 255, 248]\<rparr>, [new_reservation [10, 0, 0, 9] ''c'' ''ns/p'' ''eth0'']))" by code_simp
  have g: "ic_ExcludeGateway conf_loaded_ex" "valid_ip (ic_Gateway conf_loaded_ex)" by code_simp+
  have m: "range_loaded_ex \<in> set (ic_IPRanges conf_loaded_ex)" by (simp add: conf_loaded_ex_def)
  have p: "ParseCIDR (rc_Range range_loaded_ex) = Inr (As16 (Addr4 0x0a000008), \<lparr>net_IP = [10, 0, 0, 8], net_Mask = [255, 255, 255, 248]\<rparr>)"
    "good_net \<lparr>net_IP = [10, 0, 0, 8], net_Mask = [255, 255, 255, 248]\<rparr>"
    "parseExcludedRanges (rc_OmitRanges range_loaded_ex) = Inr [\<lparr>net_IP = [10, 0, 0, 1], net_Mask = [255, 255, 255, 255]\<rparr>]"
    "list_all good_net [\<lparr>net_IP = [10, 0, 0, 1], net_Mask = [255, 255, 255, 255]\<rparr>]" "addresses_valid range_loaded_ex" "reservations_valid []"
    by code_simp+
  show ?thesis using gateway_never_assigned [OF load_ex g m a p] a by simp
qed

end
