(* ===== verification/Client.thy ===== *)
theory Client
  imports Storage
begin

text \<open>
  \<^verbatim>\<open>pkg/storage/kubernetes/client.go\<close> and the constructors of \<^verbatim>\<open>ipam.go\<close>: the API client made from a
  kubeconfig, the namespace of the pools, and the lists of stored objects. The API itself is the
  record \<^verbatim>\<open>kube\<close>, so that the clients of the libraries are opaque here and stand for
  a connection only. \<^verbatim>\<open>clientcmd\<close> and \<^verbatim>\<open>rest\<close> are parameters.
\<close>

section \<open>Definitions\<close>

text \<open>The file format of \<^verbatim>\<open>clientcmd\<close>; entries of a map are pointers, and may be nil.\<close>

record KcCluster =
  kcl_Server :: string
  kcl_InsecureSkipTLSVerify :: bool
  kcl_CertificateAuthorityData :: string

record KcContext =
  kcx_Cluster :: string
  kcx_AuthInfo :: string
  kcx_Namespace :: string

record Kubeconfig =
  kc_Clusters :: "(string \<times> KcCluster) list"
  kc_AuthInfos :: "(string \<times> string) list"
  kc_Contexts :: "(string \<times> KcContext option) list"
  kc_CurrentContext :: string

type_synonym rest_config = string
type_synonym connection = string

record client_lib =
  lib_Load :: "string \<Rightarrow> Kubeconfig result"
  lib_ClientConfig :: "string \<Rightarrow> rest_config result"
  lib_InClusterConfig :: "rest_config result"
  lib_NewClientset :: "rest_config \<Rightarrow> connection result"
  lib_NewWhereabouts :: "rest_config \<Rightarrow> connection result"

record Client =
  cl_client :: connection
  cl_clientSet :: connection
  cl_retries :: nat

definition NewKubernetesClient :: "connection \<Rightarrow> connection \<Rightarrow> Client" where
  "NewKubernetesClient k8sClient k8sClientSet =
     \<lparr> cl_client = k8sClient, cl_clientSet = k8sClientSet, cl_retries = DatastoreRetries \<rparr>"

definition newClient :: "client_lib \<Rightarrow> rest_config \<Rightarrow> Client result" where
  "newClient lib config = (case lib_NewClientset lib config of
     Inl e \<Rightarrow> Inl e
   | Inr clientSet \<Rightarrow> (case lib_NewWhereabouts lib config of
       Inl e \<Rightarrow> Inl e
     | Inr c \<Rightarrow> Inr (NewKubernetesClient c clientSet)))"

definition NewClient :: "client_lib \<Rightarrow> Client result" where
  "NewClient lib = (case lib_InClusterConfig lib of Inl e \<Rightarrow> Inl e | Inr config \<Rightarrow> newClient lib config)"

definition NewClientViaKubeconfig :: "client_lib \<Rightarrow> string \<Rightarrow> Client result" where
  "NewClientViaKubeconfig lib kubeconfigPath =
     (case lib_ClientConfig lib kubeconfigPath of Inl e \<Rightarrow> Inl e | Inr config \<Rightarrow> newClient lib config)"

definition wbNamespaceFromCtx :: "KcContext \<Rightarrow> string" where
  "wbNamespaceFromCtx ctx = (if kcx_Namespace ctx = [] then ''kube-system'' else kcx_Namespace ctx)"

text \<open>\<^verbatim>\<open>clientcmd.LoadFromFile\<close>: the file is read and decoded.\<close>

definition LoadFromFile :: "client_lib \<Rightarrow> os_env \<Rightarrow> string \<Rightarrow> Kubeconfig result" where
  "LoadFromFile lib env path = (case os_Open env path of
     Inl e \<Rightarrow> Inl e
   | Inr (Inl e) \<Rightarrow> Inl e
   | Inr (Inr contents) \<Rightarrow> lib_Load lib contents)"

definition NewKubernetesIPAM ::
  "client_lib \<Rightarrow> os_env \<Rightarrow> string \<Rightarrow> string \<Rightarrow> IPAMConfig \<Rightarrow> KubernetesIPAM result" where
  "NewKubernetesIPAM lib env containerID ifName ipamConf =
     (let path = KubeConfigPath (ic_Kubernetes ipamConf)
      in case LoadFromFile lib env path of
           Inl e \<Rightarrow> Inl e
         | Inr cfg \<Rightarrow> (case map_of (kc_Contexts cfg) (kc_CurrentContext cfg) of
             Some (Some ctx) \<Rightarrow> (case NewClientViaKubeconfig lib path of
                 Inl e \<Rightarrow> Inl (Wrap ''failed instantiating kubernetes client'' e)
               | Inr _ \<Rightarrow> Inr (newKubernetesIPAM containerID ifName ipamConf (wbNamespaceFromCtx ctx)))
           | _ \<Rightarrow> Inl (Msg ''k8s config: namespace not present in context'')))"

definition NewKubernetesIPAMWithNamespace ::
  "client_lib \<Rightarrow> os_env \<Rightarrow> string \<Rightarrow> string \<Rightarrow> IPAMConfig \<Rightarrow> string \<Rightarrow> KubernetesIPAM result" where
  "NewKubernetesIPAMWithNamespace lib env containerID ifName ipamConf namespace =
     (case NewKubernetesIPAM lib env containerID ifName ipamConf of
        Inl e \<Rightarrow> Inl e
      | Inr k8sIPAM \<Rightarrow> Inr (k8sIPAM\<lparr>ki_Namespace := namespace\<rparr>))"

subsection \<open>Lists of stored objects\<close>

record 'w lister = "'w kube" +
  k_ListIPPools :: "string \<Rightarrow> 'w \<Rightarrow> IPPool list result \<times> 'w"
  k_ListPods :: "string \<Rightarrow> 'w \<Rightarrow> Pod list result \<times> 'w"

fun listed_pools :: "IPPool list \<Rightarrow> KubernetesIPPool list result" where
  "listed_pools [] = Inr []"
| "listed_pools (pool # rest) = (case IPPool_ParseCIDR pool of
     Inl e \<Rightarrow> Inl e
   | Inr (firstIP, _) \<Rightarrow> (case listed_pools rest of
       Inl e \<Rightarrow> Inl e
     | Inr pools \<Rightarrow> Inr (\<lparr> kp_firstIP = firstIP, kp_pool = pool \<rparr> # pools)))"

definition ListIPPools :: "('w, 'x) lister_scheme \<Rightarrow> 'w \<Rightarrow> KubernetesIPPool list result \<times> 'w" where
  "ListIPPools k w = (case k_ListIPPools k [] w of
     (Inl e, w) \<Rightarrow> (Inl e, w)
   | (Inr items, w) \<Rightarrow> (listed_pools items, w))"

definition ListPods :: "('w, 'x) lister_scheme \<Rightarrow> 'w \<Rightarrow> Pod list result \<times> 'w" where
  "ListPods k w = k_ListPods k [] w"

definition GetPod :: "('w, 'x) kube_scheme \<Rightarrow> string \<Rightarrow> string \<Rightarrow> 'w \<Rightarrow> Pod result \<times> 'w" where
  "GetPod k namespace name w = k_GetPod k namespace name w"

definition ListOverlappingIPs :: "('w, 'x) kube_scheme \<Rightarrow> 'w \<Rightarrow> OverlappingRangeIPReservation list result \<times> 'w" where
  "ListOverlappingIPs k w = k_ListORIPs k [] w"

definition DeleteOverlappingIP :: "('w, 'x) kube_scheme \<Rightarrow> OverlappingRangeIPReservation \<Rightarrow> 'w \<Rightarrow> unit result \<times> 'w" where
  "DeleteOverlappingIP k clusterWideIP w =
     k_DeleteORIP k (om_Namespace (ov_Meta clusterWideIP)) (om_Name (ov_Meta clusterWideIP)) None w"

section \<open>What the constructors and lists give\<close>

lemma NewKubernetesIPAM_fields:
  "NewKubernetesIPAM lib env c i conf = Inr ipam \<Longrightarrow> ki_Config ipam = conf \<and> ki_ContainerID ipam = c \<and> ki_IfName ipam = i"
  by (auto simp: NewKubernetesIPAM_def newKubernetesIPAM_def Let_def split: sum.splits option.splits)

text \<open>The pools always have a namespace.\<close>

lemma NewKubernetesIPAM_namespace: "NewKubernetesIPAM lib env c i conf = Inr ipam \<Longrightarrow> ki_Namespace ipam \<noteq> []"
  by (auto simp: NewKubernetesIPAM_def newKubernetesIPAM_def wbNamespaceFromCtx_def Let_def split: sum.splits option.splits if_splits)

text \<open>A listed pool is what \<^verbatim>\<open>GetExistingIPPool\<close> makes of the stored object; one bad range fails the whole list.\<close>

lemma listed_pools_read:
  "listed_pools items = Inr pools \<longleftrightarrow> list_all2 (\<lambda>pool kp. with_firstIP (Inr pool, w) = (Inr kp, w)) items pools"
proof (induction items arbitrary: pools)
  case (Cons pool rest)
  have "listed_pools (pool # rest) = Inr pools
      \<longleftrightarrow> (\<exists>kp ps. pools = kp # ps \<and> with_firstIP (Inr pool, w) = (Inr kp, w) \<and> listed_pools rest = Inr ps)"
    by (auto simp: with_firstIP_def split: sum.splits)
  then show ?case using Cons.IH by (simp add: list_all2_Cons1)
qed auto

end
