(* ===== verification/Cmd.thy ===== *)
theory Cmd
  imports Config Client
begin

text \<open>
  \<^verbatim>\<open>cmd/whereabouts/main.go\<close>: the CNI commands. Printing the result is returning it. Closing the backend
  does nothing in the code, and logging is left out.
\<close>

section \<open>Definitions\<close>

record CmdArgs =
  ca_ContainerID :: string
  ca_IfName :: string
  ca_Args :: string
  ca_StdinData :: string

text \<open>
  What an invocation depends on besides the API: the configuration, the node's environment and files
  and the client libraries, which may answer differently at each attempt, the elections, and the CNI
  library's decoders for a previous result.
\<close>

record 'w invocation =
  iv_conf :: conf_env
  iv_env :: "'w \<Rightarrow> os_env"
  iv_lib :: "'w \<Rightarrow> client_lib"
  iv_accept :: "leader_elector \<Rightarrow> bool"
  iv_event :: "'w \<Rightarrow> election_event"
  iv_prev :: prev_lib

subsection \<open>ADD\<close>

definition gatewayWithSameFamily :: "IP \<Rightarrow> IP \<Rightarrow> IP" where
  "gatewayWithSameFamily address gateway =
     (if To4 address \<noteq> [] then if To4 gateway \<noteq> [] then gateway else []
      else if To4 gateway = [] then gateway else [])"

definition gatewayForAddress :: "IPNet \<Rightarrow> IP \<Rightarrow> IP" where
  "gatewayForAddress address gateway =
     (if gateway = [] then [] else gatewayWithSameFamily (net_IP address) gateway)"

definition effectiveManagedRange :: "IPNet \<Rightarrow> IP \<Rightarrow> IP \<Rightarrow> bool \<Rightarrow> (IP \<times> IP) result" where
  "effectiveManagedRange ipNet rangeStart rangeEnd l3 =
     (if \<not> l3 then GetIPRange ipNet rangeStart rangeEnd
      else let first0 = NetworkIP ipNet; last0 = SubnetBroadcastIP ipNet;
               firstIP = (if rangeStart \<noteq> [] \<and> Contains ipNet rangeStart \<and> CompareIPs rangeStart first0 \<ge> 0 then rangeStart else first0);
               lastIP = (if rangeEnd \<noteq> [] \<and> Contains ipNet rangeEnd \<and> CompareIPs rangeEnd firstIP \<ge> 0 \<and> CompareIPs rangeEnd last0 \<le> 0
                         then rangeEnd else last0)
           in Inr (firstIP, lastIP))"

definition staticAddressInManagedRange :: "IP \<Rightarrow> IPNet \<Rightarrow> RangeConfiguration \<Rightarrow> bool result" where
  "staticAddressInManagedRange ip ipNet ipRange =
     (if \<not> Contains ipNet ip then Inr False
      else and_then (effectiveManagedRange ipNet (rc_RangeStart ipRange) (rc_RangeEnd ipRange) (rc_L3 ipRange))
             (\<lambda>(firstIP, lastIP). IsIPInRange ip firstIP lastIP))"

fun static_in_ranges :: "Address \<Rightarrow> RangeConfiguration list \<Rightarrow> err option" where
  "static_in_ranges address [] = None"
| "static_in_ranges address (ipRange # rest) = (case ParseCIDR (rc_Range ipRange) of
     Inl e \<Rightarrow> Some (Wrap ''invalid managed range'' e)
   | Inr (_, ipNet) \<Rightarrow> (case staticAddressInManagedRange (net_IP (ad_Address address)) ipNet ipRange of
       Inl e \<Rightarrow> Some (Wrap ''invalid managed range'' e)
     | Inr overlaps \<Rightarrow> if overlaps then Some (Msg ''static address overlaps managed range'') else static_in_ranges address rest))"

fun validateStaticAddressesOutsideManagedRanges :: "Address list \<Rightarrow> RangeConfiguration list \<Rightarrow> err option" where
  "validateStaticAddressesOutsideManagedRanges [] ranges = None"
| "validateStaticAddressesOutsideManagedRanges (address # rest) ranges = (case static_in_ranges address ranges of
     Some e \<Rightarrow> Some e
   | None \<Rightarrow> validateStaticAddressesOutsideManagedRanges rest ranges)"

definition run_ipam ::
  "('w, 'x) kube_scheme \<Rightarrow> 'w invocation \<Rightarrow> int \<Rightarrow> KubernetesIPAM \<Rightarrow> 'w \<Rightarrow> IPNet list \<times> err option \<times> 'w" where
  "run_ipam k iv mode client w =
     (if ic_OptimisticIPAM (ki_Config client) then IPManagementKubernetesUpdate k (iv_env iv w) mode client (ki_Config client) w
      else IPManagement k (iv_accept iv) (iv_env iv w) (iv_event iv w) mode (ki_Config client) client w)"

definition add_result :: "IPAMConfig \<Rightarrow> IPNet list \<Rightarrow> CNIResult" where
  "add_result conf newips = \<lparr> rs_DNS = ic_DNS conf, rs_Routes = ic_Routes conf,
     rs_IPs = map (\<lambda>newip. \<lparr> ipc_Address = newip, ipc_Gateway = gatewayForAddress newip (ic_Gateway conf) \<rparr>) newips
       @ map (\<lambda>v. \<lparr> ipc_Address = ad_Address v, ipc_Gateway = ad_Gateway v \<rparr>) (ic_Addresses conf) \<rparr>"

definition cmdAdd :: "('w, 'x) kube_scheme \<Rightarrow> 'w invocation \<Rightarrow> KubernetesIPAM \<Rightarrow> 'w \<Rightarrow> CNIResult result \<times> 'w" where
  "cmdAdd k iv client w = (case validateStaticAddressesOutsideManagedRanges (ic_Addresses (ki_Config client)) (ic_IPRanges (ki_Config client)) of
     Some e \<Rightarrow> (Inl (Wrap ''invalid static address configuration'' e), w)
   | None \<Rightarrow> (case run_ipam k iv Allocate client w of
       (_, Some e, w) \<Rightarrow> (Inl (Wrap ''error at storage engine'' e), w)
     | (newips, None, w) \<Rightarrow>
         let result = add_result (ki_Config client) newips
         in (if rs_IPs result = [] then Inl (Msg ''no IP addresses allocated'') else Inr result, w)))"

definition cmdAddFunc :: "('w, 'x) kube_scheme \<Rightarrow> 'w invocation \<Rightarrow> CmdArgs \<Rightarrow> 'w \<Rightarrow> CNIResult result \<times> 'w" where
  "cmdAddFunc k iv args w = (case LoadIPAMConfig (iv_conf iv) (ca_StdinData args) (ca_Args args) [] of
     Inl e \<Rightarrow> (Inl (Wrap ''IPAM configuration load failed'' e), w)
   | Inr (ipamConf, confVersion) \<Rightarrow> (case NewKubernetesIPAM (iv_lib iv w) (iv_env iv w) (ca_ContainerID args) (ca_IfName args) ipamConf of
       Inl e \<Rightarrow> (Inl (Wrap ''failed to create Kubernetes IPAM manager'' e), w)
     | Inr ipam \<Rightarrow> cmdAdd k iv ipam w))"

subsection \<open>DEL\<close>

definition delMaxRetries :: nat where
  "delMaxRetries = 3"

definition delInitialBackoff :: int where
  "delInitialBackoff = 1000000000"

definition cmdDel :: "('w, 'x) kube_scheme \<Rightarrow> 'w invocation \<Rightarrow> KubernetesIPAM \<Rightarrow> 'w \<Rightarrow> err option \<times> 'w" where
  "cmdDel k iv client w = (case run_ipam k iv Deallocate client w of
     (_, Some e, w) \<Rightarrow> (Some (Wrap ''error deallocating IP'' e), w)
   | (_, None, w) \<Rightarrow> (None, w))"

definition del_attempt :: "('w, 'x) kube_scheme \<Rightarrow> 'w invocation \<Rightarrow> CmdArgs \<Rightarrow> IPAMConfig \<Rightarrow> 'w \<Rightarrow> err option \<times> 'w" where
  "del_attempt k iv args ipamConf w = (case NewKubernetesIPAM (iv_lib iv w) (iv_env iv w) (ca_ContainerID args) (ca_IfName args) ipamConf of
     Inl e \<Rightarrow> (Some e, w)
   | Inr ipam \<Rightarrow> cmdDel k iv ipam w)"

text \<open>The attempts left, the number of the attempt, the backoff and the last error.\<close>

fun del_loop ::
  "('w, 'x) kube_scheme \<Rightarrow> 'w invocation \<Rightarrow> CmdArgs \<Rightarrow> IPAMConfig \<Rightarrow> nat \<Rightarrow> nat \<Rightarrow> int \<Rightarrow> err option \<Rightarrow> 'w \<Rightarrow> err option \<times> 'w" where
  "del_loop k iv args ipamConf 0 tries backoff lastErr w =
     (Some (Wrap ''DEL failed'' (case lastErr of Some e \<Rightarrow> e | None \<Rightarrow> Msg [])), w)"
| "del_loop k iv args ipamConf (Suc n) tries backoff lastErr w =
     (let w = (if tries > 0 then k_Sleep k backoff w else w);
          backoff = (if tries > 0 then backoff * 2 else backoff)
      in case del_attempt k iv args ipamConf w of
           (None, w) \<Rightarrow> (None, w)
         | (Some e, w) \<Rightarrow> del_loop k iv args ipamConf n (Suc tries) backoff (Some e) w)"

definition cmdDelFunc :: "('w, 'x) kube_scheme \<Rightarrow> 'w invocation \<Rightarrow> CmdArgs \<Rightarrow> 'w \<Rightarrow> err option \<times> 'w" where
  "cmdDelFunc k iv args w = (case LoadIPAMConfig (iv_conf iv) (ca_StdinData args) (ca_Args args) [] of
     Inl _ \<Rightarrow> (None, w)
   | Inr (ipamConf, _) \<Rightarrow> del_loop k iv args ipamConf delMaxRetries 0 delInitialBackoff None w)"

subsection \<open>CHECK\<close>

definition gatewayForExpectedAllocation :: "IPNet \<Rightarrow> IP \<Rightarrow> IP" where
  "gatewayForExpectedAllocation address gateway =
     (if gateway = [] then []
      else if (To4 (net_IP address) \<noteq> []) \<noteq> (To4 gateway \<noteq> []) then [] else gateway)"

definition resultKey :: "IPNet \<Rightarrow> IP \<Rightarrow> string" where
  "resultKey address gateway = IPNet_String address @ '' gateway='' @ (if gateway = [] then [] else IP_String gateway)"

definition range_keys :: "KubernetesIPAM \<Rightarrow> IPNet \<Rightarrow> KubernetesIPPool \<Rightarrow> string list" where
  "range_keys ipam ipNet pool =
     map (\<lambda>r. let address = \<lparr> net_IP = ir_IP r, net_Mask = net_Mask ipNet \<rparr>
              in resultKey address (gatewayForExpectedAllocation address (ic_Gateway (ki_Config ipam))))
       (filter (\<lambda>r. ir_ContainerID r = ki_ContainerID ipam \<and> ir_IfName r = ki_IfName ipam) (Allocations pool))"

text \<open>The container and interface of the arguments are those of the client, which was made from them.\<close>

fun check_ranges ::
  "('w, 'x) kube_scheme \<Rightarrow> os_env \<Rightarrow> KubernetesIPAM \<Rightarrow> RangeConfiguration list \<Rightarrow> string list \<Rightarrow> 'w \<Rightarrow> string list result \<times> 'w" where
  "check_ranges k env ipam [] keys w = (Inr keys, w)"
| "check_ranges k env ipam (ipRange # rest) keys w = (case EffectivePoolIdentifier k env ipam (rc_Range ipRange) w of
     (Inl e, w) \<Rightarrow> (Inl (Wrap ''CHECK: error resolving pool for range'' e), w)
   | (Inr poolIdentifier, w) \<Rightarrow> (case GetExistingIPPool k ipam poolIdentifier w of
       (Inl e, w) \<Rightarrow> (Inl (Wrap ''CHECK: error reading pool'' e), w)
     | (Inr pool, w) \<Rightarrow> (case ParseCIDR (pi_IPRange poolIdentifier) of
         Inl e \<Rightarrow> (Inl (Wrap ''CHECK: invalid pool range'' e), w)
       | Inr (_, ipNet) \<Rightarrow>
           let found = range_keys ipam ipNet pool
           in if found = [] then (Inl (Msg ''CHECK: no allocation found''), w)
              else check_ranges k env ipam rest (keys @ found) w)))"

definition runCmdCheck ::
  "('w, 'x) kube_scheme \<Rightarrow> os_env \<Rightarrow> KubernetesIPAM \<Rightarrow> CNIResult option \<Rightarrow> 'w \<Rightarrow> err option \<times> 'w" where
  "runCmdCheck k env ipam prevResult w = (case check_ranges k env ipam (ic_IPRanges (ki_Config ipam)) [] w of
     (Inl e, w) \<Rightarrow> (Some e, w)
   | (Inr keys, w) \<Rightarrow>
       let allocatedIPs = keys @ map (\<lambda>a. resultKey (ad_Address a) (ad_Gateway a)) (ic_Addresses (ki_Config ipam))
       in (case prevResult of
             None \<Rightarrow> (None, w)
           | Some result \<Rightarrow>
               let prevResultIPs = map (\<lambda>c. resultKey (ipc_Address c) (ipc_Gateway c)) (rs_IPs result)
               in (if \<not> set prevResultIPs \<subseteq> set allocatedIPs then Some (Msg ''CHECK: IP config from prevResult is not expected'')
                   else if \<not> set allocatedIPs \<subseteq> set prevResultIPs then Some (Msg ''CHECK: expected IP config is missing from prevResult'')
                   else None, w)))"

definition cmdCheck :: "('w, 'x) kube_scheme \<Rightarrow> 'w invocation \<Rightarrow> CmdArgs \<Rightarrow> 'w \<Rightarrow> err option \<times> 'w" where
  "cmdCheck k iv args w = (case LoadIPAMConfig (iv_conf iv) (ca_StdinData args) (ca_Args args) [] of
     Inl e \<Rightarrow> (Some (Wrap ''IPAM configuration load failed'' e), w)
   | Inr (ipamConf, _) \<Rightarrow> (case NewKubernetesIPAM (iv_lib iv w) (iv_env iv w) (ca_ContainerID args) (ca_IfName args) ipamConf of
       Inl e \<Rightarrow> (Some (Wrap ''failed to create Kubernetes IPAM manager'' e), w)
     | Inr ipam \<Rightarrow> (case ParsePrevResult (iv_prev iv) (ca_StdinData args) of
         Inl e \<Rightarrow> (Some (Wrap ''CHECK: could not parse prevResult'' e), w)
       | Inr prevResult \<Rightarrow> runCmdCheck k (iv_env iv w) ipam prevResult w)))"

section \<open>Static addresses\<close>

lemma managed_range_eq: "effectiveManagedRange = effectiveIPRange"
  by (intro ext) (simp add: effectiveManagedRange_def effectiveIPRange_def)

lemma validateStatic_None:
  assumes "validateStaticAddressesOutsideManagedRanges addresses ranges = None" "a \<in> set addresses" "r \<in> set ranges"
  shows "\<exists>f N. ParseCIDR (rc_Range r) = Inr (f, N) \<and> staticAddressInManagedRange (net_IP (ad_Address a)) N r = Inr False"
proof -
  have "static_in_ranges a ranges = None"
    using assms(1,2) by (induction addresses) (auto split: option.splits)
  then show ?thesis using assms(3)
    by (induction ranges) (auto split: sum.splits if_splits)
qed

text \<open>
  ADD's own calls. A range is well formed if it, its excludes and its addresses are; \<open>unheld\<close> says of the
  pools that the call can read that they hold valid addresses, and none that the pod's interface
  already has is \<open>s\<close>.
\<close>

definition range_formed :: "RangeConfiguration \<Rightarrow> bool" where
  "range_formed r \<longleftrightarrow> (case ParseCIDR (rc_Range r) of Inl _ \<Rightarrow> False | Inr (_, N) \<Rightarrow> good_net N)
     \<and> (case parseExcludedRanges (rc_OmitRanges r) of Inl _ \<Rightarrow> False | Inr ex \<Rightarrow> list_all good_net ex) \<and> addresses_valid r"

definition unheld :: "('w, 'x) kube_scheme \<Rightarrow> KubernetesIPAM \<Rightarrow> addr \<Rightarrow> bool" where
  "unheld k ipam s \<longleftrightarrow> (\<forall>pid w pool w'. GetIPPool k ipam pid w = (Inr pool, w') \<longrightarrow> reservations_valid (Allocations pool)
     \<and> (\<forall>x\<in>set (Allocations pool). ir_PodRef x = GetPodRef (ki_Config ipam) \<and> ir_IfName x = ki_IfName ipam \<longrightarrow> ip_addr (ir_IP x) \<noteq> s))"

lemma unheldD:
  assumes "unheld k ipam s" "GetIPPool k ipam pid w = (Inr pool, w')"
  shows "reservations_valid (Allocations pool)"
    "x \<in> set (Allocations pool) \<Longrightarrow> ir_PodRef x = GetPodRef (ki_Config ipam) \<Longrightarrow> ir_IfName x = ki_IfName ipam \<Longrightarrow> ip_addr (ir_IP x) \<noteq> s"
  using assms unfolding unheld_def by blast+

text \<open>The address \<open>x\<close> is outside what is managed of a range.\<close>

definition outside :: "IP \<Rightarrow> RangeConfiguration \<Rightarrow> bool" where
  "outside x r \<longleftrightarrow> (\<exists>f N. ParseCIDR (rc_Range r) = Inr (f, N) \<and> staticAddressInManagedRange x N r = Inr False)"

lemma outside_not_free:
  assumes "outside x r" "valid_ip x" "ParseCIDR (rc_Range r) = Inr (f, N)" "good_net N" "addresses_valid r"
    and "effectiveIPRange N (rc_RangeStart r) (rc_RangeEnd r) (rc_L3 r) = Inr (lo, hi)" "free_ip N lo hi rl ex ip"
  shows "ip_addr ip \<noteq> ip_addr x"
proof
  assume eq: "ip_addr ip = ip_addr x"
  have out: "staticAddressInManagedRange x N r = Inr False" using assms(1,3) by (auto simp: outside_def)
  obtain b n where b: "good_cidr b n" "N = cidr_net b n" using good_netD [OF assms(4)] by blast
  have "Contains N x" using assms(7) eq Contains_plain [OF good_plain [OF b(1)]] by (simp add: free_ip_def b(2))
  then have "IsIPInRange x lo hi = Inr False" using out assms(6) by (simp add: staticAddressInManagedRange_def managed_range_eq and_then_def)
  moreover have "IsIPInRange x lo hi = Inr True"
  proof -
    have "nil_or_valid (rc_RangeStart r)" "nil_or_valid (rc_RangeEnd r)" using assms(5) by (simp_all add: addresses_valid_def)
    then have "valid_ip lo" "valid_ip hi" using effectiveIPRange_good [OF assms(4), of "rc_RangeStart r" "rc_RangeEnd r" "rc_L3 r"] assms(6) by auto
    then show ?thesis using assms(2,7) eq by (simp add: IsIPInRange_valid free_ip_def)
  qed
  ultimately show False by simp
qed

lemma assigned_outside:
  assumes "AssignIP r' (A @ map dummy ds) c (GetPodRef (ki_Config ipam)) (ki_IfName ipam) = Some (Inr (ipn, rl))"
    and "derived conf r r'" "ic_NodeSliceSize conf = []" "range_formed r" "nil_or_valid (rc_PreferredIP r')"
    and "outside x r" "valid_ip x" "list_all valid_ip ds" "reservations_valid A"
    and "\<And>y. y \<in> set A \<Longrightarrow> ir_PodRef y = GetPodRef (ki_Config ipam) \<Longrightarrow> ir_IfName y = ki_IfName ipam \<Longrightarrow> ip_addr (ir_IP y) \<noteq> ip_addr x"
  shows "valid_ip (net_IP ipn) \<and> ip_addr (net_IP ipn) \<noteq> ip_addr x"
proof -
  have r': "r' = r\<lparr>rc_PreferredIP := rc_PreferredIP r'\<rparr>" using assms(2,3) by (simp add: derived_def)
  then have same: "rc_Range r' = rc_Range r" "rc_OmitRanges r' = rc_OmitRanges r" "rc_RangeStart r' = rc_RangeStart r"
      "rc_RangeEnd r' = rc_RangeEnd r" "rc_L3 r' = rc_L3 r" "rc_PickAddresses r' = rc_PickAddresses r"
    by (metis RangeConfiguration.select_convs RangeConfiguration.surjective RangeConfiguration.update_convs(6))+
  show ?thesis
  proof (cases "\<exists>y\<in>set (A @ map dummy ds). ir_PodRef y = GetPodRef (ki_Config ipam) \<and> ir_IfName y = ki_IfName ipam")
    case True
    then obtain y where y: "y \<in> set (A @ map dummy ds)" "net_IP ipn = ir_IP y" "ir_PodRef y = GetPodRef (ki_Config ipam)" "ir_IfName y = ki_IfName ipam"
      using AssignIP_existing [OF assms(1) True] by (metis in_set_conv_decomp)
    have "y \<notin> set (map dummy ds)" using y(3) GetPodRef_not_Nil [of "ki_Config ipam"] only_dummies_PodRef [of "map dummy ds" y] by (auto simp: only_dummies_def list_all_iff)
    then have "y \<in> set A" using y(1) by simp
    then show ?thesis using y(2-4) assms(9,10) by (auto simp: reservations_valid_def list_all_iff)
  next
    case False
    obtain f N ex where ok: "ParseCIDR (rc_Range r') = Inr (f, N)" "good_net N" "parseExcludedRanges (rc_OmitRanges r') = Inr ex" "list_all good_net ex"
      using assms(4) by (auto simp: range_formed_def same split: sum.splits prod.splits)
    have av: "addresses_valid r'" "addresses_valid r" using assms(4,5) by (simp_all add: range_formed_def addresses_valid_def same)
    have rv: "reservations_valid (A @ map dummy ds)" using assms(8,9) by (auto simp: reservations_valid_def list_all_iff)
    obtain lo hi where fr: "effectiveIPRange N (rc_RangeStart r) (rc_RangeEnd r) (rc_L3 r) = Inr (lo, hi)" "free_ip N lo hi (A @ map dummy ds) ex (net_IP ipn)"
      using AssignIP_new [OF assms(1) ok av(1) rv False] unfolding same by blast
    have "valid_ip (net_IP ipn)" using fr(2) ok(2) wb.inside_valid wb.good_cidr by (auto simp: free_ip_def)
    then show ?thesis using outside_not_free [OF assms(6,7) ok(1) [unfolded same] ok(2) av(2) fr] by simp
  qed
qed

text \<open>What every phase, attempt and loop keeps: the address at hand is not \<open>s\<close>, and the local dummies are valid.\<close>

definition clear :: "addr \<Rightarrow> IPAMConfig \<Rightarrow> RangeConfiguration \<Rightarrow> loop_state \<Rightarrow> bool" where
  "clear s conf r st \<longleftrightarrow> ip_addr (net_IP (ls_newip st)) \<noteq> s \<and> (\<exists>ds. ls_overlapping st = map dummy ds \<and> list_all valid_ip ds)
     \<and> derived conf r (ls_ipRange st) \<and> nil_or_valid (rc_PreferredIP (ls_ipRange st))"

lemma phase_assign_clear:
  assumes "phase_assign k ipam conf pref pool st w = (f, st', w')" "clear (ip_addr x) conf r st" "nil_or_valid pref" "conf = ki_Config ipam"
    and "ic_NodeSliceSize conf = []" "range_formed r" "outside x r" "valid_ip x" "unheld k ipam (ip_addr x)" "GetIPPool k ipam pid w0 = (Inr pool, w1)"
  shows "clear (ip_addr x) conf r st' \<and> ((\<exists>e. f = Return e) \<or> valid_ip (net_IP (ls_newip st')))"
proof -
  obtain ds where ds: "ls_overlapping st = map dummy ds" "list_all valid_ip ds" using assms(2) by (auto simp: clear_def)
  define conf' where "conf' = (if pref \<noteq> [] then (ls_ipRange st)\<lparr>rc_PreferredIP := pref\<rparr> else ls_ipRange st)"
  have c': "derived conf r conf'" "nil_or_valid (rc_PreferredIP conf')" using assms(2,3) by (auto simp: clear_def conf'_def)
  define st0 where "st0 = st\<lparr>ls_ipRange := conf'\<rparr>"
  have st0: "clear (ip_addr x) conf r st0" using assms(2) c' by (simp add: clear_def st0_def)
  obtain v where v: "AssignIP conf' (Allocations pool @ map dummy ds) (ki_ContainerID ipam) (GetPodRef conf) (ki_IfName ipam) = Some v"
    using AssignIP_total by blast
  note run = assms(1) [unfolded phase_assign_def Let_def ds(1) conf'_def [symmetric] v option.sel, folded st0_def]
  show ?thesis
  proof (cases v)
    case (Inl e)
    then have "f = Return e" "st' = st0\<lparr>ls_err := Some e\<rparr>" using run by (auto simp: st0_def)
    then show ?thesis using st0 by (simp add: clear_def)
  next
    case (Inr p)
    obtain newip updated where p: "p = (newip, updated)" by fastforce
    have n: "valid_ip (net_IP newip)" "ip_addr (net_IP newip) \<noteq> ip_addr x"
      using assigned_outside [OF v [unfolded Inr p assms(4)] c'(1) assms(5,6) c'(2) assms(7,8) ds(2)] unheldD [OF assms(9,10)] by blast+
    define st1 where "st1 = st0\<lparr>ls_newip := newip, ls_updated := updated, ls_err := None,
      ls_allocationCreated := \<not> allocationAlreadyInPool (Allocations pool) (net_IP newip) (GetPodRef conf) (ki_IfName ipam)\<rparr>"
    have st1: "clear (ip_addr x) conf r st1" "ls_newip st1 = newip" using st0 n(2) by (simp_all add: clear_def st1_def)
    have st1_run: "(if ic_OverlappingRanges conf then phase_overlap k ipam conf st1 w else (Next_phase, st1, w)) = (f, st', w')"
      using run by (simp only: Inr p st1_def sum.case prod.case)
    have "\<exists>ds'. ls_overlapping st' = map dummy ds' \<and> list_all valid_ip ds'"
      if "ls_overlapping st' = ls_overlapping st1 \<or> ls_overlapping st' = ls_overlapping st1 @ [dummy (net_IP newip)]"
    proof -
      obtain ds1 where d: "ls_overlapping st1 = map dummy ds1" "list_all valid_ip ds1" using st1(1) by (auto simp: clear_def)
      from that show ?thesis
      proof
        assume "ls_overlapping st' = ls_overlapping st1 @ [dummy (net_IP newip)]"
        then show ?thesis using d n(1) by (intro exI [of _ "ds1 @ [net_IP newip]"]) simp
      qed (use d in auto)
    qed
    moreover have "ls_newip st' = newip \<and> ls_ipRange st' = ls_ipRange st1
        \<and> (ls_overlapping st' = ls_overlapping st1 \<or> ls_overlapping st' = ls_overlapping st1 @ [dummy (net_IP newip)])"
      using st1(2) st1_run unfolding phase_overlap_def Let_def
      by (auto split: if_splits prod.splits sum.splits option.splits)
    ultimately show ?thesis using st1(1) n by (simp add: clear_def)
  qed
qed

lemma attempt_clear:
  assumes "attempt k env Allocate ipam conf pref st w = (f, st', w')" "clear (ip_addr x) conf r st" "nil_or_valid pref" "conf = ki_Config ipam"
    and "ic_NodeSliceSize conf = []" "range_formed r" "outside x r" "valid_ip x" "unheld k ipam (ip_addr x)"
  shows "clear (ip_addr x) conf r st' \<and> ((\<exists>e. f = Return e) \<or> ls_err st' \<noteq> None \<or> valid_ip (net_IP (ls_newip st')))"
proof -
  obtain f1 st1 w1 f2 st2 w2 f3 st3 w3 f4 st4 w4 f5 st5 w5 where
    1: "phase_range k env ipam conf st w = (f1, st1, w1)" and 2: "phase_pool k Allocate ipam st1 w1 = (f2, st2, w2)"
    and 3: "phase_assign k ipam conf pref (the (ls_pool st2)) st2 w2 = (f3, st3, w3)"
    and 4: "phase_update k conf (the (ls_pool st2)) st3 w3 = (f4, st4, w4)" and 5: "phase_reserve k Allocate ipam conf st4 w4 = (f5, st5, w5)"
    and run: "(f, st', w') = (if f1 \<noteq> Next_phase then (f1, st1, w1) else if f2 \<noteq> Next_phase then (f2, st2, w2)
      else if f3 \<noteq> Next_phase then (f3, st3, w3) else if f4 \<noteq> Next_phase then (f4, st4, w4) else (f5, st5, w5))"
    by (rule attempt_eq [of k env ipam conf st w Allocate pref]; rule that) (use assms(1) in simp_all)
  have c1: "clear (ip_addr x) conf r st1" "f1 = Next_phase \<or> (\<exists>e. f1 = Return e) \<or> ls_err st1 \<noteq> None"
    using 1 assms(2,5) unfolding phase_range_def Let_def clear_def by (auto split: prod.splits option.splits if_splits)
  have c2: "clear (ip_addr x) conf r st2" "f2 = Next_phase \<or> (\<exists>e. f2 = Return e) \<or> ls_err st2 \<noteq> None"
    using 2 c1(1) unfolding phase_pool_def clear_def backoff_continue_def
    by (auto split: prod.splits sum.splits if_splits simp: Allocate_def Deallocate_def)
  have c3: "clear (ip_addr x) conf r st3 \<and> ((\<exists>e. f3 = Return e) \<or> valid_ip (net_IP (ls_newip st3)))" if n: "f2 = Next_phase"
  proof -
    obtain pool where "ls_pool st2 = Some pool" "GetIPPool k ipam (ls_poolID st1) w1 = (Inr pool, w2)" using phase_pool_derived(3) [OF 2 n] by auto
    then show ?thesis using phase_assign_clear [OF 3 c2(1) assms(3-9)] by simp
  qed
  have c4: "clear (ip_addr x) conf r st4 = clear (ip_addr x) conf r st3" "ls_newip st4 = ls_newip st3"
    using phase_update_next(1,2) [OF 4] phase_update_derived [OF 4] by (simp_all add: clear_def)
  have c5: "clear (ip_addr x) conf r st5 = clear (ip_addr x) conf r st4" "ls_newip st5 = ls_newip st4"
    using phase_reserve_next(2,3) [OF 5] phase_reserve_derived [OF 5] by (simp_all add: clear_def)
  show ?thesis using run c1 c2 c3 c4 c5 by (auto split: if_splits)
qed

lemma retry_loop_clear:
  assumes "retry_loop n k env Allocate ipam conf pref st w = (f, st', w')" "clear (ip_addr x) conf r st" "nil_or_valid pref" "conf = ki_Config ipam"
    and "ic_NodeSliceSize conf = []" "range_formed r" "outside x r" "valid_ip x" "unheld k ipam (ip_addr x)"
    and "n > 0 \<or> ls_err st \<noteq> None \<or> valid_ip (net_IP (ls_newip st))"
  shows "clear (ip_addr x) conf r st' \<and> ((\<exists>e. f = Return e) \<or> ls_err st' \<noteq> None \<or> valid_ip (net_IP (ls_newip st')))"
  using assms(1,2,10)
proof (induction n arbitrary: st w)
  case (Suc n)
  obtain f1 st1 w1 where a: "attempt k env Allocate ipam conf pref st w = (f1, st1, w1)" by (metis prod_cases3)
  note c = attempt_clear [OF a Suc.prems(2) assms(3-9)]
  show ?case
  proof (cases "f1 = Continue")
    case True
    then show ?thesis using Suc.IH [of st1 w1] Suc.prems(1) a c by auto
  next
    case False
    then have "(f, st', w') = (f1, st1, w1)" using Suc.prems(1) a by (cases f1) auto
    then show ?thesis using c by auto
  qed
qed auto

lemma all_ranges_clear:
  assumes "all_ranges k env Allocate ipam conf pref ranges rs w = (None, rs', w')" "nil_or_valid pref" "conf = ki_Config ipam"
    and "ic_NodeSliceSize conf = []" "\<forall>r\<in>set ranges. range_formed r \<and> outside x r" "valid_ip x" "unheld k ipam (ip_addr x)"
    and "ip_addr (net_IP (rs_newip rs)) \<noteq> ip_addr x" "\<exists>ds. rs_overlapping rs = map dummy ds \<and> list_all valid_ip ds"
    and "\<forall>ip\<in>set (rs_newips rs). ip_addr (net_IP ip) \<noteq> ip_addr x"
  shows "\<forall>ip\<in>set (rs_newips rs'). ip_addr (net_IP ip) \<noteq> ip_addr x"
  using assms(1,5,8-10)
proof (induction ranges arbitrary: rs w)
  case (Cons r rest)
  obtain f st w1 where l: "retry_loop DatastoreRetries k env Allocate ipam conf pref (start_range rs conf r) w = (f, st, w1)"
    by (metis prod_cases3)
  have ok: "\<forall>e. f \<noteq> Return e" "ls_err st = None" using Cons.prems(1) l by (auto split: flow.splits option.splits)
  have r: "range_formed r" "outside x r" using Cons.prems(2) by simp_all
  have "nil_or_valid (rc_PreferredIP r)" using r(1) by (simp add: range_formed_def addresses_valid_def)
  then have "clear (ip_addr x) conf r (start_range rs conf r)" using Cons.prems(3,4) by (simp add: clear_def start_range_def)
  from retry_loop_clear [OF l this assms(2-4) r assms(6,7)] ok
  have c: "clear (ip_addr x) conf r st" "valid_ip (net_IP (ls_newip st))" by (simp_all add: DatastoreRetries_def)
  then obtain ds where ds: "ls_overlapping st = map dummy ds" "list_all valid_ip ds" by (auto simp: clear_def)
  have rest: "all_ranges k env Allocate ipam conf pref rest (finish_range Allocate ipam conf st rs) w1 = (None, rs', w')"
    using Cons.prems(1) l ok by (auto split: flow.splits)
  have o: "\<exists>ds'. rs_overlapping (finish_range Allocate ipam conf st rs) = map dummy ds' \<and> list_all valid_ip ds'"
    using ds c(2) by (intro exI [of _ "ds @ (if ic_OverlappingRanges conf then [net_IP (ls_newip st)] else [])"]) (simp add: finish_range_def Let_def)
  show ?case
    by (rule Cons.IH [OF rest _ _ o]) (use Cons.prems(2,5) c(1) in \<open>auto simp: finish_range_def Let_def clear_def\<close>)
qed simp

lemma preferred_formed: "preferred_of k mode conf w = (ip, w') \<Longrightarrow> nil_or_valid ip"
proof -
  have "nil_or_valid (ParseIP y)" for y by (auto simp: ParseIP_def Let_def nil_or_valid_def valid_ip_def)
  then show "preferred_of k mode conf w = (ip, w') \<Longrightarrow> ?thesis"
    unfolding preferred_of_def by (auto simp: nil_or_valid_def split: prod.splits sum.splits option.splits if_splits)
qed

lemma update_clear:
  assumes "IPManagementKubernetesUpdate k env Allocate ipam (ki_Config ipam) w = (ips, None, w')"
    and "ic_NodeSliceSize (ki_Config ipam) = []" "\<forall>r\<in>set (ic_IPRanges (ki_Config ipam)). range_formed r \<and> outside x r" "valid_ip x" "unheld k ipam (ip_addr x)"
  shows "\<forall>ip\<in>set ips. ip_addr (net_IP ip) \<noteq> ip_addr x"
proof -
  obtain pref w1 where 1: "preferred_of k Allocate (ki_Config ipam) w = (pref, w1)" by fastforce
  define rs0 where "rs0 = \<lparr> rs_newips = [], rs_committed = [], rs_overlapping = [], rs_ipfor = [], rs_newip = \<lparr> net_IP = [], net_Mask = [] \<rparr> \<rparr>"
  obtain err rs w2 where 2: "all_ranges k env Allocate ipam (ki_Config ipam) pref (ic_IPRanges (ki_Config ipam)) rs0 w1 = (err, rs, w2)"
    by (metis prod_cases3)
  have e: "err = None" "ips = rs_newips rs"
    using assms(1) 1 2 by (auto simp: IPManagementKubernetesUpdate_def Let_def rs0_def)
  have "ip_addr [] \<noteq> ip_addr x" using assms(4) by (metis ip_addr_valid valid_ip_def list.size(3) zero_neq_numeral)
  then show ?thesis
    unfolding e by (intro all_ranges_clear [OF 2 [unfolded e] preferred_formed [OF 1] refl assms(2-5)]) (simp_all add: rs0_def)
qed

text \<open>
  C23: no address that ADD allocates is one of the static addresses it adds to the result:
  the check before the allocation uses the allocator's own bounds, so the calls it makes to
  \<^verbatim>\<open>AssignIP\<close>, with their retries, preferred address and local reservations, find other addresses.
  The ranges are not divided into node slices, and the pod's interface has not got the static address
  from a pool already, from a time when it was not static: a reservation is given out again as it is.
\<close>

theorem static_never_assigned:
  assumes "cmdAdd k iv client w = (Inr result, w')" "a \<in> set (ic_Addresses (ki_Config client))" "valid_ip (net_IP (ad_Address a))"
    and "ic_NodeSliceSize (ki_Config client) = []" "\<forall>r\<in>set (ic_IPRanges (ki_Config client)). range_formed r"
    and "unheld k client (ip_addr (net_IP (ad_Address a)))"
  shows "\<exists>newips. result = add_result (ki_Config client) newips
    \<and> (\<forall>ipn\<in>set newips. ip_addr (net_IP ipn) \<noteq> ip_addr (net_IP (ad_Address a)))"
proof -
  have v: "validateStaticAddressesOutsideManagedRanges (ic_Addresses (ki_Config client)) (ic_IPRanges (ki_Config client)) = None"
    using assms(1) by (auto simp: cmdAdd_def split: option.splits)
  have out: "\<forall>r\<in>set (ic_IPRanges (ki_Config client)). range_formed r \<and> outside (net_IP (ad_Address a)) r"
    using validateStatic_None [OF v assms(2)] assms(5) by (auto simp: outside_def)
  obtain newips w1 where r: "run_ipam k iv Allocate client w = (newips, None, w1)" "result = add_result (ki_Config client) newips"
    using assms(1) v by (auto simp: cmdAdd_def Let_def split: prod.splits option.splits if_splits)
  obtain env w0 where "IPManagementKubernetesUpdate k env Allocate client (ki_Config client) w0 = (newips, None, w1)"
    using r(1) by (auto simp: run_ipam_def IPManagement_def split: if_splits prod.splits option.splits election_event.splits)
  from update_clear [OF this assms(4) out assms(3,6)] show ?thesis using r(2) by blast
qed

text \<open>A static address right below the range, in its network.\<close>

definition static_client :: KubernetesIPAM where
  "static_client = newKubernetesIPAM ''c1'' ''eth0'' (ipam_conf_ex\<lparr>ic_OptimisticIPAM := True, ic_OverlappingRanges := False,
     ic_IPRanges := [range_ex\<lparr>rc_RangeStart := [10, 0, 0, 5]\<rparr>],
     ic_Addresses := [\<lparr> AddressStr = ''10.0.0.4/24'', ad_Gateway = [],
       ad_Address = \<lparr> net_IP = [10, 0, 0, 4], net_Mask = [255, 255, 255, 0] \<rparr>, ad_Version = ''4'' \<rparr>]\<rparr>) ''kube-system''"

definition node_lib :: client_lib where
  "node_lib = \<lparr> lib_Load = (\<lambda>_. Inr \<lparr> kc_Clusters = [], kc_AuthInfos = [],
       kc_Contexts = [(''ctx'', Some \<lparr> kcx_Cluster = [], kcx_AuthInfo = [], kcx_Namespace = [] \<rparr>)], kc_CurrentContext = ''ctx'' \<rparr>),
     lib_ClientConfig = Inr, lib_InClusterConfig = Inl (Msg ''not in a cluster''), lib_NewClientset = Inr, lib_NewWhereabouts = Inr \<rparr>"

definition node_env :: os_env where
  "node_env = \<lparr> os_Getenv = (\<lambda>_. []), os_Open = (\<lambda>p. if p = ''/kubeconfig'' then Inr (Inr ''contexts: ctx'') else Inl (Msg ''no such file'')) \<rparr>"

definition invocation_ex :: "nat invocation" where
  "invocation_ex = \<lparr> iv_conf = conf_env_ex, iv_env = (\<lambda>_. node_env), iv_lib = (\<lambda>_. node_lib),
     iv_accept = (\<lambda>_. True), iv_event = (\<lambda>_. Elected), iv_prev = prev_lib_ex \<rparr>"

lemma add_ex: "fst (cmdAdd quiet_kube invocation_ex static_client 0)
    = Inr (add_result (ki_Config static_client) [\<lparr>net_IP = [10, 0, 0, 5], net_Mask = [255, 255, 255, 0]\<rparr>])"
  by code_simp

theorem static_never_assigned_witness:
  "\<exists>newips. fst (cmdAdd quiet_kube invocation_ex static_client 0) = Inr (add_result (ki_Config static_client) newips)
    \<and> (\<forall>ipn\<in>set newips. ip_addr (net_IP ipn) \<noteq> ip_addr [10, 0, 0, 4])"
proof -
  obtain result w' where r: "cmdAdd quiet_kube invocation_ex static_client 0 = (Inr result, w')" using add_ex by (metis prod.collapse)
  let ?a = "\<lparr> AddressStr = ''10.0.0.4/24'', ad_Gateway = [], ad_Address = \<lparr> net_IP = [10, 0, 0, 4], net_Mask = [255, 255, 255, 0] \<rparr>, ad_Version = ''4'' \<rparr> :: Address"
  have m: "?a \<in> set (ic_Addresses (ki_Config static_client))" "valid_ip (net_IP (ad_Address ?a))" "ic_NodeSliceSize (ki_Config static_client) = []"
    by (simp_all add: static_client_def newKubernetesIPAM_def ipam_conf_ex_def valid_ip_def)
  have f: "\<forall>r\<in>set (ic_IPRanges (ki_Config static_client)). range_formed r" by code_simp
  have "Allocations pool = []" if "GetIPPool quiet_kube static_client pid w = (Inr pool, w'')" for pid w pool w''
    using that by (auto simp: GetIPPool_def getPool_def with_firstIP_def quiet_kube_def Allocations_def pool24_ex_def new_pool_def split: sum.splits prod.splits)
  then have "unheld quiet_kube static_client (ip_addr (net_IP (ad_Address ?a)))" by (auto simp: unheld_def reservations_valid_def)
  from static_never_assigned [OF r m f this] r show ?thesis by auto
qed

section \<open>CHECK after ADD\<close>

lemma expected_gateway_eq: "gatewayForExpectedAllocation = gatewayForAddress"
  by (intro ext) (simp add: gatewayForExpectedAllocation_def gatewayForAddress_def gatewayWithSameFamily_def)

lemma same_addr_bytes:
  assumes "valid_ip x" "valid_ip y" "ip_addr x = ip_addr y"
  shows "To4 x = To4 y \<and> (To4 x = [] \<longrightarrow> x = y)"
proof (cases "To4 x = []")
  case False
  then have "To4 y \<noteq> []" using assms(3) by (metis Is4_ip_addr)
  then have "To16 x = v4InV6Prefix @ To4 x" "To16 y = v4InV6Prefix @ To4 y" using assms False by (simp_all add: To4_Nil_To16)
  moreover have "To16 x = To16 y" using As16_ip_addr [OF assms(1)] As16_ip_addr [OF assms(2)] assms(3) by simp
  ultimately show ?thesis using False by simp
next
  case True
  then have y: "To4 y = []" using assms(3) by (metis Is4_ip_addr)
  then have "length x = 16" "length y = 16" using True assms(1,2) by (auto simp: valid_ip_def)
  then have "To16 x = x" "To16 y = y" using True y by (simp_all add: To16_def)
  then have "x = y" using As16_ip_addr [OF assms(1)] As16_ip_addr [OF assms(2)] assms(3) by metis
  then show ?thesis by blast
qed

lemma resultKey_same:
  assumes "valid_ip x" "valid_ip y" "ip_addr x = ip_addr y"
  shows "resultKey \<lparr> net_IP = x, net_Mask = m \<rparr> (gatewayForAddress \<lparr> net_IP = x, net_Mask = m \<rparr> g)
    = resultKey \<lparr> net_IP = y, net_Mask = m \<rparr> (gatewayForAddress \<lparr> net_IP = y, net_Mask = m \<rparr> g)"
proof (cases "To4 x = []")
  case True
  then have e: "x = y" using same_addr_bytes [OF assms] by blast
  show ?thesis unfolding e ..
next
  case False
  have t: "To4 y = To4 x" using same_addr_bytes [OF assms] by metis
  have "networkNumberAndMask \<lparr> net_IP = x, net_Mask = m \<rparr> = networkNumberAndMask \<lparr> net_IP = y, net_Mask = m \<rparr>"
    using False by (simp add: networkNumberAndMask_def t)
  moreover have "gatewayForAddress \<lparr> net_IP = x, net_Mask = m \<rparr> g = gatewayForAddress \<lparr> net_IP = y, net_Mask = m \<rparr> g"
    by (simp add: gatewayForAddress_def gatewayWithSameFamily_def t)
  ultimately show ?thesis by (simp add: resultKey_def IPNet_String_def)
qed

text \<open>The pool of a range has exactly one reservation of the client's container and interface, for this address.\<close>

definition holds_for :: "('w, 'x) kube_scheme \<Rightarrow> os_env \<Rightarrow> KubernetesIPAM \<Rightarrow> RangeConfiguration \<Rightarrow> IPNet \<Rightarrow> bool" where
  "holds_for k env ipam r ip \<longleftrightarrow> (\<forall>w. \<exists>pid pool f N x. EffectivePoolIdentifier k env ipam (rc_Range r) w = (Inr pid, w)
     \<and> GetExistingIPPool k ipam pid w = (Inr pool, w) \<and> ParseCIDR (pi_IPRange pid) = Inr (f, N) \<and> net_Mask ip = net_Mask N
     \<and> filter (\<lambda>r. ir_ContainerID r = ki_ContainerID ipam \<and> ir_IfName r = ki_IfName ipam) (Allocations pool) = [x]
     \<and> valid_ip (ir_IP x) \<and> valid_ip (net_IP ip) \<and> ip_addr (ir_IP x) = ip_addr (net_IP ip))"

lemma check_ranges_found:
  assumes "list_all2 (holds_for k env ipam) ranges newips"
  shows "check_ranges k env ipam ranges keys w
    = (Inr (keys @ map (\<lambda>ip. resultKey ip (gatewayForAddress ip (ic_Gateway (ki_Config ipam)))) newips), w)"
  using assms
proof (induction ranges newips arbitrary: keys rule: list_all2_induct)
  case (Cons r ranges ip newips)
  obtain pid pool f N x where h: "EffectivePoolIdentifier k env ipam (rc_Range r) w = (Inr pid, w)"
      "GetExistingIPPool k ipam pid w = (Inr pool, w)" "ParseCIDR (pi_IPRange pid) = Inr (f, N)" "net_Mask ip = net_Mask N"
      "filter (\<lambda>r. ir_ContainerID r = ki_ContainerID ipam \<and> ir_IfName r = ki_IfName ipam) (Allocations pool) = [x]"
      "valid_ip (ir_IP x)" "valid_ip (net_IP ip)" "ip_addr (ir_IP x) = ip_addr (net_IP ip)"
    using Cons.hyps(1) unfolding holds_for_def by blast
  have "ip = \<lparr> net_IP = net_IP ip, net_Mask = net_Mask N \<rparr>" using h(4) by simp
  then have "resultKey ip (gatewayForAddress ip g) = resultKey \<lparr> net_IP = ir_IP x, net_Mask = net_Mask N \<rparr>
      (gatewayForAddress \<lparr> net_IP = ir_IP x, net_Mask = net_Mask N \<rparr> g)" for g
    using resultKey_same [OF h(6-8)] by metis
  then have "range_keys ipam N pool = [resultKey ip (gatewayForAddress ip (ic_Gateway (ki_Config ipam)))]"
    unfolding range_keys_def h(5) expected_gateway_eq Let_def by simp
  then show ?case using Cons.IH h(1-3) by simp
qed simp

text \<open>
  C24: CHECK accepts what ADD returned: as long as the pools hold the container's reservations
  for the addresses of the result, the command succeeds when the runtime passes that result as the
  previous one, in the current or an older version of the CNI, static addresses and gateways included.
\<close>

theorem check_accepts_add:
  assumes "LoadIPAMConfig (iv_conf iv) (ca_StdinData args) (ca_Args args) [] = Inr (conf, ver)"
    and "NewKubernetesIPAM (iv_lib iv w) (iv_env iv w) (ca_ContainerID args) (ca_IfName args) conf = Inr ipam"
    and "list_all2 (holds_for k (iv_env iv w) ipam) (ic_IPRanges conf) newips"
    and "pv_Unmarshal (iv_prev iv) (ca_StdinData args) = Inr (Some raw)" "pv_Marshal (iv_prev iv) raw = Inr bytes"
    and "pv_NewResult (iv_prev iv) bytes = Inr (Some (add_result conf newips))
      \<or> (\<exists>e v old. pv_NewResult (iv_prev iv) bytes = Inl e \<and> raw_version raw = Some v \<and> pv_VersionNewResult (iv_prev iv) v bytes = Inr old
           \<and> pv_FromResult (iv_prev iv) old = Inr (add_result conf newips))"
  shows "cmdCheck k iv args w = (None, w)"
proof -
  have conf: "ki_Config ipam = conf" using NewKubernetesIPAM_fields [OF assms(2)] by simp
  have "ParsePrevResult (iv_prev iv) (ca_StdinData args) = Inr (Some (add_result conf newips))"
    using assms(4-6) by (auto simp: ParsePrevResult_def)
  moreover have "runCmdCheck k (iv_env iv w) ipam (Some (add_result conf newips)) w = (None, w)"
    unfolding runCmdCheck_def conf check_ranges_found [OF assms(3)] by (simp add: conf add_result_def comp_def image_Un)
  ultimately show ?thesis using assms(1,2) by (simp add: cmdCheck_def)
qed

definition check_pool :: IPPool where
  "check_pool = (let pool = new_pool ''10.0.0.8-29'' ''10.0.0.8/29'' in pool\<lparr>ip_Spec := (ip_Spec pool)\<lparr>ps_Allocations :=
     [(''1'', \<lparr> ia_ContainerID = ''c1'', ia_PodRef = ''ns/p1'', ia_IfName = ''eth0'' \<rparr>), (''2'', \<lparr> ia_ContainerID = ''c2'', ia_PodRef = ''ns/p2'', ia_IfName = ''eth0'' \<rparr>)]\<rparr>\<rparr>)"

definition check_kube :: "nat kube" where
  "check_kube = quiet_kube\<lparr>k_GetIPPool := \<lambda>_ _ w. (Inr check_pool, w)\<rparr>"

definition added_ex :: CNIResult where
  "added_ex = add_result conf_loaded_ex [\<lparr>net_IP = [10, 0, 0, 9], net_Mask = [255, 255, 255, 248]\<rparr>]"

text \<open>The runtime passes the result in the format of CNI 0.4.0.\<close>

definition checked_ex :: "nat invocation" where
  "checked_ex = invocation_ex\<lparr>iv_prev := \<lparr> pv_Unmarshal = (\<lambda>_. Inr (Some [(''cniVersion'', Inl ''0.4.0'')])), pv_Marshal = (\<lambda>_. Inr ''prev''),
     pv_NewResult = (\<lambda>_. Inl (Msg ''result type does not support version 0.4.0'')), pv_VersionNewResult = (\<lambda>v d. Inr d),
     pv_FromResult = (\<lambda>_. Inr added_ex) \<rparr>\<rparr>"

theorem check_accepts_add_witness:
  "cmdCheck check_kube checked_ex \<lparr> ca_ContainerID = ''c1'', ca_IfName = ''eth0'', ca_Args = [], ca_StdinData = ''{}'' \<rparr> 0 = (None, 0)"
proof -
  let ?pool = "\<lparr> kp_firstIP = As16 (Addr4 0x0a000008), kp_pool = check_pool \<rparr>" and ?args = "\<lparr> ca_ContainerID = ''c1'', ca_IfName = ''eth0'', ca_Args = [], ca_StdinData = ''{}'' \<rparr>"
  let ?x = "new_reservation [10, 0, 0, 9] ''c1'' ''ns/p1'' ''eth0''" and ?N = "\<lparr>net_IP = [10, 0, 0, 8], net_Mask = [255, 255, 255, 248]\<rparr>"
  let ?ipam = "newKubernetesIPAM ''c1'' ''eth0'' conf_loaded_ex ''kube-system''"
  have p: "IPPool_ParseCIDR check_pool = Inr (As16 (Addr4 0x0a000008), ?N)" "ParseCIDR ''10.0.0.8/29'' = Inr (As16 (Addr4 0x0a000008), ?N)"
    "filter (\<lambda>r. ir_ContainerID r = ki_ContainerID ?ipam \<and> ir_IfName r = ki_IfName ?ipam) (Allocations ?pool) = [?x]"
    by code_simp+
  have "EffectivePoolIdentifier check_kube node_env ?ipam ''10.0.0.8/29'' w
      = (Inr \<lparr> pi_IPRange = ''10.0.0.8/29'', pi_NetworkName = [], pi_NodeName = [] \<rparr>, w)" for w
    by (simp add: EffectivePoolIdentifier_def newKubernetesIPAM_def conf_loaded_ex_def ipam_conf_ex_def)
  moreover have "GetExistingIPPool check_kube ?ipam pid w = (Inr ?pool, w)" for pid w
    by (simp add: GetExistingIPPool_def getExistingPool_def with_firstIP_def check_kube_def p(1))
  moreover have "ic_IPRanges conf_loaded_ex = [range_loaded_ex]" "rc_Range range_loaded_ex = ''10.0.0.8/29''"
    by (simp_all add: conf_loaded_ex_def range_loaded_ex_def)
  ultimately have h: "list_all2 (holds_for check_kube (iv_env checked_ex 0) ?ipam) (ic_IPRanges conf_loaded_ex) [\<lparr>net_IP = [10, 0, 0, 9], net_Mask = [255, 255, 255, 248]\<rparr>]"
    using p(2,3) by (simp add: holds_for_def valid_ip_def checked_ex_def invocation_ex_def)
  have l: "LoadIPAMConfig (iv_conf checked_ex) (ca_StdinData ?args) (ca_Args ?args) [] = Inr (conf_loaded_ex, ''1.0.0'')"
    using load_ex by (simp add: checked_ex_def invocation_ex_def)
  have c: "NewKubernetesIPAM (iv_lib checked_ex 0) (iv_env checked_ex 0) (ca_ContainerID ?args) (ca_IfName ?args) conf_loaded_ex = Inr ?ipam"
    by (simp add: checked_ex_def invocation_ex_def NewKubernetesIPAM_def LoadFromFile_def NewClientViaKubeconfig_def newClient_def
      wbNamespaceFromCtx_def node_lib_def node_env_def conf_loaded_ex_def Let_def)
  show ?thesis
    by (rule check_accepts_add [OF l c h, of "[(''cniVersion'', Inl ''0.4.0'')]" "''prev''"]) (simp_all add: checked_ex_def raw_version_def added_ex_def)
qed

section \<open>DEL\<close>

text \<open>
  A release that keeps failing is reported, not swallowed: the command fails if each of its three
  attempts does, and succeeds as soon as one of them does.
\<close>

theorem del_reports_failure:
  assumes "LoadIPAMConfig (iv_conf iv) (ca_StdinData args) (ca_Args args) [] = Inr (conf, ver)"
  shows "(\<forall>w. \<exists>e w'. del_attempt k iv args conf w = (Some e, w')) \<longrightarrow> (\<exists>e w'. cmdDelFunc k iv args w = (Some e, w'))"
    and "(\<forall>w. \<exists>w'. del_attempt k iv args conf w = (None, w')) \<longrightarrow> (\<exists>w'. cmdDelFunc k iv args w = (None, w'))"
proof -
  have fails: "(\<forall>w. \<exists>e w'. del_attempt k iv args conf w = (Some e, w')) \<Longrightarrow> \<exists>e w'. del_loop k iv args conf n i b l w = (Some e, w')" for n i b l w
  proof (induction n arbitrary: i b l w)
    case (Suc n)
    obtain e w1 where "del_attempt k iv args conf (if i > 0 then k_Sleep k b w else w) = (Some e, w1)" using Suc.prems by blast
    then show ?case using Suc.IH [OF Suc.prems] by (simp add: Let_def)
  qed simp
  then show "(\<forall>w. \<exists>e w'. del_attempt k iv args conf w = (Some e, w')) \<longrightarrow> (\<exists>e w'. cmdDelFunc k iv args w = (Some e, w'))"
    using assms by (simp add: cmdDelFunc_def)
  show "(\<forall>w. \<exists>w'. del_attempt k iv args conf w = (None, w')) \<longrightarrow> (\<exists>w'. cmdDelFunc k iv args w = (None, w'))"
  proof
    assume "\<forall>w. \<exists>w'. del_attempt k iv args conf w = (None, w')"
    then obtain w' where "del_attempt k iv args conf w = (None, w')" by blast
    then show "\<exists>w'. cmdDelFunc k iv args w = (None, w')"
      using assms by (simp add: cmdDelFunc_def delMaxRetries_def eval_nat_numeral)
  qed
qed

end
