(* ===== verification/NodeSlice.thy ===== *)
theory NodeSlice imports Storage IPPoolController begin

text \<open>
  \<^verbatim>\<open>internal/controller/nodeslice_controller.go\<close>: the reconciler that divides the range of a network
  attachment definition into slices and assigns them to the nodes. The decoding of JSON is a
  parameter of the client. Of an owner reference the controller flags are left out, metrics and
  logs too.
\<close>

section \<open>Definitions\<close>

definition staleIPPoolRequeueInterval :: int where
  "staleIPPoolRequeueInterval = 30000000000"

definition errNoWhereaboutsIPAMConfig :: err where
  "errNoWhereaboutsIPAMConfig = Msg ''no whereabouts IPAM config found''"

record nadIPAMConfig =
  nc_Name :: string
  nc_NetworkName :: string
  nc_Range :: string
  nc_NodeSliceSize :: string

definition nad_conf :: "string \<Rightarrow> nad_ipam \<Rightarrow> nadIPAMConfig" where
  "nad_conf name p = \<lparr> nc_Name = name, nc_NetworkName = nm_NetworkName p, nc_Range = nm_Range p,
     nc_NodeSliceSize = nm_NodeSliceSize p \<rparr>"

definition parseNADIPAMConfig :: "('w, 'x) ctrl_scheme \<Rightarrow> string \<Rightarrow> nadIPAMConfig result" where
  "parseNADIPAMConfig k specConfig =
     (if specConfig = [] then Inl errNoWhereaboutsIPAMConfig
      else case c_UnmarshalPlugin k specConfig of
             Inl e \<Rightarrow> Inl (Wrap ''parsing NAD spec.config JSON'' e)
           | Inr (name, p) \<Rightarrow>
               if nm_Type p = ''whereabouts'' then Inr (nad_conf name p)
               else (case c_UnmarshalConfList k specConfig of
                       Inl e \<Rightarrow> Inl (Wrap ''parsing NAD spec.config conflist JSON'' e)
                     | Inr (name, plugins) \<Rightarrow> (case find (\<lambda>p. nm_Type p = ''whereabouts'') plugins of
                         Some p \<Rightarrow> Inr (nad_conf name p)
                       | None \<Rightarrow> Inl errNoWhereaboutsIPAMConfig)))"

definition nodeSlicePoolName :: "nadIPAMConfig \<Rightarrow> string" where
  "nodeSlicePoolName conf =
     (if nc_NetworkName conf \<noteq> [] then nc_NetworkName conf
      else if nc_Range conf \<noteq> [] then NormalizeRangeForResourceName (nc_Range conf)
      else nc_Name conf)"

definition nodeSliceIPPoolName :: "string \<Rightarrow> string \<Rightarrow> string \<Rightarrow> string" where
  "nodeSliceIPPoolName networkName nodeName ipRange =
     (let normalizedRange = NormalizeRangeForResourceName ipRange
      in if networkName = [] then nodeName @ ''-'' @ normalizedRange
         else networkName @ ''-'' @ nodeName @ ''-'' @ normalizedRange)"

subsection \<open>Allocations\<close>

definition free_slice :: "string \<Rightarrow> NodeSliceAllocation" where
  "free_slice subnet = \<lparr> na_NodeName = [], na_SliceRange = subnet \<rparr>"

fun makeAllocations :: "string list \<Rightarrow> string list \<Rightarrow> NodeSliceAllocation list" where
  "makeAllocations [] nodes = []"
| "makeAllocations (subnet # subnets) [] = free_slice subnet # makeAllocations subnets []"
| "makeAllocations (subnet # subnets) (n # nodes) =
     (free_slice subnet)\<lparr>na_NodeName := n\<rparr> # makeAllocations subnets nodes"

definition allocationsNeedRebuild :: "NodeSliceAllocation list \<Rightarrow> string list \<Rightarrow> bool" where
  "allocationsNeedRebuild allocations subnets \<longleftrightarrow>
     length allocations \<noteq> length subnets \<or> list_ex (\<lambda>(a, s). na_SliceRange a \<noteq> s) (zip allocations subnets)"

definition allocationsMatchSubnetPrefix :: "NodeSliceAllocation list \<Rightarrow> string list \<Rightarrow> bool" where
  "allocationsMatchSubnetPrefix allocations subnets \<longleftrightarrow>
     length allocations \<le> length subnets \<and> list_all (\<lambda>(a, s). na_SliceRange a = s) (zip allocations subnets)"

definition repairAllocations ::
  "NodeSliceAllocation list \<Rightarrow> string list \<Rightarrow> string list \<Rightarrow> NodeSliceAllocation list" where
  "repairAllocations allocations subnets nodes =
     (if allocationsMatchSubnetPrefix allocations subnets
      then allocations @ map free_slice (drop (length allocations) subnets)
      else makeAllocations subnets nodes)"

definition computeSliceStats :: "NodeSlicePool \<Rightarrow> NodeSlicePool" where
  "computeSliceStats pool =
     (let st = np_Status pool; allocs = nst_Allocations st;
          total = int32 (int (length allocs));
          assigned = int32 (int (length (filter (\<lambda>a. na_NodeName a \<noteq> []) allocs)))
      in pool\<lparr>np_Status := st\<lparr>nst_TotalSlices := total, nst_AssignedSlices := assigned,
                              nst_FreeSlices := int32 (total - assigned)\<rparr>\<rparr>)"

definition set_slices :: "NodeSliceAllocation list \<Rightarrow> NodeSlicePool \<Rightarrow> NodeSlicePool" where
  "set_slices allocs pool = computeSliceStats (pool\<lparr>np_Status := (np_Status pool)\<lparr>nst_Allocations := allocs\<rparr>\<rparr>)"

definition mark_nsp :: "(nat \<Rightarrow> int \<Rightarrow> Condition list \<Rightarrow> Condition list) \<Rightarrow> nat \<Rightarrow> NodeSlicePool \<Rightarrow> NodeSlicePool" where
  "mark_nsp f now pool = pool\<lparr>np_Status := (np_Status pool)\<lparr>nst_Conditions :=
     f now (om_Generation (np_Meta pool)) (nst_Conditions (np_Status pool))\<rparr>\<rparr>"

subsection \<open>Nodes that left and nodes that joined\<close>

definition releaseDeletedNodeSlice ::
  "('w, 'x) ctrl_scheme \<Rightarrow> string \<Rightarrow> string \<Rightarrow> NodeSliceAllocation \<Rightarrow> 'w \<Rightarrow> bool result \<times> 'w" where
  "releaseDeletedNodeSlice k namespace networkName a w =
     (case k_GetIPPool k namespace (nodeSliceIPPoolName networkName (na_NodeName a) (na_SliceRange a)) w of
        (Inl e, w) \<Rightarrow> (if IsNotFound e then Inr True else Inl (Wrap ''getting stale IPPool'' e), w)
      | (Inr pool, w) \<Rightarrow>
          if ps_Allocations (ip_Spec pool) \<noteq> [] then (Inr False, w)
          else (case c_DeleteIPPool k pool w of
                  (Inl e, w) \<Rightarrow> (if IsNotFound e then Inr True else Inl (Wrap ''deleting empty stale IPPool'' e), w)
                | (Inr _, w) \<Rightarrow> (Inr True, w)))"

fun release_loop ::
  "('w, 'x) ctrl_scheme \<Rightarrow> string \<Rightarrow> string \<Rightarrow> string set \<Rightarrow> NodeSliceAllocation list \<Rightarrow> 'w
   \<Rightarrow> (NodeSliceAllocation list \<times> bool) result \<times> 'w" where
  "release_loop k namespace networkName nodeSet [] w = (Inr ([], False), w)"
| "release_loop k namespace networkName nodeSet (a # rest) w =
     (if na_NodeName a \<noteq> [] \<and> na_NodeName a \<notin> nodeSet
      then (case releaseDeletedNodeSlice k namespace networkName a w of
              (Inl e, w) \<Rightarrow> (Inl e, w)
            | (Inr released, w) \<Rightarrow> (case release_loop k namespace networkName nodeSet rest w of
                (Inl e, w) \<Rightarrow> (Inl e, w)
              | (Inr (rest', blocking), w) \<Rightarrow>
                  (Inr ((if released then a\<lparr>na_NodeName := []\<rparr> else a) # rest', \<not> released \<or> blocking), w)))
      else (case release_loop k namespace networkName nodeSet rest w of
              (Inl e, w) \<Rightarrow> (Inl e, w)
            | (Inr (rest', blocking), w) \<Rightarrow> (Inr (a # rest', blocking), w)))"

text \<open>
  The loop over the nodes, with the free slots left, the nodes known to be assigned, and the
  nodes for which there is no slot.
\<close>

fun assign_nodes ::
  "string list \<Rightarrow> nat list \<Rightarrow> string set \<Rightarrow> NodeSliceAllocation list \<Rightarrow> NodeSliceAllocation list \<times> string list" where
  "assign_nodes [] freeSlots assigned allocs = (allocs, [])"
| "assign_nodes (n # nodes) freeSlots assigned allocs =
     (if n \<in> assigned then assign_nodes nodes freeSlots assigned allocs
      else case freeSlots of
             s # rest \<Rightarrow> assign_nodes nodes rest (insert n assigned) (allocs[s := (allocs ! s)\<lparr>na_NodeName := n\<rparr>])
           | [] \<Rightarrow> (case assign_nodes nodes [] assigned allocs of (allocs', unplaced) \<Rightarrow> (allocs', n # unplaced)))"

definition assign_all :: "string list \<Rightarrow> NodeSliceAllocation list \<Rightarrow> NodeSliceAllocation list \<times> string list" where
  "assign_all nodes allocs =
     assign_nodes nodes (filter (\<lambda>i. na_NodeName (allocs ! i) = []) [0..<length allocs])
       (set (map na_NodeName allocs) - {[]}) allocs"

fun pool_full :: "('w, 'x) ctrl_scheme \<Rightarrow> string list \<Rightarrow> NodeSlicePool \<Rightarrow> 'w \<Rightarrow> NodeSlicePool \<times> 'w" where
  "pool_full k [] pool w = (pool, w)"
| "pool_full k (n # unplaced) pool w =
     (let w = c_Eventf k ''PoolFull'' w
      in pool_full k unplaced
           (mark_nsp (\<lambda>now gen. markStalled now gen ''PoolFull'' (''no available IP slice for node '' @ n)) (c_Now k w) pool) w)"

definition ensureNodeAssignments ::
  "('w, 'x) ctrl_scheme \<Rightarrow> NodeSlicePool \<Rightarrow> string list \<Rightarrow> string \<Rightarrow> 'w \<Rightarrow> Result \<times> err option \<times> 'w" where
  "ensureNodeAssignments k pool0 nodes networkName w =
     (case release_loop k (om_Namespace (np_Meta pool0)) networkName (set nodes) (nst_Allocations (np_Status pool0)) w of
        (Inl e, w) \<Rightarrow> (no_requeue, Some e, w)
      | (Inr (released, blocking), w) \<Rightarrow>
          let (allocs, unplaced) = assign_all nodes released;
              (pool, w) = (if blocking then (pool0, w) else pool_full k unplaced pool0 w);
              pool = set_slices allocs pool;
              pool = (if blocking
                      then mark_nsp (\<lambda>now gen. markReconciling now gen ''waiting for stale per-node IPPools to be cleaned up'') (c_Now k w) pool
                      else if unplaced = []
                      then mark_nsp (\<lambda>now gen. markReady now gen ''Reconciled'' ''all nodes assigned to slices'') (c_Now k w) pool
                      else pool)
          in (case Patch (nsp_client k) pool0 pool w of
                (Some e, _, w) \<Rightarrow> (no_requeue, Some (Wrap ''patching NodeSlicePool status'' e), w)
              | (None, _, w) \<Rightarrow> (if blocking then requeue_after staleIPPoolRequeueInterval else no_requeue, None, w)))"


subsection \<open>Creating and changing a pool\<close>

definition nad_owner :: "NetworkAttachmentDefinition \<Rightarrow> OwnerReference" where
  "nad_owner nad = \<lparr> or_APIVersion = ''k8s.cni.cncf.io/v1'', or_Kind = ''NetworkAttachmentDefinition'',
     or_Name = om_Name (nad_Meta nad), or_UID = om_UID (nad_Meta nad) \<rparr>"

definition created ::
  "NodeSlicePool \<Rightarrow> string \<Rightarrow> string \<Rightarrow> NodeSliceAllocation list \<Rightarrow> string list \<Rightarrow> nat \<Rightarrow> NodeSlicePool" where
  "created server rangeStr sliceSize allocations nodes now =
     mark_nsp (\<lambda>now gen. markReady now gen ''PoolCreated''
         (''created with range '' @ rangeStr @ '', slice size '' @ sliceSize @ '', '' @ dec (length nodes) @ '' node(s)''))
       now (set_slices allocations server)"

definition createPool ::
  "('w, 'x) ctrl_scheme \<Rightarrow> NetworkAttachmentDefinition \<Rightarrow> string \<Rightarrow> string \<Rightarrow> string \<Rightarrow> string list \<Rightarrow> string list \<Rightarrow> 'w
   \<Rightarrow> Result \<times> err option \<times> 'w" where
  "createPool k nad name rangeStr sliceSize subnets nodes w =
     (let allocations = makeAllocations subnets nodes;
          pool = \<lparr> np_Meta = empty_meta\<lparr>om_Name := name, om_Namespace := om_Namespace (nad_Meta nad),
                                        om_OwnerReferences := [nad_owner nad]\<rparr>,
                   np_Spec = \<lparr> ns_Range = rangeStr, ns_SliceSize = sliceSize \<rparr>,
                   np_Status = \<lparr> nst_Allocations = allocations, nst_TotalSlices = 0, nst_AssignedSlices = 0,
                                 nst_FreeSlices = 0, nst_Conditions = [] \<rparr> \<rparr>
      in case c_CreateNSP k pool w of
           (Inl e, w) \<Rightarrow> (no_requeue, Some (Wrap ''creating NodeSlicePool'' e), w)
         | (Inr server, w) \<Rightarrow>
             (case Patch (nsp_client k) server (created server rangeStr sliceSize allocations nodes (c_Now k w)) w of
                (Some e, _, w) \<Rightarrow> (no_requeue, Some (Wrap ''patching NodeSlicePool status'' e), w)
              | (None, _, w) \<Rightarrow> (no_requeue, None, c_Eventf k ''Created'' w)))"

definition resliced ::
  "NodeSlicePool \<Rightarrow> string \<Rightarrow> string \<Rightarrow> string list \<Rightarrow> string list \<Rightarrow> nat \<Rightarrow> NodeSlicePool" where
  "resliced pool rangeStr sliceSize subnets nodes now =
     mark_nsp (\<lambda>now gen. markReady now gen ''PoolUpdated'' (''updated range to '' @ rangeStr @ '', slice size '' @ sliceSize)) now
       (set_slices (makeAllocations subnets nodes)
         (pool\<lparr>np_Spec := \<lparr> ns_Range = rangeStr, ns_SliceSize = sliceSize \<rparr>\<rparr>))"

definition updatePoolSpec ::
  "('w, 'x) ctrl_scheme \<Rightarrow> NodeSlicePool \<Rightarrow> string \<Rightarrow> string \<Rightarrow> string list \<Rightarrow> string list \<Rightarrow> 'w \<Rightarrow> Result \<times> err option \<times> 'w" where
  "updatePoolSpec k pool rangeStr sliceSize subnets nodes w =
     (case Patch (nsp_client k) pool (resliced pool rangeStr sliceSize subnets nodes (c_Now k w)) w of
        (Some e, _, w) \<Rightarrow> (no_requeue, Some (Wrap ''patching NodeSlicePool'' e), w)
      | (None, _, w) \<Rightarrow> (no_requeue, None, c_Eventf k ''SpecUpdated'' w))"

definition rebuildPoolStatus ::
  "('w, 'x) ctrl_scheme \<Rightarrow> NodeSlicePool \<Rightarrow> string list \<Rightarrow> string list \<Rightarrow> 'w \<Rightarrow> NodeSlicePool result \<times> 'w" where
  "rebuildPoolStatus k pool subnets nodes w =
     (let allocations = repairAllocations (nst_Allocations (np_Status pool)) subnets nodes;
          pool' = mark_nsp (\<lambda>now gen. markReady now gen ''Reconciled'' ''rebuilt missing or stale node slice status'')
                    (c_Now k w) (set_slices allocations pool)
      in case Patch (nsp_client k) pool pool' w of
           (Some e, _, w) \<Rightarrow> (Inl (Wrap ''patching rebuilt NodeSlicePool status'' e), w)
         | (None, pool'', w) \<Rightarrow> (Inr pool'', c_Eventf k ''StatusRebuilt'' w))"

subsection \<open>Owners\<close>

fun ownerRefIndex :: "OwnerReference list \<Rightarrow> string \<Rightarrow> nat option" where
  "ownerRefIndex [] uid = None"
| "ownerRefIndex (ref # refs) uid = (if or_UID ref = uid then Some 0 else map_option Suc (ownerRefIndex refs uid))"

definition ensureOwnerRef ::
  "('w, 'x) ctrl_scheme \<Rightarrow> NodeSlicePool \<Rightarrow> NetworkAttachmentDefinition \<Rightarrow> 'w \<Rightarrow> NodeSlicePool result \<times> 'w" where
  "ensureOwnerRef k pool nad w =
     (let refs = om_OwnerReferences (np_Meta pool)
      in if list_ex (\<lambda>ref. or_UID ref = om_UID (nad_Meta nad)) refs then (Inr pool, w)
         else case Patch (nsp_client k) pool
                     (pool\<lparr>np_Meta := (np_Meta pool)\<lparr>om_OwnerReferences := refs @ [nad_owner nad]\<rparr>\<rparr>) w of
                (Some e, _, w) \<Rightarrow> (Inl (Wrap ''patching OwnerReference'' e), w)
              | (None, pool', w) \<Rightarrow> (Inr pool', w))"

fun cleanup_pools ::
  "('w, 'x) ctrl_scheme \<Rightarrow> NetworkAttachmentDefinition \<Rightarrow> string \<Rightarrow> NodeSlicePool list \<Rightarrow> 'w \<Rightarrow> err option \<times> 'w" where
  "cleanup_pools k nad desiredName [] w = (None, w)"
| "cleanup_pools k nad desiredName (pool # rest) w =
     (if om_Name (np_Meta pool) = desiredName then cleanup_pools k nad desiredName rest w
      else let refs = om_OwnerReferences (np_Meta pool)
           in case ownerRefIndex refs (om_UID (nad_Meta nad)) of
                None \<Rightarrow> cleanup_pools k nad desiredName rest w
              | Some i \<Rightarrow>
                  let remainingOwners = take i refs @ drop (Suc i) refs
                  in if remainingOwners = []
                     then (case c_DeleteNSP k pool w of
                             (Inl e, w) \<Rightarrow> if IsNotFound e then cleanup_pools k nad desiredName rest w else (Some e, w)
                           | (Inr _, w) \<Rightarrow> cleanup_pools k nad desiredName rest w)
                     else (case c_UpdateNSP k (pool\<lparr>np_Meta := (np_Meta pool)\<lparr>om_OwnerReferences := remainingOwners\<rparr>\<rparr>) w of
                             (Inl e, w) \<Rightarrow> (Some e, w)
                           | (Inr _, w) \<Rightarrow> cleanup_pools k nad desiredName rest w))"

definition cleanupStaleOwnedPools ::
  "('w, 'x) ctrl_scheme \<Rightarrow> NetworkAttachmentDefinition \<Rightarrow> string \<Rightarrow> 'w \<Rightarrow> err option \<times> 'w" where
  "cleanupStaleOwnedPools k nad desiredName w = (case c_ListNSPs k (om_Namespace (nad_Meta nad)) w of
     (Inl e, w) \<Rightarrow> (Some e, w)
   | (Inr pools, w) \<Rightarrow> cleanup_pools k nad desiredName pools w)"

fun mismatch_loop ::
  "('w, 'x) ctrl_scheme \<Rightarrow> NetworkAttachmentDefinition \<Rightarrow> nadIPAMConfig \<Rightarrow> NetworkAttachmentDefinition list \<Rightarrow> err option" where
  "mismatch_loop k nad conf [] = None"
| "mismatch_loop k nad conf (other # rest) =
     (if om_UID (nad_Meta other) = om_UID (nad_Meta nad) then mismatch_loop k nad conf rest
      else case parseNADIPAMConfig k (nad_Config other) of
             Inl e \<Rightarrow>
               if e = errNoWhereaboutsIPAMConfig then mismatch_loop k nad conf rest
               else Some (Wrap ''parsing NAD IPAM config for mismatch check'' e)
           | Inr otherConf \<Rightarrow>
               if nc_NodeSliceSize otherConf = [] then mismatch_loop k nad conf rest
               else if nodeSlicePoolName conf \<noteq> nodeSlicePoolName otherConf then mismatch_loop k nad conf rest
               else if nc_Range conf \<noteq> nc_Range otherConf \<or> nc_NodeSliceSize conf \<noteq> nc_NodeSliceSize otherConf
               then Some (Msg ''NADs share network name but have mismatched range or node_slice_size'')
               else mismatch_loop k nad conf rest)"

definition checkMultiNADMismatch ::
  "('w, 'x) ctrl_scheme \<Rightarrow> NetworkAttachmentDefinition \<Rightarrow> nadIPAMConfig \<Rightarrow> 'w \<Rightarrow> err option \<times> 'w" where
  "checkMultiNADMismatch k nad conf w = (case c_ListNADs k (Some (om_Namespace (nad_Meta nad))) w of
     (Inl e, w) \<Rightarrow> (Some (Wrap ''listing NADs for mismatch check'' e), w)
   | (Inr nads, w) \<Rightarrow> (mismatch_loop k nad conf nads, w))"

definition mapNodeToNADs :: "('w, 'x) ctrl_scheme \<Rightarrow> 'w \<Rightarrow> (string \<times> string) list \<times> 'w" where
  "mapNodeToNADs k w = (case c_ListNADs k None w of
     (Inl _, w) \<Rightarrow> ([], w)
   | (Inr nads, w) \<Rightarrow> (map (\<lambda>n. (om_Namespace (nad_Meta n), om_Name (nad_Meta n))) nads, w))"

subsection \<open>Reconcile\<close>

fun insert_string :: "string \<Rightarrow> string list \<Rightarrow> string list" where
  "insert_string s [] = [s]"
| "insert_string s (x # xs) = (if string_less x s then x # insert_string s xs else s # x # xs)"

definition sort_strings :: "string list \<Rightarrow> string list" where
  "sort_strings xs = foldr insert_string xs []"

definition reconcile_existing ::
  "('w, 'x) ctrl_scheme \<Rightarrow> NetworkAttachmentDefinition \<Rightarrow> nadIPAMConfig \<Rightarrow> NodeSlicePool \<Rightarrow> string list \<Rightarrow> string list \<Rightarrow> 'w
   \<Rightarrow> Result \<times> err option \<times> 'w" where
  "reconcile_existing k nad conf pool0 subnets nodes w =
     (let specChanged = (ns_Range (np_Spec pool0) \<noteq> nc_Range conf \<or> ns_SliceSize (np_Spec pool0) \<noteq> nc_NodeSliceSize conf)
      in case ensureOwnerRef k pool0 nad w of
           (Inl e, w) \<Rightarrow> (no_requeue, Some (Wrap ''ensuring OwnerReference'' e), w)
         | (Inr pool, w) \<Rightarrow>
             if specChanged then updatePoolSpec k pool (nc_Range conf) (nc_NodeSliceSize conf) subnets nodes w
             else if allocationsNeedRebuild (nst_Allocations (np_Status pool)) subnets
             then (case rebuildPoolStatus k pool subnets nodes w of
                     (Inl e, w) \<Rightarrow> (no_requeue, Some e, w)
                   | (Inr pool, w) \<Rightarrow> ensureNodeAssignments k pool nodes (nc_NetworkName conf) w)
             else ensureNodeAssignments k pool nodes (nc_NetworkName conf) w)"

definition reconcile_slices ::
  "('w, 'x) ctrl_scheme \<Rightarrow> NetworkAttachmentDefinition \<Rightarrow> nadIPAMConfig \<Rightarrow> 'w \<Rightarrow> Result \<times> err option \<times> 'w" where
  "reconcile_slices k nad conf w = (case checkMultiNADMismatch k nad conf w of
     (Some e, w) \<Rightarrow> (no_requeue, Some e, w)
   | (None, w) \<Rightarrow>
       let poolName = nodeSlicePoolName conf
       in (case DivideRangeBySizeWithLimit (nc_Range conf) (nc_NodeSliceSize conf) MaxNodeSliceSubnets of
             Inl e \<Rightarrow> (no_requeue, Some (Wrap ''dividing range by size'' e), w)
           | Inr subnets \<Rightarrow> (case c_ListNodes k w of
               (Inl e, w) \<Rightarrow> (no_requeue, Some (Wrap ''listing nodes'' e), w)
             | (Inr names, w) \<Rightarrow>
                 let nodes = sort_strings names
                 in (case k_GetNodeSlicePool k (om_Namespace (nad_Meta nad)) poolName w of
                       (found, w) \<Rightarrow>
                         if (case found of Inl e \<Rightarrow> \<not> IsNotFound e | Inr _ \<Rightarrow> False)
                         then (no_requeue, Some (Wrap ''getting NodeSlicePool'' (projl found)), w)
                         else (case cleanupStaleOwnedPools k nad poolName w of
                                 (Some e, w) \<Rightarrow> (no_requeue, Some (Wrap ''cleaning stale NodeSlicePools'' e), w)
                               | (None, w) \<Rightarrow> (case found of
                                   Inl _ \<Rightarrow> createPool k nad poolName (nc_Range conf) (nc_NodeSliceSize conf) subnets nodes w
                                 | Inr pool \<Rightarrow> reconcile_existing k nad conf pool subnets nodes w))))))"

definition NodeSlice_Reconcile ::
  "('w, 'x) ctrl_scheme \<Rightarrow> string \<Rightarrow> string \<Rightarrow> 'w \<Rightarrow> Result \<times> err option \<times> 'w" where
  "NodeSlice_Reconcile k namespace name w = (case c_GetNAD k namespace name w of
     (Inl e, w) \<Rightarrow> (no_requeue, if IsNotFound e then None else Some (Wrap ''getting NAD'' e), w)
   | (Inr nad, w) \<Rightarrow> (case parseNADIPAMConfig k (nad_Config nad) of
       Inl e \<Rightarrow>
         (no_requeue, if e \<noteq> errNoWhereaboutsIPAMConfig then Some (Wrap ''parsing NAD IPAM config'' e) else None, w)
     | Inr conf \<Rightarrow>
         if nc_NodeSliceSize conf = [] \<or> nc_Range conf = [] then (no_requeue, None, w)
         else reconcile_slices k nad conf w))"


section \<open>Assignments\<close>

text \<open>No node has two slices.\<close>

definition one_slice :: "NodeSliceAllocation list \<Rightarrow> bool" where
  "one_slice allocs \<longleftrightarrow> distinct (filter (\<lambda>n. n \<noteq> []) (map na_NodeName allocs))"

definition node_names :: "NodeSliceAllocation list \<Rightarrow> string set" where
  "node_names allocs = set (map na_NodeName allocs) - {[]}"

lemma one_slice_Cons:
  "one_slice (a # as) \<longleftrightarrow> (na_NodeName a = [] \<or> na_NodeName a \<notin> node_names as) \<and> one_slice as"
  by (auto simp: one_slice_def node_names_def)

lemma node_names_Cons: "node_names (a # as) = node_names as \<union> ({na_NodeName a} - {[]})"
  by (auto simp: node_names_def)

lemma node_names_update:
  assumes "i < length as" "na_NodeName (as ! i) = []" "n \<noteq> []"
  shows "node_names (as[i := (as ! i)\<lparr>na_NodeName := n\<rparr>]) = insert n (node_names as)"
  using assms
proof (induction as arbitrary: i)
  case (Cons a as)
  then show ?case by (cases i) (auto simp: node_names_Cons)
qed simp

lemma one_slice_update:
  assumes "i < length as" "n \<notin> node_names as" "one_slice as" "na_NodeName (as ! i) = []" "n \<noteq> []"
  shows "one_slice (as[i := (as ! i)\<lparr>na_NodeName := n\<rparr>])"
  using assms
proof (induction as arbitrary: i)
  case (Cons a as)
  show ?case
  proof (cases i)
    case 0
    then show ?thesis using Cons.prems by (auto simp: one_slice_Cons node_names_Cons)
  next
    case (Suc j)
    then have "one_slice (as[j := (as ! j)\<lparr>na_NodeName := n\<rparr>])" using Cons by (auto simp: one_slice_Cons node_names_Cons)
    then show ?thesis using Suc Cons.prems node_names_update [of j as n]
      by (auto simp: one_slice_Cons node_names_Cons)
  qed
qed simp

definition slots_free :: "nat list \<Rightarrow> NodeSliceAllocation list \<Rightarrow> bool" where
  "slots_free slots allocs \<longleftrightarrow> distinct slots \<and> (\<forall>s\<in>set slots. s < length allocs \<and> na_NodeName (allocs ! s) = [])"

lemma slots_free_step:
  "slots_free (s # rest) allocs \<Longrightarrow> slots_free rest (allocs[s := (allocs ! s)\<lparr>na_NodeName := n\<rparr>])"
  by (auto simp: slots_free_def nth_list_update)

lemma assign_nodes_full: "assign_nodes nodes [] assigned allocs = (allocs, filter (\<lambda>n. n \<notin> assigned) nodes)"
  by (induction nodes) auto

lemma slices_update: "s < length allocs \<Longrightarrow> map na_SliceRange (allocs[s := (allocs ! s)\<lparr>na_NodeName := n\<rparr>]) = map na_SliceRange allocs"
  by (simp add: map_update) (metis list_update_id nth_map)

lemma assign_nodes_keeps:
  assumes "slots_free slots allocs"
  shows "map na_SliceRange (fst (assign_nodes nodes slots assigned allocs)) = map na_SliceRange allocs
    \<and> (\<forall>i<length allocs. na_NodeName (allocs ! i) \<noteq> [] \<longrightarrow> fst (assign_nodes nodes slots assigned allocs) ! i = allocs ! i)"
  using assms
proof (induction nodes slots assigned allocs rule: assign_nodes.induct)
  case (2 n nodes slots assigned allocs)
  show ?case
  proof (cases "n \<in> assigned \<or> slots = []")
    case True
    then show ?thesis using 2 by (auto simp: assign_nodes_full)
  next
    case False
    then obtain s rest where new: "n \<notin> assigned" and s: "slots = s # rest" by (cases slots) auto
    let ?al = "allocs[s := (allocs ! s)\<lparr>na_NodeName := n\<rparr>]"
    have f: "s < length allocs" "na_NodeName (allocs ! s) = []" using "2.prems" s by (auto simp: slots_free_def)
    have "assign_nodes (n # nodes) slots assigned allocs = assign_nodes nodes rest (insert n assigned) ?al"
      using new s by simp
    then show ?thesis
      using "2.IH"(3) [OF new s slots_free_step] "2.prems" s f by (auto simp: slices_update nth_list_update split: if_splits)
  qed
qed simp

lemma assign_nodes_places:
  assumes "slots_free slots allocs" "one_slice allocs" "[] \<notin> set nodes" "distinct nodes" "assigned = node_names allocs"
    "assign_nodes nodes slots assigned allocs = (allocs', unplaced)"
  shows "one_slice allocs' \<and> node_names allocs' = node_names allocs \<union> (set nodes - set unplaced)
    \<and> unplaced = drop (length slots) (filter (\<lambda>n. n \<notin> node_names allocs) nodes)"
  using assms
proof (induction nodes slots assigned allocs rule: assign_nodes.induct)
  case (2 n nodes slots assigned allocs)
  show ?case
  proof (cases "n \<in> assigned \<or> slots = []")
    case True
    then consider (a) "n \<in> assigned" | (f) "n \<notin> assigned" "slots = []" by blast
    then show ?thesis
    proof cases
      case a
      then have e: "assign_nodes nodes slots assigned allocs = (allocs', unplaced)" using "2.prems"(6) by simp
      have p: "[] \<notin> set nodes" "distinct nodes" using "2.prems"(3,4) by auto
      have "n \<in> node_names allocs" using a "2.prems"(5) by metis
      then show ?thesis using "2.IH"(1) [OF a "2.prems"(1,2) p "2.prems"(5) e] by auto
    next
      case f
      then have "allocs' = allocs" "unplaced = filter (\<lambda>n. n \<notin> node_names allocs) (n # nodes)"
        using "2.prems"(5,6) assign_nodes_full [of "n # nodes" assigned allocs] by simp_all
      then show ?thesis using "2.prems"(2) f(2) by auto
    qed
  next
    case False
    then obtain s rest where new: "n \<notin> assigned" and s: "slots = s # rest" by (cases slots) auto
    let ?al = "allocs[s := (allocs ! s)\<lparr>na_NodeName := n\<rparr>]"
    have f: "s < length allocs" "na_NodeName (allocs ! s) = []" "n \<noteq> []" using "2.prems"(1,3) s by (auto simp: slots_free_def)
    have nn: "node_names ?al = insert n (node_names allocs)" using f by (rule node_names_update)
    have o: "one_slice ?al" using f new "2.prems"(2,5) by (intro one_slice_update) auto
    have e: "assign_nodes nodes rest (insert n assigned) ?al = (allocs', unplaced)" using "2.prems"(6) new s by simp
    have "one_slice allocs' \<and> node_names allocs' = node_names ?al \<union> (set nodes - set unplaced)
        \<and> unplaced = drop (length rest) (filter (\<lambda>n. n \<notin> node_names ?al) nodes)"
      using "2.prems" s by (intro "2.IH"(3) [OF new s _ o _ _ _ e] slots_free_step) (auto simp: nn)
    moreover have "filter (\<lambda>m. m \<notin> node_names ?al) nodes = filter (\<lambda>m. m \<notin> node_names allocs) nodes"
      using "2.prems"(4) by (intro filter_cong) (auto simp: nn)
    moreover have "n \<notin> set unplaced" using calculation "2.prems"(4) by (auto dest: in_set_dropD)
    ultimately show ?thesis using nn new s "2.prems"(5) by auto
  qed
qed auto

lemma assign_all_free: "slots_free (filter (\<lambda>i. na_NodeName (allocs ! i) = []) [0..<length allocs]) allocs"
  by (auto simp: slots_free_def)

lemma free_slots_count:
  "length (filter (\<lambda>i. na_NodeName (allocs ! i) = []) [0..<length allocs]) = length (filter (\<lambda>a. na_NodeName a = []) allocs)"
  by (simp add: length_filter_conv_card cong: conj_cong)


lemma release_loop_spec:
  assumes "release_loop k ns net S allocs w = (Inr (rel, blocking), w')"
  shows "length rel = length allocs \<and> map na_SliceRange rel = map na_SliceRange allocs \<and> node_names rel \<subseteq> node_names allocs
    \<and> (\<forall>i<length allocs. rel ! i = allocs ! i \<or> na_NodeName (allocs ! i) \<notin> S \<and> rel ! i = (allocs ! i)\<lparr>na_NodeName := []\<rparr>)"
  using assms
proof (induction allocs arbitrary: w rel blocking)
  case (Cons a allocs)
  then obtain w1 rel' b x where r: "release_loop k ns net S allocs w1 = (Inr (rel', b), w')" "rel = x # rel'"
      "x = a \<or> na_NodeName a \<notin> S \<and> x = a\<lparr>na_NodeName := []\<rparr>"
    by (auto split: if_splits prod.splits sum.splits)
  then show ?case using Cons.IH [OF r(1)] by (auto simp: node_names_Cons less_Suc_eq_0_disj)
qed simp

lemma release_loop_one_slice:
  assumes "release_loop k ns net S allocs w = (Inr (rel, blocking), w')" "one_slice allocs"
  shows "one_slice rel"
  using assms
proof (induction allocs arbitrary: w rel blocking)
  case (Cons a allocs)
  then obtain w1 rel' b x where r: "release_loop k ns net S allocs w1 = (Inr (rel', b), w')" "rel = x # rel'"
      "x = a \<or> x = a\<lparr>na_NodeName := []\<rparr>"
    by (auto split: if_splits prod.splits sum.splits)
  then show ?case using Cons.IH [OF r(1)] Cons.prems(2) release_loop_spec [OF r(1)] by (auto simp: one_slice_Cons)
qed simp

lemma assign_all_spec:
  assumes "one_slice allocs" "[] \<notin> set nodes" "distinct nodes" "assign_all nodes allocs = (allocs', unplaced)"
  shows "map na_SliceRange allocs' = map na_SliceRange allocs
    \<and> (\<forall>i<length allocs. na_NodeName (allocs ! i) \<noteq> [] \<longrightarrow> allocs' ! i = allocs ! i)
    \<and> one_slice allocs' \<and> node_names allocs' = node_names allocs \<union> (set nodes - set unplaced)
    \<and> (unplaced = [] \<longleftrightarrow> length (filter (\<lambda>n. n \<notin> node_names allocs) nodes) \<le> length (filter (\<lambda>a. na_NodeName a = []) allocs))"
proof -
  have e: "assign_nodes nodes (filter (\<lambda>i. na_NodeName (allocs ! i) = []) [0..<length allocs]) (node_names allocs) allocs = (allocs', unplaced)"
    using assms(4) by (simp add: assign_all_def node_names_def)
  have "map na_SliceRange allocs' = map na_SliceRange allocs
      \<and> (\<forall>i<length allocs. na_NodeName (allocs ! i) \<noteq> [] \<longrightarrow> allocs' ! i = allocs ! i)"
    using assign_nodes_keeps [OF assign_all_free [of allocs], of nodes "node_names allocs"] unfolding e fst_conv .
  then show ?thesis
    using assign_nodes_places [OF assign_all_free assms(1-3) refl e] by (auto simp: free_slots_count)
qed

text \<open>
  C36: a pass over the nodes leaves the slices of the range as they are, gives no node two
  of them, and takes none from a node that is still there; every node has a slice afterwards
  unless it is reported, and none is reported if the free slices suffice for the new nodes.
\<close>

theorem node_assignments_sound:
  assumes "release_loop k ns net (set nodes) allocs w = (Inr (rel, blocking), w')" "assign_all nodes rel = (allocs', unplaced)"
    and "one_slice allocs" "[] \<notin> set nodes" "distinct nodes"
  shows "map na_SliceRange allocs' = map na_SliceRange allocs \<and> one_slice allocs'
    \<and> (\<forall>i<length allocs. na_NodeName (allocs ! i) \<in> set nodes \<longrightarrow> allocs' ! i = allocs ! i)
    \<and> set nodes \<subseteq> node_names allocs' \<union> set unplaced
    \<and> (unplaced = [] \<longleftrightarrow> length (filter (\<lambda>n. n \<notin> node_names rel) nodes) \<le> length (filter (\<lambda>a. na_NodeName a = []) rel))"
proof -
  note r = release_loop_spec [OF assms(1)] and o = release_loop_one_slice [OF assms(1,3)]
  note a = assign_all_spec [OF o assms(4,5,2)]
  have "allocs' ! i = allocs ! i" if i: "i < length allocs" "na_NodeName (allocs ! i) \<in> set nodes" for i
  proof -
    have "rel ! i = allocs ! i" "na_NodeName (allocs ! i) \<noteq> []" using r i assms(4) by auto
    then show ?thesis using a i r by simp
  qed
  then show ?thesis using a r by auto
qed

definition slices_ex :: "NodeSliceAllocation list" where
  "slices_ex = [\<lparr> na_NodeName = ''n1'', na_SliceRange = ''10.0.0.0/26'' \<rparr>, \<lparr> na_NodeName = ''n2'', na_SliceRange = ''10.0.0.64/26'' \<rparr>,
     \<lparr> na_NodeName = [], na_SliceRange = ''10.0.0.128/26'' \<rparr>]"

theorem node_assignments_sound_witness:
  "assign_all [''n1'', ''n3'', ''n4'', ''n5''] [\<lparr> na_NodeName = ''n1'', na_SliceRange = ''10.0.0.0/26'' \<rparr>,
       \<lparr> na_NodeName = [], na_SliceRange = ''10.0.0.64/26'' \<rparr>, \<lparr> na_NodeName = [], na_SliceRange = ''10.0.0.128/26'' \<rparr>]
     = ([\<lparr> na_NodeName = ''n1'', na_SliceRange = ''10.0.0.0/26'' \<rparr>, \<lparr> na_NodeName = ''n3'', na_SliceRange = ''10.0.0.64/26'' \<rparr>,
         \<lparr> na_NodeName = ''n4'', na_SliceRange = ''10.0.0.128/26'' \<rparr>], [''n5''])
   \<and> one_slice [\<lparr> na_NodeName = ''n1'', na_SliceRange = ''10.0.0.0/26'' \<rparr>, \<lparr> na_NodeName = ''n3'', na_SliceRange = ''10.0.0.64/26'' \<rparr>,
         \<lparr> na_NodeName = ''n4'', na_SliceRange = ''10.0.0.128/26'' \<rparr>]"
proof -
  let ?nodes = "[''n1'', ''n3'', ''n4'', ''n5'']"
  let ?rel = "[\<lparr> na_NodeName = ''n1'', na_SliceRange = ''10.0.0.0/26'' \<rparr>,
       \<lparr> na_NodeName = [], na_SliceRange = ''10.0.0.64/26'' \<rparr>, \<lparr> na_NodeName = [], na_SliceRange = ''10.0.0.128/26'' \<rparr>]"
  have r: "release_loop null_ctrl ''ns'' [] (set ?nodes) slices_ex 0 = (Inr (?rel, False), 0)"
    by (simp add: slices_ex_def releaseDeletedNodeSlice_def null_ctrl_def)
  have a: "assign_all ?nodes ?rel = ([\<lparr> na_NodeName = ''n1'', na_SliceRange = ''10.0.0.0/26'' \<rparr>, \<lparr> na_NodeName = ''n3'', na_SliceRange = ''10.0.0.64/26'' \<rparr>,
         \<lparr> na_NodeName = ''n4'', na_SliceRange = ''10.0.0.128/26'' \<rparr>], [''n5''])"
    by (simp add: assign_all_def upt_rec)
  have "one_slice slices_ex" "[] \<notin> set ?nodes" "distinct ?nodes" by (simp_all add: one_slice_def slices_ex_def)
  from node_assignments_sound [OF r a this] show ?thesis using a by blast
qed

lemma release_loop_blocked:
  assumes "release_loop k ns net S allocs w = (Inr (rel, blocking), w')" "i < length allocs" "na_NodeName (allocs ! i) \<noteq> []" "na_NodeName (allocs ! i) \<notin> S"
    and "\<And>w. \<exists>pool w1. k_GetIPPool k ns (nodeSliceIPPoolName net (na_NodeName (allocs ! i)) (na_SliceRange (allocs ! i))) w = (Inr pool, w1)
      \<and> ps_Allocations (ip_Spec pool) \<noteq> []"
  shows "rel ! i = allocs ! i \<and> blocking"
  using assms(1-5)
proof (induction allocs arbitrary: w rel blocking i)
  case (Cons a allocs)
  show ?case
  proof (cases i)
    case 0
    obtain pool w1 where "k_GetIPPool k ns (nodeSliceIPPoolName net (na_NodeName a) (na_SliceRange a)) w = (Inr pool, w1)"
        "ps_Allocations (ip_Spec pool) \<noteq> []" using Cons.prems(5) [of w] 0 by auto
    then have "releaseDeletedNodeSlice k ns net a w = (Inr False, w1)" by (simp add: releaseDeletedNodeSlice_def)
    then show ?thesis using Cons.prems(1,3,4) 0 by (auto split: prod.splits sum.splits)
  next
    case (Suc j)
    obtain w1 rel' b x where r: "release_loop k ns net S allocs w1 = (Inr (rel', b), w')" "rel = x # rel'" "b \<longrightarrow> blocking"
      using Cons.prems(1) by (auto split: if_splits prod.splits sum.splits)
    have "rel' ! j = allocs ! j \<and> b" using Cons.IH [OF r(1), of j] Cons.prems(2-5) Suc by simp
    then show ?thesis using r Suc by simp
  qed
qed simp

text \<open>
  C37: the slice of a deleted node is not handed to another node as long as the node's pool
  holds allocations: the assignment stays and the pass asks to be repeated.
\<close>

theorem blocked_slice_not_reused:
  assumes "release_loop k ns net (set nodes) allocs w = (Inr (rel, blocking), w')" "assign_all nodes rel = (allocs', unplaced)"
    and "one_slice allocs" "[] \<notin> set nodes" "distinct nodes"
    and "i < length allocs" "na_NodeName (allocs ! i) \<noteq> []" "na_NodeName (allocs ! i) \<notin> set nodes"
    and "\<And>w. \<exists>pool w1. k_GetIPPool k ns (nodeSliceIPPoolName net (na_NodeName (allocs ! i)) (na_SliceRange (allocs ! i))) w = (Inr pool, w1)
      \<and> ps_Allocations (ip_Spec pool) \<noteq> []"
  shows "allocs' ! i = allocs ! i \<and> blocking"
proof -
  have b: "rel ! i = allocs ! i" "blocking" using release_loop_blocked [OF assms(1,6-9)] by blast+
  note r = release_loop_spec [OF assms(1)] and o = release_loop_one_slice [OF assms(1,3)]
  show ?thesis using assign_all_spec [OF o assms(4,5,2)] r b assms(6,7) by simp
qed

definition busy_node :: "nat ctrl" where
  "busy_node = null_ctrl\<lparr>k_GetIPPool := \<lambda>_ _ w. (Inr (pool_with two_allocs), w)\<rparr>"

theorem blocked_slice_not_reused_witness:
  "\<exists>rel. release_loop busy_node ''ns'' [] (set [''n1'', ''n3'']) slices_ex 0 = (Inr (rel, True), 0)
     \<and> fst (assign_all [''n1'', ''n3''] rel) ! 1 = slices_ex ! 1"
proof -
  have r: "release_loop busy_node ''ns'' [] (set [''n1'', ''n3'']) slices_ex 0 = (Inr (slices_ex, True), 0)"
    by (simp add: slices_ex_def releaseDeletedNodeSlice_def busy_node_def pool_with_def two_allocs_def)
  have "one_slice slices_ex" "[] \<notin> set [''n1'', ''n3'']" "distinct [''n1'', ''n3'']" "1 < length slices_ex"
    "na_NodeName (slices_ex ! 1) \<noteq> []" "na_NodeName (slices_ex ! 1) \<notin> set [''n1'', ''n3'']"
    by (simp_all add: one_slice_def slices_ex_def)
  from blocked_slice_not_reused [OF r prod.collapse [symmetric] this] show ?thesis
    using r by (simp add: busy_node_def pool_with_def two_allocs_def)
qed

section \<open>Names, status and admission\<close>

text \<open>
  The reconciler and the storage layer name things alike: the pool of a node's slice
  and the pool of slices have the names under which the plugin looks them up.
\<close>

theorem slice_names_agree:
  assumes "node \<noteq> []"
    and "nc_NetworkName conf = ic_NetworkName (ki_Config ipam)" "nc_Range conf = firstConfiguredRange (ki_Config ipam)"
    and "nc_Name conf = ic_Name (ki_Config ipam)"
  shows "nodeSliceIPPoolName net node r = IPPoolName \<lparr> pi_IPRange = r, pi_NetworkName = net, pi_NodeName = node \<rparr>
    \<and> nodeSlicePoolName conf = getNodeSliceName ipam"
  using assms
  by (simp add: nodeSliceIPPoolName_def IPPoolName_def UnnamedNetwork_def normalizeRange_def nodeSlicePoolName_def
      getNodeSliceName_def Let_def)

theorem slice_names_agree_witness:
  "nodeSliceIPPoolName ''net'' ''n1'' ''10.0.0.0/26'' = IPPoolName \<lparr> pi_IPRange = ''10.0.0.0/26'', pi_NetworkName = ''net'', pi_NodeName = ''n1'' \<rparr>
   \<and> nodeSlicePoolName \<lparr> nc_Name = ic_Name (ki_Config ipam_ex), nc_NetworkName = ic_NetworkName (ki_Config ipam_ex),
        nc_Range = firstConfiguredRange (ki_Config ipam_ex), nc_NodeSliceSize = ''/26'' \<rparr> = getNodeSliceName ipam_ex"
  by (rule slice_names_agree) simp_all

text \<open>A first pass that has too few slices for the nodes still reports the pool ready.\<close>

theorem created_pool_ready_when_full:
  "let sent = created nsp_ex ''10.0.0.0/26'' ''/26'' (makeAllocations [''10.0.0.0/26''] [''n1'', ''n2'']) [''n1'', ''n2''] 1
   in status_of ''Ready'' (nst_Conditions (np_Status sent)) = Some ''True'' \<and> ''n2'' \<notin> node_names (nst_Allocations (np_Status sent))"
  by code_simp

text \<open>
  The webhook rejects every change of range or slice size that the reconciler makes:
  the object it patches after a change of the network definition is one the validator refuses.
\<close>

theorem resliced_pool_refused:
  assumes "ns_Range (np_Spec pool) \<noteq> rangeStr \<or> ns_SliceSize (np_Spec pool) \<noteq> sliceSize"
  shows "\<exists>e. NodeSlicePool_ValidateUpdate (Some pool) (resliced pool rangeStr sliceSize subnets nodes now) = Inl e"
  using assms
  by (auto simp: NodeSlicePool_ValidateUpdate_def immutable_errs_def resliced_def mark_nsp_def set_slices_def computeSliceStats_def Let_def)

theorem resliced_pool_refused_witness:
  "\<exists>e. NodeSlicePool_ValidateUpdate (Some nsp_ex) (resliced nsp_ex ''10.0.0.0/24'' ''/27'' [] [] 1) = Inl e"
  by (rule resliced_pool_refused) (simp add: nsp_ex_def)

section \<open>The life of a slice pool\<close>

lemma makeAllocations_slices: "map na_SliceRange (makeAllocations subnets nodes) = subnets"
  by (induction subnets nodes rule: makeAllocations.induct) (simp_all add: free_slice_def)

lemma makeAllocations_nodes: "node_names (makeAllocations subnets nodes) = set (take (length subnets) nodes) - {[]}"
  by (induction subnets nodes rule: makeAllocations.induct) (auto simp: node_names_def free_slice_def)

lemma makeAllocations_one_slice: "distinct nodes \<Longrightarrow> one_slice (makeAllocations subnets nodes)"
proof (induction subnets nodes rule: makeAllocations.induct)
  case (3 subnet subnets n nodes)
  then show ?case
    by (auto simp: one_slice_Cons makeAllocations_nodes free_slice_def dest: in_set_takeD)
qed (simp_all add: one_slice_def free_slice_def)

lemma one_slice_append_free: "one_slice (allocs @ map free_slice subnets) \<longleftrightarrow> one_slice allocs"
  by (simp add: one_slice_def free_slice_def filter_map o_def)

lemma repairAllocations_slices: "map na_SliceRange (repairAllocations allocs subnets nodes) = subnets"
proof (cases "allocationsMatchSubnetPrefix allocs subnets")
  case True
  then have "map na_SliceRange allocs = take (length allocs) subnets"
    by (auto simp: allocationsMatchSubnetPrefix_def list_all_length intro!: nth_equalityI)
  then show ?thesis using True by (simp add: repairAllocations_def free_slice_def o_def)
qed (simp add: repairAllocations_def makeAllocations_slices)

lemma repairAllocations_one_slice: "one_slice allocs \<Longrightarrow> distinct nodes \<Longrightarrow> one_slice (repairAllocations allocs subnets nodes)"
  by (simp add: repairAllocations_def makeAllocations_one_slice one_slice_append_free)

lemma repairAllocations_keeps:
  "allocationsMatchSubnetPrefix allocs subnets \<Longrightarrow> take (length allocs) (repairAllocations allocs subnets nodes) = allocs"
  by (simp add: repairAllocations_def)

text \<open>
  The allocations that the status of a slice pool goes through: as created or re-sliced, as
  rebuilt after a lost status, and after each pass over the nodes.
\<close>

inductive slice_state :: "('w, 'x) ctrl_scheme \<Rightarrow> string list \<Rightarrow> NodeSliceAllocation list \<Rightarrow> bool" for k where
  lost: "slice_state k subnets []"
| made: "distinct nodes \<Longrightarrow> slice_state k subnets (makeAllocations subnets nodes)"
| rebuilt: "slice_state k subnets' allocs \<Longrightarrow> distinct nodes \<Longrightarrow> slice_state k subnets (repairAllocations allocs subnets nodes)"
| pass: "slice_state k subnets allocs \<Longrightarrow> release_loop k ns net (set nodes) allocs w = (Inr (rel, blocking), w')
    \<Longrightarrow> [] \<notin> set nodes \<Longrightarrow> distinct nodes \<Longrightarrow> assign_all nodes rel = (allocs', unplaced) \<Longrightarrow> slice_state k subnets allocs'"

lemma slice_state_inv: "slice_state k subnets allocs \<Longrightarrow> one_slice allocs \<and> (allocs = [] \<or> map na_SliceRange allocs = subnets)"
proof (induction rule: slice_state.induct)
  case (pass subnets allocs ns net nodes w rel blocking w' allocs' unplaced)
  note o = release_loop_one_slice [OF pass.hyps(2)]
  then have "one_slice rel" using pass.IH by blast
  note a = assign_all_spec [OF this pass.hyps(3,4,5)]
  have "map na_SliceRange rel = map na_SliceRange allocs" using release_loop_spec [OF pass.hyps(2)] by blast
  then have "map na_SliceRange allocs' = map na_SliceRange allocs" using a by simp
  then show ?case using a pass.IH by auto
qed (simp_all add: one_slice_def makeAllocations_slices repairAllocations_slices
      makeAllocations_one_slice [unfolded one_slice_def] repairAllocations_one_slice [unfolded one_slice_def])

text \<open>
  C12: two nodes never allocate from common addresses: whatever nodes came and went, and
  whenever the status was lost and rebuilt, the ranges that the plugin reads for two nodes from
  the slice pool have no address in common.
\<close>

theorem nodes_never_share_addresses:
  assumes "DivideRangeBySizeWithLimit rangeStr sliceSize MaxNodeSliceSubnets = Inr subnets"
    and "ParsePrefix rangeStr = Inr (Prefix a (Some m))" "good_cidr a m"
    and "slice_state k subnets (nst_Allocations (np_Status pool))"
    and "k_GetNodeSlicePool k (ki_Namespace ipam) (getNodeSliceName ipam) w = (Inr pool, w')"
    and "GetNodeSlicePoolRange k ipam n w = (Inr r, w1)" "GetNodeSlicePoolRange k ipam n' w = (Inr r', w2)" "n \<noteq> n'"
    and "ParsePrefix r = Inr q" "ParsePrefix r' = Inr q'"
  shows "\<not> (pfx_contains q x \<and> pfx_contains q' x)"
proof
  assume x: "pfx_contains q x \<and> pfx_contains q' x"
  let ?as = "nst_Allocations (np_Status pool)"
  have found: "\<exists>i<length ?as. na_NodeName (?as ! i) = v \<and> na_SliceRange (?as ! i) = s"
    if "GetNodeSlicePoolRange k ipam v w = (Inr s, u)" for v s u
    using that assms(5) by (auto simp: GetNodeSlicePoolRange_def find_Some_iff split: option.splits)
  obtain i where i: "i < length ?as" "na_NodeName (?as ! i) = n" "na_SliceRange (?as ! i) = r" using found [OF assms(6)] by auto
  obtain j where j: "j < length ?as" "na_NodeName (?as ! j) = n'" "na_SliceRange (?as ! j) = r'" using found [OF assms(7)] by auto
  have s: "map na_SliceRange ?as = subnets" using slice_state_inv [OF assms(4)] i by auto
  then have "i < length subnets" "j < length subnets" "subnets ! i = r" "subnets ! j = r'" using i j by auto
  then have "i = j" using divide_slices_disjoint [OF assms(1-3)] assms(9,10) x by blast
  then show False using i j assms(8) by simp
qed

definition slice_kube :: "nat ctrl" where
  "slice_kube = null_ctrl\<lparr>k_GetNodeSlicePool := \<lambda>_ _ w. (Inr (set_slices (makeAllocations
     [''10.0.0.0/26'', ''10.0.0.64/26'', ''10.0.0.128/26'', ''10.0.0.192/26''] [''n1'', ''n2'']) nsp_ex), w)\<rparr>"

theorem nodes_never_share_addresses_witness:
  "GetNodeSlicePoolRange slice_kube ipam_ex ''n1'' 0 = (Inr ''10.0.0.0/26'', 0)
   \<and> GetNodeSlicePoolRange slice_kube ipam_ex ''n2'' 0 = (Inr ''10.0.0.64/26'', 0)
   \<and> \<not> (pfx_contains (Prefix (Addr4 0x0a000000) (Some 26)) (Addr4 0x0a000041) \<and> pfx_contains (Prefix (Addr4 0x0a000040) (Some 26)) (Addr4 0x0a000041))"
proof -
  let ?subs = "[''10.0.0.0/26'', ''10.0.0.64/26'', ''10.0.0.128/26'', ''10.0.0.192/26'']"
  let ?pool = "set_slices (makeAllocations ?subs [''n1'', ''n2'']) nsp_ex"
  have d: "DivideRangeBySizeWithLimit ''10.0.0.0/24'' ''/26'' MaxNodeSliceSubnets = Inr ?subs" by code_simp
  have p: "ParsePrefix ''10.0.0.0/24'' = Inr (Prefix (Addr4 0x0a000000) (Some 24))" "good_cidr (Addr4 0x0a000000) 24" by code_simp+
  have "slice_state slice_kube ?subs (makeAllocations ?subs [''n1'', ''n2''])" by (rule slice_state.made) simp
  moreover have "nst_Allocations (np_Status ?pool) = makeAllocations ?subs [''n1'', ''n2'']"
    by (simp add: set_slices_def computeSliceStats_def Let_def)
  ultimately have s: "slice_state slice_kube ?subs (nst_Allocations (np_Status ?pool))" by simp
  have g: "k_GetNodeSlicePool slice_kube (ki_Namespace ipam_ex) (getNodeSliceName ipam_ex) 0 = (Inr ?pool, 0)"
    by (simp add: slice_kube_def)
  have r: "GetNodeSlicePoolRange slice_kube ipam_ex ''n1'' 0 = (Inr ''10.0.0.0/26'', 0)"
    "GetNodeSlicePoolRange slice_kube ipam_ex ''n2'' 0 = (Inr ''10.0.0.64/26'', 0)"
    by (simp_all add: GetNodeSlicePoolRange_def g set_slices_def computeSliceStats_def Let_def free_slice_def)
  have q: "ParsePrefix ''10.0.0.0/26'' = Inr (Prefix (Addr4 0x0a000000) (Some 26))" "ParsePrefix ''10.0.0.64/26'' = Inr (Prefix (Addr4 0x0a000040) (Some 26))"
    by code_simp+
  show ?thesis using r nodes_never_share_addresses [OF d p s g r(1) r(2) _ q(1) q(2)] by blast
qed

end
