(* ===== verification/OverlappingRangeController.thy ===== *)
theory OverlappingRangeController
  imports IPPoolController
begin

text \<open>
  \<^verbatim>\<open>internal/controller/overlappingrange_controller.go\<close>: the reconciler that deletes a cluster-wide
  reservation when its pod is gone, or is another pod of the same name.
\<close>

section \<open>Definitions\<close>

record OverlappingRangeReconciler =
  ro_reconcileInterval :: int
  ro_cleanupTerminating :: bool
  ro_cleanupDisrupted :: bool

definition deleteReservation ::
  "('w, 'x) ctrl_scheme \<Rightarrow> OverlappingRangeIPReservation \<Rightarrow> 'w \<Rightarrow> Result \<times> err option \<times> 'w" where
  "deleteReservation k reservation w =
     (let m = ov_Meta reservation
      in case k_DeleteORIP k (om_Namespace m) (om_Name m) (if om_UID m \<noteq> [] then Some (om_UID m) else None) w of
           (Inl e, w) \<Rightarrow>
             (no_requeue, if IsNotFound e then None else Some (Wrap ''deleting OverlappingRangeIPReservation'' e), w)
         | (Inr _, w) \<Rightarrow> (no_requeue, None, c_Eventf k ''OrphanedReservationDeleted'' w))"

definition stale_reservation :: "OverlappingRangeReconciler \<Rightarrow> OverlappingRangeIPReservation \<Rightarrow> Pod \<Rightarrow> bool" where
  "stale_reservation r reservation pod \<longleftrightarrow>
     (let uid = os_PodUID (ov_Spec reservation)
      in uid \<noteq> [] \<and> om_UID (po_Meta pod) \<noteq> [] \<and> uid \<noteq> om_UID (po_Meta pod))
     \<or> ro_cleanupDisrupted r \<and> isPodMarkedForDeletion (po_Conditions pod)
     \<or> ro_cleanupTerminating r \<and> om_DeletionTimestamp (po_Meta pod) \<noteq> None
     \<or> isPodCompleted (po_Phase pod)
     \<or> isPodLostToNodeFailure pod"

definition mark_reservation_ready ::
  "('w, 'x) ctrl_scheme \<Rightarrow> OverlappingRangeReconciler \<Rightarrow> OverlappingRangeIPReservation \<Rightarrow> 'w \<Rightarrow> Result \<times> err option \<times> 'w" where
  "mark_reservation_ready k r reservation w =
     (case Patch (orip_client k) reservation
             (reservation\<lparr>ov_Conditions := markReady (c_Now k w) (om_Generation (ov_Meta reservation)) ''Validated''
                ''referenced pod exists'' (ov_Conditions reservation)\<rparr>) w of
        (Some e, _, w) \<Rightarrow> (no_requeue, Some (Wrap ''patching OverlappingRangeIPReservation status'' e), w)
      | (None, _, w) \<Rightarrow> (requeue_after (ro_reconcileInterval r), None, w))"

definition OverlappingRange_Reconcile ::
  "('w, 'x) ctrl_scheme \<Rightarrow> OverlappingRangeReconciler \<Rightarrow> string \<Rightarrow> string \<Rightarrow> 'w \<Rightarrow> Result \<times> err option \<times> 'w" where
  "OverlappingRange_Reconcile k r namespace name w = (case k_GetORIP k namespace name w of
     (Inl e, w) \<Rightarrow> (no_requeue, if IsNotFound e then None else Some (Wrap ''getting OverlappingRangeIPReservation'' e), w)
   | (Inr reservation, w) \<Rightarrow>
       if os_PodRef (ov_Spec reservation) = [] then (requeue_after (ro_reconcileInterval r), None, w)
       else case parsePodRef (os_PodRef (ov_Spec reservation)) of
              None \<Rightarrow> deleteReservation k reservation w
            | Some (podNS, podName) \<Rightarrow> (case k_GetPod k podNS podName w of
                (Inl e, w) \<Rightarrow>
                  if IsNotFound e then deleteReservation k reservation w
                  else (no_requeue, Some (Wrap ''getting pod'' e), w)
              | (Inr pod, w) \<Rightarrow>
                  if stale_reservation r reservation pod then deleteReservation k reservation w
                  else mark_reservation_ready k r reservation w))"

section \<open>Which reservations are deleted\<close>

text \<open>
  C35: the reservation of a live pod is never deleted: if its pod exists, has the recorded
  UID, runs and is not being deleted or disrupted, the delete operation is not used, whatever the
  other operations answer.
\<close>

theorem live_reservation_kept:
  assumes "k_GetORIP k ns name w = (Inr res, w1)" "parsePodRef (os_PodRef (ov_Spec res)) = Some (pns, pn)"
    and "k_GetPod k pns pn w1 = (Inr pod, w2)" "os_PodUID (ov_Spec res) = om_UID (po_Meta pod)"
    and "po_Phase pod = ''Running''" "\<not> isPodMarkedForDeletion (po_Conditions pod)" "om_DeletionTimestamp (po_Meta pod) = None"
  shows "OverlappingRange_Reconcile (k\<lparr>k_DeleteORIP := del\<rparr>) r ns name w = mark_reservation_ready k r res w2"
proof -
  have "mark_reservation_ready (k\<lparr>k_DeleteORIP := del\<rparr>) r res w2 = mark_reservation_ready k r res w2"
    by (simp add: mark_reservation_ready_def orip_client_def)
  moreover have "os_PodRef (ov_Spec res) \<noteq> []" using assms(2) by (auto simp: parsePodRef_def)
  moreover have "\<not> stale_reservation r res pod"
    using assms(4-7) by (simp add: stale_reservation_def isPodCompleted_def isPodLostToNodeFailure_def)
  ultimately show ?thesis using assms(1-3) by (simp add: OverlappingRange_Reconcile_def)
qed

definition orip_ex :: OverlappingRangeIPReservation where
  "orip_ex = new_orip ''10.0.0.1'' ''kube-system'' ''ns/p1'' ''eth0'' []"

definition or_reconciler_ex :: OverlappingRangeReconciler where
  "or_reconciler_ex = \<lparr> ro_reconcileInterval = 30, ro_cleanupTerminating = False, ro_cleanupDisrupted = True \<rparr>"

theorem live_reservation_kept_witness:
  "fst (OverlappingRange_Reconcile (one_pod\<lparr>k_GetORIP := \<lambda>_ _ w. (Inr orip_ex, w), c_StatusORIP := \<lambda>x w. (Inr x, Suc w),
      k_DeleteORIP := \<lambda>_ _ _ w. (Inr (), w + 100)\<rparr>) or_reconciler_ex ''kube-system'' ''10.0.0.1'' 0) = requeue_after 30"
proof -
  let ?k = "one_pod\<lparr>k_GetORIP := \<lambda>_ _ w. (Inr orip_ex, w), c_StatusORIP := \<lambda>x w. (Inr x, Suc w)\<rparr>"
  have f: "k_GetORIP ?k ''kube-system'' ''10.0.0.1'' 0 = (Inr orip_ex, 0)" "k_GetPod ?k ''ns'' ''p1'' 0 = (Inr pod_ex, 0)"
    "os_PodUID (ov_Spec orip_ex) = om_UID (po_Meta pod_ex)" "po_Phase pod_ex = ''Running''"
    "\<not> isPodMarkedForDeletion (po_Conditions pod_ex)" "om_DeletionTimestamp (po_Meta pod_ex) = None"
    by (simp_all add: one_pod_def pod_ex_def orip_ex_def new_orip_def isPodMarkedForDeletion_def empty_meta_def)
  have p: "parsePodRef (os_PodRef (ov_Spec orip_ex)) = Some (''ns'', ''p1'')" by code_simp
  have "OverlappingRange_Reconcile (?k\<lparr>k_DeleteORIP := \<lambda>_ _ _ w. (Inr (), w + 100)\<rparr>) or_reconciler_ex ''kube-system'' ''10.0.0.1'' 0
      = mark_reservation_ready ?k or_reconciler_ex orip_ex 0"
    by (rule live_reservation_kept [OF f(1) p f(2-6)])
  moreover have "fst (mark_reservation_ready ?k or_reconciler_ex orip_ex 0) = requeue_after 30" by code_simp
  ultimately show ?thesis by simp
qed

text \<open>
  A reservation whose pod is gone, or has another UID than recorded, is deleted, with
  the UID of the reservation that was read as the precondition if it has one.
\<close>

theorem stale_reservation_deleted:
  assumes "k_GetORIP k ns name w = (Inr res, w1)" "parsePodRef (os_PodRef (ov_Spec res)) = Some (pns, pn)"
    and "k_GetPod k pns pn w1 = (p, w2)"
    and "case p of Inl e \<Rightarrow> IsNotFound e | Inr pod \<Rightarrow> os_PodUID (ov_Spec res) \<noteq> [] \<and> om_UID (po_Meta pod) \<noteq> []
           \<and> os_PodUID (ov_Spec res) \<noteq> om_UID (po_Meta pod)"
    and "k_DeleteORIP k (om_Namespace (ov_Meta res)) (om_Name (ov_Meta res))
           (if om_UID (ov_Meta res) = [] then None else Some (om_UID (ov_Meta res))) w2 = (Inr (), w3)"
  shows "OverlappingRange_Reconcile k r ns name w = (no_requeue, None, c_Eventf k ''OrphanedReservationDeleted'' w3)"
proof -
  have d: "deleteReservation k res w2 = (no_requeue, None, c_Eventf k ''OrphanedReservationDeleted'' w3)"
    using assms(5) by (auto simp: deleteReservation_def Let_def split: if_splits)
  have "os_PodRef (ov_Spec res) \<noteq> []" using assms(2) by (auto simp: parsePodRef_def)
  then show ?thesis
    using assms(1-4) d by (cases p) (simp_all add: OverlappingRange_Reconcile_def stale_reservation_def Let_def)
qed

theorem stale_reservation_deleted_witness:
  "OverlappingRange_Reconcile (null_ctrl\<lparr>k_GetORIP := \<lambda>_ _ w. (Inr orip_ex, w), k_DeleteORIP := \<lambda>_ _ _ w. (Inr (), Suc w)\<rparr>)
     or_reconciler_ex ''kube-system'' ''10.0.0.1'' 0 = (no_requeue, None, 1)"
proof -
  let ?k = "null_ctrl\<lparr>k_GetORIP := \<lambda>_ _ w. (Inr orip_ex, w), k_DeleteORIP := \<lambda>_ _ _ w. (Inr (), Suc w)\<rparr>"
  have p: "parsePodRef (os_PodRef (ov_Spec orip_ex)) = Some (''ns'', ''p1'')" by code_simp
  have "OverlappingRange_Reconcile ?k or_reconciler_ex ''kube-system'' ''10.0.0.1'' 0
      = (no_requeue, None, c_Eventf ?k ''OrphanedReservationDeleted'' (Suc 0))"
    by (rule stale_reservation_deleted [OF _ p, where p = "Inl (ApiErr NotFound)" and ?w1.0 = 0 and ?w2.0 = 0])
      (simp_all add: null_ctrl_def)
  then show ?thesis by (simp add: null_ctrl_def)
qed

end
