(* ===== verification/Operator.thy ===== *)
theory Operator
  imports OverlappingRangeController
begin

text \<open>
  The operator's options: \<^verbatim>\<open>parseServiceCIDRs\<close> of \<^verbatim>\<open>cmd/operator/controller.go\<close> and the
  reconcilers that \<^verbatim>\<open>internal/controller\<close> builds from them. Flags, the manager, health checks and
  the rotation of certificates, all calls of libraries, are left out.
\<close>

section \<open>Definitions\<close>

fun service_parts :: "string list \<Rightarrow> string list result" where
  "service_parts [] = Inr []"
| "service_parts (part # parts) =
     (let cidr = TrimSpace part
      in if cidr = [] then service_parts parts
         else case ParseCIDR cidr of
                Inl e \<Rightarrow> Inl (Wrap ''invalid CIDR'' e)
              | Inr _ \<Rightarrow> (case service_parts parts of Inl e \<Rightarrow> Inl e | Inr rest \<Rightarrow> Inr (cidr # rest)))"

definition parseServiceCIDRs :: "string \<Rightarrow> string list result" where
  "parseServiceCIDRs s = (if s = [] then Inr [] else service_parts (split_on (CHR '','') s))"

record ReconcilerOptions =
  CleanupTerminating :: bool
  CleanupDisrupted :: bool
  VerifyNetworkStatus :: bool
  ServiceCIDRs :: "string list"

definition newIPPoolReconciler :: "int \<Rightarrow> ReconcilerOptions \<Rightarrow> IPPoolReconciler" where
  "newIPPoolReconciler reconcileInterval opts =
     \<lparr> rp_reconcileInterval = reconcileInterval, rp_serviceCIDRs = ServiceCIDRs opts, rp_cleanupTerminating = CleanupTerminating opts,
       rp_cleanupDisrupted = CleanupDisrupted opts, rp_verifyNetworkStatus = VerifyNetworkStatus opts \<rparr>"

definition newOverlappingRangeReconciler :: "int \<Rightarrow> ReconcilerOptions \<Rightarrow> OverlappingRangeReconciler" where
  "newOverlappingRangeReconciler reconcileInterval opts =
     \<lparr> ro_reconcileInterval = reconcileInterval, ro_cleanupTerminating = CleanupTerminating opts, ro_cleanupDisrupted = CleanupDisrupted opts \<rparr>"

section \<open>Overlaps with service networks\<close>

lemma service_parts_spec:
  "service_parts parts = Inr cidrs \<Longrightarrow> cidrs = filter (\<lambda>c. c \<noteq> []) (map TrimSpace parts)"
  by (induction parts arbitrary: cidrs) (auto simp: Let_def split: if_splits sum.splits prod.splits)

lemma service_parts_valid: "service_parts parts = Inr cidrs \<Longrightarrow> c \<in> set cidrs \<Longrightarrow> \<exists>x. ParseCIDR c = Inr x"
  by (induction parts arbitrary: cidrs) (auto simp: Let_def split: if_splits sum.splits prod.splits)

definition shares_address :: "string \<Rightarrow> string \<Rightarrow> bool" where
  "shares_address a b \<longleftrightarrow> (\<exists>p q x. ParsePrefix a = Inr p \<and> ParsePrefix b = Inr q \<and> pfx_contains p x \<and> pfx_contains q x)"

definition prefix_ok :: "string \<Rightarrow> bool" where
  "prefix_ok s \<longleftrightarrow> (case ParsePrefix s of Inl _ \<Rightarrow> False | Inr p \<Rightarrow> pfx_valid p \<and> pfx_addr p \<noteq> AddrZero)"

lemma CIDRsOverlap_iff: "prefix_ok a \<Longrightarrow> prefix_ok b \<Longrightarrow> CIDRsOverlap a b = Inr (shares_address a b)"
  by (auto simp: CIDRsOverlap_def shares_address_def prefix_ok_def Overlaps_iff split: sum.splits)

lemma CIDROverlapsAny_iff:
  assumes "prefix_ok a" "\<forall>c\<in>set cs. prefix_ok c"
  shows "\<exists>c. CIDROverlapsAny a cs = Inr (c, \<exists>c\<in>set cs. shares_address a c)"
  using assms by (induction cs) (auto simp: CIDRsOverlap_iff)

text \<open>
  C39: with \<^verbatim>\<open>--service-cidr\<close> set to readable networks, the reconciler marks a pool exactly if its
  range has an address in common with one of them, wherever in the list it stands.
\<close>

theorem service_overlap_marked:
  assumes "parseServiceCIDRs flag = Inr cidrs" "ServiceCIDRs opts = cidrs" "\<forall>c\<in>set cidrs. prefix_ok c"
    and "prefix_ok (ps_Range (ip_Spec pool))" "TrimSpace (ps_Range (ip_Spec pool)) \<noteq> []"
    and "recordServiceCIDROverlap k (newIPPoolReconciler interval opts) pool w = ((changed, pool'), w')"
  shows "serviceCIDROverlapAnnotation \<in> fst ` set (om_Annotations (ip_Meta pool'))
    \<longleftrightarrow> (\<exists>c\<in>set (filter (\<lambda>c. c \<noteq> []) (map TrimSpace (split_on (CHR '','') flag))). shares_address (ps_Range (ip_Spec pool)) c)"
proof -
  let ?r = "ps_Range (ip_Spec pool)"
  have cs: "cidrs = filter (\<lambda>c. c \<noteq> []) (map TrimSpace (split_on (CHR '','') flag))"
    using assms(1) service_parts_spec by (auto simp: parseServiceCIDRs_def TrimSpace_def trim_by_def split: if_splits)
  obtain c where c: "CIDROverlapsAny ?r cidrs = Inr (c, \<exists>c\<in>set cidrs. shares_address ?r c)"
    using CIDROverlapsAny_iff [OF assms(4,3)] by blast
  have clear: "serviceCIDROverlapAnnotation \<notin> fst ` set (om_Annotations (ip_Meta (snd (clearServiceCIDROverlapAnnotation pool))))"
    by (auto simp: clearServiceCIDROverlapAnnotation_def Let_def set_annotations_def map_of_eq_None_iff)
  have key: "map_of m k \<noteq> None \<longleftrightarrow> k \<in> fst ` set m" for k :: string and m :: "(string \<times> string) list"
    by (simp add: map_of_eq_None_iff)
  have "serviceCIDROverlapAnnotation \<in> fst ` set (om_Annotations (ip_Meta pool')) \<longleftrightarrow> (\<exists>c\<in>set cidrs. shares_address ?r c)"
  proof (cases "\<exists>c\<in>set cidrs. shares_address ?r c")
    case True
    then have ne: "cidrs \<noteq> []" by auto
    then show ?thesis
      using assms(2,5,6) c True key [of "om_Annotations (ip_Meta pool)" serviceCIDROverlapAnnotation]
      by (auto simp: recordServiceCIDROverlap_def newIPPoolReconciler_def Let_def set_annotations_def map_put_keys split: if_splits)
  next
    case False
    then have "(changed, pool') = clearServiceCIDROverlapAnnotation pool"
      using assms(2,5,6) c by (auto simp: recordServiceCIDROverlap_def newIPPoolReconciler_def split: if_splits)
    then show ?thesis using clear False by (metis snd_conv)
  qed
  then show ?thesis unfolding cs .
qed

definition options_ex :: ReconcilerOptions where
  "options_ex = \<lparr> CleanupTerminating = False, CleanupDisrupted = True, VerifyNetworkStatus = True,
     ServiceCIDRs = [''10.96.0.0/12'', ''10.0.0.0/8''] \<rparr>"

theorem service_overlap_marked_witness:
  "serviceCIDROverlapAnnotation \<in> fst ` set (om_Annotations (ip_Meta (snd (fst
     (recordServiceCIDROverlap one_pod (newIPPoolReconciler 30 options_ex) (pool_with []) 0)))))"
proof -
  have p: "parseServiceCIDRs ''10.96.0.0/12, 10.0.0.0/8'' = Inr [''10.96.0.0/12'', ''10.0.0.0/8'']"
    "list_all prefix_ok [''10.96.0.0/12'', ''10.0.0.0/8'']" "prefix_ok (ps_Range (ip_Spec (pool_with [])))"
    "TrimSpace (ps_Range (ip_Spec (pool_with []))) \<noteq> []"
    "filter (\<lambda>c. c \<noteq> []) (map TrimSpace (split_on (CHR '','') ''10.96.0.0/12, 10.0.0.0/8'')) = [''10.96.0.0/12'', ''10.0.0.0/8'']"
    "CIDRsOverlap (ps_Range (ip_Spec (pool_with []))) ''10.0.0.0/8'' = Inr True" by code_simp+
  have o: "ServiceCIDRs options_ex = [''10.96.0.0/12'', ''10.0.0.0/8'']" by (simp add: options_ex_def)
  have all: "\<forall>c\<in>set [''10.96.0.0/12'', ''10.0.0.0/8'']. prefix_ok c" using p(2) by (simp add: list_all_iff)
  obtain ch pool' w' where r: "recordServiceCIDROverlap one_pod (newIPPoolReconciler 30 options_ex) (pool_with []) 0 = ((ch, pool'), w')"
    by (metis prod.collapse)
  have "shares_address (ps_Range (ip_Spec (pool_with []))) ''10.0.0.0/8''"
    using CIDRsOverlap_iff [OF p(3), of "''10.0.0.0/8''"] all p(6) by simp
  then show ?thesis using service_overlap_marked [OF p(1) o all p(3,4) r] unfolding p(5) r by simp
qed

text \<open>
  A prefix length with a leading zero passes the check of the flag and is then refused by the
  test for overlaps, which ends at the first error: no pool is ever marked.
\<close>

theorem leading_zero_disables_check:
  "parseServiceCIDRs ''10.96.0.0/012,10.0.0.0/8'' = Inr [''10.96.0.0/012'', ''10.0.0.0/8'']
   \<and> (\<exists>e. CIDROverlapsAny ''10.0.0.0/24'' [''10.96.0.0/012'', ''10.0.0.0/8''] = Inl e)"
proof -
  have "isl (CIDROverlapsAny ''10.0.0.0/24'' [''10.96.0.0/012'', ''10.0.0.0/8''])" by code_simp
  then have "\<exists>e. CIDROverlapsAny ''10.0.0.0/24'' [''10.96.0.0/012'', ''10.0.0.0/8''] = Inl e" by (simp add: isl_def)
  moreover have "parseServiceCIDRs ''10.96.0.0/012,10.0.0.0/8'' = Inr [''10.96.0.0/012'', ''10.0.0.0/8'']" by code_simp
  ultimately show ?thesis by blast
qed

end
