(* ===== verification/Watch.thy ===== *)
theory Watch
  imports Operator NodeSlice
begin

text \<open>
  \<^verbatim>\<open>internal/controller/setup.go\<close> and the \<^verbatim>\<open>Setup...Reconciler\<close> functions: which watch events reach
  the work queue of a controller, and what becomes of a request after \<^verbatim>\<open>Reconcile\<close>. The predicates
  and the handling of a result are those of the vendored controller-runtime. The informer's
  cache, from which the reconcilers read, lags behind the API; it receives the states of an object
  one by one in the order in which they were stored.
\<close>

section \<open>Definitions\<close>

subsection \<open>Events and predicates\<close>

datatype 'o event = CreateEvent 'o | UpdateEvent "'o option" "'o option" | DeleteEvent 'o | GenericEvent 'o

record 'o Funcs =
  CreateFunc :: "'o \<Rightarrow> bool"
  DeleteFunc :: "'o \<Rightarrow> bool"
  UpdateFunc :: "'o option \<Rightarrow> 'o option \<Rightarrow> bool"
  GenericFunc :: "'o \<Rightarrow> bool"

text \<open>A function that is not set accepts.\<close>

definition no_funcs :: "'o Funcs" where
  "no_funcs = \<lparr> CreateFunc = (\<lambda>_. True), DeleteFunc = (\<lambda>_. True), UpdateFunc = (\<lambda>_ _. True), GenericFunc = (\<lambda>_. True) \<rparr>"

definition GenerationChangedPredicate :: "('o \<Rightarrow> ObjectMeta) \<Rightarrow> 'o Funcs" where
  "GenerationChangedPredicate meta = no_funcs\<lparr>UpdateFunc := \<lambda>objectOld objectNew. (case (objectOld, objectNew) of
     (Some old, Some new) \<Rightarrow> om_Generation (meta new) \<noteq> om_Generation (meta old)
   | _ \<Rightarrow> False)\<rparr>"

definition deletionPredicate :: "('o \<Rightarrow> ObjectMeta) \<Rightarrow> 'o Funcs" where
  "deletionPredicate meta =
     \<lparr> CreateFunc = (\<lambda>_. False), DeleteFunc = (\<lambda>_. True),
       UpdateFunc = (\<lambda>_ objectNew. (case objectNew of None \<Rightarrow> False | Some new \<Rightarrow> om_DeletionTimestamp (meta new) \<noteq> None)),
       GenericFunc = (\<lambda>_. False) \<rparr>"

definition predicate_Or :: "'o Funcs \<Rightarrow> 'o Funcs \<Rightarrow> 'o Funcs" where
  "predicate_Or p q = \<lparr> CreateFunc = (\<lambda>x. CreateFunc p x \<or> CreateFunc q x), DeleteFunc = (\<lambda>x. DeleteFunc p x \<or> DeleteFunc q x),
     UpdateFunc = (\<lambda>x y. UpdateFunc p x y \<or> UpdateFunc q x y), GenericFunc = (\<lambda>x. GenericFunc p x \<or> GenericFunc q x) \<rparr>"

fun accepts :: "'o Funcs \<Rightarrow> 'o event \<Rightarrow> bool" where
  "accepts p (CreateEvent x) = CreateFunc p x"
| "accepts p (UpdateEvent x y) = UpdateFunc p x y"
| "accepts p (DeleteEvent x) = DeleteFunc p x"
| "accepts p (GenericEvent x) = GenericFunc p x"

subsection \<open>Registration\<close>

type_synonym request = "string \<times> string"

text \<open>A controller: its name, the filter of its events, its workers and what they call for a request.\<close>

record ('o, 'w) registration =
  rg_Name :: string
  rg_Filter :: "'o Funcs"
  rg_MaxConcurrentReconciles :: nat
  rg_Reconcile :: "request \<Rightarrow> 'w \<Rightarrow> Result \<times> err option \<times> 'w"

text \<open>The manager's part is a parameter: whether it accepts a controller of this name.\<close>

type_synonym manager = "string \<Rightarrow> err option"

definition Complete :: "manager \<Rightarrow> ('o, 'w) registration \<Rightarrow> ('o, 'w) registration result" where
  "Complete mgr c = (case mgr (rg_Name c) of Some e \<Rightarrow> Inl e | None \<Rightarrow> Inr c)"

definition SetupIPPoolReconciler ::
  "('w, 'x) ctrl_scheme \<Rightarrow> manager \<Rightarrow> int \<Rightarrow> ReconcilerOptions \<Rightarrow> (IPPool, 'w) registration result" where
  "SetupIPPoolReconciler k mgr reconcileInterval opts =
     (let r = newIPPoolReconciler reconcileInterval opts
      in Complete mgr
           \<lparr> rg_Name = ''ippool'', rg_Filter = predicate_Or (GenerationChangedPredicate ip_Meta) (deletionPredicate ip_Meta),
             rg_MaxConcurrentReconciles = 1, rg_Reconcile = (\<lambda>(namespace, name). Reconcile k r namespace name) \<rparr>)"

definition SetupOverlappingRangeReconciler ::
  "('w, 'x) ctrl_scheme \<Rightarrow> manager \<Rightarrow> int \<Rightarrow> ReconcilerOptions \<Rightarrow> (OverlappingRangeIPReservation, 'w) registration result" where
  "SetupOverlappingRangeReconciler k mgr reconcileInterval opts =
     (let r = newOverlappingRangeReconciler reconcileInterval opts
      in Complete mgr
           \<lparr> rg_Name = ''overlappingrange'', rg_Filter = GenerationChangedPredicate ov_Meta,
             rg_MaxConcurrentReconciles = 1, rg_Reconcile = (\<lambda>(namespace, name). OverlappingRange_Reconcile k r namespace name) \<rparr>)"

definition SetupNodeSliceReconciler ::
  "('w, 'x) ctrl_scheme \<Rightarrow> manager \<Rightarrow> (NetworkAttachmentDefinition, 'w) registration result" where
  "SetupNodeSliceReconciler k mgr =
     Complete mgr
       \<lparr> rg_Name = ''nodeslice'', rg_Filter = no_funcs,
         rg_MaxConcurrentReconciles = 1, rg_Reconcile = (\<lambda>(namespace, name). NodeSlice_Reconcile k namespace name) \<rparr>"

text \<open>
  The two raw sources of the node slice controller: an event of a node asks for every network
  attachment definition, unless it is an update; an event of a slice pool asks for nothing.
\<close>

definition node_predicate :: "'n Funcs" where
  "node_predicate = no_funcs\<lparr>UpdateFunc := \<lambda>_ _. False\<rparr>"

definition node_requests :: "('w, 'x) ctrl_scheme \<Rightarrow> 'n event \<Rightarrow> 'w \<Rightarrow> request list \<times> 'w" where
  "node_requests k ev w = (if accepts node_predicate ev then mapNodeToNADs k w else ([], w))"

definition slice_pool_predicate :: "NodeSlicePool Funcs" where
  "slice_pool_predicate = no_funcs\<lparr>DeleteFunc := \<lambda>_. False\<rparr>"

definition slice_pool_requests :: "NodeSlicePool event \<Rightarrow> request list" where
  "slice_pool_requests ev = []"

definition SetupWithManager ::
  "('w, 'x) ctrl_scheme \<Rightarrow> manager \<Rightarrow> int \<Rightarrow> ReconcilerOptions
   \<Rightarrow> ((IPPool, 'w) registration \<times> (NetworkAttachmentDefinition, 'w) registration \<times> (OverlappingRangeIPReservation, 'w) registration) result" where
  "SetupWithManager k mgr reconcileInterval opts = (case SetupIPPoolReconciler k mgr reconcileInterval opts of
     Inl e \<Rightarrow> Inl e
   | Inr pools \<Rightarrow> (case SetupNodeSliceReconciler k mgr of
       Inl e \<Rightarrow> Inl e
     | Inr slices \<Rightarrow> (case SetupOverlappingRangeReconciler k mgr reconcileInterval opts of
         Inl e \<Rightarrow> Inl e
       | Inr reservations \<Rightarrow> Inr (pools, slices, reservations))))"

subsection \<open>The work queue\<close>

text \<open>What \<^verbatim>\<open>reconcileHandler\<close> does with the request; no reconciler returns a terminal error.\<close>

datatype queue_action = AddRateLimited | AddAfter int | Forget

definition reconcileHandler :: "Result \<Rightarrow> err option \<Rightarrow> queue_action" where
  "reconcileHandler result error =
     (if error \<noteq> None then AddRateLimited
      else if re_RequeueAfter result > 0 then AddAfter (re_RequeueAfter result)
      else if re_Requeue result then AddRateLimited
      else Forget)"

text \<open>
  The informer's cache, the stored states it has not received yet, the last being the current one, and
  the requests in the queue, be they ready, delayed or limited in their rate.
\<close>

record 'o watch_state =
  ws_cache :: "request \<Rightarrow> 'o option"
  ws_pending :: "request \<Rightarrow> 'o option list"
  ws_queue :: "request set"

definition states :: "'o watch_state \<Rightarrow> request \<Rightarrow> 'o option list" where
  "states s key = ws_cache s key # ws_pending s key"

definition stored :: "'o watch_state \<Rightarrow> request \<Rightarrow> 'o option" where
  "stored s key = last (states s key)"

fun event_of :: "'o option \<Rightarrow> 'o option \<Rightarrow> 'o event option" where
  "event_of None None = None"
| "event_of None (Some new) = Some (CreateEvent new)"
| "event_of (Some old) (Some new) = Some (UpdateEvent (Some old) (Some new))"
| "event_of (Some old) None = Some (DeleteEvent old)"

text \<open>The cache takes the next state, and the event asks for the object if the filter accepts it.\<close>

definition deliver :: "'o Funcs \<Rightarrow> request \<Rightarrow> 'o watch_state \<Rightarrow> 'o watch_state" where
  "deliver p key s = (case ws_pending s key of
     [] \<Rightarrow> s
   | new # rest \<Rightarrow>
       s\<lparr>ws_cache := (ws_cache s)(key := new), ws_pending := (ws_pending s)(key := rest),
         ws_queue := (case event_of (ws_cache s key) new of
            Some ev \<Rightarrow> if accepts p ev then insert key (ws_queue s) else ws_queue s
          | None \<Rightarrow> ws_queue s)\<rparr>)"

definition put_state :: "request \<Rightarrow> 'o option \<Rightarrow> 'o watch_state \<Rightarrow> 'o watch_state" where
  "put_state key new s = s\<lparr>ws_pending := (ws_pending s)(key := ws_pending s key @ [new])\<rparr>"

definition enqueue :: "request \<Rightarrow> 'o watch_state \<Rightarrow> 'o watch_state" where
  "enqueue key s = s\<lparr>ws_queue := insert key (ws_queue s)\<rparr>"

definition take_request :: "request \<Rightarrow> 'o watch_state \<Rightarrow> 'o watch_state" where
  "take_request key s = s\<lparr>ws_queue := ws_queue s - {key}\<rparr>"

text \<open>How one stored state may follow another: \<open>allowed\<close> relates two states of one object.\<close>

fun may_follow :: "('o \<Rightarrow> 'o \<Rightarrow> bool) \<Rightarrow> 'o option \<Rightarrow> 'o option \<Rightarrow> bool" where
  "may_follow allowed (Some old) (Some new) = allowed old new"
| "may_follow allowed None None = False"
| "may_follow allowed _ _ = True"

inductive watch :: "'o Funcs \<Rightarrow> ('o \<Rightarrow> 'o \<Rightarrow> bool) \<Rightarrow> 'o watch_state \<Rightarrow> 'o watch_state \<Rightarrow> bool" for p allowed where
  written: "may_follow allowed (stored s key) new \<Longrightarrow> watch p allowed s (put_state key new s)"
| delivered: "ws_pending s key \<noteq> [] \<Longrightarrow> watch p allowed s (deliver p key s)"

text \<open>
  A worker between the other steps: it takes a request, runs \<^verbatim>\<open>Reconcile\<close>, during which the watch goes
  on, and puts the request back unless it is to be forgotten.
\<close>

inductive worker ::
  "('o, 'w) registration \<Rightarrow> ('o \<Rightarrow> 'o \<Rightarrow> bool) \<Rightarrow> ('w \<Rightarrow> 'o watch_state) \<Rightarrow> 'w \<Rightarrow> 'w \<Rightarrow> bool" for c allowed view where
  idle: "watch (rg_Filter c) allowed (view w) (view w') \<Longrightarrow> worker c allowed view w w'"
| work: "key \<in> ws_queue (view w) \<Longrightarrow> view w1 = take_request key (view w) \<Longrightarrow> rg_Reconcile c key w1 = (res, e, w2)
    \<Longrightarrow> view w' = (if reconcileHandler res e = Forget then view w2 else enqueue key (view w2)) \<Longrightarrow> worker c allowed view w w'"

section \<open>Requests are not lost\<close>

text \<open>
  A state that needs no further work is stored, or is still to be received by the cache: then the
  event that ends it asks for the object again.
\<close>

definition settled :: "('o \<Rightarrow> bool) \<Rightarrow> 'o option list \<Rightarrow> bool" where
  "settled needs xs = list_ex (\<lambda>x. case x of None \<Rightarrow> True | Some obj \<Rightarrow> \<not> needs obj) xs"

definition cared_for :: "('o \<Rightarrow> bool) \<Rightarrow> request \<Rightarrow> 'o watch_state \<Rightarrow> bool" where
  "cared_for needs key s \<longleftrightarrow> key \<in> ws_queue s \<or> settled needs (states s key)"

definition ordered :: "('o \<Rightarrow> 'o \<Rightarrow> bool) \<Rightarrow> 'o watch_state \<Rightarrow> bool" where
  "ordered allowed s \<longleftrightarrow> (\<forall>key. successively (may_follow allowed) (states s key))"

lemma states_put: "states (put_state key new s) key' = states s key' @ (if key' = key then [new] else [])"
  by (simp add: states_def put_state_def)

lemma states_deliver: "ws_pending s key \<noteq> [] \<Longrightarrow> states (deliver p key s) key' = (if key' = key then tl (states s key') else states s key')"
  by (auto simp: states_def deliver_def split: list.splits)

lemma deliver_last: "ws_pending s key = [new] \<Longrightarrow> ws_pending (deliver p key s) key = [] \<and> stored (deliver p key s) key = new"
  by (simp add: deliver_def stored_def states_def)

lemma queue_put [simp]: "ws_queue (put_state key new s) = ws_queue s"
  by (simp add: put_state_def)

lemma queue_deliver: "key' \<in> ws_queue s \<Longrightarrow> key' \<in> ws_queue (deliver p key s)"
  by (auto simp: deliver_def split: list.splits option.splits)

lemma queue_others [simp]:
  "states (enqueue key s) key' = states s key'" "states (take_request key s) key' = states s key'"
  "ws_queue (enqueue key s) = insert key (ws_queue s)" "ws_queue (take_request key s) = ws_queue s - {key}"
  by (simp_all add: enqueue_def take_request_def states_def)

lemma successively_tl: "successively P xs \<Longrightarrow> successively P (tl xs)"
  by (induction P xs rule: successively.induct) auto

lemma ordered_watch: "watch p allowed s s' \<Longrightarrow> ordered allowed s \<Longrightarrow> ordered allowed s'"
proof (induction rule: watch.induct)
  case (written s key new)
  have "states s key \<noteq> []" by (simp add: states_def)
  then show ?case using written unfolding ordered_def states_put stored_def by (simp add: successively_append_iff split: if_split)
next
  case (delivered s key)
  have "successively (may_follow allowed) (tl (states s key'))" for key'
    using delivered(2) successively_tl unfolding ordered_def by blast
  then show ?case using delivered by (simp add: ordered_def states_deliver)
qed

lemma ordered_run: "(watch p allowed)\<^sup>*\<^sup>* s s' \<Longrightarrow> ordered allowed s \<Longrightarrow> ordered allowed s'"
  by (induction rule: rtranclp_induct) (auto intro: ordered_watch)

text \<open>A filter is good for a kind of work if it accepts new objects and those that come to need work.\<close>

locale watched =
  fixes p :: "'o Funcs" and needs :: "'o \<Rightarrow> bool" and allowed :: "'o \<Rightarrow> 'o \<Rightarrow> bool"
  assumes created: "CreateFunc p new"
    and woken: "allowed old new \<Longrightarrow> \<not> needs old \<Longrightarrow> needs new \<Longrightarrow> UpdateFunc p (Some old) (Some new)"
begin

lemma cared_deliver:
  assumes "cared_for needs key' s" "ordered allowed s" "ws_pending s key \<noteq> []"
  shows "cared_for needs key' (deliver p key s)"
proof (cases "key' \<in> ws_queue s \<or> key' \<noteq> key")
  case True
  then show ?thesis using assms(1,3) queue_deliver [of key' s p key] by (auto simp: cared_for_def states_deliver)
next
  case False
  then have k: "key' = key" "settled needs (states s key)" using assms(1) by (auto simp: cared_for_def)
  obtain new rest where pend: "ws_pending s key = new # rest" using assms(3) by (cases "ws_pending s key") auto
  have f: "may_follow allowed (ws_cache s key) new"
    using assms(2) unfolding ordered_def states_def by (metis pend successively.simps(3))
  have st: "states (deliver p key s) key = new # rest" using states_deliver [OF assms(3)] by (simp add: states_def pend)
  have q: "event_of (ws_cache s key) new = Some ev \<Longrightarrow> accepts p ev \<Longrightarrow> key \<in> ws_queue (deliver p key s)" for ev
    by (simp add: deliver_def pend)
  show ?thesis
  proof (cases "settled needs (new # rest)")
    case True
    then show ?thesis by (simp add: cared_for_def k(1) st)
  next
    case no: False
    then obtain n where n: "new = Some n" "needs n" by (cases new) (auto simp: settled_def)
    have "(\<exists>old. ws_cache s key = Some old \<and> \<not> needs old) \<or> ws_cache s key = None"
      using k(2) no by (auto simp: settled_def states_def pend split: option.splits)
    then have "\<exists>ev. event_of (ws_cache s key) new = Some ev \<and> accepts p ev"
      using f n created woken by auto
    then show ?thesis using q by (auto simp: cared_for_def k(1))
  qed
qed

lemma cared_watch: "watch p allowed s s' \<Longrightarrow> ordered allowed s \<Longrightarrow> cared_for needs key s \<Longrightarrow> cared_for needs key s'"
  by (induction rule: watch.induct) (auto simp: cared_deliver, auto simp: cared_for_def states_put settled_def)

lemma cared_run: "(watch p allowed)\<^sup>*\<^sup>* s s' \<Longrightarrow> ordered allowed s \<Longrightarrow> cared_for needs key s \<Longrightarrow> cared_for needs key s'"
  by (induction rule: rtranclp_induct) (auto intro: cared_watch dest: ordered_run)

text \<open>
  If \<^verbatim>\<open>Reconcile\<close> leaves an object that is cared for whenever its request is forgotten, then
  every object is cared for in every reachable state.
\<close>

lemma cared_always:
  assumes run: "\<And>key w res e w'. ordered allowed (view w) \<Longrightarrow> rg_Reconcile c key w = (res, e, w')
      \<Longrightarrow> (watch p allowed)\<^sup>*\<^sup>* (view w) (view w') \<and> (reconcileHandler res e = Forget \<longrightarrow> cared_for needs key (view w'))"
    and "rg_Filter c = p" "(worker c allowed view)\<^sup>*\<^sup>* w w'" "ordered allowed (view w)" "\<And>key. cared_for needs key (view w)"
  shows "ordered allowed (view w') \<and> cared_for needs key (view w')"
  using assms(3)
proof (induction arbitrary: key rule: rtranclp_induct)
  case (step y z)
  have o: "ordered allowed (view y)" and y: "\<And>key. cared_for needs key (view y)" using step.IH by auto
  from step.hyps(2) show ?case
  proof cases
    case idle
    then show ?thesis using ordered_watch [OF _ o] cared_watch [OF _ o y] assms(2) by blast
  next
    case (work key1 w1 res e w2)
    have o1: "ordered allowed (view w1)" using o unfolding work(2) by (simp add: ordered_def)
    note r = run [OF o1 work(3)]
    have o2: "ordered allowed (view w2)" using ordered_run [OF conjunct1 [OF r] o1] .
    have c1: "key \<noteq> key1 \<Longrightarrow> cared_for needs key (view w1)" using y unfolding work(2) by (auto simp: cared_for_def)
    have "key \<noteq> key1 \<Longrightarrow> cared_for needs key (view w2)" using cared_run [OF conjunct1 [OF r] o1 c1] by simp
    moreover have "ordered allowed (view z)" using o2 work(4) by (auto simp: ordered_def)
    ultimately show ?thesis using r work(4) by (cases "key = key1") (auto simp: cared_for_def split: if_splits)
  qed
qed (use assms(4,5) in blast)

end


section \<open>The calls of a reconciler\<close>

lemma handler_simps [simp]:
  "reconcileHandler res (Some e) \<noteq> Forget" "reconcileHandler (requeue_after d) None = Forget \<longleftrightarrow> d \<le> 0"
  "reconcileHandler \<lparr> re_Requeue = True, re_RequeueAfter = n \<rparr> None \<noteq> Forget" "reconcileHandler no_requeue None = Forget"
  by (simp_all add: reconcileHandler_def requeue_after_def no_requeue_def)

lemma finish_requeues:
  assumes "finish_pool k before pool a b res w = (res', e, w')" "reconcileHandler res None \<noteq> Forget"
  shows "reconcileHandler res' e \<noteq> Forget"
  using assms unfolding finish_pool_def by (auto split: prod.splits option.splits if_splits)

text \<open>As \<open>api_reads\<close> for the plugin: the worlds a reconciler passes through, in any order its calls keep.\<close>

locale ctrl_order =
  fixes k :: "('w, 'x) ctrl_scheme" and R :: "'w \<Rightarrow> 'w \<Rightarrow> bool"
  assumes c_refl: "R w w"
    and c_trans: "R w w1 \<Longrightarrow> R w1 w2 \<Longrightarrow> R w w2"
    and c_GetIPPool: "k_GetIPPool k ns name w = (a, w') \<Longrightarrow> R w w'"
    and c_GetORIP: "k_GetORIP k ns name w = (b, w') \<Longrightarrow> R w w'"
    and c_DeleteORIP: "k_DeleteORIP k ns name uid w = (u, w') \<Longrightarrow> R w w'"
    and c_ListORIPs: "k_ListORIPs k ns w = (l, w') \<Longrightarrow> R w w'"
    and c_GetPod: "k_GetPod k ns name w = (d, w') \<Longrightarrow> R w w'"
    and c_Eventf: "R w (c_Eventf k reason w)"
    and c_UpdateIPPool: "c_UpdateIPPool k pool w = (a, w') \<Longrightarrow> R w w'"
    and c_PatchIPPool: "c_PatchIPPool k pool patch w = (a, w') \<Longrightarrow> R w w'"
    and c_StatusIPPool: "c_StatusIPPool k pool w = (a, w') \<Longrightarrow> R w w'"
    and c_PatchORIP: "c_PatchORIP k res patch' w = (b, w') \<Longrightarrow> R w w'"
    and c_StatusORIP: "c_StatusORIP k res w = (b, w') \<Longrightarrow> R w w'"
begin

lemma c_Patch:
  assumes "Patch oc before obj w = (e, obj', w')"
    and "\<And>a b w x w'. oc_Patch oc a b w = (x, w') \<Longrightarrow> R w w'" "\<And>a w x w'. oc_StatusUpdate oc a w = (x, w') \<Longrightarrow> R w w'"
  shows "R w w'"
  using assms(1) unfolding Patch_def patch_main_def update_status_def Let_def
  by (auto split: if_splits prod.splits sum.splits option.splits dest!: assms(2,3) intro: c_trans c_refl)

lemma c_patch_pool: "Patch (ippool_client k) before pool w = (e, pool', w') \<Longrightarrow> R w w'"
  by (erule c_Patch) (auto simp: ippool_client_def dest: c_PatchIPPool c_StatusIPPool)

lemma c_patch_orip: "Patch (orip_client k) before res w = (e, res', w') \<Longrightarrow> R w w'"
  by (erule c_Patch) (auto simp: orip_client_def dest: c_PatchORIP c_StatusORIP)

lemma c_finish_pool: "finish_pool k before pool a b res w = (res', e, w') \<Longrightarrow> R w w'"
  unfolding finish_pool_def by (auto split: prod.splits option.splits if_splits dest!: c_patch_pool)

lemma c_cleanup_one: "cleanup_one k ns ip alloc res w = (e, w') \<Longrightarrow> R w w'"
  unfolding cleanup_one_def Let_def
  by (auto split: if_splits prod.splits sum.splits dest!: c_GetORIP c_DeleteORIP intro: c_trans c_refl)

lemma c_cleanup_items: "cleanup_items k ns ip alloc items l w = (e, w') \<Longrightarrow> R w w'"
  by (induction items arbitrary: l w) (auto intro: c_refl c_trans split: prod.splits option.splits dest!: c_cleanup_one)

lemma c_cleanup_keys: "cleanup_keys k pool items allocs l w = (e, w') \<Longrightarrow> R w w'"
proof (induction allocs arbitrary: l w)
  case (Cons ka allocs)
  then show ?case by (cases ka) (auto simp: Let_def intro: c_trans split: prod.splits if_splits dest!: c_cleanup_items)
qed (simp add: c_refl)

lemma c_cleanup: "cleanupOverlappingReservations k pool allocs w = (e, w') \<Longrightarrow> R w w'"
  unfolding cleanupOverlappingReservations_def
  by (auto split: prod.splits sum.splits dest!: c_ListORIPs c_cleanup_keys intro: c_trans)

lemma c_stats: "computePoolStats k pool a b w = (pool', w') \<Longrightarrow> R w w'"
  unfolding computePoolStats_def Let_def by (auto split: prod.splits sum.splits dest!: c_ListORIPs)

lemma c_marker: "recordServiceCIDROverlap k r pool w = (x, w') \<Longrightarrow> R w w'"
  unfolding recordServiceCIDROverlap_def Let_def
  by (auto split: if_splits prod.splits sum.splits intro: c_refl c_Eventf)

lemma c_classify: "classify k r pool key alloc w = (v, w') \<Longrightarrow> R w w'"
  unfolding classify_def Let_def by (auto split: option.splits prod.splits sum.splits dest!: c_GetPod intro: c_refl)

lemma c_collect: "collect k r pool allocs orphaned pending w = (x, w') \<Longrightarrow> R w w'"
proof (induction allocs arbitrary: orphaned pending w)
  case (Cons ka allocs)
  then show ?case by (cases ka) (auto intro: c_trans split: prod.splits sum.splits verdict.splits dest!: c_classify)
qed (simp add: c_refl)

lemma c_checked:
  assumes "reconcile_checked k r before pool m orphaned pending w = (res, e, w')"
  shows "R w w'" "rp_reconcileInterval r > 0 \<Longrightarrow> reconcileHandler res e \<noteq> Forget"
proof -
  let ?p1 = "if orphaned \<noteq> [] then removeAllocations pool (map fst orphaned) else pool"
  obtain failed w1 where c: "(if orphaned \<noteq> [] then cleanupOverlappingReservations k ?p1 orphaned (c_Eventf k ''OrphanedAllocationsCleaned'' w) else (None, w)) = (failed, w1)"
    by fastforce
  obtain p2 w2 where s: "computePoolStats k ?p1 (int32 (int (length orphaned))) pending w1 = (p2, w2)" by fastforce
  have "R w w1" using c by (auto split: if_splits dest!: c_cleanup intro: c_refl c_trans c_Eventf)
  moreover have "R w1 w2" using c_stats [OF s] .
  moreover have "R w1 w' \<or> R w2 w'"
    using assms c s unfolding reconcile_checked_def Let_def
    by (auto split: if_splits dest!: c_finish_pool intro: c_Eventf)
  ultimately show "R w w'" using c_trans by blast
  show "reconcileHandler res e \<noteq> Forget" if "rp_reconcileInterval r > 0"
    using assms that unfolding reconcile_checked_def Let_def
    by (auto split: if_splits prod.splits elim!: finish_requeues simp: retryRequeueInterval_def pendingPodRequeueInterval_def)
qed

text \<open>The ways in which a request for a pool is forgotten, when the interval is positive.\<close>

lemma Reconcile_calls:
  assumes "Reconcile k r ns name w = (res, e, w')" "rp_reconcileInterval r > 0"
  obtains er where "k_GetIPPool k ns name w = (Inl er, w')" "IsNotFound er"
  | pool w1 where "k_GetIPPool k ns name w = (Inr pool, w1)" "R w1 w'" "reconcileHandler res e \<noteq> Forget"
  | er w1 where "k_GetIPPool k ns name w = (Inl er, w1)" "R w1 w'" "reconcileHandler res e \<noteq> Forget"
  | pool where "k_GetIPPool k ns name w = (Inr pool, w')" "om_DeletionTimestamp (ip_Meta pool) \<noteq> None"
      "ippoolFinalizer \<notin> set (om_Finalizers (ip_Meta pool))"
  | pool w1 w2 x where "k_GetIPPool k ns name w = (Inr pool, w1)" "om_DeletionTimestamp (ip_Meta pool) \<noteq> None" "R w1 w2"
      "c_UpdateIPPool k (pool\<lparr>ip_Meta := (ip_Meta pool)\<lparr>om_Finalizers := filter (\<lambda>f. f \<noteq> ippoolFinalizer) (om_Finalizers (ip_Meta pool))\<rparr>\<rparr>) w2 = (Inr x, w')"
proof -
  note ways = that
  obtain got w1 where g: "k_GetIPPool k ns name w = (got, w1)" by fastforce
  show ?thesis
  proof (cases got)
    case (Inl er)
    then show ?thesis using assms g ways(1,3) c_refl by (cases "IsNotFound er") (auto simp: Reconcile_def)
  next
    case (Inr pool)
    note run = assms(1) [unfolded Reconcile_def g Inr, simplified]
    consider (deleting) "om_DeletionTimestamp (ip_Meta pool) \<noteq> None"
      | (new) "om_DeletionTimestamp (ip_Meta pool) = None" "ippoolFinalizer \<notin> set (om_Finalizers (ip_Meta pool))"
      | (active) "om_DeletionTimestamp (ip_Meta pool) = None" "ippoolFinalizer \<in> set (om_Finalizers (ip_Meta pool))" by blast
    then show ?thesis
    proof cases
      case deleting
      show ?thesis
      proof (cases "ippoolFinalizer \<in> set (om_Finalizers (ip_Meta pool))")
        case True
        let ?allocs = "ps_Allocations (ip_Spec pool)"
        obtain failed w2 where c: "(if ?allocs \<noteq> [] then cleanupOverlappingReservations k pool ?allocs w1 else (None, w1)) = (failed, w2)" by fastforce
        have r: "R w1 w2" using c c_cleanup c_refl by (auto split: if_splits)
        let ?pool' = "pool\<lparr>ip_Meta := (ip_Meta pool)\<lparr>om_Finalizers := filter (\<lambda>f. f \<noteq> ippoolFinalizer) (om_Finalizers (ip_Meta pool))\<rparr>\<rparr>"
        obtain upd w3 where u: "c_UpdateIPPool k ?pool' w2 = (upd, w3)" by fastforce
        have "R w1 w3" using c_trans [OF r c_UpdateIPPool [OF u]] .
        moreover have "reconcile_deleting k pool w1 = (if failed \<noteq> None then (requeue_after retryRequeueInterval, None, w2)
          else case upd of Inl e \<Rightarrow> (no_requeue, Some (Wrap ''removing finalizer'' e), w3) | Inr _ \<Rightarrow> (no_requeue, None, w3))"
          using True c u unfolding reconcile_deleting_def Let_def by (simp split: sum.split)
        then have "failed \<noteq> None \<and> res = requeue_after retryRequeueInterval \<and> e = None \<and> w' = w2
            \<or> (\<exists>er. e = Some er) \<and> w' = w3 \<or> (\<exists>x. upd = Inr x) \<and> w' = w3"
          using run deleting by (auto split: if_splits sum.splits)
        ultimately show ?thesis
          using ways(2) [OF g [unfolded Inr]] ways(5) [OF g [unfolded Inr] deleting r] u r by (auto simp: retryRequeueInterval_def)
      next
        case False
        then show ?thesis using run deleting g Inr ways(4) by (auto simp: reconcile_deleting_def)
      qed
    next
      case new
      then have "R w1 w' \<and> reconcileHandler res e \<noteq> Forget"
        using run by (auto split: prod.splits sum.splits dest!: c_UpdateIPPool)
      then show ?thesis using ways(2) [OF g [unfolded Inr]] by blast
    next
      case active
      obtain marker pool1 w2 where m: "recordServiceCIDROverlap k r pool w1 = ((marker, pool1), w2)" by (metis surj_pair)
      have "R w2 w'"
        using run active m unfolding Let_def
        by (auto split: prod.splits sum.splits if_splits dest!: c_stats c_collect c_finish_pool c_checked(1) intro: c_trans)
      moreover have "reconcileHandler res e \<noteq> Forget"
        using run active m assms(2) unfolding Let_def
        by (auto split: prod.splits sum.splits if_splits dest: finish_requeues c_checked(2))
      ultimately show ?thesis using ways(2) [OF g [unfolded Inr]] c_trans [OF c_marker [OF m]] by blast
    qed
  qed
qed

lemma c_Reconcile: "Reconcile k r ns name w = (res, e, w') \<Longrightarrow> rp_reconcileInterval r > 0 \<Longrightarrow> R w w'"
  by (erule Reconcile_calls, assumption) (auto dest!: c_GetIPPool c_UpdateIPPool intro: c_trans)

text \<open>The same for a reservation; \<open>deleted\<close> is the deletion that was accepted or found nothing.\<close>

lemma OverlappingRange_calls:
  assumes "OverlappingRange_Reconcile k r ns name w = (res, e, w')" "ro_reconcileInterval r > 0"
  obtains (missing) er where "k_GetORIP k ns name w = (Inl er, w')" "IsNotFound er"
  | (kept) got w1 where "k_GetORIP k ns name w = (got, w1)" "R w1 w'" "reconcileHandler res e \<noteq> Forget"
  | (deleted) reservation w1 w2 w3 uid d where "k_GetORIP k ns name w = (Inr reservation, w1)" "R w1 w2"
      "k_DeleteORIP k (om_Namespace (ov_Meta reservation)) (om_Name (ov_Meta reservation)) uid w2 = (d, w3)"
      "case d of Inl er \<Rightarrow> IsNotFound er | Inr _ \<Rightarrow> True" "R w3 w'"
proof -
  obtain got w1 where g: "k_GetORIP k ns name w = (got, w1)" by fastforce
  note keep = kept [OF g]
  have del: thesis if d: "deleteReservation k reservation w2 = (res, e, w')" and r: "R w1 w2" and got: "got = Inr reservation" for reservation w2
  proof -
    let ?m = "ov_Meta reservation"
    obtain x w3 where x: "k_DeleteORIP k (om_Namespace ?m) (om_Name ?m) (if om_UID ?m \<noteq> [] then Some (om_UID ?m) else None) w2 = (x, w3)" by fastforce
    show thesis
    proof (cases "case x of Inl er \<Rightarrow> IsNotFound er | Inr _ \<Rightarrow> True")
      case True
      have "R w3 w'" using d x unfolding deleteReservation_def Let_def by (auto split: sum.splits intro: c_refl c_Eventf)
      then show thesis by (rule deleted [OF g [unfolded got] r x True])
    next
      case False
      then have "R w1 w' \<and> reconcileHandler res e \<noteq> Forget"
        using d x c_trans [OF r c_DeleteORIP [OF x]] unfolding deleteReservation_def Let_def by (auto split: sum.splits)
      then show thesis using keep by blast
    qed
  qed
  show thesis
  proof (cases got)
    case (Inl er)
    then show ?thesis using assms g missing keep c_refl by (cases "IsNotFound er") (auto simp: OverlappingRange_Reconcile_def)
  next
    case (Inr reservation)
    note run = assms(1) [unfolded OverlappingRange_Reconcile_def g Inr, simplified]
    have ready: "mark_reservation_ready k r reservation w2 = (res, e, w') \<Longrightarrow> R w2 w' \<and> reconcileHandler res e \<noteq> Forget" for w2
      using assms(2) unfolding mark_reservation_ready_def by (auto split: prod.splits option.splits dest!: c_patch_orip)
    consider "os_PodRef (ov_Spec reservation) = []" | "deleteReservation k reservation w1 = (res, e, w')"
      | ns' n x w2 where "k_GetPod k ns' n w1 = (x, w2)" "deleteReservation k reservation w2 = (res, e, w')
          \<or> mark_reservation_ready k r reservation w2 = (res, e, w') \<or> w' = w2 \<and> (\<exists>er. e = Some er)"
      using run by (auto split: if_splits option.splits prod.splits sum.splits)
    then show ?thesis
    proof cases
      case 1
      then show ?thesis using run assms(2) keep c_refl by auto
    next
      case 2
      then show ?thesis using del [OF _ c_refl Inr] by blast
    next
      case 3
      note r = c_GetPod [OF 3(1)]
      from 3(2) show ?thesis using del [OF _ r Inr] ready keep c_trans [OF r] r by (elim disjE) auto
    qed
  qed
qed

lemma c_OverlappingRange: "OverlappingRange_Reconcile k r ns name w = (res, e, w') \<Longrightarrow> ro_reconcileInterval r > 0 \<Longrightarrow> R w w'"
  by (erule OverlappingRange_calls, assumption) (auto dest!: c_GetORIP c_DeleteORIP intro: c_trans)

end

text \<open>The least such order: the worlds reached by calls of the API.\<close>

inductive ctrl_step :: "('w, 'x) ctrl_scheme \<Rightarrow> 'w \<Rightarrow> 'w \<Rightarrow> bool" for k where
  "k_GetIPPool k ns name w = (a, w') \<Longrightarrow> ctrl_step k w w'"
| "k_GetORIP k ns name w = (b, w') \<Longrightarrow> ctrl_step k w w'"
| "k_DeleteORIP k ns name uid w = (u, w') \<Longrightarrow> ctrl_step k w w'"
| "k_ListORIPs k ns w = (l, w') \<Longrightarrow> ctrl_step k w w'"
| "k_GetPod k ns name w = (d, w') \<Longrightarrow> ctrl_step k w w'"
| "ctrl_step k w (c_Eventf k reason w)"
| "c_UpdateIPPool k pool w = (a, w') \<Longrightarrow> ctrl_step k w w'"
| "c_PatchIPPool k pool patch w = (a, w') \<Longrightarrow> ctrl_step k w w'"
| "c_StatusIPPool k pool w = (a, w') \<Longrightarrow> ctrl_step k w w'"
| "c_PatchORIP k res patch' w = (b, w') \<Longrightarrow> ctrl_step k w w'"
| "c_StatusORIP k res w = (b, w') \<Longrightarrow> ctrl_step k w w'"

interpretation calls: ctrl_order k "(ctrl_step k)\<^sup>*\<^sup>*" for k
  by unfold_locales (auto intro: ctrl_step.intros rtranclp_trans)

section \<open>No pool is forgotten\<close>

text \<open>
  The API keeps a deletion timestamp as long as the object exists. A pool needs the controller unless
  it is being deleted and the controller's finalizer is gone.
\<close>

definition keeps_deletion :: "('o \<Rightarrow> ObjectMeta) \<Rightarrow> 'o \<Rightarrow> 'o \<Rightarrow> bool" where
  "keeps_deletion meta old new \<longleftrightarrow> (om_DeletionTimestamp (meta old) \<noteq> None \<longrightarrow> om_DeletionTimestamp (meta new) \<noteq> None)"

definition pool_needs :: "IPPool \<Rightarrow> bool" where
  "pool_needs pool \<longleftrightarrow> om_DeletionTimestamp (ip_Meta pool) = None \<or> ippoolFinalizer \<in> set (om_Finalizers (ip_Meta pool))"

definition reservation_needs :: "OverlappingRangeIPReservation \<Rightarrow> bool" where
  "reservation_needs res \<longleftrightarrow> om_DeletionTimestamp (ov_Meta res) = None"

abbreviation pool_filter :: "IPPool Funcs" where
  "pool_filter \<equiv> predicate_Or (GenerationChangedPredicate ip_Meta) (deletionPredicate ip_Meta)"

abbreviation reservation_filter :: "OverlappingRangeIPReservation Funcs" where
  "reservation_filter \<equiv> GenerationChangedPredicate ov_Meta"

interpretation pools: watched pool_filter pool_needs "keeps_deletion ip_Meta"
  by unfold_locales (auto simp: predicate_Or_def GenerationChangedPredicate_def deletionPredicate_def no_funcs_def keeps_deletion_def pool_needs_def)

interpretation reservations: watched reservation_filter reservation_needs "keeps_deletion ov_Meta"
  by unfold_locales (auto simp: GenerationChangedPredicate_def no_funcs_def keeps_deletion_def reservation_needs_def)

text \<open>
  The API as a controller sees it: calls take time in which the watch goes on, a read answers from the
  cache, an update that is accepted stores the object that was sent or, when it was the last
  finalizer of a deleted object, removes it, and after an accepted deletion the object is gone or
  marked. An update is accepted on the version it was made for only, so that the deletion timestamp
  of the object sent is the stored one.
\<close>

definition sees :: "('w \<Rightarrow> 'o watch_state) \<Rightarrow> 'o Funcs \<Rightarrow> ('o \<Rightarrow> 'o \<Rightarrow> bool) \<Rightarrow> ('o watch_state \<Rightarrow> bool) \<Rightarrow> 'w \<Rightarrow> 'w \<Rightarrow> bool" where
  "sees view p allowed P w w' \<longleftrightarrow> (\<exists>s. (watch p allowed)\<^sup>*\<^sup>* (view w) s \<and> P s \<and> (watch p allowed)\<^sup>*\<^sup>* s (view w'))"

definition pool_service :: "('w, 'x) ctrl_scheme \<Rightarrow> ('w \<Rightarrow> IPPool watch_state) \<Rightarrow> bool" where
  "pool_service k view \<longleftrightarrow>
     (let steps = sees view pool_filter (keeps_deletion ip_Meta)
      in ctrl_order k (steps (\<lambda>_. True))
         \<and> (\<forall>ns name w e w'. k_GetIPPool k ns name w = (Inl e, w') \<and> IsNotFound e \<longrightarrow> steps (\<lambda>s. ws_cache s (ns, name) = None) w w')
         \<and> (\<forall>ns name w pool w'. k_GetIPPool k ns name w = (Inr pool, w')
              \<longrightarrow> om_Namespace (ip_Meta pool) = ns \<and> om_Name (ip_Meta pool) = name \<and> steps (\<lambda>s. ws_cache s (ns, name) = Some pool) w w')
         \<and> (\<forall>pool w x w'. c_UpdateIPPool k pool w = (Inr x, w')
              \<longrightarrow> steps (\<lambda>s. case stored s (om_Namespace (ip_Meta pool), om_Name (ip_Meta pool)) of None \<Rightarrow> True
                    | Some new \<Rightarrow> om_Finalizers (ip_Meta new) = om_Finalizers (ip_Meta pool)
                        \<and> om_DeletionTimestamp (ip_Meta new) = om_DeletionTimestamp (ip_Meta pool)) w w'))"

definition reservation_service :: "('w, 'x) ctrl_scheme \<Rightarrow> ('w \<Rightarrow> OverlappingRangeIPReservation watch_state) \<Rightarrow> bool" where
  "reservation_service k view \<longleftrightarrow>
     (let steps = sees view reservation_filter (keeps_deletion ov_Meta)
      in ctrl_order k (steps (\<lambda>_. True))
         \<and> (\<forall>ns name w e w'. k_GetORIP k ns name w = (Inl e, w') \<and> IsNotFound e \<longrightarrow> steps (\<lambda>s. ws_cache s (ns, name) = None) w w')
         \<and> (\<forall>ns name w res w'. k_GetORIP k ns name w = (Inr res, w')
              \<longrightarrow> om_Namespace (ov_Meta res) = ns \<and> om_Name (ov_Meta res) = name \<and> steps (\<lambda>s. ws_cache s (ns, name) = Some res) w w')
         \<and> (\<forall>ns name uid w x w'. k_DeleteORIP k ns name uid w = (x, w') \<and> (case x of Inl e \<Rightarrow> IsNotFound e | Inr _ \<Rightarrow> True)
              \<longrightarrow> steps (\<lambda>s. case stored s (ns, name) of None \<Rightarrow> True | Some res \<Rightarrow> om_DeletionTimestamp (ov_Meta res) \<noteq> None) w w'))"

lemma sees_run: "sees view p allowed P w w' \<Longrightarrow> (watch p allowed)\<^sup>*\<^sup>* (view w) (view w')"
  unfolding sees_def by (metis rtranclp_trans)

lemma seen_ordered: "sees view p allowed P w w' \<Longrightarrow> ordered allowed (view w) \<Longrightarrow> ordered allowed (view w')"
  using ordered_run [OF sees_run] .

lemma settled_stored:
  "(case stored s key of None \<Rightarrow> True | Some obj \<Rightarrow> \<not> needs obj) \<Longrightarrow> settled needs (states s key)"
  unfolding settled_def list_ex_iff stored_def by (rule bexI, assumption) (simp add: states_def)

lemma settled_cache: "(case ws_cache s key of None \<Rightarrow> True | Some obj \<Rightarrow> \<not> needs obj) \<Longrightarrow> settled needs (states s key)"
  by (simp add: settled_def states_def)

context watched
begin

lemma cared_seen:
  assumes "sees view p allowed P w w'" "ordered allowed (view w)" "\<And>s. P s \<Longrightarrow> settled needs (states s key)"
  shows "cared_for needs key (view w')"
proof -
  obtain s where s: "(watch p allowed)\<^sup>*\<^sup>* (view w) s" "P s" "(watch p allowed)\<^sup>*\<^sup>* s (view w')" using assms(1) unfolding sees_def by blast
  have "cared_for needs key s" using assms(3) [OF s(2)] by (simp add: cared_for_def)
  then show ?thesis by (rule cared_run [OF s(3) ordered_run [OF s(1) assms(2)]])
qed

end

lemma pool_run:
  assumes "pool_service k view" "rp_reconcileInterval r > 0" "ordered (keeps_deletion ip_Meta) (view w)" "Reconcile k r ns name w = (res, e, w')"
  shows "(watch pool_filter (keeps_deletion ip_Meta))\<^sup>*\<^sup>* (view w) (view w')"
    and "reconcileHandler res e = Forget \<Longrightarrow> cared_for pool_needs (ns, name) (view w')"
proof -
  let ?steps = "sees view pool_filter (keeps_deletion ip_Meta)"
  have order: "ctrl_order k (?steps (\<lambda>_. True))" using assms(1) by (simp add: pool_service_def Let_def)
  note service = assms(1) [unfolded pool_service_def Let_def]
  show "(watch pool_filter (keeps_deletion ip_Meta))\<^sup>*\<^sup>* (view w) (view w')"
    using sees_run [OF ctrl_order.c_Reconcile [OF order assms(4,2)]] .
  assume forget: "reconcileHandler res e = Forget"
  show "cared_for pool_needs (ns, name) (view w')"
  proof (rule ctrl_order.Reconcile_calls [OF order assms(4,2)])
    fix er assume "k_GetIPPool k ns name w = (Inl er, w')" "IsNotFound er"
    then have "?steps (\<lambda>s. ws_cache s (ns, name) = None) w w'" using service by blast
    then show ?thesis by (rule pools.cared_seen [where view = view, OF _ assms(3)]) (simp add: settled_cache)
  next
    fix pool :: IPPool assume g: "k_GetIPPool k ns name w = (Inr pool, w')" "om_DeletionTimestamp (ip_Meta pool) \<noteq> None"
      "ippoolFinalizer \<notin> set (om_Finalizers (ip_Meta pool))"
    then have "?steps (\<lambda>s. ws_cache s (ns, name) = Some pool) w w'" using service by blast
    then show ?thesis by (rule pools.cared_seen [where view = view, OF _ assms(3)]) (simp add: settled_cache pool_needs_def g(2,3))
  next
    fix pool :: IPPool and w1 w2 x
    let ?pool = "pool\<lparr>ip_Meta := (ip_Meta pool)\<lparr>om_Finalizers := filter (\<lambda>f. f \<noteq> ippoolFinalizer) (om_Finalizers (ip_Meta pool))\<rparr>\<rparr>"
    assume g: "k_GetIPPool k ns name w = (Inr pool, w1)" "om_DeletionTimestamp (ip_Meta pool) \<noteq> None" "?steps (\<lambda>_. True) w1 w2"
      "c_UpdateIPPool k ?pool w2 = (Inr x, w')"
    have n: "om_Namespace (ip_Meta pool) = ns" "om_Name (ip_Meta pool) = name" using service g(1) by blast+
    have o: "ordered (keeps_deletion ip_Meta) (view w2)"
      by (rule seen_ordered [OF g(3)]) (rule seen_ordered [OF ctrl_order.c_GetIPPool [OF order g(1)] assms(3)])
    have "?steps (\<lambda>s. case stored s (om_Namespace (ip_Meta ?pool), om_Name (ip_Meta ?pool)) of None \<Rightarrow> True
        | Some new \<Rightarrow> om_Finalizers (ip_Meta new) = om_Finalizers (ip_Meta ?pool) \<and> om_DeletionTimestamp (ip_Meta new) = om_DeletionTimestamp (ip_Meta ?pool)) w2 w'"
      using service g(4) by blast
    then show ?thesis
      by (rule pools.cared_seen [where view = view, OF _ o], intro settled_stored) (use g(2) n in \<open>auto simp: pool_needs_def split: option.splits\<close>)
  qed (use forget in auto)
qed

lemma reservation_run:
  assumes "reservation_service k view" "ro_reconcileInterval r > 0" "ordered (keeps_deletion ov_Meta) (view w)"
    and "OverlappingRange_Reconcile k r ns name w = (res, e, w')"
  shows "(watch reservation_filter (keeps_deletion ov_Meta))\<^sup>*\<^sup>* (view w) (view w')"
    and "reconcileHandler res e = Forget \<Longrightarrow> cared_for reservation_needs (ns, name) (view w')"
proof -
  let ?steps = "sees view reservation_filter (keeps_deletion ov_Meta)"
  have order: "ctrl_order k (?steps (\<lambda>_. True))" using assms(1) by (simp add: reservation_service_def Let_def)
  note service = assms(1) [unfolded reservation_service_def Let_def]
  show "(watch reservation_filter (keeps_deletion ov_Meta))\<^sup>*\<^sup>* (view w) (view w')"
    using sees_run [OF ctrl_order.c_OverlappingRange [OF order assms(4,2)]] .
  assume forget: "reconcileHandler res e = Forget"
  show "cared_for reservation_needs (ns, name) (view w')"
  proof (rule ctrl_order.OverlappingRange_calls [OF order assms(4,2)])
    fix er assume "k_GetORIP k ns name w = (Inl er, w')" "IsNotFound er"
    then have "?steps (\<lambda>s. ws_cache s (ns, name) = None) w w'" using service by blast
    then show ?thesis by (rule reservations.cared_seen [where view = view, OF _ assms(3)]) (simp add: settled_cache)
  next
    fix rv :: OverlappingRangeIPReservation and w1 w2 w3 uid d
    assume g: "k_GetORIP k ns name w = (Inr rv, w1)" "?steps (\<lambda>_. True) w1 w2"
      "k_DeleteORIP k (om_Namespace (ov_Meta rv)) (om_Name (ov_Meta rv)) uid w2 = (d, w3)"
      "case d of Inl er \<Rightarrow> IsNotFound er | Inr _ \<Rightarrow> True" "?steps (\<lambda>_. True) w3 w'"
    have n: "om_Namespace (ov_Meta rv) = ns" "om_Name (ov_Meta rv) = name" using service g(1) by blast+
    have o: "ordered (keeps_deletion ov_Meta) (view w2)"
      by (rule seen_ordered [OF g(2)]) (rule seen_ordered [OF ctrl_order.c_GetORIP [OF order g(1)] assms(3)])
    have s: "?steps (\<lambda>s. case stored s (ns, name) of None \<Rightarrow> True | Some res \<Rightarrow> om_DeletionTimestamp (ov_Meta res) \<noteq> None) w2 w3"
      using service g(3,4) unfolding n by blast
    have "cared_for reservation_needs (ns, name) (view w3)"
      by (rule reservations.cared_seen [where view = view, OF s o], intro settled_stored) (auto simp: reservation_needs_def split: option.splits)
    then show ?thesis by (rule reservations.cared_run [OF sees_run [OF g(5)] ordered_run [OF sees_run [OF s] o]])
  qed (use forget in auto)
qed

lemma cared_end: "cared_for needs key s \<Longrightarrow> ws_pending s key = [] \<Longrightarrow> stored s key = Some obj \<Longrightarrow> needs obj \<Longrightarrow> key \<in> ws_queue s"
  by (auto simp: cared_for_def settled_def states_def stored_def)

lemma cared_start: "ws_cache s key = None \<Longrightarrow> cared_for needs key s"
  by (simp add: cared_for_def settled_def states_def)

text \<open>
  No pool is forgotten: from the start of the controller, with an empty cache, and whatever is stored,
  received and reconciled in which order, each stored pool that the controller has not released is in
  the work queue once its last change has been received, so that it is checked for orphaned
  allocations again. The filter on the events and the results of \<^verbatim>\<open>Reconcile\<close> together ensure this; the
  reconcile interval must be positive.
\<close>

lemma no_pool_forgotten:
  assumes "SetupIPPoolReconciler k mgr reconcileInterval opts = Inr c" "reconcileInterval > 0" "pool_service k view"
    and "\<And>key. ws_cache (view w) key = None" "ordered (keeps_deletion ip_Meta) (view w)"
    and "(worker c (keeps_deletion ip_Meta) view)\<^sup>*\<^sup>* w w'"
    and "ws_pending (view w') key = []" "stored (view w') key = Some pool" "pool_needs pool"
  shows "key \<in> ws_queue (view w')"
proof (rule cared_end [where needs = pool_needs, OF _ assms(7-9)])
  have c: "rg_Filter c = pool_filter"
      "rg_Reconcile c key = Reconcile k (newIPPoolReconciler reconcileInterval opts) (fst key) (snd key)" for key
    using assms(1) by (auto simp: SetupIPPoolReconciler_def Complete_def Let_def case_prod_beta split: option.splits)
  have i: "rp_reconcileInterval (newIPPoolReconciler reconcileInterval opts) > 0" using assms(2) by (simp add: newIPPoolReconciler_def)
  note run = pool_run [OF assms(3) i]
  show "cared_for pool_needs key (view w')"
    by (rule conjunct2 [OF pools.cared_always [where view = view, OF _ c(1) assms(6,5) cared_start [OF assms(4)]]]) (use run c(2) in auto)
qed

text \<open>No cluster-wide reservation is forgotten either, until it is being deleted.\<close>

lemma no_reservation_forgotten:
  assumes "SetupOverlappingRangeReconciler k mgr reconcileInterval opts = Inr c" "reconcileInterval > 0" "reservation_service k view"
    and "\<And>key. ws_cache (view w) key = None" "ordered (keeps_deletion ov_Meta) (view w)"
    and "(worker c (keeps_deletion ov_Meta) view)\<^sup>*\<^sup>* w w'"
    and "ws_pending (view w') key = []" "stored (view w') key = Some res" "reservation_needs res"
  shows "key \<in> ws_queue (view w')"
proof (rule cared_end [where needs = reservation_needs, OF _ assms(7-9)])
  have c: "rg_Filter c = reservation_filter"
      "rg_Reconcile c key = OverlappingRange_Reconcile k (newOverlappingRangeReconciler reconcileInterval opts) (fst key) (snd key)" for key
    using assms(1) by (auto simp: SetupOverlappingRangeReconciler_def Complete_def Let_def case_prod_beta split: option.splits)
  have i: "ro_reconcileInterval (newOverlappingRangeReconciler reconcileInterval opts) > 0" using assms(2) by (simp add: newOverlappingRangeReconciler_def)
  note run = reservation_run [OF assms(3) i]
  show "cared_for reservation_needs key (view w')"
    by (rule conjunct2 [OF reservations.cared_always [where view = view, OF _ c(1) assms(6,5) cared_start [OF assms(4)]]]) (use run c(2) in auto)
qed

text \<open>An API with nothing but pools, in which the controller meets a new pool.\<close>

definition pools_only :: "IPPool watch_state ctrl" where
  "pools_only = null_ctrl
     \<lparr>k_GetIPPool := \<lambda>ns name s. (case ws_cache s (ns, name) of
        None \<Rightarrow> (Inl (ApiErr NotFound), s)
      | Some pool \<Rightarrow> if om_Namespace (ip_Meta pool) = ns \<and> om_Name (ip_Meta pool) = name then (Inr pool, s) else (Inl (Msg ''corrupt cache''), s)),
      c_UpdateIPPool := \<lambda>pool s. (let key = (om_Namespace (ip_Meta pool), om_Name (ip_Meta pool))
        in case stored s key of
             None \<Rightarrow> (Inl (ApiErr NotFound), s)
           | Some old \<Rightarrow> if keeps_deletion ip_Meta old pool then (Inr pool, put_state key (Some pool) s) else (Inl (ApiErr Conflict), s))\<rparr>"

lemma pools_only_service: "pool_service pools_only id"
proof -
  let ?R = "sees id pool_filter (keeps_deletion ip_Meta) :: _ \<Rightarrow> IPPool watch_state \<Rightarrow> IPPool watch_state \<Rightarrow> bool"
  have refl: "P s \<Longrightarrow> ?R P s s" for P s unfolding sees_def by auto
  have put: "?R P s (put_state key (Some pool) s)" if "stored s key = Some old" "keeps_deletion ip_Meta old pool" "P (put_state key (Some pool) s)" for P s key old pool
    unfolding sees_def using that watch.written [of "keeps_deletion ip_Meta" s key "Some pool" pool_filter] by auto
  have upd: "?R (\<lambda>s. case stored s (om_Namespace (ip_Meta pool), om_Name (ip_Meta pool)) of None \<Rightarrow> True
        | Some new \<Rightarrow> om_Finalizers (ip_Meta new) = om_Finalizers (ip_Meta pool) \<and> om_DeletionTimestamp (ip_Meta new) = om_DeletionTimestamp (ip_Meta pool)) w w'"
    if "c_UpdateIPPool pools_only pool w = (Inr x, w')" for pool w x w'
    using that by (auto simp: pools_only_def Let_def stored_def states_put split: option.splits if_splits intro!: put)
  have "ctrl_order pools_only (?R (\<lambda>_. True))"
  proof unfold_locales
    show "?R (\<lambda>_. True) w w1 \<Longrightarrow> ?R (\<lambda>_. True) w1 w2 \<Longrightarrow> ?R (\<lambda>_. True) w w2" for w w1 w2
      unfolding sees_def by (metis rtranclp_trans)
    show "c_UpdateIPPool pools_only pool w = (a, w') \<Longrightarrow> ?R (\<lambda>_. True) w w'" for pool w a w'
      by (auto simp: pools_only_def Let_def split: option.splits if_splits intro: refl put)
  qed (auto simp: pools_only_def null_ctrl_def refl split: option.splits if_splits)
  then show ?thesis
    unfolding pool_service_def Let_def using upd by (auto simp: pools_only_def null_ctrl_def split: option.splits if_splits intro: refl)
qed

definition pool_key :: request where
  "pool_key = (''kube-system'', ''10.0.0.0-24'')"

definition start_ex :: "IPPool watch_state" where
  "start_ex = \<lparr> ws_cache = (\<lambda>_. None), ws_pending = (\<lambda>_. [])(pool_key := [Some (pool_with [])]), ws_queue = {} \<rparr>"

definition end_ex :: "IPPool watch_state" where
  "end_ex = deliver pool_filter pool_key (enqueue pool_key (put_state pool_key (Some (finalized (pool_with [])))
     (take_request pool_key (deliver pool_filter pool_key start_ex))))"

lemma start_run:
  assumes "SetupIPPoolReconciler pools_only mgr reconcileInterval opts = Inr c"
  shows "(worker c (keeps_deletion ip_Meta) id)\<^sup>*\<^sup>* start_ex end_ex"
    and "ws_pending end_ex pool_key = [] \<and> stored end_ex pool_key = Some (finalized (pool_with []))"
proof -
  let ?w1 = "deliver pool_filter pool_key start_ex" and ?pool = "pool_with []"
  let ?w2 = "take_request pool_key ?w1" and ?r = "newIPPoolReconciler reconcileInterval opts"
  let ?w3 = "put_state pool_key (Some (finalized ?pool)) ?w2"
  let ?w4 = "enqueue pool_key ?w3"
  have c: "rg_Filter c = pool_filter" "rg_Reconcile c pool_key = Reconcile pools_only ?r ''kube-system'' ''10.0.0.0-24''"
    using assms by (auto simp: SetupIPPoolReconciler_def Complete_def Let_def pool_key_def split: option.splits)
  have f: "CreateFunc pool_filter x" for x by (rule pools.created)
  have w2: "ws_cache ?w2 pool_key = Some ?pool" "ws_pending ?w2 pool_key = []" "pool_key \<in> ws_queue ?w1"
    by (simp_all add: take_request_def deliver_def start_ex_def f)
  have rec: "Reconcile pools_only ?r ''kube-system'' ''10.0.0.0-24'' ?w2 = (\<lparr> re_Requeue = True, re_RequeueAfter = 0 \<rparr>, None, ?w3)"
    using w2(1,2) unfolding pool_key_def
    by (simp add: Reconcile_def pools_only_def pool_with_def empty_meta_def stored_def states_def keeps_deletion_def finalized_def Let_def)
  have s1: "worker c (keeps_deletion ip_Meta) id start_ex ?w1"
    by (rule worker.idle) (simp add: c watch.delivered start_ex_def)
  have s2: "worker c (keeps_deletion ip_Meta) id ?w1 ?w4"
    by (rule worker.work [where key = pool_key, OF _ _ rec [folded c(2)]]) (use w2 in simp_all)
  have p4: "ws_pending ?w4 pool_key = [Some (finalized ?pool)]" using w2(2) by (simp add: enqueue_def put_state_def)
  have s3: "worker c (keeps_deletion ip_Meta) id ?w4 end_ex"
    unfolding end_ex_def by (rule worker.idle) (simp add: c watch.delivered p4)
  show "(worker c (keeps_deletion ip_Meta) id)\<^sup>*\<^sup>* start_ex end_ex" using s1 s2 s3 by simp
  show "ws_pending end_ex pool_key = [] \<and> stored end_ex pool_key = Some (finalized ?pool)"
    unfolding end_ex_def by (rule deliver_last [OF p4])
qed

lemma start_ordered: "ordered (keeps_deletion ip_Meta) start_ex"
  by (auto simp: ordered_def states_def start_ex_def)

text \<open>
  The flag accepts an interval that is not positive, and then a healthy pool is forgotten after it was
  checked: \<^verbatim>\<open>RequeueAfter\<close> is zero.
\<close>

theorem zero_interval_forgets:
  "case Reconcile (one_pod\<lparr>k_GetIPPool := \<lambda>_ _ w. (Inr (finalized (pool_with [])), w), c_PatchIPPool := \<lambda>pool _ w. (Inr pool, w),
       c_StatusIPPool := \<lambda>pool w. (Inr pool, w)\<rparr>) (newIPPoolReconciler 0 options_ex) ''kube-system'' ''10.0.0.0-24'' 0 of
     (res, e, w) \<Rightarrow> e = None \<and> reconcileHandler res e = Forget"
  by code_simp

text \<open>A node that joins or leaves asks for every network attachment definition, if they can be listed; an update of a node for none.\<close>

lemma node_requests_spec:
  assumes "c_ListNADs k None w = (Inr nads, w')"
  shows "node_requests k (CreateEvent n) w = (map (\<lambda>d. (om_Namespace (nad_Meta d), om_Name (nad_Meta d))) nads, w')"
    "node_requests k (DeleteEvent n) w = (map (\<lambda>d. (om_Namespace (nad_Meta d), om_Name (nad_Meta d))) nads, w')"
    "node_requests k (UpdateEvent x y) w = ([], w)"
  using assms by (simp_all add: node_requests_def node_predicate_def no_funcs_def mapNodeToNADs_def)

end
