(* ===== verification/Startup.thy ===== *)
theory Startup
  imports Watch
begin

text \<open>
  \<^verbatim>\<open>cmd/operator\<close>, \<^verbatim>\<open>internal/webhook/setup.go\<close> and \<^verbatim>\<open>internal/webhook/certrotator\<close>: how the operator starts. The
  controllers, the certificates and the webhooks are registered with the manager of
  controller-runtime, whose answers are parameters; once started, the webhooks wait for the
  certificates. \<^verbatim>\<open>SetupWhenReady\<close> and \<^verbatim>\<open>ReadyChecker\<close> are those of the vendored \<^verbatim>\<open>certrotation\<close> package.
\<close>

section \<open>Definitions\<close>

subsection \<open>Flags and logging\<close>

record controller_flags =
  fl_metricsAddr :: string
  fl_healthProbeAddr :: string
  fl_leaderElect :: bool
  fl_leaderElectNamespace :: string
  fl_reconcileInterval :: int
  fl_webhookPort :: int
  fl_certDir :: string
  fl_namespace :: string
  fl_webhookServiceName :: string
  fl_webhookSecretName :: string
  fl_webhookConfigName :: string
  fl_cleanupTerminating :: bool
  fl_cleanupDisrupted :: bool
  fl_verifyNetworkStatus :: bool
  fl_serviceCIDR :: string

definition default_flags :: "string \<Rightarrow> controller_flags" where
  "default_flags namespace =
     \<lparr> fl_metricsAddr = '':8080'', fl_healthProbeAddr = '':8081'', fl_leaderElect = True, fl_leaderElectNamespace = [],
       fl_reconcileInterval = 30 * 1000000000, fl_webhookPort = 9443, fl_certDir = ''/var/run/webhook-certs'', fl_namespace = namespace,
       fl_webhookServiceName = ''whereabouts-webhook-service'', fl_webhookSecretName = ''whereabouts-webhook-cert'',
       fl_webhookConfigName = ''whereabouts-validating-webhook-configuration'', fl_cleanupTerminating = False, fl_cleanupDisrupted = True,
       fl_verifyNetworkStatus = True, fl_serviceCIDR = [] \<rparr>"

datatype zap_level = zap_DebugLevel | zap_InfoLevel | zap_WarnLevel | zap_ErrorLevel

record zap_options =
  zo_Development :: bool
  zo_Level :: zap_level

text \<open>\<open>None\<close> leaves the logger as it is: the flag cannot be read.\<close>

definition setupLogger :: "string result \<Rightarrow> zap_options option" where
  "setupLogger flag = (case flag of
     Inl _ \<Rightarrow> None
   | Inr logLevel \<Rightarrow> Some (
       if logLevel = ''debug'' then \<lparr> zo_Development = True, zo_Level = zap_DebugLevel \<rparr>
       else if logLevel = ''info'' then \<lparr> zo_Development = False, zo_Level = zap_InfoLevel \<rparr>
       else if logLevel = ''warn'' then \<lparr> zo_Development = False, zo_Level = zap_WarnLevel \<rparr>
       else if logLevel = ''error'' then \<lparr> zo_Development = False, zo_Level = zap_ErrorLevel \<rparr>
       else \<lparr> zo_Development = False, zo_Level = zap_InfoLevel \<rparr>))"

subsection \<open>The environment\<close>

definition leaderElectionID :: string where
  "leaderElectionID = ''whereabouts-controller.whereabouts.cni.cncf.io''"

record manager_options =
  mo_MetricsBindAddress :: string
  mo_HealthProbeBindAddress :: string
  mo_LeaderElection :: bool
  mo_LeaderElectionID :: string
  mo_LeaderElectionNamespace :: string
  mo_LeaderElectionReleaseOnCancel :: bool
  mo_WebhookPort :: int
  mo_WebhookCertDir :: string

record Secret =
  se_Name :: string
  se_Namespace :: string
  se_Type :: string
  se_Data :: "(string \<times> string) list"

record rotation_config =
  rt_Namespace :: string
  rt_SecretName :: string
  rt_CertDir :: string
  rt_CAName :: string
  rt_CAOrganization :: string
  rt_DNSName :: string
  rt_ValidatingWebhooks :: "string list"
  rt_RequireLeaderElection :: bool
  rt_RestartOnSecretRefresh :: bool

text \<open>The answers of the libraries; \<open>oe_Webhook\<close> is the registration of a validator with the manager.\<close>

record 'w op_env =
  oe_GetConfig :: "err option"
  oe_NewManager :: "manager_options \<Rightarrow> err option"
  oe_Controller :: manager
  oe_NewClient :: "err option"
  oe_GetSecret :: "string \<Rightarrow> string \<Rightarrow> 'w \<Rightarrow> Secret result \<times> 'w"
  oe_CreateSecret :: "Secret \<Rightarrow> 'w \<Rightarrow> unit result \<times> 'w"
  oe_AddRotator :: "rotation_config \<Rightarrow> err option"
  oe_AddRunnable :: "err option"
  oe_AddCheck :: "string \<Rightarrow> err option"
  oe_Webhook :: "string \<Rightarrow> err option"

subsection \<open>Certificates\<close>

record cert_options =
  ct_Namespace :: string
  ct_CertDir :: string
  ct_DNSName :: string
  ct_SecretName :: string
  ct_WebhookName :: string
  ct_CAOrganization :: string

definition caOrg :: "string \<Rightarrow> string" where
  "caOrg org = (if org \<noteq> [] then org else ''whereabouts'')"

definition empty_secret :: "string \<Rightarrow> string \<Rightarrow> Secret" where
  "empty_secret namespace name =
     \<lparr> se_Name = name, se_Namespace = namespace, se_Type = ''kubernetes.io/tls'', se_Data = [(''tls.crt'', []), (''tls.key'', [])] \<rparr>"

definition ensureSecret :: "'w op_env \<Rightarrow> string \<Rightarrow> string \<Rightarrow> 'w \<Rightarrow> err option \<times> 'w" where
  "ensureSecret env namespace name w = (case oe_GetSecret env namespace name w of
     (Inr _, w) \<Rightarrow> (None, w)
   | (Inl e, w) \<Rightarrow>
       if \<not> IsNotFound e then (Some e, w)
       else (case oe_CreateSecret env (empty_secret namespace name) w of
               (Inl e, w) \<Rightarrow> (if IsAlreadyExists e then None else Some e, w)
             | (Inr _, w) \<Rightarrow> (None, w)))"

text \<open>\<^verbatim>\<open>Config.Validate\<close> of the rotation package, for the fields that are set here.\<close>

definition rotation_Validate :: "rotation_config \<Rightarrow> err option" where
  "rotation_Validate c =
     (let errs = (if rt_Namespace c = [] then [''namespace is required''] else [])
          @ (if rt_SecretName c = [] then [''secret name is required''] else [])
          @ (if rt_DNSName c = [] then [''DNS name or service name is required''] else [])
          @ (if [] \<in> set (rt_ValidatingWebhooks c) then [''validating webhook names must not be empty''] else [])
      in if errs \<noteq> [] then Some (Wrap ''certrotation: invalid config'' (Msg (concat errs))) else None)"

definition Enable :: "'w op_env \<Rightarrow> cert_options \<Rightarrow> 'w \<Rightarrow> rotation_config result \<times> 'w" where
  "Enable env opts w =
     (if oe_NewClient env \<noteq> None
      then (Inl (Wrap ''creating direct client for secret bootstrap'' (the (oe_NewClient env))), w)
      else case ensureSecret env (ct_Namespace opts) (ct_SecretName opts) w of
             (Some e, w) \<Rightarrow> (Inl e, w)
           | (None, w) \<Rightarrow>
               let c = \<lparr> rt_Namespace = ct_Namespace opts, rt_SecretName = ct_SecretName opts, rt_CertDir = ct_CertDir opts,
                         rt_CAName = ''whereabouts-ca'', rt_CAOrganization = caOrg (ct_CAOrganization opts), rt_DNSName = ct_DNSName opts,
                         rt_ValidatingWebhooks = [ct_WebhookName opts], rt_RequireLeaderElection = False, rt_RestartOnSecretRefresh = True \<rparr>
               in (case rotation_Validate c of
                     Some e \<Rightarrow> (Inl e, w)
                   | None \<Rightarrow> (case oe_AddRotator env c of
                       Some e \<Rightarrow> (Inl (Wrap ''adding cert rotator'' e), w)
                     | None \<Rightarrow> (Inr c, w))))"

subsection \<open>Webhooks\<close>

text \<open>
  The runnable that \<^verbatim>\<open>SetupWhenReady\<close> adds to the manager: whether the certificates are ready, which
  webhooks have been registered, and where it stands. \<open>Ready\<close> is the closed channel of the caller.
\<close>

datatype setup_phase = Waiting | Registering "string list" | Ready | Cancelled | Failed err

record webhook_run =
  wr_certReady :: bool
  wr_registered :: "string list"
  wr_phase :: setup_phase

definition webhook_setups :: "string list" where
  "webhook_setups = [''IPPool'', ''NodeSlicePool'', ''OverlappingRangeIPReservation'']"

definition webhook_SetupWithManager :: "'w op_env \<Rightarrow> webhook_run result" where
  "webhook_SetupWithManager env = (case oe_AddRunnable env of
     Some e \<Rightarrow> Inl (Wrap ''adding webhook setup runnable'' e)
   | None \<Rightarrow> Inr \<lparr> wr_certReady = False, wr_registered = [], wr_phase = Waiting \<rparr>)"

definition ReadyChecker :: "webhook_run \<Rightarrow> err option" where
  "ReadyChecker s = (if wr_phase s = Ready then None else Some (Msg ''webhook certificates not ready''))"

inductive webhook_step :: "'w op_env \<Rightarrow> webhook_run \<Rightarrow> webhook_run \<Rightarrow> bool" for env where
  certificate: "webhook_step env s (s\<lparr>wr_certReady := True\<rparr>)"
| cancelled: "wr_phase s = Waiting \<Longrightarrow> webhook_step env s (s\<lparr>wr_phase := Cancelled\<rparr>)"
| ready: "wr_phase s = Waiting \<Longrightarrow> wr_certReady s \<Longrightarrow> webhook_step env s (s\<lparr>wr_phase := Registering webhook_setups\<rparr>)"
| registered: "wr_phase s = Registering (n # ns) \<Longrightarrow> oe_Webhook env n = None
    \<Longrightarrow> webhook_step env s (s\<lparr>wr_registered := wr_registered s @ [n], wr_phase := Registering ns\<rparr>)"
| failed: "wr_phase s = Registering (n # ns) \<Longrightarrow> oe_Webhook env n = Some e
    \<Longrightarrow> webhook_step env s (s\<lparr>wr_phase := Failed (Wrap ''webhook setup callback after certificate rotation'' (Wrap (''registering '' @ n @ '' webhook'') e))\<rparr>)"
| closed: "wr_phase s = Registering [] \<Longrightarrow> webhook_step env s (s\<lparr>wr_phase := Ready\<rparr>)"

subsection \<open>The command\<close>

text \<open>What the manager has when it is started.\<close>

record 'w started =
  sm_Options :: manager_options
  sm_Controllers :: "(IPPool, 'w) registration \<times> (NetworkAttachmentDefinition, 'w) registration \<times> (OverlappingRangeIPReservation, 'w) registration"
  sm_Rotation :: rotation_config
  sm_Webhooks :: webhook_run

definition manager_options_of :: "controller_flags \<Rightarrow> manager_options" where
  "manager_options_of f =
     \<lparr> mo_MetricsBindAddress = fl_metricsAddr f, mo_HealthProbeBindAddress = fl_healthProbeAddr f, mo_LeaderElection = fl_leaderElect f,
       mo_LeaderElectionID = leaderElectionID, mo_LeaderElectionNamespace = fl_leaderElectNamespace f, mo_LeaderElectionReleaseOnCancel = True,
       mo_WebhookPort = fl_webhookPort f, mo_WebhookCertDir = fl_certDir f \<rparr>"

definition options_of :: "controller_flags \<Rightarrow> string list \<Rightarrow> ReconcilerOptions" where
  "options_of f serviceCIDRs =
     \<lparr> CleanupTerminating = fl_cleanupTerminating f, CleanupDisrupted = fl_cleanupDisrupted f,
       VerifyNetworkStatus = fl_verifyNetworkStatus f, ServiceCIDRs = serviceCIDRs \<rparr>"

definition cert_options_of :: "controller_flags \<Rightarrow> cert_options" where
  "cert_options_of f =
     \<lparr> ct_Namespace = fl_namespace f, ct_CertDir = fl_certDir f, ct_DNSName = fl_webhookServiceName f @ ''.'' @ fl_namespace f @ ''.svc'',
       ct_SecretName = fl_webhookSecretName f, ct_WebhookName = fl_webhookConfigName f, ct_CAOrganization = [] \<rparr>"

definition RunE :: "'w op_env \<Rightarrow> ('w, 'x) ctrl_scheme \<Rightarrow> controller_flags \<Rightarrow> 'w \<Rightarrow> 'w started result \<times> 'w" where
  "RunE env k f w = (case oe_GetConfig env of
     Some e \<Rightarrow> (Inl (Wrap ''loading kubeconfig'' e), w)
   | None \<Rightarrow> (case oe_NewManager env (manager_options_of f) of
       Some e \<Rightarrow> (Inl e, w)
     | None \<Rightarrow> (case parseServiceCIDRs (fl_serviceCIDR f) of
         Inl e \<Rightarrow> (Inl (Wrap ''parsing --service-cidr'' e), w)
       | Inr serviceCIDRs \<Rightarrow> (case SetupWithManager k (oe_Controller env) (fl_reconcileInterval f) (options_of f serviceCIDRs) of
           Inl e \<Rightarrow> (Inl e, w)
         | Inr controllers \<Rightarrow> (case Enable env (cert_options_of f) w of
             (Inl e, w) \<Rightarrow> (Inl e, w)
           | (Inr rotation, w) \<Rightarrow> (case webhook_SetupWithManager env of
               Inl e \<Rightarrow> (Inl e, w)
             | Inr webhooks \<Rightarrow> (case oe_AddCheck env ''healthz'' of
                 Some e \<Rightarrow> (Inl e, w)
               | None \<Rightarrow> (case oe_AddCheck env ''readyz'' of
                   Some e \<Rightarrow> (Inl e, w)
                 | None \<Rightarrow> (Inr \<lparr> sm_Options = manager_options_of f, sm_Controllers = controllers, sm_Rotation = rotation, sm_Webhooks = webhooks \<rparr>, w)))))))))"

section \<open>Properties\<close>

text \<open>
  The Secret as the API stores it: others may create or change it between the calls, but not remove it.
\<close>

definition secret_service :: "'w op_env \<Rightarrow> ('w \<Rightarrow> string \<times> string \<rightharpoonup> Secret) \<Rightarrow> bool" where
  "secret_service env view \<longleftrightarrow>
     (\<forall>ns n w x w'. oe_GetSecret env ns n w = (x, w') \<longrightarrow> dom (view w) \<subseteq> dom (view w') \<and> (\<forall>s. x = Inr s \<longrightarrow> (ns, n) \<in> dom (view w')))
     \<and> (\<forall>s w x w'. oe_CreateSecret env s w = (x, w') \<longrightarrow> dom (view w) \<subseteq> dom (view w')
          \<and> ((case x of Inr _ \<Rightarrow> True | Inl e \<Rightarrow> IsAlreadyExists e) \<longrightarrow> (se_Namespace s, se_Name s) \<in> dom (view w')))"

lemma ensureSecret_exists:
  assumes "secret_service env view" "ensureSecret env ns n w = (None, w')"
  shows "(ns, n) \<in> dom (view w')"
proof -
  obtain x w1 where g: "oe_GetSecret env ns n w = (x, w1)" by fastforce
  show ?thesis
  proof (cases x)
    case (Inr s)
    then show ?thesis using assms g unfolding ensureSecret_def secret_service_def by auto
  next
    case (Inl e)
    obtain y w2 where c: "oe_CreateSecret env (empty_secret ns n) w1 = (y, w2)" by fastforce
    have "w' = w2" "case y of Inr _ \<Rightarrow> True | Inl e \<Rightarrow> IsAlreadyExists e"
      using assms(2) g c Inl unfolding ensureSecret_def by (auto split: if_splits sum.splits)
    then have "(se_Namespace (empty_secret ns n), se_Name (empty_secret ns n)) \<in> dom (view w')"
      using assms(1) c unfolding secret_service_def by blast
    then show ?thesis by (simp add: empty_secret_def)
  qed
qed

text \<open>
  What the manager is started with: every controller of a readable configuration, with the flag's
  interval, and the rotation of a Secret that exists. So the pools are never forgotten, and the
  rotation, which only updates the Secret, can store the certificates.
\<close>

lemma started_operator:
  assumes "RunE env k f w = (Inr m, w')"
  shows "secret_service env view \<Longrightarrow> (fl_namespace f, fl_webhookSecretName f) \<in> dom (view w')"
    and "\<exists>cidrs pools slices reservations. parseServiceCIDRs (fl_serviceCIDR f) = Inr cidrs \<and> sm_Controllers m = (pools, slices, reservations)
      \<and> SetupIPPoolReconciler k (oe_Controller env) (fl_reconcileInterval f) (options_of f cidrs) = Inr pools
      \<and> SetupNodeSliceReconciler k (oe_Controller env) = Inr slices
      \<and> SetupOverlappingRangeReconciler k (oe_Controller env) (fl_reconcileInterval f) (options_of f cidrs) = Inr reservations"
proof -
  obtain cidrs controllers where c: "parseServiceCIDRs (fl_serviceCIDR f) = Inr cidrs"
      "SetupWithManager k (oe_Controller env) (fl_reconcileInterval f) (options_of f cidrs) = Inr controllers"
      "sm_Controllers m = controllers" "Enable env (cert_options_of f) w = (Inr (sm_Rotation m), w')"
    using assms(1) unfolding RunE_def by (auto split: option.splits sum.splits prod.splits)
  then have e: "ensureSecret env (fl_namespace f) (fl_webhookSecretName f) w = (None, w')"
    unfolding Enable_def Let_def by (auto simp: cert_options_of_def split: if_splits option.splits prod.splits)
  show "(fl_namespace f, fl_webhookSecretName f) \<in> dom (view w')" if "secret_service env view" using ensureSecret_exists [OF that e] .
  show "\<exists>cidrs pools slices reservations. parseServiceCIDRs (fl_serviceCIDR f) = Inr cidrs \<and> sm_Controllers m = (pools, slices, reservations)
      \<and> SetupIPPoolReconciler k (oe_Controller env) (fl_reconcileInterval f) (options_of f cidrs) = Inr pools
      \<and> SetupNodeSliceReconciler k (oe_Controller env) = Inr slices
      \<and> SetupOverlappingRangeReconciler k (oe_Controller env) (fl_reconcileInterval f) (options_of f cidrs) = Inr reservations"
    using c(1-3) unfolding SetupWithManager_def by (auto split: sum.splits)
qed

text \<open>
  C13: The operator forgets no pool: with a positive interval, from the start of its controllers, with an
  empty cache, and whatever is stored, received and reconciled in which order, each stored pool
  that the controller has not released is in the work queue once its last change has been received,
  so that its allocations are checked again. The filter on the events and the results of
  \<^verbatim>\<open>Reconcile\<close> together ensure this.
\<close>

theorem operator_forgets_no_pool:
  assumes "RunE env k f w0 = (Inr m, w1)" "fl_reconcileInterval f > 0" "pool_service k view"
    and "\<And>key. ws_cache (view w) key = None" "ordered (keeps_deletion ip_Meta) (view w)"
    and "(worker (fst (sm_Controllers m)) (keeps_deletion ip_Meta) view)\<^sup>*\<^sup>* w w'"
    and "ws_pending (view w') key = []" "stored (view w') key = Some pool" "pool_needs pool"
  shows "key \<in> ws_queue (view w')"
proof -
  obtain cidrs where "SetupIPPoolReconciler k (oe_Controller env) (fl_reconcileInterval f) (options_of f cidrs) = Inr (fst (sm_Controllers m))"
    using started_operator(2) [OF assms(1)] by auto
  from no_pool_forgotten [where view = view, OF this assms(2-9)] show ?thesis .
qed

definition willing :: "IPPool watch_state op_env" where
  "willing = \<lparr> oe_GetConfig = None, oe_NewManager = (\<lambda>_. None), oe_Controller = (\<lambda>_. None), oe_NewClient = None,
     oe_GetSecret = (\<lambda>_ _ w. (Inl (ApiErr NotFound), w)), oe_CreateSecret = (\<lambda>_ w. (Inr (), w)), oe_AddRotator = (\<lambda>_. None),
     oe_AddRunnable = None, oe_AddCheck = (\<lambda>_. None), oe_Webhook = (\<lambda>_. None) \<rparr>"

theorem operator_forgets_no_pool_witness:
  "\<exists>m w1. RunE willing pools_only (default_flags ''kube-system'') start_ex = (Inr m, w1)
    \<and> (worker (fst (sm_Controllers m)) (keeps_deletion ip_Meta) id)\<^sup>*\<^sup>* start_ex end_ex \<and> pool_key \<in> ws_queue end_ex"
proof -
  let ?f = "default_flags ''kube-system''"
  obtain m w1 where r: "RunE willing pools_only ?f start_ex = (Inr m, w1)"
    by (simp add: RunE_def Enable_def ensureSecret_def rotation_Validate_def webhook_SetupWithManager_def SetupWithManager_def SetupIPPoolReconciler_def
      SetupNodeSliceReconciler_def SetupOverlappingRangeReconciler_def Complete_def parseServiceCIDRs_def willing_def default_flags_def cert_options_of_def Let_def)
  obtain cidrs where "SetupIPPoolReconciler pools_only (oe_Controller willing) (fl_reconcileInterval ?f) (options_of ?f cidrs) = Inr (fst (sm_Controllers m))"
    using started_operator(2) [OF r] by auto
  note run = start_run [OF this]
  have i: "fl_reconcileInterval ?f > 0" by (simp add: default_flags_def)
  have "pool_needs (finalized (pool_with []))" by (simp add: pool_needs_def finalized_def)
  from operator_forgets_no_pool [where view = id, OF r i pools_only_service _ _ run(1) _ _ this] have "pool_key \<in> ws_queue (id end_ex)"
    using run(2) start_ordered by (simp add: start_ex_def)
  then show ?thesis using r run(1) by auto
qed

text \<open>Nothing is started without a namespace: the Secret's key would be incomplete.\<close>

lemma no_namespace_no_start: "fl_namespace f = [] \<Longrightarrow> \<exists>e w'. RunE env k f w = (Inl e, w')"
  unfolding RunE_def Enable_def Let_def
  by (auto simp: rotation_Validate_def cert_options_of_def split: option.splits sum.splits prod.splits)

lemma webhook_inv:
  assumes "(webhook_step env)\<^sup>*\<^sup>* s s'" "webhook_SetupWithManager env = Inr s"
  shows "(wr_phase s' \<noteq> Waiting \<and> wr_phase s' \<noteq> Cancelled \<longrightarrow> wr_certReady s')
    \<and> (case wr_phase s' of Registering ns \<Rightarrow> wr_registered s' @ ns = webhook_setups | Ready \<Rightarrow> wr_registered s' = webhook_setups
       | Failed _ \<Rightarrow> \<exists>n. oe_Webhook env n \<noteq> None | _ \<Rightarrow> wr_registered s' = [])"
  using assms(1)
proof (induction rule: rtranclp_induct)
  case base
  then show ?case using assms(2) by (auto simp: webhook_SetupWithManager_def split: option.splits)
next
  case (step s1 s2)
  from step.hyps(2) step.IH show ?case by (cases rule: webhook_step.cases) (auto split: setup_phase.splits)
qed

text \<open>
  The operator reports that it is ready only when the certificates are and all three webhooks are
  registered, and it gets there if the certificates become ready, nothing is cancelled and no
  registration fails.
\<close>

theorem ready_means_registered:
  assumes "webhook_SetupWithManager env = Inr s" "(webhook_step env)\<^sup>*\<^sup>* s s'"
  shows "ReadyChecker s' = None \<longrightarrow> wr_certReady s' \<and> wr_registered s' = webhook_setups"
    and "wr_phase s' \<noteq> Cancelled \<and> (\<forall>n. oe_Webhook env n = None) \<longrightarrow> (\<exists>s2. (webhook_step env)\<^sup>*\<^sup>* s' s2 \<and> ReadyChecker s2 = None)"
proof -
  show "ReadyChecker s' = None \<longrightarrow> wr_certReady s' \<and> wr_registered s' = webhook_setups"
    using webhook_inv [OF assms(2,1)] by (auto simp: ReadyChecker_def split: if_splits)
  have reg: "\<exists>s2. (webhook_step env)\<^sup>*\<^sup>* s1 s2 \<and> ReadyChecker s2 = None"
    if "wr_phase s1 = Registering ns" "\<forall>n. oe_Webhook env n = None" for s1 ns
    using that
  proof (induction ns arbitrary: s1)
    case Nil
    then have "webhook_step env s1 (s1\<lparr>wr_phase := Ready\<rparr>)" by (intro webhook_step.closed)
    then show ?case by (intro exI [of _ "s1\<lparr>wr_phase := Ready\<rparr>"]) (simp add: ReadyChecker_def)
  next
    case (Cons n ns)
    let ?s = "s1\<lparr>wr_registered := wr_registered s1 @ [n], wr_phase := Registering ns\<rparr>"
    have st: "webhook_step env s1 ?s" using Cons.prems by (intro webhook_step.registered) auto
    obtain s2 where "(webhook_step env)\<^sup>*\<^sup>* ?s s2" "ReadyChecker s2 = None" using Cons.IH [of ?s] Cons.prems(2) by auto
    then show ?case using converse_rtranclp_into_rtranclp [of "webhook_step env", OF st] by blast
  qed
  have wait: "\<exists>s2. (webhook_step env)\<^sup>*\<^sup>* s1 s2 \<and> ReadyChecker s2 = None"
    if w: "wr_phase s1 = Waiting" "\<forall>n. oe_Webhook env n = None" for s1
  proof -
    let ?c = "s1\<lparr>wr_certReady := True\<rparr>"
    let ?r = "?c\<lparr>wr_phase := Registering webhook_setups\<rparr>"
    have "webhook_step env s1 ?c" "webhook_step env ?c ?r"
      using w(1) webhook_step.certificate webhook_step.ready [of ?c env] by auto
    then have "(webhook_step env)\<^sup>*\<^sup>* s1 ?r" using converse_rtranclp_into_rtranclp r_into_rtranclp by metis
    moreover obtain s2 where "(webhook_step env)\<^sup>*\<^sup>* ?r s2" "ReadyChecker s2 = None" using reg [of ?r] w(2) by auto
    ultimately show ?thesis by (meson rtranclp_trans)
  qed
  show "wr_phase s' \<noteq> Cancelled \<and> (\<forall>n. oe_Webhook env n = None) \<longrightarrow> (\<exists>s2. (webhook_step env)\<^sup>*\<^sup>* s' s2 \<and> ReadyChecker s2 = None)"
    using webhook_inv [OF assms(2,1)] reg wait by (cases "wr_phase s'") (auto simp: ReadyChecker_def)
qed

end
