(* ===== verification/Install.thy ===== *)
theory Install
  imports Config Client
begin

text \<open>
  \<^verbatim>\<open>cmd/install-cni/main.go\<close>: the installer that places the plugin's binary, kubeconfig and
  configuration on the node and renews the kubeconfig when the credentials rotate. The file
  system is the map from paths to files that all processes of the node share; what other
  processes do between two system calls of the installer, which calls fail and how much a failing
  write has written are parameters. Opening and reading a file is one call. The encoders for the
  kubeconfig and for JSON and the hash are parameters; directories, durability after a power
  loss and logging are left out.
\<close>

section \<open>The file system\<close>

record fs_file =
  f_Data :: string
  f_Mode :: nat
  f_Regular :: bool

type_synonym files = "string \<Rightarrow> fs_file option"

text \<open>
  The rest of the machine: what the others do before the \<open>n\<close>-th call, whether this call fails,
  the number of bytes a failing write has written, and the random numbers of temporary names.
\<close>

record host =
  h_other :: "nat \<Rightarrow> files \<Rightarrow> files"
  h_fault :: "nat \<Rightarrow> err option"
  h_partial :: "nat \<Rightarrow> nat"
  h_rand :: "nat \<Rightarrow> nat"

text \<open>The state, with the number of calls made and every file system that could be observed, the latest first.\<close>

record sys =
  s_files :: files
  s_calls :: nat
  s_seen :: "files list"

definition syscall :: "host \<Rightarrow> (files \<Rightarrow> files) \<Rightarrow> (files \<Rightarrow> 'a result \<times> files) \<Rightarrow> sys \<Rightarrow> 'a result \<times> sys" where
  "syscall h failing call s =
     (let n = s_calls s; fs = h_other h n (s_files s)
      in case (case h_fault h n of Some e \<Rightarrow> (Inl e, failing fs) | None \<Rightarrow> call fs) of
           (r, fs') \<Rightarrow> (r, \<lparr> s_files = fs', s_calls = Suc n, s_seen = fs' # fs # s_seen s \<rparr>))"

definition noent :: err where
  "noent = Msg ''no such file or directory''"

definition ReadFile :: "host \<Rightarrow> string \<Rightarrow> sys \<Rightarrow> string result \<times> sys" where
  "ReadFile h path = syscall h id (\<lambda>fs. (case fs path of None \<Rightarrow> Inl noent | Some f \<Rightarrow> Inr (f_Data f), fs))"

definition Stat :: "host \<Rightarrow> string \<Rightarrow> sys \<Rightarrow> fs_file result \<times> sys" where
  "Stat h path = syscall h id (\<lambda>fs. (case fs path of None \<Rightarrow> Inl noent | Some f \<Rightarrow> Inr f, fs))"

text \<open>A call that does not change the files: \<^verbatim>\<open>MkdirAll\<close>, \<^verbatim>\<open>Sync\<close>, \<^verbatim>\<open>Close\<close> and opening a directory.\<close>

definition Plain :: "host \<Rightarrow> sys \<Rightarrow> unit result \<times> sys" where
  "Plain h = syscall h id (\<lambda>fs. (Inr (), fs))"

definition temp_name :: "string \<Rightarrow> nat \<Rightarrow> string" where
  "temp_name dir n = Join dir (''.whereabouts-tmp-'' @ dec n)"

text \<open>\<^verbatim>\<open>os.CreateTemp\<close> tries up to 10000 random names until one does not exist.\<close>

fun temp_search :: "host \<Rightarrow> string \<Rightarrow> files \<Rightarrow> nat \<Rightarrow> nat \<Rightarrow> string option" where
  "temp_search h dir fs fuel i =
     (if fuel = 0 then None
      else let tmp = temp_name dir (h_rand h i)
           in if fs tmp = None then Some tmp else temp_search h dir fs (fuel - 1) (Suc i))"

declare temp_search.simps [simp del]

definition CreateTemp :: "host \<Rightarrow> string \<Rightarrow> sys \<Rightarrow> string result \<times> sys" where
  "CreateTemp h dir s = syscall h id (\<lambda>fs. case temp_search h dir fs 10000 (s_calls s) of
     None \<Rightarrow> (Inl (Msg ''file exists''), fs)
   | Some tmp \<Rightarrow> (Inr tmp, fs(tmp \<mapsto> \<lparr> f_Data = [], f_Mode = 0x180, f_Regular = True \<rparr>))) s"

definition appended :: "string \<Rightarrow> string \<Rightarrow> files \<Rightarrow> files" where
  "appended tmp d fs = (case fs tmp of None \<Rightarrow> fs | Some f \<Rightarrow> fs(tmp \<mapsto> f\<lparr>f_Data := f_Data f @ d\<rparr>))"

definition Write :: "host \<Rightarrow> string \<Rightarrow> string \<Rightarrow> sys \<Rightarrow> unit result \<times> sys" where
  "Write h tmp d s = syscall h (appended tmp (take (h_partial h (s_calls s)) d)) (\<lambda>fs. (Inr (), appended tmp d fs)) s"

definition Chmod :: "host \<Rightarrow> string \<Rightarrow> nat \<Rightarrow> sys \<Rightarrow> unit result \<times> sys" where
  "Chmod h tmp mode = syscall h id (\<lambda>fs. (Inr (), case fs tmp of None \<Rightarrow> fs | Some f \<Rightarrow> fs(tmp \<mapsto> f\<lparr>f_Mode := mode\<rparr>)))"

definition Rename :: "host \<Rightarrow> string \<Rightarrow> string \<Rightarrow> sys \<Rightarrow> unit result \<times> sys" where
  "Rename h tmp path = syscall h id (\<lambda>fs. case fs tmp of
     None \<Rightarrow> (Inl noent, fs) | Some f \<Rightarrow> (Inr (), fs(tmp := None, path \<mapsto> f)))"

definition Remove :: "host \<Rightarrow> string \<Rightarrow> sys \<Rightarrow> unit result \<times> sys" where
  "Remove h tmp = syscall h id (\<lambda>fs. case fs tmp of None \<Rightarrow> (Inl noent, fs) | Some _ \<Rightarrow> (Inr (), fs(tmp := None)))"

section \<open>Writing files\<close>

definition sbind :: "(sys \<Rightarrow> 'a result \<times> sys) \<Rightarrow> ('a \<Rightarrow> sys \<Rightarrow> 'b result \<times> sys) \<Rightarrow> sys \<Rightarrow> 'b result \<times> sys" where
  "sbind m f s = (case m s of (Inl e, s) \<Rightarrow> (Inl e, s) | (Inr x, s) \<Rightarrow> f x s)"

text \<open>A step on an open temporary file: it is closed on an error.\<close>

definition or_close :: "host \<Rightarrow> (sys \<Rightarrow> unit result \<times> sys) \<Rightarrow> sys \<Rightarrow> unit result \<times> sys" where
  "or_close h m s = (case m s of (Inl e, s) \<Rightarrow> (Inl e, snd (Plain h s)) | (Inr x, s) \<Rightarrow> (Inr x, s))"

definition syncDirectory :: "host \<Rightarrow> string \<Rightarrow> sys \<Rightarrow> unit result \<times> sys" where
  "syncDirectory h path = sbind (Plain h) (\<lambda>_ s. case Plain h s of (syncErr, s) \<Rightarrow> (syncErr, snd (Plain h s)))"

text \<open>
  The steps from the temporary file to its place, the same in \<^verbatim>\<open>atomicWriteFile\<close> and \<^verbatim>\<open>copyFile\<close>
  up to the source of the data; \<^verbatim>\<open>io.Copy\<close> is a read and a write.
\<close>

definition fill_and_rename ::
  "host \<Rightarrow> string \<Rightarrow> string \<Rightarrow> (sys \<Rightarrow> string result \<times> sys) \<Rightarrow> nat \<Rightarrow> sys \<Rightarrow> unit result \<times> sys" where
  "fill_and_rename h tmp path source mode =
     sbind (or_close h (sbind source (Write h tmp))) (\<lambda>_.
     sbind (or_close h (Chmod h tmp mode)) (\<lambda>_.
     sbind (or_close h (Plain h)) (\<lambda>_.
     sbind (Plain h) (\<lambda>_.
     sbind (Rename h tmp path) (\<lambda>_. syncDirectory h (Dir path))))))"

text \<open>With the deferred removal of the temporary file.\<close>

definition via_temp :: "host \<Rightarrow> string \<Rightarrow> (sys \<Rightarrow> string result \<times> sys) \<Rightarrow> nat \<Rightarrow> sys \<Rightarrow> unit result \<times> sys" where
  "via_temp h path source mode = sbind (CreateTemp h (Dir path)) (\<lambda>tmp s.
     case fill_and_rename h tmp path source mode s of (r, s) \<Rightarrow> (r, snd (Remove h tmp s)))"

definition defaultKubeConfigMode :: nat where
  "defaultKubeConfigMode = 0x180"

definition atomicWriteFile :: "host \<Rightarrow> string \<Rightarrow> string \<Rightarrow> sys \<Rightarrow> unit result \<times> sys" where
  "atomicWriteFile h path d = via_temp h path (\<lambda>s. (Inr d, s)) defaultKubeConfigMode"

text \<open>Opening the source fails like \<^verbatim>\<open>os.Stat\<close> does; the last call closes it.\<close>

definition copyFile :: "host \<Rightarrow> string \<Rightarrow> string \<Rightarrow> sys \<Rightarrow> unit result \<times> sys" where
  "copyFile h src dst = sbind (Stat h src) (\<lambda>info s.
     if \<not> f_Regular info then (Inl (Msg ''source must be a regular file''), s)
     else if f_Data info = [] then (Inl (Msg ''source file is empty''), s)
     else sbind (Stat h src) (\<lambda>_ s. case via_temp h dst (ReadFile h src) 0x1ED s of (r, s) \<Rightarrow> (r, snd (Plain h s))) s)"

section \<open>The configuration of the installer\<close>

record config =
  CNIBinDir :: string
  CNIBinSrc :: string
  CNIConfDir :: string
  ServiceAccountPath :: string
  KubeCAFile :: string
  SkipTLSVerify :: bool
  KubeProtocol :: string
  KubeHost :: string
  KubePort :: string
  c_Namespace :: string
  NodeName :: string

definition envOr :: "(string \<Rightarrow> string) \<Rightarrow> string \<Rightarrow> string \<Rightarrow> string" where
  "envOr getenv key fallback = (if getenv key \<noteq> [] then getenv key else fallback)"

definition loadConfig :: "(string \<Rightarrow> string) \<Rightarrow> config result" where
  "loadConfig getenv =
     (let saPath = envOr getenv ''SERVICE_ACCOUNT_PATH'' ''/var/run/secrets/kubernetes.io/serviceaccount'';
          c = \<lparr> CNIBinDir = envOr getenv ''CNI_BIN_DIR'' ''/host/opt/cni/bin/'', CNIBinSrc = envOr getenv ''CNI_BIN_SRC'' ''/whereabouts'',
                CNIConfDir = envOr getenv ''CNI_CONF_DIR'' ''/host/etc/cni/net.d'', ServiceAccountPath = saPath,
                KubeCAFile = envOr getenv ''KUBE_CA_FILE'' (Join saPath ''ca.crt''),
                SkipTLSVerify = (envOr getenv ''SKIP_TLS_VERIFY'' ''false'' = ''true''),
                KubeProtocol = envOr getenv ''KUBERNETES_SERVICE_PROTOCOL'' ''https'',
                KubeHost = getenv ''KUBERNETES_SERVICE_HOST'', KubePort = getenv ''KUBERNETES_SERVICE_PORT'',
                c_Namespace = getenv ''WHEREABOUTS_NAMESPACE'', NodeName = getenv ''NODENAME'' \<rparr>
      in if KubeHost c = [] then Inl (Msg ''KUBERNETES_SERVICE_HOST not set'')
         else if KubePort c = [] then Inl (Msg ''KUBERNETES_SERVICE_PORT not set'')
         else Inr c)"

definition tokenPath :: "config \<Rightarrow> string" where
  "tokenPath c = Join (ServiceAccountPath c) ''token''"

definition confDir :: "config \<Rightarrow> string" where
  "confDir c = Join (CNIConfDir c) ''whereabouts.d''"

definition kubeconfigPath :: "config \<Rightarrow> string" where
  "kubeconfigPath c = Join (confDir c) ''whereabouts.kubeconfig''"

definition whereaboutsConfPath :: "config \<Rightarrow> string" where
  "whereaboutsConfPath c = Join (confDir c) ''whereabouts.conf''"

definition nodeNamePath :: "config \<Rightarrow> string" where
  "nodeNamePath c = Join (confDir c) ''nodename''"

definition hostLiteralPath :: "string \<Rightarrow> string" where
  "hostLiteralPath path =
     (if path = ''/host'' then ''/'' else if take 6 path = ''/host/'' then drop 5 path else path)"

definition kubeconfigLiteral :: "config \<Rightarrow> string" where
  "kubeconfigLiteral c = hostLiteralPath (kubeconfigPath c)"

definition configurationPathLiteral :: "config \<Rightarrow> string" where
  "configurationPathLiteral c = hostLiteralPath (confDir c)"

definition wrappedHost :: "config \<Rightarrow> string" where
  "wrappedHost c = (if CHR '':'' \<in> set (KubeHost c) then ''['' @ KubeHost c @ '']'' else KubeHost c)"

section \<open>Kubeconfig, configuration and node name\<close>

record whereaboutsConf =
  wc_Datastore :: string
  wc_ConfigurationPath :: string
  wc_Kubeconfig :: string

text \<open>\<^verbatim>\<open>clientcmd.Write\<close>, \<^verbatim>\<open>json.MarshalIndent\<close> and the SHA-256 of a file in hexadecimal.\<close>

record encoders =
  e_Write :: "Kubeconfig \<Rightarrow> string result"
  e_Marshal :: "whereaboutsConf \<Rightarrow> string result"
  e_Sha256 :: "string \<Rightarrow> string"

definition kubeconfig_for :: "config \<Rightarrow> string \<Rightarrow> string \<Rightarrow> Kubeconfig" where
  "kubeconfig_for cfg token ca =
     \<lparr> kc_Clusters = [(''local'', \<lparr> kcl_Server = KubeProtocol cfg @ ''://'' @ wrappedHost cfg @ '':'' @ KubePort cfg,
         kcl_InsecureSkipTLSVerify = SkipTLSVerify cfg, kcl_CertificateAuthorityData = ca \<rparr>)],
       kc_AuthInfos = [(''whereabouts'', token)],
       kc_Contexts = [(''whereabouts-context'', Some \<lparr> kcx_Cluster = ''local'', kcx_AuthInfo = ''whereabouts'',
         kcx_Namespace = c_Namespace cfg \<rparr>)],
       kc_CurrentContext = ''whereabouts-context'' \<rparr>"

definition read_ca :: "host \<Rightarrow> config \<Rightarrow> sys \<Rightarrow> string result \<times> sys" where
  "read_ca h cfg s =
     (if SkipTLSVerify cfg then (Inr [], s)
      else sbind (ReadFile h (KubeCAFile cfg)) (\<lambda>caBytes s.
        (if TrimSpace caBytes = [] then Inl (Msg ''CA data is empty'') else Inr caBytes, s)) s)"

definition writeKubeConfig :: "host \<Rightarrow> encoders \<Rightarrow> config \<Rightarrow> sys \<Rightarrow> unit result \<times> sys" where
  "writeKubeConfig h en cfg =
     sbind (ReadFile h (tokenPath cfg)) (\<lambda>tokenBytes s.
       let token = TrimSpace tokenBytes
       in if token = [] then (Inl (Msg ''token is empty''), s)
          else sbind (read_ca h cfg) (\<lambda>ca s. case e_Write en (kubeconfig_for cfg token ca) of
                 Inl e \<Rightarrow> (Inl e, s)
               | Inr d \<Rightarrow> atomicWriteFile h (kubeconfigPath cfg) d s) s)"

definition conf_for :: "config \<Rightarrow> whereaboutsConf" where
  "conf_for cfg = \<lparr> wc_Datastore = ''kubernetes'', wc_ConfigurationPath = configurationPathLiteral cfg,
     wc_Kubeconfig = kubeconfigLiteral cfg \<rparr>"

definition writeWhereaboutsConf :: "host \<Rightarrow> encoders \<Rightarrow> config \<Rightarrow> sys \<Rightarrow> unit result \<times> sys" where
  "writeWhereaboutsConf h en cfg s = (case e_Marshal en (conf_for cfg) of
     Inl e \<Rightarrow> (Inl e, s)
   | Inr d \<Rightarrow> atomicWriteFile h (whereaboutsConfPath cfg) (d @ [char_of (10 :: nat)]) s)"

definition writeNodeNameFile :: "host \<Rightarrow> config \<Rightarrow> sys \<Rightarrow> unit result \<times> sys" where
  "writeNodeNameFile h cfg s =
     (let nodeName = TrimSpace (NodeName cfg)
      in if nodeName = [] then (Inr (), s) else atomicWriteFile h (nodeNamePath cfg) nodeName s)"

section \<open>Watching the credentials\<close>

definition fileHash :: "host \<Rightarrow> encoders \<Rightarrow> string \<Rightarrow> sys \<Rightarrow> string \<times> sys" where
  "fileHash h en path s = (case ReadFile h path s of (Inl _, s) \<Rightarrow> ([], s) | (Inr d, s) \<Rightarrow> (e_Sha256 en d, s))"

definition maybeRegenerate ::
  "host \<Rightarrow> encoders \<Rightarrow> config \<Rightarrow> string \<times> string \<Rightarrow> sys \<Rightarrow> (string \<times> string) \<times> sys" where
  "maybeRegenerate h en cfg prev s0 =
     (let (newToken, s1) = fileHash h en (tokenPath cfg) s0;
          (newCA, s2) = fileHash h en (KubeCAFile cfg) s1;
          changed = (newToken \<noteq> fst prev \<or> \<not> SkipTLSVerify cfg \<and> newCA \<noteq> snd prev)
      in if changed
         then (case writeKubeConfig h en cfg s2 of
                 (Inl _, s) \<Rightarrow> (prev, s)
               | (Inr _, s) \<Rightarrow> ((newToken, newCA), s))
         else ((newToken, newCA), s2))"

text \<open>
  What the loops select on: the end of the context, an event (with whether it is a creation or a
  write), an error of the watcher, a closed channel, a tick of the timer.
\<close>

datatype watch_event = Done | Event bool | Watch_error | Closed | Tick

fun watch_loop ::
  "host \<Rightarrow> encoders \<Rightarrow> config \<Rightarrow> watch_event list \<Rightarrow> string \<times> string \<Rightarrow> sys \<Rightarrow> (string \<times> string) \<times> sys" where
  "watch_loop h en cfg [] hashes s = (hashes, s)"
| "watch_loop h en cfg (ev # evs) hashes s = (case ev of
     Done \<Rightarrow> (hashes, s)
   | Closed \<Rightarrow> (hashes, s)
   | Watch_error \<Rightarrow> watch_loop h en cfg evs hashes s
   | Event relevant \<Rightarrow>
       if \<not> relevant then watch_loop h en cfg evs hashes s
       else (case maybeRegenerate h en cfg hashes s of (hashes', s) \<Rightarrow> watch_loop h en cfg evs hashes' s)
   | Tick \<Rightarrow> (case maybeRegenerate h en cfg hashes s of (hashes', s) \<Rightarrow> watch_loop h en cfg evs hashes' s))"

text \<open>Without a watcher only the context and the timer are waited for.\<close>

definition pollLoop ::
  "host \<Rightarrow> encoders \<Rightarrow> config \<Rightarrow> watch_event list \<Rightarrow> string \<times> string \<Rightarrow> sys \<Rightarrow> (string \<times> string) \<times> sys" where
  "pollLoop h en cfg evs = watch_loop h en cfg (filter (\<lambda>ev. ev \<in> {Done, Tick}) evs)"

definition watchAndRegenerate ::
  "host \<Rightarrow> encoders \<Rightarrow> config \<Rightarrow> bool \<Rightarrow> watch_event list \<Rightarrow> sys \<Rightarrow> (string \<times> string) \<times> sys" where
  "watchAndRegenerate h en cfg watching evs s0 =
     (let (tokenHash, s1) = fileHash h en (tokenPath cfg) s0;
          (caHash, s2) = fileHash h en (KubeCAFile cfg) s1
      in if watching then watch_loop h en cfg evs (tokenHash, caHash) s2
         else pollLoop h en cfg evs (tokenHash, caHash) s2)"

definition install_files :: "host \<Rightarrow> encoders \<Rightarrow> config \<Rightarrow> sys \<Rightarrow> unit result \<times> sys" where
  "install_files h en cfg =
     sbind (Plain h) (\<lambda>_.
     sbind (writeKubeConfig h en cfg) (\<lambda>_.
     sbind (writeWhereaboutsConf h en cfg) (\<lambda>_.
     sbind (writeNodeNameFile h cfg) (\<lambda>_. copyFile h (CNIBinSrc cfg) (Join (CNIBinDir cfg) ''whereabouts'')))))"

definition run ::
  "host \<Rightarrow> encoders \<Rightarrow> (string \<Rightarrow> string) \<Rightarrow> bool \<Rightarrow> watch_event list \<Rightarrow> sys \<Rightarrow> err option \<times> sys" where
  "run h en getenv watching evs s = (case loadConfig getenv of
     Inl e \<Rightarrow> (Some (Wrap ''loading configuration'' e), s)
   | Inr cfg \<Rightarrow> (case install_files h en cfg s of
       (Inl e, s) \<Rightarrow> (Some e, s)
     | (Inr _, s) \<Rightarrow> (None, snd (watchAndRegenerate h en cfg watching evs s))))"

section \<open>Writing is atomic\<close>

text \<open>
  Triples: from files with \<open>P\<close>, a computation ends in files with \<open>Q r\<close>, and every file system that
  others can observe meanwhile has \<open>T\<close>.
\<close>

definition triple :: "(files \<Rightarrow> bool) \<Rightarrow> (sys \<Rightarrow> 'a result \<times> sys) \<Rightarrow> ('a result \<Rightarrow> files \<Rightarrow> bool) \<Rightarrow> (files \<Rightarrow> bool) \<Rightarrow> bool" where
  "triple P m Q T \<longleftrightarrow> (\<forall>s r s'. P (s_files s) \<longrightarrow> m s = (r, s') \<longrightarrow>
     Q r (s_files s') \<and> (\<forall>fs\<in>set (s_seen s'). fs \<in> set (s_seen s) \<or> T fs))"

definition rely :: "host \<Rightarrow> (files \<Rightarrow> bool) \<Rightarrow> bool" where
  "rely h P \<longleftrightarrow> (\<forall>n fs. P fs \<longrightarrow> P (h_other h n fs))"

abbreviation isr :: "'a result \<Rightarrow> bool" where
  "isr r \<equiv> \<not> isl r"

definition calm :: "host \<Rightarrow> bool" where
  "calm h \<longleftrightarrow> (\<forall>n. h_fault h n = None)"

lemma triple_syscall_state:
  assumes st: "rely h P" and PT: "\<And>fs. P fs \<Longrightarrow> T fs"
    and f: "\<And>s fs e. P fs \<Longrightarrow> \<not> calm h \<Longrightarrow> Q (Inl e) (failing s fs) \<and> T (failing s fs)"
    and c: "\<And>s fs r fs'. P fs \<Longrightarrow> call s fs = (r, fs') \<Longrightarrow> Q r fs' \<and> T fs'"
  shows "triple P (\<lambda>s. syscall h (failing s) (call s) s) Q T"
  unfolding triple_def
proof (intro allI impI)
  fix s r s' assume p: "P (s_files s)" and run: "syscall h (failing s) (call s) s = (r, s')"
  let ?fs = "h_other h (s_calls s) (s_files s)"
  have P: "P ?fs" using st p by (simp add: rely_def)
  obtain r1 fs1 where x: "(case h_fault h (s_calls s) of Some e \<Rightarrow> (Inl e, failing s ?fs) | None \<Rightarrow> call s ?fs) = (r1, fs1)"
    by fastforce
  have "Q r1 fs1 \<and> T fs1"
  proof (cases "h_fault h (s_calls s)")
    case None
    then show ?thesis using x c [OF P] by simp
  next
    case (Some e)
    then have "\<not> calm h" by (auto simp: calm_def)
    then show ?thesis using Some x f [OF P, of e s] by auto
  qed
  moreover have "r = r1" "s' = \<lparr> s_files = fs1, s_calls = Suc (s_calls s), s_seen = fs1 # ?fs # s_seen s \<rparr>"
    using run x by (simp_all add: syscall_def Let_def)
  ultimately show "Q r (s_files s') \<and> (\<forall>fs\<in>set (s_seen s'). fs \<in> set (s_seen s) \<or> T fs)"
    using PT [OF P] by simp
qed

lemmas triple_syscall = triple_syscall_state [of _ _ _ _ "\<lambda>_. failing" "\<lambda>_. call" for failing call]

lemma triple_sbind:
  assumes "triple P m Q T" "\<And>e fs. Q (Inl e) fs \<Longrightarrow> R (Inl e) fs" "\<And>x. triple (Q (Inr x)) (f x) R T"
  shows "triple P (sbind m f) R T"
  unfolding triple_def
proof (intro allI impI)
  fix s r s' assume p: "P (s_files s)" and run: "sbind m f s = (r, s')"
  obtain r1 s1 where m: "m s = (r1, s1)" by fastforce
  note q = assms(1) [unfolded triple_def, rule_format, OF p m]
  show "R r (s_files s') \<and> (\<forall>fs\<in>set (s_seen s'). fs \<in> set (s_seen s) \<or> T fs)"
  proof (cases r1)
    case (Inl e)
    then show ?thesis using run m q assms(2) by (auto simp: sbind_def)
  next
    case (Inr x)
    then have "f x s1 = (r, s')" using run m by (simp add: sbind_def)
    then show ?thesis using assms(3) [unfolded triple_def, rule_format, of x s1 r s'] q Inr by auto
  qed
qed

lemma triple_conseq:
  assumes "triple P m Q T" "\<And>fs. P' fs \<Longrightarrow> P fs" "\<And>r fs. Q r fs \<Longrightarrow> Q' r fs"
  shows "triple P' m Q' T"
  using assms unfolding triple_def by blast

lemma triple_forget: "triple P m Q T \<Longrightarrow> triple P m Q (\<lambda>_. True)"
  by (simp add: triple_def)

lemma tripleD:
  assumes "triple P m Q T" "P (s_files s)" "m s = (r, s')"
  shows "Q r (s_files s')" "\<forall>fs\<in>set (s_seen s'). fs \<in> set (s_seen s) \<or> T fs"
  using assms unfolding triple_def by blast+

text \<open>A computation whose outcome is ignored, run after another.\<close>

lemma triple_then:
  assumes "triple P m Q T" "\<And>r. triple (Q r) after (\<lambda>_. R r) T"
  shows "triple P (\<lambda>s. case m s of (r, s) \<Rightarrow> (r, snd (after s))) R T"
  unfolding triple_def
proof (intro allI impI)
  fix s r s' assume p: "P (s_files s)" and run: "(case m s of (r, s) \<Rightarrow> (r, snd (after s))) = (r, s')"
  obtain r1 s1 r2 s2 where m: "m s = (r1, s1)" "after s1 = (r2, s2)" by fastforce
  have "Q r1 (s_files s1)" and t: "\<forall>fs\<in>set (s_seen s1). fs \<in> set (s_seen s) \<or> T fs"
    using assms(1) p m(1) unfolding triple_def by blast+
  with assms(2) [of r1] m(2) have "R r1 (s_files s2)" "\<forall>fs\<in>set (s_seen s2). fs \<in> set (s_seen s1) \<or> T fs"
    unfolding triple_def by blast+
  then show "R r (s_files s') \<and> (\<forall>fs\<in>set (s_seen s'). fs \<in> set (s_seen s) \<or> T fs)"
    using t run m by auto
qed

lemma triple_or_close:
  assumes "triple P m Q T" "\<And>e. triple (Q (Inl e)) (Plain h) (\<lambda>_. Q (Inl e)) T"
  shows "triple P (or_close h m) Q T"
  unfolding triple_def
proof (intro allI impI)
  fix s r s' assume p: "P (s_files s)" and run: "or_close h m s = (r, s')"
  obtain r1 s1 r2 s2 where m: "m s = (r1, s1)" "Plain h s1 = (r2, s2)" by fastforce
  have q: "Q r1 (s_files s1)" "\<forall>fs\<in>set (s_seen s1). fs \<in> set (s_seen s) \<or> T fs"
    using assms(1) p m(1) unfolding triple_def by blast+
  show "Q r (s_files s') \<and> (\<forall>fs\<in>set (s_seen s'). fs \<in> set (s_seen s) \<or> T fs)"
  proof (cases r1)
    case (Inl e)
    then show ?thesis using assms(2) [of e, unfolded triple_def, rule_format, OF q(1) [unfolded Inl] m(2)] q(2) run m
      by (auto simp: or_close_def)
  next
    case (Inr x)
    then show ?thesis using q run m by (auto simp: or_close_def)
  qed
qed

lemma triple_Plain: "rely h P \<Longrightarrow> (\<And>fs. P fs \<Longrightarrow> T fs) \<Longrightarrow> triple P (Plain h) (\<lambda>r fs. P fs \<and> (calm h \<longrightarrow> r = Inr ())) T"
  unfolding Plain_def by (rule triple_syscall) auto

lemma triple_Stat: "rely h P \<Longrightarrow> (\<And>fs. P fs \<Longrightarrow> T fs) \<Longrightarrow> triple P (Stat h p) (\<lambda>_. P) T"
  unfolding Stat_def by (rule triple_syscall) auto

lemma triple_ReadFile:
  "rely h P \<Longrightarrow> (\<And>fs. P fs \<Longrightarrow> T fs) \<Longrightarrow> triple P (ReadFile h p) (\<lambda>_. P) T"
  unfolding ReadFile_def by (rule triple_syscall) auto

text \<open>
  No other process touches the target and the temporary names beside it; \<open>F\<close> is a fact about the
  other files that the other processes keep.
\<close>

definition undisturbed :: "host \<Rightarrow> string \<Rightarrow> (files \<Rightarrow> bool) \<Rightarrow> bool" where
  "undisturbed h path F \<longleftrightarrow> path \<notin> range (temp_name (Dir path))
     \<and> (\<forall>n fs. h_other h n fs path = fs path
          \<and> (\<forall>i. h_other h n fs (temp_name (Dir path) i) = fs (temp_name (Dir path) i)) \<and> (F fs \<longrightarrow> F (h_other h n fs)))
     \<and> (\<forall>fs q v. F fs \<longrightarrow> q = path \<or> q \<in> range (temp_name (Dir path)) \<longrightarrow> F (fs(q := v)))"

lemma undisturbed_rely:
  assumes "undisturbed h path F" "tmp \<in> range (temp_name (Dir path))"
  shows "rely h (\<lambda>fs. A (fs path) (fs tmp) \<and> F fs)" "tmp \<noteq> path" "\<And>fs v. F fs \<Longrightarrow> F (fs(path := v))" "\<And>fs v. F fs \<Longrightarrow> F (fs(tmp := v))"
  using assms unfolding undisturbed_def rely_def by (force, blast+)

definition new_file :: "string \<Rightarrow> nat \<Rightarrow> fs_file" where
  "new_file d mode = \<lparr> f_Data = d, f_Mode = mode, f_Regular = True \<rparr>"

text \<open>Before or after the write, and never anything else.\<close>

definition old_or_new :: "string \<Rightarrow> fs_file option \<Rightarrow> fs_file \<Rightarrow> (files \<Rightarrow> bool) \<Rightarrow> files \<Rightarrow> bool" where
  "old_or_new path old new F fs \<longleftrightarrow> (fs path = old \<or> fs path = Some new) \<and> F fs"

lemma fill_and_rename_triple:
  assumes u: "undisturbed h path F" and t: "tmp \<in> range (temp_name (Dir path))"
    and source: "\<And>A. rely h (\<lambda>fs. A (fs path) (fs tmp) \<and> F fs) \<Longrightarrow> (\<And>fs. A (fs path) (fs tmp) \<and> F fs \<Longrightarrow> old_or_new path old (new_file d mode) F fs)
      \<Longrightarrow> triple (\<lambda>fs. A (fs path) (fs tmp) \<and> F fs) source (\<lambda>r fs. (A (fs path) (fs tmp) \<and> F fs) \<and> (\<forall>x. r = Inr x \<longrightarrow> x = d) \<and> (calm h \<longrightarrow> isr r))
        (old_or_new path old (new_file d mode) F)"
  shows "triple (\<lambda>fs. (fs path = old \<and> fs tmp = Some (new_file [] m)) \<and> F fs) (fill_and_rename h tmp path source mode)
    (\<lambda>r fs. (calm h \<longrightarrow> isr r) \<and> (isr r \<longrightarrow> fs path = Some (new_file d mode)) \<and> old_or_new path old (new_file d mode) F fs)
    (old_or_new path old (new_file d mode) F)"
proof -
  let ?T = "old_or_new path old (new_file d mode) F"
  let ?S = "\<lambda>c fs. (fs path = old \<and> fs tmp = Some c) \<and> F fs" and ?K = "\<lambda>fs. (fs path = old \<and> True) \<and> F fs"
  let ?D = "\<lambda>fs. (fs path = Some (new_file d mode) \<and> True) \<and> F fs"
  note st = undisturbed_rely [OF u t]
  have sS: "rely h (?S c)" for c using st(1) [of "\<lambda>x y. x = old \<and> y = Some c"] by simp
  have sK: "rely h ?K" using st(1) [of "\<lambda>x y. x = old \<and> True"] by simp
  have sD: "rely h ?D" using st(1) [of "\<lambda>x y. x = Some (new_file d mode) \<and> True"] by simp
  have T: "?S c fs \<Longrightarrow> ?T fs" "?K fs \<Longrightarrow> ?T fs" "?D fs \<Longrightarrow> ?T fs" for c fs by (simp_all add: old_or_new_def)
  let ?step = "\<lambda>c r fs. case r of Inl _ \<Rightarrow> \<not> calm h \<and> ?K fs | Inr _ \<Rightarrow> ?S c fs"
  have "triple ?K (Plain h) (\<lambda>_. ?K) ?T" by (rule triple_conseq [OF triple_Plain [OF sK T(2)]]) auto
  then have close: "triple (\<lambda>fs. \<not> calm h \<and> ?K fs) (Plain h) (\<lambda>_ fs. \<not> calm h \<and> ?K fs) ?T"
    unfolding triple_def by blast
  have ap: "?S c fs \<Longrightarrow> appended tmp x fs = fs(tmp \<mapsto> c\<lparr>f_Data := f_Data c @ x\<rparr>)" for c fs x by (simp add: appended_def)
  have ap1: "?K (appended tmp x fs)" if "?S (new_file [] m) fs" for x fs
    using that st(2) st(4) [of fs] unfolding ap [OF that] by simp
  have ap2: "?S (new_file d m) (appended tmp d fs)" if "?S (new_file [] m) fs" for fs
    using that st(2) st(4) [of fs] unfolding ap [OF that] by (simp add: new_file_def)
  have wr: "triple (?S (new_file [] m)) (Write h tmp d) (?step (new_file d m)) ?T"
    unfolding Write_def
  proof (rule triple_syscall_state [OF sS T(1)])
    show "?step (new_file d m) (Inl e) (appended tmp (take (h_partial h (s_calls s)) d) fs)
        \<and> ?T (appended tmp (take (h_partial h (s_calls s)) d) fs)" if "?S (new_file [] m) fs" "\<not> calm h" for s fs e
      using ap1 [OF that(1)] T(2) that(2) by simp
    show "?step (new_file d m) r fs' \<and> ?T fs'" if "?S (new_file [] m) fs" "(Inr (), appended tmp d fs) = (r, fs')" for fs r fs'
    proof -
      have "r = Inr ()" "fs' = appended tmp d fs" using that(2) by simp_all
      then show ?thesis using ap2 [OF that(1)] T(1) [OF ap2 [OF that(1)]] by simp
    qed
  qed
  have "triple (?S (new_file [] m)) (sbind source (Write h tmp)) (?step (new_file d m)) ?T"
  proof (rule triple_sbind [OF source [of "\<lambda>x y. x = old \<and> y = Some (new_file [] m)"]])
    show "triple (\<lambda>fs. ?S (new_file [] m) fs \<and> (\<forall>y. Inr x = Inr y \<longrightarrow> y = d) \<and> (calm h \<longrightarrow> isr (Inr x :: string result))) (Write h tmp x) (?step (new_file d m)) ?T" for x
      using wr by (cases "x = d") (auto simp: triple_def)
  qed (use sS T in auto)
  then have w: "triple (?S (new_file [] m)) (or_close h (sbind source (Write h tmp))) (?step (new_file d m)) ?T"
    by (rule triple_or_close) (use close in simp)
  have "triple (?S (new_file d m)) (Chmod h tmp mode) (?step (new_file d mode)) ?T"
    unfolding Chmod_def using st(2,4) T
    by (intro triple_syscall [OF sS]) (auto simp: new_file_def)
  then have c: "triple (?S (new_file d m)) (or_close h (Chmod h tmp mode)) (?step (new_file d mode)) ?T"
    by (rule triple_or_close) (use close in simp)
  have p: "triple (?S (new_file d mode)) (Plain h) (?step (new_file d mode)) ?T"
    by (rule triple_conseq [OF triple_Plain [OF sS T(1)]]) (auto split: sum.splits)
  then have s: "triple (?S (new_file d mode)) (or_close h (Plain h)) (?step (new_file d mode)) ?T"
    by (rule triple_or_close) (use close in simp)
  have r: "triple (?S (new_file d mode)) (Rename h tmp path) (\<lambda>r fs. case r of Inl _ \<Rightarrow> \<not> calm h \<and> ?K fs | Inr _ \<Rightarrow> ?D fs) ?T"
    unfolding Rename_def using st(2-4) T
    by (intro triple_syscall [OF sS]) (auto split: option.splits)
  let ?Dr = "\<lambda>r fs. ?D fs \<and> (calm h \<longrightarrow> isr r)"
  have pd: "triple ?D (Plain h) ?Dr ?T" by (rule triple_conseq [OF triple_Plain [OF sD T(3)]]) auto
  have pd': "triple (?Dr r) (Plain h) (\<lambda>_. ?Dr r) ?T" for r :: "unit result" using pd unfolding triple_def by blast
  have "triple ?D (syncDirectory h (Dir path)) ?Dr ?T"
    unfolding syncDirectory_def
    by (rule triple_sbind [OF pd], assumption, rule triple_conseq [OF triple_then [OF pd pd']]) auto
  then have d: "triple ?D (syncDirectory h (Dir path))
      (\<lambda>r fs. (calm h \<longrightarrow> isr r) \<and> (isr r \<longrightarrow> fs path = Some (new_file d mode)) \<and> ?T fs) ?T"
    by (rule triple_conseq) (auto simp: old_or_new_def)
  have K: "\<not> calm h \<and> ?K fs \<Longrightarrow> (calm h \<longrightarrow> isr (Inl e :: unit result)) \<and> (isr (Inl e :: unit result) \<longrightarrow> fs path = Some (new_file d mode)) \<and> ?T fs"
    for e fs using T by simp
  show ?thesis
    unfolding fill_and_rename_def
    by (rule triple_sbind [OF w], use K in simp, rule triple_sbind [OF triple_conseq [OF c]], simp, assumption, use K in simp,
        rule triple_sbind [OF triple_conseq [OF s]], simp, assumption, use K in simp,
        rule triple_sbind [OF triple_conseq [OF p]], simp, assumption, use K in simp,
        rule triple_sbind [OF triple_conseq [OF r]], simp, assumption, use K in simp,
        rule triple_conseq [OF d], simp, assumption)
qed

lemma temp_search_range: "temp_search h dir fs fuel i = Some tmp \<Longrightarrow> tmp \<in> range (temp_name dir)"
  by (induction h dir fs fuel i rule: temp_search.induct)
    (subst (asm) (2) temp_search.simps, auto simp: Let_def split: if_splits)

lemma temp_search_cong:
  assumes "\<forall>i. fs (temp_name dir i) = fs' (temp_name dir i)"
  shows "temp_search h dir fs fuel n = temp_search h dir fs' fuel n"
proof (induction fuel arbitrary: n)
  case 0
  show ?case by (simp add: temp_search.simps)
next
  case (Suc fuel)
  then show ?case using assms by (simp add: temp_search.simps [of h dir _ "Suc fuel"] Let_def)
qed

text \<open>A temporary name is left in a directory.\<close>

definition names_left :: "host \<Rightarrow> string \<Rightarrow> files \<Rightarrow> bool" where
  "names_left h dir fs \<longleftrightarrow> (\<forall>i. temp_search h dir fs 10000 i \<noteq> None)"

lemma undisturbed_names:
  assumes "undisturbed h path F"
  shows "names_left h (Dir path) (h_other h n fs) = names_left h (Dir path) fs"
proof -
  have "temp_search h (Dir path) (h_other h n fs) k i = temp_search h (Dir path) fs k i" for k i
    by (rule temp_search_cong) (use assms in \<open>simp add: undisturbed_def\<close>)
  then show ?thesis by (simp add: names_left_def)
qed

lemma CreateTemp_triple:
  assumes "undisturbed h path F"
  shows "triple (\<lambda>fs. (fs path = old \<and> F fs) \<and> (ok \<longrightarrow> names_left h (Dir path) fs)) (CreateTemp h (Dir path))
    (\<lambda>r fs. (fs path = old \<and> F fs) \<and> (\<forall>tmp. r = Inr tmp \<longrightarrow> tmp \<in> range (temp_name (Dir path)) \<and> fs tmp = Some (new_file [] 0x180))
       \<and> (calm h \<and> ok \<longrightarrow> isr r))
    (old_or_new path old new F)"
proof -
  let ?K = "\<lambda>fs. fs path = old \<and> F fs"
  have st: "rely h (\<lambda>fs. ?K fs \<and> (ok \<longrightarrow> names_left h (Dir path) fs))"
    using assms undisturbed_names [OF assms] by (simp add: undisturbed_def rely_def)
  have upd: "?K (fs(tmp := v))" if "?K fs" "tmp \<in> range (temp_name (Dir path))" for fs tmp v
    using undisturbed_rely(2,4) [OF assms that(2)] that(1) by simp
  have Q: "(?K fs' \<and> (\<forall>tmp. r = Inr tmp \<longrightarrow> tmp \<in> range (temp_name (Dir path)) \<and> fs' tmp = Some (new_file [] 0x180))
      \<and> (calm h \<and> ok \<longrightarrow> isr r)) \<and> old_or_new path old new F fs'"
    if kn: "?K fs \<and> (ok \<longrightarrow> names_left h (Dir path) fs)" and c: "(case temp_search h (Dir path) fs 10000 (s_calls s) of
     None \<Rightarrow> (Inl (Msg ''file exists''), fs)
   | Some tmp \<Rightarrow> (Inr tmp, fs(tmp \<mapsto> \<lparr> f_Data = [], f_Mode = 0x180, f_Regular = True \<rparr>))) = (r, fs')" for s :: sys and fs r fs'
  proof (cases "temp_search h (Dir path) fs 10000 (s_calls s)")
    note k = conjunct1 [OF kn]
    case None
    then have "r = Inl (Msg ''file exists'')" "fs' = fs" using c by simp_all
    moreover have "\<not> ok" using None kn unfolding names_left_def by metis
    ultimately show ?thesis using k by (simp add: old_or_new_def)
  next
    note k = conjunct1 [OF kn]
    case (Some tmp)
    then have "r = Inr tmp" "fs' = fs(tmp \<mapsto> new_file [] 0x180)" using c by (simp_all add: new_file_def)
    then show ?thesis using upd [OF k temp_search_range [OF Some]] temp_search_range [OF Some]
      by (simp add: old_or_new_def)
  qed
  show ?thesis
    unfolding CreateTemp_def
    by (rule triple_syscall_state [OF st]) (simp add: old_or_new_def, simp add: old_or_new_def, rule Q)
qed

text \<open>The source of the data gives \<open>d\<close> and changes nothing.\<close>

definition gives :: "host \<Rightarrow> (sys \<Rightarrow> string result \<times> sys) \<Rightarrow> (files \<Rightarrow> bool) \<Rightarrow> string \<Rightarrow> bool" where
  "gives h source F d \<longleftrightarrow> (\<forall>P T. rely h P \<longrightarrow> (\<forall>fs. P fs \<longrightarrow> F fs \<and> T fs) \<longrightarrow>
     triple P source (\<lambda>r fs. P fs \<and> (\<forall>x. r = Inr x \<longrightarrow> x = d) \<and> (calm h \<longrightarrow> isr r)) T)"

lemma gives_const: "gives h (\<lambda>s. (Inr d, s)) F d"
  by (simp add: gives_def triple_def)

lemma gives_ReadFile:
  assumes "\<And>fs. F fs \<Longrightarrow> fs p = Some f"
  shows "gives h (ReadFile h p) F (f_Data f)"
  unfolding gives_def ReadFile_def
proof (intro allI impI triple_syscall)
  fix P T :: "files \<Rightarrow> bool" and fs r fs'
  assume "\<forall>fs. P fs \<longrightarrow> F fs \<and> T fs" "P fs" "(case fs p of None \<Rightarrow> Inl noent | Some f \<Rightarrow> Inr (f_Data f), fs) = (r, fs')"
  then show "(P fs' \<and> (\<forall>x. r = Inr x \<longrightarrow> x = f_Data f) \<and> (calm h \<longrightarrow> isr r)) \<and> T fs'" using assms [of fs] by auto
qed auto

lemma via_temp_triple:
  assumes u: "undisturbed h path F" and g: "gives h source F d"
  shows "triple (\<lambda>fs. (fs path = old \<and> F fs) \<and> (ok \<longrightarrow> names_left h (Dir path) fs)) (via_temp h path source mode)
    (\<lambda>r fs. (calm h \<and> ok \<longrightarrow> isr r) \<and> (isr r \<longrightarrow> fs path = Some (new_file d mode))
       \<and> old_or_new path old (new_file d mode) F fs)
    (old_or_new path old (new_file d mode) F)"
proof -
  let ?T = "old_or_new path old (new_file d mode) F"
  let ?Q = "\<lambda>r fs. (calm h \<and> ok \<longrightarrow> isr r) \<and> (isr r \<longrightarrow> fs path = Some (new_file d mode)) \<and> ?T fs"
  have rm: "triple (?Q r) (Remove h tmp) (\<lambda>_. ?Q r) ?T" if t: "tmp \<in> range (temp_name (Dir path))" for r :: "unit result" and tmp
  proof -
    have st: "rely h (?Q r)"
      using undisturbed_rely(1) [OF u t, of "\<lambda>x y. (calm h \<and> ok \<longrightarrow> isr r) \<and> (isr r \<longrightarrow> x = Some (new_file d mode)) \<and> (x = old \<or> x = Some (new_file d mode))"]
      by (simp add: old_or_new_def conj_assoc)
    have up: "?Q r (fs(tmp := None))" if "?Q r fs" for fs
      using that undisturbed_rely(2,4) [OF u t] by (simp add: old_or_new_def)
    show ?thesis
      unfolding Remove_def by (rule triple_syscall [OF st]) (use up in \<open>auto split: option.splits\<close>)
  qed
  have fr: "triple (\<lambda>fs. (fs path = old \<and> fs tmp = Some (new_file [] 0x180)) \<and> F fs) (fill_and_rename h tmp path source mode) ?Q ?T"
    if "tmp \<in> range (temp_name (Dir path))" for tmp
  proof (rule triple_conseq [OF fill_and_rename_triple [OF u that]])
    fix A assume "rely h (\<lambda>fs. A (fs path) (fs tmp) \<and> F fs)" "\<And>fs. A (fs path) (fs tmp) \<and> F fs \<Longrightarrow> ?T fs"
    then show "triple (\<lambda>fs. A (fs path) (fs tmp) \<and> F fs) source
        (\<lambda>r fs. (A (fs path) (fs tmp) \<and> F fs) \<and> (\<forall>x. r = Inr x \<longrightarrow> x = d) \<and> (calm h \<longrightarrow> isr r)) ?T"
      using g unfolding gives_def by blast
  qed auto
  show ?thesis
    unfolding via_temp_def
  proof (rule triple_sbind [OF CreateTemp_triple [OF u]])
    fix tmp
    show "triple (\<lambda>fs. (fs path = old \<and> F fs) \<and> (\<forall>tmp'. Inr tmp = Inr tmp' \<longrightarrow> tmp' \<in> range (temp_name (Dir path)) \<and> fs tmp' = Some (new_file [] 0x180))
          \<and> (calm h \<and> ok \<longrightarrow> isr (Inr tmp :: string result)))
        (\<lambda>s. case fill_and_rename h tmp path source mode s of (r, s) \<Rightarrow> (r, snd (Remove h tmp s))) ?Q ?T"
    proof (cases "tmp \<in> range (temp_name (Dir path))")
      case True
      show ?thesis by (rule triple_conseq [OF triple_then [OF fr [OF True] rm [OF True]]]) auto
    qed (simp add: triple_def)
  qed (simp add: old_or_new_def)
qed

text \<open>
  C21: writing a file is atomic for the other processes of the node: whatever calls fail, and
  however much a failing write has written, they see the old file or the complete new file with
  its mode at the path, and other files as they keep them; after a success they see the new
  file, and without failing calls the write succeeds.
\<close>

theorem atomicWriteFile_atomic:
  assumes "undisturbed h path F" "F (s_files s)" "atomicWriteFile h path d s = (r, s')"
  shows "(\<forall>fs\<in>set (s_seen s'). fs \<in> set (s_seen s) \<or> old_or_new path (s_files s path) (new_file d 0x180) F fs)
    \<and> (isr r \<longrightarrow> s_files s' path = Some (new_file d 0x180)) \<and> (calm h \<and> names_left h (Dir path) (s_files s) \<longrightarrow> isr r)"
proof -
  note run = assms(3) [unfolded atomicWriteFile_def defaultKubeConfigMode_def]
  show ?thesis
    using tripleD [OF via_temp_triple [OF assms(1) gives_const] _ run, of "s_files s path" "names_left h (Dir path) (s_files s)"] assms(2) by blast
qed

text \<open>The plugin's binary is replaced in the same way, with the complete source.\<close>

theorem copyFile_atomic:
  assumes "undisturbed h dst F" "\<And>fs. F fs \<Longrightarrow> fs src = Some f" "F (s_files s)" "copyFile h src dst s = (r, s')"
  shows "(\<forall>fs\<in>set (s_seen s'). fs \<in> set (s_seen s) \<or> old_or_new dst (s_files s dst) (new_file (f_Data f) 0x1ED) F fs)
    \<and> (isr r \<longrightarrow> s_files s' dst = Some (new_file (f_Data f) 0x1ED))"
proof -
  let ?T = "old_or_new dst (s_files s dst) (new_file (f_Data f) 0x1ED) F"
  let ?K = "\<lambda>fs. fs dst = s_files s dst \<and> F fs"
  let ?Q = "\<lambda>r fs. (isr r \<longrightarrow> fs dst = Some (new_file (f_Data f) 0x1ED)) \<and> ?T fs"
  have st: "rely h ?K" "rely h (?Q r)" for r :: "unit result"
    using assms(1) by (simp_all add: undisturbed_def rely_def old_or_new_def)
  have T: "?K fs \<Longrightarrow> ?T fs" for fs by (simp add: old_or_new_def)
  have v: "triple ?K (via_temp h dst (ReadFile h src) 0x1ED) ?Q ?T"
    by (rule triple_conseq [OF via_temp_triple [OF assms(1) gives_ReadFile [OF assms(2)], where ok = False]]) auto
  have c: "triple (?Q r) (Plain h) (\<lambda>_. ?Q r) ?T" for r :: "unit result"
    by (rule triple_conseq [OF triple_Plain [OF st(2)]]) auto
  have stat: "triple ?K (Stat h src) (\<lambda>_. ?K) ?T" by (rule triple_Stat [OF st(1)]) (rule T)
  have cf: "triple ?K (copyFile h src dst) ?Q ?T"
    unfolding copyFile_def
  proof (rule triple_sbind [OF stat])
    fix info
    have "triple ?K (sbind (Stat h src) (\<lambda>_ s. case via_temp h dst (ReadFile h src) 0x1ED s of (r, s) \<Rightarrow> (r, snd (Plain h s)))) ?Q ?T"
      by (rule triple_sbind [OF stat _ triple_then [OF v c]]) (use T in simp)
    moreover have "triple ?K (\<lambda>s. (Inl e, s)) ?Q ?T" for e using T by (auto simp: triple_def)
    ultimately show "triple ?K (\<lambda>s. if \<not> f_Regular info then (Inl (Msg ''source must be a regular file''), s)
        else if f_Data info = [] then (Inl (Msg ''source file is empty''), s)
        else sbind (Stat h src) (\<lambda>_ s. case via_temp h dst (ReadFile h src) 0x1ED s of (r, s) \<Rightarrow> (r, snd (Plain h s))) s) ?Q ?T"
      by (cases "f_Regular info"; cases "f_Data info = []") simp_all
  qed (use T in simp)
  show ?thesis using tripleD [OF cf _ assms(4)] assms(3) by blast
qed

section \<open>The kubeconfig follows the credentials\<close>

text \<open>The kubeconfig file is the one for the credentials in the files \<open>x\<close> (token) and \<open>y\<close> (certificate authority).\<close>

definition generated :: "encoders \<Rightarrow> config \<Rightarrow> fs_file option \<Rightarrow> fs_file option \<Rightarrow> fs_file option \<Rightarrow> bool" where
  "generated en cfg x y v \<longleftrightarrow> (\<exists>tf d. x = Some tf \<and> (SkipTLSVerify cfg \<or> y \<noteq> None) \<and> v = Some (new_file d 0x180)
     \<and> e_Write en (kubeconfig_for cfg (TrimSpace (f_Data tf)) (if SkipTLSVerify cfg then [] else f_Data (the y))) = Inr d)"

definition creds :: "config \<Rightarrow> fs_file option \<Rightarrow> fs_file option \<Rightarrow> files \<Rightarrow> bool" where
  "creds cfg x y fs \<longleftrightarrow> fs (tokenPath cfg) = x \<and> fs (KubeCAFile cfg) = y"

text \<open>The credentials are there, and a kubeconfig can be made of them.\<close>

definition usable :: "encoders \<Rightarrow> config \<Rightarrow> fs_file option \<Rightarrow> fs_file option \<Rightarrow> bool" where
  "usable en cfg x y \<longleftrightarrow> (\<exists>tf. x = Some tf \<and> TrimSpace (f_Data tf) \<noteq> [])
     \<and> (SkipTLSVerify cfg \<or> (\<exists>cf. y = Some cf \<and> TrimSpace (f_Data cf) \<noteq> [])) \<and> (\<forall>kc. isr (e_Write en kc))"

lemma triple_ReadFile_data:
  assumes "rely h P" "\<And>fs. P fs \<Longrightarrow> fs p = x" "\<And>fs. P fs \<Longrightarrow> T fs"
  shows "triple P (ReadFile h p) (\<lambda>r fs. P fs \<and> (\<forall>t. r = Inr t \<longrightarrow> (\<exists>f. x = Some f \<and> t = f_Data f)) \<and> (calm h \<and> x \<noteq> None \<longrightarrow> isr r)) T"
  unfolding ReadFile_def
proof (rule triple_syscall [OF assms(1,3)])
  fix fs r fs' assume "P fs" "(case fs p of None \<Rightarrow> Inl noent | Some f \<Rightarrow> Inr (f_Data f), fs) = (r, fs')"
  then show "(P fs' \<and> (\<forall>t. r = Inr t \<longrightarrow> (\<exists>f. x = Some f \<and> t = f_Data f)) \<and> (calm h \<and> x \<noteq> None \<longrightarrow> isr r)) \<and> T fs'"
    using assms(2,3) [of fs] by (cases x) auto
qed (use assms in auto)

lemma triple_return: "(\<And>fs. P fs \<Longrightarrow> Q r fs) \<Longrightarrow> triple P (\<lambda>s. (r, s)) Q T"
  by (simp add: triple_def)

lemma triple_pure: "(A \<Longrightarrow> triple P m Q T) \<Longrightarrow> triple (\<lambda>fs. P fs \<and> A) m Q T"
  by (cases A) (simp_all add: triple_def)

lemma writeKubeConfig_triple:
  assumes u: "undisturbed h (kubeconfigPath cfg) (creds cfg x y)"
  shows "triple (\<lambda>fs. (fs (kubeconfigPath cfg) = old \<and> creds cfg x y fs) \<and> (nl \<longrightarrow> names_left h (Dir (kubeconfigPath cfg)) fs)) (writeKubeConfig h en cfg)
    (\<lambda>r fs. (isr r \<longrightarrow> generated en cfg x y (fs (kubeconfigPath cfg)))
       \<and> (fs (kubeconfigPath cfg) = old \<or> generated en cfg x y (fs (kubeconfigPath cfg))) \<and> creds cfg x y fs
       \<and> (calm h \<and> nl \<and> usable en cfg x y \<longrightarrow> isr r)) (\<lambda>_. True)"
proof -
  let ?kc = "kubeconfigPath cfg" and ?K = "\<lambda>fs. (fs (kubeconfigPath cfg) = old \<and> creds cfg x y fs) \<and> (nl \<longrightarrow> names_left h (Dir (kubeconfigPath cfg)) fs)"
  let ?ok = "calm h \<and> nl \<and> usable en cfg x y"
  let ?Q = "\<lambda>r fs. (isr r \<longrightarrow> generated en cfg x y (fs ?kc)) \<and> (fs ?kc = old \<or> generated en cfg x y (fs ?kc)) \<and> creds cfg x y fs \<and> (?ok \<longrightarrow> isr r)"
  have st: "rely h ?K" using u undisturbed_names [OF u] by (simp add: undisturbed_def rely_def)
  have tok: "triple ?K (ReadFile h (tokenPath cfg)) (\<lambda>r fs. ?K fs \<and> (\<forall>t. r = Inr t \<longrightarrow> (\<exists>f. x = Some f \<and> t = f_Data f))
      \<and> (calm h \<and> x \<noteq> None \<longrightarrow> isr r)) (\<lambda>_. True)"
    by (rule triple_ReadFile_data [OF st]) (simp_all add: creds_def)
  have ca: "triple ?K (ReadFile h (KubeCAFile cfg)) (\<lambda>r fs. ?K fs \<and> (\<forall>t. r = Inr t \<longrightarrow> (\<exists>f. y = Some f \<and> t = f_Data f))
      \<and> (calm h \<and> y \<noteq> None \<longrightarrow> isr r)) (\<lambda>_. True)"
    by (rule triple_ReadFile_data [OF st]) (simp_all add: creds_def)
  let ?ca = "\<lambda>c. if SkipTLSVerify cfg then c = [] else \<exists>f. y = Some f \<and> c = f_Data f"
  have rca: "triple ?K (read_ca h cfg) (\<lambda>r fs. ?K fs \<and> (\<forall>c. r = Inr c \<longrightarrow> ?ca c) \<and> (?ok \<longrightarrow> isr r)) (\<lambda>_. True)"
  proof (cases "SkipTLSVerify cfg")
    case True
    then show ?thesis by (simp add: read_ca_def triple_def)
  next
    case False
    then have r: "read_ca h cfg = sbind (ReadFile h (KubeCAFile cfg)) (\<lambda>caBytes s.
        (if TrimSpace caBytes = [] then Inl (Msg ''CA data is empty'') else Inr caBytes, s))"
      by (simp add: read_ca_def fun_eq_iff)
    show ?thesis
      unfolding r by (rule triple_sbind [OF ca]) (use False in \<open>auto simp: usable_def intro!: triple_return\<close>)
  qed
  have wr: "triple ?K (atomicWriteFile h ?kc d) ?Q (\<lambda>_. True)" if "generated en cfg x y (Some (new_file d 0x180))" for d
    unfolding atomicWriteFile_def defaultKubeConfigMode_def
    by (rule triple_forget [OF triple_conseq [OF via_temp_triple [OF u gives_const]]])
      (use that in \<open>auto simp: old_or_new_def\<close>)
  have K: "?K fs \<Longrightarrow> \<not> ?ok \<Longrightarrow> ?Q (Inl e) fs" for e fs by simp
  have body: "triple ?K (\<lambda>s. if TrimSpace t = [] then (Inl (Msg ''token is empty''), s)
      else sbind (read_ca h cfg) (\<lambda>ca s. case e_Write en (kubeconfig_for cfg (TrimSpace t) ca) of
                 Inl e \<Rightarrow> (Inl e, s) | Inr d \<Rightarrow> atomicWriteFile h ?kc d s) s) ?Q (\<lambda>_. True)"
    if x: "x = Some tf" "t = f_Data tf" for t tf
  proof (cases "TrimSpace t = []")
    case True
    then show ?thesis using x by (auto simp: usable_def intro!: triple_return)
  next
    case False
    have "triple (\<lambda>fs. ?K fs \<and> ?ca c) (\<lambda>s. case e_Write en (kubeconfig_for cfg (TrimSpace t) c) of
        Inl e \<Rightarrow> (Inl e, s) | Inr d \<Rightarrow> atomicWriteFile h ?kc d s) ?Q (\<lambda>_. True)" for c
    proof (rule triple_pure)
      assume c: "?ca c"
      show "triple ?K (\<lambda>s. case e_Write en (kubeconfig_for cfg (TrimSpace t) c) of
        Inl e \<Rightarrow> (Inl e, s) | Inr d \<Rightarrow> atomicWriteFile h ?kc d s) ?Q (\<lambda>_. True)"
      proof (cases "e_Write en (kubeconfig_for cfg (TrimSpace t) c)")
        case (Inl e)
        then have "\<not> ?ok" unfolding usable_def by (metis isl_def)
        then show ?thesis using Inl K by (auto intro!: triple_return)
      next
        case (Inr d)
        then have "generated en cfg x y (Some (new_file d 0x180))"
          using c x unfolding generated_def by (auto split: if_splits)
        then show ?thesis using Inr wr by simp
      qed
    qed
    then have "triple ?K (sbind (read_ca h cfg) (\<lambda>c s. case e_Write en (kubeconfig_for cfg (TrimSpace t) c) of
        Inl e \<Rightarrow> (Inl e, s) | Inr d \<Rightarrow> atomicWriteFile h ?kc d s)) ?Q (\<lambda>_. True)"
      by (intro triple_sbind [OF rca]) (auto elim!: triple_conseq)
    then show ?thesis using False by simp
  qed
  show ?thesis
    unfolding writeKubeConfig_def Let_def
  proof (rule triple_sbind [OF tok])
    fix t
    show "triple (\<lambda>fs. ?K fs \<and> (\<forall>t'. Inr t = Inr t' \<longrightarrow> (\<exists>f. x = Some f \<and> t' = f_Data f)) \<and> (calm h \<and> x \<noteq> None \<longrightarrow> isr (Inr t :: string result)))
      (\<lambda>s. if TrimSpace t = [] then (Inl (Msg ''token is empty''), s)
      else sbind (read_ca h cfg) (\<lambda>ca s. case e_Write en (kubeconfig_for cfg (TrimSpace t) ca) of
                 Inl e \<Rightarrow> (Inl e, s) | Inr d \<Rightarrow> atomicWriteFile h ?kc d s) s) ?Q (\<lambda>_. True)"
      by (rule triple_pure) (use body in auto)
  qed (auto simp: usable_def)
qed

definition hash_of :: "encoders \<Rightarrow> fs_file option \<Rightarrow> string" where
  "hash_of en x = (case x of None \<Rightarrow> [] | Some f \<Rightarrow> e_Sha256 en (f_Data f))"

text \<open>The hashes at hand are those of the credentials.\<close>

definition matching :: "encoders \<Rightarrow> config \<Rightarrow> fs_file option \<Rightarrow> fs_file option \<Rightarrow> string \<times> string \<Rightarrow> bool" where
  "matching en cfg x y hs \<longleftrightarrow> x \<noteq> None \<and> (SkipTLSVerify cfg \<or> y \<noteq> None)
     \<and> fst hs = hash_of en x \<and> (SkipTLSVerify cfg \<or> snd hs = hash_of en y)"

text \<open>If they are, the kubeconfig is the one for these credentials.\<close>

definition in_step :: "encoders \<Rightarrow> config \<Rightarrow> files \<Rightarrow> string \<times> string \<Rightarrow> bool" where
  "in_step en cfg fs hs \<longleftrightarrow> (matching en cfg (fs (tokenPath cfg)) (fs (KubeCAFile cfg)) hs
     \<longrightarrow> generated en cfg (fs (tokenPath cfg)) (fs (KubeCAFile cfg)) (fs (kubeconfigPath cfg)))"

lemma fileHash_run:
  assumes "fileHash h en p s = (v, s')" "rely h P" "P (s_files s)" "\<forall>fs. P fs \<longrightarrow> fs p = x"
  shows "P (s_files s')" "v = [] \<or> v = hash_of en x" "calm h \<Longrightarrow> v = hash_of en x"
proof -
  obtain r s1 where r: "ReadFile h p s = (r, s1)" by fastforce
  have "triple P (ReadFile h p) (\<lambda>r fs. P fs \<and> (\<forall>t. r = Inr t \<longrightarrow> (\<exists>f. x = Some f \<and> t = f_Data f)) \<and> (calm h \<and> x \<noteq> None \<longrightarrow> isr r)) (\<lambda>_. True)"
    by (rule triple_ReadFile_data [OF assms(2)]) (use assms(4) in auto)
  note t = tripleD(1) [OF this assms(3) r]
  have v: "v = (case r of Inl _ \<Rightarrow> [] | Inr d \<Rightarrow> e_Sha256 en d)" "s' = s1"
    using assms(1) r by (auto simp: fileHash_def split: sum.splits)
  show "P (s_files s')" "v = [] \<or> v = hash_of en x" "calm h \<Longrightarrow> v = hash_of en x"
    using t v by (auto simp: hash_of_def split: sum.splits option.splits)
qed

text \<open>One check of the credentials while they stay as they are.\<close>

lemma maybeRegenerate_in_step:
  assumes run: "maybeRegenerate h en cfg hs s = (hs', s')"
    and u: "undisturbed h (kubeconfigPath cfg) (creds cfg (s_files s (tokenPath cfg)) (s_files s (KubeCAFile cfg)))"
    and i: "in_step en cfg (s_files s) hs"
  shows "in_step en cfg (s_files s') hs'"
    "creds cfg (s_files s (tokenPath cfg)) (s_files s (KubeCAFile cfg)) (s_files s')"
    "calm h \<Longrightarrow> names_left h (Dir (kubeconfigPath cfg)) (s_files s) \<Longrightarrow> usable en cfg (s_files s (tokenPath cfg)) (s_files s (KubeCAFile cfg))
       \<Longrightarrow> generated en cfg (s_files s' (tokenPath cfg)) (s_files s' (KubeCAFile cfg)) (s_files s' (kubeconfigPath cfg))"
proof -
  define x y kc where "x = s_files s (tokenPath cfg)" and "y = s_files s (KubeCAFile cfg)" and "kc = s_files s (kubeconfigPath cfg)"
  define nl where "nl = names_left h (Dir (kubeconfigPath cfg)) (s_files s)"
  let ?K = "\<lambda>fs. (fs (kubeconfigPath cfg) = kc \<and> creds cfg x y fs) \<and> (nl \<longrightarrow> names_left h (Dir (kubeconfigPath cfg)) fs)"
  have rely: "rely h ?K" using u undisturbed_names [OF u] by (simp add: undisturbed_def rely_def x_def y_def)
  have K0: "?K (s_files s)" by (simp add: creds_def x_def y_def kc_def nl_def)
  have at: "\<forall>fs. ?K fs \<longrightarrow> fs (tokenPath cfg) = x" "\<forall>fs. ?K fs \<longrightarrow> fs (KubeCAFile cfg) = y" by (simp_all add: creds_def)
  obtain nt s1 nc s2 where h1: "fileHash h en (tokenPath cfg) s = (nt, s1)" and h2: "fileHash h en (KubeCAFile cfg) s1 = (nc, s2)"
    by fastforce
  note a = fileHash_run [OF h1 rely K0 at(1)]
  note b = fileHash_run [OF h2 rely a(1) at(2)]
  have i': "matching en cfg x y hs \<Longrightarrow> generated en cfg x y kc" using i by (simp add: in_step_def x_def y_def kc_def)
  have sound: "in_step en cfg (s_files s') hs' \<and> creds cfg x y (s_files s')
    \<and> (calm h \<longrightarrow> nl \<longrightarrow> usable en cfg x y \<longrightarrow> generated en cfg x y (s_files s' (kubeconfigPath cfg)))"
  proof (cases "nt \<noteq> fst hs \<or> \<not> SkipTLSVerify cfg \<and> nc \<noteq> snd hs")
    case False
    then have e: "hs' = (nt, nc)" "s' = s2" using run by (auto simp: maybeRegenerate_def h1 h2 Let_def)
    have "matching en cfg x y hs' \<Longrightarrow> matching en cfg x y hs" using False e by (auto simp: matching_def)
    moreover have "usable en cfg x y \<Longrightarrow> calm h \<Longrightarrow> matching en cfg x y hs"
      using a(3) b(3) False by (auto simp: matching_def usable_def)
    ultimately show ?thesis using i' b(1) e by (auto simp: in_step_def creds_def)
  next
    case True
    obtain r s3 where w: "writeKubeConfig h en cfg s2 = (r, s3)" by fastforce
    note q = tripleD(1) [OF writeKubeConfig_triple [OF u [folded x_def y_def], where en = en and old = kc and nl = nl] b(1) w]
    have e: "s' = s3" "hs' = (if isr r then (nt, nc) else hs)"
      using run True w by (cases r; simp add: maybeRegenerate_def h1 h2 Let_def)+
    have "in_step en cfg (s_files s') hs'"
    proof (cases "isr r")
      case True
      then show ?thesis using q e by (simp add: in_step_def creds_def)
    next
      case False
      then show ?thesis using q e i' by (auto simp: in_step_def creds_def)
    qed
    then show ?thesis using q e by auto
  qed
  then show "in_step en cfg (s_files s') hs'"
    "creds cfg (s_files s (tokenPath cfg)) (s_files s (KubeCAFile cfg)) (s_files s')"
    "calm h \<Longrightarrow> names_left h (Dir (kubeconfigPath cfg)) (s_files s) \<Longrightarrow> usable en cfg (s_files s (tokenPath cfg)) (s_files s (KubeCAFile cfg))
       \<Longrightarrow> generated en cfg (s_files s' (tokenPath cfg)) (s_files s' (KubeCAFile cfg)) (s_files s' (kubeconfigPath cfg))"
    by (simp_all add: creds_def x_def y_def nl_def)
qed

text \<open>
  The life of the credentials: checks, during which they stay as they are but any call may fail,
  and rotations between the checks, which may change any file, to credentials whose hashes are not
  the ones remembered. (The remembered hashes are those of earlier credentials: a rotation back to
  them, after a write that failed only when the directory was synchronised, would go unnoticed.
  Tokens are not issued twice.)
\<close>

inductive watch_step :: "encoders \<Rightarrow> config \<Rightarrow> files \<times> (string \<times> string) \<Rightarrow> files \<times> (string \<times> string) \<Rightarrow> bool" for en cfg where
  check: "maybeRegenerate h en cfg hs s = (hs', s')
    \<Longrightarrow> undisturbed h (kubeconfigPath cfg) (creds cfg (s_files s (tokenPath cfg)) (s_files s (KubeCAFile cfg)))
    \<Longrightarrow> watch_step en cfg (s_files s, hs) (s_files s', hs')"
| rotate: "\<not> matching en cfg (fs' (tokenPath cfg)) (fs' (KubeCAFile cfg)) hs \<Longrightarrow> watch_step en cfg (fs, hs) (fs', hs)"

lemma watch_in_step:
  assumes "(watch_step en cfg)\<^sup>*\<^sup>* (fs0, hs0) (fs, hs)" "in_step en cfg fs0 hs0"
  shows "in_step en cfg fs hs"
  using assms(1)
proof (induction rule: rtranclp_induct2)
  case (step fs1 hs1 fs2 hs2)
  from step.hyps(2) show ?case
  proof cases
    case check
    then show ?thesis using maybeRegenerate_in_step(1) step.IH by blast
  next
    case rotate
    then show ?thesis by (simp add: in_step_def)
  qed
qed (use assms(2) in simp)

text \<open>Whatever becomes of a write, the facts about other files stay.\<close>

abbreviation keeps :: "(files \<Rightarrow> bool) \<Rightarrow> (sys \<Rightarrow> 'a result \<times> sys) \<Rightarrow> bool" where
  "keeps F m \<equiv> triple F m (\<lambda>_. F) (\<lambda>_. True)"

lemma keeps_sbind: "keeps F m \<Longrightarrow> (\<And>x. keeps F (f x)) \<Longrightarrow> keeps F (sbind m f)"
  by (rule triple_sbind)

lemma keeps_syscall:
  assumes "rely h F" "\<And>s fs. F fs \<Longrightarrow> F (failing s fs)" "\<And>s fs. F fs \<Longrightarrow> F (snd (call s fs))"
  shows "keeps F (\<lambda>s. syscall h (failing s) (call s) s)"
  by (rule triple_syscall_state [OF assms(1)]) (use assms(2,3) in \<open>auto, metis snd_conv\<close>)

lemma keeps_temp:
  assumes u: "undisturbed h path F" and t: "tmp \<in> range (temp_name (Dir path))"
  shows "keeps F (Write h tmp d)" "keeps F (Chmod h tmp mode)" "keeps F (Rename h tmp path)" "keeps F (Remove h tmp)" "keeps F (Plain h)"
proof -
  have r: "rely h F" using u by (simp add: undisturbed_def rely_def)
  note up = undisturbed_rely(3,4) [OF u t]
  have both: "F (fs(tmp := v, path := v'))" if "F fs" for fs v v' using up that by blast
  have app: "F fs \<Longrightarrow> F (appended tmp d fs)" for d fs using up(2) by (auto simp: appended_def split: option.split)
  show "keeps F (Write h tmp d)" unfolding Write_def by (rule keeps_syscall [OF r]) (simp_all add: app)
  show "keeps F (Chmod h tmp mode)" unfolding Chmod_def by (rule keeps_syscall [OF r]) (auto intro: up(2) split: option.split)
  show "keeps F (Rename h tmp path)" unfolding Rename_def by (rule keeps_syscall [OF r]) (auto intro: both split: option.split)
  show "keeps F (Remove h tmp)" unfolding Remove_def by (rule keeps_syscall [OF r]) (auto intro: up(2) split: option.split)
  show "keeps F (Plain h)" unfolding Plain_def by (rule keeps_syscall [OF r]) simp_all
qed

lemma keeps_via_temp:
  assumes u: "undisturbed h path F" and s: "keeps F source"
  shows "keeps F (via_temp h path source mode)"
proof -
  have r: "rely h F" using u by (simp add: undisturbed_def rely_def)
  have create: "triple F (CreateTemp h (Dir path)) (\<lambda>r fs. F fs \<and> (\<forall>tmp. r = Inr tmp \<longrightarrow> tmp \<in> range (temp_name (Dir path)))) (\<lambda>_. True)"
    unfolding CreateTemp_def
  proof (rule triple_syscall_state [OF r])
    fix s :: sys and fs r fs'
    assume "F fs" "(case temp_search h (Dir path) fs 10000 (s_calls s) of None \<Rightarrow> (Inl (Msg ''file exists''), fs)
      | Some tmp \<Rightarrow> (Inr tmp, fs(tmp \<mapsto> \<lparr> f_Data = [], f_Mode = 0x180, f_Regular = True \<rparr>))) = (r, fs')"
    then show "(F fs' \<and> (\<forall>tmp. r = Inr tmp \<longrightarrow> tmp \<in> range (temp_name (Dir path)))) \<and> True"
      using temp_search_range undisturbed_rely(4) [OF u] by (fastforce split: option.splits)
  qed auto
  have body: "keeps F (\<lambda>s. case fill_and_rename h tmp path source mode s of (r, s) \<Rightarrow> (r, snd (Remove h tmp s)))"
    if t: "tmp \<in> range (temp_name (Dir path))" for tmp
  proof -
    note k = keeps_temp [OF u t]
    have close: "keeps F (or_close h m)" if "keeps F m" for m by (rule triple_or_close [OF that k(5)])
    have sync: "keeps F (syncDirectory h (Dir path))"
      unfolding syncDirectory_def by (rule keeps_sbind [OF k(5) triple_then [OF k(5) k(5)]])
    have "keeps F (fill_and_rename h tmp path source mode)"
      unfolding fill_and_rename_def by (intro keeps_sbind close k s sync)
    then show ?thesis by (rule triple_then) (rule k(4))
  qed
  show ?thesis unfolding via_temp_def
  proof (rule triple_sbind [OF create])
    fix tmp
    show "triple (\<lambda>fs. F fs \<and> (\<forall>tmp'. Inr tmp = (Inr tmp' :: string result) \<longrightarrow> tmp' \<in> range (temp_name (Dir path))))
        (\<lambda>s. case fill_and_rename h tmp path source mode s of (r, s) \<Rightarrow> (r, snd (Remove h tmp s))) (\<lambda>_. F) (\<lambda>_. True)"
    proof (cases "tmp \<in> range (temp_name (Dir path))")
      case True
      show ?thesis by (rule triple_conseq [OF body [OF True]]) simp_all
    qed (simp add: triple_def)
  qed simp
qed

lemma keeps_copyFile:
  assumes "undisturbed h dst F"
  shows "keeps F (copyFile h src dst)"
proof -
  have r: "rely h F" using assms by (simp add: undisturbed_def rely_def)
  have k: "keeps F (Stat h p)" "keeps F (ReadFile h p)" for p by (rule triple_Stat [OF r] triple_ReadFile [OF r]; simp)+
  have p: "keeps F (Plain h)" by (rule triple_conseq [OF triple_Plain [OF r]]) simp_all
  have "keeps F (sbind (Stat h src) (\<lambda>_ s. case via_temp h dst (ReadFile h src) 0x1ED s of (r, s) \<Rightarrow> (r, snd (Plain h s))))"
    by (rule keeps_sbind [OF k(1) triple_then [OF keeps_via_temp [OF assms k(2)] p]])
  then have "keeps F (\<lambda>s. if \<not> f_Regular info then (Inl (Msg ''source must be a regular file''), s)
      else if f_Data info = [] then (Inl (Msg ''source file is empty''), s)
      else sbind (Stat h src) (\<lambda>_ s. case via_temp h dst (ReadFile h src) 0x1ED s of (r, s) \<Rightarrow> (r, snd (Plain h s))) s)" for info
    by (simp add: triple_def)
  then show ?thesis unfolding copyFile_def by (rule keeps_sbind [OF k(1)])
qed

text \<open>
  During the installation no other process touches the files that are written, nor the
  credentials \<open>x\<close> and \<open>y\<close>, which are files of their own.
\<close>

definition installs_alone :: "host \<Rightarrow> config \<Rightarrow> fs_file option \<Rightarrow> fs_file option \<Rightarrow> bool" where
  "installs_alone h cfg x y \<longleftrightarrow> undisturbed h (kubeconfigPath cfg) (creds cfg x y)
     \<and> (\<forall>kc. \<forall>p\<in>{whereaboutsConfPath cfg, nodeNamePath cfg, Join (CNIBinDir cfg) ''whereabouts''}.
          undisturbed h p (\<lambda>fs. fs (kubeconfigPath cfg) = kc \<and> creds cfg x y fs))"

lemma sbind_InrE:
  assumes "sbind m f s = (Inr x, s')"
  obtains y s1 where "m s = (Inr y, s1)" "f y s1 = (Inr x, s')"
  using assms by (cases "m s"; cases "fst (m s)") (auto simp: sbind_def)

lemma install_files_generated:
  assumes "install_files h en cfg s = (Inr (), s')" "creds cfg x y (s_files s)" "installs_alone h cfg x y"
  shows "generated en cfg x y (s_files s' (kubeconfigPath cfg)) \<and> creds cfg x y (s_files s')"
proof -
  have u: "undisturbed h (kubeconfigPath cfg) (creds cfg x y)" using assms(3) by (simp add: installs_alone_def)
  let ?F = "\<lambda>kc fs. fs (kubeconfigPath cfg) = kc \<and> creds cfg x y fs"
  have v: "undisturbed h (whereaboutsConfPath cfg) (?F kc)" "undisturbed h (nodeNamePath cfg) (?F kc)"
    "undisturbed h (Join (CNIBinDir cfg) ''whereabouts'') (?F kc)" for kc using assms(3) by (simp_all add: installs_alone_def)
  obtain a s1 where 1: "Plain h s = (Inr a, s1)" "sbind (writeKubeConfig h en cfg) (\<lambda>_. sbind (writeWhereaboutsConf h en cfg) (\<lambda>_.
      sbind (writeNodeNameFile h cfg) (\<lambda>_. copyFile h (CNIBinSrc cfg) (Join (CNIBinDir cfg) ''whereabouts'')))) s1 = (Inr (), s')"
    using assms(1) unfolding install_files_def by (rule sbind_InrE)
  from 1(2) obtain b s2 where 2: "writeKubeConfig h en cfg s1 = (Inr b, s2)" "sbind (writeWhereaboutsConf h en cfg) (\<lambda>_.
      sbind (writeNodeNameFile h cfg) (\<lambda>_. copyFile h (CNIBinSrc cfg) (Join (CNIBinDir cfg) ''whereabouts''))) s2 = (Inr (), s')"
    by (rule sbind_InrE)
  from 2(2) obtain c s3 where 3: "writeWhereaboutsConf h en cfg s2 = (Inr c, s3)"
      "sbind (writeNodeNameFile h cfg) (\<lambda>_. copyFile h (CNIBinSrc cfg) (Join (CNIBinDir cfg) ''whereabouts'')) s3 = (Inr (), s')"
    by (rule sbind_InrE)
  from 3(2) obtain d s4 where 4: "writeNodeNameFile h cfg s3 = (Inr d, s4)"
      "copyFile h (CNIBinSrc cfg) (Join (CNIBinDir cfg) ''whereabouts'') s4 = (Inr (), s')"
    by (rule sbind_InrE)
  have "rely h (creds cfg x y)" using u by (simp add: undisturbed_def rely_def)
  from tripleD(1) [OF triple_Plain [OF this, of "\<lambda>_. True"] assms(2) 1(1)] have c1: "creds cfg x y (s_files s1)" by simp
  from tripleD(1) [OF writeKubeConfig_triple [OF u, where en = en and old = "s_files s1 (kubeconfigPath cfg)" and nl = False] _ 2(1)] c1
  have c2: "generated en cfg x y (s_files s2 (kubeconfigPath cfg))" "creds cfg x y (s_files s2)" by simp_all
  let ?K = "?F (s_files s2 (kubeconfigPath cfg))"
  have aw: "keeps ?K (atomicWriteFile h p d)" if "undisturbed h p ?K" for p d
    unfolding atomicWriteFile_def by (rule keeps_via_temp [OF that]) (simp add: triple_def)
  have "keeps ?K (writeWhereaboutsConf h en cfg)"
    unfolding writeWhereaboutsConf_def by (cases "e_Marshal en (conf_for cfg)") (simp_all only: sum.case triple_return aw [OF v(1)])
  from tripleD(1) [OF this _ 3(1)] c2 have c3: "?K (s_files s3)" by simp
  have "keeps ?K (writeNodeNameFile h cfg)"
    unfolding writeNodeNameFile_def Let_def
    by (cases "TrimSpace (NodeName cfg) = []") (simp_all only: if_True if_False simp_thms triple_return aw [OF v(2)])
  from tripleD(1) [OF this c3 4(1)] have c4: "?K (s_files s4)" .
  from tripleD(1) [OF keeps_copyFile [OF v(3)] c4 4(2)] show ?thesis using c2 by simp
qed

text \<open>The hashes that the watch starts with are taken of the same credentials.\<close>

lemma watch_starts_in_step:
  assumes "install_files h en cfg s = (Inr (), s1)" "creds cfg x y (s_files s)" "installs_alone h cfg x y"
    and "watchAndRegenerate h en cfg watching [] s1 = (hs, s2)"
  shows "in_step en cfg (s_files s2) hs"
proof -
  note g = install_files_generated [OF assms(1-3)]
  let ?K = "\<lambda>fs. fs (kubeconfigPath cfg) = s_files s1 (kubeconfigPath cfg) \<and> creds cfg x y fs"
  have "undisturbed h (nodeNamePath cfg) ?K" using assms(3) by (simp add: installs_alone_def)
  then have r: "rely h ?K" by (simp add: undisturbed_def rely_def)
  obtain t s3 c s4 where h: "fileHash h en (tokenPath cfg) s1 = (t, s3)" "fileHash h en (KubeCAFile cfg) s3 = (c, s4)" by fastforce
  have "s2 = s4" using assms(4) h by (simp add: watchAndRegenerate_def pollLoop_def split: if_splits)
  moreover have "?K (s_files s3)" by (rule fileHash_run(1) [OF h(1) r]) (use g in \<open>auto simp: creds_def\<close>)
  from fileHash_run(1) [OF h(2) r this, of y] have "?K (s_files s4)" by (auto simp: creds_def)
  ultimately show ?thesis using g by (simp add: in_step_def creds_def)
qed

text \<open>
  C22: the kubeconfig follows the credentials. The installer writes it, and nobody changes the
  credentials before it has taken their first hashes; from then on they rotate between the checks,
  each time to a token or certificate authority with another hash than the ones remembered, and any
  call of a check may fail. Then the first check without failing calls, while the credentials
  are usable, leaves a kubeconfig made of the current token and certificate authority.
\<close>

theorem kubeconfig_follows_credentials:
  assumes "install_files h0 en cfg s0 = (Inr (), s1)" "creds cfg x y (s_files s0)" "installs_alone h0 cfg x y"
    and "watchAndRegenerate h0 en cfg watching [] s1 = (hs0, s2)" "(watch_step en cfg)\<^sup>*\<^sup>* (s_files s2, hs0) (s_files s, hs)"
    and "maybeRegenerate h en cfg hs s = (hs', s')" "calm h" "names_left h (Dir (kubeconfigPath cfg)) (s_files s)"
    and "undisturbed h (kubeconfigPath cfg) (creds cfg (s_files s (tokenPath cfg)) (s_files s (KubeCAFile cfg)))"
    and "usable en cfg (s_files s (tokenPath cfg)) (s_files s (KubeCAFile cfg))"
  shows "generated en cfg (s_files s' (tokenPath cfg)) (s_files s' (KubeCAFile cfg)) (s_files s' (kubeconfigPath cfg))"
  using maybeRegenerate_in_step(3) [OF assms(6,9) watch_in_step [OF assms(5) watch_starts_in_step [OF assms(1-4)]] assms(7,8,10)] .

section \<open>The installed files and the plugin\<close>

lemma temp_name_plain: "plain_elem (''.whereabouts-tmp-'' @ dec n)"
  using dec_digits [of n] by (auto simp: plain_elem_def list_all_iff is_digit_def)

lemma not_a_temp:
  assumes "IsAbs p" "plain_elem e" "hd e \<noteq> CHR ''.''"
  shows "Join p e \<notin> range (temp_name (Dir (Join p e)))"
proof
  assume "Join p e \<in> range (temp_name (Dir (Join p e)))"
  then obtain n where "Join p e = Join (Clean p) (''.whereabouts-tmp-'' @ dec n)"
    unfolding temp_name_def Dir_Join [OF assms(1,2)] by blast
  then have "e = ''.whereabouts-tmp-'' @ dec n"
    unfolding Join_Clean [OF assms(1) temp_name_plain] Join_inject [OF assms(1,2) temp_name_plain] .
  then show False using assms(3) by simp
qed

lemma TrimSpace_idem: "TrimSpace (TrimSpace s) = TrimSpace s"
proof -
  have "dropWhile P (rev (dropWhile P (rev (dropWhile P s)))) = rev (dropWhile P (rev (dropWhile P s)))" for P :: "char \<Rightarrow> bool"
  proof (cases "dropWhile P s")
    case (Cons c cs)
    then have "\<not> P c" using hd_dropWhile [of P s] by simp
    then have "dropWhile P (rev cs @ [c]) = (if list_all P (rev cs) then [c] else dropWhile P (rev cs) @ [c])"
      by (auto simp: dropWhile_append list_all_iff)
    then show ?thesis using Cons \<open>\<not> P c\<close> by auto
  next
    case Nil
    show ?thesis unfolding Nil by simp
  qed
  then show ?thesis by (simp add: TrimSpace_def trim_by_def)
qed

text \<open>
  A plugin on the node finds the name the installer has written: with the configuration path
  that the installer puts into \<^verbatim>\<open>whereabouts.conf\<close>, \<^verbatim>\<open>getNodeName\<close> on the host, where the
  installer's \<^verbatim>\<open>/host\<close> is the root, returns the trimmed \<^verbatim>\<open>NODENAME\<close> of the installer. The
  configuration itself is at a path where the plugin looks for it.
\<close>

theorem installed_node_name_found:
  assumes "writeNodeNameFile h cfg s = (Inr (), s')" "undisturbed h (nodeNamePath cfg) (\<lambda>_. True)"
    and "CNIConfDir cfg = ''/host/etc/cni/net.d''" "TrimSpace (NodeName cfg) \<noteq> []" "length (TrimSpace (NodeName cfg)) \<le> 1024"
    and "os_Getenv env ''NODENAME'' = []" "ic_ConfigurationPath (ki_Config ipam) = wc_ConfigurationPath (conf_for cfg)"
    and "\<And>p. os_Open env p = (case s_files s' (''/host'' @ p) of None \<Rightarrow> Inl noent | Some f \<Rightarrow> Inr (Inr (f_Data f)))"
  shows "getNodeName env ipam = Inr (TrimSpace (NodeName cfg)) \<and> hostLiteralPath (whereaboutsConfPath cfg) \<in> set confdirs"
proof -
  have p: "nodeNamePath cfg = ''/host/etc/cni/net.d/whereabouts.d/nodename''"
      "configurationPathLiteral cfg = ''/etc/cni/net.d/whereabouts.d''"
      "hostLiteralPath (whereaboutsConfPath cfg) = ''/etc/cni/net.d/whereabouts.d/whereabouts.conf''"
    unfolding nodeNamePath_def configurationPathLiteral_def whereaboutsConfPath_def confDir_def assms(3) by code_simp+
  have "atomicWriteFile h (nodeNamePath cfg) (TrimSpace (NodeName cfg)) s = (Inr (), s')"
    using assms(1,4) by (simp add: writeNodeNameFile_def)
  from tripleD(1) [OF via_temp_triple [OF assms(2) gives_const] _ this [unfolded atomicWriteFile_def], of "s_files s (nodeNamePath cfg)" False]
  have "s_files s' (nodeNamePath cfg) = Some (new_file (TrimSpace (NodeName cfg)) defaultKubeConfigMode)" by simp
  then show ?thesis
    using assms(5-8) p TrimSpace_idem
    by (simp add: getNodeName_def conf_for_def new_file_def confdirs_def)
qed

text \<open>
  The kubeconfig of the installer is the one the plugin works with: if the file is one that the
  installer generates, the plugin finds it on the host, where the installer's \<^verbatim>\<open>/host\<close> is the root, at
  the path that the installer puts into \<^verbatim>\<open>whereabouts.conf\<close>, and its pools are in the installer's
  namespace (\<^verbatim>\<open>kube-system\<close> if that is empty), provided that decoding undoes the encoding and that a
  client can be made of the file.
\<close>

theorem installed_kubeconfig_used:
  assumes "generated en cfg x y (fs (kubeconfigPath cfg))"
    and "CNIConfDir cfg = ''/host/etc/cni/net.d''" "KubeConfigPath (ic_Kubernetes conf) = wc_Kubeconfig (conf_for cfg)"
    and "\<And>p. os_Open env p = (case fs (''/host'' @ p) of None \<Rightarrow> Inl noent | Some f \<Rightarrow> Inr (Inr (f_Data f)))"
    and "\<And>kc d. e_Write en kc = Inr d \<Longrightarrow> lib_Load lib d = Inr kc"
    and "NewClientViaKubeconfig lib (KubeConfigPath (ic_Kubernetes conf)) = Inr client"
  shows "NewKubernetesIPAM lib env containerID ifName conf = Inr (newKubernetesIPAM containerID ifName conf
    (if c_Namespace cfg = [] then ''kube-system'' else c_Namespace cfg))"
proof -
  obtain token ca d where g: "fs (kubeconfigPath cfg) = Some (new_file d 0x180)" "e_Write en (kubeconfig_for cfg token ca) = Inr d"
    using assms(1) by (auto simp: generated_def)
  have p: "kubeconfigPath cfg = ''/host'' @ KubeConfigPath (ic_Kubernetes conf)"
    unfolding assms(3) conf_for_def whereaboutsConf.select_convs kubeconfigLiteral_def kubeconfigPath_def confDir_def assms(2) by code_simp
  have "LoadFromFile lib env (KubeConfigPath (ic_Kubernetes conf)) = Inr (kubeconfig_for cfg token ca)"
    using g(1) [unfolded p] assms(5) [OF g(2)] by (simp add: LoadFromFile_def assms(4) new_file_def)
  then show ?thesis
    using assms(6) by (simp add: NewKubernetesIPAM_def Let_def kubeconfig_for_def wbNamespaceFromCtx_def)
qed

section \<open>An example node\<close>

definition env_install :: "string \<Rightarrow> string" where
  "env_install key = (if key = ''KUBERNETES_SERVICE_HOST'' then ''10.96.0.1'' else if key = ''KUBERNETES_SERVICE_PORT'' then ''443''
     else if key = ''NODENAME'' then ''node-1'' else [])"

definition config_ex :: config where
  "config_ex = projr (loadConfig env_install)"

definition encoders_ex :: encoders where
  "encoders_ex = \<lparr> e_Write = (\<lambda>kc. Inr (snd (hd (kc_AuthInfos kc)) @ CHR ''@'' # kcl_Server (snd (hd (kc_Clusters kc))))), e_Marshal = (\<lambda>c. Inr (wc_Kubeconfig c)),
     e_Sha256 = (\<lambda>d. CHR ''#'' # d) \<rparr>"

definition plain_file :: "string \<Rightarrow> fs_file" where
  "plain_file d = \<lparr> f_Data = d, f_Mode = 0x1A4, f_Regular = True \<rparr>"

definition token_ex :: string where
  "token_ex = ''/var/run/secrets/kubernetes.io/serviceaccount/token''"

definition node_ex :: sys where
  "node_ex = \<lparr> s_files = [''/whereabouts'' \<mapsto> plain_file ''ELF'', token_ex \<mapsto> plain_file ''old'',
       ''/var/run/secrets/kubernetes.io/serviceaccount/ca.crt'' \<mapsto> plain_file ''CA''], s_calls = 0, s_seen = [] \<rparr>"

definition quiet_host :: host where
  "quiet_host = \<lparr> h_other = (\<lambda>_ fs. fs), h_fault = (\<lambda>_. None), h_partial = (\<lambda>_. 0), h_rand = (\<lambda>n. n) \<rparr>"

lemma config_ex_paths:
  "tokenPath config_ex = token_ex" "KubeCAFile config_ex = ''/var/run/secrets/kubernetes.io/serviceaccount/ca.crt''"
  "kubeconfigPath config_ex = ''/host/etc/cni/net.d/whereabouts.d/whereabouts.kubeconfig''" "\<not> SkipTLSVerify config_ex"
  "loadConfig env_install = Inr config_ex"
  by code_simp+

text \<open>While nothing changes and the remembered hashes are the current ones, the loop writes nothing.\<close>

lemma idle_fileHash:
  assumes "calm h" "\<forall>n\<ge>s_calls s. h_other h n = id"
  shows "fst (fileHash h en p s) = hash_of en (s_files s p)" "s_files (snd (fileHash h en p s)) = s_files s"
    "s_calls (snd (fileHash h en p s)) = Suc (s_calls s)"
  using assms by (auto simp: fileHash_def ReadFile_def syscall_def calm_def hash_of_def Let_def split: option.splits)

lemma idle_loop:
  assumes "calm h" "\<forall>n\<ge>s_calls s. h_other h n = id"
    and "hs = (hash_of en (s_files s (tokenPath cfg)), hash_of en (s_files s (KubeCAFile cfg)))"
  shows "s_files (snd (watch_loop h en cfg evs hs s)) = s_files s"
  using assms
proof (induction evs arbitrary: s)
  case (Cons ev evs)
  note i1 = idle_fileHash [OF Cons.prems(1,2), of en "tokenPath cfg"]
  define s1 where "s1 = snd (fileHash h en (tokenPath cfg) s)"
  have q1: "\<forall>n\<ge>s_calls s1. h_other h n = id" using i1(3) Cons.prems(2) unfolding s1_def [symmetric] by (metis Suc_leD)
  note i2 = idle_fileHash [OF Cons.prems(1) q1, of en "KubeCAFile cfg"]
  define s2 where "s2 = snd (fileHash h en (KubeCAFile cfg) s1)"
  have q2: "\<forall>n\<ge>s_calls s2. h_other h n = id" using i2(3) q1 unfolding s2_def [symmetric] by (metis Suc_leD)
  have f: "s_files s2 = s_files s" using i1 i2 by (simp add: s1_def s2_def)
  have p: "fileHash h en (tokenPath cfg) s = (fst hs, s1)" "fileHash h en (KubeCAFile cfg) s1 = (snd hs, s2)"
    using i1 i2 Cons.prems(3) by (simp_all add: s1_def s2_def prod_eq_iff)
  have m: "maybeRegenerate h en cfg hs s = (hs, s2)" by (simp add: maybeRegenerate_def p)
  show ?case
    using Cons.IH [OF Cons.prems] Cons.IH [OF Cons.prems(1) q2] Cons.prems(3) f m
    by (auto split: watch_event.splits)
qed simp

text \<open>
  A rotation of the token after the kubeconfig was written and before the first hash of the
  token is missed: however often the credentials are checked afterwards, the kubeconfig keeps
  the old token.
\<close>

theorem early_rotation_missed:
  assumes "s_files s (kubeconfigPath cfg) = Some (new_file d 0x180)" "tokenPath cfg \<noteq> kubeconfigPath cfg"
    and "calm h" "h_other h (s_calls s) = (\<lambda>fs. fs(tokenPath cfg \<mapsto> tf))" "\<forall>n>s_calls s. h_other h n = id"
    and "\<forall>ca. e_Write en (kubeconfig_for cfg (TrimSpace (f_Data tf)) ca) \<noteq> Inr d"
    and "s' = snd (watchAndRegenerate h en cfg watching evs s)"
  shows "s_files s' (tokenPath cfg) = Some tf \<and> s_files s' (kubeconfigPath cfg) = Some (new_file d 0x180)
    \<and> \<not> generated en cfg (s_files s' (tokenPath cfg)) (s_files s' (KubeCAFile cfg)) (s_files s' (kubeconfigPath cfg))"
proof -
  define s1 where "s1 = snd (fileHash h en (tokenPath cfg) s)"
  have s1: "fst (fileHash h en (tokenPath cfg) s) = hash_of en (Some tf)" "s_files s1 = (s_files s)(tokenPath cfg \<mapsto> tf)"
      "s_calls s1 = Suc (s_calls s)"
    using assms(3,4) by (simp_all add: s1_def fileHash_def ReadFile_def syscall_def calm_def hash_of_def Let_def)
  have q1: "\<forall>n\<ge>s_calls s1. h_other h n = id" using assms(5) s1(3) by simp
  note i = idle_fileHash [OF assms(3) q1, of en "KubeCAFile cfg"]
  define s2 where "s2 = snd (fileHash h en (KubeCAFile cfg) s1)"
  have q2: "\<forall>n\<ge>s_calls s2. h_other h n = id" using i(3) q1 unfolding s2_def [symmetric] by (metis Suc_leD)
  have f2: "s_files s2 = (s_files s)(tokenPath cfg \<mapsto> tf)" using i(2) s1(2) by (simp add: s2_def)
  let ?hs = "(hash_of en (s_files s2 (tokenPath cfg)), hash_of en (s_files s2 (KubeCAFile cfg)))"
  have hs: "fst (fileHash h en (tokenPath cfg) s) = fst ?hs" "fst (fileHash h en (KubeCAFile cfg) s1) = snd ?hs"
    using s1(1) i(1) f2 s1(2) by simp_all
  have "s' = snd (watch_loop h en cfg (if watching then evs else filter (\<lambda>ev. ev \<in> {Done, Tick}) evs) ?hs s2)"
    using assms(7) hs by (simp add: watchAndRegenerate_def pollLoop_def s1_def s2_def split: prod.splits)
  then have "s_files s' = s_files s2" by (simp only: idle_loop [OF assms(3) q2 refl])
  then have "s_files s' = (s_files s)(tokenPath cfg \<mapsto> tf)" by (simp only: f2)
  then show ?thesis using assms(1,2,6) by (auto simp: generated_def new_file_def)
qed

text \<open>A host on which the second call, the write to the temporary file, fails after two bytes.\<close>

definition full_disk :: host where
  "full_disk = quiet_host\<lparr>h_fault := \<lambda>n. if n = 1 then Some (Msg ''no space left on device'') else None, h_partial := \<lambda>_. 2\<rparr>"

lemma idle_undisturbed:
  assumes "h_other h = (\<lambda>_ fs. fs)" "path \<notin> range (temp_name (Dir path))" "\<And>fs q v. F fs \<Longrightarrow> q = path \<or> q \<in> range (temp_name (Dir path)) \<Longrightarrow> F (fs(q := v))"
  shows "undisturbed h path F"
  using assms by (auto simp: undisturbed_def)

theorem atomicWriteFile_atomic_witness:
  "\<exists>e s'. atomicWriteFile full_disk ''/host/etc/nodename'' ''node-1'' node_ex = (Inl e, s')
    \<and> list_all (\<lambda>fs. old_or_new ''/host/etc/nodename'' None (new_file ''node-1'' 0x180) (\<lambda>_. True) fs) (s_seen s')"
proof -
  have e: "isl (fst (atomicWriteFile full_disk ''/host/etc/nodename'' ''node-1'' node_ex))" by code_simp
  obtain r s' where r: "atomicWriteFile full_disk ''/host/etc/nodename'' ''node-1'' node_ex = (r, s')" by fastforce
  have j: "Join ''/host/etc'' ''nodename'' = ''/host/etc/nodename''" by code_simp
  have "''/host/etc/nodename'' \<notin> range (temp_name (Dir ''/host/etc/nodename''))"
    using not_a_temp [of "''/host/etc''" "''nodename''"] unfolding j by (simp add: IsAbs_def plain_elem_def)
  then have "undisturbed full_disk ''/host/etc/nodename'' (\<lambda>_. True)"
    by (intro idle_undisturbed) (simp_all add: full_disk_def quiet_host_def)
  from atomicWriteFile_atomic [OF this _ r]
  have "\<forall>fs\<in>set (s_seen s'). fs \<in> set (s_seen node_ex) \<or> old_or_new ''/host/etc/nodename'' (s_files node_ex ''/host/etc/nodename'') (new_file ''node-1'' 0x180) (\<lambda>_. True) fs"
    by simp
  moreover have "s_seen node_ex = []" "s_files node_ex ''/host/etc/nodename'' = None" by (simp_all add: node_ex_def token_ex_def)
  ultimately show ?thesis using e r by (cases r) (auto simp: list_all_iff)
qed

theorem installed_node_name_found_witness:
  "\<exists>s'. writeNodeNameFile quiet_host config_ex node_ex = (Inr (), s')
    \<and> getNodeName \<lparr> os_Getenv = (\<lambda>_. []), os_Open = (\<lambda>p. case s_files s' (''/host'' @ p) of None \<Rightarrow> Inl noent | Some f \<Rightarrow> Inr (Inr (f_Data f))) \<rparr>
        (ipam_ex\<lparr>ki_Config := ipam_conf_ex\<lparr>ic_ConfigurationPath := ''/etc/cni/net.d/whereabouts.d''\<rparr>\<rparr>) = Inr ''node-1''"
proof -
  have e: "isr (fst (writeNodeNameFile quiet_host config_ex node_ex))" by code_simp
  then obtain s' where w: "writeNodeNameFile quiet_host config_ex node_ex = (Inr (), s')" by (metis (full_types) isl_def old.unit.exhaust prod.collapse sum.exhaust_sel)
  have p: "nodeNamePath config_ex = Join ''/host/etc/cni/net.d/whereabouts.d'' ''nodename''" "CNIConfDir config_ex = ''/host/etc/cni/net.d''"
    "TrimSpace (NodeName config_ex) = ''node-1''" "wc_ConfigurationPath (conf_for config_ex) = ''/etc/cni/net.d/whereabouts.d''" by code_simp+
  have "undisturbed quiet_host (nodeNamePath config_ex) (\<lambda>_. True)"
    unfolding p(1) by (intro idle_undisturbed not_a_temp) (simp_all add: quiet_host_def IsAbs_def plain_elem_def)
  from installed_node_name_found [OF w this p(2)] show ?thesis using w p(3,4) by simp
qed

definition kubeconfig_ex :: Kubeconfig where
  "kubeconfig_ex = kubeconfig_for config_ex ''old'' ''CA''"

definition exact_encoders :: encoders where
  "exact_encoders = encoders_ex\<lparr>e_Write := \<lambda>kc. if kc = kubeconfig_ex then Inr ''KC'' else Inl (Msg ''cannot encode'')\<rparr>"

definition lib_ex :: client_lib where
  "lib_ex = \<lparr> lib_Load = (\<lambda>d. if d = ''KC'' then Inr kubeconfig_ex else Inl (Msg ''cannot decode'')), lib_ClientConfig = (\<lambda>p. Inr p),
     lib_InClusterConfig = Inl (Msg ''not in a cluster''), lib_NewClientset = Inr, lib_NewWhereabouts = Inr \<rparr>"

definition installed_ex :: files where
  "installed_ex = [kubeconfigPath config_ex \<mapsto> new_file ''KC'' 0x180]"

theorem installed_kubeconfig_used_witness:
  "NewKubernetesIPAM lib_ex \<lparr> os_Getenv = (\<lambda>_. []), os_Open = (\<lambda>p. case installed_ex (''/host'' @ p) of None \<Rightarrow> Inl noent | Some f \<Rightarrow> Inr (Inr (f_Data f))) \<rparr>
      ''c1'' ''eth0'' (ipam_conf_ex\<lparr>ic_Kubernetes := \<lparr> KubeConfigPath = ''/etc/cni/net.d/whereabouts.d/whereabouts.kubeconfig'', K8sAPIRoot = [] \<rparr>\<rparr>)
    = Inr (newKubernetesIPAM ''c1'' ''eth0'' (ipam_conf_ex\<lparr>ic_Kubernetes := \<lparr> KubeConfigPath = ''/etc/cni/net.d/whereabouts.d/whereabouts.kubeconfig'', K8sAPIRoot = [] \<rparr>\<rparr>)
        ''kube-system'')"
proof -
  let ?conf = "ipam_conf_ex\<lparr>ic_Kubernetes := \<lparr> KubeConfigPath = ''/etc/cni/net.d/whereabouts.d/whereabouts.kubeconfig'', K8sAPIRoot = [] \<rparr>\<rparr>"
  have p: "CNIConfDir config_ex = ''/host/etc/cni/net.d''"
    "wc_Kubeconfig (conf_for config_ex) = ''/etc/cni/net.d/whereabouts.d/whereabouts.kubeconfig''"
    "(if c_Namespace config_ex = [] then ''kube-system'' else c_Namespace config_ex) = ''kube-system''" "TrimSpace ''old'' = ''old''" by code_simp+
  have g: "generated exact_encoders config_ex (Some (plain_file ''old'')) (Some (plain_file ''CA'')) (installed_ex (kubeconfigPath config_ex))"
    using config_ex_paths(4) p(4) by (simp add: generated_def installed_ex_def exact_encoders_def kubeconfig_ex_def plain_file_def)
  have dec: "e_Write exact_encoders kc = Inr d \<Longrightarrow> lib_Load lib_ex d = Inr kc" for kc d
    by (auto simp: exact_encoders_def lib_ex_def split: if_splits)
  have k: "KubeConfigPath (ic_Kubernetes ?conf) = wc_Kubeconfig (conf_for config_ex)" unfolding p(2) by simp
  have c: "NewClientViaKubeconfig lib_ex (KubeConfigPath (ic_Kubernetes ?conf))
      = Inr (NewKubernetesClient (KubeConfigPath (ic_Kubernetes ?conf)) (KubeConfigPath (ic_Kubernetes ?conf)))"
    by (simp add: NewClientViaKubeconfig_def newClient_def lib_ex_def)
  show ?thesis by (rule installed_kubeconfig_used [where fs = installed_ex, OF g p(1) k _ dec c, unfolded p(3)]) simp
qed

theorem early_rotation_missed_witness:
  "let kc = ''old@https://10.96.0.1:443'';
       s = node_ex\<lparr>s_files := (s_files node_ex)(kubeconfigPath config_ex \<mapsto> new_file kc 0x180)\<rparr>;
       h = quiet_host\<lparr>h_other := \<lambda>n fs. if n = 0 then fs(tokenPath config_ex \<mapsto> plain_file ''new'') else fs\<rparr>
   in s_files (snd (watchAndRegenerate h encoders_ex config_ex True [Tick, Tick] s)) (kubeconfigPath config_ex) = Some (new_file kc 0x180)"
proof -
  have e: "\<forall>ca. e_Write encoders_ex (kubeconfig_for config_ex (TrimSpace (f_Data (plain_file ''new''))) ca) \<noteq> Inr ''old@https://10.96.0.1:443''"
    by (simp add: encoders_ex_def kubeconfig_for_def plain_file_def TrimSpace_def trim_by_def is_space_def)
  show ?thesis
    unfolding Let_def
    by (rule early_rotation_missed [where tf = "plain_file ''new''" and en = encoders_ex, OF _ _ _ _ _ e refl, THEN conjunct2, THEN conjunct1])
      (auto simp: config_ex_paths token_ex_def calm_def quiet_host_def node_ex_def)
qed

lemma temp_name_Join:
  assumes "IsAbs d" "plain_elem e"
  shows "temp_name (Dir (Join d e)) n = CHR ''/'' # join (CHR ''/'') (elems d @ [''.whereabouts-tmp-'' @ dec n])"
  unfolding temp_name_def Dir_Join [OF assms] Join_Clean [OF assms(1) temp_name_plain] by (rule Join_abs [OF assms(1) temp_name_plain])

lemma quiet_undisturbed:
  assumes "IsAbs d" "plain_elem e" "hd e \<noteq> CHR ''.''" "\<And>fs fs'. (\<And>q. q \<in> Q \<Longrightarrow> fs q = fs' q) \<Longrightarrow> F fs = F fs'" "Join d e \<notin> Q"
    and "\<And>n. CHR ''/'' # join (CHR ''/'') (elems d @ [''.whereabouts-tmp-'' @ dec n]) \<notin> Q"
  shows "undisturbed quiet_host (Join d e) F"
proof (rule idle_undisturbed)
  show "Join d e \<notin> range (temp_name (Dir (Join d e)))" by (rule not_a_temp [OF assms(1-3)])
  fix fs q v assume F: "F fs" and "q = Join d e \<or> q \<in> range (temp_name (Dir (Join d e)))"
  then have "q \<notin> Q" using assms(5,6) by (auto simp only: temp_name_Join [OF assms(1,2)])
  then have "F (fs(q := v)) = F fs" by (intro assms(4)) auto
  then show "F (fs(q := v))" using F by simp
qed (simp add: quiet_host_def)

lemma config_ex_written:
  "kubeconfigPath config_ex = Join ''/host/etc/cni/net.d/whereabouts.d'' ''whereabouts.kubeconfig''"
  "whereaboutsConfPath config_ex = Join ''/host/etc/cni/net.d/whereabouts.d'' ''whereabouts.conf''"
  "nodeNamePath config_ex = Join ''/host/etc/cni/net.d/whereabouts.d'' ''nodename''"
  "CNIBinDir config_ex = ''/host/opt/cni/bin/''"
  by code_simp+

lemma config_ex_elems:
  "elems ''/host/etc/cni/net.d/whereabouts.d'' = [''host'', ''etc'', ''cni'', ''net.d'', ''whereabouts.d'']"
  "elems ''/host/opt/cni/bin/'' = [''host'', ''opt'', ''cni'', ''bin'']"
  by code_simp+

lemma config_ex_joined:
  "Join ''/host/etc/cni/net.d/whereabouts.d'' ''whereabouts.kubeconfig'' = ''/host/etc/cni/net.d/whereabouts.d/whereabouts.kubeconfig''"
  "Join ''/host/etc/cni/net.d/whereabouts.d'' ''whereabouts.conf'' = ''/host/etc/cni/net.d/whereabouts.d/whereabouts.conf''"
  "Join ''/host/etc/cni/net.d/whereabouts.d'' ''nodename'' = ''/host/etc/cni/net.d/whereabouts.d/nodename''"
  "Join ''/host/opt/cni/bin/'' ''whereabouts'' = ''/host/opt/cni/bin/whereabouts''"
  by code_simp+

lemma installs_alone_ex: "installs_alone quiet_host config_ex x y"
proof -
  have k: "undisturbed quiet_host (kubeconfigPath config_ex) (creds config_ex x y)"
    unfolding config_ex_written
    by (rule quiet_undisturbed [where Q = "{token_ex, ''/var/run/secrets/kubernetes.io/serviceaccount/ca.crt''}"])
      (simp_all add: IsAbs_def plain_elem_def creds_def config_ex_paths config_ex_joined config_ex_elems token_ex_def)
  have r: "undisturbed quiet_host (Join d e) (\<lambda>fs. fs (kubeconfigPath config_ex) = kc \<and> creds config_ex x y fs)"
    if "(d, e) \<in> {(''/host/etc/cni/net.d/whereabouts.d'', ''whereabouts.conf''), (''/host/etc/cni/net.d/whereabouts.d'', ''nodename''),
      (''/host/opt/cni/bin/'', ''whereabouts'')}" for d e kc
    by (rule quiet_undisturbed [where Q = "{token_ex, ''/var/run/secrets/kubernetes.io/serviceaccount/ca.crt'', kubeconfigPath config_ex}"])
      (use that in \<open>auto simp: IsAbs_def plain_elem_def creds_def config_ex_paths config_ex_joined config_ex_elems token_ex_def\<close>)
  show ?thesis unfolding installs_alone_def using k r unfolding config_ex_written by simp
qed

text \<open>What a call returns and leaves on a quiet host, whatever was called before.\<close>

definition yields :: "(sys \<Rightarrow> 'a result \<times> sys) \<Rightarrow> files \<Rightarrow> 'a \<Rightarrow> files \<Rightarrow> bool" where
  "yields m fs x fs' \<longleftrightarrow> (\<forall>s. s_files s = fs \<longrightarrow> (\<exists>s'. m s = (Inr x, s') \<and> s_files s' = fs'))"

lemma yields_sbind: "yields m fs x fs1 \<Longrightarrow> yields (f x) fs1 y fs' \<Longrightarrow> yields (sbind m f) fs y fs'"
  by (fastforce simp: yields_def sbind_def)

lemma yieldsD: "yields m fs x fs' \<Longrightarrow> s_files s = fs \<Longrightarrow> \<exists>s'. m s = (Inr x, s') \<and> s_files s' = fs'"
  by (simp add: yields_def)

lemma yields_return: "yields (\<lambda>s. (Inr x, s)) fs x fs"
  by (simp add: yields_def)

lemma yields_then: "yields m fs x fs1 \<Longrightarrow> yields k fs1 y fs' \<Longrightarrow> yields (\<lambda>s. case m s of (r, s) \<Rightarrow> (r, snd (k s))) fs x fs'"
  by (fastforce simp: yields_def)

lemma quiet_reads:
  "fs p = Some f \<Longrightarrow> yields (ReadFile quiet_host p) fs (f_Data f) fs" "fs p = Some f \<Longrightarrow> yields (Stat quiet_host p) fs f fs"
  "yields (Plain quiet_host) fs () fs"
  by (simp_all add: yields_def ReadFile_def Stat_def Plain_def syscall_def quiet_host_def Let_def)

text \<open>On a quiet host a write changes the one file.\<close>

lemma quiet_via_temp:
  assumes "\<forall>n. fs (temp_name (Dir path) n) = None" "path \<notin> range (temp_name (Dir path))"
    and "\<And>n v. yields source (fs(temp_name (Dir path) n := v)) d (fs(temp_name (Dir path) n := v))"
  shows "yields (via_temp quiet_host path source mode) fs () (fs(path \<mapsto> new_file d mode))"
  unfolding yields_def
proof (intro allI impI)
  fix s :: sys assume s: "s_files s = fs"
  let ?t = "temp_name (Dir path) (s_calls s)"
  define s1 where "s1 = \<lparr> s_files = fs(?t \<mapsto> new_file [] 0x180), s_calls = Suc (s_calls s),
      s_seen = fs(?t \<mapsto> new_file [] 0x180) # fs # s_seen s \<rparr>"
  have c: "CreateTemp quiet_host (Dir path) s = (Inr ?t, s1)"
    using assms(1) s by (simp add: CreateTemp_def syscall_def quiet_host_def temp_search.simps s1_def new_file_def Let_def)
  have "s_files s1 = fs(?t \<mapsto> new_file [] 0x180)" by (simp add: s1_def)
  from yieldsD [OF assms(3) this] obtain s2 where s2: "source s1 = (Inr d, s2)" "s_files s2 = fs(?t \<mapsto> new_file [] 0x180)" by blast
  have t: "?t \<noteq> path" "fs ?t = None" using assms(1,2) by (metis rangeI, blast)
  have fill: "\<exists>s3. fill_and_rename quiet_host ?t path source mode s1 = (Inr (), s3) \<and> s_files s3 = fs(?t := None, path \<mapsto> new_file d mode)"
    using t by (simp add: fill_and_rename_def sbind_def or_close_def s2 Write_def Chmod_def Plain_def Rename_def syncDirectory_def syscall_def
      quiet_host_def appended_def new_file_def Let_def)
  then obtain s3 where s3: "fill_and_rename quiet_host ?t path source mode s1 = (Inr (), s3)" "s_files s3 = fs(?t := None, path \<mapsto> new_file d mode)" by blast
  have "s_files (snd (Remove quiet_host ?t s3)) = s_files s3" using s3(2) t by (simp add: Remove_def syscall_def quiet_host_def Let_def)
  moreover have "fs(?t := None) = fs" using t(2) by (simp add: fun_upd_idem)
  ultimately show "\<exists>s'. via_temp quiet_host path source mode s = (Inr (), s') \<and> s_files s' = fs(path \<mapsto> new_file d mode)"
    using s3(2) by (simp add: via_temp_def sbind_def c s3(1))
qed

lemma quiet_atomicWriteFile:
  assumes "IsAbs d" "plain_elem e" "hd e \<noteq> CHR ''.''" "\<forall>n. fs (CHR ''/'' # join (CHR ''/'') (elems d @ [''.whereabouts-tmp-'' @ dec n])) = None"
  shows "yields (atomicWriteFile quiet_host (Join d e) data) fs () (fs(Join d e \<mapsto> new_file data 0x180))"
  unfolding atomicWriteFile_def defaultKubeConfigMode_def
  by (rule quiet_via_temp) (use assms not_a_temp [OF assms(1-3)] in \<open>simp_all add: temp_name_Join yields_def\<close>)

definition installed_files :: files where
  "installed_files = (s_files node_ex)(''/host/etc/cni/net.d/whereabouts.d/whereabouts.kubeconfig'' \<mapsto> new_file ''old@https://10.96.0.1:443'' 0x180,
     ''/host/etc/cni/net.d/whereabouts.d/whereabouts.conf'' \<mapsto> new_file (''/etc/cni/net.d/whereabouts.d/whereabouts.kubeconfig'' @ [char_of (10 :: nat)]) 0x180,
     ''/host/etc/cni/net.d/whereabouts.d/nodename'' \<mapsto> new_file ''node-1'' 0x180, ''/host/opt/cni/bin/whereabouts'' \<mapsto> new_file ''ELF'' 0x1ED)"

lemma config_ex_contents:
  "TrimSpace ''old'' = ''old''" "TrimSpace ''CA'' = ''CA''" "TrimSpace (NodeName config_ex) = ''node-1''" "CNIBinSrc config_ex = ''/whereabouts''"
  "e_Write encoders_ex (kubeconfig_for config_ex ''old'' ''CA'') = Inr ''old@https://10.96.0.1:443''"
  "e_Marshal encoders_ex (conf_for config_ex) = Inr ''/etc/cni/net.d/whereabouts.d/whereabouts.kubeconfig''"
  by code_simp+

lemma yields_cong: "yields m fs x fs' \<Longrightarrow> (\<And>s. s_files s = fs \<Longrightarrow> m' s = m s) \<Longrightarrow> yields m' fs x fs'"
  by (simp add: yields_def)

lemma quiet_copyFile:
  assumes src: "fs src = Some f" and f: "f_Regular f" "f_Data f \<noteq> []" and d: "IsAbs d" "plain_elem e" "hd e \<noteq> CHR ''.''"
    and t: "\<And>n. fs (CHR ''/'' # join (CHR ''/'') (elems d @ [''.whereabouts-tmp-'' @ dec n])) = None"
  shows "yields (copyFile quiet_host src (Join d e)) fs () (fs(Join d e \<mapsto> new_file (f_Data f) 0x1ED))"
proof -
  have st: "yields (Stat quiet_host src) fs f fs" by (rule quiet_reads(2)) (rule src)
  have none: "fs (temp_name (Dir (Join d e)) n) = None" for n unfolding temp_name_Join [OF d(1,2)] by (rule t)
  have "(fs(temp_name (Dir (Join d e)) n := v)) src = Some f" for n v using src none [of n] by auto
  then have "yields (via_temp quiet_host (Join d e) (ReadFile quiet_host src) 0x1ED) fs () (fs(Join d e \<mapsto> new_file (f_Data f) 0x1ED))"
    by (intro quiet_via_temp allI not_a_temp d quiet_reads(1) none)
  from yields_then [OF this quiet_reads(3)] show ?thesis
    unfolding copyFile_def by (intro yields_sbind [OF st]) (simp add: f, rule yields_sbind [OF st])
qed

lemma quiet_writeKubeConfig:
  assumes "fs (tokenPath cfg) = Some x" "TrimSpace (f_Data x) \<noteq> []" "fs (KubeCAFile cfg) = Some y" "TrimSpace (f_Data y) \<noteq> []" "\<not> SkipTLSVerify cfg"
    and "e_Write en (kubeconfig_for cfg (TrimSpace (f_Data x)) (f_Data y)) = Inr kc" "yields (atomicWriteFile quiet_host (kubeconfigPath cfg) kc) fs () fs'"
  shows "yields (writeKubeConfig quiet_host en cfg) fs () fs'"
proof -
  have "yields (\<lambda>s. (if TrimSpace (f_Data y) = [] then Inl (Msg ''CA data is empty'') else Inr (f_Data y), s)) fs (f_Data y) fs"
    using assms(4) by (simp add: yields_return)
  then have ca: "yields (read_ca quiet_host cfg) fs (f_Data y) fs"
    by (rule yields_cong [OF yields_sbind [OF quiet_reads(1) [where p = "KubeCAFile cfg" and fs = fs, OF assms(3)]]]) (simp add: read_ca_def assms(5))
  show ?thesis unfolding writeKubeConfig_def
    by (rule yields_sbind [OF quiet_reads(1) [where p = "tokenPath cfg" and fs = fs, OF assms(1)]])
      (simp add: assms(2), rule yields_sbind [OF ca], simp add: assms(6,7))
qed

lemma install_ex: "yields (install_files quiet_host encoders_ex config_ex) (s_files node_ex) () installed_files"
proof -
  let ?d = "''/host/etc/cni/net.d/whereabouts.d''"
  let ?f0 = "s_files node_ex"
  let ?f1 = "?f0(Join ?d ''whereabouts.kubeconfig'' \<mapsto> new_file ''old@https://10.96.0.1:443'' 0x180)"
  let ?f2 = "?f1(Join ?d ''whereabouts.conf'' \<mapsto> new_file (''/etc/cni/net.d/whereabouts.d/whereabouts.kubeconfig'' @ [char_of (10 :: nat)]) 0x180)"
  let ?f3 = "?f2(Join ?d ''nodename'' \<mapsto> new_file ''node-1'' 0x180)"
  note files = node_ex_def token_ex_def config_ex_joined config_ex_elems IsAbs_def plain_elem_def
  have w: "yields (atomicWriteFile quiet_host (Join ?d e) data) fs () (fs(Join ?d e \<mapsto> new_file data 0x180))"
    if "plain_elem e" "hd e \<noteq> CHR ''.''" "fs \<in> {?f0, ?f1, ?f2}" for e data fs
    by (rule quiet_atomicWriteFile) (use that in \<open>auto simp: files\<close>)
  have 1: "yields (writeKubeConfig quiet_host encoders_ex config_ex) ?f0 () ?f1"
    by (rule quiet_writeKubeConfig [where x = "plain_file ''old''" and y = "plain_file ''CA''" and kc = "''old@https://10.96.0.1:443''"])
      (use w [of "''whereabouts.kubeconfig''" ?f0] in \<open>simp_all add: config_ex_paths(1,2,4) config_ex_contents config_ex_written plain_file_def files\<close>)
  have 2: "yields (writeWhereaboutsConf quiet_host encoders_ex config_ex) ?f1 () ?f2"
    by (rule yields_cong [OF w]) (simp_all add: writeWhereaboutsConf_def config_ex_contents config_ex_written plain_elem_def)
  have 3: "yields (writeNodeNameFile quiet_host config_ex) ?f2 () ?f3"
    by (rule yields_cong [OF w]) (simp_all add: writeNodeNameFile_def config_ex_contents config_ex_written plain_elem_def Let_def)
  have "yields (copyFile quiet_host ''/whereabouts'' (Join ''/host/opt/cni/bin/'' ''whereabouts'')) ?f3 ()
      (?f3(Join ''/host/opt/cni/bin/'' ''whereabouts'' \<mapsto> new_file (f_Data (plain_file ''ELF'')) 0x1ED))"
    by (rule quiet_copyFile) (simp_all add: files plain_file_def)
  then have 4: "yields (copyFile quiet_host (CNIBinSrc config_ex) (Join (CNIBinDir config_ex) ''whereabouts'')) ?f3 () installed_files"
    by (simp add: installed_files_def config_ex_joined config_ex_contents config_ex_written(4) plain_file_def)
  show ?thesis unfolding install_files_def
    by (rule yields_sbind [OF quiet_reads(3)], rule yields_sbind [OF 1], rule yields_sbind [OF 2], rule yields_sbind [OF 3], rule 4)
qed

text \<open>The token is rotated after the installation.\<close>

definition rotated_ex :: sys where
  "rotated_ex = \<lparr> s_files = installed_files(token_ex \<mapsto> plain_file ''new''), s_calls = 60, s_seen = [] \<rparr>"

theorem kubeconfig_follows_credentials_witness:
  "generated encoders_ex config_ex (Some (plain_file ''new'')) (Some (plain_file ''CA''))
    (s_files (snd (maybeRegenerate quiet_host encoders_ex config_ex (''#old'', ''#CA'') rotated_ex)) (kubeconfigPath config_ex))"
proof -
  let ?h = quiet_host and ?en = encoders_ex and ?cfg = config_ex
  obtain s1 where start: "install_files ?h ?en ?cfg node_ex = (Inr (), s1)" "s_files s1 = installed_files"
    using yieldsD [OF install_ex refl] by blast
  have hash: "\<exists>s2. fileHash ?h ?en p s = (CHR ''#'' # f_Data f, s2) \<and> s_files s2 = s_files s" if "s_files s p = Some f" for s p f
    using yieldsD [OF quiet_reads(1) [where p = p and fs = "s_files s", OF that] refl] by (auto simp: fileHash_def encoders_ex_def)
  have c1: "installed_files (tokenPath ?cfg) = Some (plain_file ''old'')" "installed_files (KubeCAFile ?cfg) = Some (plain_file ''CA'')"
    by (simp_all add: installed_files_def node_ex_def config_ex_paths token_ex_def)
  from hash [of s1 "tokenPath ?cfg"] c1(1) start(2) obtain s3 where s3: "fileHash ?h ?en (tokenPath ?cfg) s1 = (''#old'', s3)" "s_files s3 = installed_files"
    by (auto simp: plain_file_def)
  from hash [of s3 "KubeCAFile ?cfg"] c1(2) s3(2) obtain s2 where s2: "fileHash ?h ?en (KubeCAFile ?cfg) s3 = (''#CA'', s2)" "s_files s2 = installed_files"
    by (auto simp: plain_file_def)
  have watch: "watchAndRegenerate ?h ?en ?cfg True [] s1 = ((''#old'', ''#CA''), s2)" by (simp add: watchAndRegenerate_def s3(1) s2(1))
  have c0: "creds ?cfg (Some (plain_file ''old'')) (Some (plain_file ''CA'')) (s_files node_ex)"
    by (simp add: creds_def node_ex_def config_ex_paths token_ex_def)
  have c: "s_files rotated_ex (tokenPath ?cfg) = Some (plain_file ''new'')" "s_files rotated_ex (KubeCAFile ?cfg) = Some (plain_file ''CA'')"
    by (simp_all add: rotated_ex_def installed_files_def node_ex_def config_ex_paths token_ex_def)
  have no: "\<not> matching ?en ?cfg (s_files rotated_ex (tokenPath ?cfg)) (s_files rotated_ex (KubeCAFile ?cfg)) (''#old'', ''#CA'')"
    by (simp add: c matching_def hash_of_def encoders_ex_def plain_file_def)
  have rot: "(watch_step ?en ?cfg)\<^sup>*\<^sup>* (s_files s2, (''#old'', ''#CA'')) (s_files rotated_ex, (''#old'', ''#CA''))"
    by (rule r_into_rtranclp) (rule watch_step.rotate [OF no])
  obtain hs' s' where m: "maybeRegenerate ?h ?en ?cfg (''#old'', ''#CA'') rotated_ex = (hs', s')" by fastforce
  have nl: "names_left ?h (Dir (kubeconfigPath ?cfg)) (s_files rotated_ex)"
    unfolding config_ex_written
    by (simp add: names_left_def temp_search.simps Let_def temp_name_Join IsAbs_def plain_elem_def config_ex_elems rotated_ex_def installed_files_def node_ex_def token_ex_def)
  have u: "undisturbed ?h (kubeconfigPath ?cfg) (creds ?cfg x y)" for x y using installs_alone_ex by (simp add: installs_alone_def)
  have "calm ?h" by (simp add: calm_def quiet_host_def)
  moreover have "usable ?en ?cfg (s_files rotated_ex (tokenPath ?cfg)) (s_files rotated_ex (KubeCAFile ?cfg))"
    by (simp add: c usable_def encoders_ex_def plain_file_def TrimSpace_def trim_by_def is_space_def)
  ultimately have "generated ?en ?cfg (s_files s' (tokenPath ?cfg)) (s_files s' (KubeCAFile ?cfg)) (s_files s' (kubeconfigPath ?cfg))"
    using kubeconfig_follows_credentials [OF start(1) c0 installs_alone_ex watch rot m _ nl u] by blast
  moreover have "in_step ?en ?cfg (s_files rotated_ex) (''#old'', ''#CA'')" using no by (simp add: in_step_def)
  from maybeRegenerate_in_step(2) [OF m u this] have "creds ?cfg (Some (plain_file ''new'')) (Some (plain_file ''CA'')) (s_files s')" unfolding c .
  ultimately show ?thesis using m by (simp add: creds_def)
qed

end
