(* ===== verification/Logging.thy ===== *)
theory Logging
  imports Paths
begin

text \<open>
  \<^verbatim>\<open>pkg/logging/logging.go\<close>: the log level, the log file and the check of its path. The file system
  is a parameter: resolving symbolic links, \<^verbatim>\<open>os.Lstat\<close>, opening a file for appending and the
  system's temporary directory. The two outputs are part of the state, so that what is written
  where can be stated; the time stamp, the formatting of a message and the mutex, which makes
  every operation one step, are left out.
\<close>

section \<open>Definitions\<close>

definition PanicLevel :: nat where "PanicLevel = 0"

definition ErrorLevel :: nat where "ErrorLevel = 1"

definition VerboseLevel :: nat where "VerboseLevel = 2"

definition DebugLevel :: nat where "DebugLevel = 3"

definition MaxLevel :: nat where "MaxLevel = 4"

definition UnknownLevel :: nat where "UnknownLevel = 5"

lemmas level_defs = PanicLevel_def ErrorLevel_def VerboseLevel_def DebugLevel_def MaxLevel_def UnknownLevel_def

definition level_String :: "nat \<Rightarrow> string" where
  "level_String l =
     (if l = PanicLevel then ''panic'' else if l = VerboseLevel then ''verbose'' else if l = ErrorLevel then ''error''
      else if l = DebugLevel then ''debug'' else ''unknown'')"

text \<open>\<open>lg_Fp\<close> is the name of the open log file; \<open>lg_File\<close> has the lines written to log files, with their names.\<close>

record log_state =
  lg_Fp :: "string option"
  lg_Level :: nat
  lg_Stderr :: "string list"
  lg_File :: "(string \<times> string) list"

definition log_init :: log_state where
  "log_init = \<lparr> lg_Fp = None, lg_Level = ErrorLevel, lg_Stderr = [], lg_File = [] \<rparr>"

definition log_line :: "nat \<Rightarrow> string \<Rightarrow> string" where
  "log_line level msg = CHR ''['' # level_String level @ ''] '' @ msg"

definition Printf :: "nat \<Rightarrow> string \<Rightarrow> log_state \<Rightarrow> log_state" where
  "Printf level msg st =
     (if level > lg_Level st then st
      else st\<lparr>lg_Stderr := lg_Stderr st @ [log_line level msg],
              lg_File := lg_File st @ (case lg_Fp st of None \<Rightarrow> [] | Some f \<Rightarrow> [(f, log_line level msg)])\<rparr>)"

definition Debugf :: "string \<Rightarrow> log_state \<Rightarrow> log_state" where
  "Debugf = Printf DebugLevel"

definition Verbosef :: "string \<Rightarrow> log_state \<Rightarrow> log_state" where
  "Verbosef = Printf VerboseLevel"

definition Errorf :: "string \<Rightarrow> log_state \<Rightarrow> err \<times> log_state" where
  "Errorf msg st = (Msg msg, Printf ErrorLevel msg st)"

definition lower :: "char \<Rightarrow> char" where
  "lower c = (let n = (of_char c :: nat) in if 65 \<le> n \<and> n \<le> 90 then char_of (n + 32) else c)"

definition to_stderr :: "string \<Rightarrow> log_state \<Rightarrow> log_state" where
  "to_stderr msg st = st\<lparr>lg_Stderr := lg_Stderr st @ [msg]\<rparr>"

definition getLoggingLevel :: "string \<Rightarrow> log_state \<Rightarrow> nat \<times> log_state" where
  "getLoggingLevel levelStr st =
     (let l = map lower levelStr
      in if l = ''debug'' then (DebugLevel, st) else if l = ''verbose'' then (VerboseLevel, st)
         else if l = ''error'' then (ErrorLevel, st) else if l = ''panic'' then (PanicLevel, st)
         else (UnknownLevel, to_stderr (''Whereabouts logging: cannot set logging level to '' @ levelStr) st))"

definition SetLogLevel :: "string \<Rightarrow> log_state \<Rightarrow> log_state" where
  "SetLogLevel levelStr st = (case getLoggingLevel levelStr st of
     (level, st) \<Rightarrow> if level < MaxLevel then st\<lparr>lg_Level := level\<rparr> else st)"

subsection \<open>The path of the log file\<close>

datatype lstat = Missing | Symlink | Regular | Other_kind

record log_os =
  lo_EvalSymlinks :: "string \<Rightarrow> string result"
  lo_Lstat :: "string \<Rightarrow> lstat result"
  lo_OpenFile :: "string \<Rightarrow> unit result"
  lo_TempDir :: string

definition pathWithin :: "string \<Rightarrow> string \<Rightarrow> bool" where
  "pathWithin path root = (case Rel root path of
     Inl _ \<Rightarrow> False
   | Inr rel \<Rightarrow> rel = ''.'' \<or> (rel \<noteq> ''..'' \<and> take 3 rel \<noteq> ''../''))"

fun resolve_roots :: "log_os \<Rightarrow> string list \<Rightarrow> string list \<Rightarrow> string list" where
  "resolve_roots os roots [] = roots"
| "resolve_roots os roots (candidate # rest) = (case lo_EvalSymlinks os (Clean candidate) of
     Inl _ \<Rightarrow> resolve_roots os roots rest
   | Inr resolved \<Rightarrow> resolve_roots os (if resolved \<in> set roots then roots else roots @ [resolved]) rest)"

definition allowedLogFileRoots :: "log_os \<Rightarrow> string list" where
  "allowedLogFileRoots os = resolve_roots os [] [''/var/log'', lo_TempDir os, ''/tmp'']"

definition isAllowedLogFileParent :: "log_os \<Rightarrow> string \<Rightarrow> bool" where
  "isAllowedLogFileParent os parent \<longleftrightarrow> list_ex (pathWithin parent) (allowedLogFileRoots os)"

definition validateLogFilePath :: "log_os \<Rightarrow> string \<Rightarrow> err option" where
  "validateLogFilePath os filename =
     (if \<not> IsAbs filename then Some (Msg ''path must be absolute'')
      else case lo_EvalSymlinks os (Dir filename) of
             Inl e \<Rightarrow> Some (Wrap ''cannot resolve parent directory'' e)
           | Inr resolvedParent \<Rightarrow>
               if \<not> isAllowedLogFileParent os resolvedParent
               then Some (Msg ''path must be under /var/log or the system temporary directory'')
               else (case lo_Lstat os filename of
                       Inl e \<Rightarrow> Some (Wrap ''cannot inspect path'' e)
                     | Inr Missing \<Rightarrow> None
                     | Inr Symlink \<Rightarrow> Some (Msg ''path must not be a symlink'')
                     | Inr Regular \<Rightarrow> None
                     | Inr Other_kind \<Rightarrow> Some (Msg ''path must be a regular file'')))"

definition SetLogFile :: "log_os \<Rightarrow> string \<Rightarrow> log_state \<Rightarrow> log_state" where
  "SetLogFile os filename0 st =
     (if filename0 = [] then st
      else let filename = Clean filename0
           in case validateLogFilePath os filename of
                Some _ \<Rightarrow> to_stderr (''Whereabouts logging: rejected log_file '' @ filename) st
              | None \<Rightarrow> (case lo_OpenFile os filename of
                    Inl _ \<Rightarrow> to_stderr (''Whereabouts logging: cannot open '' @ filename) st
                  | Inr _ \<Rightarrow> st\<lparr>lg_Fp := Some filename\<rparr>))"

section \<open>Paths under a root\<close>

text \<open>
  The test for a path under a root compares whole elements: for absolute paths it holds if
  and only if the elements of the root are the first ones of the path, so \<^verbatim>\<open>/var/log2\<close> and
  \<^verbatim>\<open>/var/log/../../etc\<close> are not under \<^verbatim>\<open>/var/log\<close>.
\<close>

theorem pathWithin_iff_prefix:
  assumes "IsAbs path" "IsAbs root"
  shows "pathWithin path root \<longleftrightarrow> (\<exists>rest. elems path = elems root @ rest)"
proof -
  obtain bs ts where s: "strip_common (elems root) (elems path) = (bs, ts)" by fastforce
  have pl: "list_all plain_elem ts"
    using elems_plain [OF assms(1)] strip_common_spec [OF s] by auto
  have "(\<exists>rest. elems path = elems root @ rest) \<longleftrightarrow> bs = []"
    using strip_common_prefix [of "elems root" "elems path"] s by simp
  moreover have "pathWithin path root \<longleftrightarrow> bs = []"
  proof (cases bs)
    case Nil
    show ?thesis
    proof (cases ts)
      case Nil
      then show ?thesis using \<open>bs = []\<close> s assms(2) by (simp add: pathWithin_def Rel_def)
    next
      case (Cons t ts')
      have t: "t \<noteq> []" "t \<noteq> ''..''" "CHR ''/'' \<notin> set t" using pl Cons by (auto simp: plain_elem_def)
      have "take 3 (t @ CHR ''/'' # xs) \<noteq> ''../'' \<and> t @ CHR ''/'' # xs \<noteq> ''..''" for xs
        using t by (cases t; cases "tl t"; cases "tl (tl t)") (auto simp: numeral_3_eq_3)
      moreover have "take 3 t \<noteq> ''../''"
      proof
        assume "take 3 t = ''../''"
        then have "CHR ''/'' \<in> set (take 3 t)" by simp
        then show False using t(3) by (meson in_set_takeD)
      qed
      moreover have "join (CHR ''/'') ts = (if ts' = [] then t else t @ CHR ''/'' # join (CHR ''/'') ts')"
        unfolding Cons by (cases ts') simp_all
      ultimately show ?thesis
        using \<open>bs = []\<close> Cons s assms(2) t(2) by (auto simp: pathWithin_def Rel_def)
    qed
  next
    case (Cons b bs')
    have "\<exists>xs. join (CHR ''/'') (map (\<lambda>_. ''..'') bs @ ts) = ''..'' @ xs \<and> (xs = [] \<or> hd xs = CHR ''/'')"
      using Cons by (cases "(CHR ''/'', map (\<lambda>_. ''..'') bs @ ts)" rule: join.cases) auto
    then obtain xs where "join (CHR ''/'') (map (\<lambda>_. ''..'') bs @ ts) = ''..'' @ xs" "xs = [] \<or> hd xs = CHR ''/''" by blast
    then show ?thesis
      using Cons s assms(2) by (cases xs) (auto simp: pathWithin_def Rel_def)
  qed
  ultimately show ?thesis by simp
qed

theorem pathWithin_iff_prefix_witness:
  "pathWithin ''/var/log/pods'' ''/var/log'' \<and> \<not> pathWithin ''/var/log2'' ''/var/log'' \<and> \<not> pathWithin ''/var/log/../../etc'' ''/var/log''"
proof -
  have e: "elems ''/var/log/pods'' = [''var'', ''log'', ''pods'']" "elems ''/var/log'' = [''var'', ''log'']"
    "elems ''/var/log2'' = [''var'', ''log2'']" "elems ''/var/log/../../etc'' = [''etc'']" by code_simp+
  show ?thesis
    using pathWithin_iff_prefix [of _ "''/var/log''"] by (simp add: e IsAbs_def)
qed

section \<open>What is logged where\<close>

inductive log_op :: "log_os \<Rightarrow> log_state \<Rightarrow> log_state \<Rightarrow> bool" for os where
  "log_op os st (Printf level msg st)"
| "log_op os st (SetLogLevel levelStr st)"
| "log_op os st (SetLogFile os filename st)"

text \<open>
  Where log files may be: in a directory whose name without symbolic links is that of \<^verbatim>\<open>/var/log\<close>,
  \<^verbatim>\<open>/tmp\<close> or the system's temporary directory, or continues it after a slash.
\<close>

definition under :: "string \<Rightarrow> string \<Rightarrow> bool" where
  "under root path \<longleftrightarrow> path = root \<or> (\<exists>rest. path = (if root = ''/'' then ''/'' else root @ ''/'') @ rest)"

definition confined :: "log_os \<Rightarrow> string \<Rightarrow> bool" where
  "confined os f \<longleftrightarrow> IsAbs f \<and> (\<exists>dir root parent. dir \<in> {''/var/log'', ''/tmp'', Clean (lo_TempDir os)}
     \<and> lo_EvalSymlinks os dir = Inr root \<and> lo_EvalSymlinks os (Dir f) = Inr parent \<and> under root parent)
     \<and> lo_Lstat os f \<in> {Inr Missing, Inr Regular}"

text \<open>What \<^verbatim>\<open>filepath.EvalSymlinks\<close> documents: the result is clean, and absolute unless the path is relative.\<close>

definition resolves :: "log_os \<Rightarrow> bool" where
  "resolves os \<longleftrightarrow> (\<forall>p r. lo_EvalSymlinks os p = Inr r \<longrightarrow> Clean r = r \<and> (IsAbs p \<longrightarrow> IsAbs r))"

lemma IsAbs_Dir: "IsAbs f \<Longrightarrow> IsAbs (Dir f)"
proof -
  assume "IsAbs f"
  then obtain xs where f: "f = CHR ''/'' # xs" by (cases f) (auto simp: IsAbs_def)
  have "IsAbs (rev (dropWhile (\<lambda>c. c \<noteq> CHR ''/'') (rev f)))"
    by (cases "\<forall>c\<in>set (rev xs). c \<noteq> CHR ''/''") (auto simp: f IsAbs_def dropWhile_append)
  then show ?thesis unfolding Dir_def by (rule elems_Clean(1))
qed

lemma join_append: "xs \<noteq> [] \<Longrightarrow> ys \<noteq> [] \<Longrightarrow> join c (xs @ ys) = join c xs @ c # join c ys"
proof (induction c xs rule: join.induct)
  case (2 c x)
  then show ?case by (cases ys) auto
qed auto

lemma pathWithin_under:
  assumes "pathWithin parent root" "IsAbs parent" "Clean parent = parent" "Clean root = root"
  shows "under root parent"
proof -
  have root: "IsAbs root" using assms(1) by (auto simp: pathWithin_def Rel_def split: if_splits)
  obtain rest where r: "elems parent = elems root @ rest" using assms(1) pathWithin_iff_prefix [OF assms(2) root] by blast
  have p: "parent = CHR ''/'' # join (CHR ''/'') (elems root @ rest)" using Clean_abs [OF assms(2)] assms(3) r by simp
  have q: "root = CHR ''/'' # join (CHR ''/'') (elems root)" using Clean_abs [OF root] assms(4) by simp
  show ?thesis
  proof (cases "elems root = [] \<or> rest = []")
    case True
    then show ?thesis
    proof
      assume "elems root = []"
      then show ?thesis using p q by (simp add: under_def)
    next
      assume "rest = []"
      then show ?thesis using p q by (simp add: under_def)
    qed
  next
    case False
    then have "parent = root @ ''/'' @ join (CHR ''/'') rest" using p q join_append [of "elems root" rest "CHR ''/''"] by simp
    moreover have "root \<noteq> ''/''"
    proof
      assume "root = ''/''"
      then have "elems root = []" by (simp add: elems_def IsAbs_def)
      then show False using False by simp
    qed
    ultimately show ?thesis by (simp add: under_def)
  qed
qed

lemma resolve_roots_mem:
  "root \<in> set (resolve_roots os roots cs) \<Longrightarrow> root \<in> set roots \<or> (\<exists>c\<in>set cs. lo_EvalSymlinks os (Clean c) = Inr root)"
  by (induction os roots cs rule: resolve_roots.induct) (auto split: sum.splits if_splits)

lemma allowed_root:
  assumes "root \<in> set (allowedLogFileRoots os)"
  shows "\<exists>dir\<in>{''/var/log'', ''/tmp'', Clean (lo_TempDir os)}. lo_EvalSymlinks os dir = Inr root"
proof -
  have "Clean ''/var/log'' = ''/var/log''" "Clean ''/tmp'' = ''/tmp''" by code_simp+
  then show ?thesis using resolve_roots_mem [OF assms [unfolded allowedLogFileRoots_def]] by auto
qed

definition log_inv :: "log_os \<Rightarrow> log_state \<Rightarrow> bool" where
  "log_inv os st \<longleftrightarrow> lg_Level st < MaxLevel \<and> (\<forall>f. lg_Fp st = Some f \<longrightarrow> confined os f) \<and> (\<forall>(f, _)\<in>set (lg_File st). confined os f)"

lemma validateLogFilePath_confined:
  assumes "validateLogFilePath os f = None" "resolves os"
  shows "confined os f"
proof -
  obtain parent root where v: "IsAbs f" "lo_EvalSymlinks os (Dir f) = Inr parent" "root \<in> set (allowedLogFileRoots os)" "pathWithin parent root"
      "lo_Lstat os f \<in> {Inr Missing, Inr Regular}"
    using assms(1) by (auto simp: validateLogFilePath_def isAllowedLogFileParent_def list_ex_iff split: if_splits sum.splits lstat.splits)
  obtain dir where d: "dir \<in> {''/var/log'', ''/tmp'', Clean (lo_TempDir os)}" "lo_EvalSymlinks os dir = Inr root"
    using allowed_root [OF v(3)] by blast
  have "under root parent"
    using assms(2) v(2) d(2) IsAbs_Dir [OF v(1)] by (intro pathWithin_under [OF v(4)]) (auto simp: resolves_def)
  then show ?thesis using v d unfolding confined_def by blast
qed

lemma to_stderr_inv [simp]: "log_inv os (to_stderr msg st) = log_inv os st"
  by (simp add: to_stderr_def log_inv_def)

lemma SetLogLevel_inv: "log_inv os st \<Longrightarrow> log_inv os (SetLogLevel levelStr st)"
  by (auto simp: SetLogLevel_def getLoggingLevel_def Let_def log_inv_def to_stderr_def level_defs split: if_splits)

lemma SetLogFile_inv: "log_inv os st \<Longrightarrow> resolves os \<Longrightarrow> log_inv os (SetLogFile os filename st)"
  using validateLogFilePath_confined [of os "Clean filename"]
  by (auto simp: SetLogFile_def Let_def log_inv_def to_stderr_def split: option.splits sum.splits)

lemma Printf_inv: "log_inv os st \<Longrightarrow> log_inv os (Printf level msg st)"
  by (auto simp: Printf_def log_inv_def split: option.splits)

text \<open>
  C38: whatever log file a configuration names, lines are only ever written to regular files that
  are named by an absolute path and whose directory is, after resolving symbolic links, \<^verbatim>\<open>/var/log\<close>,
  \<^verbatim>\<open>/tmp\<close> or the system's temporary directory or a directory below one of them, which is stated on the
  names of the paths; and the level is always one of the four levels.
\<close>

theorem log_file_confined:
  assumes "(log_op os)\<^sup>*\<^sup>* log_init st" "resolves os"
  shows "log_inv os st"
  using assms(1)
proof (induction rule: rtranclp_induct)
  case base
  show ?case by (simp add: log_inv_def log_init_def level_defs)
next
  case (step st st')
  from step.hyps(2) step.IH show ?case
    by cases (simp_all add: Printf_inv SetLogLevel_inv SetLogFile_inv assms(2))
qed

definition log_os_ex :: log_os where
  "log_os_ex = \<lparr> lo_EvalSymlinks = (\<lambda>p. if IsAbs p then Inr (Clean p) else Inl (Msg ''no such directory'')), lo_Lstat = (\<lambda>_. Inr Missing), lo_OpenFile = (\<lambda>_. Inr ()), lo_TempDir = ''/tmp'' \<rparr>"

theorem log_file_confined_witness:
  "log_inv log_os_ex (Printf ErrorLevel ''boom'' (SetLogFile log_os_ex ''/var/log/wb.log'' log_init))
   \<and> lg_File (Printf ErrorLevel ''boom'' (SetLogFile log_os_ex ''/var/log/wb.log'' log_init)) = [(''/var/log/wb.log'', ''[error] boom'')]
   \<and> lg_Fp (SetLogFile log_os_ex ''/var/log/../../etc/passwd'' log_init) = None"
proof -
  have "(log_op log_os_ex)\<^sup>*\<^sup>* log_init (Printf ErrorLevel ''boom'' (SetLogFile log_os_ex ''/var/log/wb.log'' log_init))"
    by (meson log_op.intros rtranclp.rtrancl_into_rtrancl rtranclp.rtrancl_refl)
  moreover have "lg_File (Printf ErrorLevel ''boom'' (SetLogFile log_os_ex ''/var/log/wb.log'' log_init)) = [(''/var/log/wb.log'', ''[error] boom'')]"
    "lg_Fp (SetLogFile log_os_ex ''/var/log/../../etc/passwd'' log_init) = None" by code_simp+
  moreover have "resolves log_os_ex"
    using Clean_idempotent elems_Clean(1) by (auto simp: resolves_def log_os_ex_def)
  ultimately show ?thesis using log_file_confined by blast
qed

end
