(* ===== verification/DeepCopy.thy ===== *)
theory DeepCopy
  imports IPPoolController
begin

text \<open>
  \<^verbatim>\<open>api/whereabouts.cni.cncf.io/v1alpha1/zz_generated.deepcopy.go\<close> on an explicit heap. The other theories
  treat API objects as values. In the program they share maps and slices unless they are copied:
  the storage layer takes a copy before it changes a pool, and the reconcilers change objects
  in place and compare them with a snapshot. Here a map, a slice or a time behind a pointer is a cell of
  the heap, nil is \<open>None\<close>, and a struct is a record that holds references to such cells.
\<close>

section \<open>The heap\<close>

type_synonym loc = nat

record TypeMeta =
  tm_Kind :: string
  tm_APIVersion :: string

text \<open>The structs with references; structs without any are those of \<^verbatim>\<open>Types\<close>.\<close>

record ObjectMeta_go =
  gm_Name :: string
  gm_Namespace :: string
  gm_UID :: string
  gm_ResourceVersion :: string
  gm_Generation :: int
  gm_DeletionTimestamp :: "loc option"
  gm_Annotations :: "loc option"
  gm_OwnerReferences :: "loc option"
  gm_Finalizers :: "loc option"

record IPPoolSpec_go =
  gs_Range :: string
  gs_Allocations :: "loc option"
  gs_EnableL3 :: bool

record IPPoolStatus_go =
  gt_FirstIP :: string
  gt_LastIP :: string
  gt_TotalIPs :: int
  gt_UsedIPs :: int
  gt_FreeIPs :: int
  gt_OrphanedIPs :: int
  gt_PendingPods :: int
  gt_OverlappingReservations :: int
  gt_AllocatedIPs :: "loc option"
  gt_Conditions :: "loc option"

record IPPool_go =
  gp_TypeMeta :: TypeMeta
  gp_ObjectMeta :: ObjectMeta_go
  gp_Spec :: IPPoolSpec_go
  gp_Status :: IPPoolStatus_go

record NodeSlicePoolStatus_go =
  gn_Allocations :: "loc option"
  gn_TotalSlices :: int
  gn_AssignedSlices :: int
  gn_FreeSlices :: int
  gn_Conditions :: "loc option"

record NodeSlicePool_go =
  gq_TypeMeta :: TypeMeta
  gq_ObjectMeta :: ObjectMeta_go
  gq_Spec :: NodeSlicePoolSpec
  gq_Status :: NodeSlicePoolStatus_go

record OverlappingRangeIPReservationStatus_go =
  go_Conditions :: "loc option"

record OverlappingRangeIPReservation_go =
  gv_TypeMeta :: TypeMeta
  gv_ObjectMeta :: ObjectMeta_go
  gv_Spec :: OverlappingRangeIPReservationSpec
  gv_Status :: OverlappingRangeIPReservationStatus_go

text \<open>A list object: the item slice is a reference, too; \<open>gl_ResourceVersion\<close> and \<open>gl_Continue\<close> are of its \<^verbatim>\<open>ListMeta\<close>.\<close>

record List_go =
  gl_TypeMeta :: TypeMeta
  gl_ResourceVersion :: string
  gl_Continue :: string
  gl_Items :: "loc option"

datatype cell =
    Time_cell nat
  | String_map "(string \<times> string) list"
  | Owner_slice "OwnerReference list"
  | String_slice "string list"
  | Alloc_map allocations
  | Address_slice "IPAddressAllocation list"
  | Condition_slice "Condition list"
  | NodeSlice_slice "NodeSliceAllocation list"
  | IPPool_cell IPPool_go
  | IPPool_slice "IPPool_go list"
  | NodeSlicePool_cell NodeSlicePool_go
  | NodeSlicePool_slice "NodeSlicePool_go list"
  | Reservation_cell OverlappingRangeIPReservation_go
  | Reservation_slice "OverlappingRangeIPReservation_go list"
  | List_cell List_go
  | Address_cell IPAddressAllocation
  | Alloc_cell IPAllocation
  | NodeSlice_cell NodeSliceAllocation
  | IPPoolSpec_cell IPPoolSpec_go
  | IPPoolStatus_cell IPPoolStatus_go
  | NodeSlicePoolSpec_cell NodeSlicePoolSpec
  | NodeSlicePoolStatus_cell NodeSlicePoolStatus_go
  | ReservationSpec_cell OverlappingRangeIPReservationSpec
  | ReservationStatus_cell OverlappingRangeIPReservationStatus_go

text \<open>Addresses from \<open>h_next\<close> on are free.\<close>

record heap =
  h_mem :: "loc \<Rightarrow> cell option"
  h_next :: loc

section \<open>Copies\<close>

text \<open>
  \<^verbatim>\<open>*out = make(...)\<close> or \<^verbatim>\<open>new(...)\<close>, then the content is copied with \<open>copy\<close>; a nil reference stays nil.
  \<open>box\<close> is the kind of the cell.
\<close>

definition copy_ref ::
  "('a \<Rightarrow> cell) \<Rightarrow> (cell \<Rightarrow> 'a option) \<Rightarrow> ('a \<Rightarrow> heap \<Rightarrow> 'a \<times> heap) \<Rightarrow> loc option \<Rightarrow> heap \<Rightarrow> loc option \<times> heap" where
  "copy_ref box unbox copy r h = (case r of
     None \<Rightarrow> (None, h)
   | Some l \<Rightarrow> (case Option.bind (h_mem h l) unbox of
       None \<Rightarrow> (None, h)
     | Some x \<Rightarrow>
         let l' = h_next h;
             (y, h) = copy x (h\<lparr>h_next := Suc l'\<rparr>)
         in (Some l', h\<lparr>h_mem := (h_mem h)(l' \<mapsto> box y)\<rparr>)))"

text \<open>\<^verbatim>\<open>for key, val := range *in { (*out)[key] = val }\<close>\<close>

fun copy_entries :: "('k \<times> 'v) list \<Rightarrow> ('k \<times> 'v) list \<Rightarrow> ('k \<times> 'v) list" where
  "copy_entries [] out = out"
| "copy_entries ((key, val) # m) out = copy_entries m (map_put key val out)"

definition copy_map :: "('k \<times> 'v) list \<Rightarrow> heap \<Rightarrow> ('k \<times> 'v) list \<times> heap" where
  "copy_map m h = (copy_entries m [], h)"

text \<open>\<^verbatim>\<open>for i := range *in { (*in)[i].DeepCopyInto(&(*out)[i]) }\<close>\<close>

fun copy_items :: "('a \<Rightarrow> heap \<Rightarrow> 'a \<times> heap) \<Rightarrow> 'a list \<Rightarrow> heap \<Rightarrow> 'a list \<times> heap" where
  "copy_items copy [] h = ([], h)"
| "copy_items copy (x # xs) h =
     (let (y, h) = copy x h; (ys, h) = copy_items copy xs h in (y # ys, h))"

text \<open>\<^verbatim>\<open>*out = *in\<close>, for structs without references, and \<^verbatim>\<open>copy(*out, *in)\<close> for slices of such structs.\<close>

definition plain_copy :: "'a \<Rightarrow> heap \<Rightarrow> 'a \<times> heap" where
  "plain_copy x h = (x, h)"

fun un_Time :: "cell \<Rightarrow> nat option" where "un_Time (Time_cell x) = Some x" | "un_Time _ = None"
fun un_Strings :: "cell \<Rightarrow> (string \<times> string) list option" where "un_Strings (String_map x) = Some x" | "un_Strings _ = None"
fun un_Owners :: "cell \<Rightarrow> OwnerReference list option" where "un_Owners (Owner_slice x) = Some x" | "un_Owners _ = None"
fun un_Names :: "cell \<Rightarrow> string list option" where "un_Names (String_slice x) = Some x" | "un_Names _ = None"
fun un_Allocs :: "cell \<Rightarrow> allocations option" where "un_Allocs (Alloc_map x) = Some x" | "un_Allocs _ = None"
fun un_Addresses :: "cell \<Rightarrow> IPAddressAllocation list option" where "un_Addresses (Address_slice x) = Some x" | "un_Addresses _ = None"
fun un_Conditions :: "cell \<Rightarrow> Condition list option" where "un_Conditions (Condition_slice x) = Some x" | "un_Conditions _ = None"
fun un_Slices :: "cell \<Rightarrow> NodeSliceAllocation list option" where "un_Slices (NodeSlice_slice x) = Some x" | "un_Slices _ = None"
fun un_IPPool :: "cell \<Rightarrow> IPPool_go option" where "un_IPPool (IPPool_cell x) = Some x" | "un_IPPool _ = None"
fun un_IPPools :: "cell \<Rightarrow> IPPool_go list option" where "un_IPPools (IPPool_slice x) = Some x" | "un_IPPools _ = None"
fun un_NodeSlicePool :: "cell \<Rightarrow> NodeSlicePool_go option" where "un_NodeSlicePool (NodeSlicePool_cell x) = Some x" | "un_NodeSlicePool _ = None"
fun un_NodeSlicePools :: "cell \<Rightarrow> NodeSlicePool_go list option" where "un_NodeSlicePools (NodeSlicePool_slice x) = Some x" | "un_NodeSlicePools _ = None"
fun un_Reservation :: "cell \<Rightarrow> OverlappingRangeIPReservation_go option" where "un_Reservation (Reservation_cell x) = Some x" | "un_Reservation _ = None"
fun un_Reservations :: "cell \<Rightarrow> OverlappingRangeIPReservation_go list option" where "un_Reservations (Reservation_slice x) = Some x" | "un_Reservations _ = None"
fun un_List :: "cell \<Rightarrow> List_go option" where "un_List (List_cell x) = Some x" | "un_List _ = None"
fun un_Address :: "cell \<Rightarrow> IPAddressAllocation option" where "un_Address (Address_cell x) = Some x" | "un_Address _ = None"
fun un_Alloc :: "cell \<Rightarrow> IPAllocation option" where "un_Alloc (Alloc_cell x) = Some x" | "un_Alloc _ = None"
fun un_NodeSlice :: "cell \<Rightarrow> NodeSliceAllocation option" where "un_NodeSlice (NodeSlice_cell x) = Some x" | "un_NodeSlice _ = None"
fun un_IPPoolSpec :: "cell \<Rightarrow> IPPoolSpec_go option" where "un_IPPoolSpec (IPPoolSpec_cell x) = Some x" | "un_IPPoolSpec _ = None"
fun un_IPPoolStatus :: "cell \<Rightarrow> IPPoolStatus_go option" where "un_IPPoolStatus (IPPoolStatus_cell x) = Some x" | "un_IPPoolStatus _ = None"
fun un_NodeSlicePoolSpec :: "cell \<Rightarrow> NodeSlicePoolSpec option" where "un_NodeSlicePoolSpec (NodeSlicePoolSpec_cell x) = Some x" | "un_NodeSlicePoolSpec _ = None"
fun un_NodeSlicePoolStatus :: "cell \<Rightarrow> NodeSlicePoolStatus_go option" where "un_NodeSlicePoolStatus (NodeSlicePoolStatus_cell x) = Some x" | "un_NodeSlicePoolStatus _ = None"
fun un_ReservationSpec :: "cell \<Rightarrow> OverlappingRangeIPReservationSpec option" where "un_ReservationSpec (ReservationSpec_cell x) = Some x" | "un_ReservationSpec _ = None"
fun un_ReservationStatus :: "cell \<Rightarrow> OverlappingRangeIPReservationStatus_go option" where "un_ReservationStatus (ReservationStatus_cell x) = Some x" | "un_ReservationStatus _ = None"

subsection \<open>Objects\<close>

text \<open>The structs without references.\<close>

definition IPAddressAllocation_DeepCopyInto :: "IPAddressAllocation \<Rightarrow> heap \<Rightarrow> IPAddressAllocation \<times> heap" where
  "IPAddressAllocation_DeepCopyInto = plain_copy"

definition IPAllocation_DeepCopyInto :: "IPAllocation \<Rightarrow> heap \<Rightarrow> IPAllocation \<times> heap" where
  "IPAllocation_DeepCopyInto = plain_copy"

definition NodeSliceAllocation_DeepCopyInto :: "NodeSliceAllocation \<Rightarrow> heap \<Rightarrow> NodeSliceAllocation \<times> heap" where
  "NodeSliceAllocation_DeepCopyInto = plain_copy"

definition NodeSlicePoolSpec_DeepCopyInto :: "NodeSlicePoolSpec \<Rightarrow> heap \<Rightarrow> NodeSlicePoolSpec \<times> heap" where
  "NodeSlicePoolSpec_DeepCopyInto = plain_copy"

definition OverlappingRangeIPReservationSpec_DeepCopyInto :: "OverlappingRangeIPReservationSpec \<Rightarrow> heap \<Rightarrow> OverlappingRangeIPReservationSpec \<times> heap" where
  "OverlappingRangeIPReservationSpec_DeepCopyInto = plain_copy"

text \<open>
  \<^verbatim>\<open>ObjectMeta\<close> with the fields that the program reads or writes, as in \<^verbatim>\<open>Types\<close>: the copies of labels, creation time,
  grace period and managed fields are of the same form and left out.
\<close>

definition ObjectMeta_DeepCopyInto :: "ObjectMeta_go \<Rightarrow> heap \<Rightarrow> ObjectMeta_go \<times> heap" where
  "ObjectMeta_DeepCopyInto x h =
     (let (t, h) = copy_ref Time_cell un_Time plain_copy (gm_DeletionTimestamp x) h;
          (a, h) = copy_ref String_map un_Strings copy_map (gm_Annotations x) h;
          (o', h) = copy_ref Owner_slice un_Owners (copy_items plain_copy) (gm_OwnerReferences x) h;
          (f, h) = copy_ref String_slice un_Names plain_copy (gm_Finalizers x) h
      in (x\<lparr>gm_DeletionTimestamp := t, gm_Annotations := a, gm_OwnerReferences := o', gm_Finalizers := f\<rparr>, h))"

definition copy_conditions :: "loc option \<Rightarrow> heap \<Rightarrow> loc option \<times> heap" where
  "copy_conditions = copy_ref Condition_slice un_Conditions (copy_items plain_copy)"

definition IPPoolSpec_DeepCopyInto :: "IPPoolSpec_go \<Rightarrow> heap \<Rightarrow> IPPoolSpec_go \<times> heap" where
  "IPPoolSpec_DeepCopyInto x h =
     (let (a, h) = copy_ref Alloc_map un_Allocs copy_map (gs_Allocations x) h
      in (x\<lparr>gs_Allocations := a\<rparr>, h))"

definition IPPoolStatus_DeepCopyInto :: "IPPoolStatus_go \<Rightarrow> heap \<Rightarrow> IPPoolStatus_go \<times> heap" where
  "IPPoolStatus_DeepCopyInto x h =
     (let (a, h) = copy_ref Address_slice un_Addresses plain_copy (gt_AllocatedIPs x) h;
          (c, h) = copy_conditions (gt_Conditions x) h
      in (x\<lparr>gt_AllocatedIPs := a, gt_Conditions := c\<rparr>, h))"

definition IPPool_DeepCopyInto :: "IPPool_go \<Rightarrow> heap \<Rightarrow> IPPool_go \<times> heap" where
  "IPPool_DeepCopyInto x h =
     (let (m, h) = ObjectMeta_DeepCopyInto (gp_ObjectMeta x) h;
          (s, h) = IPPoolSpec_DeepCopyInto (gp_Spec x) h;
          (t, h) = IPPoolStatus_DeepCopyInto (gp_Status x) h
      in (x\<lparr>gp_ObjectMeta := m, gp_Spec := s, gp_Status := t\<rparr>, h))"

definition IPPool_DeepCopy :: "loc option \<Rightarrow> heap \<Rightarrow> loc option \<times> heap" where
  "IPPool_DeepCopy = copy_ref IPPool_cell un_IPPool IPPool_DeepCopyInto"

definition IPPoolList_DeepCopyInto :: "List_go \<Rightarrow> heap \<Rightarrow> List_go \<times> heap" where
  "IPPoolList_DeepCopyInto x h =
     (let (i, h) = copy_ref IPPool_slice un_IPPools (copy_items IPPool_DeepCopyInto) (gl_Items x) h
      in (x\<lparr>gl_Items := i\<rparr>, h))"

definition IPPoolList_DeepCopy :: "loc option \<Rightarrow> heap \<Rightarrow> loc option \<times> heap" where
  "IPPoolList_DeepCopy = copy_ref List_cell un_List IPPoolList_DeepCopyInto"

definition NodeSlicePoolStatus_DeepCopyInto :: "NodeSlicePoolStatus_go \<Rightarrow> heap \<Rightarrow> NodeSlicePoolStatus_go \<times> heap" where
  "NodeSlicePoolStatus_DeepCopyInto x h =
     (let (a, h) = copy_ref NodeSlice_slice un_Slices plain_copy (gn_Allocations x) h;
          (c, h) = copy_conditions (gn_Conditions x) h
      in (x\<lparr>gn_Allocations := a, gn_Conditions := c\<rparr>, h))"

definition NodeSlicePool_DeepCopyInto :: "NodeSlicePool_go \<Rightarrow> heap \<Rightarrow> NodeSlicePool_go \<times> heap" where
  "NodeSlicePool_DeepCopyInto x h =
     (let (m, h) = ObjectMeta_DeepCopyInto (gq_ObjectMeta x) h;
          (s, h) = NodeSlicePoolSpec_DeepCopyInto (gq_Spec x) h;
          (t, h) = NodeSlicePoolStatus_DeepCopyInto (gq_Status x) h
      in (x\<lparr>gq_ObjectMeta := m, gq_Spec := s, gq_Status := t\<rparr>, h))"

definition NodeSlicePool_DeepCopy :: "loc option \<Rightarrow> heap \<Rightarrow> loc option \<times> heap" where
  "NodeSlicePool_DeepCopy = copy_ref NodeSlicePool_cell un_NodeSlicePool NodeSlicePool_DeepCopyInto"

definition NodeSlicePoolList_DeepCopyInto :: "List_go \<Rightarrow> heap \<Rightarrow> List_go \<times> heap" where
  "NodeSlicePoolList_DeepCopyInto x h =
     (let (i, h) = copy_ref NodeSlicePool_slice un_NodeSlicePools (copy_items NodeSlicePool_DeepCopyInto) (gl_Items x) h
      in (x\<lparr>gl_Items := i\<rparr>, h))"

definition NodeSlicePoolList_DeepCopy :: "loc option \<Rightarrow> heap \<Rightarrow> loc option \<times> heap" where
  "NodeSlicePoolList_DeepCopy = copy_ref List_cell un_List NodeSlicePoolList_DeepCopyInto"

definition OverlappingRangeIPReservationStatus_DeepCopyInto ::
  "OverlappingRangeIPReservationStatus_go \<Rightarrow> heap \<Rightarrow> OverlappingRangeIPReservationStatus_go \<times> heap" where
  "OverlappingRangeIPReservationStatus_DeepCopyInto x h =
     (let (c, h) = copy_conditions (go_Conditions x) h
      in (x\<lparr>go_Conditions := c\<rparr>, h))"

definition OverlappingRangeIPReservation_DeepCopyInto ::
  "OverlappingRangeIPReservation_go \<Rightarrow> heap \<Rightarrow> OverlappingRangeIPReservation_go \<times> heap" where
  "OverlappingRangeIPReservation_DeepCopyInto x h =
     (let (m, h) = ObjectMeta_DeepCopyInto (gv_ObjectMeta x) h;
          (s, h) = OverlappingRangeIPReservationSpec_DeepCopyInto (gv_Spec x) h;
          (t, h) = OverlappingRangeIPReservationStatus_DeepCopyInto (gv_Status x) h
      in (x\<lparr>gv_ObjectMeta := m, gv_Spec := s, gv_Status := t\<rparr>, h))"

definition OverlappingRangeIPReservation_DeepCopy :: "loc option \<Rightarrow> heap \<Rightarrow> loc option \<times> heap" where
  "OverlappingRangeIPReservation_DeepCopy = copy_ref Reservation_cell un_Reservation OverlappingRangeIPReservation_DeepCopyInto"

definition OverlappingRangeIPReservationList_DeepCopyInto :: "List_go \<Rightarrow> heap \<Rightarrow> List_go \<times> heap" where
  "OverlappingRangeIPReservationList_DeepCopyInto x h =
     (let (i, h) = copy_ref Reservation_slice un_Reservations (copy_items OverlappingRangeIPReservation_DeepCopyInto) (gl_Items x) h
      in (x\<lparr>gl_Items := i\<rparr>, h))"

definition OverlappingRangeIPReservationList_DeepCopy :: "loc option \<Rightarrow> heap \<Rightarrow> loc option \<times> heap" where
  "OverlappingRangeIPReservationList_DeepCopy = copy_ref List_cell un_List OverlappingRangeIPReservationList_DeepCopyInto"

text \<open>\<^verbatim>\<open>DeepCopy\<close> of the parts of objects: a nil pointer stays nil, otherwise \<^verbatim>\<open>new\<close> and \<^verbatim>\<open>DeepCopyInto\<close>.\<close>

definition IPAddressAllocation_DeepCopy :: "loc option \<Rightarrow> heap \<Rightarrow> loc option \<times> heap" where
  "IPAddressAllocation_DeepCopy = copy_ref Address_cell un_Address IPAddressAllocation_DeepCopyInto"

definition IPAllocation_DeepCopy :: "loc option \<Rightarrow> heap \<Rightarrow> loc option \<times> heap" where
  "IPAllocation_DeepCopy = copy_ref Alloc_cell un_Alloc IPAllocation_DeepCopyInto"

definition NodeSliceAllocation_DeepCopy :: "loc option \<Rightarrow> heap \<Rightarrow> loc option \<times> heap" where
  "NodeSliceAllocation_DeepCopy = copy_ref NodeSlice_cell un_NodeSlice NodeSliceAllocation_DeepCopyInto"

definition IPPoolSpec_DeepCopy :: "loc option \<Rightarrow> heap \<Rightarrow> loc option \<times> heap" where
  "IPPoolSpec_DeepCopy = copy_ref IPPoolSpec_cell un_IPPoolSpec IPPoolSpec_DeepCopyInto"

definition IPPoolStatus_DeepCopy :: "loc option \<Rightarrow> heap \<Rightarrow> loc option \<times> heap" where
  "IPPoolStatus_DeepCopy = copy_ref IPPoolStatus_cell un_IPPoolStatus IPPoolStatus_DeepCopyInto"

definition NodeSlicePoolSpec_DeepCopy :: "loc option \<Rightarrow> heap \<Rightarrow> loc option \<times> heap" where
  "NodeSlicePoolSpec_DeepCopy = copy_ref NodeSlicePoolSpec_cell un_NodeSlicePoolSpec NodeSlicePoolSpec_DeepCopyInto"

definition NodeSlicePoolStatus_DeepCopy :: "loc option \<Rightarrow> heap \<Rightarrow> loc option \<times> heap" where
  "NodeSlicePoolStatus_DeepCopy = copy_ref NodeSlicePoolStatus_cell un_NodeSlicePoolStatus NodeSlicePoolStatus_DeepCopyInto"

definition OverlappingRangeIPReservationSpec_DeepCopy :: "loc option \<Rightarrow> heap \<Rightarrow> loc option \<times> heap" where
  "OverlappingRangeIPReservationSpec_DeepCopy = copy_ref ReservationSpec_cell un_ReservationSpec OverlappingRangeIPReservationSpec_DeepCopyInto"

definition OverlappingRangeIPReservationStatus_DeepCopy :: "loc option \<Rightarrow> heap \<Rightarrow> loc option \<times> heap" where
  "OverlappingRangeIPReservationStatus_DeepCopy = copy_ref ReservationStatus_cell un_ReservationStatus OverlappingRangeIPReservationStatus_DeepCopyInto"

text \<open>
  \<^verbatim>\<open>runtime.Object\<close>: a nil pointer becomes the nil interface, not an interface that holds a nil pointer.
\<close>

datatype Object = IPPool_object loc | NodeSlicePool_object loc | Reservation_object loc
  | IPPoolList_object loc | NodeSlicePoolList_object loc | ReservationList_object loc

definition to_Object :: "(loc \<Rightarrow> Object) \<Rightarrow> loc option \<times> heap \<Rightarrow> Object option \<times> heap" where
  "to_Object obj ch = (case ch of (Some c, h) \<Rightarrow> (Some (obj c), h) | (None, h) \<Rightarrow> (None, h))"

definition IPPool_DeepCopyObject :: "loc option \<Rightarrow> heap \<Rightarrow> Object option \<times> heap" where
  "IPPool_DeepCopyObject r h = to_Object IPPool_object (IPPool_DeepCopy r h)"

definition NodeSlicePool_DeepCopyObject :: "loc option \<Rightarrow> heap \<Rightarrow> Object option \<times> heap" where
  "NodeSlicePool_DeepCopyObject r h = to_Object NodeSlicePool_object (NodeSlicePool_DeepCopy r h)"

definition OverlappingRangeIPReservation_DeepCopyObject :: "loc option \<Rightarrow> heap \<Rightarrow> Object option \<times> heap" where
  "OverlappingRangeIPReservation_DeepCopyObject r h = to_Object Reservation_object (OverlappingRangeIPReservation_DeepCopy r h)"

definition IPPoolList_DeepCopyObject :: "loc option \<Rightarrow> heap \<Rightarrow> Object option \<times> heap" where
  "IPPoolList_DeepCopyObject r h = to_Object IPPoolList_object (IPPoolList_DeepCopy r h)"

definition NodeSlicePoolList_DeepCopyObject :: "loc option \<Rightarrow> heap \<Rightarrow> Object option \<times> heap" where
  "NodeSlicePoolList_DeepCopyObject r h = to_Object NodeSlicePoolList_object (NodeSlicePoolList_DeepCopy r h)"

definition OverlappingRangeIPReservationList_DeepCopyObject :: "loc option \<Rightarrow> heap \<Rightarrow> Object option \<times> heap" where
  "OverlappingRangeIPReservationList_DeepCopyObject r h = to_Object ReservationList_object (OverlappingRangeIPReservationList_DeepCopy r h)"

section \<open>The contract of a deep copy\<close>

definition wf_heap :: "heap \<Rightarrow> bool" where
  "wf_heap h \<longleftrightarrow> (\<forall>l\<ge>h_next h. h_mem h l = None)"

definition same_on :: "loc set \<Rightarrow> heap \<Rightarrow> heap \<Rightarrow> bool" where
  "same_on L h h' \<longleftrightarrow> (\<forall>l\<in>L. h_mem h' l = h_mem h l)"

text \<open>Everything allocated before is as it was.\<close>

definition grows :: "heap \<Rightarrow> heap \<Rightarrow> bool" where
  "grows h h' \<longleftrightarrow> wf_heap h' \<and> h_next h \<le> h_next h' \<and> same_on {..<h_next h} h h'"

lemma same_on_trans: "same_on L h h1 \<Longrightarrow> same_on L h1 h2 \<Longrightarrow> same_on L h h2"
  by (simp add: same_on_def)

lemma same_on_subset: "same_on L h h' \<Longrightarrow> K \<subseteq> L \<Longrightarrow> same_on K h h'"
  by (auto simp: same_on_def)

lemma grows_refl: "wf_heap h \<Longrightarrow> grows h h"
  by (simp add: grows_def same_on_def)

lemma grows_trans: "grows h h1 \<Longrightarrow> grows h1 h2 \<Longrightarrow> grows h h2"
  by (auto simp: grows_def same_on_def)

text \<open>A reference: it points to a cell of the right kind with good content; what it means; its cells.\<close>

definition ref_ok :: "(cell \<Rightarrow> 'a option) \<Rightarrow> (heap \<Rightarrow> 'a \<Rightarrow> bool) \<Rightarrow> heap \<Rightarrow> loc option \<Rightarrow> bool" where
  "ref_ok unbox ok h r \<longleftrightarrow> (case r of None \<Rightarrow> True
   | Some l \<Rightarrow> l < h_next h \<and> (case Option.bind (h_mem h l) unbox of None \<Rightarrow> False | Some x \<Rightarrow> ok h x))"

definition ref_val :: "(cell \<Rightarrow> 'a option) \<Rightarrow> (heap \<Rightarrow> 'a \<Rightarrow> 'v) \<Rightarrow> heap \<Rightarrow> loc option \<Rightarrow> 'v option" where
  "ref_val unbox val h r = (case r of None \<Rightarrow> None | Some l \<Rightarrow> map_option (val h) (Option.bind (h_mem h l) unbox))"

definition ref_foot :: "(cell \<Rightarrow> 'a option) \<Rightarrow> (heap \<Rightarrow> 'a \<Rightarrow> loc set) \<Rightarrow> heap \<Rightarrow> loc option \<Rightarrow> loc set" where
  "ref_foot unbox foot h r = (case r of None \<Rightarrow> {}
   | Some l \<Rightarrow> insert l (case Option.bind (h_mem h l) unbox of None \<Rightarrow> {} | Some x \<Rightarrow> foot h x))"

lemmas ref_defs = ref_ok_def ref_val_def ref_foot_def

text \<open>
  \<open>foot\<close> are the cells an object is made of, \<open>val\<close> is what it means, \<open>ok\<close> says that its references point
  to cells of the right kind. A copy is made of new cells only and means the same; and what an object
  means depends on its own cells only.
\<close>

locale deep_copy =
  fixes copy :: "'a \<Rightarrow> heap \<Rightarrow> 'a \<times> heap" and ok :: "heap \<Rightarrow> 'a \<Rightarrow> bool" and val :: "heap \<Rightarrow> 'a \<Rightarrow> 'v" and foot :: "heap \<Rightarrow> 'a \<Rightarrow> loc set"
  assumes copies: "wf_heap h \<Longrightarrow> ok h x \<Longrightarrow> copy x h = (y, h') \<Longrightarrow>
      grows h h' \<and> ok h' y \<and> val h' y = val h x \<and> foot h' y \<subseteq> {h_next h..<h_next h'}"
    and frame: "same_on (foot h x) h h' \<Longrightarrow> h_next h \<le> h_next h' \<Longrightarrow> ok h x \<Longrightarrow> ok h' x \<and> val h' x = val h x \<and> foot h' x = foot h x"
    and allocated: "ok h x \<Longrightarrow> foot h x \<subseteq> {..<h_next h}"
begin

lemma kept:
  assumes "grows h h'" "ok h x"
  shows "ok h' x" "val h' x = val h x" "foot h' x = foot h x"
proof -
  have "same_on (foot h x) h h'" using assms(1) allocated [OF assms(2)] by (auto simp: grows_def intro: same_on_subset)
  moreover have "h_next h \<le> h_next h'" using assms(1) by (simp add: grows_def)
  ultimately show "ok h' x" "val h' x = val h x" "foot h' x = foot h x" using frame assms(2) by blast+
qed

text \<open>Whatever happens to the older cells later, the copy stays what the object was; and the other way round.\<close>

lemma copy_unaffected:
  assumes "wf_heap h" "ok h x" "copy x h = (y, h')" "same_on {h_next h..<h_next h'} h' h''" "h_next h' \<le> h_next h''"
  shows "val h'' y = val h x"
  using copies [OF assms(1-3)] frame [of h' y h''] same_on_subset [OF assms(4)] assms(5) by metis

lemma original_unaffected:
  assumes "wf_heap h" "ok h x" "copy x h = (y, h')" "same_on {..<h_next h} h' h''" "h_next h' \<le> h_next h''"
  shows "val h'' x = val h x"
proof -
  have g: "grows h h'" using copies [OF assms(1-3)] by blast
  have "same_on {..<h_next h} h h''" using g assms(4) by (auto simp: grows_def intro: same_on_trans)
  then have "same_on (foot h x) h h''" using allocated [OF assms(2)] by (rule same_on_subset)
  then show ?thesis using frame [OF _ _ assms(2)] g assms(5) by (auto simp: grows_def)
qed

lemma items_copies:
  assumes "wf_heap h" "\<forall>x\<in>set xs. ok h x" "copy_items copy xs h = (ys, h')"
  shows "grows h h' \<and> (\<forall>y\<in>set ys. ok h' y) \<and> map (val h') ys = map (val h) xs \<and> (\<Union>y\<in>set ys. foot h' y) \<subseteq> {h_next h..<h_next h'}"
  using assms
proof (induction xs arbitrary: h ys)
  case Nil
  then show ?case by (simp add: grows_refl)
next
  case (Cons x xs)
  obtain y h1 where c: "copy x h = (y, h1)" by fastforce
  obtain zs where z: "copy_items copy xs h1 = (zs, h')" "ys = y # zs" using Cons.prems(3) c by (auto split: prod.splits)
  have y: "grows h h1" "ok h1 y" "val h1 y = val h x" "foot h1 y \<subseteq> {h_next h..<h_next h1}"
    using copies [OF Cons.prems(1) _ c] Cons.prems(2) by auto
  have "\<forall>x\<in>set xs. ok h1 x \<and> val h1 x = val h x" using kept [OF y(1)] Cons.prems(2) by simp
  moreover have "wf_heap h1" using y(1) by (simp add: grows_def)
  ultimately have ih: "grows h1 h'" "\<forall>y\<in>set zs. ok h' y" "map (val h') zs = map (val h) xs" "(\<Union>y\<in>set zs. foot h' y) \<subseteq> {h_next h1..<h_next h'}"
    using Cons.IH [of h1 zs] z(1) by auto
  have "h_next h \<le> h_next h1" "h_next h1 \<le> h_next h'" using y(1) ih(1) by (auto simp: grows_def)
  then have "foot h1 y \<subseteq> {h_next h..<h_next h'}" "(\<Union>y\<in>set zs. foot h' y) \<subseteq> {h_next h..<h_next h'}"
    using y(4) ih(4) by (meson atLeastLessThan_subset_iff dual_order.refl subset_trans ivl_subset)+
  then show ?case using grows_trans [OF y(1) ih(1)] kept [OF ih(1) y(2)] y(3) ih(2,3) by (simp add: z(2))
qed

text \<open>A slice of copied objects.\<close>

lemma items: "deep_copy (copy_items copy) (\<lambda>h xs. \<forall>x\<in>set xs. ok h x) (\<lambda>h. map (val h)) (\<lambda>h xs. \<Union>x\<in>set xs. foot h x)"
proof
  fix h h' and xs :: "'a list" assume a: "same_on (\<Union>x\<in>set xs. foot h x) h h'" "h_next h \<le> h_next h'" "\<forall>x\<in>set xs. ok h x"
  have "ok h' x \<and> val h' x = val h x \<and> foot h' x = foot h x" if x: "x \<in> set xs" for x
    by (rule frame [OF same_on_subset [OF a(1)] a(2)]) (use x a(3) in auto)
  then show "(\<forall>x\<in>set xs. ok h' x) \<and> map (val h') xs = map (val h) xs \<and> (\<Union>x\<in>set xs. foot h' x) = (\<Union>x\<in>set xs. foot h x)" by simp
qed (use items_copies allocated in blast)+

text \<open>A reference to a cell with a copied object.\<close>

lemma cell:
  fixes box :: "'a \<Rightarrow> cell" and unbox :: "cell \<Rightarrow> 'a option"
  assumes unbox: "\<And>x. unbox (box x) = Some x"
  shows "deep_copy (copy_ref box unbox copy) (ref_ok unbox ok) (ref_val unbox val) (ref_foot unbox foot)"
proof
  fix h h' r r' assume wf: "wf_heap h" and ok: "ref_ok unbox ok h r" and c: "copy_ref box unbox copy r h = (r', h')"
  show "grows h h' \<and> ref_ok unbox ok h' r' \<and> ref_val unbox val h' r' = ref_val unbox val h r \<and> ref_foot unbox foot h' r' \<subseteq> {h_next h..<h_next h'}"
  proof (cases r)
    case None
    then show ?thesis using c wf by (simp add: copy_ref_def grows_refl ref_defs)
  next
    case (Some l)
    obtain x where x: "l < h_next h" "Option.bind (h_mem h l) unbox = Some x" "ok h x" using ok Some by (auto simp: ref_ok_def split: option.splits)
    let ?l = "h_next h" and ?h = "h\<lparr>h_next := Suc (h_next h)\<rparr>"
    obtain y h1 where y: "copy x ?h = (y, h1)" by fastforce
    have h': "r' = Some ?l" "h' = h1\<lparr>h_mem := (h_mem h1)(?l \<mapsto> box y)\<rparr>" using c Some x(2) y by (auto simp: copy_ref_def Let_def)
    have s: "same_on (foot h x) h ?h" "h_next h \<le> h_next ?h" by (simp_all add: same_on_def)
    have ok': "ok ?h x" "val ?h x = val h x" "wf_heap ?h" using frame [OF s x(3)] wf by (auto simp: wf_heap_def)
    have g: "grows ?h h1" "ok h1 y" "val h1 y = val h x" "foot h1 y \<subseteq> {Suc ?l..<h_next h1}" using copies [OF ok'(3,1) y] ok'(2) by auto
    have n: "Suc ?l \<le> h_next h1" using g(1) by (simp add: grows_def)
    have "same_on (foot h1 y) h1 h'" using g(4) by (auto simp: h'(2) same_on_def)
    from frame [OF this _ g(2)] have f: "ok h' y" "val h' y = val h x" "foot h' y = foot h1 y" using g(3) by (simp_all add: h'(2))
    have b: "Option.bind (h_mem h' ?l) unbox = Some y" "h_next h' = h_next h1" by (simp_all add: h'(2) unbox)
    have "grows h h'" using g(1) n by (auto simp: grows_def wf_heap_def same_on_def h'(2))
    then show ?thesis using f g(4) n b x(2) by (auto simp: Some h'(1) ref_defs)
  qed
next
  fix h h' r assume s: "same_on (ref_foot unbox foot h r) h h'" and n: "h_next h \<le> h_next h'" and ok: "ref_ok unbox ok h r"
  show "ref_ok unbox ok h' r \<and> ref_val unbox val h' r = ref_val unbox val h r \<and> ref_foot unbox foot h' r = ref_foot unbox foot h r"
  proof (cases r)
    case (Some l)
    obtain x where x: "l < h_next h" "Option.bind (h_mem h l) unbox = Some x" "ok h x" using ok Some by (auto simp: ref_ok_def split: option.splits)
    have l: "h_mem h' l = h_mem h l" "same_on (foot h x) h h'" using s x(2) by (auto simp: Some same_on_def ref_foot_def)
    show ?thesis using frame [OF l(2) n x(3)] x l(1) n by (simp add: Some ref_defs)
  qed (simp add: ref_defs)
next
  fix h r assume "ref_ok unbox ok h r"
  then show "ref_foot unbox foot h r \<subseteq> {..<h_next h}"
    using allocated by (auto simp: ref_ok_def ref_foot_def split: option.splits)
qed

text \<open>A struct with this part, and others that are copied as they are.\<close>

lemma part:
  assumes "\<And>x h. copy' x h = (case copy (get x) h of (b, h) \<Rightarrow> (set' x b, h))" "\<And>x b. get (set' x b) = b" "\<And>x b v. g (set' x b) v = g x v"
    and "\<And>h x. ok' h x = ok h (get x)" "\<And>h x. val' h x = g x (val h (get x))" "\<And>h x. foot' h x = foot h (get x)"
  shows "deep_copy copy' ok' val' foot'"
proof
  fix h h' x y assume a: "wf_heap h" "ok' h x" "copy' x h = (y, h')"
  obtain b where b: "copy (get x) h = (b, h')" "y = set' x b" using a(3) assms(1) by (auto split: prod.splits)
  show "grows h h' \<and> ok' h' y \<and> val' h' y = val' h x \<and> foot' h' y \<subseteq> {h_next h..<h_next h'}"
    using copies [OF a(1) _ b(1)] a(2) by (simp add: b(2) assms(2-6))
next
  fix h h' x assume "same_on (foot' h x) h h'" "h_next h \<le> h_next h'" "ok' h x"
  then show "ok' h' x \<and> val' h' x = val' h x \<and> foot' h' x = foot' h x" using frame [of h "get x" h'] by (simp add: assms(4-6))
qed (simp add: assms(4,6) allocated)

end

lemma plain: "deep_copy plain_copy (\<lambda>_ _. True) (\<lambda>_ x. x) (\<lambda>_ _. {})"
  by unfold_locales (auto simp: plain_copy_def grows_refl)

lemma copy_entries_distinct: "distinct (map fst (out @ m)) \<Longrightarrow> copy_entries m out = out @ m"
  by (induction m arbitrary: out) (auto simp: map_put_new image_iff)

lemma map_copied: "deep_copy copy_map (\<lambda>_ m. distinct (map fst m)) (\<lambda>_ m. m) (\<lambda>_ _. {})"
  by unfold_locales (auto simp: copy_map_def grows_refl copy_entries_distinct)

definition copy_both :: "('a \<Rightarrow> heap \<Rightarrow> 'a \<times> heap) \<Rightarrow> ('b \<Rightarrow> heap \<Rightarrow> 'b \<times> heap) \<Rightarrow> 'a \<times> 'b \<Rightarrow> heap \<Rightarrow> ('a \<times> 'b) \<times> heap" where
  "copy_both c d x h = (let (a, h) = c (fst x) h; (b, h) = d (snd x) h in ((a, b), h))"

lemma both:
  assumes "deep_copy c ok1 val1 foot1" "deep_copy d ok2 val2 foot2"
  shows "deep_copy (copy_both c d) (\<lambda>h x. ok1 h (fst x) \<and> ok2 h (snd x)) (\<lambda>h x. (val1 h (fst x), val2 h (snd x))) (\<lambda>h x. foot1 h (fst x) \<union> foot2 h (snd x))"
proof
  fix h h' x y assume a: "wf_heap h" "ok1 h (fst x) \<and> ok2 h (snd x)" "copy_both c d x h = (y, h')"
  obtain p h1 q where c: "c (fst x) h = (p, h1)" and d: "d (snd x) h1 = (q, h')" and y: "y = (p, q)"
    using a(3) by (auto simp: copy_both_def split: prod.splits)
  have p: "grows h h1" "ok1 h1 p" "val1 h1 p = val1 h (fst x)" "foot1 h1 p \<subseteq> {h_next h..<h_next h1}"
    using deep_copy.copies [OF assms(1) a(1) _ c] a(2) by blast+
  note x = deep_copy.kept [OF assms(2) p(1) conjunct2 [OF a(2)]]
  have w1: "wf_heap h1" using p(1) by (simp add: grows_def)
  have q: "grows h1 h'" "ok2 h' q" "val2 h' q = val2 h (snd x)" "foot2 h' q \<subseteq> {h_next h1..<h_next h'}"
    using deep_copy.copies [OF assms(2) w1 x(1) d] x(2) by simp_all
  note k = deep_copy.kept [OF assms(1) q(1) p(2)]
  have "h_next h \<le> h_next h1" "h_next h1 \<le> h_next h'" using p(1) q(1) by (auto simp: grows_def)
  then have "foot1 h' p \<union> foot2 h' q \<subseteq> {h_next h..<h_next h'}" using p(4) q(4) k(3) by fastforce
  then show "grows h h' \<and> (ok1 h' (fst y) \<and> ok2 h' (snd y)) \<and> (val1 h' (fst y), val2 h' (snd y)) = (val1 h (fst x), val2 h (snd x))
      \<and> foot1 h' (fst y) \<union> foot2 h' (snd y) \<subseteq> {h_next h..<h_next h'}"
    using grows_trans [OF p(1) q(1)] k(1,2) p(3) q(2,3) by (simp add: y)
next
  fix h h' x assume a: "same_on (foot1 h (fst x) \<union> foot2 h (snd x)) h h'" "h_next h \<le> h_next h'" "ok1 h (fst x) \<and> ok2 h (snd x)"
  then show "(ok1 h' (fst x) \<and> ok2 h' (snd x)) \<and> (val1 h' (fst x), val2 h' (snd x)) = (val1 h (fst x), val2 h (snd x))
      \<and> foot1 h' (fst x) \<union> foot2 h' (snd x) = foot1 h (fst x) \<union> foot2 h (snd x)"
    using deep_copy.frame [OF assms(1) same_on_subset [OF a(1)] a(2)] deep_copy.frame [OF assms(2) same_on_subset [OF a(1)] a(2)] by auto
next
  fix h x assume "ok1 h (fst x) \<and> ok2 h (snd x)"
  then show "foot1 h (fst x) \<union> foot2 h (snd x) \<subseteq> {..<h_next h}"
    using deep_copy.allocated [OF assms(1)] deep_copy.allocated [OF assms(2)] by blast
qed

section \<open>The generated copies\<close>

lemma plain_items: "deep_copy (copy_items plain_copy) (\<lambda>_ _. True) (\<lambda>_ x. x) (\<lambda>_ _. {})"
  using deep_copy.items [OF plain] by simp

abbreviation any :: "heap \<Rightarrow> 'a \<Rightarrow> bool" where "any \<equiv> \<lambda>_ _. True"
abbreviation itself :: "heap \<Rightarrow> 'a \<Rightarrow> 'a" where "itself \<equiv> \<lambda>_ x. x"
abbreviation no_cells :: "heap \<Rightarrow> 'a \<Rightarrow> loc set" where "no_cells \<equiv> \<lambda>_ _. {}"
abbreviation go_map :: "heap \<Rightarrow> ('k \<times> 'v) list \<Rightarrow> bool" where "go_map \<equiv> \<lambda>_ m. distinct (map fst m)"

text \<open>A nil slice or map has no elements.\<close>

definition or_nil :: "'a list option \<Rightarrow> 'a list" where
  "or_nil v = (case v of None \<Rightarrow> [] | Some xs \<Rightarrow> xs)"

lemmas leaf_refs =
  deep_copy.cell [OF plain, of un_Time Time_cell, OF un_Time.simps(1)]
  deep_copy.cell [OF map_copied, of un_Strings String_map, OF un_Strings.simps(1)]
  deep_copy.cell [OF plain_items, of un_Owners Owner_slice, OF un_Owners.simps(1)]
  deep_copy.cell [OF plain, of un_Names String_slice, OF un_Names.simps(1)]
  deep_copy.cell [OF map_copied, of un_Allocs Alloc_map, OF un_Allocs.simps(1)]
  deep_copy.cell [OF plain, of un_Addresses Address_slice, OF un_Addresses.simps(1)]
  deep_copy.cell [OF plain_items, of un_Conditions Condition_slice, OF un_Conditions.simps(1), folded copy_conditions_def]
  deep_copy.cell [OF plain, of un_Slices NodeSlice_slice, OF un_Slices.simps(1)]

definition meta_ok :: "heap \<Rightarrow> ObjectMeta_go \<Rightarrow> bool" where
  "meta_ok h x \<longleftrightarrow> ref_ok un_Time any h (gm_DeletionTimestamp x) \<and> ref_ok un_Strings go_map h (gm_Annotations x)
     \<and> ref_ok un_Owners any h (gm_OwnerReferences x) \<and> ref_ok un_Names any h (gm_Finalizers x)"

definition meta_val :: "heap \<Rightarrow> ObjectMeta_go \<Rightarrow> ObjectMeta" where
  "meta_val h x = \<lparr> om_Name = gm_Name x, om_Namespace = gm_Namespace x, om_UID = gm_UID x,
     om_ResourceVersion = gm_ResourceVersion x, om_Generation = gm_Generation x,
     om_Annotations = or_nil (ref_val un_Strings itself h (gm_Annotations x)),
     om_OwnerReferences = or_nil (ref_val un_Owners itself h (gm_OwnerReferences x)),
     om_Finalizers = or_nil (ref_val un_Names itself h (gm_Finalizers x)),
     om_DeletionTimestamp = ref_val un_Time itself h (gm_DeletionTimestamp x) \<rparr>"

definition meta_foot :: "heap \<Rightarrow> ObjectMeta_go \<Rightarrow> loc set" where
  "meta_foot h x = ref_foot un_Time no_cells h (gm_DeletionTimestamp x) \<union> (ref_foot un_Strings no_cells h (gm_Annotations x)
     \<union> (ref_foot un_Owners no_cells h (gm_OwnerReferences x) \<union> ref_foot un_Names no_cells h (gm_Finalizers x)))"

interpretation meta: deep_copy ObjectMeta_DeepCopyInto meta_ok meta_val meta_foot
  by (rule deep_copy.part [OF both [OF leaf_refs(1) both [OF leaf_refs(2) both [OF leaf_refs(3,4)]]],
        where get = "\<lambda>x. (gm_DeletionTimestamp x, gm_Annotations x, gm_OwnerReferences x, gm_Finalizers x)"
          and set' = "\<lambda>x (t, a, o', f). x\<lparr>gm_DeletionTimestamp := t, gm_Annotations := a, gm_OwnerReferences := o', gm_Finalizers := f\<rparr>"
          and g = "\<lambda>x (t, a, o', f). \<lparr> om_Name = gm_Name x, om_Namespace = gm_Namespace x, om_UID = gm_UID x,
            om_ResourceVersion = gm_ResourceVersion x, om_Generation = gm_Generation x, om_Annotations = or_nil a,
            om_OwnerReferences = or_nil o', om_Finalizers = or_nil f, om_DeletionTimestamp = t \<rparr>"])
    (auto simp: ObjectMeta_DeepCopyInto_def copy_both_def meta_ok_def meta_val_def meta_foot_def split: prod.splits)

definition spec_ok :: "heap \<Rightarrow> IPPoolSpec_go \<Rightarrow> bool" where
  "spec_ok h x = ref_ok un_Allocs go_map h (gs_Allocations x)"

definition spec_val :: "heap \<Rightarrow> IPPoolSpec_go \<Rightarrow> IPPoolSpec" where
  "spec_val h x = \<lparr> ps_Range = gs_Range x, ps_Allocations = or_nil (ref_val un_Allocs itself h (gs_Allocations x)), ps_EnableL3 = gs_EnableL3 x \<rparr>"

definition spec_foot :: "heap \<Rightarrow> IPPoolSpec_go \<Rightarrow> loc set" where
  "spec_foot h x = ref_foot un_Allocs no_cells h (gs_Allocations x)"

interpretation spec: deep_copy IPPoolSpec_DeepCopyInto spec_ok spec_val spec_foot
  by (rule deep_copy.part [OF leaf_refs(5), where get = gs_Allocations and set' = "\<lambda>x a. x\<lparr>gs_Allocations := a\<rparr>"
          and g = "\<lambda>x a. \<lparr> ps_Range = gs_Range x, ps_Allocations = or_nil a, ps_EnableL3 = gs_EnableL3 x \<rparr>"])
    (simp_all add: IPPoolSpec_DeepCopyInto_def spec_ok_def spec_val_def spec_foot_def)

definition status_ok :: "heap \<Rightarrow> IPPoolStatus_go \<Rightarrow> bool" where
  "status_ok h x \<longleftrightarrow> ref_ok un_Addresses any h (gt_AllocatedIPs x) \<and> ref_ok un_Conditions any h (gt_Conditions x)"

definition ip_status_of :: "IPPoolStatus_go \<Rightarrow> IPAddressAllocation list option \<times> Condition list option \<Rightarrow> IPPoolStatus" where
  "ip_status_of x v = \<lparr> pt_FirstIP = gt_FirstIP x, pt_LastIP = gt_LastIP x, pt_TotalIPs = gt_TotalIPs x, pt_UsedIPs = gt_UsedIPs x,
     pt_FreeIPs = gt_FreeIPs x, pt_OrphanedIPs = gt_OrphanedIPs x, pt_PendingPods = gt_PendingPods x,
     pt_OverlappingReservations = gt_OverlappingReservations x, pt_AllocatedIPs = or_nil (fst v), pt_Conditions = or_nil (snd v) \<rparr>"

definition status_val :: "heap \<Rightarrow> IPPoolStatus_go \<Rightarrow> IPPoolStatus" where
  "status_val h x = ip_status_of x (ref_val un_Addresses itself h (gt_AllocatedIPs x), ref_val un_Conditions itself h (gt_Conditions x))"

definition status_foot :: "heap \<Rightarrow> IPPoolStatus_go \<Rightarrow> loc set" where
  "status_foot h x = ref_foot un_Addresses no_cells h (gt_AllocatedIPs x) \<union> ref_foot un_Conditions no_cells h (gt_Conditions x)"

interpretation status: deep_copy IPPoolStatus_DeepCopyInto status_ok status_val status_foot
  by (rule deep_copy.part [OF both [OF leaf_refs(6,7)], where get = "\<lambda>x. (gt_AllocatedIPs x, gt_Conditions x)"
          and set' = "\<lambda>x (a, c). x\<lparr>gt_AllocatedIPs := a, gt_Conditions := c\<rparr>" and g = ip_status_of])
    (auto simp: IPPoolStatus_DeepCopyInto_def copy_both_def status_ok_def ip_status_of_def status_val_def status_foot_def split: prod.splits)

definition ippool_ok :: "heap \<Rightarrow> IPPool_go \<Rightarrow> bool" where
  "ippool_ok h x \<longleftrightarrow> meta_ok h (gp_ObjectMeta x) \<and> spec_ok h (gp_Spec x) \<and> status_ok h (gp_Status x)"

definition ippool_val :: "heap \<Rightarrow> IPPool_go \<Rightarrow> TypeMeta \<times> IPPool" where
  "ippool_val h x = (gp_TypeMeta x, \<lparr> ip_Meta = meta_val h (gp_ObjectMeta x), ip_Spec = spec_val h (gp_Spec x), ip_Status = status_val h (gp_Status x) \<rparr>)"

definition ippool_foot :: "heap \<Rightarrow> IPPool_go \<Rightarrow> loc set" where
  "ippool_foot h x = meta_foot h (gp_ObjectMeta x) \<union> (spec_foot h (gp_Spec x) \<union> status_foot h (gp_Status x))"

interpretation pool_copy: deep_copy IPPool_DeepCopyInto ippool_ok ippool_val ippool_foot
  by (rule deep_copy.part [OF both [OF meta.deep_copy_axioms both [OF spec.deep_copy_axioms status.deep_copy_axioms]],
        where get = "\<lambda>x. (gp_ObjectMeta x, gp_Spec x, gp_Status x)"
          and set' = "\<lambda>x (m, s, t). x\<lparr>gp_ObjectMeta := m, gp_Spec := s, gp_Status := t\<rparr>"
          and g = "\<lambda>x (m, s, t). (gp_TypeMeta x, \<lparr> ip_Meta = m, ip_Spec = s, ip_Status = t \<rparr>)"])
    (auto simp: IPPool_DeepCopyInto_def copy_both_def ippool_ok_def ippool_val_def ippool_foot_def split: prod.splits)

interpretation ippool_ptr: deep_copy IPPool_DeepCopy "ref_ok un_IPPool ippool_ok" "ref_val un_IPPool ippool_val" "ref_foot un_IPPool ippool_foot"
  unfolding IPPool_DeepCopy_def by (rule pool_copy.cell) simp

definition slices_ok :: "heap \<Rightarrow> NodeSlicePoolStatus_go \<Rightarrow> bool" where
  "slices_ok h x \<longleftrightarrow> ref_ok un_Slices any h (gn_Allocations x) \<and> ref_ok un_Conditions any h (gn_Conditions x)"

definition slices_of :: "NodeSlicePoolStatus_go \<Rightarrow> NodeSliceAllocation list option \<times> Condition list option \<Rightarrow> NodeSlicePoolStatus" where
  "slices_of x v = \<lparr> nst_Allocations = or_nil (fst v), nst_TotalSlices = gn_TotalSlices x, nst_AssignedSlices = gn_AssignedSlices x,
     nst_FreeSlices = gn_FreeSlices x, nst_Conditions = or_nil (snd v) \<rparr>"

definition slices_val :: "heap \<Rightarrow> NodeSlicePoolStatus_go \<Rightarrow> NodeSlicePoolStatus" where
  "slices_val h x = slices_of x (ref_val un_Slices itself h (gn_Allocations x), ref_val un_Conditions itself h (gn_Conditions x))"

definition slices_foot :: "heap \<Rightarrow> NodeSlicePoolStatus_go \<Rightarrow> loc set" where
  "slices_foot h x = ref_foot un_Slices no_cells h (gn_Allocations x) \<union> ref_foot un_Conditions no_cells h (gn_Conditions x)"

interpretation slices: deep_copy NodeSlicePoolStatus_DeepCopyInto slices_ok slices_val slices_foot
  by (rule deep_copy.part [OF both [OF leaf_refs(8,7)], where get = "\<lambda>x. (gn_Allocations x, gn_Conditions x)"
          and set' = "\<lambda>x (a, c). x\<lparr>gn_Allocations := a, gn_Conditions := c\<rparr>" and g = slices_of])
    (auto simp: NodeSlicePoolStatus_DeepCopyInto_def copy_both_def slices_ok_def slices_of_def slices_val_def slices_foot_def split: prod.splits)

definition nsp_ok :: "heap \<Rightarrow> NodeSlicePool_go \<Rightarrow> bool" where
  "nsp_ok h x \<longleftrightarrow> meta_ok h (gq_ObjectMeta x) \<and> slices_ok h (gq_Status x)"

definition nsp_val :: "heap \<Rightarrow> NodeSlicePool_go \<Rightarrow> TypeMeta \<times> NodeSlicePool" where
  "nsp_val h x = (gq_TypeMeta x, \<lparr> np_Meta = meta_val h (gq_ObjectMeta x), np_Spec = gq_Spec x, np_Status = slices_val h (gq_Status x) \<rparr>)"

definition nsp_foot :: "heap \<Rightarrow> NodeSlicePool_go \<Rightarrow> loc set" where
  "nsp_foot h x = meta_foot h (gq_ObjectMeta x) \<union> slices_foot h (gq_Status x)"

interpretation nsp: deep_copy NodeSlicePool_DeepCopyInto nsp_ok nsp_val nsp_foot
  by (rule deep_copy.part [OF both [OF meta.deep_copy_axioms both [OF plain slices.deep_copy_axioms]],
        where get = "\<lambda>x. (gq_ObjectMeta x, gq_Spec x, gq_Status x)"
          and set' = "\<lambda>x (m, s, t). x\<lparr>gq_ObjectMeta := m, gq_Spec := s, gq_Status := t\<rparr>"
          and g = "\<lambda>x (m, s, t). (gq_TypeMeta x, \<lparr> np_Meta = m, np_Spec = s, np_Status = t \<rparr>)"])
    (auto simp: NodeSlicePool_DeepCopyInto_def NodeSlicePoolSpec_DeepCopyInto_def copy_both_def nsp_ok_def nsp_val_def nsp_foot_def split: prod.splits)

interpretation nsp_ptr: deep_copy NodeSlicePool_DeepCopy "ref_ok un_NodeSlicePool nsp_ok" "ref_val un_NodeSlicePool nsp_val" "ref_foot un_NodeSlicePool nsp_foot"
  unfolding NodeSlicePool_DeepCopy_def by (rule nsp.cell) simp

definition orip_ok :: "heap \<Rightarrow> OverlappingRangeIPReservation_go \<Rightarrow> bool" where
  "orip_ok h x \<longleftrightarrow> meta_ok h (gv_ObjectMeta x) \<and> ref_ok un_Conditions any h (go_Conditions (gv_Status x))"

definition orip_val :: "heap \<Rightarrow> OverlappingRangeIPReservation_go \<Rightarrow> TypeMeta \<times> OverlappingRangeIPReservation" where
  "orip_val h x = (gv_TypeMeta x, \<lparr> ov_Meta = meta_val h (gv_ObjectMeta x), ov_Spec = gv_Spec x,
     ov_Conditions = or_nil (ref_val un_Conditions itself h (go_Conditions (gv_Status x))) \<rparr>)"

definition orip_foot :: "heap \<Rightarrow> OverlappingRangeIPReservation_go \<Rightarrow> loc set" where
  "orip_foot h x = meta_foot h (gv_ObjectMeta x) \<union> ref_foot un_Conditions no_cells h (go_Conditions (gv_Status x))"

interpretation orip_status: deep_copy OverlappingRangeIPReservationStatus_DeepCopyInto
    "\<lambda>h x. ref_ok un_Conditions any h (go_Conditions x)" "\<lambda>h x. ref_val un_Conditions itself h (go_Conditions x)"
    "\<lambda>h x. ref_foot un_Conditions no_cells h (go_Conditions x)"
  by (rule deep_copy.part [OF leaf_refs(7), where get = go_Conditions and set' = "\<lambda>x c. x\<lparr>go_Conditions := c\<rparr>" and g = "\<lambda>_ v. v"])
    (simp_all add: OverlappingRangeIPReservationStatus_DeepCopyInto_def)

interpretation orip: deep_copy OverlappingRangeIPReservation_DeepCopyInto orip_ok orip_val orip_foot
  by (rule deep_copy.part [OF both [OF meta.deep_copy_axioms both [OF plain orip_status.deep_copy_axioms]],
        where get = "\<lambda>x. (gv_ObjectMeta x, gv_Spec x, gv_Status x)"
          and set' = "\<lambda>x (m, s, t). x\<lparr>gv_ObjectMeta := m, gv_Spec := s, gv_Status := t\<rparr>"
          and g = "\<lambda>x (m, s, t). (gv_TypeMeta x, \<lparr> ov_Meta = m, ov_Spec = s, ov_Conditions = or_nil t \<rparr>)"])
    (auto simp: OverlappingRangeIPReservation_DeepCopyInto_def OverlappingRangeIPReservationSpec_DeepCopyInto_def copy_both_def orip_ok_def orip_val_def orip_foot_def split: prod.splits)

interpretation orip_ptr: deep_copy OverlappingRangeIPReservation_DeepCopy "ref_ok un_Reservation orip_ok" "ref_val un_Reservation orip_val" "ref_foot un_Reservation orip_foot"
  unfolding OverlappingRangeIPReservation_DeepCopy_def by (rule orip.cell) simp

text \<open>Pointers to parts of objects.\<close>

interpretation address_ptr: deep_copy IPAddressAllocation_DeepCopy "ref_ok un_Address any" "ref_val un_Address itself" "ref_foot un_Address no_cells"
  unfolding IPAddressAllocation_DeepCopy_def IPAddressAllocation_DeepCopyInto_def by (rule deep_copy.cell [OF plain]) simp

interpretation alloc_ptr: deep_copy IPAllocation_DeepCopy "ref_ok un_Alloc any" "ref_val un_Alloc itself" "ref_foot un_Alloc no_cells"
  unfolding IPAllocation_DeepCopy_def IPAllocation_DeepCopyInto_def by (rule deep_copy.cell [OF plain]) simp

interpretation node_slice_ptr: deep_copy NodeSliceAllocation_DeepCopy "ref_ok un_NodeSlice any" "ref_val un_NodeSlice itself" "ref_foot un_NodeSlice no_cells"
  unfolding NodeSliceAllocation_DeepCopy_def NodeSliceAllocation_DeepCopyInto_def by (rule deep_copy.cell [OF plain]) simp

interpretation spec_ptr: deep_copy IPPoolSpec_DeepCopy "ref_ok un_IPPoolSpec spec_ok"
    "ref_val un_IPPoolSpec spec_val" "ref_foot un_IPPoolSpec spec_foot"
  unfolding IPPoolSpec_DeepCopy_def by (rule spec.cell) simp

interpretation status_ptr: deep_copy IPPoolStatus_DeepCopy "ref_ok un_IPPoolStatus status_ok"
    "ref_val un_IPPoolStatus status_val" "ref_foot un_IPPoolStatus status_foot"
  unfolding IPPoolStatus_DeepCopy_def by (rule status.cell) simp

interpretation nsp_spec_ptr: deep_copy NodeSlicePoolSpec_DeepCopy "ref_ok un_NodeSlicePoolSpec any" "ref_val un_NodeSlicePoolSpec itself" "ref_foot un_NodeSlicePoolSpec no_cells"
  unfolding NodeSlicePoolSpec_DeepCopy_def NodeSlicePoolSpec_DeepCopyInto_def by (rule deep_copy.cell [OF plain]) simp

interpretation slices_ptr: deep_copy NodeSlicePoolStatus_DeepCopy "ref_ok un_NodeSlicePoolStatus slices_ok"
    "ref_val un_NodeSlicePoolStatus slices_val" "ref_foot un_NodeSlicePoolStatus slices_foot"
  unfolding NodeSlicePoolStatus_DeepCopy_def by (rule slices.cell) simp

interpretation orip_spec_ptr: deep_copy OverlappingRangeIPReservationSpec_DeepCopy "ref_ok un_ReservationSpec any" "ref_val un_ReservationSpec itself" "ref_foot un_ReservationSpec no_cells"
  unfolding OverlappingRangeIPReservationSpec_DeepCopy_def OverlappingRangeIPReservationSpec_DeepCopyInto_def by (rule deep_copy.cell [OF plain]) simp

interpretation orip_status_ptr: deep_copy OverlappingRangeIPReservationStatus_DeepCopy "ref_ok un_ReservationStatus (\<lambda>h x. ref_ok un_Conditions any h (go_Conditions x))"
    "ref_val un_ReservationStatus (\<lambda>h x. ref_val un_Conditions itself h (go_Conditions x))" "ref_foot un_ReservationStatus (\<lambda>h x. ref_foot un_Conditions no_cells h (go_Conditions x))"
  unfolding OverlappingRangeIPReservationStatus_DeepCopy_def by (rule orip_status.cell) simp

text \<open>The list objects.\<close>

definition list_ok :: "(cell \<Rightarrow> 'a list option) \<Rightarrow> (heap \<Rightarrow> 'a \<Rightarrow> bool) \<Rightarrow> heap \<Rightarrow> List_go \<Rightarrow> bool" where
  "list_ok unbox ok h x = ref_ok unbox (\<lambda>h xs. \<forall>x\<in>set xs. ok h x) h (gl_Items x)"

definition list_val :: "(cell \<Rightarrow> 'a list option) \<Rightarrow> (heap \<Rightarrow> 'a \<Rightarrow> 'v) \<Rightarrow> heap \<Rightarrow> List_go \<Rightarrow> TypeMeta \<times> string \<times> string \<times> 'v list" where
  "list_val unbox val h x = (gl_TypeMeta x, gl_ResourceVersion x, gl_Continue x, or_nil (ref_val unbox (\<lambda>h. map (val h)) h (gl_Items x)))"

definition list_foot :: "(cell \<Rightarrow> 'a list option) \<Rightarrow> (heap \<Rightarrow> 'a \<Rightarrow> loc set) \<Rightarrow> heap \<Rightarrow> List_go \<Rightarrow> loc set" where
  "list_foot unbox foot h x = ref_foot unbox (\<lambda>h xs. \<Union>x\<in>set xs. foot h x) h (gl_Items x)"

lemma list_copied:
  fixes box :: "'a list \<Rightarrow> cell"
  assumes "deep_copy copy ok val foot" "\<And>x. unbox (box x) = Some x"
    "\<And>x h. copy' x h = (let (i, h) = copy_ref box unbox (copy_items copy) (gl_Items x) h in (x\<lparr>gl_Items := i\<rparr>, h))"
  shows "deep_copy copy' (list_ok unbox ok) (list_val unbox val) (list_foot unbox foot)"
  by (rule deep_copy.part [OF deep_copy.cell [OF deep_copy.items [OF assms(1)], of unbox box, OF assms(2)],
        where get = gl_Items and set' = "\<lambda>x i. x\<lparr>gl_Items := i\<rparr>" and g = "\<lambda>x i. (gl_TypeMeta x, gl_ResourceVersion x, gl_Continue x, or_nil i)"])
    (simp_all add: assms(3) list_ok_def list_val_def list_foot_def)

interpretation ippool_list: deep_copy IPPoolList_DeepCopyInto "list_ok un_IPPools ippool_ok" "list_val un_IPPools ippool_val" "list_foot un_IPPools ippool_foot"
  by (rule list_copied [OF pool_copy.deep_copy_axioms un_IPPools.simps(1) IPPoolList_DeepCopyInto_def])

interpretation nsp_list: deep_copy NodeSlicePoolList_DeepCopyInto "list_ok un_NodeSlicePools nsp_ok" "list_val un_NodeSlicePools nsp_val" "list_foot un_NodeSlicePools nsp_foot"
  by (rule list_copied [OF nsp.deep_copy_axioms un_NodeSlicePools.simps(1) NodeSlicePoolList_DeepCopyInto_def])

interpretation orip_list: deep_copy OverlappingRangeIPReservationList_DeepCopyInto "list_ok un_Reservations orip_ok" "list_val un_Reservations orip_val" "list_foot un_Reservations orip_foot"
  by (rule list_copied [OF orip.deep_copy_axioms un_Reservations.simps(1) OverlappingRangeIPReservationList_DeepCopyInto_def])

text \<open>
  The pointer versions of the lists, as the informers and clients copy them.
\<close>

interpretation ippool_list_ptr: deep_copy IPPoolList_DeepCopy "ref_ok un_List (list_ok un_IPPools ippool_ok)"
    "ref_val un_List (list_val un_IPPools ippool_val)" "ref_foot un_List (list_foot un_IPPools ippool_foot)"
  unfolding IPPoolList_DeepCopy_def by (rule ippool_list.cell) simp

interpretation nsp_list_ptr: deep_copy NodeSlicePoolList_DeepCopy "ref_ok un_List (list_ok un_NodeSlicePools nsp_ok)"
    "ref_val un_List (list_val un_NodeSlicePools nsp_val)" "ref_foot un_List (list_foot un_NodeSlicePools nsp_foot)"
  unfolding NodeSlicePoolList_DeepCopy_def by (rule nsp_list.cell) simp

interpretation orip_list_ptr: deep_copy OverlappingRangeIPReservationList_DeepCopy "ref_ok un_List (list_ok un_Reservations orip_ok)"
    "ref_val un_List (list_val un_Reservations orip_val)" "ref_foot un_List (list_foot un_Reservations orip_foot)"
  unfolding OverlappingRangeIPReservationList_DeepCopy_def by (rule orip_list.cell) simp

section \<open>Snapshots\<close>

text \<open>
  The pool behind a pointer. \<^verbatim>\<open>clearServiceCIDROverlapAnnotation\<close> and \<^verbatim>\<open>recordServiceCIDROverlap\<close> change the map of
  the annotations in place, after the reconciler has taken its snapshot.
\<close>

definition object_at :: "heap \<Rightarrow> loc \<Rightarrow> (TypeMeta \<times> IPPool) option" where
  "object_at h l = ref_val un_IPPool ippool_val h (Some l)"

definition annotations_of :: "heap \<Rightarrow> IPPool_go \<Rightarrow> (loc \<times> (string \<times> string) list) option" where
  "annotations_of h x = (case gm_Annotations (gp_ObjectMeta x) of None \<Rightarrow> None
   | Some m \<Rightarrow> map_option (\<lambda>a. (m, a)) (Option.bind (h_mem h m) un_Strings))"

definition clear_in_place :: "loc \<Rightarrow> heap \<Rightarrow> bool \<times> heap" where
  "clear_in_place l h = (case Option.bind (h_mem h l) un_IPPool of None \<Rightarrow> (False, h)
   | Some x \<Rightarrow> (case annotations_of h x of None \<Rightarrow> (False, h)
     | Some (m, a) \<Rightarrow>
         if map_of a serviceCIDROverlapAnnotation = None then (False, h)
         else (True, h\<lparr>h_mem := (h_mem h)(m \<mapsto> String_map (filter (\<lambda>(key, _). key \<noteq> serviceCIDROverlapAnnotation) a))\<rparr>)))"

definition mark_in_place :: "loc \<Rightarrow> string \<Rightarrow> heap \<Rightarrow> heap" where
  "mark_in_place l overlapKey h = (case Option.bind (h_mem h l) un_IPPool of None \<Rightarrow> h
   | Some x \<Rightarrow> (case annotations_of h x of
       None \<Rightarrow>
         let m = h_next h; x' = x\<lparr>gp_ObjectMeta := (gp_ObjectMeta x)\<lparr>gm_Annotations := Some m\<rparr>\<rparr>
         in h\<lparr>h_mem := (h_mem h)(l \<mapsto> IPPool_cell x', m \<mapsto> String_map (map_put serviceCIDROverlapAnnotation overlapKey [])), h_next := Suc m\<rparr>
     | Some (m, a) \<Rightarrow> h\<lparr>h_mem := (h_mem h)(m \<mapsto> String_map (map_put serviceCIDROverlapAnnotation overlapKey a))\<rparr>))"

lemma pool_cell:
  assumes "ref_ok un_IPPool ippool_ok h (Some l)"
  obtains x where "l < h_next h" "h_mem h l = Some (IPPool_cell x)" "ippool_ok h x" "object_at h l = Some (ippool_val h x)"
proof -
  have "l < h_next h" "\<exists>x. Option.bind (h_mem h l) un_IPPool = Some x \<and> ippool_ok h x" using assms by (auto simp: ref_ok_def split: option.splits)
  then show thesis using that by (cases "h_mem h l") (auto elim!: un_IPPool.elims simp: object_at_def ref_val_def)
qed

lemma annotations_ok:
  assumes "ippool_ok h x"
  shows "annotations_of h x = Some (m, a) \<Longrightarrow> gm_Annotations (gp_ObjectMeta x) = Some m \<and> m < h_next h \<and> h_mem h m = Some (String_map a)"
    and "annotations_of h x = None \<Longrightarrow> gm_Annotations (gp_ObjectMeta x) = None"
    and "om_Annotations (meta_val h (gp_ObjectMeta x)) = (case annotations_of h x of None \<Rightarrow> [] | Some (_, a) \<Rightarrow> a)"
  using assms
  by (auto simp: ippool_ok_def meta_ok_def ref_ok_def annotations_of_def meta_val_def ref_val_def or_nil_def bind_eq_Some_conv
      elim!: un_Strings.elims split: option.splits)

text \<open>A write to the map of the annotations is seen by the annotations only.\<close>

lemma ref_val_other:
  assumes "r = Some m \<Longrightarrow> Option.bind (h_mem h m) unbox = unbox c"
  shows "ref_val unbox (\<lambda>_. v) (h\<lparr>h_mem := (h_mem h)(m \<mapsto> c)\<rparr>) r = ref_val unbox (\<lambda>_. v) h r"
  using assms by (auto simp: ref_val_def split: option.splits)

lemma annotate_val:
  assumes "ippool_ok h x" "annotations_of h x = Some (m, a)" "h' = h\<lparr>h_mem := (h_mem h)(m \<mapsto> String_map b)\<rparr>"
  shows "ippool_val h' x = (fst (ippool_val h x), set_annotations b (snd (ippool_val h x)))"
proof -
  note m = annotations_ok(1) [OF assms(1,2)]
  have o: "Option.bind (h_mem h m) un_Time = un_Time (String_map b)" "Option.bind (h_mem h m) un_Owners = un_Owners (String_map b)"
    "Option.bind (h_mem h m) un_Names = un_Names (String_map b)" "Option.bind (h_mem h m) un_Allocs = un_Allocs (String_map b)"
    "Option.bind (h_mem h m) un_Addresses = un_Addresses (String_map b)" "Option.bind (h_mem h m) un_Conditions = un_Conditions (String_map b)"
    using m by simp_all
  have "ref_val un_Strings itself h' (gm_Annotations (gp_ObjectMeta x)) = Some b" using m by (simp add: assms(3) ref_val_def)
  then show ?thesis
    unfolding ippool_val_def meta_val_def spec_val_def status_val_def ip_status_of_def set_annotations_def
    by (simp add: assms(3) ref_val_other [OF o(1)] ref_val_other [OF o(2)] ref_val_other [OF o(3)] ref_val_other [OF o(4)]
        ref_val_other [OF o(5)] ref_val_other [OF o(6)] or_nil_def)
qed

lemma pool_foot:
  assumes "h_mem h l = Some (IPPool_cell x)"
  shows "l \<in> ref_foot un_IPPool ippool_foot h (Some l)" "gm_Annotations (gp_ObjectMeta x) = Some m \<Longrightarrow> m \<in> ref_foot un_IPPool ippool_foot h (Some l)"
  using assms by (auto simp: ref_foot_def ippool_foot_def meta_foot_def)

text \<open>In place, the heap versions do what the functions on values do.\<close>

lemma clear_refines:
  assumes "ref_ok un_IPPool ippool_ok h (Some l)" "object_at h l = Some (t, p)"
  shows "fst (clear_in_place l h) = fst (clearServiceCIDROverlapAnnotation p)"
    "object_at (snd (clear_in_place l h)) l = Some (t, snd (clearServiceCIDROverlapAnnotation p))"
    "same_on (- ref_foot un_IPPool ippool_foot h (Some l)) h (snd (clear_in_place l h))" "h_next (snd (clear_in_place l h)) = h_next h"
proof -
  obtain x where x: "l < h_next h" "h_mem h l = Some (IPPool_cell x)" "ippool_ok h x" "object_at h l = Some (ippool_val h x)" using pool_cell [OF assms(1)] .
  note x = x(2,3) x(4) [unfolded assms(2) option.inject, symmetric]
  have p: "om_Annotations (ip_Meta p) = (case annotations_of h x of None \<Rightarrow> [] | Some (_, a) \<Rightarrow> a)"
    using x(3) annotations_ok(3) [OF x(2)] by (auto simp: ippool_val_def)
  have "fst (clear_in_place l h) = fst (clearServiceCIDROverlapAnnotation p)
    \<and> object_at (snd (clear_in_place l h)) l = Some (t, snd (clearServiceCIDROverlapAnnotation p))
    \<and> same_on (- ref_foot un_IPPool ippool_foot h (Some l)) h (snd (clear_in_place l h)) \<and> h_next (snd (clear_in_place l h)) = h_next h"
  proof (cases "annotations_of h x")
    case None
    then show ?thesis using x(1) p assms(2) by (simp add: clear_in_place_def clearServiceCIDROverlapAnnotation_def same_on_def)
  next
    case (Some ma)
    obtain m a where a: "annotations_of h x = Some (m, a)" using Some by (cases ma) simp
    note m = annotations_ok(1) [OF x(2) a]
    let ?b = "filter (\<lambda>(key, _). key \<noteq> serviceCIDROverlapAnnotation) a"
    show ?thesis
    proof (cases "map_of a serviceCIDROverlapAnnotation")
      case None
      then show ?thesis using x(1) a p assms(2) by (simp add: clear_in_place_def clearServiceCIDROverlapAnnotation_def same_on_def)
    next
      case (Some v)
      then have c: "clear_in_place l h = (True, h\<lparr>h_mem := (h_mem h)(m \<mapsto> String_map ?b)\<rparr>)" "clearServiceCIDROverlapAnnotation p = (True, set_annotations ?b p)"
        using x(1) a p by (simp_all add: clear_in_place_def clearServiceCIDROverlapAnnotation_def)
      have "m \<noteq> l" using m x(1) by auto
      then have "object_at (snd (clear_in_place l h)) l = Some (t, set_annotations ?b p)"
        using annotate_val [OF x(2) a refl, of ?b] x(1,3) by (simp add: c object_at_def ref_val_def)
      then show ?thesis using pool_foot(2) [OF x(1)] m by (auto simp: c same_on_def)
    qed
  qed
  then show "fst (clear_in_place l h) = fst (clearServiceCIDROverlapAnnotation p)"
    "object_at (snd (clear_in_place l h)) l = Some (t, snd (clearServiceCIDROverlapAnnotation p))"
    "same_on (- ref_foot un_IPPool ippool_foot h (Some l)) h (snd (clear_in_place l h))" "h_next (snd (clear_in_place l h)) = h_next h" by simp_all
qed

lemma mark_refines:
  assumes "wf_heap h" "ref_ok un_IPPool ippool_ok h (Some l)" "object_at h l = Some (t, p)"
  shows "object_at (mark_in_place l v h) l = Some (t, set_annotations (map_put serviceCIDROverlapAnnotation v (om_Annotations (ip_Meta p))) p)"
    "same_on ({..<h_next h} - ref_foot un_IPPool ippool_foot h (Some l)) h (mark_in_place l v h)" "h_next h \<le> h_next (mark_in_place l v h)"
proof -
  obtain x where x: "l < h_next h" "h_mem h l = Some (IPPool_cell x)" "ippool_ok h x" "object_at h l = Some (ippool_val h x)" using pool_cell [OF assms(2)] .
  note x = x(2,3) x(4) [unfolded assms(3) option.inject, symmetric] x(1)
  have p: "om_Annotations (ip_Meta p) = (case annotations_of h x of None \<Rightarrow> [] | Some (_, a) \<Rightarrow> a)"
    using x(3) annotations_ok(3) [OF x(2)] by (auto simp: ippool_val_def)
  have "object_at (mark_in_place l v h) l = Some (t, set_annotations (map_put serviceCIDROverlapAnnotation v (om_Annotations (ip_Meta p))) p)
    \<and> same_on ({..<h_next h} - ref_foot un_IPPool ippool_foot h (Some l)) h (mark_in_place l v h) \<and> h_next h \<le> h_next (mark_in_place l v h)"
  proof (cases "annotations_of h x")
    case None
    let ?x = "x\<lparr>gp_ObjectMeta := (gp_ObjectMeta x)\<lparr>gm_Annotations := Some (h_next h)\<rparr>\<rparr>"
    define h2 where "h2 = h\<lparr>h_mem := (h_mem h)(l \<mapsto> IPPool_cell ?x, h_next h \<mapsto> String_map [(serviceCIDROverlapAnnotation, v)]), h_next := Suc (h_next h)\<rparr>"
    have m: "mark_in_place l v h = h2" using x(1) None by (simp add: mark_in_place_def Let_def h2_def)
    have other: "ref_val unbox itself h2 r = ref_val unbox itself h r"
      if r: "ref_ok unbox any h r" and u: "\<And>y. unbox (IPPool_cell y) = None" for unbox :: "cell \<Rightarrow> 'c option" and r
    proof (cases r)
      case (Some c)
      then have "c < h_next h" "c \<noteq> l" using r x(1) u by (auto simp: ref_ok_def split: option.splits)
      then show ?thesis by (simp add: Some ref_val_def h2_def)
    qed (simp add: ref_val_def)
    have ro: "ref_ok unbox any h r" if "ref_ok unbox ok h r" for unbox :: "cell \<Rightarrow> 'c option" and ok r using that by (auto simp: ref_ok_def split: option.splits)
    have ok: "ref_ok un_Time any h (gm_DeletionTimestamp (gp_ObjectMeta x))" "ref_ok un_Owners any h (gm_OwnerReferences (gp_ObjectMeta x))"
      "ref_ok un_Names any h (gm_Finalizers (gp_ObjectMeta x))" "ref_ok un_Allocs any h (gs_Allocations (gp_Spec x))"
      "ref_ok un_Addresses any h (gt_AllocatedIPs (gp_Status x))" "ref_ok un_Conditions any h (gt_Conditions (gp_Status x))"
      using x(2) ro [of un_Allocs go_map] by (auto simp: ippool_ok_def meta_ok_def spec_ok_def status_ok_def)
    have n: "ref_val un_Strings itself h2 (Some (h_next h)) = Some [(serviceCIDROverlapAnnotation, v)]" by (simp add: ref_val_def h2_def)
    have "ippool_val h2 ?x = (t, set_annotations [(serviceCIDROverlapAnnotation, v)] p)"
      using x(3) [symmetric] n
      by (simp add: ippool_val_def meta_val_def spec_val_def status_val_def ip_status_of_def set_annotations_def
          other [OF ok(1)] other [OF ok(2)] other [OF ok(3)] other [OF ok(4)] other [OF ok(5)] other [OF ok(6)] or_nil_def)
    moreover have "Option.bind (h_mem h2 l) un_IPPool = Some ?x" using x(4) by (simp add: h2_def)
    moreover have "same_on ({..<h_next h} - ref_foot un_IPPool ippool_foot h (Some l)) h h2" "h_next h \<le> h_next h2"
      using pool_foot(1) [OF x(1)] by (auto simp: h2_def same_on_def)
    ultimately show ?thesis using None p by (simp add: m object_at_def ref_val_def)
  next
    case (Some ma)
    obtain m a where a: "annotations_of h x = Some (m, a)" using Some by (cases ma) simp
    note m = annotations_ok(1) [OF x(2) a]
    let ?b = "map_put serviceCIDROverlapAnnotation v a"
    have c: "mark_in_place l v h = h\<lparr>h_mem := (h_mem h)(m \<mapsto> String_map ?b)\<rparr>" using x(1) a by (simp add: mark_in_place_def)
    have "m \<noteq> l" using m x(1) by auto
    then have "object_at (mark_in_place l v h) l = Some (t, set_annotations ?b p)"
      using annotate_val [OF x(2) a refl, of ?b] x(1,3) by (simp add: c object_at_def ref_val_def)
    then show ?thesis using pool_foot(2) [OF x(1)] m p a by (auto simp: c same_on_def)
  qed
  then show "object_at (mark_in_place l v h) l = Some (t, set_annotations (map_put serviceCIDROverlapAnnotation v (om_Annotations (ip_Meta p))) p)"
    "same_on ({..<h_next h} - ref_foot un_IPPool ippool_foot h (Some l)) h (mark_in_place l v h)" "h_next h \<le> h_next (mark_in_place l v h)" by simp_all
qed

text \<open>
  C33: The snapshot that the reconciler takes of a pool with \<^verbatim>\<open>DeepCopyObject\<close> is what the pool was, and
  stays so: when the overlap marker is then removed from or put into the annotations in place, the
  pool changes as the functions on values say, and the snapshot, from which the patch is computed,
  does not. More generally the snapshot stays whatever happens to older cells, and the
  pool stays whatever happens to the cells of the snapshot.
\<close>

theorem snapshot_independent:
  assumes "wf_heap h" "ref_ok un_IPPool ippool_ok h (Some l)" "object_at h l = Some (t, p)" "IPPool_DeepCopyObject (Some l) h = (q, h')"
  shows "\<exists>s. q = Some (IPPool_object s) \<and> object_at h' s = Some (t, p)
    \<and> (let h1 = snd (clear_in_place l h') in object_at h1 l = Some (t, snd (clearServiceCIDROverlapAnnotation p)) \<and> object_at h1 s = Some (t, p))
    \<and> (let h1 = mark_in_place l v h' in
         object_at h1 l = Some (t, set_annotations (map_put serviceCIDROverlapAnnotation v (om_Annotations (ip_Meta p))) p) \<and> object_at h1 s = Some (t, p))
    \<and> (\<forall>h''. h_next h' \<le> h_next h'' \<and> same_on {h_next h..<h_next h'} h' h'' \<longrightarrow> object_at h'' s = Some (t, p))
    \<and> (\<forall>h''. h_next h' \<le> h_next h'' \<and> same_on {..<h_next h} h' h'' \<longrightarrow> object_at h'' l = Some (t, p))"
proof -
  obtain r where c: "IPPool_DeepCopy (Some l) h = (r, h')" and q: "q = map_option IPPool_object r"
    using assms(4) by (auto simp: IPPool_DeepCopyObject_def to_Object_def split: prod.splits option.splits)
  have "\<exists>x. Option.bind (h_mem h l) un_IPPool = Some x" using assms(2) by (auto simp: ref_ok_def split: option.splits)
  then obtain s where r: "r = Some s" using c by (auto simp: IPPool_DeepCopy_def copy_ref_def Let_def split: prod.splits)
  have g: "grows h h'" using ippool_ptr.copies [OF assms(1,2) c] by blast
  have snap: "object_at h'' s = Some (t, p)" if "h_next h' \<le> h_next h''" "same_on {h_next h..<h_next h'} h' h''" for h''
    using ippool_ptr.copy_unaffected [OF assms(1,2) c that(2,1)] assms(3) by (simp add: object_at_def r)
  have orig: "object_at h'' l = Some (t, p)" if "h_next h' \<le> h_next h''" "same_on {..<h_next h} h' h''" for h''
    using ippool_ptr.original_unaffected [OF assms(1,2) c that(2,1)] assms(3) by (simp add: object_at_def)
  have wf: "wf_heap h'" using g by (simp add: grows_def)
  have ok: "ref_ok un_IPPool ippool_ok h' (Some l)" by (rule ippool_ptr.kept(1) [OF g assms(2)])
  have at: "object_at h' l = Some (t, p)" using orig [of h'] by (simp add: same_on_def)
  have foot: "ref_foot un_IPPool ippool_foot h' (Some l) \<subseteq> {..<h_next h}"
    using ippool_ptr.kept(3) [OF g assms(2)] ippool_ptr.allocated [OF assms(2)] by simp
  have "same_on {h_next h..<h_next h'} h' (snd (clear_in_place l h'))" "same_on {h_next h..<h_next h'} h' (mark_in_place l v h')"
    by (rule same_on_subset [OF clear_refines(3) [OF ok at]] same_on_subset [OF mark_refines(2) [OF wf ok at]], use foot in auto)+
  then have "object_at (snd (clear_in_place l h')) s = Some (t, p)" "object_at (mark_in_place l v h') s = Some (t, p)"
    using snap clear_refines(4) [OF ok at] mark_refines(3) [OF wf ok at] by simp_all
  moreover have "object_at h' s = Some (t, p)" using snap [of h'] by (simp add: same_on_def)
  ultimately show ?thesis
    using snap orig clear_refines(2) [OF ok at] mark_refines(1) [OF wf ok at] by (intro exI [of _ s]) (simp add: q r Let_def)
qed

definition marked_meta :: "(string \<times> string) list" where
  "marked_meta = [(serviceCIDROverlapAnnotation, ''10.96.0.0/12|10.96.0.0/16'')]"

definition heap_ex :: heap where
  "heap_ex = \<lparr> h_mem = [0 \<mapsto> Alloc_map [(''1'', \<lparr> ia_ContainerID = ''c1'', ia_PodRef = ''ns/p1'', ia_IfName = ''eth0'' \<rparr>)],
     1 \<mapsto> String_map marked_meta,
     2 \<mapsto> IPPool_cell \<lparr> gp_TypeMeta = \<lparr> tm_Kind = ''IPPool'', tm_APIVersion = ''whereabouts.cni.cncf.io/v1alpha1'' \<rparr>,
       gp_ObjectMeta = \<lparr> gm_Name = ''10.96.0.0-12'', gm_Namespace = ''kube-system'', gm_UID = [], gm_ResourceVersion = ''7'', gm_Generation = 1,
         gm_DeletionTimestamp = None, gm_Annotations = Some 1, gm_OwnerReferences = None, gm_Finalizers = None \<rparr>,
       gp_Spec = \<lparr> gs_Range = ''10.96.0.0/12'', gs_Allocations = Some 0, gs_EnableL3 = False \<rparr>,
       gp_Status = \<lparr> gt_FirstIP = [], gt_LastIP = [], gt_TotalIPs = 0, gt_UsedIPs = 0, gt_FreeIPs = 0, gt_OrphanedIPs = 0, gt_PendingPods = 0,
         gt_OverlappingReservations = 0, gt_AllocatedIPs = None, gt_Conditions = None \<rparr> \<rparr>],
     h_next = 3 \<rparr>"

definition annotations_at :: "heap \<Rightarrow> loc \<Rightarrow> (string \<times> string) list" where
  "annotations_at h l = (case object_at h l of None \<Rightarrow> [] | Some p \<Rightarrow> om_Annotations (ip_Meta (snd p)))"

theorem snapshot_independent_witness:
  "\<exists>s h'. IPPool_DeepCopyObject (Some 2) heap_ex = (Some (IPPool_object s), h')
    \<and> annotations_at (snd (clear_in_place 2 h')) 2 = [] \<and> annotations_at (snd (clear_in_place 2 h')) s = marked_meta"
proof -
  define h' where "h' = snd (IPPool_DeepCopyObject (Some 2) heap_ex)"
  have wf: "wf_heap heap_ex" by (simp add: wf_heap_def heap_ex_def)
  have ok: "ref_ok un_IPPool ippool_ok heap_ex (Some 2)" "annotations_at heap_ex 2 = marked_meta" "object_at heap_ex 2 \<noteq> None" by code_simp+
  then obtain t p where p: "object_at heap_ex 2 = Some (t, p)" by auto
  have call: "IPPool_DeepCopyObject (Some 2) heap_ex = (fst (IPPool_DeepCopyObject (Some 2) heap_ex), h')" by (simp add: h'_def)
  have a: "om_Annotations (ip_Meta p) = marked_meta" using ok(2) p by (simp add: annotations_at_def)
  then have "om_Annotations (ip_Meta (snd (clearServiceCIDROverlapAnnotation p))) = []"
    by (simp add: clearServiceCIDROverlapAnnotation_def set_annotations_def marked_meta_def)
  then show ?thesis
    using snapshot_independent [OF wf ok(1) p call, of "[]"] call a by (auto simp: Let_def annotations_at_def)
qed

end
