(* ===== verification/Metrics.thy ===== *)
theory Metrics
  imports IPPoolController Validation
begin

text \<open>
  The metrics of the operator (\<^verbatim>\<open>internal/controller/metrics.go\<close>, \<^verbatim>\<open>internal/webhook/metrics.go\<close>) and the version
  string (\<^verbatim>\<open>pkg/version\<close>). A metric with labels is a map from label values to its value; \<^verbatim>\<open>float64\<close> is exact
  on the 32-bit counts that are recorded, so values are integers. The calls stand at the places of the
  reconcilers and validators that the comments name; nothing in the program reads a metric.
\<close>

section \<open>The registry\<close>

text \<open>\<^verbatim>\<open>BuildFQName\<close> of the Prometheus client, for the names of the registered metrics.\<close>

definition BuildFQName :: "string \<Rightarrow> string \<Rightarrow> string \<Rightarrow> string" where
  "BuildFQName namespace subsystem name =
     (if name = [] then []
      else (if namespace = [] then [] else namespace @ ''_'') @ (if subsystem = [] then [] else subsystem @ ''_'') @ name)"

definition controller_metrics :: "string list" where
  "controller_metrics = map (\<lambda>(subsystem, name). BuildFQName ''whereabouts'' subsystem name)
     [(''ippool'', ''allocations''), (''ippool'', ''capacity''), (''ippool'', ''free''), (''ippool'', ''orphans_cleaned_total''),
      (''overlappingrange'', ''reservations_cleaned_total''), (''nodeslicepool'', ''assigned_nodes''), (''nodeslicepool'', ''slices_total'')]"

definition webhook_metrics :: "string list" where
  "webhook_metrics = [BuildFQName ''whereabouts'' ''webhook'' ''validation_total'']"

text \<open>
  \<^verbatim>\<open>MustRegister\<close> panics on a name that is registered already; both packages register with the same
  registry when the program is loaded.
\<close>

fun MustRegister :: "string list \<Rightarrow> string list \<Rightarrow> string list option" where
  "MustRegister reg [] = Some reg"
| "MustRegister reg (c # cs) = (if c \<in> set reg then None else MustRegister (reg @ [c]) cs)"

lemma MustRegister_iff: "MustRegister reg cs = (if distinct cs \<and> set reg \<inter> set cs = {} then Some (reg @ cs) else None)"
  by (induction cs arbitrary: reg) auto

lemma init_never_panics:
  "Option.bind (MustRegister [] controller_metrics) (\<lambda>reg. MustRegister reg webhook_metrics) = Some (controller_metrics @ webhook_metrics)"
  "Option.bind (MustRegister [] webhook_metrics) (\<lambda>reg. MustRegister reg controller_metrics) = Some (webhook_metrics @ controller_metrics)"
proof -
  have d: "distinct (controller_metrics @ webhook_metrics)" by (simp add: controller_metrics_def webhook_metrics_def BuildFQName_def)
  then show "Option.bind (MustRegister [] controller_metrics) (\<lambda>reg. MustRegister reg webhook_metrics) = Some (controller_metrics @ webhook_metrics)"
    by (simp add: MustRegister_iff)
  show "Option.bind (MustRegister [] webhook_metrics) (\<lambda>reg. MustRegister reg controller_metrics) = Some (webhook_metrics @ controller_metrics)"
    using d by (auto simp: MustRegister_iff)
qed

record metrics =
  ippoolAllocationsGauge :: "string \<rightharpoonup> int"
  ippoolCapacityGauge :: "string \<rightharpoonup> int"
  ippoolFreeGauge :: "string \<rightharpoonup> int"
  ippoolOrphansCleaned :: "string \<rightharpoonup> int"
  overlappingReservationsCleaned :: int
  nodesliceNodesGauge :: "string \<rightharpoonup> int"
  nodesliceSlicesGauge :: "string \<rightharpoonup> int"
  webhookValidationTotal :: "string \<times> string \<times> string \<rightharpoonup> int"

definition no_metrics :: metrics where
  "no_metrics = \<lparr> ippoolAllocationsGauge = Map.empty, ippoolCapacityGauge = Map.empty, ippoolFreeGauge = Map.empty,
     ippoolOrphansCleaned = Map.empty, overlappingReservationsCleaned = 0, nodesliceNodesGauge = Map.empty,
     nodesliceSlicesGauge = Map.empty, webhookValidationTotal = Map.empty \<rparr>"

text \<open>\<^verbatim>\<open>WithLabelValues(l).Add(n)\<close>: a label that is used for the first time starts at zero.\<close>

definition counter_add :: "'l \<Rightarrow> int \<Rightarrow> ('l \<rightharpoonup> int) \<Rightarrow> 'l \<rightharpoonup> int" where
  "counter_add l n c = c(l \<mapsto> (case c l of None \<Rightarrow> 0 | Some v \<Rightarrow> v) + n)"

definition counter_value :: "('l \<rightharpoonup> int) \<Rightarrow> 'l \<Rightarrow> int" where
  "counter_value c l = (case c l of None \<Rightarrow> 0 | Some v \<Rightarrow> v)"

lemma counter_value_add [simp]: "counter_value (counter_add l n c) l' = counter_value c l' + (if l' = l then n else 0)"
  by (simp add: counter_value_def counter_add_def)

section \<open>The controllers\<close>

definition recordIPPoolMetrics :: "string \<Rightarrow> int \<Rightarrow> int \<Rightarrow> int \<Rightarrow> metrics \<Rightarrow> metrics" where
  "recordIPPoolMetrics poolName totalIPs usedIPs freeIPs m =
     m\<lparr>ippoolAllocationsGauge := (ippoolAllocationsGauge m)(poolName \<mapsto> usedIPs),
       ippoolCapacityGauge := (ippoolCapacityGauge m)(poolName \<mapsto> totalIPs),
       ippoolFreeGauge := (ippoolFreeGauge m)(poolName \<mapsto> freeIPs)\<rparr>"

definition deleteIPPoolMetrics :: "string \<Rightarrow> metrics \<Rightarrow> metrics" where
  "deleteIPPoolMetrics poolName m =
     m\<lparr>ippoolAllocationsGauge := (ippoolAllocationsGauge m)(poolName := None),
       ippoolCapacityGauge := (ippoolCapacityGauge m)(poolName := None),
       ippoolFreeGauge := (ippoolFreeGauge m)(poolName := None)\<rparr>"

definition deleteNodeSliceMetrics :: "string \<Rightarrow> metrics \<Rightarrow> metrics" where
  "deleteNodeSliceMetrics poolName m =
     m\<lparr>nodesliceSlicesGauge := (nodesliceSlicesGauge m)(poolName := None),
       nodesliceNodesGauge := (nodesliceNodesGauge m)(poolName := None)\<rparr>"

fun count_assigned :: "NodeSliceAllocation list \<Rightarrow> int \<Rightarrow> int" where
  "count_assigned [] assigned = assigned"
| "count_assigned (a # allocations) assigned = count_assigned allocations (if na_NodeName a \<noteq> [] then assigned + 1 else assigned)"

definition recordNodeSliceMetrics :: "string \<Rightarrow> NodeSliceAllocation list \<Rightarrow> metrics \<Rightarrow> metrics" where
  "recordNodeSliceMetrics poolName allocations m =
     m\<lparr>nodesliceSlicesGauge := (nodesliceSlicesGauge m)(poolName \<mapsto> int (length allocations)),
       nodesliceNodesGauge := (nodesliceNodesGauge m)(poolName \<mapsto> count_assigned allocations 0)\<rparr>"

text \<open>\<^verbatim>\<open>ippoolOrphansCleaned\<close> and \<^verbatim>\<open>overlappingReservationsCleaned\<close> are increased in the reconcilers themselves.\<close>

definition add_orphans :: "string \<Rightarrow> allocations \<Rightarrow> metrics \<Rightarrow> metrics" where
  "add_orphans poolName orphanedAllocs m =
     m\<lparr>ippoolOrphansCleaned := counter_add poolName (int (length orphanedAllocs)) (ippoolOrphansCleaned m)\<rparr>"

definition inc_reservations :: "metrics \<Rightarrow> metrics" where
  "inc_reservations m = m\<lparr>overlappingReservationsCleaned := overlappingReservationsCleaned m + 1\<rparr>"

lemma count_assigned_filter: "count_assigned as n = n + int (length (filter (\<lambda>a. na_NodeName a \<noteq> []) as))"
  by (induction as arbitrary: n) auto

text \<open>The number of nodes with a slice never exceeds the number of slices.\<close>

lemma assigned_bounded:
  assumes "m' = recordNodeSliceMetrics p as m"
  shows "\<exists>nodes slices. nodesliceNodesGauge m' p = Some nodes \<and> nodesliceSlicesGauge m' p = Some slices \<and> 0 \<le> nodes \<and> nodes \<le> slices"
  using length_filter_le [of "\<lambda>a. na_NodeName a \<noteq> []" as]
  by (auto simp: assms recordNodeSliceMetrics_def count_assigned_filter simp del: length_filter_le)

text \<open>
  The gauges that \<^verbatim>\<open>Reconcile\<close> records after \<^verbatim>\<open>computePoolStats\<close> agree with each other: what is free is what is
  not used, and no gauge is negative.
\<close>

definition record_pool :: "IPPool \<Rightarrow> metrics \<Rightarrow> metrics" where
  "record_pool pool = recordIPPoolMetrics (om_Name (ip_Meta pool)) (pt_TotalIPs (ip_Status pool)) (pt_UsedIPs (ip_Status pool)) (pt_FreeIPs (ip_Status pool))"

lemma recorded_gauges_agree:
  assumes "length (ps_Allocations (ip_Spec pool)) < 2 ^ 31" "m' = record_pool (fst (computePoolStats k pool orphans pending w)) m"
  shows "\<exists>used total free. ippoolAllocationsGauge m' (om_Name (ip_Meta pool)) = Some used \<and> ippoolCapacityGauge m' (om_Name (ip_Meta pool)) = Some total
    \<and> ippoolFreeGauge m' (om_Name (ip_Meta pool)) = Some free \<and> used = int (length (ps_Allocations (ip_Spec pool)))
    \<and> 0 \<le> total \<and> free = max 0 (total - used)"
proof -
  have "om_Name (ip_Meta (fst (computePoolStats k pool orphans pending w))) = om_Name (ip_Meta pool)"
    by (auto simp: computePoolStats_def Let_def split: prod.splits sum.splits)
  then show ?thesis
    using computePoolStats_adds_up [OF assms(1), of k orphans pending w] by (simp add: assms(2) record_pool_def recordIPPoolMetrics_def Let_def)
qed

text \<open>A deleted pool leaves no gauge behind; its counter of removed orphans stays.\<close>

lemma record_then_delete:
  "ippoolAllocationsGauge (deleteIPPoolMetrics p (recordIPPoolMetrics p t u f m)) = (ippoolAllocationsGauge m)(p := None)"
  "ippoolOrphansCleaned (deleteIPPoolMetrics p m) = ippoolOrphansCleaned m"
  by (simp_all add: deleteIPPoolMetrics_def recordIPPoolMetrics_def)

text \<open>
  The label is the name without the namespace: pools of the same name in two namespaces share their
  gauges, and the deletion of one removes the values of the other.
\<close>

lemma gauges_ignore_namespace:
  assumes "om_Name (ip_Meta p) = om_Name (ip_Meta q)" "om_Namespace (ip_Meta p) \<noteq> om_Namespace (ip_Meta q)"
  shows "ippoolFreeGauge (deleteIPPoolMetrics (om_Name (ip_Meta q)) (record_pool p m)) (om_Name (ip_Meta p)) = None"
  using assms by (simp add: deleteIPPoolMetrics_def)

text \<open>
  The orphans are counted when they are removed from the copy in memory, before the patch is sent. Passes
  whose patch fails find the same orphans again: \<open>n\<close> passes over the same orphans count them \<open>n\<close> times,
  however many of them were written.
\<close>

lemma orphans_counted_per_pass:
  "counter_value (ippoolOrphansCleaned ((add_orphans p orphans ^^ n) m)) p =
     counter_value (ippoolOrphansCleaned m) p + int n * int (length orphans)"
  by (induction n) (simp_all add: add_orphans_def algebra_simps)

section \<open>The webhooks\<close>

definition recordValidation :: "string \<Rightarrow> string \<Rightarrow> err option \<Rightarrow> metrics \<Rightarrow> metrics" where
  "recordValidation resource operation err m =
     (let result = (if err \<noteq> None then ''rejected'' else ''allowed'')
      in m\<lparr>webhookValidationTotal := counter_add (resource, operation, result) 1 (webhookValidationTotal m)\<rparr>)"

text \<open>The requests that the validators answer. Every branch records the error that it returns.\<close>

datatype admission_request =
    Create_IPPool IPPool | Update_IPPool "IPPool option" IPPool | Delete_IPPool IPPool
  | Create_NodeSlicePool NodeSlicePool | Update_NodeSlicePool "NodeSlicePool option" NodeSlicePool | Delete_NodeSlicePool NodeSlicePool
  | Create_Reservation OverlappingRangeIPReservation
  | Update_Reservation "OverlappingRangeIPReservation option" OverlappingRangeIPReservation
  | Delete_Reservation OverlappingRangeIPReservation

fun decide :: "admission_request \<Rightarrow> string list result" where
  "decide (Create_IPPool p) = IPPool_ValidateCreate p"
| "decide (Update_IPPool old p) = IPPool_ValidateUpdate old p"
| "decide (Delete_IPPool p) = IPPool_ValidateDelete p"
| "decide (Create_NodeSlicePool p) = NodeSlicePool_ValidateCreate p"
| "decide (Update_NodeSlicePool old p) = NodeSlicePool_ValidateUpdate old p"
| "decide (Delete_NodeSlicePool p) = NodeSlicePool_ValidateDelete p"
| "decide (Create_Reservation r) = OverlappingRange_ValidateCreate r"
| "decide (Update_Reservation old r) = OverlappingRange_ValidateUpdate old r"
| "decide (Delete_Reservation r) = OverlappingRange_ValidateDelete r"

fun labels :: "admission_request \<Rightarrow> string \<times> string" where
  "labels (Create_IPPool _) = (''ippool'', ''create'')"
| "labels (Update_IPPool _ _) = (''ippool'', ''update'')"
| "labels (Delete_IPPool _) = (''ippool'', ''delete'')"
| "labels (Create_NodeSlicePool _) = (''nodeslicepool'', ''create'')"
| "labels (Update_NodeSlicePool _ _) = (''nodeslicepool'', ''update'')"
| "labels (Delete_NodeSlicePool _) = (''nodeslicepool'', ''delete'')"
| "labels (Create_Reservation _) = (''overlappingrange'', ''create'')"
| "labels (Update_Reservation _ _) = (''overlappingrange'', ''update'')"
| "labels (Delete_Reservation _) = (''overlappingrange'', ''delete'')"

fun serve :: "admission_request list \<Rightarrow> metrics \<Rightarrow> string list result list \<times> metrics" where
  "serve [] m = ([], m)"
| "serve (r # rs) m =
     (let answer = decide r;
          (resource, operation) = labels r;
          m = recordValidation resource operation (case answer of Inl e \<Rightarrow> Some e | Inr _ \<Rightarrow> None) m;
          (answers, m) = serve rs m
      in (answer # answers, m))"

definition rejected :: "'a + 'b \<Rightarrow> bool" where
  "rejected a = (case a of Inl _ \<Rightarrow> True | Inr _ \<Rightarrow> False)"

text \<open>The counters are the numbers of answers, and deletions are never rejected.\<close>

lemma counters_count_answers:
  assumes "serve rs m = (answers, m')"
  shows "answers = map decide rs"
    and "counter_value (webhookValidationTotal m') (resource, operation, ''rejected'') =
      counter_value (webhookValidationTotal m) (resource, operation, ''rejected'')
      + int (length (filter (\<lambda>r. labels r = (resource, operation) \<and> rejected (decide r)) rs))"
    and "counter_value (webhookValidationTotal m') (resource, operation, ''allowed'') =
      counter_value (webhookValidationTotal m) (resource, operation, ''allowed'')
      + int (length (filter (\<lambda>r. labels r = (resource, operation) \<and> \<not> rejected (decide r)) rs))"
  using assms
  by (induction rs arbitrary: m answers)
    (auto simp: Let_def recordValidation_def rejected_def split: prod.splits sum.splits if_splits)

lemma deletions_allowed:
  assumes "serve rs no_metrics = (answers, m)"
  shows "counter_value (webhookValidationTotal m) (resource, ''delete'', ''rejected'') = 0"
proof -
  have "\<not> rejected (decide r)" if "labels r = (resource, ''delete'')" for r
    using that by (cases r) (auto simp: rejected_def IPPool_ValidateDelete_def NodeSlicePool_ValidateDelete_def OverlappingRange_ValidateDelete_def)
  then have f: "filter (\<lambda>r. labels r = (resource, ''delete'') \<and> rejected (decide r)) rs = []" by (auto simp: filter_empty_conv)
  show ?thesis using counters_count_answers(2) [OF assms, of resource "''delete''"] unfolding f by (simp add: no_metrics_def counter_value_def)
qed

section \<open>The version\<close>

record build =
  Version :: string
  GitSHA :: string
  GitTreeState :: string
  ReleaseStatus :: string

definition GetFullVersion :: "build \<Rightarrow> string" where
  "GetFullVersion b =
     (if Version b = [] then ''UNKNOWN''
      else if ReleaseStatus b = ''released'' then Version b
      else if GitSHA b = [] then Version b @ ''-unknown''
      else if GitTreeState b = ''dirty'' then Version b @ ''-'' @ GitSHA b @ ''.dirty''
      else Version b @ ''-'' @ GitSHA b)"

definition GetFullVersionWithRuntimeInfo :: "build \<Rightarrow> string \<Rightarrow> string \<Rightarrow> string" where
  "GetFullVersionWithRuntimeInfo b GOOS GOARCH = GetFullVersion b @ '' '' @ GOOS @ ''/'' @ GOARCH"

text \<open>
  An unreleased build is not taken for a released one: its string has a dash behind the version, and
  for a clean or dirty tree the commit follows.
\<close>

lemma unreleased_marked:
  assumes "Version b \<noteq> []" "ReleaseStatus b \<noteq> ''released''"
  shows "\<exists>info. GetFullVersion b = Version b @ CHR ''-'' # info \<and> info \<noteq> [] \<and> (GitSHA b \<noteq> [] \<longrightarrow> take (length (GitSHA b)) info = GitSHA b)"
  using assms by (auto simp: GetFullVersion_def)

end
