(* ===== verification/Spec2Isabelle.thy ===== *)
theory Spec2Isabelle
  imports Release Exclusive Cmd NodeSlice Startup Install Logging DeepCopy Metrics
begin

text \<open>
  Whereabouts: cluster-wide management of IP addresses for Kubernetes pods.

  \<^bold>\<open>The program.\<close> A CNI plugin (\<^verbatim>\<open>cmd/whereabouts\<close>) runs on every node for every pod interface. It
  loads its configuration (\<^verbatim>\<open>pkg/config\<close>, \<^verbatim>\<open>pkg/types\<close>), reads the pool of the configured range from the
  Kubernetes API, picks an address (\<^verbatim>\<open>pkg/allocate\<close>, \<^verbatim>\<open>pkg/iphelpers\<close>) and writes the pool back with an
  optimistic JSON patch (\<^verbatim>\<open>pkg/storage/kubernetes\<close>); with overlapping ranges it also creates one
  cluster-wide reservation per address. An operator (\<^verbatim>\<open>cmd/operator\<close>, \<^verbatim>\<open>internal/controller\<close>) removes the
  allocations and reservations of pods that are gone, and gives every node a slice of a range;
  admission webhooks (\<^verbatim>\<open>internal/webhook\<close>, \<^verbatim>\<open>internal/validation\<close>) check the stored objects. An
  installer (\<^verbatim>\<open>cmd/install-cni\<close>) puts plugin, configuration and credentials on the nodes.

  \<^bold>\<open>Conventions.\<close> Definitions keep the names of the code; a phase or loop body that has no name there
  has a name of its own and a comment with its lines. A fallible function returns a sum with the
  error on the left, several results are tuples, nil slices and nil addresses are empty lists. An
  IP address is the byte list of \<^verbatim>\<open>net.IP\<close> (4 or 16 bytes of type \<open>8 word\<close>), \<^verbatim>\<open>netip.Addr\<close> is the
  datatype \<open>addr\<close> over \<open>32 word\<close> and \<open>128 word\<close>; counters of the API are kept within \<^verbatim>\<open>int32\<close>. The
  Kubernetes API, the clock, randomness and sleeping are records of functions on an abstract
  world \<open>'w\<close> (\<^verbatim>\<open>Kube\<close>, \<^verbatim>\<open>PatchHelper\<close>): every theorem holds for every behaviour of the API, with what
  it needs of it as a hypothesis. Error texts are shortened; logs and
  events' texts are left out, metrics are a theory of their own.

  \<^bold>\<open>The theories.\<close>
    \<^item> \<^verbatim>\<open>Prelude\<close>, \<^verbatim>\<open>GoNet\<close>, \<^verbatim>\<open>GoParse\<close>, \<^verbatim>\<open>Paths\<close>: errors, strings and numbers as Go prints and reads them;
      addresses, prefixes and networks at byte level with a linear order on addresses; the parsers
      and printers of \<^verbatim>\<open>net\<close>, \<^verbatim>\<open>net/netip\<close> and the sloppy parsers of \<^verbatim>\<open>k8s.io/utils\<close>; \<^verbatim>\<open>path/filepath\<close>.
    \<^item> \<^verbatim>\<open>IPHelpers\<close> (\<^verbatim>\<open>pkg/iphelpers\<close>): arithmetic on addresses, usable ranges, division of a range
      into slices. The slices of a range partition it; usable addresses are counted correctly.
      The locale \<open>ip_net\<close> states what the allocator relies on and is interpreted on these functions.
    \<^item> \<^verbatim>\<open>Types\<close>, \<^verbatim>\<open>Kube\<close> (\<^verbatim>\<open>pkg/types\<close>, \<^verbatim>\<open>api/v1alpha1\<close>): configuration and API objects as records, and the
      API as a parameter.
    \<^item> \<^verbatim>\<open>Allocate\<close> (\<^verbatim>\<open>pkg/allocate\<close>): assignment and release on a reservation list. The locale \<open>ip_scan\<close>
      extends \<open>ip_net\<close> by the scan for a free address; the loop of the code is a
      \<^verbatim>\<open>partial_function\<close>, and it is proved that it returns. An assigned address is free, in range and
      not excluded, the scan takes the lowest one, fails only if there is none, and the list
      keeps distinct addresses and owners.
    \<^item> \<^verbatim>\<open>Pool\<close>, \<^verbatim>\<open>Storage\<close> (\<^verbatim>\<open>pkg/storage/kubernetes\<close>): names, pools and their JSON patches, cluster-wide
      reservations; the retry loop of \<^verbatim>\<open>IPManagementKubernetesUpdate\<close> in its phases, rollback and
      leader election. The retry bound is the code's: 100 attempts per range (\<^verbatim>\<open>DatastoreRetries\<close>), 5
      for a rollback; the loops recurse on these numbers, so no fuel is chosen. The locales
      \<open>api_reads\<close> and, with the patch, \<open>api_order\<close> order the worlds a run passes through; the latter is
      interpreted on the least such order, reachability by API calls. A successful allocation has read, assigned and
      written each address during the call; the patch of an update applies exactly to an
      unchanged pool; the written pool is read back unchanged.
    \<^item> \<^verbatim>\<open>Cluster\<close>: any number of plugins, interleaved at the level of API calls, as an inductive step
      relation on pool and snapshots. It refines a ledger with atomic grants and releases, so no
      address is handed out twice; with the reconciler's unconditional patch this fails.
    \<^item> \<^verbatim>\<open>Interleaving\<close>: the code against that step relation. On an API that other plugins use during
      every call, each call of \<^verbatim>\<open>IPManagementKubernetesUpdate\<close>, with its retries, lost answers and
      rollbacks, is a run of plugin steps, so that the invariants of \<^verbatim>\<open>Cluster\<close> hold for the code.
    \<^item> \<^verbatim>\<open>Rollback\<close>, \<^verbatim>\<open>Release\<close>: several ranges in one call. On a reliable API without other writers an ADD that
      fails leaves every pool with the reservations it had, whichever range or reservation failed;
      on success all ranges are reserved. A DEL removes what the container has in the ranges and
      nothing else, and an ADD followed by a DEL leaves the pools as they were.
    \<^item> \<^verbatim>\<open>Exclusive\<close>: overlapping ranges. While an address is reserved for another pod, no attempt assigns
      it, from whichever pool.
    \<^item> \<^verbatim>\<open>Client\<close> (\<^verbatim>\<open>client.go\<close>): the API client and the namespace of the pools from a kubeconfig, and the
      lists of stored objects.
    \<^item> \<^verbatim>\<open>Config\<close>, \<^verbatim>\<open>Cmd\<close> (\<^verbatim>\<open>pkg/config\<close>, \<^verbatim>\<open>cmd/whereabouts\<close>): loading and merging of the configuration, ADD, DEL
      (3 attempts) and CHECK, from standard input to the result. A loaded configuration is normal, gateway and static addresses are
      never assigned, CHECK accepts what ADD returned.
    \<^item> \<^verbatim>\<open>Validation\<close> (\<^verbatim>\<open>internal/validation\<close>, \<^verbatim>\<open>internal/webhook\<close>): the three validators; the locale
      \<open>admission\<close>, interpreted on each, gives the invariants of admitted histories.
    \<^item> \<^verbatim>\<open>Conditions\<close>, \<^verbatim>\<open>PatchHelper\<close>, \<^verbatim>\<open>IPPoolController\<close>, \<^verbatim>\<open>OverlappingRangeController\<close>, \<^verbatim>\<open>NodeSlice\<close>,
      \<^verbatim>\<open>Operator\<close> (\<^verbatim>\<open>internal/controller\<close>, \<^verbatim>\<open>cmd/operator\<close>): status conditions, the split patch (locale
      \<open>split_object\<close>, interpreted on the three kinds of objects), the reconcilers with all they
      call, and the operator's options. The reconcilers release what no pod holds and nothing
      that a live pod holds; nodes never share addresses of their slices.
    \<^item> \<^verbatim>\<open>Watch\<close>, \<^verbatim>\<open>Startup\<close> (\<^verbatim>\<open>internal/controller/setup.go\<close>, \<^verbatim>\<open>cmd/operator\<close>, \<^verbatim>\<open>internal/webhook/setup.go\<close>,
      \<^verbatim>\<open>certrotator\<close>): event filters, registration and the work queue on an informer that lags behind the
      API, as step relations; the start of the operator, its certificates and webhooks. The locale
      \<open>watched\<close> states when a filter suits a controller and is interpreted on both filters; \<open>ctrl_order\<close>
      orders the worlds a reconciler passes through. No pool or reservation drops out of the
      queue while it needs the controller; readiness means that all webhooks are registered.
    \<^item> \<^verbatim>\<open>DeepCopy\<close> (\<^verbatim>\<open>zz_generated.deepcopy.go\<close>): the copies of API objects on a heap of maps, slices and pointers. The
      locale \<open>deep_copy\<close> is interpreted on every copy function: a copy is made of new cells and
      means the same, so object and copy are independent. The other theories may therefore treat
      objects as values; shown for the snapshot of the reconciler and its changes in place.
    \<^item> \<^verbatim>\<open>Metrics\<close> (\<^verbatim>\<open>metrics.go\<close>, \<^verbatim>\<open>pkg/version\<close>): gauges and counters as maps; the webhook counters are the numbers
      of answers; the version string.
    \<^item> \<^verbatim>\<open>Install\<close>, \<^verbatim>\<open>Logging\<close> (\<^verbatim>\<open>cmd/install-cni\<close>, \<^verbatim>\<open>pkg/logging\<close>): files are replaced atomically under failing
      system calls and concurrent readers, by Hoare triples over the visible file systems; the
      kubeconfig follows the credentials; the plugin finds what the installer wrote; log files
      stay under the allowed directories.

  \<^bold>\<open>Findings.\<close> Theorems that state where the code does not do what it means to: an address of another
  pod is returned after 100 conflicts (\<^verbatim>\<open>Storage.overlap_exhaustion_unreserved\<close>), the reconciler can
  remove a fresh allocation (\<^verbatim>\<open>Cluster.reaper_races_plugins\<close>), a release can remove the cluster-wide
  reservation of another pod (\<^verbatim>\<open>Exclusive.release_removes_foreign_reservation\<close>), a token rotation right after the
  installation is missed (\<^verbatim>\<open>Install.early_rotation_missed\<close>), ranges with host bits lose or misread
  reservations (\<^verbatim>\<open>Pool.toAllocationMap_collision\<close>, \<^verbatim>\<open>IPPoolController.host_bits_disagree\<close>), IPv6 names read as
  IPv4 (\<^verbatim>\<open>IPPoolController.ipv6_name_misread\<close>), excludes in IPv4-mapped notation that do not exclude
  (\<^verbatim>\<open>Allocate.mapped_exclude_not_skipped\<close>), an interval of zero that ends the checks of a pool
  (\<^verbatim>\<open>Watch.zero_interval_forgets\<close>), a first rollback attempt that is always refused
  (\<^verbatim>\<open>Rollback.rollback_on_stale_copy\<close>), orphans counted once per failing pass
  (\<^verbatim>\<open>Metrics.orphans_counted_per_pass\<close>), and others beside the definitions they are about.

  \<^bold>\<open>Not modelled.\<close> JSON and YAML encoding, \<^verbatim>\<open>cnitypes.LoadArgs\<close>, the decoders of the CNI library, the
  leader-election protocol, the manager of controller-runtime and the rotation of certificates
  are parameters. Generated clients, listers, informers, apply configurations and OpenAPI schemas have
  no logic of the program's own; the end-to-end tests are left out. In \<^verbatim>\<open>DeepCopy\<close> the metadata has the
  fields that the program uses. In \<^verbatim>\<open>Interleaving\<close> a call has one range, in \<^verbatim>\<open>Rollback\<close> and \<^verbatim>\<open>Release\<close> calls
  have no rivals; in \<^verbatim>\<open>Watch\<close> the informer receives the states of an object in order, without the
  relisting after a lost connection. Real time and the durability of files after a power loss are
  outside the model.
\<close>

end
